(* ===== verification/Prelude.thy ===== *)
theory Prelude
  imports Main "HOL-Library.Char_ord" "HOL-Library.List_Lexorder" "HOL-Library.AList"
begin

section \<open>Prelude: values, dictionaries and the conventions every component shares\<close>

text \<open>
  The program is Python. Its values that cross a component boundary untyped (stored
  artifacts, findings, refuter annotations) are JSON values, modelled by \<open>pyval\<close>;
  values with a fixed type in the source are given that type directly. A raised exception
  is the left side of a sum, so every \<open>raise\<close> of the source is a branch of the model.

  Text is the type \<open>string\<close>: one \<open>char\<close> per code point, so the development
  covers text in the code points 0 to 255. Bytes are \<open>string\<close>s too, one \<open>char\<close>
  per byte. A float is identified by its \<open>repr\<close>, which is how it prints and all the
  modelled code ever does with one.
\<close>

subsection \<open>Collections of rules the component theories extend\<close>

named_theorems state_defs \<open>definitions of the state-changing operations, for unfolding\<close>
named_theorems inv_intros \<open>preservation lemmas, one per operation\<close>
named_theorems err_simps \<open>when an operation raises\<close>

subsection \<open>JSON values\<close>

datatype pyval =
    PNone
  | PBool bool
  | PInt int
  | PFloat string
  | PStr string
  | PList "pyval list"
  | PDict "(string \<times> pyval) list"

type_synonym pydict = "(string \<times> pyval) list"

text \<open>\<open>dict.get(key)\<close>: the value, or \<open>None\<close> when the key is absent.\<close>

definition dget :: "pydict \<Rightarrow> string \<Rightarrow> pyval" where
  "dget d k = (case map_of d k of None \<Rightarrow> PNone | Some v \<Rightarrow> v)"

text \<open>\<open>dict.get(key, default)\<close>.\<close>

definition dget_or :: "pydict \<Rightarrow> string \<Rightarrow> pyval \<Rightarrow> pyval" where
  "dget_or d k v = (case map_of d k of None \<Rightarrow> v | Some w \<Rightarrow> w)"

definition dhas :: "pydict \<Rightarrow> string \<Rightarrow> bool" where
  "dhas d k \<longleftrightarrow> map_of d k \<noteq> None"

text \<open>\<open>d[key] = value\<close>: in place when the key exists, appended otherwise.\<close>

definition dset :: "string \<Rightarrow> pyval \<Rightarrow> pydict \<Rightarrow> pydict" where
  "dset k v d = AList.update k v d"

lemma map_of_dset [simp]: "map_of (dset k v d) = (map_of d)(k \<mapsto> v)"
  by (rule ext) (simp add: dset_def update_conv)

lemma dget_dset [simp]: "dget (dset k v d) k' = (if k = k' then v else dget d k')"
  by (simp add: dget_def)

lemma dhas_dset [simp]: "dhas (dset k v d) k' \<longleftrightarrow> k = k' \<or> dhas d k'"
  by (simp add: dhas_def)

lemma dget_or_dset [simp]:
  "dget_or (dset k v d) k' w = (if k = k' then v else dget_or d k' w)"
  by (simp add: dget_or_def)

lemma dhas_dget: "dget d k \<noteq> PNone \<Longrightarrow> dhas d k"
  by (simp add: dget_def dhas_def split: option.splits)

lemma dget_or_dhas: "dhas d k \<Longrightarrow> dget_or d k w = dget d k"
  by (auto simp: dget_or_def dget_def dhas_def)

subsection \<open>Type tests and truthiness\<close>

fun is_str :: "pyval \<Rightarrow> bool" where
  "is_str (PStr _) = True" | "is_str _ = False"

fun is_bool :: "pyval \<Rightarrow> bool" where
  "is_bool (PBool _) = True" | "is_bool _ = False"

fun is_dict :: "pyval \<Rightarrow> bool" where
  "is_dict (PDict _) = True" | "is_dict _ = False"

fun is_list :: "pyval \<Rightarrow> bool" where
  "is_list (PList _) = True" | "is_list _ = False"

text \<open>
  A plain integer: \<open>isinstance(v, int) and not isinstance(v, bool)\<close>. A \<open>PBool\<close> is
  an \<open>int\<close> to Python, so the source always spells the second half out.
\<close>

fun is_int :: "pyval \<Rightarrow> bool" where
  "is_int (PInt _) = True" | "is_int _ = False"

text \<open>\<open>bool(v)\<close>.\<close>

fun truthy :: "pyval \<Rightarrow> bool" where
  "truthy PNone = False"
| "truthy (PBool b) = b"
| "truthy (PInt i) = (i \<noteq> 0)"
| "truthy (PFloat r) = (r \<noteq> ''0.0'' \<and> r \<noteq> ''-0.0'')"
| "truthy (PStr s) = (s \<noteq> [])"
| "truthy (PList xs) = (xs \<noteq> [])"
| "truthy (PDict d) = (d \<noteq> [])"

text \<open>\<open>v.get(k) if isinstance(v, dict)\<close>, with \<open>None\<close> for anything else.\<close>

fun vget :: "pyval \<Rightarrow> string \<Rightarrow> pyval" where
  "vget (PDict d) k = dget d k" | "vget _ _ = PNone"

text \<open>A value as a dictionary or a list, empty when it is neither, and \<open>dict.update\<close>.\<close>

fun as_dict :: "pyval \<Rightarrow> pydict" where
  "as_dict (PDict d) = d" | "as_dict _ = []"

fun as_list :: "pyval \<Rightarrow> pyval list" where
  "as_list (PList l) = l" | "as_list _ = []"

definition dict_update :: "pydict \<Rightarrow> pydict \<Rightarrow> pydict" where
  "dict_update base art = foldl (\<lambda>d (k, v). dset k v d) base art"

lemma is_str_E: "is_str v \<Longrightarrow> (\<And>s. v = PStr s \<Longrightarrow> P) \<Longrightarrow> P"
  by (cases v) auto

lemma is_bool_E: "is_bool v \<Longrightarrow> (\<And>b. v = PBool b \<Longrightarrow> P) \<Longrightarrow> P"
  by (cases v) auto

subsection \<open>Sequencing of fallible steps\<close>

text \<open>\<open>ebind r f\<close> runs \<open>f\<close> on the value of \<open>r\<close>, or passes the error on.\<close>

fun ebind :: "'e + 'a \<Rightarrow> ('a \<Rightarrow> 'e + 'b) \<Rightarrow> 'e + 'b" where
  "ebind (Inl e) f = Inl e"
| "ebind (Inr x) f = f x"

definition guard :: "bool \<Rightarrow> 'e \<Rightarrow> 'e + unit" where
  "guard b e = (if b then Inr () else Inl e)"

lemma ebind_Inr_iff: "ebind r f = Inr y \<longleftrightarrow> (\<exists>x. r = Inr x \<and> f x = Inr y)"
  by (cases r) auto

lemma ebind_Inl_iff:
  "ebind r f = Inl e \<longleftrightarrow> r = Inl e \<or> (\<exists>x. r = Inr x \<and> f x = Inl e)"
  by (cases r) auto

lemma guard_Inr_iff [simp]: "guard b e = Inr u \<longleftrightarrow> b"
  by (simp add: guard_def)

lemma guard_Inl_iff [simp]: "guard b e = Inl e' \<longleftrightarrow> \<not> b \<and> e' = e"
  by (auto simp: guard_def)

lemmas err_iffs = ebind_Inr_iff ebind_Inl_iff guard_Inr_iff guard_Inl_iff

subsection \<open>Decimal text\<close>

definition digit_char :: "nat \<Rightarrow> char" where
  "digit_char d = char_of (48 + d)"

fun show_nat :: "nat \<Rightarrow> string" where
  "show_nat n = (if n < 10 then [digit_char n] else show_nat (n div 10) @ [digit_char (n mod 10)])"

declare show_nat.simps [simp del]

definition show_int :: "int \<Rightarrow> string" where
  "show_int i = (if i < 0 then CHR ''-'' # show_nat (nat (- i)) else show_nat (nat i))"

lemma digit_char_range: "d < 10 \<Longrightarrow> of_char (digit_char d) = (48 + d :: nat)"
  by (simp add: digit_char_def)

lemma show_nat_digits: "c \<in> set (show_nat n) \<Longrightarrow> \<exists>d<10. c = digit_char d"
proof (induction n rule: show_nat.induct)
  case (1 n)
  show ?case
  proof (cases "n < 10")
    case True
    with "1.prems" show ?thesis by (subst (asm) show_nat.simps) auto
  next
    case False
    with "1.prems" have "c \<in> set (show_nat (n div 10)) \<or> c = digit_char (n mod 10)"
      by (subst (asm) show_nat.simps) auto
    with "1.IH" [OF False] show ?thesis by (metis mod_less_divisor zero_less_numeral)
  qed
qed

lemma show_int_chars: "c \<in> set (show_int i) \<Longrightarrow> c = CHR ''-'' \<or> (\<exists>d<10. c = digit_char d)"
  by (auto simp: show_int_def split: if_splits dest: show_nat_digits)

subsection \<open>Lists\<close>

text \<open>\<open>xs[0:n]\<close>-style helpers and the stable minimum a sort-then-take-first picks.\<close>

definition starts_with :: "string \<Rightarrow> string \<Rightarrow> bool" where
  "starts_with p s \<longleftrightarrow> take (length p) s = p"

lemma starts_with_append [simp]: "starts_with p (p @ s)"
  by (simp add: starts_with_def)

lemma starts_with_Nil [simp]: "starts_with [] s"
  by (simp add: starts_with_def)

text \<open>\<open>sep.join(parts)\<close>.\<close>

fun join :: "string \<Rightarrow> string list \<Rightarrow> string" where
  "join sep [] = []"
| "join sep [x] = x"
| "join sep (x # y # xs) = x @ sep @ join sep (y # xs)"

lemma set_join: "set (join sep xs) \<subseteq> set sep \<union> \<Union> (set ` set xs)"
  by (induction sep xs rule: join.induct) auto

text \<open>Keep a list's first occurrences: \<open>if x not in acc: acc.append(x)\<close>, repeated.\<close>

fun append_new :: "'a list \<Rightarrow> 'a list \<Rightarrow> 'a list" where
  "append_new acc [] = acc"
| "append_new acc (x # xs) = append_new (if x \<in> set acc then acc else acc @ [x]) xs"

lemma set_append_new [simp]: "set (append_new acc xs) = set acc \<union> set xs"
  by (induction acc xs rule: append_new.induct) auto

lemma distinct_append_new: "distinct acc \<Longrightarrow> distinct (append_new acc xs)"
  by (induction acc xs rule: append_new.induct) auto

subsection \<open>Tables keyed by an identifier, in insertion order\<close>

text \<open>
  A database table with a primary key is the list of its rows in rowid order.
  \<open>ON CONFLICT(id) DO UPDATE\<close> keeps the row's place, a new key goes to the end.
\<close>

fun tbl_find :: "('r \<Rightarrow> string) \<Rightarrow> string \<Rightarrow> 'r list \<Rightarrow> 'r option" where
  "tbl_find key k [] = None"
| "tbl_find key k (r # rs) = (if key r = k then Some r else tbl_find key k rs)"

fun tbl_upsert :: "('r \<Rightarrow> string) \<Rightarrow> 'r \<Rightarrow> 'r list \<Rightarrow> 'r list" where
  "tbl_upsert key r [] = [r]"
| "tbl_upsert key r (x # xs) = (if key x = key r then r # xs else x # tbl_upsert key r xs)"

text \<open>\<open>UPDATE ... SET f WHERE p\<close>.\<close>

definition tbl_update :: "('r \<Rightarrow> bool) \<Rightarrow> ('r \<Rightarrow> 'r) \<Rightarrow> 'r list \<Rightarrow> 'r list" where
  "tbl_update p f rs = map (\<lambda>r. if p r then f r else r) rs"

definition keyed :: "('r \<Rightarrow> string) \<Rightarrow> 'r list \<Rightarrow> bool" where
  "keyed key rs \<longleftrightarrow> distinct (map key rs)"

lemma tbl_find_Some_mem: "tbl_find key k rs = Some r \<Longrightarrow> r \<in> set rs \<and> key r = k"
  by (induction rs) (auto split: if_splits)

lemma tbl_find_None_iff: "tbl_find key k rs = None \<longleftrightarrow> k \<notin> key ` set rs"
  by (induction rs) auto

lemma keyed_unique: "keyed key rs \<Longrightarrow> x \<in> set rs \<Longrightarrow> y \<in> set rs \<Longrightarrow> key x = key y \<Longrightarrow> x = y"
  by (auto simp: keyed_def distinct_map inj_on_def)

lemma tbl_find_mem: "keyed key rs \<Longrightarrow> r \<in> set rs \<Longrightarrow> tbl_find key (key r) rs = Some r"
  by (induction rs) (auto simp: keyed_def rev_image_eqI)

lemma tbl_find_upsert_same [simp]: "tbl_find key (key r) (tbl_upsert key r rs) = Some r"
  by (induction rs) auto

lemma tbl_find_upsert_other:
  "k \<noteq> key r \<Longrightarrow> tbl_find key k (tbl_upsert key r rs) = tbl_find key k rs"
  by (induction rs) auto

lemma set_keys_upsert: "key ` set (tbl_upsert key r rs) = insert (key r) (key ` set rs)"
  by (induction rs) auto

lemma keyed_upsert: "keyed key rs \<Longrightarrow> keyed key (tbl_upsert key r rs)"
proof (induction rs)
  case (Cons x xs)
  then show ?case
    using set_keys_upsert [of key r xs] by (auto simp: keyed_def simp flip: image_set)
qed (simp add: keyed_def)

lemma tbl_upsert_mem: "x \<in> set (tbl_upsert key r rs) \<Longrightarrow> x = r \<or> x \<in> set rs"
  by (induction rs) (auto split: if_splits)

lemma tbl_find_update:
  assumes "\<And>r. key (f r) = key r"
  shows "tbl_find key k (tbl_update p f rs) =
    map_option (\<lambda>r. if p r then f r else r) (tbl_find key k rs)"
  using assms by (induction rs) (auto simp: tbl_update_def)

lemma keyed_update: "(\<And>r. key (f r) = key r) \<Longrightarrow> keyed key rs \<Longrightarrow> keyed key (tbl_update p f rs)"
proof -
  assume f: "\<And>r. key (f r) = key r" and k: "keyed key rs"
  have "map key (tbl_update p f rs) = map key rs"
    by (auto simp: tbl_update_def f)
  with k show ?thesis by (simp add: keyed_def)
qed

lemma tbl_update_mem:
  "x \<in> set (tbl_update p f rs) \<Longrightarrow> \<exists>r \<in> set rs. x = (if p r then f r else r)"
  by (auto simp: tbl_update_def)

subsection \<open>Interfaces\<close>

text \<open>
  \<open>keyed_table\<close>: what a component that stores rows under a key relies on. The reviews table
  (by review id) and the triage ledger (last event by finding) are both instances.
\<close>

locale keyed_table =
  fixes fetch :: "'k \<Rightarrow> 't \<Rightarrow> 'r option"
    and put :: "'r \<Rightarrow> 't \<Rightarrow> 't"
    and ident :: "'r \<Rightarrow> 'k"
  assumes fetch_put_same: "fetch (ident r) (put r t) = Some r"
    and fetch_put_other: "k \<noteq> ident r \<Longrightarrow> fetch k (put r t) = fetch k t"
begin

lemma fetch_put: "fetch k (put r t) = (if k = ident r then Some r else fetch k t)"
  by (simp add: fetch_put_same fetch_put_other)

lemma put_twice: "ident r = ident r' \<Longrightarrow> fetch k (put r (put r' t)) = fetch k (put r t)"
  by (simp add: fetch_put)

lemma put_commute:
  "ident r \<noteq> ident r' \<Longrightarrow> fetch k (put r (put r' t)) = fetch k (put r' (put r t))"
  by (simp add: fetch_put)

end

text \<open>
  \<open>safe_machine\<close>: a component whose operations are steps from an initial state. An
  invariant that holds at the start and that every step keeps holds after every run.
\<close>

inductive reachable_by :: "'s \<Rightarrow> ('s \<Rightarrow> 's \<Rightarrow> bool) \<Rightarrow> 's \<Rightarrow> bool" for s0 step where
  reach_init: "reachable_by s0 step s0"
| reach_step: "reachable_by s0 step s \<Longrightarrow> step s t \<Longrightarrow> reachable_by s0 step t"

locale safe_machine =
  fixes init :: "'s"
    and step :: "'s \<Rightarrow> 's \<Rightarrow> bool"
    and inv :: "'s \<Rightarrow> bool"
  assumes inv_init: "inv init"
    and inv_step: "inv s \<Longrightarrow> step s t \<Longrightarrow> inv t"
begin

lemma reachable_inv: "reachable_by init step s \<Longrightarrow> inv s"
  by (induction rule: reachable_by.induct) (auto intro: inv_init inv_step)

end

text \<open>A machine with a relation between earlier and later states, such as a counter that only grows.\<close>

locale history_machine = safe_machine +
  fixes keeps :: "'s \<Rightarrow> 's \<Rightarrow> bool"
  assumes keeps_refl: "keeps s s"
    and keeps_trans: "keeps s t \<Longrightarrow> keeps t u \<Longrightarrow> keeps s u"
    and keeps_step: "inv s \<Longrightarrow> step s t \<Longrightarrow> keeps s t"
begin

lemma run_inv: "step\<^sup>*\<^sup>* s t \<Longrightarrow> inv s \<Longrightarrow> inv t"
  by (induction rule: rtranclp_induct) (auto intro: inv_step)

lemma run_keeps: "step\<^sup>*\<^sup>* s t \<Longrightarrow> inv s \<Longrightarrow> keeps s t"
proof (induction rule: rtranclp_induct)
  case base
  show ?case by (rule keeps_refl)
next
  case (step t u)
  then show ?case using run_inv [of s t] by (blast intro: keeps_trans keeps_step)
qed

end

end
