(* ===== verification/PyText.thy ===== *)
theory PyText
  imports Prelude
begin

section \<open>Text: normal forms, content keys and single-line rendering\<close>

text \<open>
  Models \<open>textnorm.py\<close> (the content-identity keys of the triage ledger), \<open>trust.py\<close>
  (the trust rule and the verdict banner) and the pieces of Python's \<open>str\<close> they use,
  exactly, on code points 0 to 255. SHA-256 is a parameter \<open>H\<close> of the keys: nothing
  here depends on what it computes.
\<close>

subsection \<open>Python's text primitives on code points 0 to 255\<close>

abbreviation code :: "char \<Rightarrow> nat" where "code c \<equiv> of_char c"

text \<open>\<open>str.isspace()\<close>, which is also what \<open>\s\<close> matches and what \<open>strip()\<close> removes.\<close>

definition is_space :: "char \<Rightarrow> bool" where
  "is_space c \<longleftrightarrow> code c \<in> {9, 10, 11, 12, 13, 28, 29, 30, 31, 32, 133, 160}"

text \<open>\<open>str.lower()\<close>: no character of the range changes the length of the text.\<close>

definition lower_char :: "char \<Rightarrow> char" where
  "lower_char c = (let n = code c in
     if 65 \<le> n \<and> n \<le> 90 \<or> 192 \<le> n \<and> n \<le> 222 \<and> n \<noteq> 215 then char_of (n + 32) else c)"

definition lower :: "string \<Rightarrow> string" where
  "lower s = map lower_char s"

definition lstrip :: "string \<Rightarrow> string" where
  "lstrip s = dropWhile is_space s"

definition strip :: "string \<Rightarrow> string" where
  "strip s = rev (dropWhile is_space (rev (lstrip s)))"

text \<open>\<open>re.sub(r"\s+", " ", s)\<close>: each maximal run of white space becomes one blank.\<close>

fun squeeze :: "bool \<Rightarrow> string \<Rightarrow> string" where
  "squeeze in_run [] = []"
| "squeeze in_run (c # cs) =
     (if is_space c then (if in_run then squeeze True cs else CHR '' '' # squeeze True cs)
      else c # squeeze False cs)"

text \<open>\<open>str.replace\<close> of one character by another, as \<open>one_line\<close> uses it.\<close>

definition replace_char :: "char \<Rightarrow> char \<Rightarrow> string \<Rightarrow> string" where
  "replace_char a b s = map (\<lambda>c. if c = a then b else c) s"

text \<open>\<open>str.splitlines()\<close>: the line boundaries below 256 are LF, VT, FF, CR, CR LF, FS, GS,
  RS and NEL; a final boundary does not open another line.\<close>

definition is_line_end :: "char \<Rightarrow> bool" where
  "is_line_end c \<longleftrightarrow> code c \<in> {10, 11, 12, 13, 28, 29, 30, 133}"

fun str_lines :: "string \<Rightarrow> string \<Rightarrow> string list" where
  "str_lines cur [] = (if cur = [] then [] else [cur])"
| "str_lines cur [c] = (if is_line_end c then [cur] else [cur @ [c]])"
| "str_lines cur (c # d # cs) =
     (if is_line_end c
      then (if code c = 13 \<and> code d = 10 then cur # str_lines [] cs
            else cur # str_lines [] (d # cs))
      else str_lines (cur @ [c]) (d # cs))"

subsubsection \<open>\<open>str(v)\<close> and \<open>repr(v)\<close> of JSON values\<close>

definition hex_char :: "nat \<Rightarrow> char" where
  "hex_char d = (if d < 10 then char_of (48 + d) else char_of (87 + d))"

definition repr_char :: "char \<Rightarrow> char \<Rightarrow> string" where
  "repr_char quote c = (let n = code c in
     if c = quote \<or> n = 92 then [CHR 0x5C, c]
     else if n = 9 then [CHR 0x5C, CHR ''t'']
     else if n = 10 then [CHR 0x5C, CHR ''n'']
     else if n = 13 then [CHR 0x5C, CHR ''r'']
     else if n < 32 \<or> 127 \<le> n \<and> n \<le> 160 \<or> n = 173
       then [CHR 0x5C, CHR ''x'', hex_char (n div 16), hex_char (n mod 16)]
     else [c])"

definition repr_str :: "string \<Rightarrow> string" where
  "repr_str s =
     (let q = (if CHR 0x27 \<in> set s \<and> CHR 0x22 \<notin> set s
               then CHR 0x22 else CHR 0x27)
      in q # concat (map (repr_char q) s) @ [q])"

fun py_repr :: "pyval \<Rightarrow> string" where
  "py_repr PNone = ''None''"
| "py_repr (PBool b) = (if b then ''True'' else ''False'')"
| "py_repr (PInt i) = show_int i"
| "py_repr (PFloat r) = r"
| "py_repr (PStr s) = repr_str s"
| "py_repr (PList vs) = ''['' @ join '', '' (map py_repr vs) @ '']''"
| "py_repr (PDict d) =
     CHR ''{'' # join '', '' (map (\<lambda>(k, v). repr_str k @ '': '' @ py_repr v) d) @ ''}''"

fun py_str :: "pyval \<Rightarrow> string" where
  "py_str (PStr s) = s"
| "py_str v = py_repr v"

subsubsection \<open>Reading an integer\<close>

text \<open>\<open>int(text)\<close>: surrounding white space, a sign, digits with single underscores between
  them, at most 4300 of them.\<close>

definition digit_of :: "char \<Rightarrow> nat option" where
  "digit_of c = (let n = code c in if 48 \<le> n \<and> n \<le> 57 then Some (n - 48) else None)"

fun read_digits :: "nat \<Rightarrow> bool \<Rightarrow> string \<Rightarrow> nat option" where
  "read_digits acc after [] = (if after then Some acc else None)"
| "read_digits acc after (c # cs) =
     (case digit_of c of
        Some d \<Rightarrow> read_digits (10 * acc + d) True cs
      | None \<Rightarrow> if c = CHR 0x5F \<and> after then read_digits acc False cs else None)"

definition int_of_text :: "string \<Rightarrow> int option" where
  "int_of_text s =
     (let t = strip s; body = (if t \<noteq> [] \<and> hd t \<in> {CHR ''+'', CHR ''-''} then tl t else t) in
      if 4300 < length (filter (\<lambda>c. digit_of c \<noteq> None) body) then None
      else map_option (\<lambda>n. if t \<noteq> [] \<and> hd t = CHR ''-'' then - int n else int n)
             (read_digits 0 False body))"

subsection \<open>\<open>textnorm.py\<close>\<close>

text \<open>\<open>collapse_ws(s)\<close>, on \<open>str(s or "")\<close>, and \<open>norm(s)\<close>.\<close>

definition or_empty :: "pyval \<Rightarrow> string" where
  "or_empty v = (if truthy v then py_str v else [])"

definition collapse_str :: "string \<Rightarrow> string" where
  "collapse_str s = strip (squeeze False s)"

definition collapse_ws :: "pyval \<Rightarrow> string" where
  "collapse_ws v = collapse_str (or_empty v)"

definition norm_str :: "string \<Rightarrow> string" where
  "norm_str s = lower (collapse_str s)"

definition norm :: "pyval \<Rightarrow> string" where
  "norm v = lower (collapse_ws v)"

abbreviation NUL :: string where "NUL \<equiv> [CHR 0x00]"

text \<open>\<open>finding_key(file, title)\<close>: file and title, deliberately not the line.\<close>

definition finding_key :: "(string \<Rightarrow> string) \<Rightarrow> pyval \<Rightarrow> pyval \<Rightarrow> string" where
  "finding_key H file title = take 16 (H (norm file @ NUL @ norm title))"

text \<open>\<open>ledger_key(branch, base_sha, fkey)\<close>: one branch, one merge base, one finding.\<close>

definition ledger_key :: "string \<Rightarrow> string \<Rightarrow> string \<Rightarrow> string" where
  "ledger_key branch base_sha fkey = join NUL [norm_str branch, norm_str base_sha, fkey]"

subsection \<open>\<open>trust.py\<close>\<close>

text \<open>\<open>is_trustworthy\<close>: on real booleans. Its coercions by truthiness are written out in
  \<open>is_trustworthy_py\<close>.\<close>

definition is_trustworthy :: "bool \<Rightarrow> bool \<Rightarrow> bool \<Rightarrow> bool" where
  "is_trustworthy parse_ok degraded diff_truncated \<longleftrightarrow>
     parse_ok \<and> \<not> degraded \<and> \<not> diff_truncated"

definition is_trustworthy_py :: "pyval \<Rightarrow> pyval \<Rightarrow> pyval \<Rightarrow> bool" where
  "is_trustworthy_py p d t = is_trustworthy (truthy p) (truthy d) (truthy t)"

definition lower_bool :: "pyval \<Rightarrow> string" where
  "lower_bool v = (if truthy v then ''true'' else ''false'')"

fun coerce_count :: "pyval \<Rightarrow> int" where
  "coerce_count (PInt i) = i"
| "coerce_count _ = 0"

abbreviation CR :: char where "CR \<equiv> CHR 0x0D"
abbreviation LF :: char where "LF \<equiv> CHR 0x0A"

definition one_line :: "pyval \<Rightarrow> string" where
  "one_line v = (if v = PNone then []
     else replace_char LF CHR '' '' (replace_char CR CHR '' '' (py_str v)))"

definition flatten_lines :: "string \<Rightarrow> string" where
  "flatten_lines message = join '' | '' (str_lines [] message)"

definition banner :: "pydict \<Rightarrow> string" where
  "banner review =
     (let sev = (case dget review ''severity'' of PDict d \<Rightarrow> d | _ \<Rightarrow> []);
          head = take 9 (one_line (dget review ''head''))
      in ''SKODUN VERDICT: ''
         @ ''trustworthy='' @ lower_bool (dget review ''trustworthy'')
         @ '' findings='' @ show_int (coerce_count (dget review ''findings_total''))
         @ '' degraded='' @ lower_bool (dget review ''degraded'')
         @ '' stop_reason='' @ one_line (dget review ''stop_reason'')
         @ '' head='' @ head
         @ '' id='' @ one_line (dget review ''id'')
         @ '' severity='' @ show_int (coerce_count (dget sev ''high''))
         @ ''/'' @ show_int (coerce_count (dget sev ''medium''))
         @ ''/'' @ show_int (coerce_count (dget sev ''low'')))"

definition banner_failure :: "pyval \<Rightarrow> string" where
  "banner_failure reason = ''SKODUN VERDICT: trustworthy=false reason='' @ one_line reason"

subsection \<open>White-space normal form\<close>

lemma is_space_blank [simp]: "is_space CHR '' ''"
  by (simp add: is_space_def)

text \<open>\<open>collapsed s\<close>: no white space but single inner blanks, none at either end.\<close>

fun single_blanks :: "string \<Rightarrow> bool" where
  "single_blanks (c # d # cs) =
     ((is_space c \<longrightarrow> c = CHR '' '' \<and> \<not> is_space d) \<and> single_blanks (d # cs))"
| "single_blanks [c] = (is_space c \<longrightarrow> c = CHR '' '')"
| "single_blanks [] = True"

definition collapsed :: "string \<Rightarrow> bool" where
  "collapsed s \<longleftrightarrow> single_blanks s \<and> (s \<noteq> [] \<longrightarrow> \<not> is_space (hd s) \<and> \<not> is_space (last s))"


lemma single_blanks_Cons:
  "single_blanks (c # s) \<longleftrightarrow>
     (is_space c \<longrightarrow> c = CHR '' '' \<and> (s = [] \<or> \<not> is_space (hd s))) \<and> single_blanks s"
  by (cases s) auto

lemma single_blanks_append:
  "single_blanks (s @ t) \<Longrightarrow> single_blanks s \<and> single_blanks t"
proof (induction s)
  case (Cons c s)
  then show ?case by (cases s) (auto simp: single_blanks_Cons)
qed simp

lemma squeeze_single_blanks:
  "single_blanks (squeeze b s) \<and> (b \<longrightarrow> squeeze b s = [] \<or> \<not> is_space (hd (squeeze b s)))"
  by (induction b s rule: squeeze.induct) (auto simp: single_blanks_Cons)

lemma squeeze_collapsed:
  "single_blanks s \<Longrightarrow> b \<longrightarrow> s = [] \<or> \<not> is_space (hd s) \<Longrightarrow> squeeze b s = s"
  by (induction b s rule: squeeze.induct) (auto simp: single_blanks_Cons)

lemma lstrip_suffix: "\<exists>u. s = u @ lstrip s"
  unfolding lstrip_def by (metis takeWhile_dropWhile_id)

lemma strip_prefix: "\<exists>u. lstrip s = strip s @ u"
proof -
  have "rev (lstrip s) = takeWhile is_space (rev (lstrip s)) @ dropWhile is_space (rev (lstrip s))"
    by simp
  then show ?thesis unfolding strip_def by (metis rev_append rev_rev_ident)
qed

lemma strip_middle: "\<exists>u v. s = u @ strip s @ v"
  using lstrip_suffix [of s] strip_prefix [of s] by metis

lemma hd_strip: "strip s \<noteq> [] \<Longrightarrow> \<not> is_space (hd (strip s))"
  using strip_prefix [of s] hd_dropWhile [of is_space s]
  by (metis append_is_Nil_conv hd_append2 lstrip_def)

lemma last_strip: "strip s \<noteq> [] \<Longrightarrow> \<not> is_space (last (strip s))"
  unfolding strip_def using hd_dropWhile [of is_space "rev (lstrip s)"]
  by (simp add: last_rev)

lemma strip_id:
  assumes "s \<noteq> [] \<longrightarrow> \<not> is_space (hd s) \<and> \<not> is_space (last s)"
  shows "strip s = s"
proof (cases s)
  case Nil
  then show ?thesis by (simp add: strip_def lstrip_def)
next
  case (Cons c cs)
  then have "lstrip s = s" using assms by (simp add: lstrip_def)
  moreover have "dropWhile is_space (rev s) = rev s"
    using assms Cons by (cases "rev s") (auto simp flip: hd_rev)
  ultimately show ?thesis by (simp add: strip_def)
qed

lemma collapsed_collapse_str: "collapsed (collapse_str s)"
proof -
  have "single_blanks (squeeze False s)" using squeeze_single_blanks by blast
  then have "single_blanks (collapse_str s)"
    unfolding collapse_str_def by (metis single_blanks_append strip_middle)
  then show ?thesis
    by (simp add: collapsed_def collapse_str_def hd_strip last_strip)
qed

lemma collapse_str_id: "collapsed s \<Longrightarrow> collapse_str s = s"
  by (simp add: collapsed_def collapse_str_def squeeze_collapsed strip_id)

lemma collapse_str_idem [simp]: "collapse_str (collapse_str s) = collapse_str s"
  by (rule collapse_str_id) (rule collapsed_collapse_str)

lemma strip_strip [simp]: "strip (strip s) = strip s"
proof (cases "strip s = []")
  case True
  then show ?thesis using strip_id [of "[]"] by simp
next
  case False
  then show ?thesis by (intro strip_id) (simp add: hd_strip last_strip)
qed

lemma strip_Nil_iff: "strip s = [] \<longleftrightarrow> (\<forall>c \<in> set s. is_space c)"
proof
  assume "strip s = []"
  then have "\<forall>c \<in> set (lstrip s). is_space c" by (simp add: strip_def dropWhile_eq_Nil_conv)
  then have "lstrip s = []"
    unfolding lstrip_def by (metis hd_dropWhile list.set_sel(1))
  then show "\<forall>c \<in> set s. is_space c" by (simp add: lstrip_def dropWhile_eq_Nil_conv)
next
  assume "\<forall>c \<in> set s. is_space c"
  then have "lstrip s = []" by (simp add: lstrip_def dropWhile_eq_Nil_conv)
  then show "strip s = []" by (simp add: strip_def)
qed

lemma squeeze_nonspace:
  "(\<forall>c \<in> set (squeeze b s). is_space c) \<longleftrightarrow> (\<forall>c \<in> set s. is_space c)"
  by (induction b s rule: squeeze.induct) auto

lemma collapse_str_Nil_iff: "collapse_str s = [] \<longleftrightarrow> (\<forall>c \<in> set s. is_space c)"
  by (simp add: collapse_str_def strip_Nil_iff squeeze_nonspace)

lemma set_strip: "set (strip s) \<subseteq> set s"
  using strip_middle [of s] by (metis Un_subset_iff set_append subset_refl)

lemma set_squeeze: "c \<in> set (squeeze b s) \<Longrightarrow> c \<in> set s \<or> c = CHR '' ''"
  by (induction b s rule: squeeze.induct) (auto split: if_splits)

lemma set_collapse_str: "c \<in> set (collapse_str s) \<Longrightarrow> c \<in> set s \<or> c = CHR '' ''"
  unfolding collapse_str_def by (meson set_squeeze set_strip subsetD)

subsection \<open>Lower case\<close>

lemma code_char_of: "n < 256 \<Longrightarrow> code (char_of n) = (n :: nat)"
  by simp

lemma code_lower_char:
  "code (lower_char c) = (let n = code c in
     if 65 \<le> n \<and> n \<le> 90 \<or> 192 \<le> n \<and> n \<le> 222 \<and> n \<noteq> (215::nat) then n + 32 else n)"
  by (auto simp: lower_char_def Let_def)

lemma code_eq_iff: "code c = (code d :: nat) \<longleftrightarrow> c = d"
  by (metis char_of_char)

lemma lower_char_eq_NUL: "lower_char c = CHR 0x00 \<longleftrightarrow> c = CHR 0x00"
proof -
  have "lower_char c = CHR 0x00 \<longleftrightarrow> code (lower_char c) = (0::nat)"
    using code_eq_iff [of "lower_char c" "CHR 0x00"] by simp
  also have "\<dots> \<longleftrightarrow> code c = (0::nat)"
    unfolding code_lower_char by (simp add: Let_def)
  also have "\<dots> \<longleftrightarrow> c = CHR 0x00"
    using code_eq_iff [of c "CHR 0x00"] by simp
  finally show ?thesis .
qed

lemma is_space_lower_char [simp]: "is_space (lower_char c) = is_space c"
  by (auto simp: lower_char_def is_space_def Let_def)

lemma lower_char_idem [simp]: "lower_char (lower_char c) = lower_char c"
  by (auto simp: lower_char_def Let_def)

lemma lower_char_blank [simp]: "is_space c \<Longrightarrow> lower_char c = c"
  by (auto simp: lower_char_def is_space_def Let_def)

lemma lower_idem [simp]: "lower (lower s) = lower s"
  by (simp add: lower_def)

lemma length_lower [simp]: "length (lower s) = length s"
  by (simp add: lower_def)

lemma lower_Nil_iff [simp]: "lower s = [] \<longleftrightarrow> s = []"
  by (simp add: lower_def)

lemma squeeze_lower: "squeeze b (lower s) = lower (squeeze b s)"
  by (induction b s rule: squeeze.induct) (auto simp: lower_def)

lemma dropWhile_lower: "dropWhile is_space (lower s) = lower (dropWhile is_space s)"
  by (induction s) (auto simp: lower_def)

lemma strip_lower: "strip (lower s) = lower (strip s)"
  unfolding strip_def lstrip_def
  by (metis dropWhile_lower lower_def rev_map)

lemma collapse_str_lower: "collapse_str (lower s) = lower (collapse_str s)"
  by (simp add: collapse_str_def squeeze_lower strip_lower)

lemma norm_str_idem [simp]: "norm_str (norm_str s) = norm_str s"
  by (simp add: norm_str_def collapse_str_lower)

lemma norm_PStr [simp]: "norm (PStr s) = norm_str s"
  by (cases "s = []")
    (simp_all add: norm_def norm_str_def collapse_ws_def or_empty_def)

lemma collapse_ws_PStr [simp]: "collapse_ws (PStr s) = collapse_str s"
  by (cases "s = []") (simp_all add: collapse_ws_def or_empty_def)

lemma norm_str_collapse [simp]: "norm_str (collapse_str s) = norm_str s"
  by (simp add: norm_str_def)

subsection \<open>Content keys\<close>

text \<open>Joining with a separator that occurs in no component loses nothing.\<close>

lemma split_at_sep:
  "x @ a # y = x' @ a # y' \<Longrightarrow> a \<notin> set x \<Longrightarrow> a \<notin> set x' \<Longrightarrow> x = x' \<and> y = y'"
proof (induction x arbitrary: x')
  case Nil
  then show ?case by (cases x') auto
next
  case (Cons c x)
  then show ?case by (cases x') auto
qed

lemma NUL_norm_str:
  assumes "CHR 0x00 \<notin> set s"
  shows "CHR 0x00 \<notin> set (norm_str s)"
proof -
  from assms have "CHR 0x00 \<notin> set (collapse_str s)"
    using set_collapse_str [of "CHR 0x00" s] by auto
  then show ?thesis
    unfolding norm_str_def lower_def set_map using lower_char_eq_NUL by (metis imageE)
qed

lemma ledger_key_inj:
  assumes "ledger_key b s f = ledger_key b' s' f'"
    and "CHR 0x00 \<notin> set b \<union> set s \<union> set b' \<union> set s'"
  shows "norm_str b = norm_str b' \<and> norm_str s = norm_str s' \<and> f = f'"
proof -
  have k: "ledger_key b s f = norm_str b @ CHR 0x00 # norm_str s @ CHR 0x00 # f" for b s f
    by (simp add: ledger_key_def)
  from assms(2) show ?thesis
    using split_at_sep [OF assms(1) [unfolded k]] split_at_sep [of "norm_str s" _ f "norm_str s'" f']
    by (metis NUL_norm_str UnI1 UnI2)
qed

lemma ledger_key_norm: "ledger_key (norm_str b) (norm_str s) f = ledger_key b s f"
  by (simp add: ledger_key_def)

lemma finding_key_norm:
  "finding_key H (PStr (norm_str f)) (PStr (norm_str t)) = finding_key H (PStr f) (PStr t)"
  by (simp add: finding_key_def)

subsection \<open>Single-line records\<close>

definition single_line :: "string \<Rightarrow> bool" where
  "single_line s \<longleftrightarrow> CR \<notin> set s \<and> LF \<notin> set s"

lemma single_line_append [simp]: "single_line (s @ t) \<longleftrightarrow> single_line s \<and> single_line t"
  by (auto simp: single_line_def)

lemma single_line_Cons [simp]: "single_line (c # s) \<longleftrightarrow> c \<noteq> CR \<and> c \<noteq> LF \<and> single_line s"
  by (auto simp: single_line_def)

lemma single_line_Nil [simp]: "single_line []"
  by (simp add: single_line_def)

lemma single_line_take: "single_line s \<Longrightarrow> single_line (take n s)"
  by (auto simp: single_line_def dest: in_set_takeD)

lemma single_line_one_line [simp]: "single_line (one_line v)"
  by (auto simp: single_line_def one_line_def replace_char_def)

lemma digit_char_not_line: "d < 10 \<Longrightarrow> digit_char d \<noteq> CR \<and> digit_char d \<noteq> LF"
  using digit_char_range [of d] by auto

lemma single_line_show_int [simp]: "single_line (show_int i)"
  unfolding single_line_def using show_int_chars [of CR i] show_int_chars [of LF i]
  by (auto simp: digit_char_not_line [THEN conjunct1, THEN not_sym]
      digit_char_not_line [THEN conjunct2, THEN not_sym])

lemma single_line_lower_bool [simp]: "single_line (lower_bool v)"
  by (simp add: lower_bool_def single_line_def)

lemma str_lines_single: "single_line cur \<Longrightarrow> \<forall>l \<in> set (str_lines cur s). single_line l"
proof -
  have nl: "\<not> is_line_end c \<Longrightarrow> c \<noteq> CR \<and> c \<noteq> LF" for c
    by (auto simp: is_line_end_def)
  show "single_line cur \<Longrightarrow> \<forall>l \<in> set (str_lines cur s). single_line l"
    by (induction cur s rule: str_lines.induct) (auto dest: nl)
qed

lemma single_line_join: "single_line sep \<Longrightarrow> \<forall>l \<in> set ls. single_line l \<Longrightarrow> single_line (join sep ls)"
  by (induction sep ls rule: join.induct) auto

lemma single_line_flatten: "single_line (flatten_lines m)"
  using single_line_join [of "'' | ''"] str_lines_single [of "[]" m]
  by (simp add: flatten_lines_def)

subsection \<open>Lines that cannot be split\<close>

definition flat :: "string \<Rightarrow> bool" where
  "flat s \<longleftrightarrow> (\<forall>c \<in> set s. \<not> is_line_end c)"

lemma flat_simps [simp]:
  "flat []" "flat (c # s) \<longleftrightarrow> \<not> is_line_end c \<and> flat s" "flat (s @ t) \<longleftrightarrow> flat s \<and> flat t"
  by (auto simp: flat_def)

lemma flat_take: "flat s \<Longrightarrow> flat (take n s)"
  by (auto simp: flat_def dest: in_set_takeD)

lemma flat_show_int [simp]: "flat (show_int i)"
proof -
  have "\<not> is_line_end c" if "c \<in> set (show_int i)" for c
    using show_int_chars [OF that] by (auto simp: is_line_end_def digit_char_def)
  then show ?thesis by (simp add: flat_def)
qed

lemma flat_show_nat [simp]: "flat (show_nat n)"
proof -
  have "\<not> is_line_end c" if "c \<in> set (show_nat n)" for c
    using show_nat_digits [OF that] by (auto simp: is_line_end_def digit_char_def)
  then show ?thesis by (simp add: flat_def)
qed

lemma flat_join: "flat sep \<Longrightarrow> \<forall>l \<in> set ls. flat l \<Longrightarrow> flat (join sep ls)"
  by (induction sep ls rule: join.induct) auto

lemma str_lines_flat: "flat s \<Longrightarrow> str_lines cur (s @ LF # rest) = (cur @ s) # str_lines [] rest"
proof (induction s arbitrary: cur)
  case Nil
  show ?case by (cases rest) (simp_all add: is_line_end_def)
next
  case (Cons c s)
  then have c: "\<not> is_line_end c" and IH: "str_lines (cur @ [c]) (s @ LF # rest) = (cur @ c # s) # str_lines [] rest" by auto
  obtain d t where d: "s @ LF # rest = d # t" by (cases s) auto
  with c IH show ?case by simp
qed

lemma str_lines_join: "\<forall>l \<in> set ls. flat l \<Longrightarrow> ls \<noteq> [] \<Longrightarrow> str_lines [] (join [LF] ls @ [LF]) = ls"
proof (induction "[LF]" ls rule: join.induct)
  case (2 p)
  then show ?case using str_lines_flat [of p "[]" "[]"] by simp
next
  case (3 p q ps)
  then show ?case using str_lines_flat [of p "[]" "join [LF] (q # ps) @ [LF]"] by simp
qed simp

subsection \<open>Splitting\<close>

text \<open>\<open>text.split(sep)\<close> of one character.\<close>

fun split_on :: "char \<Rightarrow> string \<Rightarrow> string list" where
  "split_on sep [] = [[]]"
| "split_on sep (c # cs) =
     (if c = sep then [] # split_on sep cs
      else (case split_on sep cs of [] \<Rightarrow> [[c]] | w # ws \<Rightarrow> (c # w) # ws))"

end
