(* ===== verification/Timestamps.thy ===== *)
theory Timestamps
  imports Prelude
begin

section \<open>Canonical timestamps and the calendar\<close>

text \<open>
  Models the one timestamp shape the store accepts (\<open>store._is_canonical_ts\<close>,
  \<open>store._require_ts\<close>), durations between two of them (\<open>store._duration_ms\<close>,
  \<open>store._capacity_metrics\<close>, \<open>capacity.admission_age_sec\<close>) and the provider TTL test
  (\<open>store._still_unavailable\<close>), which orders timestamps by comparing their text.
  \<open>time.strptime\<close> and \<open>calendar.timegm\<close> are written out; \<open>strptime\<close> accepts the
  seconds 60 and 61.
\<close>

subsection \<open>Fields\<close>

definition is_digit :: "char \<Rightarrow> bool" where
  "is_digit c \<longleftrightarrow> 48 \<le> (of_char c :: nat) \<and> of_char c \<le> (57 :: nat)"

definition dig :: "char \<Rightarrow> nat" where
  "dig c = of_char c - 48"

record ts_fields =
  ts_year :: nat
  ts_month :: nat
  ts_day :: nat
  ts_hour :: nat
  ts_min :: nat
  ts_sec :: nat

text \<open>\<open>_TS_RE.fullmatch\<close>: \<open>[0-9]{4}-[0-9]{2}-[0-9]{2}T[0-9]{2}:[0-9]{2}:[0-9]{2}Z\<close>.\<close>

definition ts_shape :: "string \<Rightarrow> bool" where
  "ts_shape s \<longleftrightarrow> length s = 20
     \<and> s ! 4 = CHR ''-'' \<and> s ! 7 = CHR ''-'' \<and> s ! 10 = CHR ''T''
     \<and> s ! 13 = CHR '':'' \<and> s ! 16 = CHR '':'' \<and> s ! 19 = CHR ''Z''
     \<and> (\<forall>i \<in> {0, 1, 2, 3, 5, 6, 8, 9, 11, 12, 14, 15, 17, 18}. is_digit (s ! i))"

definition num2 :: "string \<Rightarrow> nat \<Rightarrow> nat" where
  "num2 s i = 10 * dig (s ! i) + dig (s ! (i + 1))"

definition ts_read :: "string \<Rightarrow> ts_fields" where
  "ts_read s = \<lparr>ts_year = 100 * num2 s 0 + num2 s 2, ts_month = num2 s 5, ts_day = num2 s 8,
     ts_hour = num2 s 11, ts_min = num2 s 14, ts_sec = num2 s 17\<rparr>"

subsection \<open>The calendar\<close>

definition is_leap :: "nat \<Rightarrow> bool" where
  "is_leap y \<longleftrightarrow> y mod 4 = 0 \<and> (y mod 100 \<noteq> 0 \<or> y mod 400 = 0)"

definition month_days :: "nat \<Rightarrow> nat \<Rightarrow> nat" where
  "month_days y m = (if m = 2 then (if is_leap y then 29 else 28)
     else if m \<in> {4, 6, 9, 11} then 30 else 31)"

definition days_before_month :: "nat \<Rightarrow> nat \<Rightarrow> nat" where
  "days_before_month y m = sum_list (map (month_days y) [1..<m])"

definition days_before_year :: "nat \<Rightarrow> nat" where
  "days_before_year y = (let p = y - 1 in p * 365 + p div 4 - p div 100 + p div 400)"

text \<open>\<open>datetime.date.toordinal\<close> and \<open>calendar.timegm\<close>; 719163 is the ordinal of
  1970-01-01.\<close>

definition ordinal :: "nat \<Rightarrow> nat \<Rightarrow> nat \<Rightarrow> nat" where
  "ordinal y m d = days_before_year y + days_before_month y m + d"

definition timegm :: "ts_fields \<Rightarrow> int" where
  "timegm t = ((int (ordinal (ts_year t) (ts_month t) 1) - 719163 + int (ts_day t) - 1) * 24
       + int (ts_hour t)) * 3600 + int (ts_min t) * 60 + int (ts_sec t)"

text \<open>What \<open>time.strptime\<close> checks beyond the shape.\<close>

definition strptime_ok :: "ts_fields \<Rightarrow> bool" where
  "strptime_ok t \<longleftrightarrow> 1 \<le> ts_year t \<and> 1 \<le> ts_month t \<and> ts_month t \<le> 12
     \<and> 1 \<le> ts_day t \<and> ts_day t \<le> month_days (ts_year t) (ts_month t)
     \<and> ts_hour t \<le> 23 \<and> ts_min t \<le> 59 \<and> ts_sec t \<le> 61"

definition canonical_str :: "string \<Rightarrow> bool" where
  "canonical_str s \<longleftrightarrow> ts_shape s \<and> strptime_ok (ts_read s)"

fun is_canonical_ts :: "pyval \<Rightarrow> bool" where
  "is_canonical_ts (PStr s) = canonical_str s"
| "is_canonical_ts _ = False"

definition epoch :: "string \<Rightarrow> int" where
  "epoch s = timegm (ts_read s)"

subsection \<open>Durations and TTLs\<close>

text \<open>\<open>_duration_ms(start_at, end_at)\<close> (and \<open>_wait_ms\<close>, the same function).\<close>

fun duration_ms :: "pyval \<Rightarrow> pyval \<Rightarrow> int option" where
  "duration_ms (PStr s) (PStr e) =
     (if canonical_str s \<and> canonical_str e then Some (max 0 ((epoch e - epoch s) * 1000)) else None)"
| "duration_ms _ _ = None"

text \<open>\<open>admission_age_sec(queued_at, now_epoch)\<close>, the clock in whole seconds.\<close>

fun admission_age_sec :: "pyval \<Rightarrow> int \<Rightarrow> int option" where
  "admission_age_sec (PStr s) now = (if canonical_str s then Some (max 0 (now - epoch s)) else None)"
| "admission_age_sec _ _ = None"

text \<open>\<open>_still_unavailable(until, now_iso)\<close>.\<close>

fun still_unavailable :: "pyval \<Rightarrow> string \<Rightarrow> bool" where
  "still_unavailable (PStr u) now = (canonical_str u \<and> now < u)"
| "still_unavailable _ _ = False"

lemma canonical_example: "canonical_str ''2026-07-28T12:00:00Z''"
  by (simp add: canonical_str_def ts_shape_def strptime_ok_def ts_read_def num2_def dig_def
      is_digit_def month_days_def)

lemma noncanonical_example: "\<not> canonical_str ''2026-7-8T1:2:3Z''"
  by (simp add: canonical_str_def ts_shape_def)

subsection \<open>The calendar is strictly increasing\<close>

definition year_len :: "nat \<Rightarrow> nat" where
  "year_len y = (if is_leap y then 366 else 365)"

lemma days_before_year_Suc: "1 \<le> y \<Longrightarrow> days_before_year (Suc y) = days_before_year y + year_len y"
proof -
  assume "1 \<le> y"
  then obtain p where y: "y = Suc p" by (cases y) auto
  have "p div 100 \<le> p div 4" by (rule div_le_mono2) auto
  then obtain k where k: "p div 4 = p div 100 + k" using le_Suc_ex by blast
  have m400: "Suc p mod 100 = 0" if "Suc p mod 400 = 0"
    using that dvd_trans [of 100 400 "Suc p"] by (simp add: mod_eq_0_iff_dvd)
  have m100: "Suc p mod 4 = 0" if "Suc p mod 100 = 0"
    using that dvd_trans [of 4 100 "Suc p"] by (simp add: mod_eq_0_iff_dvd)
  consider "Suc p mod 4 \<noteq> 0" "Suc p mod 100 \<noteq> 0" "Suc p mod 400 \<noteq> 0"
    | "Suc p mod 4 = 0" "Suc p mod 100 \<noteq> 0" "Suc p mod 400 \<noteq> 0"
    | "Suc p mod 4 = 0" "Suc p mod 100 = 0" "Suc p mod 400 \<noteq> 0"
    | "Suc p mod 4 = 0" "Suc p mod 100 = 0" "Suc p mod 400 = 0"
    using m400 m100 by (cases "Suc p mod 4 = 0"; cases "Suc p mod 100 = 0"; cases "Suc p mod 400 = 0") simp_all
  then show ?thesis
    by cases (simp_all add: days_before_year_def year_len_def is_leap_def y Let_def div_Suc k)
qed

lemma days_before_year_mono:
  "1 \<le> y \<Longrightarrow> y < y' \<Longrightarrow> days_before_year y + year_len y \<le> days_before_year y'"
proof (induction y')
  case (Suc z)
  then show ?case by (cases "y = z") (auto simp: days_before_year_Suc)
qed simp

lemma days_before_month_Suc: "1 \<le> m \<Longrightarrow> days_before_month y (Suc m) = days_before_month y m + month_days y m"
  by (simp add: days_before_month_def)

lemma days_before_month_mono: "1 \<le> m \<Longrightarrow> m \<le> m' \<Longrightarrow> days_before_month y m \<le> days_before_month y m'"
proof (induction m')
  case (Suc k)
  then show ?case by (cases "m = Suc k") (auto simp: days_before_month_Suc)
qed simp

lemma days_before_month_13: "days_before_month y 13 = year_len y"
proof -
  have "[1..<13] = [1, 2, 3, 4, 5, 6, 7, 8, 9, 10, 11, 12::nat]" by code_simp
  then show ?thesis by (simp add: days_before_month_def month_days_def year_len_def)
qed

lemma ordinal_year_bound:
  assumes "1 \<le> m" "m \<le> 12" "d \<le> month_days y m"
  shows "ordinal y m d \<le> days_before_year y + year_len y"
proof -
  have "days_before_month y m + d \<le> days_before_month y (Suc m)"
    using assms by (simp add: days_before_month_Suc)
  also have "\<dots> \<le> days_before_month y 13"
    by (rule days_before_month_mono) (use assms in auto)
  finally show ?thesis by (simp add: ordinal_def days_before_month_13)
qed

definition date_lt :: "ts_fields \<Rightarrow> ts_fields \<Rightarrow> bool" where
  "date_lt t u \<longleftrightarrow> ts_year t < ts_year u \<or> ts_year t = ts_year u \<and>
     (ts_month t < ts_month u \<or> ts_month t = ts_month u \<and> ts_day t < ts_day u)"

abbreviation day_of :: "ts_fields \<Rightarrow> nat" where
  "day_of t \<equiv> ordinal (ts_year t) (ts_month t) (ts_day t)"

lemma day_of_mono:
  assumes t: "strptime_ok t" and u: "strptime_ok u" and lt: "date_lt t u"
  shows "day_of t < day_of u"
proof -
  consider "ts_year t < ts_year u"
    | "ts_year t = ts_year u" "ts_month t < ts_month u"
    | "ts_year t = ts_year u" "ts_month t = ts_month u" "ts_day t < ts_day u"
    using lt by (auto simp: date_lt_def)
  then show ?thesis
  proof cases
    case 1
    have "day_of t \<le> days_before_year (ts_year t) + year_len (ts_year t)"
      using t by (intro ordinal_year_bound) (auto simp: strptime_ok_def)
    also have "\<dots> \<le> days_before_year (ts_year u)"
      using 1 t by (intro days_before_year_mono) (auto simp: strptime_ok_def)
    also have "\<dots> < day_of u" using u by (simp add: ordinal_def strptime_ok_def)
    finally show ?thesis .
  next
    case 2
    have "days_before_month (ts_year t) (ts_month t) + ts_day t
        \<le> days_before_month (ts_year t) (Suc (ts_month t))"
      using t by (simp add: days_before_month_Suc strptime_ok_def)
    also have "\<dots> \<le> days_before_month (ts_year t) (ts_month u)"
      by (rule days_before_month_mono) (use 2 in auto)
    finally show ?thesis using 2 u by (simp add: ordinal_def strptime_ok_def)
  next
    case 3
    then show ?thesis by (simp add: ordinal_def)
  qed
qed

lemma timegm_day: "1 \<le> ts_day t \<Longrightarrow> timegm t =
    (int (day_of t) - 719163) * 86400 + int (ts_hour t * 3600 + ts_min t * 60 + ts_sec t)"
  by (simp add: timegm_def ordinal_def algebra_simps)

subsection \<open>Comparing the text is comparing the digits\<close>

fun digits_val :: "nat list \<Rightarrow> nat" where
  "digits_val [] = 0"
| "digits_val (d # ds) = d * 10 ^ length ds + digits_val ds"

lemma block_less: "a < (b::nat) \<Longrightarrow> x < k \<Longrightarrow> a * k + x < b * k + y"
proof -
  assume "a < b" and x: "x < k"
  then have "Suc a * k \<le> b * k" by (intro mult_right_mono) auto
  with x show ?thesis by simp
qed

lemma digits_val_bound: "\<forall>d \<in> set ds. d \<le> 9 \<Longrightarrow> digits_val ds < 10 ^ length ds"
proof (induction ds)
  case (Cons d ds)
  then have "digits_val ds < 10 ^ length ds" "d < 10" by auto
  from block_less [OF this(2) this(1), of 0] show ?case by simp
qed simp

lemma digits_val_less:
  "length ds = length es \<Longrightarrow> \<forall>d \<in> set ds \<union> set es. d \<le> 9 \<Longrightarrow>
    ds < es \<longleftrightarrow> digits_val ds < digits_val es"
proof (induction ds es rule: list_induct2)
  case (Cons d ds e es)
  have b: "digits_val ds < 10 ^ length es" "digits_val es < 10 ^ length es"
    using Cons digits_val_bound [of ds] digits_val_bound [of es] by auto
  from Cons have IH: "ds < es \<longleftrightarrow> digits_val ds < digits_val es" by auto
  show ?case
  proof (cases d e rule: linorder_cases)
    case less
    with block_less [OF less b(1)] Cons.hyps show ?thesis by simp
  next
    case equal
    with IH Cons.hyps show ?thesis by simp
  next
    case greater
    with block_less [OF greater b(2), of "digits_val ds"] Cons.hyps show ?thesis by simp
  qed
qed simp

definition ts_positions :: "nat list" where
  "ts_positions = [0, 1, 2, 3, 5, 6, 8, 9, 11, 12, 14, 15, 17, 18]"

definition ts_digits :: "string \<Rightarrow> nat list" where
  "ts_digits s = map (\<lambda>i. dig (s ! i)) ts_positions"

lemma dig_less: "is_digit c \<Longrightarrow> is_digit d \<Longrightarrow> dig c < dig d \<longleftrightarrow> c < d"
  by (auto simp: is_digit_def dig_def less_char_def)

lemma dig_eq: "is_digit c \<Longrightarrow> is_digit d \<Longrightarrow> dig c = dig d \<longleftrightarrow> c = d"
proof -
  assume "is_digit c" "is_digit d"
  then have "dig c = dig d \<longleftrightarrow> (of_char c :: nat) = of_char d"
    unfolding is_digit_def dig_def by arith
  also have "\<dots> \<longleftrightarrow> c = d" by simp
  finally show ?thesis .
qed

lemma dig_le_9: "is_digit c \<Longrightarrow> dig c \<le> 9"
  unfolding is_digit_def dig_def by arith

lemma list_eq_nths:
  assumes "length s = 20"
  shows "s = [s!0, s!1, s!2, s!3, s!4, s!5, s!6, s!7, s!8, s!9, s!10, s!11, s!12, s!13, s!14,
    s!15, s!16, s!17, s!18, s!19]"
proof -
  have "s = map ((!) s) [0..<20]" using map_nth [of s] assms by simp
  also have "[0..<20] = [0,1,2,3,4,5,6,7,8,9,10,11,12,13,14,15,16,17,18,19::nat]"
    by code_simp
  finally show ?thesis by simp
qed

text \<open>Positions where two lists agree do not matter for their order.\<close>

lemma nths_less:
  fixes xs ys :: "'a::linorder list"
  shows "length xs = length ys \<Longrightarrow> (\<And>i. i < length xs \<Longrightarrow> i \<notin> I \<Longrightarrow> xs ! i = ys ! i) \<Longrightarrow>
    xs < ys \<longleftrightarrow> nths xs I < nths ys I"
proof (induction xs ys arbitrary: I rule: list_induct2)
  case (Cons x xs y ys)
  have "xs ! i = ys ! i" if "i < length xs" "i \<notin> {j. Suc j \<in> I}" for i
    using Cons.prems [of "Suc i"] that by simp
  then have "xs < ys \<longleftrightarrow> nths xs {j. Suc j \<in> I} < nths ys {j. Suc j \<in> I}" by (rule Cons.IH)
  moreover have "0 \<notin> I \<Longrightarrow> x = y" using Cons.prems [of 0] by simp
  ultimately show ?case by (auto simp: nths_Cons)
qed simp

lemma map_dig_less:
  "length xs = length ys \<Longrightarrow> \<forall>c \<in> set xs \<union> set ys. is_digit c \<Longrightarrow> map dig xs < map dig ys \<longleftrightarrow> xs < ys"
  by (induction xs ys rule: list_induct2) (auto simp: dig_less dig_eq)

lemma nths_positions: "length s = 20 \<Longrightarrow> nths s (set ts_positions) = map ((!) s) ts_positions"
  by (subst list_eq_nths, assumption) (simp add: nths_Cons ts_positions_def)

lemma ts_shape_separators:
  assumes "ts_shape s" "ts_shape t" "i < length s" "i \<notin> set ts_positions"
  shows "s ! i = t ! i"
proof -
  have "i \<in> set [0..<20]" using assms(1,3) by (simp add: ts_shape_def)
  also have "[0..<20] = [0,1,2,3,4,5,6,7,8,9,10,11,12,13,14,15,16,17,18,19::nat]" by code_simp
  finally have "i \<in> {4, 7, 10, 13, 16, 19}" using assms(4) unfolding ts_positions_def by auto
  with assms(1,2) show ?thesis by (auto simp: ts_shape_def)
qed

lemma ts_text_less:
  assumes s: "ts_shape s" and t: "ts_shape t"
  shows "s < t \<longleftrightarrow> digits_val (ts_digits s) < digits_val (ts_digits t)"
proof -
  have ds: "is_digit (s ! i)" "is_digit (t ! i)" if "i \<in> set ts_positions" for i
    using that s t by (auto simp: ts_shape_def ts_positions_def)
  have len: "length s = 20" "length t = 20" using s t by (auto simp: ts_shape_def)
  have "s < t \<longleftrightarrow> nths s (set ts_positions) < nths t (set ts_positions)"
    using len ts_shape_separators [OF s t] by (intro nths_less) auto
  also have "\<dots> \<longleftrightarrow> ts_digits s < ts_digits t"
    using map_dig_less [of "map ((!) s) ts_positions" "map ((!) t) ts_positions"] ds
    by (auto simp: nths_positions len ts_digits_def comp_def)
  also have "\<dots> \<longleftrightarrow> digits_val (ts_digits s) < digits_val (ts_digits t)"
    by (rule digits_val_less) (auto simp: ts_digits_def dig_le_9 ds)
  finally show ?thesis .
qed

lemma ts_digits_val:
  "digits_val (ts_digits s) = ts_year (ts_read s) * 10000000000 + ts_month (ts_read s) * 100000000
     + ts_day (ts_read s) * 1000000 + ts_hour (ts_read s) * 10000 + ts_min (ts_read s) * 100
     + ts_sec (ts_read s)"
  by (simp add: ts_digits_def ts_positions_def ts_read_def num2_def)

subsection \<open>Text order is time order\<close>

text \<open>A time of day below 24 hours, as every timestamp without a leap second has.\<close>

definition no_leap_second :: "string \<Rightarrow> bool" where
  "no_leap_second s \<longleftrightarrow> ts_sec (ts_read s) \<le> 59"

definition fields_num :: "ts_fields \<Rightarrow> nat" where
  "fields_num t = ts_year t * 10000000000 + ts_month t * 100000000 + ts_day t * 1000000
     + ts_hour t * 10000 + ts_min t * 100 + ts_sec t"

lemma fields_num_less_timegm:
  assumes t: "strptime_ok t" "ts_sec t \<le> 59" and u: "strptime_ok u" "ts_sec u \<le> 59"
    and less: "fields_num t < fields_num u"
  shows "timegm t < timegm u"
proof -
  have md: "ts_day t \<le> 31" "ts_day u \<le> 31"
    using t u by (auto simp: strptime_ok_def month_days_def split: if_splits)
  define tt where "tt = ts_hour t * 3600 + ts_min t * 60 + ts_sec t"
  define tu where "tu = ts_hour u * 3600 + ts_min u * 60 + ts_sec u"
  have tod: "tt < 86400" using t by (simp add: tt_def strptime_ok_def)
  show ?thesis
  proof (cases "date_lt t u")
    case True
    then have "day_of t < day_of u" using day_of_mono t u by blast
    with tod have "int (day_of t) * 86400 + int tt < int (day_of u) * 86400 + int tu" by linarith
    then show ?thesis
      using t u by (simp add: timegm_day strptime_ok_def tt_def tu_def algebra_simps)
  next
    case False
    have "\<not> date_lt u t"
    proof
      assume "date_lt u t"
      then have "fields_num u < fields_num t"
        using t u md unfolding date_lt_def fields_num_def strptime_ok_def by linarith
      with less show False by simp
    qed
    with False have eq: "ts_year t = ts_year u" "ts_month t = ts_month u" "ts_day t = ts_day u"
      by (auto simp: date_lt_def)
    then have "ts_hour t * 10000 + ts_min t * 100 + ts_sec t
        < ts_hour u * 10000 + ts_min u * 100 + ts_sec u"
      using less by (simp add: fields_num_def)
    moreover have "ts_min t \<le> 59" "ts_min u \<le> 59" using t u by (auto simp: strptime_ok_def)
    ultimately have "ts_hour t < ts_hour u \<or> ts_hour t = ts_hour u \<and>
        (ts_min t < ts_min u \<or> ts_min t = ts_min u \<and> ts_sec t < ts_sec u)"
      and bounds: "ts_min t \<le> 59" "ts_min u \<le> 59"
      using t(2) u(2) by linarith+
    then have "tt < tu" using t(2) u(2) unfolding tt_def tu_def by (elim disjE conjE) linarith+
    with eq show ?thesis using t u by (simp add: timegm_day strptime_ok_def tt_def tu_def)
  qed
qed

lemma text_order_fields:
  "canonical_str s \<Longrightarrow> canonical_str t \<Longrightarrow> s < t \<longleftrightarrow> fields_num (ts_read s) < fields_num (ts_read t)"
  by (simp add: canonical_str_def ts_text_less ts_digits_val fields_num_def)

lemma text_order_total:
  assumes "canonical_str s" "canonical_str t" "fields_num (ts_read s) = fields_num (ts_read t)"
  shows "s = t"
  using assms text_order_fields [of s t] text_order_fields [of t s]
  by (metis less_irrefl linorder_less_linear)

lemma text_order_epoch:
  assumes "canonical_str s" "no_leap_second s" "canonical_str t" "no_leap_second t"
  shows "s < t \<longleftrightarrow> epoch s < epoch t"
proof
  assume "s < t"
  then show "epoch s < epoch t"
    using assms fields_num_less_timegm
    by (simp add: text_order_fields epoch_def canonical_str_def no_leap_second_def)
next
  assume lt: "epoch s < epoch t"
  have "t < s \<Longrightarrow> epoch t < epoch s"
    using assms fields_num_less_timegm
    by (simp add: text_order_fields epoch_def canonical_str_def no_leap_second_def)
  with lt show "s < t" by (cases s t rule: linorder_cases) auto
qed

lemma duration_ms_nonneg: "duration_ms a b = Some ms \<Longrightarrow> 0 \<le> ms"
  by (cases "(a, b)" rule: duration_ms.cases) (auto split: if_splits)

end
