(* ===== verification/Batching.thy ===== *)
theory Batching
  imports PyText
begin

section \<open>Batching: cutting an over-budget diff into review batches\<close>

text \<open>
  Models \<open>batching.py\<close>, a pure function over the bytes of a diff. A diff is cut into
  per-file sections, a section over the budget into one unit per hunk with the file header
  repeated, and the units are packed greedily in input order. \<open>Batch\<close>, \<open>_Unit\<close> and the
  packing loop's local variables are records; \<open>bytes\<close> is \<open>string\<close>, one character per
  byte. File labels are decoded text, a list of code points. The lemmas refine the packing
  loop to the recursive \<open>greedy\<close> and derive coverage, size bounds and losslessness from it.
\<close>

type_synonym bytes = string
type_synonym label = "nat list"

subsection \<open>Byte strings\<close>

text \<open>\<open>bytes.splitlines(keepends=True)\<close>: breaks after LF, CR and CR LF, nothing else.\<close>

fun cut_lines :: "bytes \<Rightarrow> bytes \<Rightarrow> bytes list" where
  "cut_lines cur [] = (if cur = [] then [] else [cur])"
| "cut_lines cur [c] = [cur @ [c]]"
| "cut_lines cur (c # d # cs) =
     (if c = LF then (cur @ [c]) # cut_lines [] (d # cs)
      else if c = CR then
        (if d = LF then (cur @ [c, d]) # cut_lines [] cs else (cur @ [c]) # cut_lines [] (d # cs))
      else cut_lines (cur @ [c]) (d # cs))"

definition byte_lines :: "bytes \<Rightarrow> bytes list" where
  "byte_lines d = cut_lines [] d"

definition rstrip_set :: "char set \<Rightarrow> bytes \<Rightarrow> bytes" where
  "rstrip_set A s = rev (dropWhile (\<lambda>c. c \<in> A) (rev s))"

definition strip_set :: "char set \<Rightarrow> bytes \<Rightarrow> bytes" where
  "strip_set A s = rstrip_set A (dropWhile (\<lambda>c. c \<in> A) s)"

definition ascii_space :: "char set" where
  "ascii_space = {CHR 0x09, CHR 0x0A, CHR 0x0B, CHR 0x0C, CHR 0x0D, CHR 0x20}"

definition drop_eol :: "bytes \<Rightarrow> bytes" where
  "drop_eol ln = rstrip_set {CR, LF} ln"

text \<open>\<open>bytes.decode("utf-8", "replace")\<close>: each maximal ill-formed part becomes U+FFFD.
  \<open>utf8_step\<close> gives the code point and how many bytes after the first it takes.\<close>

definition utf8_cont :: "nat \<Rightarrow> bool" where
  "utf8_cont b \<longleftrightarrow> 128 \<le> b \<and> b \<le> 191"

definition utf8_step :: "nat \<Rightarrow> nat list \<Rightarrow> nat \<times> nat" where
  "utf8_step b bs =
     (if b < 128 then (b, 0)
      else if b < 194 then (65533, 0)
      else if b < 224 then
        (case bs of c # _ \<Rightarrow> if utf8_cont c then ((b - 192) * 64 + (c - 128), 1) else (65533, 0)
         | [] \<Rightarrow> (65533, 0))
      else if b < 240 then
        (case bs of c # cs \<Rightarrow>
           if (if b = 224 then 160 else 128) \<le> c \<and> c \<le> (if b = 237 then 159 else 191) then
             (case cs of d # _ \<Rightarrow>
                if utf8_cont d then ((b - 224) * 4096 + (c - 128) * 64 + (d - 128), 2)
                else (65533, 1)
              | [] \<Rightarrow> (65533, 1))
           else (65533, 0)
         | [] \<Rightarrow> (65533, 0))
      else if b < 245 then
        (case bs of c # cs \<Rightarrow>
           if (if b = 240 then 144 else 128) \<le> c \<and> c \<le> (if b = 244 then 143 else 191) then
             (case cs of d # ds \<Rightarrow>
                if utf8_cont d then
                  (case ds of e # _ \<Rightarrow>
                     if utf8_cont e then
                       ((b - 240) * 262144 + (c - 128) * 4096 + (d - 128) * 64 + (e - 128), 3)
                     else (65533, 2)
                   | [] \<Rightarrow> (65533, 2))
                else (65533, 1)
              | [] \<Rightarrow> (65533, 1))
           else (65533, 0)
         | [] \<Rightarrow> (65533, 0))
      else (65533, 0))"

fun utf8_points :: "nat list \<Rightarrow> nat list" where
  "utf8_points [] = []"
| "utf8_points (b # bs) = (case utf8_step b bs of (cp, k) \<Rightarrow> cp # utf8_points (drop k bs))"

definition decode :: "bytes \<Rightarrow> label" where
  "decode s = utf8_points (map code s)"

subsection \<open>File labels\<close>

definition DIFF_GIT :: bytes where "DIFF_GIT = ''diff --git ''"
definition HUNK :: bytes where "HUNK = ''@@''"
definition MAX_REGION_LINES :: int where "MAX_REGION_LINES = 120"

abbreviation DQUOTE :: char where "DQUOTE \<equiv> CHR 0x22"
abbreviation BACKSLASH :: char where "BACKSLASH \<equiv> CHR 0x5C"

text \<open>One quoted component of \<open>_QUOTED_PATHS\<close>, \<open>(?:[^"\\]|\\.)*\<close> up to its closing quote.\<close>

fun quoted_body :: "bytes \<Rightarrow> (bytes \<times> bytes) option" where
  "quoted_body [] = None"
| "quoted_body [c] = (if c = DQUOTE then Some ([], []) else None)"
| "quoted_body (c # d # cs) =
     (if c = DQUOTE then Some ([], d # cs)
      else if c = BACKSLASH then
        (if d = LF then None else map_option (\<lambda>(b, r). (c # d # b, r)) (quoted_body cs))
      else map_option (\<lambda>(b, r). (c # b, r)) (quoted_body (d # cs)))"

text \<open>\<open>_QUOTED_PATHS.match\<close>: group 2, the new path, still escaped.\<close>

definition quoted_paths :: "bytes \<Rightarrow> bytes option" where
  "quoted_paths rest =
     (if starts_with (DQUOTE # ''a/'') rest then
        (case quoted_body (drop 3 rest) of None \<Rightarrow> None
         | Some (_, r) \<Rightarrow>
           if starts_with (CHR '' '' # DQUOTE # ''b/'') r then
             (case quoted_body (drop 4 r) of None \<Rightarrow> None
              | Some (b, t) \<Rightarrow> if t = [] \<or> t = [LF] then Some b else None)
           else None)
      else None)"

text \<open>What follows the last occurrence of a separator.\<close>

fun after_last :: "bytes \<Rightarrow> bytes \<Rightarrow> bytes option" where
  "after_last sep [] = None"
| "after_last sep (c # cs) =
     (case after_last sep cs of Some t \<Rightarrow> Some t
      | None \<Rightarrow> if starts_with sep (c # cs) then Some (drop (length sep) (c # cs)) else None)"

text \<open>\<open>_PLAIN_PATHS.match\<close> on one line: group 1 is greedy, so it splits at the last \<open> b/\<close>.\<close>

definition plain_paths :: "bytes \<Rightarrow> bytes option" where
  "plain_paths rest =
     (if starts_with ''a/'' rest then after_last '' b/'' (drop 2 rest) else None)"

definition is_octal :: "char \<Rightarrow> bool" where
  "is_octal c \<longleftrightarrow> 48 \<le> code c \<and> code c \<le> (55 :: nat)"

definition c_escape :: "char \<Rightarrow> char" where
  "c_escape c =
     (if c = CHR ''a'' then CHR 0x07 else if c = CHR ''b'' then CHR 0x08
      else if c = CHR ''f'' then CHR 0x0C else if c = CHR ''n'' then CHR 0x0A
      else if c = CHR ''r'' then CHR 0x0D else if c = CHR ''t'' then CHR 0x09
      else if c = CHR ''v'' then CHR 0x0B else c)"

text \<open>\<open>_unquote_c\<close>: \<open>\ooo\<close> with one to three octal digits, or one escaped character.\<close>

function unquote_c :: "bytes \<Rightarrow> bytes" where
  "unquote_c [] = []"
| "unquote_c [c] = [c]"
| "unquote_c (c # d # cs) =
     (if c = BACKSLASH then
        (let oct = takeWhile is_octal (take 3 (d # cs)) in
         if oct = [] then c_escape d # unquote_c cs
         else char_of (foldl (\<lambda>n dg. 8 * n + (code dg - 48)) (0 :: nat) oct)
              # unquote_c (drop (length oct) (d # cs)))
      else c # unquote_c (d # cs))"
  by pat_completeness auto
termination
  by (relation "measure length") (auto simp: length_greater_0_conv [symmetric] simp del: length_greater_0_conv)

text \<open>\<open>_file_of(section)\<close>, exported as \<open>file_of\<close>.\<close>

fun file_of :: "bytes list \<Rightarrow> label" where
  "file_of [] = []"
| "file_of (ln # lns) =
     (if starts_with DIFF_GIT ln then
        (let rest = rstrip_set {CR, LF} (drop (length DIFF_GIT) ln) in
         case quoted_paths rest of
           Some b \<Rightarrow> decode (unquote_c b)
         | None \<Rightarrow>
             (case plain_paths rest of
                Some b \<Rightarrow> decode (strip_set {DQUOTE} (strip_set ascii_space b))
              | None \<Rightarrow> decode (strip_set ascii_space rest)))
      else file_of lns)"

subsection \<open>Sections and units\<close>

text \<open>\<open>_sections(lines)\<close>, exported as \<open>sections\<close>: the loop over \<open>sections\<close> and \<open>cur\<close>.\<close>

fun sections_from :: "bytes list \<Rightarrow> bytes list \<Rightarrow> bytes list list" where
  "sections_from cur [] = (if cur = [] then [] else [cur])"
| "sections_from cur (ln # lns) =
     (if starts_with DIFF_GIT ln \<and> cur \<noteq> [] then cur # sections_from [ln] lns
      else sections_from (cur @ [ln]) lns)"

definition sections :: "bytes list \<Rightarrow> bytes list list" where
  "sections lines = sections_from [] lines"

record diff_unit =
  u_lines :: "bytes list"
  u_files :: "label list"

definition blen :: "bytes list \<Rightarrow> nat" where
  "blen lines = sum_list (map length lines)"

text \<open>The header and the hunks of a section; \<open>cur\<close> is \<open>None\<close> before the first hunk.\<close>

fun cut_hunks :: "bytes list \<Rightarrow> bytes list option \<Rightarrow> bytes list \<times> bytes list list" where
  "cut_hunks [] cur = ([], case cur of None \<Rightarrow> [] | Some h \<Rightarrow> [h])"
| "cut_hunks (ln # lns) cur =
     (if starts_with HUNK ln then
        (case cut_hunks lns (Some [ln]) of (hdr, hs) \<Rightarrow>
           (hdr, case cur of None \<Rightarrow> hs | Some h \<Rightarrow> h # hs))
      else
        (case cur of
           None \<Rightarrow> (case cut_hunks lns None of (hdr, hs) \<Rightarrow> (ln # hdr, hs))
         | Some h \<Rightarrow> cut_hunks lns (Some (h @ [ln]))))"

definition units :: "nat \<Rightarrow> bytes list \<Rightarrow> diff_unit list" where
  "units budget section =
     (let name = file_of section;
          files = (if name \<noteq> [] then [name] else [])
      in if blen section \<le> budget then [\<lparr>u_lines = section, u_files = files\<rparr>]
         else (case cut_hunks section None of (header, hunks) \<Rightarrow>
           if hunks = [] then [\<lparr>u_lines = section, u_files = files\<rparr>]
           else map (\<lambda>h. \<lparr>u_lines = header @ h, u_files = files\<rparr>) hunks))"

subsection \<open>Packing\<close>

record batch =
  b_data :: bytes
  b_files :: "label list"
  b_truncated :: bool

text \<open>The local variables of \<open>split\<close>'s packing loop.\<close>

record packing =
  p_batches :: "batch list"
  p_lines :: "bytes list"
  p_files :: "label list"
  p_bytes :: nat
  p_truncated :: bool

definition empty_packing :: packing where
  "empty_packing = \<lparr>p_batches = [], p_lines = [], p_files = [], p_bytes = 0, p_truncated = False\<rparr>"

definition flush :: "packing \<Rightarrow> packing" where
  "flush s = \<lparr>p_batches = (if p_lines s = [] then p_batches s
       else p_batches s @ [\<lparr>b_data = concat (p_lines s), b_files = p_files s,
                            b_truncated = p_truncated s\<rparr>]),
     p_lines = [], p_files = [], p_bytes = 0, p_truncated = False\<rparr>"

definition pack_unit :: "nat \<Rightarrow> packing \<Rightarrow> diff_unit \<Rightarrow> packing" where
  "pack_unit budget s u =
     (let ub = blen (u_lines u);
          s1 = (if p_lines s \<noteq> [] \<and> p_bytes s + ub > budget then flush s else s);
          s2 = s1\<lparr>p_lines := p_lines s1 @ u_lines u,
                  p_files := append_new (p_files s1) (u_files u),
                  p_bytes := p_bytes s1 + ub\<rparr>
      in if ub > budget then flush (s2\<lparr>p_truncated := True\<rparr>) else s2)"

definition clamp1 :: "int \<Rightarrow> nat" where
  "clamp1 n = (if n < 1 then 1 else nat n)"

text \<open>\<open>split(diff, budget)\<close>, named \<open>split_diff\<close>.\<close>

definition split_diff :: "bytes \<Rightarrow> int \<Rightarrow> batch list" where
  "split_diff diff budget =
     (let b = clamp1 budget;
          us = concat (map (units b) (sections (byte_lines diff)))
      in p_batches (flush (foldl (pack_unit b) empty_packing us)))"

subsection \<open>Changed regions\<close>

text \<open>The loop of \<open>changed_regions\<close>, with \<open>out\<close> accumulated.\<close>

fun regions_from :: "nat \<Rightarrow> label list \<Rightarrow> bytes list \<Rightarrow> label list \<times> bool" where
  "regions_from cap out [] = (out, False)"
| "regions_from cap out (ln # lns) =
     (if \<not> (starts_with DIFF_GIT ln \<or> starts_with HUNK ln) then regions_from cap out lns
      else let out' = out @ [decode (drop_eol ln)] in
        if length out' \<ge> cap then (out', True) else regions_from cap out' lns)"

definition changed_regions :: "bytes \<Rightarrow> int \<Rightarrow> label list \<times> bool" where
  "changed_regions diff max_lines =
     regions_from (clamp1 max_lines) [] (map drop_eol (byte_lines diff))"

subsection \<open>Cutting loses nothing\<close>

lemma concat_cut_lines: "concat (cut_lines cur s) = cur @ s"
  by (induction cur s rule: cut_lines.induct) auto

lemma concat_byte_lines [simp]: "concat (byte_lines d) = d"
  by (simp add: byte_lines_def concat_cut_lines)

lemma cut_lines_nonempty: "l \<in> set (cut_lines cur s) \<Longrightarrow> l \<noteq> []"
  by (induction cur s rule: cut_lines.induct) (auto split: if_splits)

lemma byte_lines_nonempty: "l \<in> set (byte_lines d) \<Longrightarrow> l \<noteq> []"
  by (simp add: byte_lines_def cut_lines_nonempty)

lemma concat_sections_from: "concat (sections_from cur lns) = cur @ lns"
  by (induction cur lns rule: sections_from.induct) auto

lemma concat_sections [simp]: "concat (sections lns) = lns"
  by (simp add: sections_def concat_sections_from)

lemma sections_from_nonempty: "sec \<in> set (sections_from cur lns) \<Longrightarrow> sec \<noteq> []"
  by (induction cur lns rule: sections_from.induct) (auto split: if_splits)

lemma sections_nonempty: "sec \<in> set (sections lns) \<Longrightarrow> sec \<noteq> []"
  by (simp add: sections_def sections_from_nonempty)

lemma sections_lines: "sec \<in> set (sections lns) \<Longrightarrow> set sec \<subseteq> set lns"
  using concat_sections [of lns] by (metis UN_upper set_concat)

lemma cut_hunks_in_hunk [simp]: "fst (cut_hunks lns (Some h)) = []"
  by (induction lns arbitrary: h) (simp_all add: case_prod_unfold)

lemma cut_hunks_concat_in [simp]: "concat (snd (cut_hunks lns (Some h))) = h @ lns"
  by (induction lns arbitrary: h) (simp_all add: case_prod_unfold)

lemma cut_hunks_concat: "fst (cut_hunks lns None) @ concat (snd (cut_hunks lns None)) = lns"
  by (induction lns) (simp_all add: case_prod_unfold)

lemma cut_hunks_recover: "cut_hunks lns None = (hdr, hs) \<Longrightarrow> hdr @ concat hs = lns"
  using cut_hunks_concat [of lns] by simp

lemma cut_hunks_header: "cut_hunks lns None = (hdr, hs) \<Longrightarrow> \<forall>ln \<in> set hdr. \<not> starts_with HUNK ln"
proof -
  have "\<forall>ln \<in> set (fst (cut_hunks lns None)). \<not> starts_with HUNK ln"
    by (induction lns) (simp_all add: case_prod_unfold)
  then show "cut_hunks lns None = (hdr, hs) \<Longrightarrow> \<forall>ln \<in> set hdr. \<not> starts_with HUNK ln" by simp
qed

definition one_hunk :: "bytes list \<Rightarrow> bool" where
  "one_hunk h \<longleftrightarrow> h \<noteq> [] \<and> starts_with HUNK (hd h) \<and> (\<forall>ln \<in> set (tl h). \<not> starts_with HUNK ln)"

lemma one_hunk_extend: "one_hunk h \<Longrightarrow> \<not> starts_with HUNK ln \<Longrightarrow> one_hunk (h @ [ln])"
  by (cases h) (auto simp: one_hunk_def)

lemma snd_cut_hunks_Cons:
  "snd (cut_hunks (ln # lns) (Some h)) =
    (if starts_with HUNK ln then h # snd (cut_hunks lns (Some [ln]))
     else snd (cut_hunks lns (Some (h @ [ln]))))"
  by (simp add: case_prod_unfold)

lemma cut_hunks_each_in: "one_hunk h \<Longrightarrow> g \<in> set (snd (cut_hunks lns (Some h))) \<Longrightarrow> one_hunk g"
proof (induction lns arbitrary: h)
  case (Cons ln lns)
  show ?case
  proof (cases "starts_with HUNK ln")
    case True
    then have "one_hunk [ln]" by (simp add: one_hunk_def)
    with Cons True show ?thesis unfolding snd_cut_hunks_Cons by auto
  next
    case False
    with Cons.prems one_hunk_extend have "one_hunk (h @ [ln])" by blast
    with Cons.IH Cons.prems(2) False show ?thesis unfolding snd_cut_hunks_Cons by simp
  qed
qed simp

lemma cut_hunks_each: "cut_hunks lns None = (hdr, hs) \<Longrightarrow> \<forall>h \<in> set hs. one_hunk h"
proof -
  have "\<forall>h \<in> set (snd (cut_hunks lns None)). one_hunk h"
  proof (induction lns)
    case (Cons ln lns)
    have "one_hunk [ln]" if "starts_with HUNK ln" using that by (simp add: one_hunk_def)
    with Cons cut_hunks_each_in [of "[ln]" _ lns] show ?case by (auto simp: case_prod_unfold)
  qed simp
  then show "cut_hunks lns None = (hdr, hs) \<Longrightarrow> \<forall>h \<in> set hs. one_hunk h" by simp
qed

lemma cut_hunks_body:
  "\<forall>ln \<in> set lns. \<not> starts_with HUNK ln \<Longrightarrow> cut_hunks lns (Some h) = ([], [h @ lns])"
  by (induction lns arbitrary: h) auto

text \<open>Cutting a header followed by one hunk gives them back: a unit shows exactly its hunk.\<close>

lemma cut_hunks_rejoin:
  assumes "\<forall>ln \<in> set hdr. \<not> starts_with HUNK ln" "one_hunk h"
  shows "cut_hunks (hdr @ h) None = (hdr, [h])"
  using assms
proof (induction hdr)
  case Nil
  then show ?case by (cases h) (auto simp: one_hunk_def cut_hunks_body)
qed auto

subsection \<open>Units\<close>

definition hunks :: "bytes list \<Rightarrow> bytes list list" where
  "hunks sec = snd (cut_hunks sec None)"

definition u_size :: "diff_unit \<Rightarrow> nat" where
  "u_size u = blen (u_lines u)"

lemma blen_simps [simp]: "blen [] = 0" "blen (l # ls) = length l + blen ls"
  "blen (ls @ ms) = blen ls + blen ms"
  by (simp_all add: blen_def)

lemma blen_concat: "blen lines = length (concat lines)"
  by (induction lines) auto

lemma units_nonempty: "sec \<noteq> [] \<Longrightarrow> u \<in> set (units b sec) \<Longrightarrow> u_lines u \<noteq> []"
  using cut_hunks_each [of sec]
  by (auto simp: units_def Let_def one_hunk_def split: prod.splits if_splits)

text \<open>Every hunk of a section is in exactly one of its units, in order.\<close>

lemma hunks_rejoin: "cut_hunks sec None = (hdr, hs) \<Longrightarrow> h \<in> set hs \<Longrightarrow> hunks (hdr @ h) = [h]"
  using cut_hunks_rejoin cut_hunks_header cut_hunks_each by (simp add: hunks_def)

lemma units_hunks: "concat (map (hunks \<circ> u_lines) (units b sec)) = hunks sec"
proof (cases "blen sec \<le> b \<or> hunks sec = []")
  case True
  then show ?thesis by (auto simp: units_def hunks_def Let_def split: prod.splits)
next
  case False
  obtain hdr hs where c: "cut_hunks sec None = (hdr, hs)" by force
  then have "map (\<lambda>h. hunks (hdr @ h)) hs = map (\<lambda>h. [h]) hs" by (simp add: hunks_rejoin)
  then have "concat (map (\<lambda>h. hunks (hdr @ h)) hs) = concat (map (\<lambda>h. [h]) hs)" by (rule arg_cong)
  moreover have "hunks sec = hs" using c by (simp add: hunks_def)
  ultimately show ?thesis using False c by (simp add: units_def Let_def comp_def)
qed

lemma units_fit: "blen sec \<le> b \<Longrightarrow> concat (map u_lines (units b sec)) = sec \<and> (\<forall>u \<in> set (units b sec). u_size u \<le> b)"
  by (simp add: units_def Let_def u_size_def)

text \<open>A unit over the budget is irreducible: it shows at most one hunk.\<close>

lemma units_irreducible:
  assumes "u \<in> set (units b sec)" "u_size u > b"
  shows "length (hunks (u_lines u)) \<le> 1"
proof -
  obtain hdr hs where c: "cut_hunks sec None = (hdr, hs)" by force
  show ?thesis
  proof (cases "blen sec \<le> b \<or> hs = []")
    case True
    with assms c show ?thesis by (auto simp: units_def hunks_def Let_def u_size_def split: if_splits)
  next
    case False
    with assms c obtain h where "h \<in> set hs" "u_lines u = hdr @ h"
      by (auto simp: units_def Let_def)
    with hunks_rejoin [OF c] show ?thesis by simp
  qed
qed

subsection \<open>The packing loop is greedy packing\<close>

text \<open>Reference definition: the groups of units, by recursion on the units.\<close>

definition g_size :: "diff_unit list \<Rightarrow> nat" where
  "g_size g = sum_list (map u_size g)"

fun greedy :: "nat \<Rightarrow> diff_unit list \<Rightarrow> diff_unit list \<Rightarrow> diff_unit list list" where
  "greedy b cur [] = (if cur = [] then [] else [cur])"
| "greedy b cur (u # us) =
     (if u_size u > b then (if cur = [] then [] else [cur]) @ [u] # greedy b [] us
      else if cur \<noteq> [] \<and> g_size cur + u_size u > b then cur # greedy b [u] us
      else greedy b (cur @ [u]) us)"

definition batch_of :: "nat \<Rightarrow> diff_unit list \<Rightarrow> batch" where
  "batch_of b g = \<lparr>b_data = concat (concat (map u_lines g)),
     b_files = append_new [] (concat (map u_files g)),
     b_truncated = (\<exists>u \<in> set g. u_size u > b)\<rparr>"

lemma append_new_append: "append_new (append_new acc xs) ys = append_new acc (xs @ ys)"
  by (induction acc xs rule: append_new.induct) auto

text \<open>The state of the loop when the open group is \<open>cur\<close>.\<close>

definition packing_of :: "nat \<Rightarrow> batch list \<Rightarrow> diff_unit list \<Rightarrow> packing" where
  "packing_of b done cur = \<lparr>p_batches = done, p_lines = concat (map u_lines cur),
     p_files = append_new [] (concat (map u_files cur)), p_bytes = g_size cur,
     p_truncated = False\<rparr>"

lemma g_size_simps [simp]: "g_size [] = 0" "g_size (u # us) = u_size u + g_size us"
  "g_size (us @ vs) = g_size us + g_size vs"
  by (simp_all add: g_size_def)

lemma pack_unit_packing_of:
  assumes "\<forall>v \<in> set (u # cur). u_lines v \<noteq> []" "\<forall>v \<in> set cur. u_size v \<le> b"
  shows "pack_unit b (packing_of b out cur) u =
    (if u_size u > b then
       packing_of b ((if cur = [] then out else out @ [batch_of b cur]) @ [batch_of b [u]]) []
     else if cur \<noteq> [] \<and> g_size cur + u_size u > b then packing_of b (out @ [batch_of b cur]) [u]
     else packing_of b out (cur @ [u]))"
proof -
  have ne: "cur \<noteq> [] \<Longrightarrow> concat (map u_lines cur) \<noteq> []" using assms(1) by (cases cur) auto
  have small: "\<not> (\<exists>v \<in> set cur. b < u_size v)" using assms(2) by (auto simp: not_less)
  show ?thesis
    using assms(1) ne small
    by (simp add: pack_unit_def packing_of_def flush_def batch_of_def Let_def u_size_def
        append_new_append)
qed

lemma pack_units_greedy:
  "\<forall>v \<in> set (us @ cur). u_lines v \<noteq> [] \<Longrightarrow> \<forall>v \<in> set cur. u_size v \<le> b \<Longrightarrow>
    p_batches (flush (foldl (pack_unit b) (packing_of b out cur) us)) =
      out @ map (batch_of b) (greedy b cur us)"
proof (induction us arbitrary: cur out)
  case Nil
  then show ?case
    by (cases cur) (auto simp: flush_def packing_of_def batch_of_def not_less [symmetric])
next
  case (Cons u us)
  show ?case
    using Cons.prems by (simp add: pack_unit_packing_of Cons.IH)
qed

definition diff_units :: "bytes \<Rightarrow> int \<Rightarrow> diff_unit list" where
  "diff_units diff budget = concat (map (units (clamp1 budget)) (sections (byte_lines diff)))"

lemma diff_units_nonempty: "u \<in> set (diff_units diff budget) \<Longrightarrow> u_lines u \<noteq> []"
  by (auto simp: diff_units_def dest: units_nonempty sections_nonempty)

lemma split_diff_greedy:
  "split_diff diff budget = map (batch_of (clamp1 budget)) (greedy (clamp1 budget) [] (diff_units diff budget))"
proof -
  have "packing_of b [] [] = empty_packing" for b
    by (simp add: packing_of_def empty_packing_def)
  then show ?thesis
    using pack_units_greedy [of "diff_units diff budget" "[]" "clamp1 budget" "[]"]
    by (simp add: split_diff_def diff_units_def Let_def diff_units_nonempty [unfolded diff_units_def])
qed

subsection \<open>What greedy packing guarantees\<close>

lemma concat_greedy [simp]: "concat (greedy b cur us) = cur @ us"
  by (induction b cur us rule: greedy.induct) auto

lemma greedy_nonempty: "g \<in> set (greedy b cur us) \<Longrightarrow> g \<noteq> []"
  by (induction b cur us rule: greedy.induct) (auto split: if_splits)

definition fits_or_single :: "nat \<Rightarrow> diff_unit list \<Rightarrow> bool" where
  "fits_or_single b g \<longleftrightarrow>
     (g_size g \<le> b \<and> (\<forall>u \<in> set g. u_size u \<le> b)) \<or> (\<exists>u. g = [u] \<and> u_size u > b)"

lemma greedy_sizes:
  "g_size cur \<le> b \<Longrightarrow> \<forall>u \<in> set cur. u_size u \<le> b \<Longrightarrow> \<forall>g \<in> set (greedy b cur us). fits_or_single b g"
proof (induction b cur us rule: greedy.induct)
  case (1 b cur)
  then show ?case by (auto simp: fits_or_single_def)
next
  case (2 b cur u us)
  consider "u_size u > b" | "u_size u \<le> b" "cur \<noteq> [] \<and> g_size cur + u_size u > b"
    | "u_size u \<le> b" "\<not> (cur \<noteq> [] \<and> g_size cur + u_size u > b)" by linarith
  then show ?case
  proof cases
    case 1
    with "2.IH"(1) "2.prems" show ?thesis by (auto simp: fits_or_single_def)
  next
    case 2
    with "2.IH"(2) "2.prems" show ?thesis by (auto simp: fits_or_single_def)
  next
    case 3
    with "2.prems" have "g_size (cur @ [u]) \<le> b" "\<forall>v \<in> set (cur @ [u]). u_size v \<le> b"
      by auto
    with "2.IH"(3) 3 show ?thesis by (simp del: greedy.simps) (simp)
  qed
qed

text \<open>Neighbouring groups cannot be merged: the next unit would not have fitted.\<close>

fun maximal :: "nat \<Rightarrow> diff_unit list list \<Rightarrow> bool" where
  "maximal b (g # h # gs) = (g_size g + u_size (hd h) > b \<and> maximal b (h # gs))"
| "maximal b gs = True"

lemma maximal_Cons:
  "maximal b (g # gs) \<longleftrightarrow> (gs = [] \<or> g_size g + u_size (hd (hd gs)) > b) \<and> maximal b gs"
  by (cases gs) auto

lemma greedy_not_Nil: "cur \<noteq> [] \<Longrightarrow> greedy b cur us \<noteq> []"
  using concat_greedy [of b cur us] by force

lemma hd_greedy: "cur \<noteq> [] \<Longrightarrow> hd (hd (greedy b cur us)) = hd cur"
  by (induction b cur us rule: greedy.induct) (auto split: if_splits)

lemma greedy_maximal: "maximal b (greedy b cur us)"
proof (induction b cur us rule: greedy.induct)
  case (2 b cur u us)
  then show ?case
    using hd_greedy [of "[u]" b us] greedy_not_Nil [of "[u]" b us]
    by (auto simp: maximal_Cons)
qed auto

lemma batch_of_size: "fits_or_single b g \<Longrightarrow> length (b_data (batch_of b g)) = g_size g
    \<and> (b_truncated (batch_of b g) \<longleftrightarrow> g_size g > b)"
proof -
  have "length (concat (concat (map u_lines g))) = g_size g"
    by (induction g) (simp_all add: u_size_def blen_concat)
  then show "fits_or_single b g \<Longrightarrow> ?thesis"
    by (auto simp: fits_or_single_def batch_of_def)
qed

lemma batch_of_data: "b_data (batch_of b g) = concat (concat (map u_lines g))"
  by (simp add: batch_of_def)

lemma concat_batch_data: "concat (map (b_data \<circ> batch_of b) gs) = concat (concat (map u_lines (concat gs)))"
  by (induction gs) (simp_all add: batch_of_data)

lemma diff_units_fit:
  "\<forall>sec \<in> set secs. blen sec \<le> b \<Longrightarrow>
    concat (map u_lines (concat (map (units b) secs))) = concat secs \<and>
    (\<forall>u \<in> set (concat (map (units b) secs)). u_size u \<le> b)"
proof (induction secs)
  case (Cons sec secs)
  with units_fit [of sec b] show ?case by auto
qed simp

lemma blen_mono_concat: "sec \<in> set secs \<Longrightarrow> blen sec \<le> blen (concat secs)"
  by (induction secs) auto

subsection \<open>Properties\<close>

text \<open>C39 (functional). Total coverage, never silent: the imperative packing loop of
  \<open>split\<close> cuts the diff's units, in input order, into consecutive non-empty groups, one per
  batch, and the units carry every \<open>@@\<close> hunk of the diff exactly once, in order.\<close>

theorem split_covers_every_hunk:
  "\<exists>gs. split_diff diff budget = map (batch_of (clamp1 budget)) gs \<and> [] \<notin> set gs
     \<and> concat gs = diff_units diff budget
     \<and> concat (map (hunks \<circ> u_lines) (concat gs)) = concat (map hunks (sections (byte_lines diff)))"
proof (intro exI conjI)
  show "split_diff diff budget =
      map (batch_of (clamp1 budget)) (greedy (clamp1 budget) [] (diff_units diff budget))"
    by (rule split_diff_greedy)
  show "[] \<notin> set (greedy (clamp1 budget) [] (diff_units diff budget))"
    using greedy_nonempty by blast
  show "concat (greedy (clamp1 budget) [] (diff_units diff budget)) = diff_units diff budget"
    by simp
  have "concat (map (hunks \<circ> u_lines) (concat (map (units b) secs))) = concat (map hunks secs)" for b secs
    using units_hunks by (induction secs) (simp_all add: comp_def)
  then show "concat (map (hunks \<circ> u_lines) (concat (greedy (clamp1 budget) [] (diff_units diff budget))))
      = concat (map hunks (sections (byte_lines diff)))"
    by (simp add: diff_units_def)
qed

text \<open>The truncation flag is exact: a batch is flagged precisely when its bytes
  exceed the budget, and then it consists of one irreducible unit, which shows at most one
  hunk. Every unflagged batch fits.\<close>

theorem split_truncated_iff_over_budget:
  assumes "B \<in> set (split_diff diff budget)"
  shows "(b_truncated B \<longleftrightarrow> length (b_data B) > clamp1 budget)
    \<and> (\<not> b_truncated B \<or> (\<exists>u. u \<in> set (diff_units diff budget)
         \<and> b_data B = concat (u_lines u) \<and> length (hunks (u_lines u)) \<le> 1))"
proof -
  let ?b = "clamp1 budget"
  from assms obtain g where g: "g \<in> set (greedy ?b [] (diff_units diff budget))" "B = batch_of ?b g"
    by (auto simp: split_diff_greedy)
  then have fits: "fits_or_single ?b g" using greedy_sizes [of "[]" ?b] by auto
  have irr: "length (hunks (u_lines u)) \<le> 1" if "u \<in> set (diff_units diff budget)" "u_size u > ?b" for u
    using that units_irreducible by (auto simp: diff_units_def)
  have "set g \<subseteq> set (diff_units diff budget)"
    using g(1) concat_greedy [of ?b "[]" "diff_units diff budget"] by (metis UN_upper append_Nil set_concat)
  with fits irr batch_of_size [OF fits] show ?thesis
    unfolding g(2) fits_or_single_def by (auto simp: batch_of_data)
qed

theorem split_truncated_iff_over_budget_witness:
  "b_truncated (hd (split_diff ''diff --git a/x b/x'' 5))
    \<and> length (b_data (hd (split_diff ''diff --git a/x b/x'' 5))) > 5"
proof -
  have "hd (split_diff ''diff --git a/x b/x'' 5) \<in> set (split_diff ''diff --git a/x b/x'' 5)"
    by code_simp
  from split_truncated_iff_over_budget [OF this]
  have "b_truncated (hd (split_diff ''diff --git a/x b/x'' 5)) \<longleftrightarrow>
      length (b_data (hd (split_diff ''diff --git a/x b/x'' 5))) > clamp1 5" by blast
  moreover have "b_truncated (hd (split_diff ''diff --git a/x b/x'' 5))" by code_simp
  ultimately show ?thesis by (simp add: clamp1_def)
qed

text \<open>How the pieces of a section relate to it: whole if it fits, and otherwise its header lines repeated before each
  of its hunks, where header and hunks, put together, are the section; a section without hunks stays whole.\<close>

definition pieces_of :: "nat \<Rightarrow> bytes list \<Rightarrow> diff_unit list \<Rightarrow> bool" where
  "pieces_of b sec us \<longleftrightarrow> (\<forall>u \<in> set us. u_files u = (if file_of sec = [] then [] else [file_of sec]))
     \<and> (if blen sec \<le> b then map u_lines us = [sec]
        else \<exists>hdr hs. hdr @ concat hs = sec \<and> (\<forall>ln \<in> set hdr. \<not> starts_with HUNK ln) \<and> (\<forall>h \<in> set hs. one_hunk h)
          \<and> map u_lines us = (if hs = [] then [sec] else map ((@) hdr) hs))"

lemma units_pieces: "pieces_of b sec (units b sec)"
proof -
  obtain hdr hs where c: "cut_hunks sec None = (hdr, hs)" by force
  have parts: "hdr @ concat hs = sec" "\<forall>ln \<in> set hdr. \<not> starts_with HUNK ln" "\<forall>h \<in> set hs. one_hunk h"
    using cut_hunks_recover [OF c] cut_hunks_header [OF c] cut_hunks_each [OF c] by blast+
  have names: "\<forall>u \<in> set (units b sec). u_files u = (if file_of sec = [] then [] else [file_of sec])"
    by (auto simp: units_def Let_def c)
  show ?thesis
  proof (cases "blen sec \<le> b")
    case True
    then show ?thesis using names by (simp add: pieces_of_def units_def Let_def)
  next
    case False
    then have "map u_lines (units b sec) = (if hs = [] then [sec] else map ((@) hdr) hs)" by (simp add: units_def Let_def c)
    with parts names False show ?thesis unfolding pieces_of_def if_not_P [OF False] by blast
  qed
qed

text \<open>C40 (roundtrip).  Splitting loses nothing of the diff. The sections, joined, are the diff; the batches, joined, are the
  pieces of the sections in order, and the pieces of a section give it back: a section that fits is one piece, and
  one that does not is its header lines repeated before each of its hunks, so no header line, hunk or body line is
  missing. When every section fits, the batches joined are the diff byte for byte, and none is flagged.\<close>

theorem split_lossless:
  "\<exists>uss. list_all2 (pieces_of (clamp1 budget)) (sections (byte_lines diff)) uss
    \<and> concat (concat (sections (byte_lines diff))) = diff
    \<and> concat (map b_data (split_diff diff budget)) = concat (concat (map u_lines (concat uss)))
    \<and> ((\<forall>sec \<in> set (sections (byte_lines diff)). blen sec \<le> clamp1 budget) \<longrightarrow>
        concat (map b_data (split_diff diff budget)) = diff \<and> True \<notin> b_truncated ` set (split_diff diff budget))"
proof (intro exI [of _ "map (units (clamp1 budget)) (sections (byte_lines diff))"] conjI impI)
  let ?b = "clamp1 budget"
  show "list_all2 (pieces_of ?b) (sections (byte_lines diff)) (map (units ?b) (sections (byte_lines diff)))"
    by (simp add: list_all2_conv_all_nth units_pieces)
  show "concat (concat (sections (byte_lines diff))) = diff" by simp
  show data: "concat (map b_data (split_diff diff budget)) =
      concat (concat (map u_lines (concat (map (units ?b) (sections (byte_lines diff))))))"
    by (simp add: split_diff_greedy concat_batch_data diff_units_def)
  assume fit: "\<forall>sec \<in> set (sections (byte_lines diff)). blen sec \<le> ?b"
  from diff_units_fit [OF this] have small: "\<forall>u \<in> set (diff_units diff budget). u_size u \<le> ?b"
    and whole: "concat (map u_lines (diff_units diff budget)) = byte_lines diff" by (simp_all add: diff_units_def)
  show "concat (map b_data (split_diff diff budget)) = diff" using data whole by (simp add: diff_units_def)
  have "\<not> b_truncated (batch_of ?b g)" if "g \<in> set (greedy ?b [] (diff_units diff budget))" for g
  proof -
    have "set g \<subseteq> set (diff_units diff budget)"
      using that concat_greedy [of ?b "[]" "diff_units diff budget"]
      by (metis UN_upper append_Nil set_concat)
    with small show ?thesis by (auto simp: batch_of_def not_less)
  qed
  then show "True \<notin> b_truncated ` set (split_diff diff budget)" by (auto simp: split_diff_greedy)
qed

theorem split_lossless_witness:
  "concat (map b_data (split_diff (''diff --git a/x b/x'' @ [LF] @ ''diff --git a/y b/y'') 25))
      = ''diff --git a/x b/x'' @ [LF] @ ''diff --git a/y b/y''
    \<and> length (split_diff (''diff --git a/x b/x'' @ [LF] @ ''diff --git a/y b/y'') 25) = 2"
proof -
  let ?d = "''diff --git a/x b/x'' @ [LF] @ ''diff --git a/y b/y''"
  have "\<forall>sec \<in> set (sections (byte_lines ?d)). blen sec \<le> clamp1 25" by code_simp
  with split_lossless [of 25 ?d] have "concat (map b_data (split_diff ?d 25)) = ?d" by blast
  moreover have "length (split_diff ?d 25) = 2" by code_simp
  ultimately show ?thesis by blast
qed

text \<open>The header lines a region summary reports.\<close>

definition header_labels :: "bytes \<Rightarrow> label list" where
  "header_labels diff = map (decode \<circ> drop_eol)
     (filter (\<lambda>ln. starts_with DIFF_GIT ln \<or> starts_with HUNK ln) (map drop_eol (byte_lines diff)))"

lemma regions_from_take:
  "length out < cap \<Longrightarrow> regions_from cap out lns =
    (let hs = out @ map (decode \<circ> drop_eol)
        (filter (\<lambda>ln. starts_with DIFF_GIT ln \<or> starts_with HUNK ln) lns)
     in (take cap hs, cap \<le> length hs))"
  by (induction cap out lns rule: regions_from.induct)
    (auto simp: Let_def not_le le_Suc_eq Suc_le_eq)

text \<open>\<open>changed_regions\<close> reports the first \<open>max_lines\<close> header lines of the
  diff, hunk bodies left out, and \<open>capped\<close> says exactly that the diff has at least that many
  headers (also when nothing was dropped).\<close>

theorem changed_regions_prefix:
  "changed_regions diff max_lines =
     (take (clamp1 max_lines) (header_labels diff), clamp1 max_lines \<le> length (header_labels diff))"
  by (simp add: changed_regions_def header_labels_def regions_from_take clamp1_def Let_def)

end
