(* ===== verification/Ledger.thy ===== *)
theory Ledger
  imports PyText Timestamps
begin

section \<open>Ledger: the append-only triage event stream\<close>

text \<open>
  Models the \<open>triage_events\<close> table of \<open>store.py\<close> and its readers and writers:
  \<open>_append_triage_event\<close>, \<open>add_triage\<close>, \<open>triage_reopen\<close>, \<open>triage_defer\<close>,
  \<open>triage_state\<close>, \<open>triage_for\<close>, \<open>count_triaged_on_reviews\<close>, \<open>triage_history\<close> and
  \<open>open_deferrals\<close>. The stream is the list of its rows; a row's \<open>seq\<close> is its position.
  The locale \<open>audit_ledger\<close> is the contract the triage verbs and the gate rely on: the state
  of a finding is its last event, and nothing is ever edited or deleted.

  A record's file, line, severity and title are display columns; SQLite's column affinity
  (an integer stored in a text column reads back as text) is not modelled.
\<close>

subsection \<open>Events\<close>

datatype verb = Dismiss | Reopen | Defer

record event =
  ev_verb :: verb
  ev_ledger_key :: string
  ev_finding_key :: string
  ev_review_id :: string
  ev_branch :: string
  ev_base_sha :: string
  ev_file :: pyval
  ev_line :: pyval
  ev_severity :: pyval
  ev_title :: pyval
  ev_reason :: pyval
  ev_at :: pyval
  ev_ref :: pyval

type_synonym ledger = "event list"

text \<open>\<open>CLEARING_EVENTS\<close>.\<close>

definition clearing :: "verb \<Rightarrow> bool" where
  "clearing v \<longleftrightarrow> v \<in> {Dismiss, Defer}"

lemma clearing_simps [simp]: "clearing Dismiss" "clearing Defer" "\<not> clearing Reopen"
  by (simp_all add: clearing_def)

datatype door_error =
    BadText string        \<comment> \<open>\<open>_require_text\<close> refused a field\<close>
  | BadTimestamp string   \<comment> \<open>\<open>_require_ts\<close> refused a field\<close>
  | Unbindable            \<comment> \<open>sqlite3 cannot bind the value\<close>

text \<open>What \<open>sqlite3\<close> accepts as a parameter: no containers, integers of 64 bits.\<close>

fun bindable :: "pyval \<Rightarrow> bool" where
  "bindable (PList _) = False"
| "bindable (PDict _) = False"
| "bindable (PInt i) = (- (2 ^ 63) \<le> i \<and> i < 2 ^ 63)"
| "bindable _ = True"

text \<open>\<open>_require_text(label, value)\<close>: a non-blank string, returned stripped.\<close>

fun require_text :: "string \<Rightarrow> pyval \<Rightarrow> door_error + string" where
  "require_text label (PStr s) = (if strip s = [] then Inl (BadText label) else Inr (strip s))"
| "require_text label _ = Inl (BadText label)"

text \<open>\<open>_require_ts(label, value)\<close>.\<close>

definition require_ts :: "string \<Rightarrow> pyval \<Rightarrow> door_error + pyval" where
  "require_ts label v = (if is_canonical_ts v then Inr v else Inl (BadTimestamp label))"

text \<open>\<open>_append_triage_event(event, rec, reason, at, tracking_ref)\<close>: the record's columns
  come from \<open>rec\<close>, the four arguments from the verb.\<close>

definition append_triage_event ::
    "verb \<Rightarrow> event \<Rightarrow> pyval \<Rightarrow> pyval \<Rightarrow> pyval \<Rightarrow> ledger \<Rightarrow> door_error + ledger" where
  "append_triage_event v rec reason at ref l =
     (if bindable (ev_file rec) \<and> bindable (ev_line rec) \<and> bindable (ev_severity rec)
         \<and> bindable (ev_title rec) \<and> bindable reason \<and> bindable at \<and> bindable ref
      then Inr (l @ [rec\<lparr>ev_verb := v, ev_reason := reason, ev_at := at, ev_ref := ref\<rparr>])
      else Inl Unbindable)"

definition add_triage :: "event \<Rightarrow> ledger \<Rightarrow> door_error + ledger" where
  "add_triage rec l = append_triage_event Dismiss rec (ev_reason rec) (ev_at rec) PNone l"

definition triage_reopen :: "event \<Rightarrow> ledger \<Rightarrow> door_error + ledger" where
  "triage_reopen rec l =
     ebind (require_text ''reason'' (ev_reason rec)) (\<lambda>reason.
     ebind (require_ts ''at'' (ev_at rec)) (\<lambda>at.
     append_triage_event Reopen rec (PStr reason) at PNone l))"

definition triage_defer :: "event \<Rightarrow> ledger \<Rightarrow> door_error + ledger" where
  "triage_defer rec l =
     ebind (require_text ''reason'' (ev_reason rec)) (\<lambda>reason.
     ebind (require_text ''tracking_ref'' (ev_ref rec)) (\<lambda>ref.
     ebind (require_ts ''at'' (ev_at rec)) (\<lambda>at.
     append_triage_event Defer rec (PStr reason) at (PStr ref) l)))"

subsection \<open>Effective state\<close>

text \<open>A value of the map \<open>triage_state\<close> returns: the last event's own columns and,
  independently, the last dismissal, reopening and deferral.\<close>

record finding_state =
  fs_last :: event
  fs_dismissed_reason :: pyval
  fs_dismissed_at :: pyval
  fs_reopen_reason :: pyval
  fs_reopened_at :: pyval
  fs_defer_reason :: pyval
  fs_deferred_at :: pyval
  fs_deferred_ref :: pyval

definition fresh_state :: "event \<Rightarrow> finding_state" where
  "fresh_state e = \<lparr>fs_last = e, fs_dismissed_reason = PNone, fs_dismissed_at = PNone,
     fs_reopen_reason = PNone, fs_reopened_at = PNone, fs_defer_reason = PNone,
     fs_deferred_at = PNone, fs_deferred_ref = PNone\<rparr>"

text \<open>One round of the loop over the rows.\<close>

definition note_event :: "(string \<rightharpoonup> finding_state) \<Rightarrow> event \<Rightarrow> (string \<rightharpoonup> finding_state)" where
  "note_event m e =
     (let cur = (case m (ev_finding_key e) of None \<Rightarrow> fresh_state e | Some c \<Rightarrow> c\<lparr>fs_last := e\<rparr>)
      in m(ev_finding_key e \<mapsto>
        (case ev_verb e of
           Dismiss \<Rightarrow> cur\<lparr>fs_dismissed_reason := ev_reason e, fs_dismissed_at := ev_at e\<rparr>
         | Reopen \<Rightarrow> cur\<lparr>fs_reopen_reason := ev_reason e, fs_reopened_at := ev_at e\<rparr>
         | Defer \<Rightarrow> cur\<lparr>fs_defer_reason := ev_reason e, fs_deferred_at := ev_at e,
                        fs_deferred_ref := ev_ref e\<rparr>)))"

definition in_scope :: "string \<Rightarrow> string \<Rightarrow> event \<Rightarrow> bool" where
  "in_scope branch base_sha e \<longleftrightarrow> ev_branch e = branch \<and> ev_base_sha e = base_sha"

definition triage_state :: "ledger \<Rightarrow> string \<Rightarrow> string \<Rightarrow> (string \<rightharpoonup> finding_state)" where
  "triage_state l branch base_sha = foldl note_event Map.empty (filter (in_scope branch base_sha) l)"

definition triage_for :: "ledger \<Rightarrow> string \<Rightarrow> string \<Rightarrow> (string \<rightharpoonup> finding_state)" where
  "triage_for l branch base_sha k =
     (case triage_state l branch base_sha k of None \<Rightarrow> None
      | Some st \<Rightarrow> if clearing (ev_verb (fs_last st)) then Some st else None)"

text \<open>\<open>count_triaged_on_reviews(branch, review_ids)\<close>: the last event per finding key over the
  whole branch, whatever the base.\<close>

definition last_on_branch :: "ledger \<Rightarrow> string \<Rightarrow> (string \<rightharpoonup> event)" where
  "last_on_branch l branch =
     foldl (\<lambda>m e. m(ev_finding_key e \<mapsto> e)) Map.empty (filter (\<lambda>e. ev_branch e = branch) l)"

definition count_triaged_on_reviews :: "ledger \<Rightarrow> string \<Rightarrow> string list \<Rightarrow> nat" where
  "count_triaged_on_reviews l branch ids =
     length (filter (\<lambda>k. case last_on_branch l branch k of None \<Rightarrow> False
         | Some e \<Rightarrow> clearing (ev_verb e) \<and> ev_review_id e \<in> set ids)
       (remdups (map ev_finding_key (filter (\<lambda>e. ev_branch e = branch) l))))"

definition triage_history :: "ledger \<Rightarrow> string \<Rightarrow> event list" where
  "triage_history l lkey = filter (\<lambda>e. ev_ledger_key e = lkey) l"

text \<open>\<open>open_deferrals(limit)\<close>: the row with the greatest \<open>seq\<close> of each ledger key, when it is
  a deferral, newest first.\<close>

fun last_by_ledger_key :: "ledger \<Rightarrow> event list" where
  "last_by_ledger_key [] = []"
| "last_by_ledger_key (e # es) =
     (if ev_ledger_key e \<in> ev_ledger_key ` set es then last_by_ledger_key es
      else e # last_by_ledger_key es)"

definition open_deferrals :: "ledger \<Rightarrow> nat \<Rightarrow> event list" where
  "open_deferrals l limit =
     take limit (rev (filter (\<lambda>e. ev_verb e = Defer) (last_by_ledger_key l)))"

subsection \<open>The last event decides\<close>

text \<open>Specification: the last event of a finding in a scope.\<close>

definition finding_of :: "event \<Rightarrow> string \<times> string \<times> string" where
  "finding_of e = (ev_branch e, ev_base_sha e, ev_finding_key e)"

definition last_event :: "string \<times> string \<times> string \<Rightarrow> ledger \<Rightarrow> event option" where
  "last_event k l = (let es = filter (\<lambda>e. finding_of e = k) l
     in if es = [] then None else Some (last es))"

lemma last_event_Nil [simp]: "last_event k [] = None"
  by (simp add: last_event_def)

lemma last_event_snoc [simp]:
  "last_event k (l @ [e]) = (if finding_of e = k then Some e else last_event k l)"
  by (auto simp: last_event_def Let_def)

lemma triage_state_snoc:
  "triage_state (l @ [e]) b s = (if in_scope b s e then note_event (triage_state l b s) e
     else triage_state l b s)"
  by (simp add: triage_state_def)

lemma fs_last_note_event:
  "map_option fs_last (note_event m e k) =
    (if k = ev_finding_key e then Some e else map_option fs_last (m k))"
  by (auto simp: note_event_def fresh_state_def Let_def split: option.splits verb.splits)

lemma triage_state_last: "map_option fs_last (triage_state l b s k) = last_event (b, s, k) l"
proof (induction l rule: rev_induct)
  case Nil
  then show ?case by (simp add: triage_state_def)
next
  case (snoc e l)
  then show ?case
    by (auto simp: triage_state_snoc fs_last_note_event finding_of_def in_scope_def)
qed

definition cleared :: "ledger \<Rightarrow> string \<Rightarrow> string \<Rightarrow> string \<Rightarrow> bool" where
  "cleared l branch base_sha k \<longleftrightarrow> triage_for l branch base_sha k \<noteq> None"

lemma cleared_last:
  "cleared l b s k \<longleftrightarrow> (case last_event (b, s, k) l of None \<Rightarrow> False | Some e \<Rightarrow> clearing (ev_verb e))"
  using triage_state_last [of l b s k]
  by (cases "triage_state l b s k") (auto simp: cleared_def triage_for_def split: option.splits)

subsection \<open>The contract of an audit ledger\<close>

text \<open>A keyed table whose rows are never edited: reading a key gives the last event recorded
  under it, and the history only grows.\<close>

locale audit_ledger = keyed_table fetch put ident
  for fetch :: "'k \<Rightarrow> 't \<Rightarrow> 'r option"
    and put :: "'r \<Rightarrow> 't \<Rightarrow> 't"
    and ident :: "'r \<Rightarrow> 'k" +
  fixes history :: "'t \<Rightarrow> 'r list"
    and clears :: "'r \<Rightarrow> bool"
  assumes history_put: "history (put r t) = history t @ [r]"
begin

definition is_cleared :: "'k \<Rightarrow> 't \<Rightarrow> bool" where
  "is_cleared k t \<longleftrightarrow> (case fetch k t of None \<Rightarrow> False | Some r \<Rightarrow> clears r)"

lemma cleared_put: "is_cleared k (put r t) \<longleftrightarrow> (if k = ident r then clears r else is_cleared k t)"
  by (simp add: is_cleared_def fetch_put)

lemma history_kept: "\<exists>new. history (foldl (\<lambda>t r. put r t) t rs) = history t @ new"
proof (induction rs arbitrary: t)
  case (Cons r rs)
  from Cons [of "put r t"] show ?case by (auto simp: history_put)
qed simp

lemma cleared_by_last:
  "is_cleared k (foldl (\<lambda>t r. put r t) t rs) \<longleftrightarrow>
    (let es = filter (\<lambda>r. ident r = k) rs in if es = [] then is_cleared k t else clears (last es))"
proof (induction rs rule: rev_induct)
  case (snoc r rs)
  then show ?case by (auto simp: cleared_put Let_def)
qed simp

end

interpretation lg: audit_ledger last_event "\<lambda>e l. l @ [e]" finding_of "\<lambda>l. l" "\<lambda>e. clearing (ev_verb e)"
  by unfold_locales auto

lemma cleared_lg: "cleared l b s k = lg.is_cleared (b, s, k) l"
  by (simp add: cleared_last lg.is_cleared_def)

lemma append_triage_event_Inr:
  "append_triage_event v rec reason at ref l = Inr l' \<Longrightarrow>
    l' = l @ [rec\<lparr>ev_verb := v, ev_reason := reason, ev_at := at, ev_ref := ref\<rparr>]"
  by (auto simp: append_triage_event_def split: if_splits)

lemma append_triage_event_cleared:
  "append_triage_event v rec reason at ref l = Inr l' \<Longrightarrow>
    cleared l' b s k \<longleftrightarrow> (if (b, s, k) = finding_of rec then clearing v else cleared l b s k)"
  by (drule append_triage_event_Inr) (auto simp: cleared_lg lg.cleared_put finding_of_def)

lemma append_triage_event_prefix:
  "append_triage_event v rec reason at ref l = Inr l' \<Longrightarrow> \<exists>e. l' = l @ [e] \<and> ev_verb e = v"
  by (drule append_triage_event_Inr) auto

lemmas triage_writers = add_triage_def triage_reopen_def triage_defer_def

subsection \<open>The full row of the effective state\<close>

text \<open>The column \<open>f\<close> of the last event with verb \<open>v\<close>, or \<open>None\<close>.\<close>

definition last_col :: "verb \<Rightarrow> (event \<Rightarrow> pyval) \<Rightarrow> event list \<Rightarrow> pyval" where
  "last_col v f es = (let vs = filter (\<lambda>e. ev_verb e = v) es in if vs = [] then PNone else f (last vs))"

lemma last_col_snoc [simp]:
  "last_col v f (es @ [e]) = (if ev_verb e = v then f e else last_col v f es)"
  by (simp add: last_col_def Let_def)

lemma last_col_Nil [simp]: "last_col v f [] = PNone"
  by (simp add: last_col_def)

lemma last_col_single [simp]: "last_col v f [e] = (if ev_verb e = v then f e else PNone)"
  by (simp add: last_col_def)

definition state_row :: "event list \<Rightarrow> finding_state option" where
  "state_row es = (if es = [] then None else Some \<lparr>fs_last = last es,
     fs_dismissed_reason = last_col Dismiss ev_reason es, fs_dismissed_at = last_col Dismiss ev_at es,
     fs_reopen_reason = last_col Reopen ev_reason es, fs_reopened_at = last_col Reopen ev_at es,
     fs_defer_reason = last_col Defer ev_reason es, fs_deferred_at = last_col Defer ev_at es,
     fs_deferred_ref = last_col Defer ev_ref es\<rparr>)"

lemma note_event_state_row:
  "m (ev_finding_key e) = state_row es \<Longrightarrow> note_event m e (ev_finding_key e) = state_row (es @ [e])"
  by (cases "es = []"; cases "ev_verb e")
    (simp_all add: note_event_def fresh_state_def state_row_def Let_def)

lemma note_event_other: "k \<noteq> ev_finding_key e \<Longrightarrow> note_event m e k = m k"
  by (simp add: note_event_def Let_def)

subsection \<open>Deferrals still standing\<close>

lemma last_by_ledger_key_iff:
  "e \<in> set (last_by_ledger_key l) \<longleftrightarrow>
    (let es = filter (\<lambda>x. ev_ledger_key x = ev_ledger_key e) l in es \<noteq> [] \<and> last es = e)"
proof (induction l)
  case (Cons x l)
  have key: "y \<in> set (last_by_ledger_key l) \<Longrightarrow> y \<in> set l" for y
    by (induction l) (auto split: if_splits)
  show ?case
  proof (cases "ev_ledger_key x \<in> ev_ledger_key ` set l")
    case True
    then have "ev_ledger_key x = ev_ledger_key e \<Longrightarrow> filter (\<lambda>x. ev_ledger_key x = ev_ledger_key e) l \<noteq> []"
      by (auto simp: filter_empty_conv)
    with True Cons show ?thesis by (auto simp: Let_def)
  next
    case False
    then have "ev_ledger_key x = ev_ledger_key e \<Longrightarrow> filter (\<lambda>x. ev_ledger_key x = ev_ledger_key e) l = []"
      by (auto simp: filter_empty_conv image_iff)
    with False Cons show ?thesis by (auto simp: Let_def dest: key)
  qed
qed simp

text \<open>Events written under the key their columns name, in a scope the key does not conflate.\<close>

definition well_keyed :: "event \<Rightarrow> bool" where
  "well_keyed e \<longleftrightarrow> ev_ledger_key e = ledger_key (ev_branch e) (ev_base_sha e) (ev_finding_key e)"

definition normal_scope :: "event \<Rightarrow> bool" where
  "normal_scope e \<longleftrightarrow> norm_str (ev_branch e) = ev_branch e \<and> norm_str (ev_base_sha e) = ev_base_sha e
     \<and> CHR 0x00 \<notin> set (ev_branch e) \<union> set (ev_base_sha e)"

lemma well_keyed_inj:
  assumes "well_keyed e" "normal_scope e" "well_keyed e'" "normal_scope e'"
  shows "ev_ledger_key e = ev_ledger_key e' \<longleftrightarrow> finding_of e = finding_of e'"
proof
  assume "ev_ledger_key e = ev_ledger_key e'"
  then have "ledger_key (ev_branch e) (ev_base_sha e) (ev_finding_key e)
      = ledger_key (ev_branch e') (ev_base_sha e') (ev_finding_key e')"
    using assms by (simp add: well_keyed_def)
  from ledger_key_inj [OF this] assms show "finding_of e = finding_of e'"
    by (auto simp: normal_scope_def finding_of_def)
qed (use assms in \<open>simp add: well_keyed_def finding_of_def\<close>)

subsection \<open>Properties\<close>

text \<open>The effective state the store folds out of the event stream is, for
  every finding of a scope, the last event recorded under exactly that branch, base and
  finding key, together with the reason and time of the last dismissal, reopening and
  deferral; timestamps never decide.\<close>

theorem triage_state_is_last_event:
  "triage_state l branch base_sha k = state_row (filter (\<lambda>e. finding_of e = (branch, base_sha, k)) l)"
proof (induction l rule: rev_induct)
  case Nil
  then show ?case by (simp add: triage_state_def state_row_def)
next
  case (snoc e l)
  show ?case
  proof (cases "in_scope branch base_sha e")
    case True
    show ?thesis
    proof (cases "k = ev_finding_key e")
      case key: True
      with True have "finding_of e = (branch, base_sha, k)" by (simp add: in_scope_def finding_of_def)
      with True key snoc show ?thesis
        using note_event_state_row [of "triage_state l branch base_sha" e]
        by (simp add: triage_state_snoc)
    next
      case False
      with True snoc show ?thesis by (simp add: triage_state_snoc note_event_other finding_of_def)
    qed
  next
    case False
    with snoc show ?thesis by (auto simp: triage_state_snoc in_scope_def finding_of_def)
  qed
qed

text \<open>The deferral listing reports exactly the findings that stand deferred: with
  every event filed under its own key and the scopes in normal form, an event is listed if and
  only if it is the effective event of its finding and a deferral.\<close>

theorem open_deferrals_are_effective:
  assumes "\<forall>x \<in> set l. well_keyed x \<and> normal_scope x" and "e \<in> set l"
  shows "e \<in> set (open_deferrals l (length l)) \<longleftrightarrow>
    last_event (finding_of e) l = Some e \<and> ev_verb e = Defer"
proof -
  have len: "length (last_by_ledger_key l) \<le> length l"
    by (induction l) (auto intro: le_SucI)
  then have "length (filter (\<lambda>e. ev_verb e = Defer) (last_by_ledger_key l)) \<le> length l"
    by (rule le_trans [OF length_filter_le])
  then have "e \<in> set (open_deferrals l (length l)) \<longleftrightarrow> e \<in> set (last_by_ledger_key l) \<and> ev_verb e = Defer"
    by (auto simp: open_deferrals_def)
  moreover have "filter (\<lambda>x. ev_ledger_key x = ev_ledger_key e) l = filter (\<lambda>x. finding_of x = finding_of e) l"
    using assms well_keyed_inj by (intro filter_cong) auto
  ultimately show ?thesis by (auto simp: last_by_ledger_key_iff last_event_def Let_def)
qed

text \<open>A sample event, used by the witnesses.\<close>

definition sample_event :: "verb \<Rightarrow> string \<Rightarrow> event" where
  "sample_event v branch = \<lparr>ev_verb = v, ev_ledger_key = ledger_key branch ''b5'' ''f1'',
     ev_finding_key = ''f1'', ev_review_id = ''sk_1'', ev_branch = branch, ev_base_sha = ''b5'',
     ev_file = PStr ''a.py'', ev_line = PInt 3, ev_severity = PStr ''high'', ev_title = PStr ''race'',
     ev_reason = PStr ''filed for the next release'', ev_at = PStr ''2026-07-28T12:00:00Z'',
     ev_ref = PStr ''SKO-7''\<rparr>"

theorem open_deferrals_are_effective_witness:
  "sample_event Defer ''main'' \<in> set (open_deferrals [sample_event Dismiss ''main'', sample_event Defer ''main''] 2)"
proof -
  let ?l = "[sample_event Dismiss ''main'', sample_event Defer ''main'']"
  have "\<forall>x \<in> set ?l. well_keyed x \<and> normal_scope x"
    by (simp add: sample_event_def well_keyed_def normal_scope_def norm_str_def collapse_str_def
        strip_def lstrip_def is_space_def lower_def lower_char_def)
  moreover have "last_event (finding_of (sample_event Defer ''main'')) ?l = Some (sample_event Defer ''main'')"
    by (simp add: last_event_def)
  moreover have "ev_verb (sample_event Defer ''main'') = Defer" by (simp add: sample_event_def)
  ultimately have "sample_event Defer ''main'' \<in> set (open_deferrals ?l (length ?l))"
    using open_deferrals_are_effective [of ?l "sample_event Defer ''main''"]
    by (metis list.set_intros(1) list.set_intros(2))
  then show ?thesis by (simp add: numeral_2_eq_2)
qed

text \<open>The grouping by ledger key is not the grouping of the effective state: ledger
  keys are case-folded and white-space-collapsed, scopes are not. A deferral on branch
  \<open>Main\<close> followed by a reopening of the same finding on branch \<open>main\<close> still clears the gate
  on \<open>Main\<close>, but the listing no longer shows it.\<close>

theorem open_deferrals_conflate_case:
  "\<exists>l. list_all well_keyed l \<and> cleared l ''Main'' ''b5'' ''f1''
     \<and> last_event (''Main'', ''b5'', ''f1'') l = Some (sample_event Defer ''Main'')
     \<and> open_deferrals l (length l) = []"
proof (intro exI conjI)
  let ?l = "[sample_event Defer ''Main'', sample_event Reopen ''main'']"
  show "list_all well_keyed ?l" by (simp add: well_keyed_def sample_event_def)
  show le: "last_event (''Main'', ''b5'', ''f1'') ?l = Some (sample_event Defer ''Main'')"
    by (simp add: last_event_def finding_of_def sample_event_def)
  show "cleared ?l ''Main'' ''b5'' ''f1''" unfolding cleared_last le by (simp add: sample_event_def)
  show "open_deferrals ?l (length ?l) = []"
    by code_simp
qed

end
