(* ===== verification/Triage.thy ===== *)
theory Triage
  imports Ledger
begin

section \<open>Triage: the human decisions on findings\<close>

text \<open>
  Models \<open>triage.py\<close> and \<open>refuter_policy.py\<close>, and the exit codes of the triage services of
  \<open>services.py\<close>: the validation of a stored review artifact, the audit floors on a reason and
  on a tracking reference, the three verbs \<open>dismiss\<close>, \<open>defer\<close> and \<open>reopen\<close> over the
  event stream of theory \<open>Ledger\<close>, and \<open>adopt_refuter\<close>, the one path by which a refuter's
  verdict becomes a dismissal. Every \<open>raise\<close> is a constructor of \<open>triage_error\<close>; the
  wording of the messages is not modelled.
\<close>

subsection \<open>Errors\<close>

datatype artifact_error =
    NotObject
  | FieldMissing string
  | FieldNotString string pyval
  | FindingsMissing
  | FindingsNotList pyval
  | FindingsNonObject
  | TotalMissing
  | TotalNotInt pyval
  | TotalMismatch int nat

datatype refusal = ProvenanceMissing | SameFamily | AttributionMismatch

datatype triage_error =
    ArtifactError artifact_error
  | IndexNotInt               \<comment> \<open>\<open>FindingNotFound\<close>\<close>
  | IndexOutOfRange int       \<comment> \<open>\<open>FindingNotFound\<close>\<close>
  | EmptyReason
  | PlaceholderReason string
  | ShortReason nat
  | RefNotText
  | RefEmpty
  | RefTooLong nat
  | RefProse string
  | RefNothing string
  | NothingToReopen bool
  | NoRefuterPass
  | NoAnnotation
  | NoVerdict
  | NotRefuted string
  | ThinReasoning
  | ReasoningNotText
  | Unattributed string
  | Refused refusal
  | StoreError door_error     \<comment> \<open>not a \<open>TriageError\<close>: raised by the store\<close>

subsection \<open>The artifact validator\<close>

text \<open>A validated artifact: the dictionary itself and the fields every caller indexes.\<close>

record artifact =
  art_dict :: pydict
  art_id :: string
  art_branch :: string
  art_base :: string
  art_findings :: "pydict list"

definition string_field :: "pydict \<Rightarrow> string \<Rightarrow> artifact_error + string" where
  "string_field d f =
     (if \<not> dhas d f then Inl (FieldMissing f)
      else (case dget d f of PStr s \<Rightarrow> Inr s | v \<Rightarrow> Inl (FieldNotString f v)))"

fun all_dicts :: "pyval list \<Rightarrow> pydict list option" where
  "all_dicts [] = Some []"
| "all_dicts (PDict d # vs) = map_option (Cons d) (all_dicts vs)"
| "all_dicts (_ # vs) = None"

definition findings_field :: "pydict \<Rightarrow> artifact_error + pydict list" where
  "findings_field d =
     (if \<not> dhas d ''findings'' then Inl FindingsMissing
      else (case dget d ''findings'' of
          PList vs \<Rightarrow> (case all_dicts vs of None \<Rightarrow> Inl FindingsNonObject | Some fs \<Rightarrow> Inr fs)
        | v \<Rightarrow> Inl (FindingsNotList v)))"

definition total_field :: "pydict \<Rightarrow> nat \<Rightarrow> artifact_error + unit" where
  "total_field d n =
     (if \<not> dhas d ''findings_total'' then Inl TotalMissing
      else (case dget d ''findings_total'' of
          PInt t \<Rightarrow> if t \<noteq> int n then Inl (TotalMismatch t n) else Inr ()
        | v \<Rightarrow> Inl (TotalNotInt v)))"

fun load_valid_artifact :: "pyval \<Rightarrow> artifact_error + artifact" where
  "load_valid_artifact (PDict d) =
     ebind (string_field d ''id'') (\<lambda>rid.
     ebind (string_field d ''branch'') (\<lambda>branch.
     ebind (string_field d ''base_sha'') (\<lambda>base.
     ebind (findings_field d) (\<lambda>fs.
     ebind (total_field d (length fs)) (\<lambda>_.
     Inr \<lparr>art_dict = d, art_id = rid, art_branch = branch, art_base = base, art_findings = fs\<rparr>)))))"
| "load_valid_artifact _ = Inl NotObject"

text \<open>The message of an \<open>ArtifactError\<close>.\<close>

fun artifact_text :: "artifact_error \<Rightarrow> string" where
  "artifact_text NotObject = ''artifact is not an object''"
| "artifact_text (FieldMissing f) = f @ '' is missing''"
| "artifact_text (FieldNotString f v) = f @ '' is not a string ('' @ py_repr v @ '')''"
| "artifact_text FindingsMissing = ''findings is missing''"
| "artifact_text (FindingsNotList v) = ''findings is not a list ('' @ py_repr v @ '')''"
| "artifact_text FindingsNonObject = ''findings contains a non-object entry''"
| "artifact_text TotalMissing = ''findings_total is missing''"
| "artifact_text (TotalNotInt v) = ''findings_total is not an integer ('' @ py_repr v @ '')''"
| "artifact_text (TotalMismatch t n) =
     ''findings_total='' @ show_int t @ '' != len(findings)='' @ show_nat n
     @ '' (truncated or hand-edited artifact)''"

definition load_review :: "pyval \<Rightarrow> triage_error + artifact" where
  "load_review v = map_sum ArtifactError id (load_valid_artifact v)"

subsection \<open>The audit floors\<close>

definition placeholder_reasons :: "string list" where
  "placeholder_reasons = [
    ''false positive'', ''fp'', ''not a bug'', ''wontfix'', ''won'' @ [CHR 0x27] @ ''t fix'',
    ''no'', ''nope'', ''n/a'', ''na'', ''none'', ''ignore'', ''ignored'', ''skip'', ''skipped'',
    ''ok'', ''fine'', ''invalid'', ''wrong'', ''incorrect'', ''disagree'', ''not an issue'',
    ''no issue'', ''already fixed'', ''by design'', ''intentional'', ''known'', ''irrelevant'']"

abbreviation min_reason_chars :: nat where "min_reason_chars \<equiv> 20"
abbreviation max_tracking_ref_chars :: nat where "max_tracking_ref_chars \<equiv> 200"
abbreviation max_annotation_display_chars :: nat where "max_annotation_display_chars \<equiv> 120"

definition validate_reason :: "string \<Rightarrow> triage_error + unit" where
  "validate_reason reason =
     (let cleaned = collapse_str reason in
      if cleaned = [] then Inl EmptyReason
      else if norm_str cleaned \<in> set placeholder_reasons then Inl (PlaceholderReason cleaned)
      else if length cleaned < min_reason_chars then Inl (ShortReason (length cleaned))
      else Inr ())"

text \<open>\<open>_CONTROL_CHARS\<close> and \<open>str.isalnum\<close> of one character.\<close>

definition is_control :: "char \<Rightarrow> bool" where
  "is_control c \<longleftrightarrow> code c \<le> (31::nat) \<or> 127 \<le> (code c :: nat) \<and> code c \<le> (159::nat)"

definition is_alnum :: "char \<Rightarrow> bool" where
  "is_alnum c \<longleftrightarrow> (let n = code c :: nat in
     48 \<le> n \<and> n \<le> 57 \<or> 65 \<le> n \<and> n \<le> 90 \<or> 97 \<le> n \<and> n \<le> 122
     \<or> n \<in> {170, 178, 179, 181, 185, 186, 188, 189, 190}
     \<or> 192 \<le> n \<and> n \<noteq> 215 \<and> n \<noteq> 247)"

fun validate_tracking_ref :: "pyval \<Rightarrow> triage_error + string" where
  "validate_tracking_ref (PStr ref) =
     (let cleaned = strip ref in
      if cleaned = [] then Inl RefEmpty
      else if length cleaned > max_tracking_ref_chars then Inl (RefTooLong (length cleaned))
      else if list_ex is_space cleaned \<or> list_ex is_control cleaned then Inl (RefProse cleaned)
      else if \<not> list_ex is_alnum cleaned then Inl (RefNothing cleaned)
      else Inr cleaned)"
| "validate_tracking_ref _ = Inl RefNotText"

subsection \<open>Naming a finding\<close>

fun finding_at :: "pydict list \<Rightarrow> pyval \<Rightarrow> triage_error + pydict" where
  "finding_at findings (PInt i) =
     (if \<not> (0 \<le> i \<and> i < int (length findings)) then Inl (IndexOutOfRange i)
      else Inr (findings ! nat i))"
| "finding_at findings _ = Inl IndexNotInt"

definition key_of_finding :: "(string \<Rightarrow> string) \<Rightarrow> pydict \<Rightarrow> string" where
  "key_of_finding H f =
     finding_key H (dget_or f ''file'' (PStr [])) (dget_or f ''title'' (PStr []))"

definition keys_for ::
    "(string \<Rightarrow> string) \<Rightarrow> artifact \<Rightarrow> pyval \<Rightarrow> triage_error + pydict \<times> string \<times> string" where
  "keys_for H review index =
     ebind (finding_at (art_findings review) index) (\<lambda>f.
       let fkey = key_of_finding H f
       in Inr (f, fkey, ledger_key (art_branch review) (art_base review) fkey))"

subsection \<open>The verbs\<close>

text \<open>The record a verb hands to the store.\<close>

definition triage_rec ::
    "verb \<Rightarrow> artifact \<Rightarrow> pydict \<times> string \<times> string \<Rightarrow> string \<Rightarrow> pyval \<Rightarrow> string \<Rightarrow> event" where
  "triage_rec v review keys reason ref now =
     (case keys of (f, fkey, lkey) \<Rightarrow>
       \<lparr>ev_verb = v, ev_ledger_key = lkey, ev_finding_key = fkey, ev_review_id = art_id review,
        ev_branch = art_branch review, ev_base_sha = art_base review,
        ev_file = dget f ''file'', ev_line = dget f ''line'', ev_severity = dget f ''severity'',
        ev_title = dget f ''title'', ev_reason = PStr reason, ev_at = PStr now, ev_ref = ref\<rparr>)"

definition stored :: "event \<Rightarrow> door_error + ledger \<Rightarrow> triage_error + event \<times> ledger" where
  "stored rec r = map_sum StoreError (\<lambda>l. (rec, l)) r"

definition dismiss ::
    "(string \<Rightarrow> string) \<Rightarrow> pyval \<Rightarrow> pyval \<Rightarrow> string \<Rightarrow> string \<Rightarrow> ledger \<Rightarrow> triage_error + event \<times> ledger" where
  "dismiss H review index reason now l =
     ebind (load_review review) (\<lambda>review.
     ebind (validate_reason reason) (\<lambda>_.
     ebind (keys_for H review index) (\<lambda>keys.
       let rec = triage_rec Dismiss review keys reason PNone now
       in stored rec (add_triage rec l))))"

definition defer_finding ::
    "(string \<Rightarrow> string) \<Rightarrow> pyval \<Rightarrow> pyval \<Rightarrow> pyval \<Rightarrow> string \<Rightarrow> string \<Rightarrow> ledger
      \<Rightarrow> triage_error + event \<times> ledger" where
  "defer_finding H review index tracking_ref reason now l =
     ebind (load_review review) (\<lambda>review.
     ebind (keys_for H review index) (\<lambda>keys.
     ebind (validate_tracking_ref tracking_ref) (\<lambda>ref.
     ebind (validate_reason reason) (\<lambda>_.
       let rec = triage_rec Defer review keys reason (PStr ref) now
       in stored rec (triage_defer rec l)))))"

definition effective_event :: "ledger \<Rightarrow> artifact \<Rightarrow> string \<Rightarrow> verb option" where
  "effective_event l review fkey =
     map_option (\<lambda>st. ev_verb (fs_last st)) (triage_state l (art_branch review) (art_base review) fkey)"

definition reopen ::
    "(string \<Rightarrow> string) \<Rightarrow> pyval \<Rightarrow> pyval \<Rightarrow> string \<Rightarrow> string \<Rightarrow> ledger \<Rightarrow> triage_error + event \<times> ledger" where
  "reopen H review index reason now l =
     ebind (load_review review) (\<lambda>review.
     ebind (keys_for H review index) (\<lambda>keys.
     ebind (validate_reason reason) (\<lambda>_.
       let state = effective_event l review (fst (snd keys)) in
       if \<not> (case state of None \<Rightarrow> False | Some v \<Rightarrow> clearing v)
       then Inl (NothingToReopen (state = Some Reopen))
       else let rec = triage_rec Reopen review keys reason PNone now
            in stored rec (triage_reopen rec l))))"

text \<open>\<open>open_findings(review, triaged)\<close>; \<open>triaged\<close> is only tested for membership.\<close>

definition open_findings ::
    "(string \<Rightarrow> string) \<Rightarrow> pyval \<Rightarrow> (string \<rightharpoonup> finding_state) \<Rightarrow> artifact_error + pydict list" where
  "open_findings H review triaged =
     ebind (load_valid_artifact review) (\<lambda>a.
       Inr (filter (\<lambda>f. triaged (key_of_finding H f) = None) (art_findings a)))"

subsection \<open>Display\<close>

definition shown_field :: "pyval \<Rightarrow> string" where
  "shown_field v = take max_annotation_display_chars (filter (\<lambda>c. \<not> is_control c) (one_line v))"

text \<open>\<open>status_token(state)\<close>: the token the listing prints for one finding.\<close>

definition status_pair :: "string \<Rightarrow> pyval \<Rightarrow> string \<Rightarrow> pyval \<Rightarrow> string" where
  "status_pair label own other_word other =
     label @ (let when = shown_field own in if when = [] then [] else CHR '' '' # when)
       @ (let before = shown_field other
          in if before = [] then [] else '', '' @ other_word @ CHR '' '' # before)"

fun status_token :: "finding_state option \<Rightarrow> string" where
  "status_token None = ''OPEN''"
| "status_token (Some st) =
     (case ev_verb (fs_last st) of
        Defer \<Rightarrow>
          (let ref = shown_field (ev_ref (fs_last st));
               out = ''DEFERRED'' @ (if ref = [] then [] else '' -> '' @ ref);
               when = shown_field (fs_deferred_at st)
           in if when = [] then out else out @ CHR '' '' # when)
      | Dismiss \<Rightarrow> status_pair ''DISMISSED'' (fs_dismissed_at st) ''reopened'' (fs_reopened_at st)
      | Reopen \<Rightarrow> status_pair ''REOPENED'' (fs_reopened_at st) ''dismissed'' (fs_dismissed_at st))"

subsection \<open>Adopting a refuter's verdict\<close>

definition refuter_annotation :: "pyval \<Rightarrow> pydict option" where
  "refuter_annotation finding =
     (case vget finding ''refuter'' of PDict d \<Rightarrow> Some d | _ \<Rightarrow> None)"

text \<open>\<open>review.get("extra_passes", {}).get("refuter")\<close> where every level is a dictionary.\<close>

definition refuter_meta :: "pyval \<Rightarrow> pydict option" where
  "refuter_meta review =
     (case vget review ''extra_passes'' of
        PDict extras \<Rightarrow> (case dget extras ''refuter'' of PDict m \<Rightarrow> Some m | _ \<Rightarrow> None)
      | _ \<Rightarrow> None)"

definition refuter_pass_ran :: "pyval \<Rightarrow> bool" where
  "refuter_pass_ran review =
     (case refuter_meta review of None \<Rightarrow> False | Some m \<Rightarrow> dget m ''ran'' = PBool True)"

definition refuter_same_provider_as_finder :: "pyval \<Rightarrow> bool" where
  "refuter_same_provider_as_finder review =
     (case refuter_meta review of None \<Rightarrow> False
      | Some m \<Rightarrow> dget m ''same_provider_as_finder'' = PBool True)"

definition attribution :: "pydict \<Rightarrow> string \<Rightarrow> triage_error + string" where
  "attribution annotation field =
     (case dget annotation field of
        PStr s \<Rightarrow> if collapse_str s = [] then Inl (Unattributed field) else Inr (one_line (PStr s))
      | _ \<Rightarrow> Inl (Unattributed field))"

text \<open>\<open>refuter_policy.py\<close>.\<close>

fun provider_family :: "pyval \<Rightarrow> string option" where
  "provider_family (PStr s) =
     (let provider = lower s in
      if provider = ''openai-api'' then Some ''openai''
      else if provider \<in> {''openai'', ''xai'', ''google'', ''junie''} then Some provider else None)"
| "provider_family _ = None"

fun contributor_families :: "pyval \<Rightarrow> string list option" where
  "contributor_families (PList ps) =
     (if ps = [] \<or> None \<in> set (map provider_family ps) then None
      else Some (remdups (map (\<lambda>p. the (provider_family p)) ps)))"
| "contributor_families _ = None"

text \<open>The last comparison but one is between two lower-cased strings: both values have a
  family there, so both are strings.\<close>

fun lower_val :: "pyval \<Rightarrow> string" where
  "lower_val (PStr s) = lower s" | "lower_val _ = []"

definition adoption_refusal :: "pydict \<Rightarrow> pydict \<Rightarrow> refusal option" where
  "adoption_refusal meta annotation =
     (case (contributor_families (dget meta ''contributing_providers''),
            provider_family (dget meta ''provider'')) of
        (Some contributors, Some provider) \<Rightarrow>
          if dget meta ''same_provider_as_finder'' = PBool True \<or> provider \<in> set contributors
          then Some SameFamily
          else if provider_family (dget annotation ''provider'') \<noteq> Some provider
              \<or> lower_val (dget annotation ''provider'') \<noteq> lower_val (dget meta ''provider'')
              \<or> dget annotation ''model'' \<noteq> dget meta ''model''
          then Some AttributionMismatch else None
      | _ \<Rightarrow> Some ProvenanceMissing)"

definition adopted_reason :: "string \<Rightarrow> string \<Rightarrow> string \<Rightarrow> string" where
  "adopted_reason provider model reasoning =
     ''refuter('' @ provider @ ''/'' @ model @ ''): '' @ reasoning"

definition verdict_of :: "pydict \<Rightarrow> triage_error + unit" where
  "verdict_of annotation =
     (case dget annotation ''verdict'' of
        PStr v \<Rightarrow> if v \<noteq> ''refuted'' then Inl (NotRefuted v) else Inr ()
      | _ \<Rightarrow> Inl NoVerdict)"

definition adopt_refuter ::
    "(string \<Rightarrow> string) \<Rightarrow> pyval \<Rightarrow> pyval \<Rightarrow> string \<Rightarrow> ledger \<Rightarrow> triage_error + event \<times> ledger" where
  "adopt_refuter H review index now l =
     ebind (load_review review) (\<lambda>a.
     ebind (finding_at (art_findings a) index) (\<lambda>finding.
     ebind (guard (refuter_pass_ran review) NoRefuterPass) (\<lambda>_.
     case refuter_annotation (PDict finding) of None \<Rightarrow> Inl NoAnnotation
     | Some annotation \<Rightarrow>
         ebind (verdict_of annotation) (\<lambda>_.
         ebind (guard (dget annotation ''thin_reasoning'' \<noteq> PBool True) ThinReasoning) (\<lambda>_.
         case dget annotation ''reasoning'' of
           PStr reasoning \<Rightarrow>
             ebind (validate_reason reasoning) (\<lambda>_.
             ebind (attribution annotation ''provider'') (\<lambda>provider.
             ebind (attribution annotation ''model'') (\<lambda>model.
             let reason = adopted_reason provider model reasoning in
             ebind (validate_reason reason) (\<lambda>_.
             case refuter_meta review of None \<Rightarrow> Inl NoRefuterPass
             | Some meta \<Rightarrow>
                 (case adoption_refusal meta annotation of
                    Some r \<Rightarrow> Inl (Refused r)
                  | None \<Rightarrow> dismiss H review index reason now l)))))
         | _ \<Rightarrow> Inl ReasoningNotText)))))"

subsection \<open>The services' exit codes\<close>

text \<open>
  \<open>svc_triage_dismiss\<close>, \<open>svc_adopt_refuter\<close>, \<open>svc_triage_reopen\<close>, \<open>svc_triage_defer\<close>: the exit
  code and the ledger left behind. \<open>refusal\<close> says that the identity guard of \<open>control.py\<close>
  refused (or failed), \<open>review\<close> is what \<open>store.get_review\<close> returned. A missing argument is
  \<open>None\<close>.
\<close>

fun not_found :: "triage_error \<Rightarrow> bool" where
  "not_found (ArtifactError _) = True"
| "not_found IndexNotInt = True"
| "not_found (IndexOutOfRange _) = True"
| "not_found _ = False"

fun verb_code :: "triage_error \<Rightarrow> nat" where
  "verb_code (StoreError _) = 2"
| "verb_code e = (if not_found e then 2 else 1)"

definition settle :: "(triage_error \<Rightarrow> nat) \<Rightarrow> ledger \<Rightarrow> triage_error + event \<times> ledger \<Rightarrow> nat \<times> ledger" where
  "settle exit_of l r = (case r of Inl e \<Rightarrow> (exit_of e, l) | Inr (rec, l') \<Rightarrow> (0, l'))"

text \<open>\<open>_load_review(store, review_id)\<close>.\<close>

definition found_review :: "pyval option \<Rightarrow> pyval option" where
  "found_review review =
     (case review of None \<Rightarrow> None
      | Some v \<Rightarrow> (case load_valid_artifact v of Inl _ \<Rightarrow> None | Inr _ \<Rightarrow> Some v))"

definition svc_triage_dismiss ::
    "(string \<Rightarrow> string) \<Rightarrow> bool \<Rightarrow> pyval option \<Rightarrow> pyval option \<Rightarrow> string option \<Rightarrow> string \<Rightarrow> ledger
      \<Rightarrow> nat \<times> ledger" where
  "svc_triage_dismiss H refusal review index reason now l =
     (if refusal then (2, l)
      else case found_review review of None \<Rightarrow> (2, l)
      | Some v \<Rightarrow> (case (index, reason) of
          (Some i, Some r) \<Rightarrow> settle (\<lambda>_. 2) l (dismiss H v i r now l)
        | _ \<Rightarrow> (2, l)))"

definition svc_adopt_refuter ::
    "(string \<Rightarrow> string) \<Rightarrow> bool \<Rightarrow> pyval option \<Rightarrow> pyval option \<Rightarrow> string \<Rightarrow> ledger \<Rightarrow> nat \<times> ledger" where
  "svc_adopt_refuter H refusal review index now l =
     (if refusal then (2, l)
      else case index of None \<Rightarrow> (2, l)
      | Some i \<Rightarrow> (case found_review review of None \<Rightarrow> (2, l)
         | Some v \<Rightarrow> settle verb_code l (adopt_refuter H v i now l)))"

definition svc_triage_reopen ::
    "(string \<Rightarrow> string) \<Rightarrow> bool \<Rightarrow> pyval option \<Rightarrow> pyval option \<Rightarrow> string option \<Rightarrow> string \<Rightarrow> ledger
      \<Rightarrow> nat \<times> ledger" where
  "svc_triage_reopen H refusal review index reason now l =
     (if refusal then (2, l)
      else case (index, reason) of
        (Some i, Some r) \<Rightarrow> (case found_review review of None \<Rightarrow> (2, l)
           | Some v \<Rightarrow> settle verb_code l (reopen H v i r now l))
      | _ \<Rightarrow> (2, l))"

definition svc_triage_defer ::
    "(string \<Rightarrow> string) \<Rightarrow> bool \<Rightarrow> pyval option \<Rightarrow> pyval option \<Rightarrow> pyval option \<Rightarrow> string option
      \<Rightarrow> string \<Rightarrow> ledger \<Rightarrow> nat \<times> ledger" where
  "svc_triage_defer H refusal review index tracking_ref reason now l =
     (if refusal then (2, l)
      else case (index, tracking_ref, reason) of
        (Some i, Some t, Some r) \<Rightarrow> (case found_review review of None \<Rightarrow> (2, l)
           | Some v \<Rightarrow> settle verb_code l (defer_finding H v i t r now l))
      | _ \<Rightarrow> (2, l))"

subsection \<open>What the validators accept\<close>

lemma load_valid_artifact_Inr:
  "load_valid_artifact v = Inr a \<longleftrightarrow>
    (\<exists>d. v = PDict d \<and> art_dict a = d \<and> dget d ''id'' = PStr (art_id a)
      \<and> dget d ''branch'' = PStr (art_branch a) \<and> dget d ''base_sha'' = PStr (art_base a)
      \<and> (\<exists>vs. dget d ''findings'' = PList vs \<and> all_dicts vs = Some (art_findings a))
      \<and> dget d ''findings_total'' = PInt (int (length (art_findings a))))"
  (is "?l \<longleftrightarrow> ?r")
proof
  assume ?l
  then show ?r
    by (cases v) (auto simp: err_iffs string_field_def findings_field_def total_field_def
        split: if_splits pyval.splits option.splits)
next
  assume ?r
  then show ?l
    by (cases a) (auto simp: string_field_def findings_field_def total_field_def dhas_dget)
qed

lemma load_review_Inr [simp]: "load_review v = Inr a \<longleftrightarrow> load_valid_artifact v = Inr a"
  by (cases "load_valid_artifact v") (auto simp: load_review_def)

lemma load_review_Inl: "load_review v = Inl e \<longleftrightarrow> (\<exists>x. e = ArtifactError x \<and> load_valid_artifact v = Inl x)"
  by (cases "load_valid_artifact v") (auto simp: load_review_def)

lemma placeholder_short: "p \<in> set placeholder_reasons \<Longrightarrow> length p < min_reason_chars"
  by (auto simp: placeholder_reasons_def)

lemma validate_reason_Inr:
  "validate_reason reason = Inr u \<longleftrightarrow> min_reason_chars \<le> length (collapse_str reason)"
proof -
  have "length (norm_str (collapse_str reason)) = length (collapse_str reason)"
    by (simp add: norm_str_def lower_def)
  then have "norm_str (collapse_str reason) \<in> set placeholder_reasons
      \<Longrightarrow> length (collapse_str reason) < min_reason_chars"
    using placeholder_short by metis
  then show ?thesis by (auto simp: validate_reason_def Let_def)
qed

lemma validate_tracking_ref_Inr:
  "validate_tracking_ref v = Inr r \<longleftrightarrow>
    (\<exists>s. v = PStr s \<and> r = strip s) \<and> r \<noteq> [] \<and> length r \<le> max_tracking_ref_chars
    \<and> (\<forall>c \<in> set r. \<not> is_space c \<and> \<not> is_control c) \<and> (\<exists>c \<in> set r. is_alnum c)"
  by (cases v) (auto simp: Let_def list_ex_iff)

lemma finding_at_Inr:
  "finding_at fs index = Inr f \<longleftrightarrow>
    (\<exists>i. index = PInt i \<and> 0 \<le> i \<and> i < int (length fs) \<and> f = fs ! nat i)"
  by (cases index) auto

lemma finding_at_Inl: "finding_at fs index = Inl e \<Longrightarrow> not_found e"
  by (cases index) (auto split: if_splits)

lemma keys_for_Inr:
  "keys_for H a index = Inr (f, fkey, lkey) \<longleftrightarrow>
    finding_at (art_findings a) index = Inr f \<and> fkey = key_of_finding H f
    \<and> lkey = ledger_key (art_branch a) (art_base a) fkey"
  by (auto simp: keys_for_def err_iffs Let_def)

lemma keys_for_Inl: "keys_for H a index = Inl e \<Longrightarrow> not_found e"
  by (auto simp: keys_for_def err_iffs Let_def finding_at_Inl)

lemma stored_Inr [simp]: "stored rec r = Inr (rec', l') \<longleftrightarrow> rec' = rec \<and> r = Inr l'"
  by (cases r) (auto simp: stored_def)

text \<open>The finding a verb names, as the ledger identifies it.\<close>

definition named :: "(string \<Rightarrow> string) \<Rightarrow> artifact \<Rightarrow> pydict \<Rightarrow> string \<times> string \<times> string" where
  "named H a f = (art_branch a, art_base a, key_of_finding H f)"

lemma finding_of_rec:
  "keys_for H a index = Inr keys \<Longrightarrow> finding_of (triage_rec v a keys r ref now) = named H a (fst keys)"
  by (cases keys) (auto simp: keys_for_Inr triage_rec_def finding_of_def named_def)

lemmas verb_Inr = err_iffs load_review_Inr stored_Inr validate_reason_Inr Let_def

text \<open>Every verb, when it succeeds, appends exactly one event of its kind under the key of the
  finding it names.\<close>

lemma dismiss_appends:
  assumes "dismiss H review index reason now l = Inr (rec, l')"
  obtains a f where "load_valid_artifact review = Inr a" "finding_at (art_findings a) index = Inr f"
    "finding_of rec = named H a f" "ev_reason rec = PStr reason"
    "min_reason_chars \<le> length (collapse_str reason)"
    "append_triage_event Dismiss rec (PStr reason) (PStr now) PNone l = Inr l'"
proof -
  from assms obtain a keys where a: "load_valid_artifact review = Inr a"
    and k: "keys_for H a index = Inr keys" and r: "min_reason_chars \<le> length (collapse_str reason)"
    and rec: "rec = triage_rec Dismiss a keys reason PNone now" and l': "add_triage rec l = Inr l'"
    unfolding dismiss_def verb_Inr by blast
  have "finding_at (art_findings a) index = Inr (fst keys)"
    using k by (cases keys) (auto simp: keys_for_Inr)
  moreover have "ev_reason rec = PStr reason" "ev_at rec = PStr now"
    by (simp_all add: rec triage_rec_def split: prod.split)
  ultimately show thesis
    using that a r l' finding_of_rec [OF k] by (simp add: rec add_triage_def)
qed

lemma defer_appends:
  assumes "defer_finding H review index ref reason now l = Inr (rec, l')"
  obtains a f r where "load_valid_artifact review = Inr a" "finding_at (art_findings a) index = Inr f"
    "finding_of rec = named H a f" "validate_tracking_ref ref = Inr r" "ev_ref rec = PStr r"
    "min_reason_chars \<le> length (collapse_str reason)"
    "append_triage_event Defer rec (PStr (strip reason)) (PStr now) (PStr r) l = Inr l'"
proof -
  from assms obtain a keys r where a: "load_valid_artifact review = Inr a"
    and k: "keys_for H a index = Inr keys" and r: "min_reason_chars \<le> length (collapse_str reason)"
    and ref: "validate_tracking_ref ref = Inr r"
    and rec: "rec = triage_rec Defer a keys reason (PStr r) now" and l': "triage_defer rec l = Inr l'"
    unfolding defer_finding_def verb_Inr by blast
  have "finding_at (art_findings a) index = Inr (fst keys)"
    using k by (cases keys) (auto simp: keys_for_Inr)
  moreover have cols: "ev_reason rec = PStr reason" "ev_at rec = PStr now" "ev_ref rec = PStr r"
    by (simp_all add: rec triage_rec_def split: prod.split)
  moreover have "strip r = r" using ref by (auto simp: validate_tracking_ref_Inr simp del: validate_tracking_ref.simps intro!: strip_id)
  moreover from this l' have "append_triage_event Defer rec (PStr (strip reason)) (PStr now) (PStr r) l = Inr l'"
    by (auto simp: triage_defer_def err_iffs cols require_ts_def split: if_splits)
  ultimately show thesis using that a r ref finding_of_rec [OF k] by (simp add: rec)
qed

lemma reopen_appends:
  assumes "reopen H review index reason now l = Inr (rec, l')"
  obtains a f where "load_valid_artifact review = Inr a" "finding_at (art_findings a) index = Inr f"
    "finding_of rec = named H a f" "min_reason_chars \<le> length (collapse_str reason)"
    "effective_event l a (key_of_finding H f) \<in> {Some Dismiss, Some Defer}"
    "append_triage_event Reopen rec (PStr (strip reason)) (PStr now) PNone l = Inr l'"
proof -
  from assms obtain a keys where a: "load_valid_artifact review = Inr a"
    and k: "keys_for H a index = Inr keys" and r: "min_reason_chars \<le> length (collapse_str reason)"
    and st: "case effective_event l a (fst (snd keys)) of None \<Rightarrow> False | Some v \<Rightarrow> clearing v"
    and rec: "rec = triage_rec Reopen a keys reason PNone now" and l': "triage_reopen rec l = Inr l'"
    unfolding reopen_def verb_Inr by (auto split: if_splits)
  have f: "finding_at (art_findings a) index = Inr (fst keys)" "fst (snd keys) = key_of_finding H (fst keys)"
    using k by (cases keys; auto simp: keys_for_Inr)+
  moreover have cols: "ev_reason rec = PStr reason" "ev_at rec = PStr now"
    by (simp_all add: rec triage_rec_def split: prod.split)
  moreover from l' have "append_triage_event Reopen rec (PStr (strip reason)) (PStr now) PNone l = Inr l'"
    by (auto simp: triage_reopen_def err_iffs cols require_ts_def split: if_splits)
  moreover have "effective_event l a (key_of_finding H (fst keys)) \<in> {Some Dismiss, Some Defer}"
    using st f(2) by (auto simp: clearing_def split: option.splits)
  ultimately show thesis using that a r finding_of_rec [OF k] by (simp add: rec)
qed

lemma effective_cleared:
  "effective_event l a k \<in> {Some Dismiss, Some Defer} \<longleftrightarrow> cleared l (art_branch a) (art_base a) k"
  by (auto simp: effective_event_def cleared_def triage_for_def clearing_def split: option.splits)

lemma adopt_Inr:
  assumes "adopt_refuter H review index now l = Inr (rec, l')"
  obtains a f annotation meta reasoning provider model where
    "load_valid_artifact review = Inr a" "finding_at (art_findings a) index = Inr f"
    "refuter_pass_ran review" "refuter_meta review = Some meta"
    "refuter_annotation (PDict f) = Some annotation" "dget annotation ''verdict'' = PStr ''refuted''"
    "dget annotation ''thin_reasoning'' \<noteq> PBool True" "dget annotation ''reasoning'' = PStr reasoning"
    "min_reason_chars \<le> length (collapse_str reasoning)" "adoption_refusal meta annotation = None"
    "attribution annotation ''provider'' = Inr provider" "attribution annotation ''model'' = Inr model"
    "dismiss H review index (adopted_reason provider model reasoning) now l = Inr (rec, l')"
proof -
  from assms obtain a f annotation where a: "load_valid_artifact review = Inr a"
      "finding_at (art_findings a) index = Inr f" "refuter_pass_ran review"
      "refuter_annotation (PDict f) = Some annotation" "verdict_of annotation = Inr ()"
      "dget annotation ''thin_reasoning'' \<noteq> PBool True"
    and rest: "(case dget annotation ''reasoning'' of
           PStr reasoning \<Rightarrow>
             ebind (validate_reason reasoning) (\<lambda>_.
             ebind (attribution annotation ''provider'') (\<lambda>provider.
             ebind (attribution annotation ''model'') (\<lambda>model.
             let reason = adopted_reason provider model reasoning in
             ebind (validate_reason reason) (\<lambda>_.
             case refuter_meta review of None \<Rightarrow> Inl NoRefuterPass
             | Some meta \<Rightarrow>
                 (case adoption_refusal meta annotation of
                    Some r \<Rightarrow> Inl (Refused r)
                  | None \<Rightarrow> dismiss H review index reason now l)))))
         | _ \<Rightarrow> Inl ReasoningNotText) = Inr (rec, l')"
    unfolding adopt_refuter_def by (auto simp: err_iffs split: option.splits)
  from rest obtain reasoning provider model meta where
    "dget annotation ''reasoning'' = PStr reasoning" "validate_reason reasoning = Inr ()"
    "attribution annotation ''provider'' = Inr provider" "attribution annotation ''model'' = Inr model"
    "refuter_meta review = Some meta" "adoption_refusal meta annotation = None"
    "dismiss H review index (adopted_reason provider model reasoning) now l = Inr (rec, l')"
    by (auto simp: err_iffs Let_def split: pyval.splits option.splits)
  moreover have "dget annotation ''verdict'' = PStr ''refuted''"
    using a(5) by (auto simp: verdict_of_def split: pyval.splits if_splits)
  ultimately show thesis using that a by (simp add: validate_reason_Inr)
qed

lemma floor_not_blank: "validate_reason reason = Inr () \<Longrightarrow> strip reason \<noteq> []"
proof
  assume v: "validate_reason reason = Inr ()" and "strip reason = []"
  then have "collapse_str reason = []" by (simp add: collapse_str_Nil_iff strip_Nil_iff)
  with v show False by (simp add: validate_reason_Inr)
qed

lemma dismiss_succeeds:
  assumes "load_valid_artifact review = Inr a" and "finding_at (art_findings a) index = Inr f"
    and "validate_reason reason = Inr ()"
    and "\<forall>c \<in> {''file'', ''line'', ''severity'', ''title''}. bindable (dget f c)"
  shows "\<exists>rec. dismiss H review index reason now l = Inr (rec, l @ [rec])"
proof -
  obtain fkey lkey where k: "keys_for H a index = Inr (f, fkey, lkey)" using assms(2) by (simp add: keys_for_Inr)
  with assms show ?thesis
    by (simp add: dismiss_def load_review_def Let_def add_triage_def append_triage_event_def triage_rec_def
        stored_def)
qed

lemma defer_succeeds:
  assumes "load_valid_artifact review = Inr a" and "finding_at (art_findings a) index = Inr f"
    and "validate_reason reason = Inr ()" and "validate_tracking_ref ref = Inr r"
    and "is_canonical_ts (PStr now)"
    and "\<forall>c \<in> {''file'', ''line'', ''severity'', ''title''}. bindable (dget f c)"
  shows "\<exists>rec l'. defer_finding H review index ref reason now l = Inr (rec, l')"
proof -
  obtain fkey lkey where k: "keys_for H a index = Inr (f, fkey, lkey)" using assms(2) by (simp add: keys_for_Inr)
  have r: "strip r = r" "r \<noteq> []" using assms(4)
    by (auto simp: validate_tracking_ref_Inr simp del: validate_tracking_ref.simps intro!: strip_id)
  moreover have "strip reason \<noteq> []" using assms(3) by (rule floor_not_blank)
  ultimately show ?thesis using assms k
    by (simp add: defer_finding_def load_review_def Let_def triage_defer_def append_triage_event_def triage_rec_def
        stored_def require_ts_def)
qed

lemma validate_reason_long: "min_reason_chars \<le> length (collapse_str reason) \<Longrightarrow> validate_reason reason = Inr ()"
  by (simp add: validate_reason_Inr)

text \<open>A sample artifact, used by the witnesses: one finding, refuted by another vendor.\<close>

definition sample_finding :: pydict where
  "sample_finding = [(''file'', PStr ''a.py''), (''line'', PInt 3), (''severity'', PStr ''high''),
     (''title'', PStr ''race''), (''refuter'', PDict [(''verdict'', PStr ''refuted''),
       (''provider'', PStr ''xai''), (''model'', PStr ''grok''),
       (''reasoning'', PStr ''the lock is taken two frames above'')])]"

definition sample_dict :: pydict where
  "sample_dict = [(''id'', PStr ''sk_1''), (''branch'', PStr ''main''), (''base_sha'', PStr ''b5''),
     (''findings'', PList [PDict sample_finding]), (''findings_total'', PInt 1),
     (''extra_passes'', PDict [(''refuter'', PDict [(''ran'', PBool True), (''provider'', PStr ''xai''),
       (''model'', PStr ''grok''), (''contributing_providers'', PList [PStr ''openai'']),
       (''same_provider_as_finder'', PBool False)])])]"

abbreviation sample_review :: pyval where "sample_review \<equiv> PDict sample_dict"

definition sample_artifact :: artifact where
  "sample_artifact = \<lparr>art_dict = sample_dict, art_id = ''sk_1'', art_branch = ''main'', art_base = ''b5'',
     art_findings = [sample_finding]\<rparr>"

abbreviation sample_reason :: string where
  "sample_reason \<equiv> ''the guard is in the caller''"

abbreviation sample_now :: string where "sample_now \<equiv> ''2026-07-28T12:00:00Z''"

lemma sample_facts:
  "load_valid_artifact sample_review = Inr sample_artifact"
  "finding_at (art_findings sample_artifact) (PInt 0) = Inr sample_finding"
  "validate_reason sample_reason = Inr ()"
  "\<forall>c \<in> {''file'', ''line'', ''severity'', ''title''}. bindable (dget sample_finding c)"
  "is_canonical_ts (PStr sample_now)"
proof -
  show "load_valid_artifact sample_review = Inr sample_artifact"
    unfolding load_valid_artifact_Inr by (simp add: sample_dict_def sample_artifact_def dget_def)
  show "finding_at (art_findings sample_artifact) (PInt 0) = Inr sample_finding"
    by (simp add: sample_artifact_def)
  have "min_reason_chars \<le> length (collapse_str sample_reason)" by code_simp
  then show "validate_reason sample_reason = Inr ()" by (rule validate_reason_long)
  show "\<forall>c \<in> {''file'', ''line'', ''severity'', ''title''}. bindable (dget sample_finding c)"
    by (simp add: sample_finding_def dget_def)
  show "is_canonical_ts (PStr sample_now)" by code_simp
qed

subsection \<open>Properties\<close>

text \<open>The audit floor on a reason comes to one test: a reason is accepted
  exactly when its white-space-collapsed text has at least 20 characters. The placeholder
  set never rejects a reason the length would accept: it only decides which message a short
  reason gets, and every placeholder, in any case and spacing, gets its own.\<close>

theorem validate_reason_floor:
  "(validate_reason reason = Inr () \<longleftrightarrow> 20 \<le> length (collapse_str reason))
   \<and> (norm_str reason \<in> set placeholder_reasons \<longleftrightarrow>
       (\<exists>cleaned. validate_reason reason = Inl (PlaceholderReason cleaned)))"
proof
  show "validate_reason reason = Inr () \<longleftrightarrow> 20 \<le> length (collapse_str reason)"
    by (simp add: validate_reason_Inr)
  have "norm_str (collapse_str reason) = norm_str reason" by (simp add: norm_str_def)
  moreover have "[] \<notin> set placeholder_reasons" by (simp add: placeholder_reasons_def)
  moreover have "collapse_str reason = [] \<Longrightarrow> norm_str reason = []" by (simp add: norm_str_def lower_def)
  ultimately show "norm_str reason \<in> set placeholder_reasons \<longleftrightarrow>
      (\<exists>cleaned. validate_reason reason = Inl (PlaceholderReason cleaned))"
    by (auto simp: validate_reason_def Let_def)
qed

text \<open>A tracking reference that the floor accepts is one token: at most 200
  characters, no white space, no control character, at least one letter or digit; and the
  canonical form it returns is a fixed point, so validating what was stored gives it back.\<close>

theorem tracking_ref_canonical:
  assumes "validate_tracking_ref v = Inr r"
  shows "validate_tracking_ref (PStr r) = Inr r \<and> length r \<le> 200
    \<and> (\<forall>c \<in> set r. \<not> is_space c \<and> \<not> is_control c) \<and> (\<exists>c \<in> set r. is_alnum c)"
proof -
  have "r \<noteq> []" "\<forall>c \<in> set r. \<not> is_space c" using assms by (auto simp: validate_tracking_ref_Inr simp del: validate_tracking_ref.simps)
  then have "strip r = r" by (intro strip_id) auto
  then show ?thesis using assms by (auto simp: validate_tracking_ref_Inr simp del: validate_tracking_ref.simps)
qed

theorem tracking_ref_canonical_witness:
  "validate_tracking_ref (PStr ''owner/repo#5'') = Inr ''owner/repo#5''"
proof -
  have "validate_tracking_ref (PStr ''  owner/repo#5 '') = Inr ''owner/repo#5''" by code_simp
  from tracking_ref_canonical [OF this] show ?thesis by blast
qed

text \<open>Nothing untrusted leaves \<open>shown_field\<close> that could break a one-line listing:
  at most 120 characters, none of them a control character, and so neither a line break nor
  an escape; a field that is already plain and short is shown as it is.\<close>

theorem shown_field_safe:
  "length (shown_field v) \<le> 120 \<and> (\<forall>c \<in> set (shown_field v). \<not> is_control c \<and> \<not> is_line_end c)
   \<and> (\<forall>s. v = PStr s \<and> length s \<le> 120 \<and> list_all (\<lambda>c. \<not> is_control c) s \<longrightarrow> shown_field v = s)"
proof (intro conjI allI impI ballI)
  fix c assume "c \<in> set (shown_field v)"
  then show c: "\<not> is_control c" by (auto simp: shown_field_def dest: in_set_takeD)
  then show "\<not> is_line_end c" by (auto simp: is_control_def is_line_end_def)
next
  fix s assume a: "v = PStr s \<and> length s \<le> 120 \<and> list_all (\<lambda>c. \<not> is_control c) s"
  moreover have "is_control CR" "is_control LF" by (simp_all add: is_control_def)
  ultimately have "CR \<notin> set s" "LF \<notin> set s" by (auto simp: list_all_iff)
  then have "replace_char LF CHR '' '' (replace_char CR CHR '' '' s) = s"
    by (auto simp: replace_char_def intro!: map_idI)
  moreover from a have "filter (\<lambda>c. \<not> is_control c) s = s" by (simp add: filter_id_conv list_all_iff)
  ultimately show "shown_field v = s" using a by (simp add: shown_field_def one_line_def)
qed (simp add: shown_field_def)

theorem shown_field_safe_witness:
  "shown_field (PStr ''race on the cache'') = ''race on the cache''"
proof -
  have "length ''race on the cache'' \<le> 120 \<and> list_all (\<lambda>c. \<not> is_control c) ''race on the cache''"
    by code_simp
  with shown_field_safe [of "PStr ''race on the cache''"] show ?thesis by blast
qed

text \<open>C30 (functional). A dismissal that succeeds appends one event to the stream and clears, for
  the gate, exactly the finding it names in that review's branch and base: no other finding,
  branch or base changes state. It succeeds only on a validated artifact, an index in range
  and a reason that passes the floor, and it stores that reason as given.\<close>

theorem dismiss_clears_exactly:
  assumes "dismiss H review index reason now l = Inr (rec, l')"
  shows "\<exists>a f e. load_valid_artifact review = Inr a \<and> finding_at (art_findings a) index = Inr f
    \<and> validate_reason reason = Inr ()
    \<and> l' = l @ [e] \<and> ev_verb e = Dismiss \<and> ev_reason e = PStr reason \<and> finding_of e = named H a f
    \<and> (\<forall>b s k. cleared l' b s k \<longleftrightarrow> cleared l b s k \<or> (b, s, k) = named H a f)"
  using assms
proof (rule dismiss_appends)
  fix a f assume a: "load_valid_artifact review = Inr a" "finding_at (art_findings a) index = Inr f"
    and rec: "finding_of rec = named H a f" and r: "min_reason_chars \<le> length (collapse_str reason)"
    and app: "append_triage_event Dismiss rec (PStr reason) (PStr now) PNone l = Inr l'"
  then have "\<forall>b s k. cleared l' b s k \<longleftrightarrow> cleared l b s k \<or> (b, s, k) = named H a f"
    by (auto simp: append_triage_event_cleared [OF app])
  with a r rec append_triage_event_Inr [OF app] show ?thesis
    by (auto simp: validate_reason_Inr finding_of_def intro!: exI [of _ a] exI [of _ f])
qed

theorem dismiss_clears_exactly_witness:
  "\<exists>rec l'. dismiss (\<lambda>s. s) sample_review (PInt 0) sample_reason sample_now [] = Inr (rec, l')
    \<and> length l' = 1"
proof -
  obtain rec where d: "dismiss (\<lambda>s. s) sample_review (PInt 0) sample_reason sample_now [] = Inr (rec, [] @ [rec])"
    using dismiss_succeeds [OF sample_facts(1-4)] by blast
  from dismiss_clears_exactly [OF d] d show ?thesis by auto
qed

text \<open>A deferral that succeeds appends one event that carries the canonical
  tracking reference, and clears exactly the finding it names. It cannot succeed without a
  reference that passes the floor.\<close>

theorem defer_clears_exactly:
  assumes "defer_finding H review index ref reason now l = Inr (rec, l')"
  shows "\<exists>a f e r. load_valid_artifact review = Inr a \<and> finding_at (art_findings a) index = Inr f
    \<and> validate_tracking_ref ref = Inr r \<and> validate_reason reason = Inr ()
    \<and> l' = l @ [e] \<and> ev_verb e = Defer \<and> ev_ref e = PStr r \<and> finding_of e = named H a f
    \<and> (\<forall>b s k. cleared l' b s k \<longleftrightarrow> cleared l b s k \<or> (b, s, k) = named H a f)"
  using assms
proof (rule defer_appends)
  fix a f r assume a: "load_valid_artifact review = Inr a" "finding_at (art_findings a) index = Inr f"
    and rec: "finding_of rec = named H a f" and ref: "validate_tracking_ref ref = Inr r"
    and r: "min_reason_chars \<le> length (collapse_str reason)"
    and app: "append_triage_event Defer rec (PStr (strip reason)) (PStr now) (PStr r) l = Inr l'"
  then have "\<forall>b s k. cleared l' b s k \<longleftrightarrow> cleared l b s k \<or> (b, s, k) = named H a f"
    by (auto simp: append_triage_event_cleared [OF app])
  with a r rec ref append_triage_event_Inr [OF app] show ?thesis
    by (auto simp: validate_reason_Inr finding_of_def intro!: exI [of _ a] exI [of _ f])
qed

theorem defer_clears_exactly_witness:
  "\<exists>rec l'. defer_finding (\<lambda>s. s) sample_review (PInt 0) (PStr ''SKO-7'') sample_reason sample_now [] = Inr (rec, l')
    \<and> length l' = 1"
proof -
  have r: "validate_tracking_ref (PStr ''SKO-7'') = Inr ''SKO-7''" by code_simp
  obtain rec l' where
    d: "defer_finding (\<lambda>s. s) sample_review (PInt 0) (PStr ''SKO-7'') sample_reason sample_now [] = Inr (rec, l')"
    using defer_succeeds [OF sample_facts(1-3) r sample_facts(5,4)] by blast
  from defer_clears_exactly [OF d] d show ?thesis by auto
qed

text \<open>Reopening is possible exactly where there is something to overturn. Given
  a validated artifact, a finding of it, an auditable reason and a canonical time, the verb
  succeeds if and only if the finding stands dismissed or deferred; it then appends one
  event, and exactly that finding counts as open again.\<close>

theorem reopen_iff_cleared:
  assumes "load_valid_artifact review = Inr a" and "finding_at (art_findings a) index = Inr f"
    and "validate_reason reason = Inr ()" and "is_canonical_ts (PStr now)"
    and "\<forall>c \<in> {''file'', ''line'', ''severity'', ''title''}. bindable (dget f c)"
  shows "(case reopen H review index reason now l of
      Inl e \<Rightarrow> (\<exists>again. e = NothingToReopen again)
        \<and> \<not> cleared l (art_branch a) (art_base a) (key_of_finding H f)
    | Inr (rec, l') \<Rightarrow> cleared l (art_branch a) (art_base a) (key_of_finding H f)
        \<and> (\<exists>e. l' = l @ [e] \<and> ev_verb e = Reopen)
        \<and> (\<forall>b s k. cleared l' b s k \<longleftrightarrow> cleared l b s k \<and> (b, s, k) \<noteq> named H a f))"
proof (cases "reopen H review index reason now l")
  case (Inr p)
  obtain rec l' where p: "p = (rec, l')" by (cases p)
  from Inr [unfolded p] show ?thesis
  proof (rule reopen_appends)
    fix a' f' assume a': "load_valid_artifact review = Inr a'" "finding_at (art_findings a') index = Inr f'"
      and rec: "finding_of rec = named H a' f'"
      and st: "effective_event l a' (key_of_finding H f') \<in> {Some Dismiss, Some Defer}"
      and app: "append_triage_event Reopen rec (PStr (strip reason)) (PStr now) PNone l = Inr l'"
    from a' assms have [simp]: "a' = a" "f' = f" by auto
    from st have "cleared l (art_branch a) (art_base a) (key_of_finding H f)"
      by (simp only: effective_cleared) simp
    then show ?thesis
      using append_triage_event_prefix [OF app] rec
      by (auto simp: Inr p append_triage_event_cleared [OF app])
  qed
next
  case (Inl e)
  obtain fkey lkey where k: "keys_for H a index = Inr (f, fkey, lkey)" "fkey = key_of_finding H f"
    using assms(2) by (simp add: keys_for_Inr)
  have "strip reason \<noteq> []" using assms(3) by (rule floor_not_blank)
  then have ok: "\<exists>l'. triage_reopen (triage_rec Reopen a (f, fkey, lkey) reason PNone now) l = Inr l'"
    using assms(4,5)
    by (simp add: triage_reopen_def triage_rec_def require_ts_def append_triage_event_def)
  from Inl k assms(1,3) have
    "\<not> (case effective_event l a fkey of None \<Rightarrow> False | Some v \<Rightarrow> clearing v) \<and> (\<exists>b. e = NothingToReopen b)"
    using ok by (auto simp: reopen_def load_review_def Let_def stored_def split: if_splits)
  then have "effective_event l a fkey \<notin> {Some Dismiss, Some Defer} \<and> (\<exists>b. e = NothingToReopen b)"
    by auto
  then have "\<not> cleared l (art_branch a) (art_base a) fkey \<and> (\<exists>b. e = NothingToReopen b)"
    by (simp only: effective_cleared) simp
  then show ?thesis by (simp add: Inl k(2))
qed

theorem reopen_iff_cleared_witness:
  "case reopen (\<lambda>s. s) sample_review (PInt 0) sample_reason sample_now [] of
     Inl e \<Rightarrow> (\<exists>again. e = NothingToReopen again) | Inr _ \<Rightarrow> False"
  using reopen_iff_cleared [OF sample_facts(1-3,5,4), where H = "\<lambda>s. s" and l = "[]"]
  by (auto simp: cleared_last split: sum.splits)

text \<open>C31 (safety). A refuter's verdict becomes a dismissal only if a refuter pass really ran on
  the review, the annotation says \<open>refuted\<close> and is not marked thin, its own words pass the
  audit floor without help from the attribution, and the provider that answered belongs to a
  known family that contributed nothing to the finding. What is stored is then that
  reasoning, under the attribution, as a dismissal of the named finding.\<close>

theorem adopt_refuter_safe:
  assumes "adopt_refuter H review index now l = Inr (rec, l')"
  shows "\<exists>a f annotation meta reasoning provider model contributors family.
    load_valid_artifact review = Inr a \<and> finding_at (art_findings a) index = Inr f
    \<and> refuter_meta review = Some meta \<and> dget meta ''ran'' = PBool True
    \<and> dget f ''refuter'' = PDict annotation \<and> dget annotation ''verdict'' = PStr ''refuted''
    \<and> dget annotation ''thin_reasoning'' \<noteq> PBool True
    \<and> dget annotation ''reasoning'' = PStr reasoning \<and> validate_reason reasoning = Inr ()
    \<and> contributor_families (dget meta ''contributing_providers'') = Some contributors
    \<and> provider_family (dget annotation ''provider'') = Some family \<and> family \<notin> set contributors
    \<and> refuter_same_provider_as_finder review = False
    \<and> l' = l @ [rec] \<and> ev_verb rec = Dismiss \<and> finding_of rec = named H a f
    \<and> ev_reason rec = PStr (''refuter('' @ provider @ ''/'' @ model @ ''): '' @ reasoning)"
  using assms
proof (rule adopt_Inr)
  fix a f annotation meta reasoning provider model
  assume a: "load_valid_artifact review = Inr a" "finding_at (art_findings a) index = Inr f"
    and ran: "refuter_pass_ran review" "refuter_meta review = Some meta"
    and ann: "refuter_annotation (PDict f) = Some annotation" "dget annotation ''verdict'' = PStr ''refuted''"
      "dget annotation ''thin_reasoning'' \<noteq> PBool True" "dget annotation ''reasoning'' = PStr reasoning"
    and floor: "min_reason_chars \<le> length (collapse_str reasoning)"
    and ref: "adoption_refusal meta annotation = None"
    and d: "dismiss H review index (adopted_reason provider model reasoning) now l = Inr (rec, l')"
  from ref obtain contributors family where c:
    "contributor_families (dget meta ''contributing_providers'') = Some contributors"
    "provider_family (dget annotation ''provider'') = Some family" "family \<notin> set contributors"
    "dget meta ''same_provider_as_finder'' \<noteq> PBool True"
    unfolding adoption_refusal_def by (auto split: option.splits if_splits)
  from d have dis: "l' = l @ [rec] \<and> ev_verb rec = Dismiss \<and> finding_of rec = named H a f
      \<and> ev_reason rec = PStr (adopted_reason provider model reasoning)"
  proof -
    from d a obtain keys where k: "keys_for H a index = Inr keys"
      and rec: "rec = triage_rec Dismiss a keys (adopted_reason provider model reasoning) PNone now"
      and l': "add_triage rec l = Inr l'"
      unfolding dismiss_def verb_Inr by (metis sum.inject(2))
    have cols: "ev_reason rec = PStr (adopted_reason provider model reasoning)" "ev_verb rec = Dismiss"
        "ev_ref rec = PNone"
      by (simp_all add: rec triage_rec_def split: prod.split)
    have "fst keys = f" using k a by (cases keys) (auto simp: keys_for_Inr)
    then show ?thesis
      using l' cols finding_of_rec [OF k] append_triage_event_Inr [OF l' [unfolded add_triage_def]]
      by (simp add: rec)
  qed
  have "dget f ''refuter'' = PDict annotation"
    using ann(1) by (auto simp: refuter_annotation_def split: pyval.splits)
  moreover have "dget meta ''ran'' = PBool True" using ran by (simp add: refuter_pass_ran_def)
  moreover have "refuter_same_provider_as_finder review = False"
    using ran c(4) by (simp add: refuter_same_provider_as_finder_def)
  moreover have "validate_reason reasoning = Inr ()" using floor by (simp add: validate_reason_Inr)
  ultimately show ?thesis using a ran ann c dis unfolding adopted_reason_def by blast
qed

theorem adopt_refuter_safe_witness:
  "\<exists>rec. adopt_refuter (\<lambda>s. s) sample_review (PInt 0) sample_now [] = Inr (rec, [rec])"
proof -
  let ?ann = "case dget sample_finding ''refuter'' of PDict d \<Rightarrow> d | _ \<Rightarrow> []"
  have r: "validate_reason ''the lock is taken two frames above'' = Inr ()"
    by (rule validate_reason_long) code_simp
  have r': "validate_reason (adopted_reason ''xai'' ''grok'' ''the lock is taken two frames above'') = Inr ()"
    by (rule validate_reason_long) code_simp
  have p: "attribution ?ann ''provider'' = Inr ''xai''" "attribution ?ann ''model'' = Inr ''grok''"
    by code_simp+
  have m: "adoption_refusal (case refuter_meta sample_review of Some m \<Rightarrow> m | None \<Rightarrow> []) ?ann = None" by code_simp
  obtain rec where
    "dismiss (\<lambda>s. s) sample_review (PInt 0) (adopted_reason ''xai'' ''grok'' ''the lock is taken two frames above'') sample_now []
      = Inr (rec, [] @ [rec])"
    using dismiss_succeeds [OF sample_facts(1,2) r' sample_facts(4)] by blast
  with r r' p m have a: "adopt_refuter (\<lambda>s. s) sample_review (PInt 0) sample_now [] = Inr (rec, [rec])"
    using sample_facts(1,2)
    by (simp add: adopt_refuter_def load_review_def refuter_pass_ran_def refuter_meta_def refuter_annotation_def
        sample_dict_def sample_finding_def dget_def verdict_of_def Let_def guard_def)
  from adopt_refuter_safe [OF a] a show ?thesis by auto
qed

subsection \<open>The exit contract\<close>

text \<open>0: one event was appended. 1: refused, and the finding named is there. 2: nothing was
  decided. Only 0 touches the ledger.\<close>

definition exit_contract :: "ledger \<Rightarrow> pyval option \<Rightarrow> pyval option \<Rightarrow> nat \<times> ledger \<Rightarrow> bool" where
  "exit_contract l review index r \<longleftrightarrow>
     (\<exists>e. r = (0, l @ [e])) \<or> r = (2, l)
     \<or> r = (1, l) \<and> (\<exists>v a i f. review = Some v \<and> load_valid_artifact v = Inr a
          \<and> index = Some i \<and> finding_at (art_findings a) i = Inr f)"

lemma found_review_Some:
  "found_review review = Some v \<longleftrightarrow> review = Some v \<and> (\<exists>a. load_valid_artifact v = Inr a)"
  by (auto simp: found_review_def split: option.splits sum.splits)

lemma verb_code_cases: "verb_code e \<in> {1, 2}"
  by (cases e) auto

lemma not_found_code: "not_found e \<Longrightarrow> verb_code e = 2"
  by (cases e) auto

lemma settle_contract:
  assumes v: "found_review review = Some v" and a: "load_valid_artifact v = Inr a"
    and ok: "\<And>rec l'. r = Inr (rec, l') \<Longrightarrow> \<exists>e. l' = l @ [e]"
    and bad: "\<And>e e'. r = Inl e \<Longrightarrow> finding_at (art_findings a) i = Inl e' \<Longrightarrow> not_found e"
  shows "exit_contract l review (Some i) (settle verb_code l r)"
proof (cases r)
  case (Inl e)
  show ?thesis
  proof (cases "finding_at (art_findings a) i")
    case (Inr f)
    with Inl v a verb_code_cases [of e] show ?thesis
      by (auto simp: settle_def exit_contract_def found_review_Some)
  next
    case (Inl x)
    then have "not_found e" using bad [OF \<open>r = Inl e\<close>] by simp
    with \<open>r = Inl e\<close> show ?thesis by (simp add: settle_def exit_contract_def not_found_code)
  qed
next
  case (Inr p)
  with ok [of "fst p" "snd p"] show ?thesis by (auto simp: settle_def exit_contract_def split: prod.splits)
qed

lemma bad_index:
  assumes "load_valid_artifact v = Inr a" and "finding_at (art_findings a) i = Inl e'"
  shows "adopt_refuter H v i now l = Inl e \<Longrightarrow> not_found e"
    and "reopen H v i reason now l = Inl e \<Longrightarrow> not_found e"
    and "defer_finding H v i ref reason now l = Inl e \<Longrightarrow> not_found e"
  using assms finding_at_Inl [OF assms(2)]
  by (auto simp: adopt_refuter_def reopen_def defer_finding_def load_review_def keys_for_def)

text \<open>The exit contract of the verbs that decide about one finding. Exit 0 says
  exactly that one event was appended; exit 1 that the finding exists and the decision was
  declined; exit 2 that nothing was decided; and after 1 and 2 the ledger is untouched. A
  review, an artifact or an index that does not resolve is never reported as a refusal.\<close>

theorem services_exit_contract:
  "exit_contract l review index (svc_adopt_refuter H refusal review index now l)
   \<and> exit_contract l review index (svc_triage_reopen H refusal review index reason now l)
   \<and> exit_contract l review index (svc_triage_defer H refusal review index ref reason now l)"
proof -
  have two: "exit_contract l review index (2, l)" for index by (simp add: exit_contract_def)
  have adopt: "exit_contract l review (Some i) (settle verb_code l (adopt_refuter H v i now l))"
    if "found_review review = Some v" for v i
  proof -
    from that obtain a where a: "load_valid_artifact v = Inr a" by (auto simp: found_review_Some)
    show ?thesis
    proof (rule settle_contract [OF that a])
      fix rec l' assume "adopt_refuter H v i now l = Inr (rec, l')"
      then show "\<exists>e. l' = l @ [e]" by (elim adopt_Inr dismiss_appends) (auto dest: append_triage_event_Inr)
    qed (rule bad_index(1) [OF a])
  qed
  have reopen: "exit_contract l review (Some i) (settle verb_code l (reopen H v i r now l))"
    if "found_review review = Some v" for v i r
  proof -
    from that obtain a where a: "load_valid_artifact v = Inr a" by (auto simp: found_review_Some)
    show ?thesis
    proof (rule settle_contract [OF that a])
      fix rec l' assume "reopen H v i r now l = Inr (rec, l')"
      then show "\<exists>e. l' = l @ [e]" by (elim reopen_appends) (auto dest: append_triage_event_Inr)
    qed (rule bad_index(2) [OF a])
  qed
  have deferral: "exit_contract l review (Some i) (settle verb_code l (defer_finding H v i t r now l))"
    if "found_review review = Some v" for v i t r
  proof -
    from that obtain a where a: "load_valid_artifact v = Inr a" by (auto simp: found_review_Some)
    show ?thesis
    proof (rule settle_contract [OF that a])
      fix rec l' assume "defer_finding H v i t r now l = Inr (rec, l')"
      then show "\<exists>e. l' = l @ [e]" by (elim defer_appends) (auto dest: append_triage_event_Inr)
    qed (rule bad_index(3) [OF a])
  qed
  show ?thesis
    using two adopt reopen deferral
    by (auto simp: svc_adopt_refuter_def svc_triage_reopen_def svc_triage_defer_def split: option.splits)
qed

end
