(* ===== verification/Dispatch.thy ===== *)
theory Dispatch
  imports PyText
begin

section \<open>Dispatch: when a push may reuse an earlier review\<close>

text \<open>
  Models the suppression rules of \<open>dispatch.py\<close> (\<open>DedupEvidence\<close>, \<open>_classify\<close>,
  \<open>artifact_context_state\<close>, \<open>context_permits_suppression\<close>,
  \<open>evidence_permits_suppression\<close>) and the planning identity of \<open>planning_policy.py\<close> they
  compare (\<open>validate\<close>, \<open>mismatch\<close>, \<open>validate_concurrency\<close>). The digest of a
  planning policy (SHA-256 of its canonical JSON) is the parameter \<open>digest\<close>.
\<close>

subsection \<open>Planning identity\<close>

abbreviation planning_version :: string where "planning_version \<equiv> ''review-planning/v1''"

text \<open>\<open>==\<close> on the values of a validated policy, none of which is a float: dictionaries
  compare whatever the order of their keys.\<close>

function (sequential) py_eq :: "pyval \<Rightarrow> pyval \<Rightarrow> bool" where
  "py_eq (PDict d) (PDict e) =
     (set (map fst d) = set (map fst e)
      \<and> list_all (\<lambda>(k, v). case map_of e k of None \<Rightarrow> False | Some w \<Rightarrow> py_eq v w) d)"
| "py_eq (PList vs) (PList ws) = (length vs = length ws \<and> list_all (\<lambda>(v, w). py_eq v w) (zip vs ws))"
| "py_eq v w = (v = w)"
  by pat_completeness auto

termination
proof (relation "measure (\<lambda>(v, w). size v)")
  fix d e :: pydict and x k v w
  assume "x \<in> set d" "(k, v) = x"
  then have "size v \<le> size_list (size_prod (\<lambda>x. 0) size) d"
    by (intro size_list_estimation' [of "(k, v)"]) auto
  then show "((v, w), PDict d, PDict e) \<in> measure (\<lambda>(v, w). size v)" by simp
next
  fix vs ws :: "pyval list" and x v w
  assume "x \<in> set (zip vs ws)" "(v, w) = x"
  then have "v \<in> set vs" by (auto dest: set_zip_leftD)
  then have "size v \<le> size_list size vs" by (intro size_list_estimation' [of v]) auto
  then show "((v, w), PList vs, PList ws) \<in> measure (\<lambda>(v, w). size v)" by simp
qed simp

fun valid_concurrency :: "pyval \<Rightarrow> bool" where
  "valid_concurrency (PInt i) = (i \<in> {1, 2})"
| "valid_concurrency _ = False"

text \<open>\<open>type(v) is int and v >= minimum\<close>.\<close>

fun int_from :: "int \<Rightarrow> pyval \<Rightarrow> bool" where
  "int_from lo (PInt i) = (lo \<le> i)" | "int_from _ _ = False"

fun nonempty_str :: "pyval \<Rightarrow> bool" where
  "nonempty_str (PStr s) = (s \<noteq> [])" | "nonempty_str _ = False"

definition has_keys :: "pydict \<Rightarrow> string list \<Rightarrow> bool" where
  "has_keys d ks \<longleftrightarrow> set (map fst d) = set ks"

fun valid_execution :: "pyval \<Rightarrow> bool" where
  "valid_execution (PDict e) =
     ((has_keys e [''max_turns'', ''deny_tools_hash'']
        \<or> has_keys e [''max_turns'', ''deny_tools_hash'', ''batch_concurrency''])
      \<and> int_from 1 (dget e ''max_turns'')
      \<and> (case dget e ''deny_tools_hash'' of
           PStr h \<Rightarrow> length h = 64 \<and> list_all (\<lambda>c. c \<in> set ''0123456789abcdef'') h
         | _ \<Rightarrow> False)
      \<and> valid_concurrency (dget_or e ''batch_concurrency'' (PInt 1)))"
| "valid_execution _ = False"

fun valid_capability :: "pyval \<Rightarrow> bool" where
  "valid_capability PNone = True"
| "valid_capability (PDict c) =
     (has_keys c [''provider'', ''version'', ''transport'', ''limit_bytes'']
      \<and> nonempty_str (dget c ''provider'')
      \<and> (dget c ''version'' = PNone \<or> nonempty_str (dget c ''version''))
      \<and> (dget c ''transport'' = PNone \<or> nonempty_str (dget c ''transport''))
      \<and> (dget c ''limit_bytes'' = PNone \<or> int_from 1 (dget c ''limit_bytes'')))"
| "valid_capability _ = False"

text \<open>\<open>validate(value)\<close>: whether it returns rather than raising \<open>ValueError\<close>.\<close>

fun validate_policy :: "(pydict \<Rightarrow> string) \<Rightarrow> pyval \<Rightarrow> bool" where
  "validate_policy digest PNone = True"
| "validate_policy digest (PDict d) =
     (has_keys d [''version'', ''target_bytes'', ''effective_diff_budget'', ''prompt_envelope'',
        ''context_pack'', ''capability'', ''execution_policy'', ''digest'']
      \<and> dget d ''version'' = PStr planning_version
      \<and> int_from 0 (dget d ''target_bytes'') \<and> int_from 1 (dget d ''effective_diff_budget'')
      \<and> int_from 1 (dget d ''prompt_envelope'') \<and> is_bool (dget d ''context_pack'')
      \<and> valid_execution (dget d ''execution_policy'')
      \<and> valid_capability (dget d ''capability'')
      \<and> dget d ''digest'' = PStr (digest (filter (\<lambda>(k, _). k \<noteq> ''digest'') d)))"
| "validate_policy digest _ = False"

fun concurrency_of :: "pyval \<Rightarrow> pyval" where
  "concurrency_of (PDict e) = dget_or e ''batch_concurrency'' (PInt 1)"
| "concurrency_of _ = PNone"

datatype policy_mismatch =
  IdentityMissing | ConcurrencyChanged | TargetChanged | PolicyChanged

text \<open>\<open>mismatch(stored, expected)\<close>; \<open>expected\<close> is what \<open>describe\<close> computed, so the keys
  it indexes are present.\<close>

definition mismatch :: "(pydict \<Rightarrow> string) \<Rightarrow> pyval \<Rightarrow> pydict \<Rightarrow> policy_mismatch option" where
  "mismatch digest stored expected =
     (if \<not> validate_policy digest stored then Some IdentityMissing
      else (case stored of
          PDict d \<Rightarrow>
            if dget d ''version'' \<noteq> PStr planning_version then Some IdentityMissing
            else if concurrency_of (dget d ''execution_policy'')
                \<noteq> concurrency_of (dget expected ''execution_policy'') then Some ConcurrencyChanged
            else if dget d ''target_bytes'' \<noteq> dget expected ''target_bytes'' then Some TargetChanged
            else if py_eq stored (PDict expected) then None else Some PolicyChanged
        | _ \<Rightarrow> Some IdentityMissing))"

subsection \<open>Context evidence\<close>

text \<open>\<open>DedupEvidence\<close>: \<open>enabled\<close> and \<open>valid\<close> are tested with \<open>is True\<close>.\<close>

record evidence =
  enabled :: pyval
  valid :: pyval
  candidate_context_hash :: pyval
  planning_policy :: "pydict option"

datatype context_state = ContextLegacy | ContextHashed string | ContextAmbiguous

text \<open>\<open>_classify(artifact)\<close>, the state together with the hash it carries.\<close>

fun classify :: "pyval \<Rightarrow> context_state" where
  "classify (PDict d) =
     (case map_of d ''context_hash'' of
        None \<Rightarrow> ContextLegacy
      | Some PNone \<Rightarrow> ContextLegacy
      | Some (PStr s) \<Rightarrow> if strip s \<noteq> [] then ContextHashed s else ContextAmbiguous
      | Some _ \<Rightarrow> ContextAmbiguous)"
| "classify _ = ContextAmbiguous"

definition context_permits_suppression :: "pyval \<Rightarrow> pyval \<Rightarrow> bool" where
  "context_permits_suppression artifact candidate =
     (case classify artifact of
        ContextLegacy \<Rightarrow> True
      | ContextAmbiguous \<Rightarrow> False
      | ContextHashed recorded \<Rightarrow>
          (case candidate of PStr c \<Rightarrow> if strip c = [] then False else recorded = c | _ \<Rightarrow> False))"

definition evidence_permits_suppression :: "(pydict \<Rightarrow> string) \<Rightarrow> pyval \<Rightarrow> evidence \<Rightarrow> bool" where
  "evidence_permits_suppression digest artifact ev =
     (if enabled ev \<noteq> PBool True \<or> valid ev \<noteq> PBool True then False
      else if (case planning_policy ev of None \<Rightarrow> False
             | Some expected \<Rightarrow> \<not> is_dict artifact
                 \<or> mismatch digest (vget artifact ''planning_policy'') expected \<noteq> None) then False
      else context_permits_suppression artifact (candidate_context_hash ev))"

subsection \<open>Properties\<close>

lemma mismatch_None:
  "mismatch digest stored expected = None \<Longrightarrow>
    \<exists>d. stored = PDict d \<and> validate_policy digest stored \<and> py_eq stored (PDict expected)
      \<and> dget d ''digest'' = PStr (digest (filter (\<lambda>(k, _). k \<noteq> ''digest'') d))"
  by (cases stored) (auto simp: mismatch_def split: if_splits)

lemma py_eq_get:
  assumes "py_eq (PDict d) (PDict e)" and "dhas d k"
  shows "py_eq (dget d k) (dget e k)"
proof -
  from assms(2) obtain v where v: "map_of d k = Some v" by (auto simp: dhas_def)
  then have "(k, v) \<in> set d" by (rule map_of_SomeD)
  with assms(1) obtain w where "map_of e k = Some w" "py_eq v w"
    by (auto simp: list_all_iff split: option.splits)
  with v show ?thesis by (simp add: dget_def)
qed

text \<open>Suppression never rests on an uncertainty. Evidence permits it only if the
  probe was enabled and valid, and the stored review either recorded no context at all or
  recorded exactly the candidate's non-blank context hash; with a planning policy expected,
  the stored policy must be well formed, carry the digest of its own contents and agree with
  the expected one on every sizing field.\<close>

theorem suppression_needs_evidence:
  assumes "evidence_permits_suppression digest artifact ev"
  shows "enabled ev = PBool True \<and> valid ev = PBool True
    \<and> (\<exists>d. artifact = PDict d
        \<and> (dget d ''context_hash'' = PNone
           \<or> (\<exists>h. dget d ''context_hash'' = PStr h \<and> candidate_context_hash ev = PStr h \<and> strip h \<noteq> []))
        \<and> (\<forall>expected. planning_policy ev = Some expected \<longrightarrow>
             (\<exists>p. dget d ''planning_policy'' = PDict p \<and> validate_policy digest (PDict p)
               \<and> py_eq (dget p ''target_bytes'') (dget expected ''target_bytes'')
               \<and> py_eq (dget p ''effective_diff_budget'') (dget expected ''effective_diff_budget'')
               \<and> py_eq (dget p ''digest'') (dget expected ''digest''))))"
proof -
  from assms have e: "enabled ev = PBool True" "valid ev = PBool True"
    and pol: "\<And>expected. planning_policy ev = Some expected \<Longrightarrow>
      mismatch digest (vget artifact ''planning_policy'') expected = None"
    and ctx: "context_permits_suppression artifact (candidate_context_hash ev)"
    by (auto simp: evidence_permits_suppression_def split: if_splits option.splits)
  from ctx obtain d where d: "artifact = PDict d"
    by (cases artifact) (auto simp: context_permits_suppression_def)
  with ctx have "dget d ''context_hash'' = PNone
      \<or> (\<exists>h. dget d ''context_hash'' = PStr h \<and> candidate_context_hash ev = PStr h \<and> strip h \<noteq> [])"
    by (cases "candidate_context_hash ev")
      (auto simp: context_permits_suppression_def dget_def split: option.splits pyval.splits if_splits)
  moreover have "\<exists>p. dget d ''planning_policy'' = PDict p \<and> validate_policy digest (PDict p)
               \<and> py_eq (dget p ''target_bytes'') (dget expected ''target_bytes'')
               \<and> py_eq (dget p ''effective_diff_budget'') (dget expected ''effective_diff_budget'')
               \<and> py_eq (dget p ''digest'') (dget expected ''digest'')"
    if "planning_policy ev = Some expected" for expected
  proof -
    from pol [OF that] d obtain p where p: "dget d ''planning_policy'' = PDict p"
      "validate_policy digest (PDict p)" "py_eq (PDict p) (PDict expected)"
      by (auto dest!: mismatch_None)
    have "dhas p k" if "k \<in> {''target_bytes'', ''effective_diff_budget'', ''digest''}" for k
    proof -
      have "k \<in> set (map fst p)" using p(2) that by (auto simp: has_keys_def)
      then show ?thesis by (simp add: dhas_def map_of_eq_None_iff)
    qed
    with p py_eq_get show ?thesis by blast
  qed
  ultimately show ?thesis using e d by blast
qed

definition sample_evidence :: evidence where
  "sample_evidence = \<lparr>enabled = PBool True, valid = PBool True,
     candidate_context_hash = PStr ''c0ffee'', planning_policy = None\<rparr>"

theorem suppression_needs_evidence_witness:
  "\<exists>d. PDict [(''context_hash'', PStr ''c0ffee'')] = PDict d \<and> dget d ''context_hash'' = PStr ''c0ffee''"
proof -
  have "evidence_permits_suppression (\<lambda>_. []) (PDict [(''context_hash'', PStr ''c0ffee'')]) sample_evidence"
    by (simp add: evidence_permits_suppression_def sample_evidence_def context_permits_suppression_def
        strip_def lstrip_def is_space_def)
  from suppression_needs_evidence [OF this] show ?thesis by (auto simp: dget_def)
qed

end
