(* ===== verification/Reviews.thy ===== *)
theory Reviews
  imports Triage Dispatch
begin

section \<open>Reviews: the table of review records and its transitions\<close>

text \<open>
  Models the \<open>reviews\<close> table of \<open>store.py\<close>: the persistence chokepoint
  (\<open>_normalize_record\<close>, \<open>_review_values\<close>), the writers \<open>save_review\<close>,
  \<open>reserve_prepush\<close>, \<open>attach_pid\<close>, \<open>finalize_review\<close>, the two failure
  transitions \<open>mark_failed\<close> and \<open>fail_if_running\<close>, \<open>mark_cancelled\<close>, and the readers
  \<open>get_review\<close>, \<open>latest_trustworthy_for\<close> and \<open>_suppression_candidate\<close>, together with the
  orchestration rows \<open>finalize_review\<close> consumes.

  A row holds its indexed columns and, apart from them, its artifact (the dictionary whose
  JSON is the column \<open>artifact_json\<close>). A transaction that raises leaves the database as it
  was: that is the left side of the sum. Column affinity, the delivery and lineage projections
  and the cancellation ledger are not modelled; review ids are strings.
\<close>

subsection \<open>Rows\<close>

record row =
  r_id :: string
  r_cols :: pydict
  r_art :: pydict

abbreviation col :: "row \<Rightarrow> string \<Rightarrow> pyval" where "col r c \<equiv> dget (r_cols r) c"

record orchestration =
  o_id :: string
  o_digest :: string
  o_state :: string
  o_final :: "string option"

record checkpoint =
  c_orch :: string
  c_state :: string

record dedup_event =
  d_at :: string
  d_branch :: string
  d_diff_hash :: string
  d_matched :: string

record reviews_db =
  rv_rows :: "row list"
  rv_orch :: "orchestration list"
  rv_chk :: "checkpoint list"
  rv_dedup :: "dedup_event list"

datatype review_error =
    AxisNotBool string
  | UsableNotBool
  | UsableMissing
  | BadField door_error
  | BadOrdinal
  | BadCount string          \<comment> \<open>\<open>int(...)\<close> raises\<close>
  | SeverityNotDict
  | UnbindableColumn string
  | BadId
  | NotTheReservation
  | IdentityMoved string
  | BadPid
  | OrchestrationMissing
  | OrchestrationDigest
  | OrchestrationState
  | OrchestrationIncomplete
  | NotConsumed
  | AnnotatorRaised

text \<open>What the operations take from outside the program: SQLite's choice among equally new rows,
  SHA-256 over canonical JSON, the truncation of a float, and the clock.\<close>

record world =
  w_newest :: "row list \<Rightarrow> row option"
  w_digest :: "pydict \<Rightarrow> string"
  w_trunc :: "string \<Rightarrow> int option"
  w_now :: string

abbreviation running :: string where "running \<equiv> ''running''"
abbreviation prepush :: string where "prepush \<equiv> ''prepush''"
abbreviation skodun_source :: string where "skodun_source \<equiv> ''skodun''"

subsection \<open>The chokepoint: \<open>_normalize_record\<close>\<close>

definition requires_usable_output :: "pydict \<Rightarrow> bool" where
  "requires_usable_output rec \<longleftrightarrow>
     dget rec ''source'' = PStr skodun_source \<and> dget rec ''mode'' = PStr prepush"

definition axis :: "pydict \<Rightarrow> string \<Rightarrow> review_error + bool" where
  "axis rec k = (case dget_or rec k (PBool False) of PBool b \<Rightarrow> Inr b | _ \<Rightarrow> Inl (AxisNotBool k))"

definition norm_axes :: "pydict \<Rightarrow> review_error + pydict" where
  "norm_axes rec =
     ebind (axis rec ''parse_ok'') (\<lambda>p.
     ebind (axis rec ''degraded'') (\<lambda>d.
     ebind (axis rec ''diff_truncated'') (\<lambda>t.
     Inr (dset ''trustworthy'' (PBool (is_trustworthy p d t))
           (dset ''diff_truncated'' (PBool t) (dset ''degraded'' (PBool d) (dset ''parse_ok'' (PBool p) rec)))))))"

definition norm_usable :: "pydict \<Rightarrow> review_error + pydict" where
  "norm_usable rec =
     (if dhas rec ''usable_output''
      then (if \<not> is_bool (dget rec ''usable_output'') then Inl UsableNotBool else Inr rec)
      else if requires_usable_output rec then Inl UsableMissing else Inr rec)"

definition field_ts :: "string \<Rightarrow> pyval \<Rightarrow> pydict \<Rightarrow> review_error + pydict" where
  "field_ts k v rec = map_sum BadField (\<lambda>t. dset k t rec) (require_ts k v)"

definition field_text :: "string \<Rightarrow> pydict \<Rightarrow> review_error + pydict" where
  "field_text k rec =
     (if dget rec k = PNone then Inr rec
      else map_sum BadField (\<lambda>t. dset k (PStr t) rec) (require_text k (dget rec k)))"

definition norm_started :: "pydict \<Rightarrow> review_error + pydict" where
  "norm_started rec =
     (let started = dget rec ''review_started_at'' in
      if started = PNone \<and> is_canonical_ts (dget rec ''reviewed_at'')
      then Inr (dset ''review_started_at'' (dget rec ''reviewed_at'') rec)
      else if started \<noteq> PNone then field_ts ''review_started_at'' started rec
      else Inr rec)"

definition norm_completed :: "string \<Rightarrow> pydict \<Rightarrow> review_error + pydict" where
  "norm_completed now rec =
     (let completed = dget rec ''review_completed_at'' in
      if dget rec ''status'' \<noteq> PStr running \<and> completed = PNone
      then Inr (dset ''review_completed_at'' (PStr now) rec)
      else if completed \<noteq> PNone then field_ts ''review_completed_at'' completed rec
      else Inr rec)"

definition norm_repo :: "pydict \<Rightarrow> review_error + pydict" where
  "norm_repo rec =
     field_text ''repo_id''
       (if dget rec ''repo_id'' = PNone \<and> dget rec ''repo'' \<noteq> PNone
        then dset ''repo_id'' (dget rec ''repo'') rec else rec)"

fun valid_ordinal :: "pyval \<Rightarrow> bool" where
  "valid_ordinal PNone = True" | "valid_ordinal (PInt i) = (0 \<le> i)" | "valid_ordinal _ = False"

definition norm_terminal :: "pydict \<Rightarrow> review_error + pydict" where
  "norm_terminal rec =
     (if dget rec ''terminal_reason'' \<noteq> PNone then field_text ''terminal_reason'' rec
      else if dget rec ''status'' \<noteq> PStr running
      then (case (if truthy (dget rec ''failure_reason'') then dget rec ''failure_reason''
                  else dget rec ''stop_reason'') of
              PStr s \<Rightarrow> Inr (if strip s \<noteq> [] then dset ''terminal_reason'' (PStr (strip s)) rec else rec)
            | _ \<Rightarrow> Inr rec)
      else Inr rec)"

definition norm_outcome :: "pydict \<Rightarrow> review_error + pydict" where
  "norm_outcome rec =
     (if dget rec ''outcome'' \<noteq> PNone then field_text ''outcome'' rec
      else if dget rec ''status'' \<noteq> PStr running \<and> is_str (dget rec ''status'')
      then Inr (dset ''outcome'' (dget rec ''status'') rec)
      else Inr rec)"

definition normalize_record :: "string \<Rightarrow> pydict \<Rightarrow> review_error + pydict" where
  "normalize_record now rec =
     ebind (norm_axes rec) (\<lambda>rec.
     ebind (norm_usable rec) (\<lambda>rec.
     ebind (norm_started rec) (\<lambda>rec.
     ebind (norm_completed now rec) (\<lambda>rec.
     ebind (norm_repo rec) (\<lambda>rec.
     ebind (field_text ''worktree_root'' rec) (\<lambda>rec.
     ebind (field_text ''orchestration_id'' rec) (\<lambda>rec.
     ebind (guard (valid_ordinal (dget rec ''attempt_ordinal'')) BadOrdinal) (\<lambda>_.
     ebind (norm_terminal rec) norm_outcome))))))))"

subsection \<open>The columns: \<open>_review_values\<close>\<close>

fun py_int :: "(string \<Rightarrow> int option) \<Rightarrow> pyval \<Rightarrow> int option" where
  "py_int trunc (PBool b) = Some (if b then 1 else 0)"
| "py_int trunc (PInt i) = Some i"
| "py_int trunc (PFloat r) = trunc r"
| "py_int trunc (PStr s) = int_of_text s"
| "py_int trunc _ = None"

definition count_of :: "(string \<Rightarrow> int option) \<Rightarrow> string \<Rightarrow> pyval \<Rightarrow> review_error + pyval" where
  "count_of trunc label v =
     (if \<not> truthy v then Inr (PInt 0)
      else case py_int trunc v of None \<Rightarrow> Inl (BadCount label) | Some i \<Rightarrow> Inr (PInt i))"

fun opt_positive_int :: "pyval \<Rightarrow> pyval" where
  "opt_positive_int (PInt i) = (if i \<le> 0 then PNone else PInt i)"
| "opt_positive_int _ = PNone"

definition flag :: "pyval \<Rightarrow> pyval" where
  "flag v = PInt (if truthy v then 1 else 0)"

text \<open>\<open>rec.get("severity") or {}\<close>, whose \<open>get\<close> only a dictionary has.\<close>

definition severity_of :: "pydict \<Rightarrow> review_error + pydict" where
  "severity_of rec =
     (if \<not> truthy (dget rec ''severity'') then Inr []
      else case dget rec ''severity'' of PDict d \<Rightarrow> Inr d | _ \<Rightarrow> Inl SeverityNotDict)"

text \<open>The columns of \<open>_REVIEW_COLUMNS\<close> with the values bound to them, except
  \<open>artifact_json\<close>, which is the record itself.\<close>

definition review_columns :: "pydict \<Rightarrow> pyval \<Rightarrow> pyval \<Rightarrow> pyval \<Rightarrow> pyval \<Rightarrow> pydict" where
  "review_columns rec tot high medium low =
     [(''reviewed_at'', dget rec ''reviewed_at''), (''branch'', dget rec ''branch''),
          (''head'', dget rec ''head''), (''base_ref'', dget rec ''base_ref''),
          (''base_sha'', dget rec ''base_sha''), (''diff_hash'', dget rec ''diff_hash''),
          (''context_hash'', dget_or rec ''context_hash'' (PStr [])), (''mode'', dget rec ''mode''),
          (''model'', dget rec ''model''), (''adapter'', dget rec ''adapter''),
          (''status'', dget rec ''status''), (''parse_ok'', flag (dget rec ''parse_ok'')),
          (''degraded'', flag (dget rec ''degraded'')),
          (''diff_truncated'', flag (dget rec ''diff_truncated'')),
          (''trustworthy'', flag (dget rec ''trustworthy'')),
          (''stop_reason'', dget rec ''stop_reason''), (''findings_total'', tot),
          (''sev_high'', high), (''sev_medium'', medium), (''sev_low'', low),
          (''summary'', dget rec ''summary''), (''source'', dget_or rec ''source'' (PStr skodun_source)),
          (''worst_runtime_sec'', opt_positive_int (dget rec ''worst_runtime_sec'')),
          (''pid'', opt_positive_int (dget rec ''pid'')),
          (''superseded_by'', dget rec ''superseded_by''), (''repo'', dget rec ''repo''),
          (''review_started_at'', dget rec ''review_started_at''),
          (''review_completed_at'', dget rec ''review_completed_at''),
          (''repo_id'', dget rec ''repo_id''), (''worktree_root'', dget rec ''worktree_root''),
          (''orchestration_id'', dget rec ''orchestration_id''),
          (''attempt_ordinal'', dget rec ''attempt_ordinal''),
          (''terminal_reason'', dget rec ''terminal_reason''), (''outcome'', dget rec ''outcome'')]"

definition review_values :: "(string \<Rightarrow> int option) \<Rightarrow> pydict \<Rightarrow> review_error + pydict" where
  "review_values trunc rec =
     ebind (severity_of rec) (\<lambda>sev.
     ebind (count_of trunc ''findings_total'' (dget rec ''findings_total'')) (\<lambda>tot.
     ebind (count_of trunc ''high'' (dget sev ''high'')) (\<lambda>high.
     ebind (count_of trunc ''medium'' (dget sev ''medium'')) (\<lambda>medium.
     ebind (count_of trunc ''low'' (dget sev ''low'')) (\<lambda>low.
     Inr (review_columns rec tot high medium low))))))"

definition bound_columns :: "(string \<Rightarrow> int option) \<Rightarrow> pydict \<Rightarrow> review_error + pydict" where
  "bound_columns trunc rec =
     ebind (review_values trunc rec) (\<lambda>vs.
       case filter (\<lambda>(c, v). \<not> bindable v) vs of [] \<Rightarrow> Inr vs | (c, _) # _ \<Rightarrow> Inl (UnbindableColumn c))"

subsection \<open>Writers\<close>

text \<open>\<open>requests.bind_review\<close> with the current request (its id and execution), if any; the links
  it records are not modelled.\<close>

type_synonym request_ctx = "(string \<times> pyval) option"

definition bind_review :: "request_ctx \<Rightarrow> pydict \<Rightarrow> pydict" where
  "bind_review ctx rec =
     (case ctx of
        None \<Rightarrow> if dget rec ''mode'' = PStr prepush \<and> \<not> dhas rec ''request_id''
                then dset ''request_id'' (dget rec ''id'') rec else rec
      | Some (rid, seq) \<Rightarrow>
          (let rec = dset ''request_id'' (PStr rid) rec in
           if seq \<noteq> PNone then dset ''request_execution_seq'' seq rec else rec))"

definition write_review :: "world \<Rightarrow> request_ctx \<Rightarrow> pydict \<Rightarrow> reviews_db \<Rightarrow> review_error + reviews_db" where
  "write_review w ctx rec db =
     (let rec = bind_review ctx rec in
      case dget rec ''id'' of
        PStr rid \<Rightarrow> ebind (bound_columns (w_trunc w) rec) (\<lambda>cols.
          Inr (db\<lparr>rv_rows := tbl_upsert r_id \<lparr>r_id = rid, r_cols = cols, r_art = rec\<rparr> (rv_rows db)\<rparr>))
      | _ \<Rightarrow> Inl BadId)"

text \<open>The optional \<open>lineage_annotator\<close> rewrites the record; what it returns is normalized
  again.\<close>

type_synonym annotator = "(reviews_db \<Rightarrow> pydict \<Rightarrow> review_error + pydict) option"

definition annotate :: "world \<Rightarrow> annotator \<Rightarrow> reviews_db \<Rightarrow> pydict \<Rightarrow> review_error + pydict" where
  "annotate w an db rec =
     (case an of None \<Rightarrow> Inr rec | Some f \<Rightarrow> ebind (f db rec) (normalize_record (w_now w)))"

definition save_review ::
    "world \<Rightarrow> request_ctx \<Rightarrow> annotator \<Rightarrow> pydict \<Rightarrow> reviews_db \<Rightarrow> review_error + reviews_db" where
  "save_review w ctx an rec db =
     ebind (normalize_record (w_now w) rec) (\<lambda>rec.
     ebind (if dget rec ''status'' \<noteq> PStr running then annotate w an db rec else Inr rec) (\<lambda>rec.
     write_review w ctx rec db))"

definition get_review :: "reviews_db \<Rightarrow> string \<Rightarrow> pydict option" where
  "get_review db rid = map_option r_art (tbl_find r_id rid (rv_rows db))"

definition latest_trustworthy_for :: "world \<Rightarrow> string \<Rightarrow> reviews_db \<Rightarrow> pydict option" where
  "latest_trustworthy_for w dh db =
     map_option r_art (w_newest w
       (filter (\<lambda>r. col r ''diff_hash'' = PStr dh \<and> col r ''trustworthy'' = PInt 1) (rv_rows db)))"

subsection \<open>Failure transitions\<close>

text \<open>\<open>UPDATE reviews SET ... WHERE id=? AND ...\<close>: whether a row changed, and the table.\<close>

definition update_row ::
    "string \<Rightarrow> (row \<Rightarrow> bool) \<Rightarrow> (row \<Rightarrow> row) \<Rightarrow> reviews_db \<Rightarrow> bool \<times> reviews_db" where
  "update_row rid p f db =
     (list_ex (\<lambda>r. r_id r = rid \<and> p r) (rv_rows db),
      db\<lparr>rv_rows := tbl_update (\<lambda>r. r_id r = rid \<and> p r) f (rv_rows db)\<rparr>)"

text \<open>\<open>_FAIL_REVIEW\<close>.\<close>

definition fail_row :: "string \<Rightarrow> row \<Rightarrow> row" where
  "fail_row reason r = r\<lparr>
     r_cols := dset ''trustworthy'' (PInt 0) (dset ''parse_ok'' (PInt 0) (dset ''status'' (PStr ''failed'') (r_cols r))),
     r_art := dset ''trustworthy'' (PBool False) (dset ''parse_ok'' (PBool False)
       (dset ''failure_reason'' (PStr reason) (dset ''status'' (PStr ''failed'') (r_art r))))\<rparr>"

definition is_running :: "row \<Rightarrow> bool" where
  "is_running r \<longleftrightarrow> col r ''status'' = PStr running"

definition mark_failed :: "string \<Rightarrow> string \<Rightarrow> reviews_db \<Rightarrow> bool \<times> reviews_db" where
  "mark_failed rid reason = update_row rid (\<lambda>_. True) (fail_row reason)"

definition fail_if_running :: "string \<Rightarrow> string \<Rightarrow> reviews_db \<Rightarrow> bool \<times> reviews_db" where
  "fail_if_running rid reason = update_row rid is_running (fail_row reason)"

definition cancel_row :: "string \<Rightarrow> row \<Rightarrow> row" where
  "cancel_row reason r = r\<lparr>
     r_cols := dset ''trustworthy'' (PInt 0) (dset ''degraded'' (PInt 1) (dset ''status'' (PStr ''failed'') (r_cols r))),
     r_art := dset ''trustworthy'' (PBool False) (dset ''failure_reason'' (PStr reason)
       (dset ''degraded_reason'' (PStr reason) (dset ''degraded'' (PBool True)
         (dset ''status'' (PStr ''failed'') (r_art r)))))\<rparr>"

definition reopen_orchestration :: "pyval \<Rightarrow> string \<Rightarrow> reviews_db \<Rightarrow> reviews_db" where
  "reopen_orchestration oid rid db =
     (if \<not> truthy oid then db
      else db\<lparr>rv_orch := tbl_update
        (\<lambda>x. PStr (o_id x) = oid \<and> o_state x = ''consumed'' \<and> o_final x = Some rid)
        (\<lambda>x. x\<lparr>o_state := ''failed'', o_final := None\<rparr>) (rv_orch db)\<rparr>)"

definition mark_cancelled :: "string \<Rightarrow> string \<Rightarrow> reviews_db \<Rightarrow> bool \<times> reviews_db" where
  "mark_cancelled rid reason db =
     (case update_row rid (\<lambda>r. col r ''trustworthy'' = PInt 1) (cancel_row reason) db of
        (applied, db') \<Rightarrow>
          (applied, if applied then (case tbl_find r_id rid (rv_rows db') of
                 None \<Rightarrow> db'
               | Some r \<Rightarrow> reopen_orchestration (dget (r_art r) ''batch_orchestration_id'') rid db')
             else db'))"

subsection \<open>The reservation lease\<close>

record push =
  p_branch :: string
  p_head :: string
  p_base_ref :: string
  p_base_sha :: string
  p_diff_hash :: string
  p_worst :: pyval
  p_repo :: string
  p_root :: "string option"

datatype reservation =
    Suppressed string                       \<comment> \<open>\<open>suppressed_by\<close>\<close>
  | Reserved string "(string \<times> pyval) list" \<comment> \<open>\<open>record_id\<close> and the rows retired, with their pids\<close>

definition candidate_rows :: "string \<Rightarrow> reviews_db \<Rightarrow> row list" where
  "candidate_rows dh db =
     filter (\<lambda>r. col r ''diff_hash'' = PStr dh \<and> col r ''trustworthy'' = PInt 1
       \<and> col r ''status'' \<noteq> PStr running) (rv_rows db)"

definition suppression_candidate ::
    "world \<Rightarrow> string \<Rightarrow> string \<Rightarrow> evidence \<Rightarrow> reviews_db \<Rightarrow> string option" where
  "suppression_candidate w dh base ev db =
     (if enabled ev \<noteq> PBool True then None
      else case w_newest w (candidate_rows dh db) of None \<Rightarrow> None
      | Some r \<Rightarrow>
          (let art = r_art r in
           case load_valid_artifact (PDict art) of Inl _ \<Rightarrow> None
           | Inr _ \<Rightarrow>
               (case (dget art ''parse_ok'', dget art ''degraded'', dget art ''diff_truncated'') of
                  (PBool p, PBool d, PBool t) \<Rightarrow>
                    if \<not> is_trustworthy p d t then None
                    else if dget art ''trustworthy'' \<noteq> PBool True then None
                    else if dget art ''id'' \<noteq> PStr (r_id r) then None
                    else if dget art ''diff_hash'' \<noteq> col r ''diff_hash'' then None
                    else if dget art ''diff_hash'' \<noteq> PStr dh then None
                    else if col r ''base_sha'' \<noteq> PStr base \<or> dget art ''base_sha'' \<noteq> PStr base then None
                    else if \<not> evidence_permits_suppression (w_digest w) (PDict art) ev then None
                    else Some (r_id r)
                | _ \<Rightarrow> None)))"

definition in_flight :: "string \<Rightarrow> string \<Rightarrow> row \<Rightarrow> bool" where
  "in_flight repo branch r \<longleftrightarrow> col r ''repo'' = PStr repo \<and> col r ''branch'' = PStr branch
     \<and> col r ''mode'' = PStr prepush \<and> col r ''status'' = PStr running"

definition supersede_row :: "string \<Rightarrow> row \<Rightarrow> row" where
  "supersede_row by_id r = r\<lparr>
     r_cols := dset ''superseded_by'' (PStr by_id) (dset ''status'' (PStr ''superseded'') (r_cols r)),
     r_art := dset ''superseded_by'' (PStr by_id) (dset ''status'' (PStr ''superseded'') (r_art r))\<rparr>"

definition reserved_record :: "push \<Rightarrow> string \<Rightarrow> string \<Rightarrow> pydict" where
  "reserved_record p rid at =
     [(''id'', PStr rid), (''reviewed_at'', PStr at), (''branch'', PStr (p_branch p)),
      (''head'', PStr (p_head p)), (''base_ref'', PStr (p_base_ref p)), (''base_sha'', PStr (p_base_sha p)),
      (''diff_hash'', PStr (p_diff_hash p)), (''mode'', PStr prepush), (''source'', PStr skodun_source),
      (''status'', PStr running), (''parse_ok'', PBool False), (''degraded'', PBool False),
      (''diff_truncated'', PBool False), (''findings'', PList []), (''findings_total'', PInt 0),
      (''summary'', PStr []), (''failure_reason'', PNone), (''usable_output'', PBool False),
      (''worst_runtime_sec'', p_worst p), (''pid'', PNone), (''superseded_by'', PNone),
      (''repo'', PStr (p_repo p))]
     @ (case p_root p of None \<Rightarrow> [] | Some root \<Rightarrow> [(''worktree_root'', PStr root)])"

text \<open>\<open>reserve_prepush\<close>; \<open>rid\<close> is the fresh id \<open>ids.new_review_id\<close> gives, \<open>now\<close> the optional
  argument.\<close>

definition reserve_prepush ::
    "world \<Rightarrow> request_ctx \<Rightarrow> push \<Rightarrow> evidence \<Rightarrow> string option \<Rightarrow> string \<Rightarrow> reviews_db
      \<Rightarrow> review_error + reservation \<times> reviews_db" where
  "reserve_prepush w ctx p ev now rid db =
     (if now \<noteq> None \<and> \<not> is_canonical_ts (PStr (the now)) then Inl (BadField (BadTimestamp ''now''))
      else let at = (case now of None \<Rightarrow> w_now w | Some t \<Rightarrow> t) in
      case suppression_candidate w (p_diff_hash p) (p_base_sha p) ev db of
        Some matched \<Rightarrow>
          Inr (Suppressed matched, db\<lparr>rv_dedup := rv_dedup db @
            [\<lparr>d_at = at, d_branch = p_branch p, d_diff_hash = p_diff_hash p, d_matched = matched\<rparr>]\<rparr>)
      | None \<Rightarrow>
          (let live = in_flight (p_repo p) (p_branch p);
               retired = map (\<lambda>r. (r_id r, col r ''pid'')) (filter live (rv_rows db));
               db1 = db\<lparr>rv_rows := tbl_update live (supersede_row rid) (rv_rows db)\<rparr>
           in ebind (normalize_record (w_now w) (reserved_record p rid at)) (\<lambda>rec.
              ebind (write_review w ctx rec db1) (\<lambda>db2.
              Inr (Reserved rid retired, db2)))))"

definition attach_pid :: "string \<Rightarrow> pyval \<Rightarrow> reviews_db \<Rightarrow> review_error + bool \<times> reviews_db" where
  "attach_pid rid pid db =
     (case pid of
        PInt i \<Rightarrow> if i \<le> 0 then Inl BadPid
          else Inr (update_row rid (\<lambda>r. is_running r \<and> col r ''pid'' = PNone)
            (\<lambda>r. r\<lparr>r_cols := dset ''pid'' pid (r_cols r), r_art := dset ''pid'' pid (r_art r)\<rparr>) db)
      | _ \<Rightarrow> Inl BadPid)"

subsection \<open>Finalizing a reservation\<close>

definition reserved_identity :: "string list" where
  "reserved_identity = [''branch'', ''head'', ''base_ref'', ''base_sha'', ''diff_hash'']"

definition require_complete_orchestration ::
    "string \<Rightarrow> string \<Rightarrow> reviews_db \<Rightarrow> review_error + unit" where
  "require_complete_orchestration oid dg db =
     (case tbl_find o_id oid (rv_orch db) of
        None \<Rightarrow> Inl OrchestrationMissing
      | Some x \<Rightarrow>
          if o_digest x \<noteq> dg then Inl OrchestrationDigest
          else if o_state x \<notin> {''active'', ''cancelled'', ''failed'', ''complete''} then Inl OrchestrationState
          else let mine = filter (\<lambda>c. c_orch c = oid) (rv_chk db) in
            if mine = [] \<or> length (filter (\<lambda>c. c_state c = ''complete'') mine) \<noteq> length mine
            then Inl OrchestrationIncomplete else Inr ())"

definition consume_orchestration :: "string \<Rightarrow> string \<Rightarrow> reviews_db \<Rightarrow> review_error + reviews_db" where
  "consume_orchestration oid rid db =
     (let open_one = (\<lambda>x. o_id x = oid \<and> o_state x \<in> {''active'', ''cancelled'', ''failed'', ''complete''}) in
      if length (filter open_one (rv_orch db)) \<noteq> 1 then Inl NotConsumed
      else Inr (db\<lparr>rv_orch := tbl_update open_one
        (\<lambda>x. x\<lparr>o_state := ''consumed'', o_final := Some rid\<rparr>) (rv_orch db)\<rparr>))"

text \<open>The orchestration a record closes: none, or its id with whether its checkpoints are
  complete. An untrustworthy failure may be recorded over incomplete checkpoints.\<close>

definition closing_orchestration :: "pydict \<Rightarrow> reviews_db \<Rightarrow> review_error + (string \<times> bool) option" where
  "closing_orchestration merged db =
     (if dget merged ''batch_orchestration_id'' = PNone then Inr None
      else ebind (map_sum BadField id (require_text ''batch_orchestration_id'' (dget merged ''batch_orchestration_id''))) (\<lambda>oid.
           ebind (map_sum BadField id (require_text ''batch_identity_digest'' (dget merged ''batch_identity_digest''))) (\<lambda>dg.
           case require_complete_orchestration oid dg db of
             Inr _ \<Rightarrow> Inr (Some (oid, True))
           | Inl e \<Rightarrow> if dget merged ''status'' = PStr ''failed'' \<and> dget merged ''degraded'' = PBool True
                        \<and> e = OrchestrationIncomplete
                     then Inr (Some (oid, False)) else Inl e)))"

definition finalize_review ::
    "world \<Rightarrow> annotator \<Rightarrow> string \<Rightarrow> pydict \<Rightarrow> reviews_db \<Rightarrow> review_error + bool \<times> reviews_db" where
  "finalize_review w an record_id rec db =
     (if record_id = [] then Inl BadId
      else if dget rec ''id'' \<noteq> PStr record_id then Inl NotTheReservation
      else case tbl_find r_id record_id (rv_rows db) of None \<Rightarrow> Inr (False, db)
      | Some row \<Rightarrow>
          (case filter (\<lambda>name. dget rec name \<noteq> col row name) reserved_identity of
             name # _ \<Rightarrow> Inl (IdentityMoved name)
           | [] \<Rightarrow>
               if col row ''status'' \<noteq> PStr running then Inr (False, db)
               else
                 let merged = dset ''superseded_by'' (col row ''superseded_by'')
                                (dset ''pid'' (col row ''pid'') rec) in
                 ebind (normalize_record (w_now w) merged) (\<lambda>merged.
                 ebind (closing_orchestration merged db) (\<lambda>closing.
                 ebind (annotate w an db merged) (\<lambda>merged.
                 ebind (bound_columns (w_trunc w) merged) (\<lambda>cols.
                   case update_row record_id is_running (\<lambda>r. r\<lparr>r_cols := cols, r_art := merged\<rparr>) db of
                     (applied, db1) \<Rightarrow>
                       (case closing of
                          Some (oid, True) \<Rightarrow>
                            if applied then ebind (consume_orchestration oid record_id db1) (\<lambda>db2. Inr (applied, db2))
                            else Inr (applied, db1)
                        | _ \<Rightarrow> Inr (applied, db1))))))))"

subsection \<open>What the chokepoint establishes\<close>

definition axes_settled :: "pydict \<Rightarrow> bool" where
  "axes_settled rec \<longleftrightarrow> (\<exists>p d t. dget rec ''parse_ok'' = PBool p \<and> dget rec ''degraded'' = PBool d
     \<and> dget rec ''diff_truncated'' = PBool t \<and> dget rec ''trustworthy'' = PBool (is_trustworthy p d t))"

lemma axis_Inr: "axis rec k = Inr b \<longleftrightarrow> dget_or rec k (PBool False) = PBool b"
  by (auto simp: axis_def split: pyval.splits)

lemma norm_axes_settled: "norm_axes rec = Inr rec' \<Longrightarrow> axes_settled rec'"
  by (auto simp: norm_axes_def err_iffs axes_settled_def)

lemma norm_axes_keeps:
  "norm_axes rec = Inr rec' \<Longrightarrow> k \<notin> {''parse_ok'', ''degraded'', ''diff_truncated'', ''trustworthy''}
    \<Longrightarrow> dget rec' k = dget rec k"
  by (auto simp: norm_axes_def err_iffs)

lemma field_text_keeps: "field_text f rec = Inr rec' \<Longrightarrow> k \<noteq> f \<Longrightarrow> dget rec' k = dget rec k"
  by (cases "require_text f (dget rec f)") (auto simp: field_text_def split: if_splits)

lemma field_ts_keeps: "field_ts f v rec = Inr rec' \<Longrightarrow> k \<noteq> f \<Longrightarrow> dget rec' k = dget rec k"
  by (cases "require_ts f v") (auto simp: field_ts_def)

lemma norm_keeps:
  "norm_usable rec = Inr rec' \<Longrightarrow> rec' = rec"
  "norm_started rec = Inr rec' \<Longrightarrow> k \<noteq> ''review_started_at'' \<Longrightarrow> dget rec' k = dget rec k"
  "norm_completed now rec = Inr rec' \<Longrightarrow> k \<noteq> ''review_completed_at'' \<Longrightarrow> dget rec' k = dget rec k"
  "norm_repo rec = Inr rec' \<Longrightarrow> k \<noteq> ''repo_id'' \<Longrightarrow> dget rec' k = dget rec k"
  "norm_terminal rec = Inr rec' \<Longrightarrow> k \<noteq> ''terminal_reason'' \<Longrightarrow> dget rec' k = dget rec k"
  "norm_outcome rec = Inr rec' \<Longrightarrow> k \<noteq> ''outcome'' \<Longrightarrow> dget rec' k = dget rec k"
proof -
  show "norm_usable rec = Inr rec' \<Longrightarrow> rec' = rec" by (auto simp: norm_usable_def split: if_splits)
  show "norm_started rec = Inr rec' \<Longrightarrow> k \<noteq> ''review_started_at'' \<Longrightarrow> dget rec' k = dget rec k"
    by (auto simp: norm_started_def Let_def split: if_splits dest: field_ts_keeps)
  show "norm_completed now rec = Inr rec' \<Longrightarrow> k \<noteq> ''review_completed_at'' \<Longrightarrow> dget rec' k = dget rec k"
    by (auto simp: norm_completed_def Let_def split: if_splits dest: field_ts_keeps)
  show "norm_repo rec = Inr rec' \<Longrightarrow> k \<noteq> ''repo_id'' \<Longrightarrow> dget rec' k = dget rec k"
    by (auto simp: norm_repo_def dest: field_text_keeps split: if_splits)
  show "norm_terminal rec = Inr rec' \<Longrightarrow> k \<noteq> ''terminal_reason'' \<Longrightarrow> dget rec' k = dget rec k"
    by (auto simp: norm_terminal_def dest: field_text_keeps split: if_splits pyval.splits)
  show "norm_outcome rec = Inr rec' \<Longrightarrow> k \<noteq> ''outcome'' \<Longrightarrow> dget rec' k = dget rec k"
    by (auto simp: norm_outcome_def dest: field_text_keeps split: if_splits)
qed

definition settled_fields :: "string set" where
  "settled_fields = {''parse_ok'', ''degraded'', ''diff_truncated'', ''trustworthy'', ''review_started_at'',
     ''review_completed_at'', ''repo_id'', ''worktree_root'', ''orchestration_id'', ''terminal_reason'', ''outcome''}"

lemma normalize_record_steps:
  assumes "normalize_record now rec = Inr rec'"
  obtains a b c d e f g where "norm_axes rec = Inr a" "norm_usable a = Inr a" "norm_started a = Inr b"
    "norm_completed now b = Inr c" "norm_repo c = Inr d" "field_text ''worktree_root'' d = Inr e"
    "field_text ''orchestration_id'' e = Inr f" "valid_ordinal (dget f ''attempt_ordinal'')"
    "norm_terminal f = Inr g" "norm_outcome g = Inr rec'"
  using assms unfolding normalize_record_def by (auto simp: err_iffs) (metis norm_keeps(1))

lemma chokepoint_keeps:
  assumes "norm_started a = Inr b" "norm_completed now b = Inr c" "norm_repo c = Inr d"
    "field_text ''worktree_root'' d = Inr e" "field_text ''orchestration_id'' e = Inr f"
    "norm_terminal f = Inr g" "norm_outcome g = Inr rec'"
    and "k \<noteq> ''review_started_at''" "k \<noteq> ''review_completed_at''" "k \<noteq> ''repo_id''"
    "k \<noteq> ''worktree_root''" "k \<noteq> ''orchestration_id''" "k \<noteq> ''terminal_reason''" "k \<noteq> ''outcome''"
  shows "dget rec' k = dget a k"
  using norm_keeps(2) [OF assms(1,8)] norm_keeps(3) [OF assms(2,9)] norm_keeps(4) [OF assms(3,10)]
    field_text_keeps [OF assms(4,11)] field_text_keeps [OF assms(5,12)]
    norm_keeps(5) [OF assms(6,13)] norm_keeps(6) [OF assms(7,14)] by simp

lemma normalize_keeps:
  assumes "normalize_record now rec = Inr rec'" and "k \<notin> settled_fields"
  shows "dget rec' k = dget rec k"
  using assms(1)
proof (rule normalize_record_steps)
  fix a b c d e f g
  assume s: "norm_axes rec = Inr a" "norm_started a = Inr b" "norm_completed now b = Inr c" "norm_repo c = Inr d"
    "field_text ''worktree_root'' d = Inr e" "field_text ''orchestration_id'' e = Inr f"
    "norm_terminal f = Inr g" "norm_outcome g = Inr rec'"
  from assms(2) have k: "k \<noteq> ''review_started_at''" "k \<noteq> ''review_completed_at''" "k \<noteq> ''repo_id''"
    "k \<noteq> ''worktree_root''" "k \<noteq> ''orchestration_id''" "k \<noteq> ''terminal_reason''" "k \<noteq> ''outcome''"
    "k \<notin> {''parse_ok'', ''degraded'', ''diff_truncated'', ''trustworthy''}"
    by (simp_all add: settled_fields_def)
  show ?thesis
    unfolding chokepoint_keeps [OF s(2-8) k(1-7)] by (rule norm_axes_keeps [OF s(1) k(8)])
qed

lemma normalize_settles:
  assumes "normalize_record now rec = Inr rec'"
  shows "axes_settled rec'"
  using assms
proof (rule normalize_record_steps)
  fix a b c d e f g
  assume s: "norm_axes rec = Inr a" "norm_started a = Inr b" "norm_completed now b = Inr c" "norm_repo c = Inr d"
    "field_text ''worktree_root'' d = Inr e" "field_text ''orchestration_id'' e = Inr f"
    "norm_terminal f = Inr g" "norm_outcome g = Inr rec'"
  have "dget rec' ''parse_ok'' = dget a ''parse_ok''" "dget rec' ''degraded'' = dget a ''degraded''"
    "dget rec' ''diff_truncated'' = dget a ''diff_truncated''" "dget rec' ''trustworthy'' = dget a ''trustworthy''"
    by (rule chokepoint_keeps [OF s(2-8)]; simp)+
  with norm_axes_settled [OF s(1)] show ?thesis by (simp add: axes_settled_def)
qed

subsection \<open>What the columns hold\<close>

definition mirrored :: "string set" where
  "mirrored = {''reviewed_at'', ''branch'', ''head'', ''base_ref'', ''base_sha'', ''diff_hash'', ''mode'',
     ''status'', ''superseded_by'', ''repo''}"

definition axis_names :: "string set" where
  "axis_names = {''parse_ok'', ''degraded'', ''diff_truncated'', ''trustworthy''}"

lemma bound_columns_values: "bound_columns trunc rec = Inr cols \<Longrightarrow> review_values trunc rec = Inr cols"
  by (cases "review_values trunc rec") (auto simp: bound_columns_def split: list.split_asm prod.split_asm)

lemma review_values_columns:
  assumes "review_values trunc rec = Inr cols"
  obtains tot high medium low where "cols = review_columns rec tot high medium low"
  using assms unfolding review_values_def ebind_Inr_iff by (metis sum.inject(2))

lemma bound_columns_mirror:
  assumes "bound_columns trunc rec = Inr cols" and "c \<in> mirrored"
  shows "dget cols c = dget rec c"
proof -
  from bound_columns_values [OF assms(1)] obtain tot high medium low
    where "cols = review_columns rec tot high medium low" by (rule review_values_columns)
  with assms(2) show ?thesis
    unfolding mirrored_def insert_iff empty_iff
    by (elim disjE; simp only: refl) (simp_all add: review_columns_def dget_def [of "_ # _"])
qed

lemma bound_columns_flag:
  assumes "bound_columns trunc rec = Inr cols" and "c \<in> axis_names"
  shows "dget cols c = flag (dget rec c)"
proof -
  from bound_columns_values [OF assms(1)] obtain tot high medium low
    where "cols = review_columns rec tot high medium low" by (rule review_values_columns)
  with assms(2) show ?thesis
    unfolding axis_names_def insert_iff empty_iff
    by (elim disjE; simp only: refl) (simp_all add: review_columns_def dget_def [of "_ # _"])
qed

subsection \<open>The invariant: index and artifact agree\<close>

definition row_ok :: "row \<Rightarrow> bool" where
  "row_ok r \<longleftrightarrow> dget (r_art r) ''id'' = PStr (r_id r) \<and> axes_settled (r_art r)
     \<and> (\<forall>c \<in> axis_names. col r c = flag (dget (r_art r) c))
     \<and> (\<forall>c \<in> mirrored. col r c = dget (r_art r) c)"

definition db_ok :: "reviews_db \<Rightarrow> bool" where
  "db_ok db \<longleftrightarrow> keyed r_id (rv_rows db) \<and> (\<forall>r \<in> set (rv_rows db). row_ok r)"

lemma axes_settled_keeps:
  "(\<And>k. k \<in> axis_names \<Longrightarrow> dget rec' k = dget rec k) \<Longrightarrow> axes_settled rec' = axes_settled rec"
  by (simp add: axes_settled_def axis_names_def)

lemma bind_review_keeps:
  "k \<noteq> ''request_id'' \<Longrightarrow> k \<noteq> ''request_execution_seq'' \<Longrightarrow> dget (bind_review ctx rec) k = dget rec k"
  by (auto simp: bind_review_def Let_def split: option.split)

lemma bind_review_axes: "axes_settled (bind_review ctx rec) = axes_settled rec"
  by (rule axes_settled_keeps) (rule bind_review_keeps; auto simp: axis_names_def)

lemma row_ok_bound:
  "axes_settled rec \<Longrightarrow> dget rec ''id'' = PStr rid \<Longrightarrow> bound_columns trunc rec = Inr cols
    \<Longrightarrow> row_ok \<lparr>r_id = rid, r_cols = cols, r_art = rec\<rparr>"
  by (simp add: row_ok_def bound_columns_mirror bound_columns_flag)

lemma write_review_Inr:
  assumes "write_review w ctx rec db = Inr db'"
  obtains rid cols where "dget (bind_review ctx rec) ''id'' = PStr rid"
    "bound_columns (w_trunc w) (bind_review ctx rec) = Inr cols"
    "db' = db\<lparr>rv_rows := tbl_upsert r_id \<lparr>r_id = rid, r_cols = cols, r_art = bind_review ctx rec\<rparr> (rv_rows db)\<rparr>"
  using assms by (auto simp: write_review_def Let_def err_iffs split: pyval.splits)

lemma write_review_ok [inv_intros]:
  assumes "write_review w ctx rec db = Inr db'" and "axes_settled rec" and "db_ok db"
  shows "db_ok db'"
  using assms(1)
proof (rule write_review_Inr)
  fix rid cols
  assume id: "dget (bind_review ctx rec) ''id'' = PStr rid"
    and cols: "bound_columns (w_trunc w) (bind_review ctx rec) = Inr cols"
    and db': "db' = db\<lparr>rv_rows := tbl_upsert r_id \<lparr>r_id = rid, r_cols = cols, r_art = bind_review ctx rec\<rparr> (rv_rows db)\<rparr>"
  have "row_ok \<lparr>r_id = rid, r_cols = cols, r_art = bind_review ctx rec\<rparr>"
    using row_ok_bound [OF _ id cols] assms(2) by (simp add: bind_review_axes)
  with assms(3) show ?thesis
    by (auto simp: db_ok_def db' intro: keyed_upsert dest: tbl_upsert_mem)
qed

lemma annotate_settles:
  "annotate w an db rec = Inr rec' \<Longrightarrow> axes_settled rec \<Longrightarrow> axes_settled rec'"
  by (auto simp: annotate_def err_iffs split: option.splits intro: normalize_settles)

lemma save_review_ok [inv_intros]:
  "save_review w ctx an rec db = Inr db' \<Longrightarrow> db_ok db \<Longrightarrow> db_ok db'"
  by (auto simp: save_review_def err_iffs split: if_splits
      intro: write_review_ok annotate_settles normalize_settles)

text \<open>An update of rows in place.\<close>

lemma tbl_update_ok:
  assumes "db_ok db" and "\<And>r. r_id (f r) = r_id r" and "\<And>r. row_ok r \<Longrightarrow> p r \<Longrightarrow> row_ok (f r)"
  shows "db_ok (db\<lparr>rv_rows := tbl_update p f (rv_rows db)\<rparr>)"
  using assms by (auto simp: db_ok_def keyed_update dest!: tbl_update_mem)

lemma update_row_ok:
  assumes "update_row rid p f db = (b, db')" and "db_ok db"
    and "\<And>r. r_id (f r) = r_id r" and "\<And>r. row_ok r \<Longrightarrow> r_id r = rid \<Longrightarrow> p r \<Longrightarrow> row_ok (f r)"
  shows "db_ok db'"
  using assms tbl_update_ok [of db f "\<lambda>r. r_id r = rid \<and> p r"] by (auto simp: update_row_def)

lemma flag_simps [simp]: "flag (PBool b) = PInt (if b then 1 else 0)"
  by (simp add: flag_def)

lemma fail_row_ok: "row_ok r \<Longrightarrow> row_ok (fail_row reason r)"
  by (auto simp: row_ok_def fail_row_def axes_settled_def is_trustworthy_def axis_names_def mirrored_def)

lemma cancel_row_ok: "row_ok r \<Longrightarrow> row_ok (cancel_row reason r)"
  by (auto simp: row_ok_def cancel_row_def axes_settled_def is_trustworthy_def axis_names_def mirrored_def)

lemma supersede_row_ok: "row_ok r \<Longrightarrow> row_ok (supersede_row rid r)"
  by (auto simp: row_ok_def supersede_row_def axes_settled_def axis_names_def mirrored_def)

lemma pid_row_ok: "row_ok r \<Longrightarrow> row_ok (r\<lparr>r_cols := dset ''pid'' v (r_cols r), r_art := dset ''pid'' v (r_art r)\<rparr>)"
  by (auto simp: row_ok_def axes_settled_def axis_names_def mirrored_def)

lemma row_ids [simp]:
  "r_id (fail_row reason r) = r_id r" "r_id (cancel_row reason r) = r_id r" "r_id (supersede_row rid r) = r_id r"
  by (simp_all add: fail_row_def cancel_row_def supersede_row_def)

lemma mark_failed_ok [inv_intros]: "mark_failed rid reason db = (b, db') \<Longrightarrow> db_ok db \<Longrightarrow> db_ok db'"
  unfolding mark_failed_def by (erule update_row_ok) (auto intro: fail_row_ok)

lemma fail_if_running_ok [inv_intros]:
  "fail_if_running rid reason db = (b, db') \<Longrightarrow> db_ok db \<Longrightarrow> db_ok db'"
  unfolding fail_if_running_def by (erule update_row_ok) (auto intro: fail_row_ok)

lemma reopen_orchestration_rows [simp]: "rv_rows (reopen_orchestration oid rid db) = rv_rows db"
  by (simp add: reopen_orchestration_def)

lemma mark_cancelled_ok [inv_intros]:
  assumes "mark_cancelled rid reason db = (b, db')" and "db_ok db"
  shows "db_ok db'"
proof -
  obtain c db1 where u: "update_row rid (\<lambda>r. col r ''trustworthy'' = PInt 1) (cancel_row reason) db = (c, db1)"
    by fastforce
  then have "db_ok db1" using assms(2) by (rule update_row_ok) (auto intro: cancel_row_ok)
  moreover have "rv_rows db' = rv_rows db1"
    using assms(1) u by (auto simp: mark_cancelled_def split: if_splits option.splits)
  ultimately show ?thesis by (simp add: db_ok_def)
qed

lemma attach_pid_ok [inv_intros]: "attach_pid rid pid db = Inr (b, db') \<Longrightarrow> db_ok db \<Longrightarrow> db_ok db'"
  by (auto simp: attach_pid_def split: pyval.splits if_splits elim!: update_row_ok intro: pid_row_ok)

lemma reserve_Reserved:
  assumes "reserve_prepush w ctx p ev now rid db = Inr (Reserved rid' retired, db')"
  obtains rec at where "rid' = rid" "suppression_candidate w (p_diff_hash p) (p_base_sha p) ev db = None"
    "retired = map (\<lambda>r. (r_id r, col r ''pid'')) (filter (in_flight (p_repo p) (p_branch p)) (rv_rows db))"
    "normalize_record (w_now w) (reserved_record p rid at) = Inr rec"
    "write_review w ctx rec (db\<lparr>rv_rows := tbl_update (in_flight (p_repo p) (p_branch p)) (supersede_row rid) (rv_rows db)\<rparr>)
      = Inr db'"
  using assms by (auto simp: reserve_prepush_def err_iffs Let_def split: if_splits option.splits)

lemma reserve_Suppressed:
  assumes "reserve_prepush w ctx p ev now rid db = Inr (Suppressed m, db')"
  obtains at where "suppression_candidate w (p_diff_hash p) (p_base_sha p) ev db = Some m"
    "db' = db\<lparr>rv_dedup := rv_dedup db @
       [\<lparr>d_at = at, d_branch = p_branch p, d_diff_hash = p_diff_hash p, d_matched = m\<rparr>]\<rparr>"
  using assms by (auto simp: reserve_prepush_def err_iffs Let_def split: if_splits option.splits)

lemma reserve_ok [inv_intros]:
  assumes "reserve_prepush w ctx p ev now rid db = Inr (res, db')" and "db_ok db"
  shows "db_ok db'"
proof (cases res)
  case (Suppressed m)
  from assms(1) [unfolded this] show ?thesis
    by (rule reserve_Suppressed) (use assms(2) in \<open>simp add: db_ok_def\<close>)
next
  case (Reserved rid' retired)
  from assms(1) [unfolded this] show ?thesis
  proof (rule reserve_Reserved)
    fix rec at
    assume n: "normalize_record (w_now w) (reserved_record p rid at) = Inr rec"
      and wr: "write_review w ctx rec
        (db\<lparr>rv_rows := tbl_update (in_flight (p_repo p) (p_branch p)) (supersede_row rid) (rv_rows db)\<rparr>) = Inr db'"
    have "db_ok (db\<lparr>rv_rows := tbl_update (in_flight (p_repo p) (p_branch p)) (supersede_row rid) (rv_rows db)\<rparr>)"
      using assms(2) by (intro tbl_update_ok) (auto intro: supersede_row_ok)
    then show ?thesis by (rule write_review_ok [OF wr normalize_settles [OF n]])
  qed
qed

text \<open>An annotator that leaves the identity of the record alone.\<close>

definition lawful_annotator :: "annotator \<Rightarrow> bool" where
  "lawful_annotator an \<longleftrightarrow> (\<forall>f db rec rec'. an = Some f \<longrightarrow> f db rec = Inr rec' \<longrightarrow>
     (\<forall>k \<in> insert ''id'' mirrored. dget rec' k = dget rec k))"

lemma annotate_keeps:
  assumes "annotate w an db rec = Inr rec'" and "lawful_annotator an"
    and "k \<in> insert ''id'' mirrored"
  shows "dget rec' k = dget rec k"
proof -
  have "k \<notin> settled_fields" using assms(3) by (auto simp: mirrored_def settled_fields_def)
  then show ?thesis
    using assms by (auto simp: annotate_def err_iffs lawful_annotator_def normalize_keeps split: option.splits)
qed

lemma consume_rows: "consume_orchestration oid rid db = Inr db' \<Longrightarrow> rv_rows db' = rv_rows db"
  by (auto simp: consume_orchestration_def Let_def split: if_splits)

lemma finalize_cases:
  assumes "finalize_review w an rid rec db = Inr (applied, db')"
  obtains (stale) "\<not> applied" "db' = db"
    "\<And>row. tbl_find r_id rid (rv_rows db) = Some row \<Longrightarrow> \<not> is_running row"
  | (published) row merged closed cols where "applied" "tbl_find r_id rid (rv_rows db) = Some row" "is_running row"
    "dget rec ''id'' = PStr rid" "\<forall>name \<in> set reserved_identity. dget rec name = col row name"
    "normalize_record (w_now w) (dset ''superseded_by'' (col row ''superseded_by'') (dset ''pid'' (col row ''pid'') rec)) = Inr merged"
    "annotate w an db merged = Inr closed" "bound_columns (w_trunc w) closed = Inr cols"
    "rv_rows db' = tbl_update (\<lambda>r. r_id r = rid \<and> is_running r) (\<lambda>r. r\<lparr>r_cols := cols, r_art := closed\<rparr>) (rv_rows db)"
proof (cases "tbl_find r_id rid (rv_rows db)")
  case None
  with assms stale show thesis by (auto simp: finalize_review_def split: if_splits)
next
  case (Some row)
  note mem = tbl_find_Some_mem [OF Some]
  show thesis
  proof (cases "is_running row")
    case False
    with assms Some stale show thesis
      by (auto simp: finalize_review_def is_running_def split: if_splits list.splits)
  next
    case True
    from assms Some True obtain merged closing closed cols where
      id: "dget rec ''id'' = PStr rid" and ident: "filter (\<lambda>name. dget rec name \<noteq> col row name) reserved_identity = []"
      and n: "normalize_record (w_now w) (dset ''superseded_by'' (col row ''superseded_by'') (dset ''pid'' (col row ''pid'') rec)) = Inr merged"
      and c: "closing_orchestration merged db = Inr closing"
      and a: "annotate w an db merged = Inr closed" and b: "bound_columns (w_trunc w) closed = Inr cols"
      and rest: "(case update_row rid is_running (\<lambda>r. r\<lparr>r_cols := cols, r_art := closed\<rparr>) db of
                     (applied, db1) \<Rightarrow>
                       (case closing of
                          Some (oid, True) \<Rightarrow>
                            if applied then ebind (consume_orchestration oid rid db1) (\<lambda>db2. Inr (applied, db2))
                            else Inr (applied, db1)
                        | _ \<Rightarrow> Inr (applied, db1))) = Inr (applied, db')"
      unfolding finalize_review_def is_running_def
      by (auto simp: err_iffs Let_def split: if_splits list.splits)
    from rest True mem have "applied \<and> rv_rows db' =
        tbl_update (\<lambda>r. r_id r = rid \<and> is_running r) (\<lambda>r. r\<lparr>r_cols := cols, r_art := closed\<rparr>) (rv_rows db)"
      by (auto simp: update_row_def list_ex_iff err_iffs dest!: consume_rows
          split: option.splits bool.splits if_splits)
    moreover have "\<forall>name \<in> set reserved_identity. dget rec name = col row name"
      using ident by (simp add: filter_empty_conv)
    ultimately show thesis using published Some True id n a b by blast
  qed
qed

lemma finalize_ok [inv_intros]:
  assumes "finalize_review w an rid rec db = Inr (applied, db')" and "db_ok db" and "lawful_annotator an"
  shows "db_ok db'"
  using assms(1)
proof (cases rule: finalize_cases)
  case stale
  with assms(2) show ?thesis by simp
next
  case (published row merged closed cols)
  have "dget closed ''id'' = PStr rid"
    using annotate_keeps [OF published(7) assms(3), of "''id''"] normalize_keeps [OF published(6), of "''id''"] published(4)
    by (simp add: settled_fields_def)
  moreover have "axes_settled closed" by (rule annotate_settles [OF published(7) normalize_settles [OF published(6)]])
  ultimately have ok: "row_ok \<lparr>r_id = rid, r_cols = cols, r_art = closed\<rparr>"
    using published(8) by (simp add: row_ok_bound)
  have "row_ok (r\<lparr>r_cols := cols, r_art := closed\<rparr>)" if "r_id r = rid" for r
    using ok that by (cases r) simp
  then have "db_ok (db\<lparr>rv_rows := tbl_update (\<lambda>r. r_id r = rid \<and> is_running r) (\<lambda>r. r\<lparr>r_cols := cols, r_art := closed\<rparr>) (rv_rows db)\<rparr>)"
    by (intro tbl_update_ok [OF assms(2)]) auto
  with published(9) show ?thesis by (simp add: db_ok_def)
qed

subsection \<open>The store as a machine\<close>

inductive rv_step :: "world \<Rightarrow> reviews_db \<Rightarrow> reviews_db \<Rightarrow> bool" for w where
  step_save: "save_review w ctx an rec db = Inr db' \<Longrightarrow> rv_step w db db'"
| step_reserve: "reserve_prepush w ctx p ev now rid db = Inr (res, db') \<Longrightarrow> rv_step w db db'"
| step_attach: "attach_pid rid pid db = Inr (b, db') \<Longrightarrow> rv_step w db db'"
| step_finalize: "lawful_annotator an \<Longrightarrow> finalize_review w an rid rec db = Inr (b, db') \<Longrightarrow> rv_step w db db'"
| step_failed: "mark_failed rid reason db = (b, db') \<Longrightarrow> rv_step w db db'"
| step_stale: "fail_if_running rid reason db = (b, db') \<Longrightarrow> rv_step w db db'"
| step_cancelled: "mark_cancelled rid reason db = (b, db') \<Longrightarrow> rv_step w db db'"

definition empty_reviews :: "reviews_db" where
  "empty_reviews = \<lparr>rv_rows = [], rv_orch = [], rv_chk = [], rv_dedup = []\<rparr>"

lemma empty_reviews_ok [simp]: "db_ok empty_reviews"
  by (simp add: db_ok_def empty_reviews_def keyed_def)

lemma rv_step_ok: "rv_step w db db' \<Longrightarrow> db_ok db \<Longrightarrow> db_ok db'"
  by (erule rv_step.cases) (auto intro: inv_intros)

interpretation rv: safe_machine empty_reviews "rv_step w" db_ok for w
  by unfold_locales (auto intro: rv_step_ok)

interpretation rows: keyed_table "tbl_find r_id" "tbl_upsert r_id" r_id
  by unfold_locales (auto simp: tbl_find_upsert_other)

lemma mirrored_unsettled:
  "k \<in> insert ''id'' mirrored \<Longrightarrow> k \<notin> settled_fields \<and> k \<noteq> ''request_id'' \<and> k \<noteq> ''request_execution_seq''"
  unfolding mirrored_def insert_iff empty_iff
  by (elim disjE; simp only: settled_fields_def) simp_all

lemma bound_identity:
  "normalize_record now rec = Inr rec' \<Longrightarrow> k \<in> insert ''id'' mirrored \<Longrightarrow> dget (bind_review ctx rec') k = dget rec k"
  by (drule mirrored_unsettled) (simp add: bind_review_keeps normalize_keeps)

lemma mirrored_members [simp]:
  "''reviewed_at'' \<in> mirrored" "''branch'' \<in> mirrored" "''head'' \<in> mirrored" "''base_ref'' \<in> mirrored"
  "''base_sha'' \<in> mirrored" "''diff_hash'' \<in> mirrored" "''mode'' \<in> mirrored" "''status'' \<in> mirrored"
  "''superseded_by'' \<in> mirrored" "''repo'' \<in> mirrored"
  by (simp_all add: mirrored_def)

lemma normalize_parse_ok:
  assumes "normalize_record now rec = Inr rec'" and "dget_or rec ''parse_ok'' (PBool False) = PBool b"
  shows "dget rec' ''parse_ok'' = PBool b"
  using assms(1)
proof (rule normalize_record_steps)
  fix a b' c d e f g
  assume s: "norm_axes rec = Inr a" "norm_started a = Inr b'" "norm_completed now b' = Inr c"
    "norm_repo c = Inr d" "field_text ''worktree_root'' d = Inr e" "field_text ''orchestration_id'' e = Inr f"
    "norm_terminal f = Inr g" "norm_outcome g = Inr rec'"
  have "dget rec' ''parse_ok'' = dget a ''parse_ok''" by (rule chokepoint_keeps [OF s(2-8)]) simp_all
  also have "dget a ''parse_ok'' = PBool b"
    using s(1) assms(2) by (auto simp: norm_axes_def err_iffs axis_Inr)
  finally show ?thesis .
qed

end
