(* ===== verification/ReviewProps.thy ===== *)
theory ReviewProps
  imports Reviews
begin

section \<open>Properties of the reviews table\<close>

text \<open>
  The properties of theory \<open>Reviews\<close>: the index never disagrees with the artifacts, a
  reservation leaves exactly one review in flight per branch and repository, a late worker
  never overwrites a terminal record, and no failed or cancelled review still counts as
  trustworthy.
\<close>

lemma row_ok_trust:
  assumes "row_ok r"
  shows "col r ''trustworthy'' = PInt 1 \<longleftrightarrow> dget (r_art r) ''parse_ok'' = PBool True
      \<and> dget (r_art r) ''degraded'' = PBool False \<and> dget (r_art r) ''diff_truncated'' = PBool False"
    and "dget (r_art r) ''trustworthy'' = PBool (col r ''trustworthy'' = PInt 1)"
  using assms by (auto simp: row_ok_def axes_settled_def is_trustworthy_def axis_names_def split: if_splits)

lemma row_ok_mirror: "row_ok r \<Longrightarrow> c \<in> mirrored \<Longrightarrow> col r c = dget (r_art r) c"
  by (simp add: row_ok_def)

text \<open>C28 (invariant). Whatever sequence of saves, reservations, attachments, finalizations,
  failures and cancellations the store has run, the index row and the artifact of every review
  say the same thing: same id, same content hash, base and status, and a row counts as
  trustworthy exactly when its own artifact parsed, was not degraded and reviewed the whole
  diff. Ids are unique.\<close>

theorem index_agrees_with_artifact:
  assumes "reachable_by empty_reviews (rv_step w) db"
  shows "distinct (map r_id (rv_rows db)) \<and> (\<forall>r \<in> set (rv_rows db).
    dget (r_art r) ''id'' = PStr (r_id r)
    \<and> (\<forall>c \<in> {''diff_hash'', ''base_sha'', ''branch'', ''status''}. col r c = dget (r_art r) c)
    \<and> dget (r_art r) ''trustworthy'' = PBool (col r ''trustworthy'' = PInt 1)
    \<and> (col r ''trustworthy'' = PInt 1 \<longleftrightarrow> dget (r_art r) ''parse_ok'' = PBool True
        \<and> dget (r_art r) ''degraded'' = PBool False \<and> dget (r_art r) ''diff_truncated'' = PBool False))"
proof -
  from rv.reachable_inv [OF assms] have ok: "db_ok db" .
  have "\<forall>c \<in> {''diff_hash'', ''base_sha'', ''branch'', ''status''}. col r c = dget (r_art r) c"
    if "row_ok r" for r
    using row_ok_mirror [OF that] by (simp add: mirrored_def)
  with ok show ?thesis
    unfolding db_ok_def keyed_def by (metis row_ok_def row_ok_trust)
qed

text \<open>A sample world, push and record for the witnesses.\<close>

definition at_key :: "row \<Rightarrow> string" where
  "at_key r = (case col r ''reviewed_at'' of PStr s \<Rightarrow> s | _ \<Rightarrow> [])"

fun first_newest :: "row list \<Rightarrow> row option" where
  "first_newest [] = None"
| "first_newest (r # rs) =
     (case first_newest rs of None \<Rightarrow> Some r | Some x \<Rightarrow> if at_key r < at_key x then Some x else Some r)"

definition sample_world :: world where
  "sample_world = \<lparr>w_newest = first_newest, w_digest = (\<lambda>_. []), w_trunc = (\<lambda>_. None),
     w_now = sample_now\<rparr>"

definition sample_push :: push where
  "sample_push = \<lparr>p_branch = ''main'', p_head = ''h1'', p_base_ref = ''origin/main'', p_base_sha = ''b5'',
     p_diff_hash = ''d1'', p_worst = PInt 900, p_repo = ''/r/.git'', p_root = None\<rparr>"

lemma dict_eval:
  "dget [] k = PNone" "dget ((j, v) # d) k = (if j = k then v else dget d k)"
  "dhas [] k = False" "dhas ((j, v) # d) k = (j = k \<or> dhas d k)"
  "dget_or [] k u = u" "dget_or ((j, v) # d) k u = (if j = k then v else dget_or d k u)"
  by (auto simp: dget_def dhas_def dget_or_def)

definition sample_reserved_record :: pydict where
  "sample_reserved_record = reserved_record sample_push ''sk_1'' sample_now
     @ [(''trustworthy'', PBool False), (''review_started_at'', PStr sample_now), (''repo_id'', PStr ''/r/.git'')]"

lemma sample_normalized:
  "normalize_record sample_now (reserved_record sample_push ''sk_1'' sample_now) = Inr sample_reserved_record"
proof -
  have ts: "is_canonical_ts (PStr sample_now)" by code_simp
  have repo: "strip ''/r/.git'' = ''/r/.git''"
    by (simp add: strip_def lstrip_def is_space_def)
  let ?r0 = "reserved_record sample_push ''sk_1'' sample_now"
  let ?r1 = "?r0 @ [(''trustworthy'', PBool False)]"
  let ?r2 = "?r1 @ [(''review_started_at'', PStr sample_now)]"
  have 1: "norm_axes ?r0 = Inr ?r1" "norm_usable ?r1 = Inr ?r1"
    by (simp_all add: norm_axes_def axis_def norm_usable_def reserved_record_def sample_push_def dict_eval
        dset_def is_trustworthy_def)
  have 2: "norm_started ?r1 = Inr ?r2" using ts
    by (simp add: norm_started_def reserved_record_def sample_push_def dict_eval dset_def)
  have 3: "norm_completed sample_now ?r2 = Inr ?r2"
    by (simp add: norm_completed_def reserved_record_def sample_push_def dict_eval)
  have 4: "norm_repo ?r2 = Inr sample_reserved_record" using repo
    by (simp add: norm_repo_def field_text_def reserved_record_def sample_push_def dict_eval dset_def
        sample_reserved_record_def)
  have 5: "field_text ''worktree_root'' sample_reserved_record = Inr sample_reserved_record"
      "field_text ''orchestration_id'' sample_reserved_record = Inr sample_reserved_record"
      "valid_ordinal (dget sample_reserved_record ''attempt_ordinal'')"
      "norm_terminal sample_reserved_record = Inr sample_reserved_record"
      "norm_outcome sample_reserved_record = Inr sample_reserved_record"
    by (simp_all add: field_text_def norm_terminal_def norm_outcome_def sample_reserved_record_def
        reserved_record_def sample_push_def dict_eval)
  show ?thesis by (simp only: normalize_record_def 1 2 3 4 5 ebind.simps guard_def if_True)
qed

lemma sample_reserved:
  "\<exists>db. reserve_prepush sample_world None sample_push sample_evidence None ''sk_1'' empty_reviews
    = Inr (Reserved ''sk_1'' [], db) \<and> length (rv_rows db) = 1"
proof -
  let ?rec = "sample_reserved_record @ [(''request_id'', PStr ''sk_1'')]"
  have bind: "bind_review None sample_reserved_record = ?rec"
    by (simp add: bind_review_def sample_reserved_record_def reserved_record_def sample_push_def dict_eval dset_def)
  have id: "dget ?rec ''id'' = PStr ''sk_1''"
    by (simp add: sample_reserved_record_def reserved_record_def dict_eval)
  obtain cols where cols: "bound_columns (w_trunc sample_world) ?rec = Inr cols"
    by (simp add: bound_columns_def review_values_def severity_of_def count_of_def review_columns_def flag_def
        sample_reserved_record_def reserved_record_def sample_push_def dict_eval)
  have "suppression_candidate sample_world (p_diff_hash sample_push) (p_base_sha sample_push) sample_evidence
      empty_reviews = None"
    by (simp add: suppression_candidate_def candidate_rows_def empty_reviews_def sample_world_def)
  moreover have "w_now sample_world = sample_now" by (simp add: sample_world_def)
  ultimately show ?thesis
    by (simp add: reserve_prepush_def sample_normalized write_review_def bind id cols empty_reviews_def
        tbl_update_def Let_def)
qed

theorem index_agrees_with_artifact_witness:
  "\<exists>db :: reviews_db. length (rv_rows db) = 1
    \<and> (\<forall>r \<in> set (rv_rows db). dget (r_art r) ''id'' = PStr (r_id r))"
proof -
  from sample_reserved obtain db where
    r: "reserve_prepush sample_world None sample_push sample_evidence None ''sk_1'' empty_reviews
        = Inr (Reserved ''sk_1'' [], db)" and len: "length (rv_rows db) = 1" by blast
  have "reachable_by empty_reviews (rv_step sample_world) db"
    using reach_step [OF reach_init] step_reserve [OF r] by metis
  from index_agrees_with_artifact [OF this] len show ?thesis by - (rule exI [of _ db], simp)
qed

lemma reserved_record_get:
  "dget (reserved_record p rid at) ''repo'' = PStr (p_repo p)"
  "dget (reserved_record p rid at) ''branch'' = PStr (p_branch p)"
  "dget (reserved_record p rid at) ''mode'' = PStr prepush"
  "dget (reserved_record p rid at) ''status'' = PStr running"
  "dget (reserved_record p rid at) ''id'' = PStr rid"
  "dget (reserved_record p rid at) ''diff_hash'' = PStr (p_diff_hash p)"
  "dget (reserved_record p rid at) ''base_sha'' = PStr (p_base_sha p)"
  by (simp_all add: reserved_record_def dict_eval)

lemma supersede_not_in_flight: "\<not> in_flight repo branch (supersede_row rid r)"
  by (simp add: in_flight_def supersede_row_def)

lemma tbl_upsert_fresh: "key r \<notin> key ` set rs \<Longrightarrow> tbl_upsert key r rs = rs @ [r]"
  by (induction rs) auto

lemma update_keys: "(\<And>r. key (f r) = key r) \<Longrightarrow> key ` set (tbl_update p f rs) = key ` set rs"
proof -
  assume "\<And>r. key (f r) = key r"
  then have "map key (tbl_update p f rs) = map key rs" by (simp add: tbl_update_def)
  then show ?thesis by (metis image_set)
qed

definition review_ids :: "reviews_db \<Rightarrow> string list" where
  "review_ids db = map r_id (rv_rows db)"

text \<open>What a reservation leaves in the table: the old rows, those in flight superseded, and one
  new row at the end.\<close>

lemma reserve_rows:
  assumes "reserve_prepush w ctx p ev now rid db = Inr (Reserved rid' retired, db')"
    and "rid \<notin> r_id ` set (rv_rows db)"
  obtains new where "rv_rows db' = tbl_update (in_flight (p_repo p) (p_branch p)) (supersede_row rid) (rv_rows db) @ [new]"
    "r_id new = rid" "in_flight (p_repo p) (p_branch p) new" "rid' = rid"
    "col new ''diff_hash'' = PStr (p_diff_hash p)" "col new ''base_sha'' = PStr (p_base_sha p)"
    "col new ''trustworthy'' = PInt 0"
    "retired = map (\<lambda>r. (r_id r, col r ''pid'')) (filter (in_flight (p_repo p) (p_branch p)) (rv_rows db))"
  using assms(1)
proof (rule reserve_Reserved)
  fix rec at
  let ?rows = "tbl_update (in_flight (p_repo p) (p_branch p)) (supersede_row rid) (rv_rows db)"
  assume n: "normalize_record (w_now w) (reserved_record p rid at) = Inr rec"
    and wr: "write_review w ctx rec (db\<lparr>rv_rows := ?rows\<rparr>) = Inr db'" and rid: "rid' = rid"
    and ret: "retired = map (\<lambda>r. (r_id r, col r ''pid'')) (filter (in_flight (p_repo p) (p_branch p)) (rv_rows db))"
  have axes: "axes_settled (bind_review ctx rec)" using normalize_settles [OF n] by (simp add: bind_review_axes)
  have "dget rec ''parse_ok'' = PBool False"
    by (rule normalize_parse_ok [OF n]) (simp add: reserved_record_def dict_eval)
  then have parse: "dget (bind_review ctx rec) ''parse_ok'' = PBool False" by (simp add: bind_review_keeps)
  from wr show thesis
  proof (rule write_review_Inr)
    fix rid2 cols
    assume id: "dget (bind_review ctx rec) ''id'' = PStr rid2"
      and cols: "bound_columns (w_trunc w) (bind_review ctx rec) = Inr cols"
      and db': "db' = db\<lparr>rv_rows := ?rows\<rparr>\<lparr>rv_rows := tbl_upsert r_id
        \<lparr>r_id = rid2, r_cols = cols, r_art = bind_review ctx rec\<rparr> (rv_rows (db\<lparr>rv_rows := ?rows\<rparr>))\<rparr>"
    let ?new = "\<lparr>r_id = rid2, r_cols = cols, r_art = bind_review ctx rec\<rparr>"
    have [simp]: "rid2 = rid" using id bound_identity [OF n, of "''id''"] by (simp add: reserved_record_get)
    have ok: "row_ok ?new" by (rule row_ok_bound [OF axes id cols])
    have c: "col ?new k = dget (reserved_record p rid at) k" if "k \<in> mirrored" for k
      using row_ok_mirror [OF ok that] bound_identity [OF n] that by simp
    have "rid \<notin> r_id ` set ?rows" using assms(2) by (subst update_keys) simp_all
    then have "rv_rows db' = ?rows @ [?new]" using db' by (simp add: tbl_upsert_fresh)
    moreover have "in_flight (p_repo p) (p_branch p) ?new"
      using c [of "''repo''"] c [of "''branch''"] c [of "''mode''"] c [of "''status''"]
      by (simp add: in_flight_def reserved_record_get)
    moreover have "col ?new ''trustworthy'' = PInt 0"
      using row_ok_trust(1) [OF ok] ok parse by (auto simp: row_ok_def axis_names_def axes_settled_def is_trustworthy_def)
    moreover have "col ?new ''diff_hash'' = PStr (p_diff_hash p)" "col ?new ''base_sha'' = PStr (p_base_sha p)"
      using c [of "''diff_hash''"] c [of "''base_sha''"] by (simp_all add: reserved_record_get)
    ultimately show thesis using that [of ?new] rid ret by simp
  qed
qed

text \<open>C29 (invariant). A reservation that is not suppressed leaves exactly one review in flight
  for its branch in its repository, the new one, which is not trustworthy; it reports exactly
  the reviews it retired, with their worker pids, marks each as superseded by the new one and
  touches no other row. A suppressed one writes no review at all, only the audit row.\<close>

theorem reserve_one_in_flight:
  assumes "reserve_prepush w ctx p ev now rid db = Inr (res, db')"
    and "rid \<notin> r_id ` set (rv_rows db)" and "keyed r_id (rv_rows db)"
  shows "case res of
      Reserved rid' retired \<Rightarrow>
        map r_id (filter (in_flight (p_repo p) (p_branch p)) (rv_rows db')) = [rid]
        \<and> retired = map (\<lambda>r. (r_id r, col r ''pid'')) (filter (in_flight (p_repo p) (p_branch p)) (rv_rows db))
        \<and> review_ids db' = review_ids db @ [rid]
        \<and> (\<forall>r \<in> set (rv_rows db). tbl_find r_id (r_id r) (rv_rows db') =
             Some (if in_flight (p_repo p) (p_branch p) r then supersede_row rid r else r))
        \<and> (\<exists>new. tbl_find r_id rid (rv_rows db') = Some new \<and> col new ''trustworthy'' = PInt 0)
    | Suppressed matched \<Rightarrow> rv_rows db' = rv_rows db \<and> length (rv_dedup db') = Suc (length (rv_dedup db))"
proof (cases res)
  case (Suppressed m)
  from assms(1) [unfolded this] show ?thesis by (rule reserve_Suppressed) (simp add: Suppressed)
next
  case (Reserved rid' retired)
  let ?live = "in_flight (p_repo p) (p_branch p)"
  let ?rows = "tbl_update ?live (supersede_row rid) (rv_rows db)"
  from assms(1) [unfolded Reserved] assms(2) show ?thesis
  proof (rule reserve_rows)
    fix new
    assume rows: "rv_rows db' = ?rows @ [new]" and new: "r_id new = rid" "?live new" "col new ''trustworthy'' = PInt 0"
      and ret: "retired = map (\<lambda>r. (r_id r, col r ''pid'')) (filter ?live (rv_rows db))"
    have "filter ?live ?rows = []"
      by (auto simp: filter_empty_conv tbl_update_def supersede_not_in_flight)
    then have one: "map r_id (filter ?live (rv_rows db')) = [rid]" using rows new by simp
    have find: "tbl_find r_id k (xs @ [new]) = (case tbl_find r_id k xs of None \<Rightarrow> if k = rid then Some new else None | Some r \<Rightarrow> Some r)"
      for k xs by (induction xs) (use new in auto)
    have old: "tbl_find r_id (r_id r) (rv_rows db') = Some (if ?live r then supersede_row rid r else r)"
      if "r \<in> set (rv_rows db)" for r
      using tbl_find_mem [OF assms(3) that] by (simp add: rows find tbl_find_update)
    have "tbl_find r_id rid ?rows = None"
      using assms(2) by (simp add: tbl_find_update tbl_find_None_iff)
    then have "tbl_find r_id rid (rv_rows db') = Some new" by (simp add: rows find)
    moreover have "review_ids db' = review_ids db @ [rid]"
      using rows new by (simp add: review_ids_def tbl_update_def)
    ultimately show ?thesis using one old new(3) ret by (simp add: Reserved)
  qed
qed

theorem reserve_one_in_flight_witness:
  "\<exists>db' :: reviews_db. map r_id (filter (in_flight ''/r/.git'' ''main'') (rv_rows db')) = [''sk_1'']"
proof -
  from sample_reserved obtain db where
    r: "reserve_prepush sample_world None sample_push sample_evidence None ''sk_1'' empty_reviews
        = Inr (Reserved ''sk_1'' [], db)" by blast
  have "p_repo sample_push = ''/r/.git''" "p_branch sample_push = ''main''" by (simp_all add: sample_push_def)
  with reserve_one_in_flight [OF r] show ?thesis
    by - (rule exI [of _ db], simp add: empty_reviews_def keyed_def)
qed

text \<open>A worker's completed record is applied only while its reservation is still
  running. If the reservation was superseded, recovered or already finalized, nothing at all
  changes; if it is applied, only that row changes, the five fields that identify the content
  stay as reserved, and the pid and the superseding id are the ones the database holds.\<close>

theorem finalize_respects_reservation:
  assumes "finalize_review w an rid rec db = Inr (applied, db')" and "keyed r_id (rv_rows db)"
    and "lawful_annotator an"
  shows "(\<forall>r \<in> set (rv_rows db). r_id r \<noteq> rid \<or> \<not> is_running r \<longrightarrow> tbl_find r_id (r_id r) (rv_rows db') = Some r)
    \<and> (\<not> applied \<longrightarrow> db' = db)
    \<and> (applied \<longrightarrow> (\<exists>old new. tbl_find r_id rid (rv_rows db) = Some old \<and> is_running old
        \<and> tbl_find r_id rid (rv_rows db') = Some new
        \<and> (\<forall>c \<in> set reserved_identity. col new c = col old c)
        \<and> col new ''superseded_by'' = col old ''superseded_by''))"
  using assms(1)
proof (cases rule: finalize_cases)
  case stale
  with tbl_find_mem [OF assms(2)] show ?thesis by auto
next
  case (published row merged closed cols)
  let ?f = "\<lambda>r. r\<lparr>r_cols := cols, r_art := closed\<rparr>"
  have find: "tbl_find r_id k (rv_rows db') = map_option (\<lambda>r. if r_id r = rid \<and> is_running r then ?f r else r)
      (tbl_find r_id k (rv_rows db))" for k
    unfolding published(9) by (rule tbl_find_update) simp
  have keep: "dget cols c = dget (dset ''superseded_by'' (col row ''superseded_by'') (dset ''pid'' (col row ''pid'') rec)) c"
    if "c \<in> mirrored" for c
  proof -
    have "dget cols c = dget closed c" by (rule bound_columns_mirror [OF published(8) that])
    also have "\<dots> = dget merged c" by (rule annotate_keeps [OF published(7) assms(3)]) (use that in simp)
    also have "\<dots> = dget (dset ''superseded_by'' (col row ''superseded_by'') (dset ''pid'' (col row ''pid'') rec)) c"
      by (rule normalize_keeps [OF published(6)]) (use mirrored_unsettled [of c] that in simp)
    finally show ?thesis .
  qed
  have "dget cols c = col row c" if "c \<in> set reserved_identity" for c
  proof -
    have "c \<in> mirrored" "c \<noteq> ''superseded_by''" "c \<noteq> ''pid''"
      using that unfolding reserved_identity_def by (auto simp: mirrored_def)
    with keep published(5) that show ?thesis by simp
  qed
  moreover have "dget cols ''superseded_by'' = col row ''superseded_by''" using keep by simp
  moreover have "tbl_find r_id rid (rv_rows db') = Some (?f row)"
    using find published(2,3) tbl_find_Some_mem [OF published(2)] by simp
  moreover have "tbl_find r_id (r_id r) (rv_rows db') = Some r"
    if "r \<in> set (rv_rows db)" "r_id r \<noteq> rid \<or> \<not> is_running r" for r
    using that tbl_find_mem [OF assms(2) that(1)] by (auto simp: find)
  ultimately show ?thesis using published(1-3) by auto
qed

definition sample_running :: reviews_db where
  "sample_running = \<lparr>rv_rows = [\<lparr>r_id = ''sk_1'',
      r_cols = [(''branch'', PStr ''main''), (''head'', PStr ''h1''), (''base_ref'', PStr ''m''),
        (''base_sha'', PStr ''b5''), (''diff_hash'', PStr ''d1''), (''status'', PStr running)],
      r_art = []\<rparr>], rv_orch = [], rv_chk = [], rv_dedup = []\<rparr>"

definition sample_answer :: pydict where
  "sample_answer = [(''id'', PStr ''sk_1''), (''branch'', PStr ''main''), (''head'', PStr ''h1''),
     (''base_ref'', PStr ''m''), (''base_sha'', PStr ''b5''), (''diff_hash'', PStr ''d1''),
     (''status'', PStr ''clean''), (''parse_ok'', PBool True)]"

lemma sample_finalized:
  "\<exists>db'. finalize_review sample_world None ''sk_1'' sample_answer sample_running = Inr (True, db')"
proof -
  let ?r0 = "sample_answer @ [(''pid'', PNone), (''superseded_by'', PNone)]"
  let ?r1 = "sample_answer @ [(''pid'', PNone), (''superseded_by'', PNone), (''degraded'', PBool False),
    (''diff_truncated'', PBool False), (''trustworthy'', PBool True)]"
  let ?r2 = "sample_answer @ [(''pid'', PNone), (''superseded_by'', PNone), (''degraded'', PBool False),
    (''diff_truncated'', PBool False), (''trustworthy'', PBool True), (''review_completed_at'', PStr sample_now)]"
  let ?r3 = "sample_answer @ [(''pid'', PNone), (''superseded_by'', PNone), (''degraded'', PBool False),
    (''diff_truncated'', PBool False), (''trustworthy'', PBool True), (''review_completed_at'', PStr sample_now),
    (''outcome'', PStr ''clean'')]"
  have 1: "norm_axes ?r0 = Inr ?r1" "norm_usable ?r1 = Inr ?r1"
    by (simp_all add: norm_axes_def axis_def norm_usable_def requires_usable_output_def sample_answer_def dict_eval dset_def
        is_trustworthy_def)
  have 2: "norm_started ?r1 = Inr ?r1" "norm_completed sample_now ?r1 = Inr ?r2" "norm_repo ?r2 = Inr ?r2"
    by (simp_all add: norm_started_def norm_completed_def norm_repo_def field_text_def sample_answer_def dict_eval dset_def)
  have 3: "field_text ''worktree_root'' ?r2 = Inr ?r2" "field_text ''orchestration_id'' ?r2 = Inr ?r2"
    "valid_ordinal (dget ?r2 ''attempt_ordinal'')" "norm_terminal ?r2 = Inr ?r2" "norm_outcome ?r2 = Inr ?r3"
    by (simp_all add: field_text_def norm_terminal_def norm_outcome_def sample_answer_def dict_eval dset_def)
  have n: "normalize_record sample_now ?r0 = Inr ?r3"
    by (simp only: normalize_record_def 1 2 3 ebind.simps guard_def if_True)
  obtain cols where cols: "bound_columns (w_trunc sample_world) ?r3 = Inr cols"
    by (simp add: bound_columns_def review_values_def severity_of_def count_of_def review_columns_def flag_def
        sample_answer_def dict_eval)
  have closing: "closing_orchestration ?r3 sample_running = Inr None"
    by (simp add: closing_orchestration_def sample_answer_def dict_eval)
  have r0: "dset ''superseded_by'' PNone (dset ''pid'' PNone sample_answer) = ?r0"
    by (simp add: sample_answer_def dset_def)
  obtain row where row: "tbl_find r_id ''sk_1'' (rv_rows sample_running) = Some row"
    and st: "col row ''status'' = PStr running" and none: "col row ''pid'' = PNone" "col row ''superseded_by'' = PNone"
    and ident: "filter (\<lambda>name. dget sample_answer name \<noteq> col row name) reserved_identity = []"
    by (simp add: sample_running_def dict_eval reserved_identity_def sample_answer_def)
  have id: "dget sample_answer ''id'' = PStr ''sk_1''" by (simp add: sample_answer_def dict_eval)
  have app: "\<exists>db'. update_row ''sk_1'' is_running f sample_running = (True, db')" for f
    by (simp add: update_row_def sample_running_def is_running_def dict_eval)
  have now: "w_now sample_world = sample_now" by (simp add: sample_world_def)
  show ?thesis
    using app [of "\<lambda>r. r\<lparr>r_cols := cols, r_art := ?r3\<rparr>"]
    by (simp add: finalize_review_def id row ident st none r0 now n closing annotate_def cols Let_def split: prod.split)
qed

theorem finalize_respects_reservation_witness:
  "\<exists>db' :: reviews_db. \<exists>new. tbl_find r_id ''sk_1'' (rv_rows db') = Some new \<and> col new ''superseded_by'' = PNone"
proof -
  from sample_finalized obtain db' where
    f: "finalize_review sample_world None ''sk_1'' sample_answer sample_running = Inr (True, db')" by blast
  have k: "keyed r_id (rv_rows sample_running)" by (simp add: sample_running_def keyed_def)
  have l: "lawful_annotator None" by (simp add: lawful_annotator_def)
  have old: "tbl_find r_id ''sk_1'' (rv_rows sample_running) = Some old \<Longrightarrow> col old ''superseded_by'' = PNone" for old
    by (auto simp: sample_running_def dict_eval)
  from finalize_respects_reservation [OF f k l] old show ?thesis by metis
qed

text \<open>Each failure transition is one update of one row.\<close>

lemma failure_is_update:
  assumes "op \<in> {mark_failed rid reason, fail_if_running rid reason, mark_cancelled rid reason}"
    and "op db = (applied, db')"
  shows "\<exists>p f. (f = fail_row reason \<or> f = cancel_row reason)
    \<and> applied = fst (update_row rid p f db) \<and> rv_rows db' = rv_rows (snd (update_row rid p f db))"
proof -
  have cancelled: "applied = fst (update_row rid (\<lambda>r. col r ''trustworthy'' = PInt 1) (cancel_row reason) db)
      \<and> rv_rows db' = rv_rows (snd (update_row rid (\<lambda>r. col r ''trustworthy'' = PInt 1) (cancel_row reason) db))"
    if "mark_cancelled rid reason db = (applied, db')"
    using that by (auto simp: mark_cancelled_def split: prod.splits option.splits if_splits)
  from assms consider "update_row rid (\<lambda>_. True) (fail_row reason) db = (applied, db')"
    | "update_row rid is_running (fail_row reason) db = (applied, db')" | "mark_cancelled rid reason db = (applied, db')"
    by (auto simp: mark_failed_def fail_if_running_def)
  then show ?thesis
  proof cases
    case 1
    then show ?thesis by (metis fst_conv snd_conv)
  next
    case 2
    then show ?thesis by (metis fst_conv snd_conv)
  next
    case 3
    then show ?thesis using cancelled by blast
  qed
qed

text \<open>No failure transition leaves a review that still certifies anything. After
  the foreground cleanup, the janitor's recovery or a cancellation applied to a review, its
  status is \<open>failed\<close> in the index and in the artifact, it is not trustworthy in either, and no
  other review changed. The janitor changes nothing once the review is no longer running.\<close>

theorem failures_demote:
  assumes "db_ok db"
    and "op \<in> {mark_failed rid reason, fail_if_running rid reason, mark_cancelled rid reason}"
    and "op db = (applied, db')"
  shows "(\<forall>k. k \<noteq> rid \<longrightarrow> tbl_find r_id k (rv_rows db') = tbl_find r_id k (rv_rows db))
    \<and> (applied \<longrightarrow> (\<exists>r. tbl_find r_id rid (rv_rows db') = Some r
        \<and> col r ''status'' = PStr ''failed'' \<and> dget (r_art r) ''status'' = PStr ''failed''
        \<and> col r ''trustworthy'' = PInt 0 \<and> dget (r_art r) ''trustworthy'' = PBool False
        \<and> dget (r_art r) ''failure_reason'' = PStr reason))
    \<and> (\<not> applied \<longrightarrow> rv_rows db' = rv_rows db)
    \<and> (fail_if_running rid reason db = (True, db') \<longrightarrow> (\<exists>r \<in> set (rv_rows db). r_id r = rid \<and> is_running r))"
proof -
  have keyed: "keyed r_id (rv_rows db)" using assms(1) by (simp add: db_ok_def)
  obtain p f where f: "f = fail_row reason \<or> f = cancel_row reason"
    and u: "applied = fst (update_row rid p f db)" "rv_rows db' = rv_rows (snd (update_row rid p f db))"
    using failure_is_update [OF assms(2,3)] by blast
  have idf: "r_id (f r) = r_id r" for r using f by auto
  have find: "tbl_find r_id k (rv_rows db') = map_option (\<lambda>r. if r_id r = rid \<and> p r then f r else r) (tbl_find r_id k (rv_rows db))"
    for k unfolding u(2) update_row_def by (simp add: tbl_find_update idf)
  have "tbl_find r_id k (rv_rows db') = tbl_find r_id k (rv_rows db)" if "k \<noteq> rid" for k
    using that by (cases "tbl_find r_id k (rv_rows db)") (auto simp: find dest: tbl_find_Some_mem)
  moreover have "\<exists>r. tbl_find r_id rid (rv_rows db') = Some r
        \<and> col r ''status'' = PStr ''failed'' \<and> dget (r_art r) ''status'' = PStr ''failed''
        \<and> col r ''trustworthy'' = PInt 0 \<and> dget (r_art r) ''trustworthy'' = PBool False
        \<and> dget (r_art r) ''failure_reason'' = PStr reason" if applied
  proof -
    from that u(1) obtain r where r: "r \<in> set (rv_rows db)" "r_id r = rid" "p r"
      by (auto simp: update_row_def list_ex_iff)
    have "tbl_find r_id rid (rv_rows db') = Some (f r)"
      using tbl_find_mem [OF keyed r(1)] r by (simp add: find)
    then show ?thesis using f by (auto simp: fail_row_def cancel_row_def)
  qed
  moreover have "rv_rows db' = rv_rows db" if "\<not> applied"
  proof -
    have "\<forall>r \<in> set (rv_rows db). \<not> (r_id r = rid \<and> p r)"
      using that u(1) by (auto simp: update_row_def list_ex_iff)
    then show ?thesis unfolding u(2) by (simp add: update_row_def tbl_update_def) (rule map_idI, auto)
  qed
  moreover have "\<exists>r \<in> set (rv_rows db). r_id r = rid \<and> is_running r"
    if "fail_if_running rid reason db = (True, db')"
    using that by (auto simp: fail_if_running_def update_row_def list_ex_iff)
  ultimately show ?thesis by blast
qed

theorem failures_demote_witness:
  "\<exists>db' :: reviews_db. \<exists>r. tbl_find r_id ''sk_1'' (rv_rows db') = Some r \<and> col r ''trustworthy'' = PInt 0"
proof -
  from sample_reserved obtain db where
    r: "reserve_prepush sample_world None sample_push sample_evidence None ''sk_1'' empty_reviews
        = Inr (Reserved ''sk_1'' [], db)" by blast
  then have ok: "db_ok db" by (rule reserve_ok) simp
  from r have "''sk_1'' \<in> r_id ` set (rv_rows db)"
    by (rule reserve_rows) (auto simp: empty_reviews_def)
  then have "list_ex (\<lambda>x. r_id x = ''sk_1'' \<and> True) (rv_rows db)" by (auto simp: list_ex_iff)
  then obtain db' where m: "mark_failed ''sk_1'' ''timeout'' db = (True, db')"
    by (simp add: mark_failed_def update_row_def)
  have "mark_failed ''sk_1'' ''timeout'' \<in> {mark_failed ''sk_1'' ''timeout'', fail_if_running ''sk_1'' ''timeout'',
      mark_cancelled ''sk_1'' ''timeout''}" by simp
  from failures_demote [OF ok this m] show ?thesis by auto
qed

subsection \<open>The writers of the program\<close>

text \<open>
  The machine of \<open>Reviews\<close> lets a caller save any record. The program's own writers never store a running
  review that parsed: a running record is a placeholder with \<open>parse_ok\<close> false, and a finished one has another
  status. Under such writers no row is both running and trustworthy.
\<close>

definition honest_rec :: "pydict \<Rightarrow> bool" where
  "honest_rec rec \<longleftrightarrow> (dget rec ''status'' = PStr running \<longrightarrow> dget_or rec ''parse_ok'' (PBool False) = PBool False)"

definition quiet_annotator :: "annotator \<Rightarrow> bool" where
  "quiet_annotator an \<longleftrightarrow> lawful_annotator an
     \<and> (\<forall>f db rec rec'. an = Some f \<longrightarrow> f db rec = Inr rec' \<longrightarrow> dget rec' ''parse_ok'' = dget rec ''parse_ok'')"

inductive writer_step :: "world \<Rightarrow> reviews_db \<Rightarrow> reviews_db \<Rightarrow> bool" for w where
  writes: "honest_rec rec \<Longrightarrow> quiet_annotator an \<Longrightarrow> save_review w ctx an rec db = Inr db' \<Longrightarrow> writer_step w db db'"
| reserves: "reserve_prepush w ctx p ev now rid db = Inr (res, db') \<Longrightarrow> writer_step w db db'"
| attaches: "attach_pid rid pid db = Inr (b, db') \<Longrightarrow> writer_step w db db'"
| finalizes: "honest_rec rec \<Longrightarrow> quiet_annotator an \<Longrightarrow> finalize_review w an rid rec db = Inr (b, db') \<Longrightarrow> writer_step w db db'"
| fails: "mark_failed rid reason db = (b, db') \<Longrightarrow> writer_step w db db'"
| fails_stale: "fail_if_running rid reason db = (b, db') \<Longrightarrow> writer_step w db db'"
| cancels: "mark_cancelled rid reason db = (b, db') \<Longrightarrow> writer_step w db db'"

definition quiet_row :: "row \<Rightarrow> bool" where
  "quiet_row r \<longleftrightarrow> (is_running r \<longrightarrow> col r ''trustworthy'' \<noteq> PInt 1)"

definition quiet_db :: "reviews_db \<Rightarrow> bool" where
  "quiet_db db \<longleftrightarrow> (\<forall>r \<in> set (rv_rows db). quiet_row r)"

lemma quiet_update:
  assumes "quiet_db db" and "\<And>r. r \<in> set (rv_rows db) \<Longrightarrow> p r \<Longrightarrow> quiet_row r \<Longrightarrow> quiet_row (f r)"
  shows "quiet_db (db\<lparr>rv_rows := tbl_update p f (rv_rows db)\<rparr>)"
  using assms by (auto simp: quiet_db_def dest!: tbl_update_mem)

lemma quiet_update_row:
  assumes "update_row rid p f db = (b, db')" and "quiet_db db" and "\<And>r. quiet_row r \<Longrightarrow> quiet_row (f r)"
  shows "quiet_db db'"
  using assms quiet_update [of db "\<lambda>r. r_id r = rid \<and> p r" f] by (auto simp: update_row_def)

lemma unparsed_settled: "axes_settled rec \<Longrightarrow> dget rec ''parse_ok'' = PBool False \<Longrightarrow> dget rec ''trustworthy'' = PBool False"
  by (auto simp: axes_settled_def is_trustworthy_def)

lemma dget_or_present: "dget d k = PBool b \<Longrightarrow> dget_or d k v = PBool b"
  by (auto simp: dget_def dget_or_def split: option.splits)

lemma annotate_unparsed:
  assumes "annotate w an db rec = Inr rec'" "quiet_annotator an" "dget rec ''parse_ok'' = PBool False"
  shows "dget rec' ''parse_ok'' = PBool False"
proof (cases an)
  case None
  with assms show ?thesis by (simp add: annotate_def)
next
  case (Some f)
  with assms(1) obtain x where x: "f db rec = Inr x" "normalize_record (w_now w) x = Inr rec'"
    by (auto simp: annotate_def err_iffs)
  with assms(2,3) Some have "dget x ''parse_ok'' = PBool False" by (simp add: quiet_annotator_def)
  from normalize_parse_ok [OF x(2) dget_or_present [OF this]] show ?thesis .
qed

text \<open>A record on its way into a row, after the chokepoint and the annotator.\<close>

lemma honest_closed:
  assumes "normalize_record now rec = Inr merged" "annotate w an db merged = Inr closed" "quiet_annotator an" "honest_rec rec"
  shows "dget closed ''status'' = PStr running \<longrightarrow> dget closed ''trustworthy'' = PBool False"
proof
  assume run: "dget closed ''status'' = PStr running"
  have l: "lawful_annotator an" using assms(3) by (simp add: quiet_annotator_def)
  have "dget rec ''status'' = PStr running"
    using run annotate_keeps [OF assms(2) l, of "''status''"] normalize_keeps [OF assms(1), of "''status''"]
    by (simp add: settled_fields_def)
  with assms(4) have "dget_or rec ''parse_ok'' (PBool False) = PBool False" by (simp add: honest_rec_def)
  from annotate_unparsed [OF assms(2,3) normalize_parse_ok [OF assms(1) this]]
  show "dget closed ''trustworthy'' = PBool False"
    by (rule unparsed_settled [OF annotate_settles [OF assms(2) normalize_settles [OF assms(1)]]])
qed

lemma quiet_bound:
  assumes "bound_columns trunc rec = Inr cols" "dget rec ''status'' = PStr running \<longrightarrow> dget rec ''trustworthy'' = PBool False"
  shows "quiet_row \<lparr>r_id = rid, r_cols = cols, r_art = art\<rparr>"
  using bound_columns_mirror [OF assms(1), of "''status''"] bound_columns_flag [OF assms(1), of "''trustworthy''"] assms(2)
  by (auto simp: quiet_row_def is_running_def axis_names_def)

lemma write_review_quiet:
  assumes "write_review w ctx rec db = Inr db'" "quiet_db db" "dget rec ''status'' = PStr running \<longrightarrow> dget rec ''trustworthy'' = PBool False"
  shows "quiet_db db'"
  using assms(1)
proof (rule write_review_Inr)
  fix rid cols
  assume cols: "bound_columns (w_trunc w) (bind_review ctx rec) = Inr cols"
    and db': "db' = db\<lparr>rv_rows := tbl_upsert r_id \<lparr>r_id = rid, r_cols = cols, r_art = bind_review ctx rec\<rparr> (rv_rows db)\<rparr>"
  have "quiet_row \<lparr>r_id = rid, r_cols = cols, r_art = bind_review ctx rec\<rparr>"
    using assms(3) by (intro quiet_bound [OF cols]) (simp add: bind_review_keeps)
  with assms(2) show ?thesis by (auto simp: quiet_db_def db' dest: tbl_upsert_mem)
qed

lemma honest_plain:
  "normalize_record now rec = Inr merged \<Longrightarrow> honest_rec rec
    \<Longrightarrow> dget merged ''status'' = PStr running \<longrightarrow> dget merged ''trustworthy'' = PBool False"
  by (rule honest_closed [where an = None]) (simp_all add: annotate_def quiet_annotator_def lawful_annotator_def)

lemma save_review_quiet:
  assumes "save_review w ctx an rec db = Inr db'" "honest_rec rec" "quiet_annotator an" "quiet_db db"
  shows "quiet_db db'"
  using assms
  by (auto simp: save_review_def err_iffs split: if_splits
      dest: honest_closed [OF _ _ assms(3,2)] honest_plain intro: write_review_quiet)

lemma finalize_quiet:
  assumes "finalize_review w an rid rec db = Inr (b, db')" "honest_rec rec" "quiet_annotator an" "quiet_db db"
  shows "quiet_db db'"
  using assms(1)
proof (cases rule: finalize_cases)
  case stale
  with assms(4) show ?thesis by simp
next
  case (published row merged closed cols)
  have "honest_rec (dset ''superseded_by'' (col row ''superseded_by'') (dset ''pid'' (col row ''pid'') rec))"
    using assms(2) by (simp add: honest_rec_def dget_or_def)
  from honest_closed [OF published(6,7) assms(3) this]
  have "quiet_row (r\<lparr>r_cols := cols, r_art := closed\<rparr>)" for r
    using quiet_bound [OF published(8)] by (cases r) simp
  with assms(4) have "quiet_db (db\<lparr>rv_rows := tbl_update (\<lambda>r. r_id r = rid \<and> is_running r) (\<lambda>r. r\<lparr>r_cols := cols, r_art := closed\<rparr>) (rv_rows db)\<rparr>)"
    by (intro quiet_update) auto
  with published(9) show ?thesis by (simp add: quiet_db_def)
qed

lemma row_edits_quiet:
  "quiet_row r \<Longrightarrow> quiet_row (fail_row reason r)" "quiet_row r \<Longrightarrow> quiet_row (cancel_row reason r)"
  "quiet_row r \<Longrightarrow> quiet_row (supersede_row rid r)"
  "quiet_row r \<Longrightarrow> quiet_row (r\<lparr>r_cols := dset ''pid'' v (r_cols r), r_art := dset ''pid'' v (r_art r)\<rparr>)"
  by (auto simp: quiet_row_def is_running_def fail_row_def cancel_row_def supersede_row_def)

lemma mark_cancelled_quiet: "mark_cancelled rid reason db = (b, db') \<Longrightarrow> quiet_db db \<Longrightarrow> quiet_db db'"
proof -
  assume m: "mark_cancelled rid reason db = (b, db')" and q: "quiet_db db"
  obtain c db1 where u: "update_row rid (\<lambda>r. col r ''trustworthy'' = PInt 1) (cancel_row reason) db = (c, db1)" by fastforce
  then have "quiet_db db1" using q by (rule quiet_update_row) (rule row_edits_quiet)
  moreover have "rv_rows db' = rv_rows db1" using m u by (auto simp: mark_cancelled_def split: if_splits option.splits)
  ultimately show ?thesis by (simp add: quiet_db_def)
qed

lemma reserve_quiet:
  assumes "reserve_prepush w ctx p ev now rid db = Inr (res, db')" "quiet_db db"
  shows "quiet_db db'"
proof (cases res)
  case (Suppressed m)
  from assms(1) [unfolded this] show ?thesis by (rule reserve_Suppressed) (use assms(2) in \<open>simp add: quiet_db_def\<close>)
next
  case (Reserved rid' retired)
  from assms(1) [unfolded this] show ?thesis
  proof (rule reserve_Reserved)
    fix rec at
    assume n: "normalize_record (w_now w) (reserved_record p rid at) = Inr rec"
      and wr: "write_review w ctx rec
        (db\<lparr>rv_rows := tbl_update (in_flight (p_repo p) (p_branch p)) (supersede_row rid) (rv_rows db)\<rparr>) = Inr db'"
    have "dget rec ''parse_ok'' = PBool False"
      by (rule normalize_parse_ok [OF n]) (simp add: reserved_record_def dget_or_def)
    then have "dget rec ''trustworthy'' = PBool False" using unparsed_settled normalize_settles [OF n] by blast
    then show ?thesis
      using assms(2) by (intro write_review_quiet [OF wr] quiet_update) (auto intro: row_edits_quiet)
  qed
qed

lemma writer_step_quiet: "writer_step w db db' \<Longrightarrow> quiet_db db \<Longrightarrow> quiet_db db'"
  by (erule writer_step.cases)
    (auto simp: mark_failed_def fail_if_running_def attach_pid_def split: pyval.splits if_splits
      intro: save_review_quiet finalize_quiet mark_cancelled_quiet reserve_quiet row_edits_quiet quiet_update_row)

lemma empty_quiet: "quiet_db empty_reviews"
  by (simp add: quiet_db_def empty_reviews_def)

interpretation writers: history_machine empty_reviews "writer_step w" quiet_db "\<lambda>s t. quiet_db s \<longrightarrow> quiet_db t" for w
  by unfold_locales (auto intro: writer_step_quiet empty_quiet)

end
