(* ===== verification/GitIdentity.thy ===== *)
theory GitIdentity
  imports PyText
begin

section \<open>Git identity: base, captured change and its hash\<close>

text \<open>
  Models the parts of \<open>gitio.py\<close> that decide what a review is about: \<open>_run\<close> and \<open>_out\<close>,
  \<open>blob_sha1\<close>, \<open>diff_identity\<close>, \<open>resolve_base\<close>, \<open>resolve_ref_base\<close>,
  \<open>_tracked_statuses\<close>, \<open>capture_diff\<close> and \<open>current_branch\<close>. The git executable, the
  file system test and SHA-1 are parameters. A git call gives its return code and output, or
  fails (a time-out, a missing executable); an error is the text of the exception. Paths are
  kept as bytes, since \<open>surrogateescape\<close> decoding loses nothing.
\<close>

subsection \<open>Running git\<close>

record git =
  g_call :: "string list \<Rightarrow> string + nat \<times> string"  \<comment> \<open>return code and standard output\<close>
  g_decode :: "string \<Rightarrow> string"                     \<comment> \<open>\<open>decode("utf-8", "replace")\<close>\<close>
  g_is_file :: "string \<Rightarrow> bool"                      \<comment> \<open>\<open>(repo / f).is_file()\<close>\<close>

definition run_git :: "git \<Rightarrow> nat list \<Rightarrow> string list \<Rightarrow> string + nat \<times> string" where
  "run_git g ok args =
     ebind (g_call g args) (\<lambda>(rc, out).
       if rc \<notin> set ok then Inl (''git '' @ join '' '' args @ '': rc='' @ show_nat rc) else Inr (rc, out))"

definition out_text :: "git \<Rightarrow> string list \<Rightarrow> string + string" where
  "out_text g args = ebind (run_git g [0] args) (\<lambda>(rc, out). Inr (strip (g_decode g out)))"

subsection \<open>Identity of a diff\<close>

text \<open>\<open>data.rstrip(b"\n")\<close>.\<close>

definition rstrip_nl :: "string \<Rightarrow> string" where
  "rstrip_nl s = rev (dropWhile (\<lambda>c. c = LF) (rev s))"

definition blob_sha1 :: "(string \<Rightarrow> string) \<Rightarrow> string \<Rightarrow> string" where
  "blob_sha1 S data = S (''blob '' @ show_nat (length data) @ NUL @ data)"

definition diff_identity :: "(string \<Rightarrow> string) \<Rightarrow> string \<Rightarrow> string" where
  "diff_identity S data = blob_sha1 S (rstrip_nl data)"

subsection \<open>The base\<close>

record base =
  b_ref :: string
  b_sha :: string
  b_warning :: "string option"

definition main_refs :: "string list" where
  "main_refs = [''github/main'', ''origin/main'', ''main'']"

text \<open>The loop over the candidates: the first that resolves, or the empty string.\<close>

fun first_ref :: "git \<Rightarrow> string list \<Rightarrow> string + string" where
  "first_ref g [] = Inr []"
| "first_ref g (cand # cands) =
     ebind (run_git g [0, 1] [''rev-parse'', ''--verify'', ''-q'', cand]) (\<lambda>(rc, _).
       if rc = 0 then Inr cand else first_ref g cands)"

definition merge_base :: "git \<Rightarrow> string \<Rightarrow> string \<Rightarrow> string + string" where
  "merge_base g ref tip =
     ebind (run_git g [0, 1, 128] [''merge-base'', ref, tip]) (\<lambda>(rc, out).
       Inr (if rc = 0 then strip (g_decode g out) else []))"

definition fallback_warning :: "string \<Rightarrow> string" where
  "fallback_warning ref =
     ''no main ref (github/main|origin/main|main) with a merge-base found; ''
     @ ''reviewing '' @ ref @ ''..HEAD + local edits only -- a multi-commit branch may be ''
     @ ''under-reviewed''"

definition ref_fallback_warning :: "string \<Rightarrow> string \<Rightarrow> string" where
  "ref_fallback_warning ref oid =
     ''no main ref (github/main|origin/main|main) with a merge-base found; ''
     @ ''reviewing '' @ ref @ ''..'' @ oid @ '' only -- a multi-commit branch may be ''
     @ ''under-reviewed''"

text \<open>\<open>resolve_base\<close> and \<open>resolve_ref_base\<close> differ in the tip and in the warning.\<close>

definition resolve_from :: "git \<Rightarrow> string \<Rightarrow> (string \<Rightarrow> string) \<Rightarrow> string + base" where
  "resolve_from g tip warn =
     ebind (first_ref g main_refs) (\<lambda>base_ref.
     ebind (if base_ref \<noteq> [] then merge_base g base_ref tip else Inr []) (\<lambda>sha.
       if sha \<noteq> [] then Inr \<lparr>b_ref = base_ref, b_sha = sha, b_warning = None\<rparr>
       else
         let parent_rev = tip @ ''^'' in
         ebind (run_git g [0, 1, 128] [''rev-parse'', ''--verify'', ''-q'', parent_rev]) (\<lambda>(rc, out).
           if rc = 0
           then Inr \<lparr>b_ref = parent_rev, b_sha = strip (g_decode g out), b_warning = Some (warn parent_rev)\<rparr>
           else ebind (out_text g [''rev-parse'', tip]) (\<lambda>sha.
             Inr \<lparr>b_ref = tip, b_sha = sha, b_warning = Some (warn tip)\<rparr>))))"

definition resolve_base :: "git \<Rightarrow> string + base" where
  "resolve_base g = resolve_from g ''HEAD'' fallback_warning"

definition resolve_ref_base :: "git \<Rightarrow> string \<Rightarrow> string + base" where
  "resolve_ref_base g oid = resolve_from g oid (\<lambda>ref. ref_fallback_warning ref oid)"

subsection \<open>The captured change\<close>

record diff =
  d_data :: string
  d_files :: "string list"
  d_statuses :: "(string \<times> string) list"
  d_truncated_untracked :: bool

text \<open>\<open>_paths\<close>: split at the NUL bytes.\<close>

fun split_nul :: "string \<Rightarrow> string \<Rightarrow> string list" where
  "split_nul cur [] = [cur]"
| "split_nul cur (c # cs) = (if c = CHR 0x00 then cur # split_nul [] cs else split_nul (cur @ [c]) cs)"

definition paths :: "string \<Rightarrow> string list" where
  "paths raw = split_nul [] raw"

definition diff_flags :: "string list" where
  "diff_flags = [''--no-ext-diff'', ''--no-textconv'']"

definition prefix_flags :: "string list" where
  "prefix_flags = [''--src-prefix=a/'', ''--dst-prefix=b/'']"

definition detection_flags :: "string list" where
  "detection_flags = [''-M'', ''-C'', ''--find-copies-harder'', ''-l0'']"

text \<open>The loop of \<open>_tracked_statuses\<close>; an index out of range raises.\<close>

fun read_statuses ::
    "bool \<Rightarrow> (string \<times> string) list \<Rightarrow> string list \<Rightarrow> string + (string \<times> string) list" where
  "read_statuses renames acc [] = Inr acc"
| "read_statuses renames acc (tok # toks) =
     (if tok = [] then Inr acc
      else let st = take 1 tok in
      if st = ''R'' \<or> st = ''C'' then
        (case toks of
           old # new # rest \<Rightarrow>
             read_statuses renames
               (if renames then AList.update old st (AList.update new st acc) else AList.update new st acc) rest
         | _ \<Rightarrow> Inl ''IndexError'')
      else (case toks of path # rest \<Rightarrow> read_statuses renames (AList.update path st acc) rest
         | [] \<Rightarrow> Inl ''IndexError''))"

definition tracked_statuses ::
    "git \<Rightarrow> bool \<Rightarrow> string \<Rightarrow> string list \<Rightarrow> string + (string \<times> string) list" where
  "tracked_statuses g renames base_sha other =
     ebind (run_git g [0] ([''diff''] @ diff_flags @ (if renames then detection_flags else [])
         @ [''--name-status'', ''-z'', base_sha] @ other))
       (\<lambda>(rc, out). read_statuses renames [] (paths out))"

text \<open>The loop over the untracked files: the bytes of their diffs and the paths that gave any.\<close>

fun untracked ::
    "git \<Rightarrow> string list \<Rightarrow> string list \<Rightarrow> string + string \<times> string list" where
  "untracked g prefixes [] = Inr ([], [])"
| "untracked g prefixes (f # fs) =
     (if \<not> g_is_file g f then untracked g prefixes fs
      else ebind (run_git g [0, 1] ([''--no-pager'', ''diff''] @ diff_flags @ prefixes
             @ [''--no-index'', ''--'', ''/dev/null'', f])) (\<lambda>(rc, out).
        if out = [] then untracked g prefixes fs
        else ebind (untracked g prefixes fs) (\<lambda>(udiff, files). Inr (out @ udiff, f # files))))"

definition join_sections :: "string \<Rightarrow> string \<Rightarrow> string" where
  "join_sections tracked udiff =
     (let data = rstrip_nl tracked; u = rstrip_nl udiff in if u \<noteq> [] then data @ [LF] @ u else data)"

text \<open>The statuses dictionary gives the files of the tracked part in its order. (Git and the
  loop above never see a path twice: an untracked path is not tracked.)\<close>

definition capture_diff ::
    "git \<Rightarrow> string \<Rightarrow> nat \<Rightarrow> bool \<Rightarrow> bool \<Rightarrow> string + diff" where
  "capture_diff g base_sha untracked_max renames stable_prefixes =
     (let prefixes = (if stable_prefixes then prefix_flags else []);
          detection = (if renames then detection_flags else []) in
      ebind (out_text g [''rev-parse'', ''--show-toplevel'']) (\<lambda>_.
      ebind (run_git g [0] ([''--no-pager'', ''diff''] @ diff_flags @ prefixes @ detection @ [base_sha])) (\<lambda>(rc, tracked).
      ebind (tracked_statuses g renames base_sha []) (\<lambda>statuses.
      ebind (run_git g [0] [''ls-files'', ''--others'', ''--exclude-standard'', ''-z'']) (\<lambda>(rc', listing).
      let all_untracked = filter (\<lambda>f. f \<noteq> []) (paths listing) in
      ebind (untracked g prefixes (take untracked_max all_untracked)) (\<lambda>(udiff, ufiles).
      Inr \<lparr>d_data = join_sections tracked udiff,
           d_files = map fst statuses @ ufiles,
           d_statuses = fold (\<lambda>f st. AList.update f ''A'' st) ufiles statuses,
           d_truncated_untracked = untracked_max < length all_untracked\<rparr>))))))"

definition current_branch :: "git \<Rightarrow> string + string" where
  "current_branch g = out_text g [''rev-parse'', ''--abbrev-ref'', ''HEAD'']"

subsection \<open>Trailing newlines\<close>

lemma rstrip_nl_idem [simp]: "rstrip_nl (rstrip_nl s) = rstrip_nl s"
  by (simp add: rstrip_nl_def)

lemma rstrip_nl_append: "rstrip_nl (s @ replicate n LF) = rstrip_nl s"
  by (simp add: rstrip_nl_def dropWhile_append)

lemma rstrip_nl_last: "rstrip_nl s \<noteq> [] \<Longrightarrow> last (rstrip_nl s) \<noteq> LF"
  unfolding rstrip_nl_def using hd_dropWhile [of "\<lambda>c. c = LF" "rev s"] by (simp add: last_rev)

lemma rstrip_nl_fixed: "s = [] \<or> last s \<noteq> LF \<Longrightarrow> rstrip_nl s = s"
  by (cases s rule: rev_cases) (auto simp: rstrip_nl_def)

lemma join_sections_fixed: "rstrip_nl (join_sections t u) = join_sections t u"
proof (cases "rstrip_nl u = []")
  case True
  then show ?thesis by (simp add: join_sections_def)
next
  case False
  then have "last (join_sections t u) \<noteq> LF"
    using rstrip_nl_last [OF False] by (simp add: join_sections_def)
  then show ?thesis by (rule rstrip_nl_fixed [OF disjI2])
qed

lemma first_ref_cases:
  "first_ref g cands = Inr r \<Longrightarrow> r = [] \<or> r \<in> set cands"
  by (induction g cands rule: first_ref.induct) (auto simp: err_iffs split: if_splits)

lemma first_ref_resolves:
  "first_ref g cands = Inr r \<Longrightarrow> [] \<notin> set cands \<Longrightarrow> r \<noteq> [] \<Longrightarrow>
    \<exists>before after out. cands = before @ r # after
      \<and> g_call g [''rev-parse'', ''--verify'', ''-q'', r] = Inr (0, out)
      \<and> (\<forall>c \<in> set before. \<exists>out. g_call g [''rev-parse'', ''--verify'', ''-q'', c] = Inr (1, out))"
proof (induction g cands rule: first_ref.induct)
  case (2 g cand cands)
  from "2.prems"(1) obtain rc out where rc: "g_call g [''rev-parse'', ''--verify'', ''-q'', cand] = Inr (rc, out)"
    "rc = 0 \<or> rc = 1" and rest: "(if rc = 0 then Inr cand else first_ref g cands) = Inr r"
    by (auto simp: err_iffs run_git_def split: if_splits)
  show ?case
  proof (cases "rc = 0")
    case True
    with rc rest show ?thesis by (intro exI [of _ "[]"] exI [of _ cands] exI [of _ out]) auto
  next
    case False
    then have "rc = 1" "first_ref g cands = Inr r" using rc rest by auto
    moreover from this "2.prems" rc obtain before after out' where
      "cands = before @ r # after" "g_call g [''rev-parse'', ''--verify'', ''-q'', r] = Inr (0, out')"
      "\<forall>c \<in> set before. \<exists>out. g_call g [''rev-parse'', ''--verify'', ''-q'', c] = Inr (1, out)"
      using "2.IH" [of 1] by (auto simp: run_git_def)
    ultimately show ?thesis using rc by (intro exI [of _ "cand # before"] exI [of _ after] exI [of _ out']) auto
  qed
qed simp

subsection \<open>Properties\<close>

text \<open>The identity of a change depends on its content alone: any number of
  trailing newlines leaves it unchanged, what \<open>capture_diff\<close> returns carries none, and the
  gate's test for an empty change agrees with the identity it computes.\<close>

theorem identity_ignores_trailing_newlines:
  "diff_identity S (data @ replicate n LF) = diff_identity S data
   \<and> diff_identity S (join_sections tracked udiff) = blob_sha1 S (join_sections tracked udiff)
   \<and> (rstrip_nl (join_sections tracked udiff) = [] \<longleftrightarrow> join_sections tracked udiff = [])"
  by (simp add: diff_identity_def rstrip_nl_append join_sections_fixed)

text \<open>A base without a warning is a merge base with the first main reference
  that exists, whatever the later candidates are; every other outcome carries a warning.\<close>

theorem resolve_base_sound:
  assumes "resolve_base g = Inr b"
  shows "case b_warning b of
      None \<Rightarrow> (\<exists>before after out rc. main_refs = before @ b_ref b # after
        \<and> (\<forall>c \<in> set before. \<exists>out. g_call g [''rev-parse'', ''--verify'', ''-q'', c] = Inr (1, out))
        \<and> g_call g [''merge-base'', b_ref b, ''HEAD''] = Inr (0, out)
        \<and> b_sha b = strip (g_decode g out) \<and> b_sha b \<noteq> [])
    | Some msg \<Rightarrow> b_ref b \<in> {''HEAD^'', ''HEAD''} \<and> msg = fallback_warning (b_ref b)"
proof -
  from assms obtain base_ref sha where f: "first_ref g main_refs = Inr base_ref"
    and m: "(if base_ref \<noteq> [] then merge_base g base_ref ''HEAD'' else Inr []) = Inr sha"
    and r: "(if sha \<noteq> [] then Inr \<lparr>b_ref = base_ref, b_sha = sha, b_warning = None\<rparr>
       else
         let parent_rev = ''HEAD'' @ ''^'' in
         ebind (run_git g [0, 1, 128] [''rev-parse'', ''--verify'', ''-q'', parent_rev]) (\<lambda>(rc, out).
           if rc = 0
           then Inr \<lparr>b_ref = parent_rev, b_sha = strip (g_decode g out), b_warning = Some (fallback_warning parent_rev)\<rparr>
           else ebind (out_text g [''rev-parse'', ''HEAD'']) (\<lambda>sha.
             Inr \<lparr>b_ref = ''HEAD'', b_sha = sha, b_warning = Some (fallback_warning ''HEAD'')\<rparr>))) = Inr b"
    unfolding resolve_base_def resolve_from_def ebind_Inr_iff by blast
  show ?thesis
  proof (cases "sha = []")
    case True
    with r show ?thesis by (auto simp: err_iffs Let_def split: if_splits)
  next
    case False
    with m have ref: "base_ref \<noteq> []" and mb: "merge_base g base_ref ''HEAD'' = Inr sha" by (auto split: if_splits)
    from mb False obtain out where "g_call g [''merge-base'', base_ref, ''HEAD''] = Inr (0, out)"
      "sha = strip (g_decode g out)"
      by (auto simp: merge_base_def err_iffs run_git_def split: if_splits)
    moreover have "[] \<notin> set main_refs" by (simp add: main_refs_def)
    moreover from r False have "b = \<lparr>b_ref = base_ref, b_sha = sha, b_warning = None\<rparr>" by simp
    ultimately show ?thesis using first_ref_resolves [OF f] ref False by auto
  qed
qed

definition sample_git :: git where
  "sample_git = \<lparr>g_call = (\<lambda>args. if hd args = ''merge-base'' then Inr (0, ''b5'' @ [LF])
       else if args = [''rev-parse'', ''--verify'', ''-q'', ''github/main''] then Inr (1, [])
       else Inr (0, [])),
     g_decode = (\<lambda>s. s), g_is_file = (\<lambda>_. True)\<rparr>"

lemma sample_base: "resolve_base sample_git = Inr \<lparr>b_ref = ''origin/main'', b_sha = ''b5'', b_warning = None\<rparr>"
  by (simp add: resolve_base_def resolve_from_def main_refs_def run_git_def sample_git_def merge_base_def
      strip_def lstrip_def is_space_def)

theorem resolve_base_sound_witness:
  "\<exists>out. g_call sample_git [''merge-base'', ''origin/main'', ''HEAD''] = Inr (0, out)"
  using resolve_base_sound [OF sample_base] by auto

end
