(* ===== verification/Gate.thy ===== *)
theory Gate
  imports ReviewProps GitIdentity
begin

section \<open>Gate: may this change be pushed?\<close>

text \<open>
  Models \<open>gate.py\<close>: \<open>_gate\<close> and \<open>run_gate\<close> over the git view of theory
  \<open>GitIdentity\<close>, the reviews table of theory \<open>Reviews\<close> and the event stream of theory
  \<open>Ledger\<close>. Every message is the source's; the one character outside the code points 0 to
  255 (the dash of the bypass message) is written as its UTF-8 bytes. What can go wrong outside
  (git failing, the store not readable, the decision not recordable) is part of the view, as the
  \<open>repr\<close> of the exception raised.
\<close>

declare load_valid_artifact.simps(1) [simp del]

subsection \<open>State and environment\<close>

record gate_event =
  ge_at :: string
  ge_repo :: string
  ge_branch :: "string option"
  ge_hash :: "string option"
  ge_outcome :: string
  ge_code :: nat
  ge_note :: string

record gate_store =
  gs_reviews :: reviews_db
  gs_ledger :: ledger
  gs_events :: "gate_event list"

record gate_view =
  gv_git :: git
  gv_repo :: string
  gv_untracked_max :: nat
  gv_now :: string
  gv_skip :: "string option"         \<comment> \<open>the variable \<open>SKODUN_GATE_SKIP\<close>\<close>
  gv_read_fault :: "string option"   \<comment> \<open>reading the store raises\<close>
  gv_log_fault :: "string option"    \<comment> \<open>\<open>log_gate_event\<close> raises\<close>

record gate_result =
  gr_code :: nat
  gr_message :: string
  gr_hash :: "string option"

datatype gate_exn = BadArtifact artifact_error | Unexpected string

definition em_dash :: string where
  "em_dash = [CHR 0xE2, CHR 0x80, CHR 0x94]"

definition outcome_of :: "nat \<Rightarrow> string" where
  "outcome_of n = (if n = 0 then ''pass'' else if n = 1 then ''open-findings'' else ''no-review'')"

subsection \<open>The decision\<close>

definition result :: "nat \<Rightarrow> string \<Rightarrow> string \<Rightarrow> gate_result" where
  "result n message hash = \<lparr>gr_code = n, gr_message = message, gr_hash = Some hash\<rparr>"

text \<open>From the review found to the verdict: the re-assertion of the artifact, the rebase check
  and the count of findings that are not cleared.\<close>

definition judge ::
    "(string \<Rightarrow> string) \<Rightarrow> string \<Rightarrow> base \<Rightarrow> string \<Rightarrow> ledger \<Rightarrow> artifact \<Rightarrow> gate_result" where
  "judge H pre b dh l a =
     (let review = art_dict a in
      case (dget review ''parse_ok'', dget review ''degraded'', dget review ''diff_truncated'',
            dget review ''trustworthy'') of
        (PBool p, PBool d, PBool t, PBool own) \<Rightarrow>
          let recomputed = is_trustworthy p d t in
          if \<not> recomputed \<or> own \<noteq> recomputed then
            result 2 (pre @ ''SKODUN GATE: FAIL(2) index and artifact ''
              @ ''disagree on trust for review '' @ art_id a
              @ '' -- the archive is inconsistent; re-run the review'') dh
          else if dget review ''diff_hash'' \<noteq> PStr dh then
            result 2 (pre @ ''SKODUN GATE: FAIL(2) index and artifact ''
              @ ''disagree on diff_hash for review '' @ art_id a
              @ '' -- the archive is inconsistent; re-run the review'') dh
          else if art_base a \<noteq> b_sha b then
            result 2 (pre @ ''SKODUN GATE: FAIL(2) base_sha mismatch on review '' @ art_id a
              @ '': taken against '' @ take 12 (art_base a) @ '', current base is ''
              @ take 12 (b_sha b) @ '' (rebase detected) -- re-review required'') dh
          else
            let triaged = triage_for l (art_branch a) (art_base a);
                remaining = filter (\<lambda>f. triaged (key_of_finding H f) = None) (art_findings a);
                tot = length (art_findings a) in
            if remaining \<noteq> [] then
              result 1 (pre @ ''SKODUN GATE: FAIL(1) '' @ show_nat (length remaining)
                @ '' finding(s) open on review '' @ art_id a) dh
            else
              result 0 (pre @ ''SKODUN GATE: PASS ''
                @ (if tot \<noteq> 0 then show_nat tot @ '' finding(s), all triaged'' else ''0 findings'')
                @ '' on review '' @ art_id a @ '' for diff_hash='' @ take 12 dh) dh
      | _ \<Rightarrow> result 2 (pre @ ''SKODUN GATE: FAIL(2) artifact trust fields ''
              @ ''are not booleans on review '' @ art_id a) dh)"

definition notes_of :: "gate_view \<Rightarrow> base \<Rightarrow> diff \<Rightarrow> string" where
  "notes_of gv b d =
     concat (map (\<lambda>n. ''SKODUN GATE: '' @ n @ [LF])
       ((case b_warning b of None \<Rightarrow> [] | Some m \<Rightarrow> [''identity note: '' @ m])
        @ (if d_truncated_untracked d
           then [''identity note: untracked scan capped at '' @ show_nat (gv_untracked_max gv)] else [])))"

definition or_raise :: "string + 'a \<Rightarrow> gate_exn + 'a" where
  "or_raise r = map_sum Unexpected id r"

text \<open>\<open>_gate(store, repo, cfg)\<close>: \<open>S\<close> is SHA-1, \<open>H\<close> the hash of the finding keys.\<close>

definition gate ::
    "(string \<Rightarrow> string) \<Rightarrow> (string \<Rightarrow> string) \<Rightarrow> world \<Rightarrow> gate_view \<Rightarrow> gate_store \<Rightarrow> gate_exn + gate_result" where
  "gate S H w gv st =
     ebind (or_raise (resolve_base (gv_git gv))) (\<lambda>b.
     ebind (or_raise (capture_diff (gv_git gv) (b_sha b) (gv_untracked_max gv) False False)) (\<lambda>d.
     let pre = notes_of gv b d in
     if rstrip_nl (d_data d) = [] then
       Inr (result 0 (pre @ ''SKODUN GATE: PASS no outgoing change vs base -- nothing to review'') [])
     else
       let dh = diff_identity S (d_data d) in
       ebind (case gv_read_fault gv of None \<Rightarrow> Inr () | Some e \<Rightarrow> Inl (Unexpected e)) (\<lambda>_.
       case latest_trustworthy_for w dh (gs_reviews st) of
         None \<Rightarrow> Inr (result 2 (pre @ ''SKODUN GATE: FAIL(2) no trustworthy review ''
             @ ''covers diff_hash='' @ take 12 dh @ '' -- run a review before pushing'') dh)
       | Some review \<Rightarrow>
           (case load_valid_artifact (PDict review) of
              Inl e \<Rightarrow> Inl (BadArtifact e)
            | Inr a \<Rightarrow> Inr (judge H pre b dh (gs_ledger st) a)))))"

subsection \<open>Recording it\<close>

text \<open>\<open>_record(result, outcome)\<close>: the result returned and the store afterwards.\<close>

definition record_result ::
    "gate_view \<Rightarrow> gate_result \<Rightarrow> string \<Rightarrow> gate_store \<Rightarrow> gate_result \<times> gate_store" where
  "record_result gv r outcome st =
     (case gv_log_fault gv of
        Some e \<Rightarrow>
          (\<lparr>gr_code = 2,
            gr_message = gr_message r @ [LF] @ ''SKODUN GATE: FAIL(2) could not record gate event: '' @ e,
            gr_hash = gr_hash r\<rparr>, st)
      | None \<Rightarrow>
          (r, st\<lparr>gs_events := gs_events st @
            [\<lparr>ge_at = gv_now gv, ge_repo = gv_repo gv,
              ge_branch = (case current_branch (gv_git gv) of Inl _ \<Rightarrow> None | Inr br \<Rightarrow> Some br),
              ge_hash = gr_hash r, ge_outcome = outcome, ge_code = gr_code r,
              ge_note = flatten_lines (gr_message r)\<rparr>]\<rparr>))"

definition run_gate ::
    "(string \<Rightarrow> string) \<Rightarrow> (string \<Rightarrow> string) \<Rightarrow> world \<Rightarrow> gate_view \<Rightarrow> gate_store \<Rightarrow> gate_result \<times> gate_store" where
  "run_gate S H w gv st =
     (if gv_skip gv = Some ''1'' then
        record_result gv \<lparr>gr_code = 0, gr_message = ''SKODUN GATE: SKIPPED '' @ em_dash @ '' recorded as a decision'',
          gr_hash = None\<rparr> ''skipped'' st
      else case gate S H w gv st of
        Inr r \<Rightarrow> record_result gv r (outcome_of (gr_code r)) st
      | Inl (BadArtifact e) \<Rightarrow>
          record_result gv \<lparr>gr_code = 2, gr_message = ''SKODUN GATE: FAIL(2) invalid artifact: '' @ artifact_text e,
            gr_hash = None\<rparr> ''error'' st
      | Inl (Unexpected e) \<Rightarrow>
          record_result gv \<lparr>gr_code = 2, gr_message = ''SKODUN GATE: FAIL(2) internal error: '' @ e,
            gr_hash = None\<rparr> ''error'' st)"

subsection \<open>What a verdict says\<close>

text \<open>Specification: the findings of an artifact that nobody has cleared.\<close>

definition open_of :: "(string \<Rightarrow> string) \<Rightarrow> ledger \<Rightarrow> artifact \<Rightarrow> pydict list" where
  "open_of H l a = filter (\<lambda>f. \<not> cleared l (art_branch a) (art_base a) (key_of_finding H f)) (art_findings a)"

text \<open>An artifact that certifies the content \<open>dh\<close> against the base \<open>b\<close>.\<close>

definition certifies :: "artifact \<Rightarrow> string \<Rightarrow> string \<Rightarrow> bool" where
  "certifies a dh b \<longleftrightarrow> dget (art_dict a) ''parse_ok'' = PBool True
     \<and> dget (art_dict a) ''degraded'' = PBool False \<and> dget (art_dict a) ''diff_truncated'' = PBool False
     \<and> dget (art_dict a) ''trustworthy'' = PBool True \<and> dget (art_dict a) ''diff_hash'' = PStr dh
     \<and> art_base a = b"

lemma judge_code:
  "gr_code (judge H pre b dh l a) =
    (if certifies a dh (b_sha b) then (if open_of H l a = [] then 0 else 1) else 2)"
proof -
  have remaining: "filter (\<lambda>f. triage_for l (art_branch a) (art_base a) (key_of_finding H f) = None) (art_findings a)
      = open_of H l a"
    by (simp add: open_of_def cleared_def)
  show ?thesis
  proof (cases "is_bool (dget (art_dict a) ''parse_ok'') \<and> is_bool (dget (art_dict a) ''degraded'')
      \<and> is_bool (dget (art_dict a) ''diff_truncated'') \<and> is_bool (dget (art_dict a) ''trustworthy'')")
    case True
    then obtain p d t own where "dget (art_dict a) ''parse_ok'' = PBool p" "dget (art_dict a) ''degraded'' = PBool d"
      "dget (art_dict a) ''diff_truncated'' = PBool t" "dget (art_dict a) ''trustworthy'' = PBool own"
      by (auto elim!: is_bool_E)
    then show ?thesis
      by (auto simp: judge_def certifies_def is_trustworthy_def result_def Let_def simp flip: remaining)
  next
    case False
    then have "\<not> certifies a dh (b_sha b)" by (auto simp: certifies_def)
    moreover have "gr_code (judge H pre b dh l a) = 2"
      using False unfolding judge_def
      by (cases "dget (art_dict a) ''parse_ok''"; simp add: result_def;
          cases "dget (art_dict a) ''degraded''"; simp add: result_def;
          cases "dget (art_dict a) ''diff_truncated''"; simp add: result_def;
          cases "dget (art_dict a) ''trustworthy''"; simp add: result_def)
    ultimately show ?thesis by simp
  qed
qed

lemma or_raise_Inr [simp]: "or_raise r = Inr x \<longleftrightarrow> r = Inr x"
  by (cases r) (auto simp: or_raise_def)

lemma or_raise_Inl: "or_raise r = Inl e \<longleftrightarrow> (\<exists>x. r = Inl x \<and> e = Unexpected x)"
  by (cases r) (auto simp: or_raise_def)

text \<open>The change a gate run is about: the base and the captured diff.\<close>

definition outgoing :: "gate_view \<Rightarrow> base \<Rightarrow> diff \<Rightarrow> bool" where
  "outgoing gv b d \<longleftrightarrow> resolve_base (gv_git gv) = Inr b
     \<and> capture_diff (gv_git gv) (b_sha b) (gv_untracked_max gv) False False = Inr d"

lemma gate_Inr:
  assumes "gate S H w gv st = Inr r"
  obtains (empty) b d where "outgoing gv b d" "rstrip_nl (d_data d) = []" "gr_code r = 0" "gr_hash r = Some []"
  | (missing) b d where "outgoing gv b d" "gr_code r = 2"
      "latest_trustworthy_for w (diff_identity S (d_data d)) (gs_reviews st) = None"
  | (found) b d review a where "outgoing gv b d" "rstrip_nl (d_data d) \<noteq> []"
      "latest_trustworthy_for w (diff_identity S (d_data d)) (gs_reviews st) = Some review"
      "load_valid_artifact (PDict review) = Inr a"
      "r = judge H (notes_of gv b d) b (diff_identity S (d_data d)) (gs_ledger st) a"
proof -
  from assms obtain b d where out: "outgoing gv b d" and rest:
    "(let pre = notes_of gv b d in
     if rstrip_nl (d_data d) = [] then
       Inr (result 0 (pre @ ''SKODUN GATE: PASS no outgoing change vs base -- nothing to review'') [])
     else
       let dh = diff_identity S (d_data d) in
       ebind (case gv_read_fault gv of None \<Rightarrow> Inr () | Some e \<Rightarrow> Inl (Unexpected e)) (\<lambda>_.
       case latest_trustworthy_for w dh (gs_reviews st) of
         None \<Rightarrow> Inr (result 2 (pre @ ''SKODUN GATE: FAIL(2) no trustworthy review ''
             @ ''covers diff_hash='' @ take 12 dh @ '' -- run a review before pushing'') dh)
       | Some review \<Rightarrow>
           (case load_valid_artifact (PDict review) of
              Inl e \<Rightarrow> Inl (BadArtifact e)
            | Inr a \<Rightarrow> Inr (judge H pre b dh (gs_ledger st) a)))) = Inr r"
    unfolding gate_def ebind_Inr_iff or_raise_Inr outgoing_def by blast
  show thesis
  proof (cases "rstrip_nl (d_data d) = []")
    case True
    with out rest empty show thesis by (auto simp: result_def)
  next
    case False
    with rest obtain dh where dh: "dh = diff_identity S (d_data d)" and r:
      "(case latest_trustworthy_for w dh (gs_reviews st) of
         None \<Rightarrow> Inr (result 2 (notes_of gv b d @ ''SKODUN GATE: FAIL(2) no trustworthy review ''
             @ ''covers diff_hash='' @ take 12 dh @ '' -- run a review before pushing'') dh)
       | Some review \<Rightarrow>
           (case load_valid_artifact (PDict review) of
              Inl e \<Rightarrow> Inl (BadArtifact e)
            | Inr a \<Rightarrow> Inr (judge H (notes_of gv b d) b dh (gs_ledger st) a))) = Inr r"
      by (auto simp: Let_def err_iffs)
    show thesis
    proof (cases "latest_trustworthy_for w dh (gs_reviews st)")
      case None
      with out r dh missing show thesis by (auto simp: result_def)
    next
      case (Some review)
      with r obtain a where "load_valid_artifact (PDict review) = Inr a"
        "r = judge H (notes_of gv b d) b dh (gs_ledger st) a"
        by (auto split: sum.splits)
      with out False Some dh found show thesis by simp
    qed
  qed
qed

lemma record_result_code:
  "gr_code (fst (record_result gv r outcome st)) = (if gv_log_fault gv = None then gr_code r else 2)"
  by (simp add: record_result_def split: option.split)

lemma run_gate_code:
  "gr_code (fst (run_gate S H w gv st)) =
    (if gv_log_fault gv \<noteq> None then 2
     else if gv_skip gv = Some ''1'' then 0
     else case gate S H w gv st of Inr r \<Rightarrow> gr_code r | Inl _ \<Rightarrow> 2)"
  by (simp add: run_gate_def record_result_code split: sum.split gate_exn.split)

lemma run_gate_unrecorded: "gv_log_fault gv \<noteq> None \<Longrightarrow> snd (run_gate S H w gv st) = st"
  by (auto simp: run_gate_def record_result_def split: sum.split gate_exn.split)

lemma run_gate_event:
  "gv_log_fault gv = None \<Longrightarrow>
    \<exists>e. snd (run_gate S H w gv st) = st\<lparr>gs_events := gs_events st @ [e]\<rparr>
      \<and> ge_code e = gr_code (fst (run_gate S H w gv st)) \<and> ge_hash e = gr_hash (fst (run_gate S H w gv st))
      \<and> ge_note e = flatten_lines (gr_message (fst (run_gate S H w gv st)))
      \<and> ge_outcome e = (if gv_skip gv = Some ''1'' then ''skipped''
          else case gate S H w gv st of Inl _ \<Rightarrow> ''error'' | Inr r \<Rightarrow> outcome_of (gr_code r))"
  by (auto simp: run_gate_def record_result_def split: sum.split gate_exn.split)

subsection \<open>Properties\<close>

text \<open>SQLite answers \<open>ORDER BY reviewed_at DESC LIMIT 1\<close> with a row of the selection, and with
  none only if there is none.\<close>

definition picks_a_row :: "world \<Rightarrow> bool" where
  "picks_a_row w \<longleftrightarrow> (\<forall>rs. case w_newest w rs of None \<Rightarrow> rs = [] | Some r \<Rightarrow> r \<in> set rs)"

lemma latest_row:
  assumes "latest_trustworthy_for w dh db = Some art" and "picks_a_row w"
  obtains r where "r \<in> set (rv_rows db)" "col r ''diff_hash'' = PStr dh" "col r ''trustworthy'' = PInt 1" "r_art r = art"
proof -
  let ?rs = "filter (\<lambda>r. col r ''diff_hash'' = PStr dh \<and> col r ''trustworthy'' = PInt 1) (rv_rows db)"
  from assms(1) obtain r where r: "w_newest w ?rs = Some r" "r_art r = art"
    by (auto simp: latest_trustworthy_for_def)
  from assms(2) have "case w_newest w ?rs of None \<Rightarrow> ?rs = [] | Some r \<Rightarrow> r \<in> set ?rs"
    unfolding picks_a_row_def by (rule spec)
  with r have "r \<in> set ?rs" by simp
  then show thesis using that [of r] r(2) by simp
qed

text \<open>C1 (safety). A pass means what it says. When the gate is not bypassed and answers 0, then
  either the change against the base is empty, or the store holds a review of exactly this
  content whose artifact is well formed, parsed, not degraded, not truncated, taken against
  the current base, and every one of its findings has been cleared; and the decision was
  recorded.\<close>

theorem gate_pass_sound:
  assumes "gr_code (fst (run_gate S H w gv st)) = 0" and "gv_skip gv \<noteq> Some ''1''" and "picks_a_row w"
  shows "\<exists>b d. outgoing gv b d
    \<and> (rstrip_nl (d_data d) = []
       \<or> (\<exists>r a. r \<in> set (rv_rows (gs_reviews st)) \<and> load_valid_artifact (PDict (r_art r)) = Inr a
          \<and> certifies a (diff_identity S (d_data d)) (b_sha b)
          \<and> (\<forall>f \<in> set (art_findings a). cleared (gs_ledger st) (art_branch a) (art_base a) (key_of_finding H f))))
    \<and> (\<exists>e. gs_events (snd (run_gate S H w gv st)) = gs_events st @ [e] \<and> ge_code e = 0)"
proof -
  from assms(1,2) have log: "gv_log_fault gv = None" and "\<exists>r. gate S H w gv st = Inr r \<and> gr_code r = 0"
    by (auto simp: run_gate_code split: if_splits sum.splits)
  then obtain r where r: "gate S H w gv st = Inr r" "gr_code r = 0" by blast
  have ev: "\<exists>e. gs_events (snd (run_gate S H w gv st)) = gs_events st @ [e] \<and> ge_code e = 0"
    using r log assms(2) by (simp add: run_gate_def record_result_def)
  from r(1) have "\<exists>b d. outgoing gv b d
    \<and> (rstrip_nl (d_data d) = []
       \<or> (\<exists>r a. r \<in> set (rv_rows (gs_reviews st)) \<and> load_valid_artifact (PDict (r_art r)) = Inr a
          \<and> certifies a (diff_identity S (d_data d)) (b_sha b)
          \<and> (\<forall>f \<in> set (art_findings a). cleared (gs_ledger st) (art_branch a) (art_base a) (key_of_finding H f))))"
  proof (cases rule: gate_Inr)
    case (empty b d)
    then show ?thesis by blast
  next
    case (missing b d)
    with r(2) show ?thesis by simp
  next
    case (found b d review a)
    from found(3) assms(3) obtain row where row: "row \<in> set (rv_rows (gs_reviews st))" "r_art row = review"
      by (rule latest_row)
    have "certifies a (diff_identity S (d_data d)) (b_sha b) \<and> open_of H (gs_ledger st) a = []"
      using r(2) unfolding found(5) judge_code by (auto split: if_splits)
    then have "certifies a (diff_identity S (d_data d)) (b_sha b)
        \<and> (\<forall>f \<in> set (art_findings a). cleared (gs_ledger st) (art_branch a) (art_base a) (key_of_finding H f))"
      by (simp add: open_of_def filter_empty_conv)
    with found(1,4) row show ?thesis by blast
  qed
  with ev show ?thesis by blast
qed

text \<open>C18 (error). The exit contract and its record. The gate never raises and answers 0, 1 or 2. It answers 1
  only if findings really are open: on a certified, well-formed review of this content, at
  least one finding that nobody cleared. Every exception, in git, in the store, in the
  artifact or while recording, is 2. A decision that could not be recorded changes nothing in the
  store and certifies nothing, not even the bypass; every other run leaves exactly one event, with the code and the
  hash it answered, and names the bypass \<open>skipped\<close>, an exception \<open>error\<close> and any other outcome by its code.\<close>

theorem gate_exit_contract:
  "gr_code (fst (run_gate S H w gv st)) \<in> {0, 1, 2}
   \<and> (gr_code (fst (run_gate S H w gv st)) = 1 \<longrightarrow>
       (\<exists>b d review a f. outgoing gv b d
          \<and> latest_trustworthy_for w (diff_identity S (d_data d)) (gs_reviews st) = Some review
          \<and> load_valid_artifact (PDict review) = Inr a
          \<and> certifies a (diff_identity S (d_data d)) (b_sha b)
          \<and> f \<in> set (art_findings a)
          \<and> \<not> cleared (gs_ledger st) (art_branch a) (art_base a) (key_of_finding H f)))
   \<and> (gv_log_fault gv \<noteq> None \<longrightarrow> gr_code (fst (run_gate S H w gv st)) = 2 \<and> snd (run_gate S H w gv st) = st)
   \<and> (\<forall>e. gv_skip gv \<noteq> Some ''1'' \<longrightarrow> gate S H w gv st = Inl e \<longrightarrow> gr_code (fst (run_gate S H w gv st)) = 2)
   \<and> (gv_log_fault gv = None \<longrightarrow>
       (\<exists>e. snd (run_gate S H w gv st) = st\<lparr>gs_events := gs_events st @ [e]\<rparr>
          \<and> ge_code e = gr_code (fst (run_gate S H w gv st)) \<and> ge_hash e = gr_hash (fst (run_gate S H w gv st))
          \<and> ge_note e = flatten_lines (gr_message (fst (run_gate S H w gv st)))
          \<and> ge_outcome e = (if gv_skip gv = Some ''1'' then ''skipped''
              else case gate S H w gv st of Inl _ \<Rightarrow> ''error'' | Inr r \<Rightarrow> outcome_of (gr_code r))))"
proof -
  have inr: "gr_code r \<in> {0, 1, 2} \<and> (gr_code r = 1 \<longrightarrow>
       (\<exists>b d review a f. outgoing gv b d
          \<and> latest_trustworthy_for w (diff_identity S (d_data d)) (gs_reviews st) = Some review
          \<and> load_valid_artifact (PDict review) = Inr a
          \<and> certifies a (diff_identity S (d_data d)) (b_sha b)
          \<and> f \<in> set (art_findings a)
          \<and> \<not> cleared (gs_ledger st) (art_branch a) (art_base a) (key_of_finding H f)))"
    if "gate S H w gv st = Inr r" for r
    using that
  proof (cases rule: gate_Inr)
    case (found b d review a)
    have verdict: "gr_code r = (if certifies a (diff_identity S (d_data d)) (b_sha b)
        then (if open_of H (gs_ledger st) a = [] then 0 else 1) else 2)"
      unfolding found(5) judge_code by simp
    moreover have some_open: "\<exists>f. f \<in> set (art_findings a) \<and> \<not> cleared (gs_ledger st) (art_branch a) (art_base a) (key_of_finding H f)"
      if "open_of H (gs_ledger st) a \<noteq> []"
      using that by (auto simp: open_of_def filter_empty_conv)
    ultimately show ?thesis
    proof (cases "gr_code r = 1")
      case True
      with verdict have "certifies a (diff_identity S (d_data d)) (b_sha b)" "open_of H (gs_ledger st) a \<noteq> []"
        by (auto split: if_splits)
      with some_open found(1,3,4) True show ?thesis by blast
    next
      case False
      with verdict show ?thesis by (auto split: if_splits)
    qed
  qed auto
  show ?thesis
  proof (cases "gv_log_fault gv \<noteq> None \<or> gv_skip gv = Some ''1''")
    case True
    then show ?thesis using run_gate_event [of gv S H w st] by (auto simp: run_gate_code run_gate_unrecorded)
  next
    case False
    show ?thesis
    proof (cases "gate S H w gv st")
      case (Inl e)
      with False show ?thesis using run_gate_event [of gv S H w st] by (simp add: run_gate_code)
    next
      case (Inr r)
      with False inr [OF Inr] show ?thesis using run_gate_event [of gv S H w st] by (simp add: run_gate_code)
    qed
  qed
qed

text \<open>A run with no bypass and no fault of the store.\<close>

definition undisturbed :: "gate_view \<Rightarrow> bool" where
  "undisturbed gv \<longleftrightarrow> gv_skip gv \<noteq> Some ''1'' \<and> gv_log_fault gv = None \<and> gv_read_fault gv = None"

lemma run_gate_found:
  assumes "undisturbed gv" and "outgoing gv b d" and "rstrip_nl (d_data d) \<noteq> []"
    and "latest_trustworthy_for w (diff_identity S (d_data d)) (gs_reviews st) = Some review"
    and "load_valid_artifact (PDict review) = Inr a"
  shows "gr_code (fst (run_gate S H w gv st)) =
    (if certifies a (diff_identity S (d_data d)) (b_sha b)
     then (if open_of H (gs_ledger st) a = [] then 0 else 1) else 2)"
proof -
  have "gate S H w gv st = Inr (judge H (notes_of gv b d) b (diff_identity S (d_data d)) (gs_ledger st) a)"
    using assms by (simp add: gate_def or_raise_def outgoing_def undisturbed_def Let_def)
  then show ?thesis using assms(1) by (simp add: run_gate_code undisturbed_def judge_code)
qed

text \<open>The abstract policy. A push is in one of these situations, and each has its verdict. The policy knows nothing
  of the archive's index, of the trust fields or of messages: it sees whether a trustworthy review of the content is on
  record, and what became of its findings.\<close>

datatype situation =
    Bypassed | Unreadable | No_change | No_review | Malformed
  | Covered artifact base

definition verdict :: "(string \<Rightarrow> string) \<Rightarrow> ledger \<Rightarrow> situation \<Rightarrow> nat" where
  "verdict H l s =
     (case s of Bypassed \<Rightarrow> 0 | Unreadable \<Rightarrow> 2 | No_change \<Rightarrow> 0 | No_review \<Rightarrow> 2 | Malformed \<Rightarrow> 2
      | Covered a b \<Rightarrow>
          if art_base a \<noteq> b_sha b then 2
          else if \<forall>f \<in> set (art_findings a). cleared l (art_branch a) (art_base a) (key_of_finding H f) then 0 else 1)"

text \<open>The situation of a run, read off git and the rows of the archive.\<close>

definition on_record :: "string \<Rightarrow> gate_store \<Rightarrow> row list" where
  "on_record dh st = filter (\<lambda>r. col r ''diff_hash'' = PStr dh \<and> col r ''trustworthy'' = PInt 1) (rv_rows (gs_reviews st))"

definition situation_of :: "(string \<Rightarrow> string) \<Rightarrow> world \<Rightarrow> gate_view \<Rightarrow> gate_store \<Rightarrow> situation" where
  "situation_of S w gv st =
     (if gv_skip gv = Some ''1'' then Bypassed
      else case resolve_base (gv_git gv) of Inl _ \<Rightarrow> Unreadable
      | Inr b \<Rightarrow>
          (case capture_diff (gv_git gv) (b_sha b) (gv_untracked_max gv) False False of Inl _ \<Rightarrow> Unreadable
           | Inr d \<Rightarrow>
               if rstrip_nl (d_data d) = [] then No_change
               else if gv_read_fault gv \<noteq> None then Unreadable
               else case w_newest w (on_record (diff_identity S (d_data d)) st) of None \<Rightarrow> No_review
               | Some r \<Rightarrow> (case load_valid_artifact (PDict (r_art r)) of Inl _ \<Rightarrow> Malformed | Inr a \<Rightarrow> Covered a b)))"

lemma recorded_row:
  assumes "picks_a_row w" "w_newest w (on_record dh st) = Some r"
  shows "r \<in> set (rv_rows (gs_reviews st))" "col r ''diff_hash'' = PStr dh" "col r ''trustworthy'' = PInt 1"
proof -
  have "case w_newest w (on_record dh st) of None \<Rightarrow> on_record dh st = [] | Some r \<Rightarrow> r \<in> set (on_record dh st)"
    using assms(1) unfolding picks_a_row_def by (rule spec)
  then have "r \<in> set (on_record dh st)" using assms(2) by simp
  then show "r \<in> set (rv_rows (gs_reviews st))" "col r ''diff_hash'' = PStr dh" "col r ''trustworthy'' = PInt 1"
    by (auto simp: on_record_def)
qed

lemma judged_as_policy:
  assumes "db_ok (gs_reviews st)" "picks_a_row w" "w_newest w (on_record dh st) = Some r" "load_valid_artifact (PDict (r_art r)) = Inr a"
  shows "gr_code (judge H pre b dh (gs_ledger st) a) = verdict H (gs_ledger st) (Covered a b)"
proof -
  note row = recorded_row [OF assms(2,3)]
  have ok: "row_ok r" using assms(1) row(1) by (simp add: db_ok_def)
  have art: "art_dict a = r_art r" using assms(4) by (auto simp: load_valid_artifact_Inr)
  have "certifies a dh (b_sha b) \<longleftrightarrow> art_base a = b_sha b"
    using row_ok_trust [OF ok] row_ok_mirror [OF ok, of "''diff_hash''"] row(2,3) by (auto simp: certifies_def art)
  moreover have "open_of H (gs_ledger st) a = [] \<longleftrightarrow>
      (\<forall>f \<in> set (art_findings a). cleared (gs_ledger st) (art_branch a) (art_base a) (key_of_finding H f))"
    by (simp add: open_of_def filter_empty_conv)
  ultimately show ?thesis by (simp add: judge_code verdict_def)
qed

lemma latest_on_record: "latest_trustworthy_for w dh (gs_reviews st) = map_option r_art (w_newest w (on_record dh st))"
  by (simp add: latest_trustworthy_for_def on_record_def)

lemma gate_as_policy:
  assumes "db_ok (gs_reviews st)" "picks_a_row w" "gv_skip gv \<noteq> Some ''1''"
  shows "(case gate S H w gv st of Inr r \<Rightarrow> gr_code r | Inl _ \<Rightarrow> 2) = verdict H (gs_ledger st) (situation_of S w gv st)"
proof (cases "resolve_base (gv_git gv)")
  case (Inl e)
  then show ?thesis using assms(3) by (simp add: gate_def or_raise_def situation_of_def verdict_def)
next
  case base: (Inr b)
  show ?thesis
  proof (cases "capture_diff (gv_git gv) (b_sha b) (gv_untracked_max gv) False False")
    case (Inl e)
    then show ?thesis using assms(3) base by (simp add: gate_def or_raise_def situation_of_def verdict_def)
  next
    case diff: (Inr d)
    show ?thesis
    proof (cases "rstrip_nl (d_data d) = [] \<or> gv_read_fault gv \<noteq> None")
      case True
      then show ?thesis using assms(3) base diff
        by (auto simp: gate_def or_raise_def situation_of_def verdict_def result_def Let_def)
    next
      case False
      let ?dh = "diff_identity S (d_data d)"
      show ?thesis
      proof (cases "w_newest w (on_record ?dh st)")
        case None
        then show ?thesis using assms(3) base diff False
          by (simp add: gate_def or_raise_def situation_of_def verdict_def result_def Let_def latest_on_record)
      next
        case row: (Some r)
        show ?thesis
        proof (cases "load_valid_artifact (PDict (r_art r))")
          case (Inl e)
          then show ?thesis using assms(3) base diff False row
            by (simp add: gate_def or_raise_def situation_of_def verdict_def Let_def latest_on_record)
        next
          case (Inr a)
          then show ?thesis using assms(3) base diff False row judged_as_policy [OF assms(1,2) row Inr]
            by (simp add: gate_def or_raise_def situation_of_def Let_def latest_on_record)
        qed
      qed
    qed
  qed
qed

text \<open>C17 (refinement). On every run over an archive that only its own writers have touched, the gate's code is the
  verdict of the abstract policy for the situation of the push: bypassed, unreadable, nothing changed, no trustworthy
  review on record, a malformed one, or a review with its base and findings. The index and the artifact never disagree
  there. The one thing the policy does not see is a decision that cannot be recorded, which is 2.\<close>

theorem gate_refines_policy:
  assumes "db_ok (gs_reviews st)" and "picks_a_row w"
  shows "gr_code (fst (run_gate S H w gv st)) =
    (if gv_log_fault gv \<noteq> None then 2 else verdict H (gs_ledger st) (situation_of S w gv st))"
proof (cases "gv_skip gv = Some ''1''")
  case True
  then show ?thesis by (simp add: run_gate_code situation_of_def verdict_def)
next
  case False
  then show ?thesis using gate_as_policy [OF assms False, of S H] by (simp add: run_gate_code)
qed


text \<open>The loop closes: while the gate answers 1 for a review, dismissing one of
  its open findings changes the answer to 0 exactly when every open finding has the content key
  of the one dismissed, and otherwise leaves it at 1 with strictly fewer findings open.\<close>

theorem dismissal_moves_gate:
  assumes "undisturbed gv" and "outgoing gv b d" and "rstrip_nl (d_data d) \<noteq> []"
    and "latest_trustworthy_for w (diff_identity S (d_data d)) (gs_reviews st) = Some review"
    and "load_valid_artifact (PDict review) = Inr a"
    and "gr_code (fst (run_gate S H w gv st)) = 1"
    and "finding_at (art_findings a) index = Inr f" and "f \<in> set (open_of H (gs_ledger st) a)"
    and "dismiss H (PDict review) index reason now (gs_ledger st) = Inr (rec, l')"
  shows "gr_code (fst (run_gate S H w gv (st\<lparr>gs_ledger := l'\<rparr>))) =
      (if \<forall>g \<in> set (open_of H (gs_ledger st) a). key_of_finding H g = key_of_finding H f then 0 else 1)
    \<and> length (open_of H l' a) < length (open_of H (gs_ledger st) a)"
proof -
  from assms(1-6) have cert: "certifies a (diff_identity S (d_data d)) (b_sha b)"
    using run_gate_found [OF assms(1-5)] by (auto split: if_splits)
  from assms(9) have "cleared l' (art_branch a) (art_base a) k \<longleftrightarrow>
      cleared (gs_ledger st) (art_branch a) (art_base a) k \<or> k = key_of_finding H f" for k
  proof (rule dismiss_appends)
    fix a' f'
    assume "load_valid_artifact (PDict review) = Inr a'" "finding_at (art_findings a') index = Inr f'"
      and rec: "finding_of rec = named H a' f'"
      and app: "append_triage_event Dismiss rec (PStr reason) (PStr now) PNone (gs_ledger st) = Inr l'"
    then have "a' = a" "f' = f" using assms(5,7) by auto
    then show ?thesis using rec by (auto simp: append_triage_event_cleared [OF app] named_def)
  qed
  then have step: "open_of H l' a = filter (\<lambda>g. key_of_finding H g \<noteq> key_of_finding H f) (open_of H (gs_ledger st) a)"
    by (auto simp: open_of_def intro!: filter_cong)
  have "length (open_of H l' a) < length (open_of H (gs_ledger st) a)"
    unfolding step using assms(8) by (intro length_filter_less) auto
  moreover have "gr_code (fst (run_gate S H w gv (st\<lparr>gs_ledger := l'\<rparr>))) = (if open_of H l' a = [] then 0 else 1)"
    using run_gate_found [OF assms(1-3), of w S "st\<lparr>gs_ledger := l'\<rparr>" review a H] assms(4,5) cert by simp
  ultimately show ?thesis by (simp add: step filter_empty_conv)
qed

subsection \<open>Witnesses\<close>

text \<open>A working copy whose change is two bytes, and a store with one clean review of it.\<close>

definition sample_change :: git where
  "sample_change = sample_git\<lparr>g_call := (\<lambda>args.
     if args = [''rev-parse'', ''--verify'', ''-q'', ''github/main''] then Inr (1, [])
     else if hd args = ''merge-base'' then Inr (0, ''b5'')
     else if hd args = ''--no-pager'' then Inr (0, ''+x'' @ [LF])
     else Inr (0, []))\<rparr>"

definition sample_view :: gate_view where
  "sample_view = \<lparr>gv_git = sample_change, gv_repo = ''/r'', gv_untracked_max = 100, gv_now = sample_now,
     gv_skip = None, gv_read_fault = None, gv_log_fault = None\<rparr>"

definition change_base :: base where
  "change_base = \<lparr>b_ref = ''origin/main'', b_sha = ''b5'', b_warning = None\<rparr>"

definition change_diff :: diff where
  "change_diff = \<lparr>d_data = ''+x'', d_files = [], d_statuses = [], d_truncated_untracked = False\<rparr>"

definition change_hash :: string where
  "change_hash = diff_identity (\<lambda>s. s) ''+x''"

definition clean_dict :: "pydict list \<Rightarrow> pydict" where
  "clean_dict fs = [(''id'', PStr ''sk_1''), (''branch'', PStr ''main''), (''base_sha'', PStr ''b5''),
     (''findings'', PList (map PDict fs)), (''findings_total'', PInt (int (length fs))),
     (''status'', PStr ''clean''), (''diff_hash'', PStr change_hash), (''parse_ok'', PBool True),
     (''degraded'', PBool False), (''diff_truncated'', PBool False), (''trustworthy'', PBool True)]"

definition clean_row :: "pydict list \<Rightarrow> row" where
  "clean_row fs = \<lparr>r_id = ''sk_1'', r_cols = [(''branch'', PStr ''main''), (''base_sha'', PStr ''b5''),
     (''status'', PStr ''clean''), (''diff_hash'', PStr change_hash), (''parse_ok'', PInt 1),
     (''degraded'', PInt 0), (''diff_truncated'', PInt 0), (''trustworthy'', PInt 1)],
     r_art = clean_dict fs\<rparr>"

definition clean_db :: "pydict list \<Rightarrow> reviews_db" where
  "clean_db fs = empty_reviews\<lparr>rv_rows := [clean_row fs]\<rparr>"

definition clean_store :: "pydict list \<Rightarrow> gate_store" where
  "clean_store fs = \<lparr>gs_reviews = clean_db fs, gs_ledger = [], gs_events = []\<rparr>"

definition clean_artifact :: "pydict list \<Rightarrow> artifact" where
  "clean_artifact fs = \<lparr>art_dict = clean_dict fs, art_id = ''sk_1'', art_branch = ''main'', art_base = ''b5'',
     art_findings = fs\<rparr>"

lemma all_dicts_map: "all_dicts (map PDict fs) = Some fs"
  by (induction fs) auto

lemma sample_run:
  "undisturbed sample_view" "outgoing sample_view change_base change_diff"
  "rstrip_nl (d_data change_diff) \<noteq> []"
  "latest_trustworthy_for sample_world (diff_identity (\<lambda>s. s) (d_data change_diff)) (clean_db fs) = Some (clean_dict fs)"
  "load_valid_artifact (PDict (clean_dict fs)) = Inr (clean_artifact fs)"
  "db_ok (clean_db fs)" "picks_a_row sample_world"
proof -
  show "undisturbed sample_view" by (simp add: undisturbed_def sample_view_def)
  show "rstrip_nl (d_data change_diff) \<noteq> []" by (simp add: rstrip_nl_def change_diff_def)
  show "outgoing sample_view change_base change_diff"
    by (simp add: outgoing_def sample_view_def change_base_def change_diff_def sample_change_def sample_git_def
        resolve_base_def resolve_from_def main_refs_def run_git_def merge_base_def strip_def lstrip_def is_space_def
        capture_diff_def out_text_def tracked_statuses_def diff_flags_def paths_def join_sections_def rstrip_nl_def
        Let_def)
  show "latest_trustworthy_for sample_world (diff_identity (\<lambda>s. s) (d_data change_diff)) (clean_db fs) = Some (clean_dict fs)"
    by (simp add: latest_trustworthy_for_def clean_db_def clean_row_def sample_world_def dict_eval
        change_hash_def change_diff_def)
  show "load_valid_artifact (PDict (clean_dict fs)) = Inr (clean_artifact fs)"
    unfolding load_valid_artifact_Inr
    by (simp add: clean_dict_def clean_artifact_def dict_eval all_dicts_map)
  show "db_ok (clean_db fs)"
    by (auto simp: db_ok_def clean_db_def clean_row_def keyed_def row_ok_def clean_dict_def dict_eval axes_settled_def
        is_trustworthy_def axis_names_def mirrored_def empty_reviews_def)
  have "case first_newest rs of None \<Rightarrow> rs = [] | Some r \<Rightarrow> r \<in> set rs" for rs
    by (induction rs) (auto split: option.splits)
  then show "picks_a_row sample_world" by (simp add: picks_a_row_def sample_world_def)
qed

theorem gate_pass_sound_witness:
  "\<exists>e. gs_events (snd (run_gate (\<lambda>s. s) (\<lambda>s. s) sample_world sample_view (clean_store []))) = [e] \<and> ge_code e = 0"
proof -
  have st: "gs_reviews (clean_store []) = clean_db []" "gs_events (clean_store []) = []"
    by (simp_all add: clean_store_def)
  have "open_of (\<lambda>s. s) (gs_ledger (clean_store [])) (clean_artifact []) = []" 
    by (simp add: open_of_def clean_artifact_def)
  moreover have "certifies (clean_artifact []) (diff_identity (\<lambda>s. s) (d_data change_diff)) (b_sha change_base)"
    by (simp add: certifies_def clean_artifact_def clean_dict_def dict_eval change_hash_def change_diff_def change_base_def)
  ultimately have "gr_code (fst (run_gate (\<lambda>s. s) (\<lambda>s. s) sample_world sample_view (clean_store []))) = 0"
    using run_gate_found [OF sample_run(1-3), of sample_world "\<lambda>s. s" "clean_store []" "clean_dict []" "clean_artifact []"
      "\<lambda>s. s"] sample_run(4,5) [of "[]"] st by simp
  moreover have "gv_skip sample_view \<noteq> Some ''1''" by (simp add: sample_view_def)
  ultimately show ?thesis using gate_pass_sound [OF _ _ sample_run(7)] st by (metis append_Nil)
qed

lemma sample_open:
  "gr_code (fst (run_gate (\<lambda>s. s) (\<lambda>s. s) sample_world sample_view (clean_store [sample_finding]))) = 1"
  "open_of (\<lambda>s. s) [] (clean_artifact [sample_finding]) = [sample_finding]"
proof -
  show one: "open_of (\<lambda>s. s) [] (clean_artifact [sample_finding]) = [sample_finding]"
    by (simp add: open_of_def clean_artifact_def cleared_last)
  have st: "gs_reviews (clean_store [sample_finding]) = clean_db [sample_finding]" "gs_ledger (clean_store [sample_finding]) = []"
    by (simp_all add: clean_store_def)
  have "certifies (clean_artifact [sample_finding]) (diff_identity (\<lambda>s. s) (d_data change_diff)) (b_sha change_base)"
    by (simp add: certifies_def clean_artifact_def clean_dict_def dict_eval change_hash_def change_diff_def change_base_def)
  then show "gr_code (fst (run_gate (\<lambda>s. s) (\<lambda>s. s) sample_world sample_view (clean_store [sample_finding]))) = 1"
    using run_gate_found [OF sample_run(1-3), of sample_world "\<lambda>s. s" "clean_store [sample_finding]"
        "clean_dict [sample_finding]" "clean_artifact [sample_finding]" "\<lambda>s. s"]
      sample_run(4,5) [of "[sample_finding]"] st one by simp
qed

theorem gate_exit_contract_witness:
  "\<exists>review. latest_trustworthy_for sample_world change_hash (clean_db [sample_finding]) = Some review"
proof -
  have "gs_reviews (clean_store [sample_finding]) = clean_db [sample_finding]" by (simp add: clean_store_def)
  moreover obtain b d review where "outgoing sample_view b d"
    "latest_trustworthy_for sample_world (diff_identity (\<lambda>s. s) (d_data d)) (gs_reviews (clean_store [sample_finding])) = Some review"
    using gate_exit_contract [of "\<lambda>s. s" "\<lambda>s. s" sample_world sample_view "clean_store [sample_finding]"]
      sample_open(1) by auto
  moreover from this(1) sample_run(2) have "d = change_diff" by (simp add: outgoing_def)
  moreover have "diff_identity (\<lambda>s. s) (d_data change_diff) = change_hash" by (simp add: change_hash_def change_diff_def)
  ultimately show ?thesis by auto
qed

theorem gate_refines_policy_witness:
  "gr_code (fst (run_gate (\<lambda>s. s) (\<lambda>s. s) sample_world sample_view (clean_store []))) = 0"
proof -
  have st: "gs_reviews (clean_store []) = clean_db []" "gs_ledger (clean_store []) = []" by (simp_all add: clean_store_def)
  have "w_newest sample_world (on_record (diff_identity (\<lambda>s. s) (d_data change_diff)) (clean_store [])) = Some (clean_row [])"
    by (simp add: on_record_def st clean_db_def clean_row_def sample_world_def dict_eval change_hash_def change_diff_def)
  then have "situation_of (\<lambda>s. s) sample_world sample_view (clean_store []) = Covered (clean_artifact []) change_base"
    using sample_run(1,2,3) sample_run(5) [of "[]"]
    by (simp add: situation_of_def outgoing_def undisturbed_def clean_row_def)
  then show ?thesis
    using gate_refines_policy [of "clean_store []" sample_world "\<lambda>s. s" "\<lambda>s. s" sample_view] sample_run(6) [of "[]"] sample_run(1,7) st
    by (simp add: verdict_def clean_artifact_def change_base_def undisturbed_def)
qed

theorem dismissal_moves_gate_witness:
  "\<exists>l'. gr_code (fst (run_gate (\<lambda>s. s) (\<lambda>s. s) sample_world sample_view
     ((clean_store [sample_finding])\<lparr>gs_ledger := l'\<rparr>))) = 0"
proof -
  have st: "gs_reviews (clean_store [sample_finding]) = clean_db [sample_finding]"
    "gs_ledger (clean_store [sample_finding]) = []" by (simp_all add: clean_store_def)
  have at0: "finding_at (art_findings (clean_artifact [sample_finding])) (PInt 0) = Inr sample_finding"
    by (simp add: clean_artifact_def)
  obtain rec where d: "dismiss (\<lambda>s. s) (PDict (clean_dict [sample_finding])) (PInt 0) sample_reason sample_now []
      = Inr (rec, [] @ [rec])"
    using dismiss_succeeds [OF sample_run(5) at0 sample_facts(3,4)] by blast
  have l: "latest_trustworthy_for sample_world (diff_identity (\<lambda>s. s) (d_data change_diff)) (gs_reviews (clean_store [sample_finding]))
      = Some (clean_dict [sample_finding])" by (simp only: st sample_run(4))
  have "sample_finding \<in> set (open_of (\<lambda>s. s) (gs_ledger (clean_store [sample_finding])) (clean_artifact [sample_finding]))"
    by (simp only: st sample_open(2)) simp
  from dismissal_moves_gate [OF sample_run(1-3) l sample_run(5) sample_open(1) at0 this d [folded st(2)]]
  show ?thesis by (auto simp: st sample_open(2))
qed



end
