(* ===== verification/Capacity.thy ===== *)
theory Capacity
  imports PyText Timestamps "HOL-Library.Multiset"
begin

section \<open>Capacity: fair admission to the review slots\<close>

text \<open>
  Models the admission layer: the pure rules and settings of \<open>capacity.py\<close> and the operations
  on the table \<open>capacity_admissions\<close> of \<open>store.py\<close>. A row's \<open>rowid\<close> breaks ties between
  waiters queued in the same second. The liveness test of a process, the observation of its
  birth and the clock are parameters; times and ages are whole seconds.
\<close>

subsection \<open>Rows\<close>

datatype status = Queued | Admitted | Running | Released | Expired | Rejected

definition holder :: "status \<Rightarrow> bool" where
  "holder s \<longleftrightarrow> s \<in> {Admitted, Running}"

definition active :: "status \<Rightarrow> bool" where
  "active s \<longleftrightarrow> s \<in> {Queued, Admitted, Running}"

lemma status_simps [simp]:
  "\<not> holder Queued" "holder Admitted" "holder Running" "\<not> holder Released" "\<not> holder Expired" "\<not> holder Rejected"
  "active Queued" "active Admitted" "active Running" "\<not> active Released" "\<not> active Expired" "\<not> active Rejected"
  by (simp_all add: holder_def active_def)

lemma holder_active [simp]: "holder s \<Longrightarrow> active s"
  by (cases s) auto

record admission =
  ca_id :: string
  ca_class :: string
  ca_scope :: string
  ca_status :: status
  ca_queued_at :: string
  ca_admitted_at :: "string option"
  ca_started_at :: "string option"
  ca_ended_at :: "string option"
  ca_wait_ms :: "int option"
  ca_queue_wait_ms :: "int option"
  ca_run_ms :: "int option"
  ca_total_ms :: "int option"
  ca_reason :: "string option"
  ca_pid :: "int option"
  ca_owner :: "string option"
  ca_limit :: "int option"
  ca_review :: "string option"
  ca_rowid :: nat

type_synonym admissions = "admission list"

abbreviation review_fg :: string where "review_fg \<equiv> ''review-fg''"
abbreviation review_machine :: string where "review_machine \<equiv> ''review-machine''"

subsection \<open>The pure rules\<close>

text \<open>\<open>WaiterView\<close> and the key waiters are ordered by.\<close>

record waiter =
  wv_id :: string
  wv_status :: status
  wv_queued_at :: string
  wv_order :: "nat option"

datatype waiter_key = WaiterKey (wk_at: string) (wk_order: nat) (wk_id: string)

instantiation waiter_key :: linorder
begin

definition less_waiter_key :: "waiter_key \<Rightarrow> waiter_key \<Rightarrow> bool" where
  "less_waiter_key k l \<longleftrightarrow> wk_at k < wk_at l
     \<or> wk_at k = wk_at l \<and> (wk_order k < wk_order l \<or> wk_order k = wk_order l \<and> wk_id k < wk_id l)"

definition less_eq_waiter_key :: "waiter_key \<Rightarrow> waiter_key \<Rightarrow> bool" where
  "less_eq_waiter_key k l \<longleftrightarrow> k < l \<or> k = (l :: waiter_key)"

instance
proof
  fix x y z :: waiter_key
  show "x < y \<longleftrightarrow> x \<le> y \<and> \<not> y \<le> x"
    by (auto simp: less_waiter_key_def less_eq_waiter_key_def)
  show "x \<le> x" by (simp add: less_eq_waiter_key_def)
  show "x \<le> y \<Longrightarrow> y \<le> z \<Longrightarrow> x \<le> z"
    by (auto simp: less_waiter_key_def less_eq_waiter_key_def)
  show "x \<le> y \<Longrightarrow> y \<le> x \<Longrightarrow> x = y"
    by (auto simp: less_waiter_key_def less_eq_waiter_key_def)
  show "x \<le> y \<or> y \<le> x"
    by (cases x; cases y) (auto simp: less_waiter_key_def less_eq_waiter_key_def)
qed

end

definition key_of :: "waiter \<Rightarrow> waiter_key" where
  "key_of w = WaiterKey (wv_queued_at w) (case wv_order w of None \<Rightarrow> 0 | Some n \<Rightarrow> n) (wv_id w)"

definition decide_admit :: "string \<Rightarrow> waiter list \<Rightarrow> int \<Rightarrow> bool" where
  "decide_admit wid waiters capacity =
     (if capacity < 1 then False
      else if capacity \<le> int (length (filter (\<lambda>w. holder (wv_status w)) waiters)) then False
      else case sort_key key_of (filter (\<lambda>w. wv_status w = Queued) waiters) of
        [] \<Rightarrow> False
      | w # _ \<Rightarrow> wv_id w = wid)"

fun position_in :: "nat \<Rightarrow> string \<Rightarrow> waiter list \<Rightarrow> nat option" where
  "position_in i wid [] = None"
| "position_in i wid (w # ws) = (if wv_id w = wid then Some i else position_in (Suc i) wid ws)"

definition queue_position_among :: "string \<Rightarrow> waiter list \<Rightarrow> nat option" where
  "queue_position_among wid waiters = position_in 1 wid (sort_key key_of waiters)"

text \<open>\<open>wait_eta_p50_ms\<close> on a list of samples that are all integers.\<close>

definition wait_eta_p50_ms :: "int list \<Rightarrow> nat \<Rightarrow> nat \<Rightarrow> int option" where
  "wait_eta_p50_ms samples min_samples max_samples =
     (let cleaned = filter (\<lambda>x. 0 \<le> x) samples in
      if length cleaned < min_samples then None
      else let ordered = take max_samples (sort cleaned); mid = length ordered div 2 in
        if length ordered mod 2 = 1 then Some (ordered ! mid)
        else Some ((ordered ! (mid - 1) + ordered ! mid) div 2))"

datatype reason = StalePid | StaleAge | TimedOut | Cancelled | AdmitRace | Failed string

fun reason_text :: "reason \<Rightarrow> string" where
  "reason_text StalePid = ''stale_pid_dead''"
| "reason_text StaleAge = ''stale_age''"
| "reason_text TimedOut = ''admission_timeout''"
| "reason_text Cancelled = ''cancelled''"
| "reason_text AdmitRace = ''admit_race''"
| "reason_text (Failed s) = s"

text \<open>\<open>should_reclaim_admission\<close>; \<open>now\<close> is in epoch seconds.\<close>

definition should_reclaim_admission ::
    "status \<Rightarrow> int option \<Rightarrow> string \<Rightarrow> int \<Rightarrow> int \<Rightarrow> (int \<Rightarrow> bool) \<Rightarrow> reason option" where
  "should_reclaim_admission s pid queued_at stale_sec now alive =
     (let known = (case pid of None \<Rightarrow> False | Some p \<Rightarrow> 0 < p) in
      if known \<and> \<not> alive (the pid) then Some StalePid
      else case admission_age_sec (PStr queued_at) now of
        None \<Rightarrow> None
      | Some age \<Rightarrow>
          (let ceiling = (if stale_sec < 0 then 0 else stale_sec) in
           if holder s \<and> ceiling < age then Some StaleAge
           else if \<not> known \<and> ceiling < age then Some StaleAge else None))"

subsection \<open>Settings\<close>

definition max_capacity :: int where
  "max_capacity = 2 ^ 63 - 1"

text \<open>\<open>capacity_from_env\<close>, \<open>machine_capacity_from_env\<close> and
  \<open>provider_max_in_flight_from_env\<close> read one variable each by this rule.\<close>

definition slots_from_env :: "string option \<Rightarrow> int" where
  "slots_from_env raw =
     (case raw of None \<Rightarrow> 1
      | Some s \<Rightarrow>
          if strip s = [] then 1
          else (case int_of_text (strip s) of None \<Rightarrow> 1
            | Some v \<Rightarrow> if \<not> (1 \<le> v \<and> v \<le> max_capacity) then 1 else v))"

definition env_set :: "string option \<Rightarrow> bool" where
  "env_set raw \<longleftrightarrow> (case raw of None \<Rightarrow> False | Some s \<Rightarrow> strip s \<noteq> [])"

text \<open>The capacity section of the configuration, host and repository parts.\<close>

record cap_settings =
  cs_machine :: pyval
  cs_review_fg :: pyval
  cs_repo_machine :: pyval
  cs_repo_review_fg :: pyval

fun at_least_one :: "pyval \<Rightarrow> int option" where
  "at_least_one (PInt i) = (if 1 \<le> i then Some i else None)"
| "at_least_one _ = None"

definition tighten :: "int \<Rightarrow> pyval \<Rightarrow> int" where
  "tighten n limit = (case at_least_one limit of None \<Rightarrow> n | Some m \<Rightarrow> min n m)"

definition effective_fg_capacity :: "int \<Rightarrow> int \<Rightarrow> int" where
  "effective_fg_capacity repo machine =
     min (if repo < 1 then 1 else repo) (if machine < 1 then 1 else machine)"

definition resolved_machine_capacity :: "cap_settings \<Rightarrow> string option \<Rightarrow> int" where
  "resolved_machine_capacity cfg env =
     tighten (if env_set env then slots_from_env env
              else case at_least_one (cs_machine cfg) of None \<Rightarrow> slots_from_env env | Some m \<Rightarrow> m)
       (cs_repo_machine cfg)"

definition resolved_fg_capacity :: "cap_settings \<Rightarrow> string option \<Rightarrow> string option \<Rightarrow> int" where
  "resolved_fg_capacity cfg fg_env machine_env =
     effective_fg_capacity
       (tighten (if env_set fg_env then slots_from_env fg_env
                 else case at_least_one (cs_review_fg cfg) of None \<Rightarrow> slots_from_env fg_env | Some m \<Rightarrow> m)
          (cs_repo_review_fg cfg))
       (resolved_machine_capacity cfg machine_env)"

definition legacy_fg_lock_from_env :: "string option \<Rightarrow> bool" where
  "legacy_fg_lock_from_env raw =
     (case raw of None \<Rightarrow> True | Some s \<Rightarrow> if strip s = [] then True else strip s \<noteq> ''0'')"

definition provider_resource_class :: "string \<Rightarrow> string option \<Rightarrow> string option" where
  "provider_resource_class provider_id quota_pool =
     (let pid = strip provider_id in
      if pid = [] then None
      else let pool = strip (case quota_pool of None \<Rightarrow> pid | Some q \<Rightarrow> if q = [] then pid else q) in
        if pool = [] then None
        else Some (''provider:'' @ (if pool = pid \<or> starts_with (pid @ '':'') pool then pool
                                    else pid @ '':'' @ pool)))"

subsection \<open>Operations of the store\<close>

datatype cap_error = BlankField | DuplicateId | CapacityTooLarge | AdmissionMissing | NotTerminal

definition need :: "string \<Rightarrow> cap_error + string" where
  "need s = (if strip s = [] then Inl BlankField else Inr (strip s))"

abbreviation ca_find :: "string \<Rightarrow> admissions \<Rightarrow> admission option" where
  "ca_find \<equiv> tbl_find ca_id"

text \<open>\<open>UPDATE capacity_admissions SET ... WHERE id=?\<close>.\<close>

abbreviation ca_update :: "string \<Rightarrow> (admission \<Rightarrow> admission) \<Rightarrow> admissions \<Rightarrow> admissions" where
  "ca_update aid f rows \<equiv> tbl_update (\<lambda>r. ca_id r = aid) f rows"

definition in_group :: "string \<Rightarrow> string \<Rightarrow> admission \<Rightarrow> bool" where
  "in_group cls scope r \<longleftrightarrow> ca_class r = cls \<and> ca_scope r = scope"

definition peers :: "string \<Rightarrow> string \<Rightarrow> admissions \<Rightarrow> admissions" where
  "peers cls scope rows = filter (\<lambda>r. in_group cls scope r \<and> active (ca_status r)) rows"

definition view_of :: "admission \<Rightarrow> waiter" where
  "view_of r = \<lparr>wv_id = ca_id r, wv_status = ca_status r, wv_queued_at = ca_queued_at r, wv_order = Some (ca_rowid r)\<rparr>"

definition order_key :: "admission \<Rightarrow> waiter_key" where
  "order_key r = WaiterKey (ca_queued_at r) (ca_rowid r) []"

definition capacity_enqueue ::
    "(int \<Rightarrow> string option) \<Rightarrow> string \<Rightarrow> string \<Rightarrow> string \<Rightarrow> string \<Rightarrow> int option \<Rightarrow> admissions
      \<Rightarrow> cap_error + admission \<times> admissions" where
  "capacity_enqueue birth now aid cls scope pid rows =
     ebind (need aid) (\<lambda>aid. ebind (need cls) (\<lambda>cls. ebind (need scope) (\<lambda>scope.
       if aid \<in> ca_id ` set rows then Inl DuplicateId
       else let row = \<lparr>ca_id = aid, ca_class = cls, ca_scope = scope, ca_status = Queued, ca_queued_at = now,
              ca_admitted_at = None, ca_started_at = None, ca_ended_at = None, ca_wait_ms = None,
              ca_queue_wait_ms = None, ca_run_ms = None, ca_total_ms = None, ca_reason = None, ca_pid = pid,
              ca_owner = (case pid of Some p \<Rightarrow> if cls = review_machine \<and> p \<noteq> 0 then birth p else None | None \<Rightarrow> None),
              ca_limit = None, ca_review = None,
              ca_rowid = Suc (fold max (map ca_rowid rows) 0)\<rparr>
            in Inr (row, rows @ [row]))))"

definition capacity_active_views :: "string \<Rightarrow> string \<Rightarrow> admissions \<Rightarrow> waiter list" where
  "capacity_active_views cls scope rows = map view_of (sort_key order_key (peers cls scope rows))"

definition capacity_position :: "string \<Rightarrow> admissions \<Rightarrow> nat option" where
  "capacity_position aid rows =
     (case ca_find (strip aid) rows of None \<Rightarrow> None
      | Some r \<Rightarrow> if \<not> active (ca_status r) then None
          else queue_position_among aid (capacity_active_views (ca_class r) (ca_scope r) rows))"

definition holders :: "string \<Rightarrow> string \<Rightarrow> admissions \<Rightarrow> admissions" where
  "holders cls scope rows = filter (\<lambda>r. in_group cls scope r \<and> holder (ca_status r)) rows"

definition capacity_holder_count :: "string \<Rightarrow> string \<Rightarrow> admissions \<Rightarrow> nat" where
  "capacity_holder_count cls scope rows = length (holders cls scope rows)"

text \<open>\<open>_capacity_metrics(row, ended_at)\<close>.\<close>

definition opt_text :: "string option \<Rightarrow> pyval" where
  "opt_text t = (case t of None \<Rightarrow> PNone | Some s \<Rightarrow> PStr s)"

definition end_row :: "status \<Rightarrow> string \<Rightarrow> string option \<Rightarrow> admission \<Rightarrow> admission" where
  "end_row s ended_at why r = r\<lparr>ca_status := s, ca_ended_at := Some ended_at,
     ca_wait_ms := duration_ms (PStr (ca_queued_at r)) (PStr ended_at),
     ca_queue_wait_ms := duration_ms (PStr (ca_queued_at r)) (opt_text (ca_admitted_at r)),
     ca_run_ms := duration_ms (opt_text (ca_started_at r)) (PStr ended_at),
     ca_total_ms := duration_ms (PStr (ca_queued_at r)) (PStr ended_at),
     ca_reason := why\<rparr>"

text \<open>What the system says about processes: \<open>pid_alive\<close>, whether the caller supplied its own
  test, and \<open>process_observation\<close> (birth token and whether it exited).\<close>

record processes =
  pr_alive :: "int \<Rightarrow> bool"
  pr_custom :: bool
  pr_observe :: "int \<Rightarrow> string option \<times> bool"

definition or_text :: "string option \<Rightarrow> string \<Rightarrow> string" where
  "or_text t s = (case t of Some u \<Rightarrow> if u \<noteq> [] then u else s | None \<Rightarrow> s)"

definition truthy_text :: "string option \<Rightarrow> bool" where
  "truthy_text t \<longleftrightarrow> t \<noteq> None \<and> t \<noteq> Some []"

text \<open>The body of the loop of \<open>capacity_reclaim_stale\<close>: why to reclaim a row, if at all.\<close>

definition reclaim_reason :: "processes \<Rightarrow> string \<Rightarrow> int \<Rightarrow> int \<Rightarrow> admission \<Rightarrow> reason option" where
  "reclaim_reason ps cls stale_sec now r =
     (let age_from = (if cls = review_fg \<and> holder (ca_status r)
            then or_text (ca_started_at r) (or_text (ca_admitted_at r) (ca_queued_at r)) else ca_queued_at r);
          by_age = should_reclaim_admission (ca_status r) (ca_pid r) age_from stale_sec now (pr_alive ps) in
      case ca_pid r of
        Some p \<Rightarrow>
          if p \<noteq> 0 \<and> (cls = review_machine \<or> \<not> pr_custom ps) \<and> pr_alive ps p then
            (case pr_observe ps p of (token, exited) \<Rightarrow>
               if exited then Some StalePid
               else if cls = review_machine then
                 (if \<not> truthy_text (ca_owner r) \<or> \<not> truthy_text token \<or> token = ca_owner r then None
                  else Some StalePid)
               else by_age)
          else by_age
      | None \<Rightarrow> by_age)"

definition capacity_reclaim_stale ::
    "processes \<Rightarrow> string \<Rightarrow> string \<Rightarrow> int \<Rightarrow> int \<Rightarrow> string \<Rightarrow> admissions \<Rightarrow> string list \<times> admissions" where
  "capacity_reclaim_stale ps cls scope stale_sec now ended_at rows =
     (let stale = (\<lambda>r. in_group cls scope r \<and> active (ca_status r) \<and> reclaim_reason ps cls stale_sec now r \<noteq> None)
      in (map ca_id (filter stale (sort_key order_key rows)),
          tbl_update stale (\<lambda>r. end_row Rejected ended_at (map_option reason_text (reclaim_reason ps cls stale_sec now r)) r) rows))"

text \<open>\<open>p["capacity_limit"] or 1\<close>.\<close>

definition limit_of :: "admission \<Rightarrow> int" where
  "limit_of r = (case ca_limit r of Some l \<Rightarrow> if l \<noteq> 0 then l else 1 | None \<Rightarrow> 1)"

definition limited :: "string \<Rightarrow> bool" where
  "limited cls \<longleftrightarrow> cls \<in> {review_machine, review_fg}"

text \<open>\<open>capacity_try_admit\<close>: the row returned, if any, and the table.\<close>

definition capacity_try_admit ::
    "string \<Rightarrow> string \<Rightarrow> int \<Rightarrow> admissions \<Rightarrow> cap_error + admission option \<times> admissions" where
  "capacity_try_admit now aid capacity rows =
     ebind (need aid) (\<lambda>aid.
       if max_capacity < capacity then Inl CapacityTooLarge
       else if capacity < 1 then Inr (None, rows)
       else case ca_find aid rows of None \<Rightarrow> Inr (None, rows)
       | Some row \<Rightarrow>
           if ca_status row \<noteq> Queued then Inr (Some row, rows)
           else
             let ps = peers (ca_class row) (ca_scope row) rows;
                 cap = (if limited (ca_class row)
                        then Min (set (capacity # map limit_of (filter (\<lambda>p. holder (ca_status p)) ps)))
                        else capacity) in
             if \<not> decide_admit aid (map view_of ps) cap then Inr (None, rows)
             else
               let rows' = ca_update aid (\<lambda>r. r\<lparr>ca_status := Admitted, ca_admitted_at := Some now,
                     ca_limit := (if limited (ca_class row) then Some capacity else None)\<rparr>) rows
               in Inr (ca_find aid rows', rows'))"

definition capacity_force_admit ::
    "string \<Rightarrow> string \<Rightarrow> admissions \<Rightarrow> cap_error + admission option \<times> admissions" where
  "capacity_force_admit now aid rows =
     ebind (need aid) (\<lambda>aid.
       case ca_find aid rows of None \<Rightarrow> Inr (None, rows)
       | Some row \<Rightarrow>
           if holder (ca_status row) then Inr (Some row, rows)
           else if ca_status row \<noteq> Queued then Inr (None, rows)
           else if ca_class row = review_fg \<and> 0 < capacity_holder_count review_fg (ca_scope row) rows
           then Inr (None, rows)
           else
             let rows' = ca_update aid (\<lambda>r. r\<lparr>ca_status := Admitted, ca_admitted_at := Some now,
                   ca_limit := (if ca_class r = review_fg then Some 1 else ca_limit r)\<rparr>) rows
             in Inr (ca_find aid rows', rows'))"

definition capacity_mark_started ::
    "string \<Rightarrow> string \<Rightarrow> string option \<Rightarrow> admissions \<Rightarrow> cap_error + admission \<times> admissions" where
  "capacity_mark_started now aid review rows =
     ebind (need aid) (\<lambda>aid.
       case ca_find aid rows of None \<Rightarrow> Inl AdmissionMissing
       | Some row \<Rightarrow>
           if \<not> active (ca_status row) then Inr (row, rows)
           else
             let f = (\<lambda>r. r\<lparr>ca_status := Running,
                   ca_admitted_at := Some (or_text (ca_admitted_at r) now),
                   ca_started_at := (case ca_started_at r of None \<Rightarrow> Some now | Some t \<Rightarrow> Some t),
                   ca_review := (case review of None \<Rightarrow> ca_review r | Some v \<Rightarrow> Some v)\<rparr>)
             in Inr (f row, ca_update aid f rows))"

definition capacity_finish ::
    "string \<Rightarrow> string \<Rightarrow> status \<Rightarrow> string option \<Rightarrow> admissions \<Rightarrow> cap_error + admission \<times> admissions" where
  "capacity_finish now aid s why rows =
     ebind (need aid) (\<lambda>aid.
       if active s then Inl NotTerminal
       else case ca_find aid rows of None \<Rightarrow> Inl AdmissionMissing
       | Some row \<Rightarrow>
           if \<not> active (ca_status row) then Inr (row, rows)
           else Inr (end_row s now why row, ca_update aid (end_row s now why) rows))"

subsection \<open>First in, first out\<close>

lemma sort_key_hd:
  assumes "sort_key f xs = y # ys"
  shows "y \<in> set xs" "\<And>x. x \<in> set xs \<Longrightarrow> f y \<le> f x"
proof -
  have set: "set xs = insert y (set ys)" using assms by (metis list.set(2) set_sort)
  then show "y \<in> set xs" by simp
  have "sorted (map f (y # ys))" using sorted_sort_key [of f xs] by (simp add: assms)
  then show "f y \<le> f x" if "x \<in> set xs" for x using that set by auto
qed

lemma key_of_eq: "key_of v = key_of w \<Longrightarrow> wv_id v = wv_id w"
  by (simp add: key_of_def)

definition held :: "waiter list \<Rightarrow> nat" where
  "held ws = length (filter (\<lambda>w. holder (wv_status w)) ws)"

lemma decide_admit_iff:
  "decide_admit wid ws cap \<longleftrightarrow> int (held ws) < cap \<and>
    (\<exists>w \<in> set ws. wv_status w = Queued \<and> wv_id w = wid \<and>
      (\<forall>v \<in> set ws. wv_status v = Queued \<longrightarrow> key_of w \<le> key_of v))"
proof (cases "sort_key key_of (filter (\<lambda>w. wv_status w = Queued) ws)")
  case Nil
  then have "filter (\<lambda>w. wv_status w = Queued) ws = []" by (metis length_0_conv length_sort)
  then show ?thesis by (auto simp: decide_admit_def filter_empty_conv)
next
  case (Cons x xs)
  note hd = sort_key_hd [OF Cons]
  have eq: "wv_id x = wid \<longleftrightarrow> (\<exists>w \<in> set ws. wv_status w = Queued \<and> wv_id w = wid \<and>
      (\<forall>v \<in> set ws. wv_status v = Queued \<longrightarrow> key_of w \<le> key_of v))"
  proof
    assume "wv_id x = wid"
    with hd show "\<exists>w \<in> set ws. wv_status w = Queued \<and> wv_id w = wid \<and>
      (\<forall>v \<in> set ws. wv_status v = Queued \<longrightarrow> key_of w \<le> key_of v)" by auto
  next
    assume "\<exists>w \<in> set ws. wv_status w = Queued \<and> wv_id w = wid \<and>
      (\<forall>v \<in> set ws. wv_status v = Queued \<longrightarrow> key_of w \<le> key_of v)"
    then obtain w where w: "w \<in> set ws" "wv_status w = Queued" "wv_id w = wid" "key_of w \<le> key_of x"
      using hd(1) by auto
    with hd(2) [of w] have "key_of x = key_of w" by auto
    then show "wv_id x = wid" using key_of_eq [of x w] w(3) by simp
  qed
  have "decide_admit wid ws cap = (if cap < 1 then False else if cap \<le> int (held ws) then False else wv_id x = wid)"
    by (simp only: decide_admit_def Cons held_def list.case)
  moreover have "0 \<le> int (held ws)" by simp
  ultimately have "decide_admit wid ws cap \<longleftrightarrow> int (held ws) < cap \<and> wv_id x = wid"
    by (cases "cap \<le> int (held ws)") auto
  then show ?thesis by (simp only: eq)
qed

subsection \<open>Rows that only leave the holders\<close>

lemma keyed_update_ids:
  "(\<And>r. ca_id (f r) = ca_id r) \<Longrightarrow> keyed ca_id rows \<Longrightarrow> keyed ca_id (tbl_update p f rows)"
  by (rule keyed_update)

definition exclusive :: "admissions \<Rightarrow> bool" where
  "exclusive rows \<longleftrightarrow> (\<forall>cls scope. limited cls \<longrightarrow>
     (\<forall>h \<in> set (holders cls scope rows). int (length (holders cls scope rows)) \<le> limit_of h))"

lemma exclusiveD:
  "exclusive rows \<Longrightarrow> limited cls \<Longrightarrow> h \<in> set (holders cls scope rows)
    \<Longrightarrow> int (length (holders cls scope rows)) \<le> limit_of h"
  by (simp add: exclusive_def)

lemma length_filter_le_filter:
  "(\<And>x. x \<in> set xs \<Longrightarrow> Q x \<Longrightarrow> P x) \<Longrightarrow> length (filter Q xs) \<le> length (filter P xs)"
  by (induction xs) (auto simp: le_Suc_eq)

lemma exclusive_update:
  assumes "exclusive rows"
    and same: "\<And>r. p r \<Longrightarrow> ca_class (f r) = ca_class r \<and> ca_scope (f r) = ca_scope r \<and> limit_of (f r) = limit_of r"
    and fewer: "\<And>r. p r \<Longrightarrow> holder (ca_status (f r)) \<Longrightarrow> holder (ca_status r)"
  shows "exclusive (tbl_update p f rows)"
  unfolding exclusive_def
proof (intro allI impI ballI)
  fix cls scope h
  assume lim: "limited cls" and h: "h \<in> set (holders cls scope (tbl_update p f rows))"
  let ?g = "\<lambda>r. if p r then f r else r"
  let ?P = "\<lambda>r. in_group cls scope r \<and> holder (ca_status r)"
  have le: "?P (?g r) \<Longrightarrow> ?P r" for r using same fewer by (auto simp: in_group_def split: if_splits)
  have "length (holders cls scope (tbl_update p f rows)) = length (filter (\<lambda>r. ?P (?g r)) rows)"
    by (simp add: holders_def tbl_update_def filter_map comp_def)
  also have "\<dots> \<le> length (holders cls scope rows)"
    unfolding holders_def by (rule length_filter_le_filter) (rule le)
  finally have len: "length (holders cls scope (tbl_update p f rows)) \<le> length (holders cls scope rows)" .
  from h obtain r where r: "r \<in> set rows" "h = ?g r" "?P (?g r)"
    by (auto simp: holders_def tbl_update_def)
  then have "r \<in> set (holders cls scope rows)" using le [OF r(3)] by (simp add: holders_def)
  moreover have "limit_of h = limit_of r" using r(2) same [of r] by (cases "p r") simp_all
  ultimately show "int (length (holders cls scope (tbl_update p f rows))) \<le> limit_of h"
    using exclusiveD [OF assms(1) lim, of r scope] len by simp
qed

lemma length_filter_one_more:
  "distinct (map key xs) \<Longrightarrow> (\<And>x. x \<in> set xs \<Longrightarrow> key x \<noteq> k \<Longrightarrow> Q x \<Longrightarrow> P x)
    \<Longrightarrow> length (filter Q xs) \<le> Suc (length (filter P xs))"
proof (induction xs)
  case (Cons x xs)
  show ?case
  proof (cases "key x = k")
    case True
    then have "\<forall>y \<in> set xs. key y \<noteq> k" using Cons.prems(1) by (auto simp: rev_image_eqI)
    then have "length (filter Q xs) \<le> length (filter P xs)"
      using Cons.prems(2) by (intro length_filter_le_filter) auto
    then show ?thesis by auto
  next
    case False
    then show ?thesis using Cons by auto
  qed
qed simp

text \<open>Admitting one more holder, within every limit.\<close>

lemma exclusive_admit:
  assumes "exclusive rows" and "keyed ca_id rows" and row: "ca_find aid rows = Some row"
    and same: "\<And>r. ca_class (f r) = ca_class r \<and> ca_scope (f r) = ca_scope r"
    and room: "limited (ca_class row) \<Longrightarrow> int (length (holders (ca_class row) (ca_scope row) rows)) < limit_of (f row)"
    and rest: "\<And>h. limited (ca_class row) \<Longrightarrow> h \<in> set (holders (ca_class row) (ca_scope row) rows) \<Longrightarrow>
      int (length (holders (ca_class row) (ca_scope row) rows)) < limit_of h"
  shows "exclusive (ca_update aid f rows)"
  unfolding exclusive_def
proof (intro allI impI ballI)
  fix cls scope h
  assume lim: "limited cls" and h: "h \<in> set (holders cls scope (ca_update aid f rows))"
  note mem = tbl_find_Some_mem [OF row]
  have uniq: "r = row" if "r \<in> set rows" "ca_id r = aid" for r
    using tbl_find_mem [OF assms(2) that(1)] that(2) row by simp
  let ?g = "\<lambda>r. if ca_id r = aid then f r else r"
  let ?P = "\<lambda>r. in_group cls scope r \<and> holder (ca_status r)"
  have hs: "length (holders cls scope (ca_update aid f rows)) = length (filter (\<lambda>r. ?P (?g r)) rows)"
    by (simp add: holders_def tbl_update_def filter_map comp_def)
  from h obtain r where r: "r \<in> set rows" "h = ?g r" "?P (?g r)"
    by (auto simp: holders_def tbl_update_def)
  show "int (length (holders cls scope (ca_update aid f rows))) \<le> limit_of h"
  proof (cases "in_group cls scope row")
    case False
    have "length (filter (\<lambda>r. ?P (?g r)) rows) \<le> length (holders cls scope rows)"
      unfolding holders_def using False same uniq
      by (intro length_filter_le_filter) (auto simp: in_group_def split: if_splits)
    moreover have "ca_id r \<noteq> aid" using r uniq same False by (auto simp: in_group_def split: if_splits)
    then have "h \<in> set (holders cls scope rows)" using r by (simp add: holders_def)
    ultimately show ?thesis using exclusiveD [OF assms(1) lim, of h scope] hs by simp
  next
    case True
    then have c: "cls = ca_class row" "scope = ca_scope row" by (auto simp: in_group_def)
    have "length (filter (\<lambda>r. ?P (?g r)) rows) \<le> Suc (length (holders cls scope rows))"
      unfolding holders_def using assms(2)
      by (intro length_filter_one_more [where key = ca_id and k = aid]) (auto simp: keyed_def)
    moreover have "int (length (holders cls scope rows)) < limit_of h"
    proof (cases "ca_id r = aid")
      case True
      then have "h = f row" using r uniq by simp
      then show ?thesis using room lim c by simp
    next
      case False
      then have "h \<in> set (holders cls scope rows)" using r by (simp add: holders_def)
      then show ?thesis using rest lim c by simp
    qed
    ultimately show ?thesis using hs by linarith
  qed
qed

subsection \<open>Every operation keeps the slots exclusive\<close>

definition cap_ok :: "admissions \<Rightarrow> bool" where
  "cap_ok rows \<longleftrightarrow> keyed ca_id rows \<and> exclusive rows"

lemma holders_of_peers: "filter (\<lambda>p. holder (ca_status p)) (peers cls scope rows) = holders cls scope rows"
  by (auto simp: peers_def holders_def intro!: filter_cong)

lemma held_views: "held (map view_of (peers cls scope rows)) = length (holders cls scope rows)"
  unfolding holders_of_peers [symmetric] held_def by (simp add: filter_map comp_def view_of_def)

lemma need_Inr [simp]: "need s = Inr t \<longleftrightarrow> t = strip s \<and> t \<noteq> []"
  by (auto simp: need_def)

lemma enqueue_ok [inv_intros]:
  assumes "capacity_enqueue birth now aid cls scope pid rows = Inr (row, rows')" and "cap_ok rows"
  shows "cap_ok rows'"
proof -
  from assms(1) have rows': "rows' = rows @ [row]" and st: "ca_status row = Queued" and new: "ca_id row \<notin> ca_id ` set rows"
    by (auto simp: capacity_enqueue_def err_iffs Let_def split: if_splits)
  have "holders c sc rows' = holders c sc rows" for c sc by (simp add: holders_def rows' st)
  then show ?thesis using assms(2) new by (auto simp: cap_ok_def exclusive_def keyed_def rows')
qed

lemma cap_update_ok:
  assumes "cap_ok rows" and "\<And>r. ca_id (f r) = ca_id r"
    and "\<And>r. p r \<Longrightarrow> ca_class (f r) = ca_class r \<and> ca_scope (f r) = ca_scope r \<and> limit_of (f r) = limit_of r"
    and "\<And>r. r \<in> set rows \<Longrightarrow> p r \<Longrightarrow> holder (ca_status (f r)) \<Longrightarrow> holder (ca_status r)"
  shows "cap_ok (tbl_update p f rows)"
proof -
  have "tbl_update p f rows = tbl_update (\<lambda>r. r \<in> set rows \<and> p r) f rows"
    by (auto simp: tbl_update_def)
  moreover have "exclusive (tbl_update (\<lambda>r. r \<in> set rows \<and> p r) f rows)"
    using assms by (intro exclusive_update) (auto simp: cap_ok_def)
  ultimately show ?thesis using assms(1,2) by (simp add: cap_ok_def keyed_update)
qed

lemma end_row_simps [simp]:
  "ca_id (end_row s t why r) = ca_id r" "ca_class (end_row s t why r) = ca_class r"
  "ca_scope (end_row s t why r) = ca_scope r" "limit_of (end_row s t why r) = limit_of r"
  "ca_status (end_row s t why r) = s" "ca_rowid (end_row s t why r) = ca_rowid r"
  by (simp_all add: end_row_def limit_of_def)

lemma finish_ok [inv_intros]:
  "capacity_finish now aid s why rows = Inr (row, rows') \<Longrightarrow> cap_ok rows \<Longrightarrow> cap_ok rows'"
  by (auto simp: capacity_finish_def err_iffs split: if_splits option.splits intro!: cap_update_ok)

lemma reclaim_ok [inv_intros]:
  "capacity_reclaim_stale ps cls scope stale now t rows = (ids, rows') \<Longrightarrow> cap_ok rows \<Longrightarrow> cap_ok rows'"
  by (auto simp: capacity_reclaim_stale_def Let_def intro!: cap_update_ok)

text \<open>The clients start only admissions they hold.\<close>

definition not_waiting :: "string \<Rightarrow> admissions \<Rightarrow> bool" where
  "not_waiting aid rows \<longleftrightarrow> (\<forall>r. ca_find (strip aid) rows = Some r \<longrightarrow> ca_status r \<noteq> Queued)"

lemma started_ok [inv_intros]:
  assumes "capacity_mark_started now aid review rows = Inr (row, rows')" and "cap_ok rows" and "not_waiting aid rows"
  shows "cap_ok rows'"
proof -
  have holding: "holder (ca_status r)" if "r \<in> set rows" "ca_id r = strip aid" "active (ca_status r)" for r
  proof -
    have "ca_find (strip aid) rows = Some r"
      using tbl_find_mem [of ca_id rows r] assms(2) that by (simp add: cap_ok_def)
    then have "ca_status r \<noteq> Queued" using assms(3) by (simp add: not_waiting_def)
    with that(3) show ?thesis by (cases "ca_status r") auto
  qed
  from assms(1) obtain old where old: "ca_find (strip aid) rows = Some old"
    by (auto simp: capacity_mark_started_def err_iffs split: option.splits)
  show ?thesis
  proof (cases "active (ca_status old)")
    case False
    then show ?thesis using assms(1,2) old by (auto simp: capacity_mark_started_def err_iffs)
  next
    case True
    have "holder (ca_status r)" if "r \<in> set rows" "ca_id r = strip aid" for r
    proof -
      have "r = old" using tbl_find_mem [of ca_id rows r] assms(2) that old by (simp add: cap_ok_def)
      with holding that True show ?thesis by simp
    qed
    with assms(1,2) old True show ?thesis
      by (auto simp: capacity_mark_started_def err_iffs limit_of_def intro!: cap_update_ok)
  qed
qed

lemma try_admit_Inr:
  assumes "capacity_try_admit now aid cap rows = Inr (out, rows')"
  obtains (same) "rows' = rows"
  | (admit) row where "ca_find (strip aid) rows = Some row" "ca_status row = Queued" "1 \<le> cap" "cap \<le> max_capacity"
      "decide_admit (strip aid) (map view_of (peers (ca_class row) (ca_scope row) rows))
         (if limited (ca_class row)
          then Min (set (cap # map limit_of (holders (ca_class row) (ca_scope row) rows))) else cap)"
      "rows' = ca_update (strip aid) (\<lambda>r. r\<lparr>ca_status := Admitted, ca_admitted_at := Some now,
                     ca_limit := (if limited (ca_class row) then Some cap else None)\<rparr>) rows"
proof -
  let ?ps = "\<lambda>row. peers (ca_class row) (ca_scope row) rows"
  let ?cap = "\<lambda>row. if limited (ca_class row)
    then Min (set (cap # map limit_of (holders (ca_class row) (ca_scope row) rows))) else cap"
  let ?new = "\<lambda>row. ca_update (strip aid) (\<lambda>r. r\<lparr>ca_status := Admitted, ca_admitted_at := Some now,
                     ca_limit := (if limited (ca_class row) then Some cap else None)\<rparr>) rows"
  from assms have e: "(if max_capacity < cap then Inl CapacityTooLarge
       else if cap < 1 then Inr (None, rows)
       else case ca_find (strip aid) rows of None \<Rightarrow> Inr (None, rows)
       | Some row \<Rightarrow>
           if ca_status row \<noteq> Queued then Inr (Some row, rows)
           else if \<not> decide_admit (strip aid) (map view_of (?ps row)) (?cap row) then Inr (None, rows)
           else Inr (ca_find (strip aid) (?new row), ?new row)) = Inr (out, rows')"
    unfolding capacity_try_admit_def ebind_Inr_iff need_Inr Let_def holders_of_peers by blast
  show thesis
  proof (cases "max_capacity < cap \<or> cap < 1")
    case True
    with e have "rows' = rows" by (simp split: if_splits)
    then show thesis by (rule same)
  next
    case range: False
    show thesis
    proof (cases "ca_find (strip aid) rows")
      case None
      with e range have "rows' = rows" by simp
      then show thesis by (rule same)
    next
      case (Some row)
      show thesis
      proof (cases "ca_status row = Queued \<and> decide_admit (strip aid) (map view_of (?ps row)) (?cap row)")
        case True
        with e range Some have "rows' = ?new row" by (simp only: de_Morgan_disj option.case if_False if_True simp_thms prod.inject sum.inject)
        with admit Some True range show thesis by (metis not_less)
      next
        case False
        with e range Some have "rows' = rows" by (auto simp only: de_Morgan_disj option.case if_False if_True simp_thms prod.inject sum.inject split: if_splits)
        then show thesis by (rule same)
      qed
    qed
  qed
qed

lemma try_admit_ok [inv_intros]:
  assumes "capacity_try_admit now aid cap rows = Inr (out, rows')" and "cap_ok rows"
  shows "cap_ok rows'"
  using assms(1)
proof (cases rule: try_admit_Inr)
  case same
  with assms(2) show ?thesis by simp
next
  case (admit row)
  let ?H = "holders (ca_class row) (ca_scope row) rows"
  have room: "int (length ?H) < cap \<and> (\<forall>h \<in> set ?H. int (length ?H) < limit_of h)" if "limited (ca_class row)"
  proof -
    have "int (length ?H) < Min (set (cap # map limit_of ?H))"
      using admit(5) that unfolding decide_admit_iff by (simp add: held_views)
    then show ?thesis by simp
  qed
  have "exclusive rows'"
    unfolding admit(6)
    by (rule exclusive_admit [OF _ _ admit(1)]) (use assms(2) room in \<open>auto simp: cap_ok_def limit_of_def\<close>)
  then show ?thesis using assms(2) admit(6) by (simp add: cap_ok_def keyed_update)
qed

lemma force_admit_ok [inv_intros]:
  assumes "capacity_force_admit now aid rows = Inr (out, rows')" and "cap_ok rows"
    and fg: "\<forall>r. ca_find (strip aid) rows = Some r \<longrightarrow> ca_class r = review_fg"
  shows "cap_ok rows'"
proof (cases "rows' = rows")
  case False
  from assms(1) False obtain row where row: "ca_find (strip aid) rows = Some row"
    and free: "capacity_holder_count review_fg (ca_scope row) rows = 0"
    and rows': "rows' = ca_update (strip aid) (\<lambda>r. r\<lparr>ca_status := Admitted, ca_admitted_at := Some now,
                   ca_limit := (if ca_class r = review_fg then Some 1 else ca_limit r)\<rparr>) rows"
    using fg by (auto simp: capacity_force_admit_def err_iffs Let_def split: if_splits option.splits)
  have "ca_class row = review_fg" using fg row by simp
  then have "exclusive rows'"
    unfolding rows' using free
    by (intro exclusive_admit [OF _ _ row]) (use assms(2) in \<open>auto simp: cap_ok_def limit_of_def capacity_holder_count_def\<close>)
  then show ?thesis using assms(2) rows' by (simp add: cap_ok_def keyed_update)
qed (use assms(2) in simp)

subsection \<open>The admission table as a machine\<close>

text \<open>The operations in \<open>store.py\<close> take any row; the machine has them as the program calls them: a forced
  admission of a foreground slot, and a start only after admission. \<open>Acquire\<close> shows that the loops call them so.\<close>

inductive cap_step :: "admissions \<Rightarrow> admissions \<Rightarrow> bool" where
  cap_enqueue: "capacity_enqueue birth now aid cls scope pid rows = Inr (row, rows') \<Longrightarrow> cap_step rows rows'"
| cap_admit: "capacity_try_admit now aid cap rows = Inr (out, rows') \<Longrightarrow> cap_step rows rows'"
| cap_force: "capacity_force_admit now aid rows = Inr (out, rows')
    \<Longrightarrow> \<forall>r. ca_find (strip aid) rows = Some r \<longrightarrow> ca_class r = review_fg \<Longrightarrow> cap_step rows rows'"
| cap_start: "capacity_mark_started now aid review rows = Inr (row, rows') \<Longrightarrow> not_waiting aid rows \<Longrightarrow> cap_step rows rows'"
| cap_finish: "capacity_finish now aid s why rows = Inr (row, rows') \<Longrightarrow> cap_step rows rows'"
| cap_reclaim: "capacity_reclaim_stale ps cls scope stale now t rows = (ids, rows') \<Longrightarrow> cap_step rows rows'"

lemma cap_step_ok: "cap_step rows rows' \<Longrightarrow> cap_ok rows \<Longrightarrow> cap_ok rows'"
  by (erule cap_step.cases) (auto intro: inv_intros)

lemma cap_ok_Nil [simp]: "cap_ok []"
  by (simp add: cap_ok_def keyed_def exclusive_def holders_def)

interpretation cap: safe_machine "[]" cap_step cap_ok
  by unfold_locales (auto intro: cap_step_ok)

subsection \<open>Positions\<close>

lemma position_sorted:
  assumes "sorted_wrt (<) (map f xs)" and "x \<in> set xs" and "\<And>y. y \<in> set xs \<Longrightarrow> wv_id y = wv_id x \<Longrightarrow> y = x"
  shows "position_in i (wv_id x) xs = Some (i + length (filter (\<lambda>y. f y < (f x :: waiter_key)) xs))"
  using assms
proof (induction xs arbitrary: i)
  case (Cons y ys)
  show ?case
  proof (cases "wv_id y = wv_id x")
    case True
    then have "y = x" using Cons.prems(3) by simp
    moreover have "filter (\<lambda>z. f z < f x) ys = []"
      using Cons.prems(1) \<open>y = x\<close> by (auto simp: filter_empty_conv)
    ultimately show ?thesis by simp
  next
    case False
    then have x: "x \<in> set ys" using Cons.prems(2) by auto
    then have "f y < f x" using Cons.prems(1) by simp
    moreover have "position_in (Suc i) (wv_id x) ys = Some (Suc i + length (filter (\<lambda>y. f y < f x) ys))"
      using Cons.prems(1,3) x by (intro Cons.IH) auto
    ultimately show ?thesis using False by simp
  qed
qed simp

lemma inj_key_of:
  assumes "distinct (map wv_id ws)"
  shows "inj_on key_of (set ws)"
proof (rule inj_onI)
  fix v w
  assume vw: "v \<in> set ws" "w \<in> set ws" and eq: "key_of v = key_of w"
  from assms have "inj_on wv_id (set ws)" by (simp add: distinct_map)
  then show "v = w" using key_of_eq [OF eq] vw by (rule inj_onD)
qed

lemma sorted_keys_strict:
  assumes "distinct (map wv_id ws)"
  shows "sorted_wrt (<) (map key_of (sort_key key_of ws))"
proof -
  have "distinct ws" using assms by (simp add: distinct_map)
  then have "distinct (map key_of (sort_key key_of ws))"
    using inj_key_of [OF assms] by (simp add: distinct_map)
  moreover have "sorted (map key_of (sort_key key_of ws))" by (rule sorted_sort_key)
  ultimately show ?thesis by (simp add: strict_sorted_iff)
qed

lemma length_filter_sort_key: "length (filter P (sort_key f xs)) = length (filter P xs)"
proof -
  have "mset (filter P (sort_key f xs)) = mset (filter P xs)" by simp
  then show ?thesis by (rule mset_eq_length)
qed

subsection \<open>Properties\<close>

text \<open>Admission is first come, first served, and never idle. Exactly the earliest
  queued waiter is admissible (by queueing time, then insertion), and some waiter is admissible
  whenever a slot is free and anyone is queued; there is never more than one.\<close>

theorem decide_admit_fifo:
  "(decide_admit wid ws cap \<longleftrightarrow> int (held ws) < cap \<and>
     (\<exists>w \<in> set ws. wv_status w = Queued \<and> wv_id w = wid \<and>
       (\<forall>v \<in> set ws. wv_status v = Queued \<longrightarrow> key_of w \<le> key_of v)))
   \<and> ((\<exists>!wid. decide_admit wid ws cap) \<longleftrightarrow> int (held ws) < cap \<and> (\<exists>w \<in> set ws. wv_status w = Queued))"
proof (rule conjI [OF decide_admit_iff])
  have one: "wid = wid'" if "decide_admit wid ws cap" "decide_admit wid' ws cap" for wid wid'
    using that by (auto simp: decide_admit_def split: if_splits list.splits)
  have some: "\<exists>wid. decide_admit wid ws cap" if "int (held ws) < cap" "w \<in> set ws" "wv_status w = Queued" for w
  proof -
    have "sort_key key_of (filter (\<lambda>w. wv_status w = Queued) ws) \<noteq> []"
      using that by (metis (mono_tags, lifting) filter_empty_conv length_0_conv length_sort)
    then show ?thesis using that(1) by (auto simp: decide_admit_def held_def neq_Nil_conv)
  qed
  show "(\<exists>!wid. decide_admit wid ws cap) \<longleftrightarrow> int (held ws) < cap \<and> (\<exists>w \<in> set ws. wv_status w = Queued)"
    using one some unfolding decide_admit_iff by blast
qed

theorem decide_admit_fifo_witness:
  "decide_admit ''a'' [\<lparr>wv_id = ''b'', wv_status = Queued, wv_queued_at = ''2026-07-28T12:00:01Z'', wv_order = Some 2\<rparr>,
     \<lparr>wv_id = ''a'', wv_status = Queued, wv_queued_at = ''2026-07-28T12:00:00Z'', wv_order = Some 1\<rparr>] 1"
proof -
  have "\<not> (''2026-07-28T12:00:01Z'' :: string) \<le> ''2026-07-28T12:00:00Z''" by code_simp
  then show ?thesis
    using decide_admit_fifo [of "''a''" "[\<lparr>wv_id = ''b'', wv_status = Queued, wv_queued_at = ''2026-07-28T12:00:01Z'', wv_order = Some 2\<rparr>,
     \<lparr>wv_id = ''a'', wv_status = Queued, wv_queued_at = ''2026-07-28T12:00:00Z'', wv_order = Some 1\<rparr>]" 1]
    by (simp add: held_def key_of_def less_eq_waiter_key_def less_waiter_key_def)
qed

text \<open>C27 (invariant). Mutual exclusion. Whatever the processes sharing the store do, and whatever
  capacities they declare, a foreground or machine slot is never over-committed: every holder
  was promised at most as many concurrent holders as its own declared capacity, and that
  promise still stands. At the default capacity of one there is one holder.\<close>

theorem slots_exclusive:
  assumes "reachable_by [] cap_step rows" and "cls \<in> {review_machine, review_fg}"
    and "h \<in> set rows" and "in_group cls scope h" and "holder (ca_status h)"
  shows "int (capacity_holder_count cls scope rows) \<le> limit_of h
    \<and> (limit_of h = 1 \<longrightarrow> (\<forall>r \<in> set rows. in_group cls scope r \<and> holder (ca_status r) \<longrightarrow> r = h))"
proof -
  from cap.reachable_inv [OF assms(1)] have ex: "exclusive rows" by (simp add: cap_ok_def)
  have h: "h \<in> set (holders cls scope rows)" using assms by (simp add: holders_def)
  have le: "int (length (holders cls scope rows)) \<le> limit_of h"
    using exclusiveD [OF ex _ h] assms(2) by (simp add: limited_def)
  have "r = h" if "limit_of h = 1" "r \<in> set rows" "in_group cls scope r" "holder (ca_status r)" for r
  proof -
    have r: "r \<in> set (holders cls scope rows)" using that by (simp add: holders_def)
    have "length (holders cls scope rows) \<le> 1" using le that(1) by simp
    then have "holders cls scope rows = [h]"
      using h by (cases "holders cls scope rows") auto
    with r show ?thesis by simp
  qed
  with le show ?thesis by (auto simp: capacity_holder_count_def)
qed

definition sample_machine_row :: admission where
  "sample_machine_row = \<lparr>ca_id = ''m1'', ca_class = review_machine, ca_scope = ''host'', ca_status = Queued,
     ca_queued_at = ''2026-07-28T12:00:00Z'', ca_admitted_at = None, ca_started_at = None, ca_ended_at = None,
     ca_wait_ms = None, ca_queue_wait_ms = None, ca_run_ms = None, ca_total_ms = None, ca_reason = None,
     ca_pid = Some 7, ca_owner = Some ''b7'', ca_limit = None, ca_review = None, ca_rowid = 1\<rparr>"

definition sample_admitted_row :: admission where
  "sample_admitted_row = sample_machine_row\<lparr>ca_status := Admitted, ca_admitted_at := Some ''2026-07-28T12:00:01Z'',
     ca_limit := Some 1\<rparr>"

lemma strip_samples [simp]:
  "strip ''m1'' = ''m1''" "strip ''host'' = ''host''" "strip review_machine = review_machine"
  by code_simp+

lemma sample_machine_run:
  "capacity_enqueue (\<lambda>p. Some ''b7'') ''2026-07-28T12:00:00Z'' ''m1'' review_machine ''host'' (Some 7) []
     = Inr (sample_machine_row, [sample_machine_row])"
  "capacity_try_admit ''2026-07-28T12:00:01Z'' ''m1'' 1 [sample_machine_row]
     = Inr (Some sample_admitted_row, [sample_admitted_row])"
  by (simp_all add: capacity_enqueue_def capacity_try_admit_def need_def sample_machine_row_def sample_admitted_row_def
      max_capacity_def peers_def in_group_def view_of_def decide_admit_def limited_def tbl_update_def Let_def
      del: set_filter)

lemma sample_reachable: "reachable_by [] cap_step [sample_admitted_row]"
proof -
  have "reachable_by [] cap_step [sample_machine_row]"
    by (rule reachable_by.intros(2) [OF reachable_by.intros(1)]) (rule cap_enqueue [OF sample_machine_run(1)])
  then show ?thesis by (rule reachable_by.intros(2)) (rule cap_admit [OF sample_machine_run(2)])
qed

theorem slots_exclusive_witness:
  "int (capacity_holder_count review_machine ''host'' [sample_admitted_row]) \<le> limit_of sample_admitted_row"
proof -
  have "sample_admitted_row \<in> set [sample_admitted_row]"
    "in_group review_machine ''host'' sample_admitted_row" "holder (ca_status sample_admitted_row)"
    by (simp_all add: sample_admitted_row_def sample_machine_row_def in_group_def)
  from slots_exclusive [OF sample_reachable _ this] show ?thesis by simp
qed

text \<open>No overtaking: an admission turns a queued row of its own into an admitted one
  while the class and scope hold fewer rows than the capacity, and every row still queued there
  arrived no earlier.\<close>

theorem admission_never_overtakes:
  assumes "keyed ca_id rows" and "capacity_try_admit now aid cap rows = Inr (out, rows')" and "rows' \<noteq> rows"
  shows "\<exists>row. ca_find (strip aid) rows = Some row \<and> ca_status row = Queued
    \<and> int (capacity_holder_count (ca_class row) (ca_scope row) rows) < cap
    \<and> (\<forall>r \<in> set rows. in_group (ca_class row) (ca_scope row) r \<and> ca_status r = Queued \<longrightarrow>
         ca_queued_at row < ca_queued_at r
         \<or> ca_queued_at row = ca_queued_at r \<and> ca_rowid row \<le> ca_rowid r)"
  using assms(2)
proof (cases rule: try_admit_Inr)
  case same
  with assms(3) show ?thesis by simp
next
  case (admit row)
  let ?ps = "peers (ca_class row) (ca_scope row) rows"
  let ?cap = "if limited (ca_class row) then Min (set (cap # map limit_of (holders (ca_class row) (ca_scope row) rows))) else cap"
  from admit(5) obtain x where held: "int (held (map view_of ?ps)) < ?cap"
    and x: "x \<in> set ?ps" "wv_id (view_of x) = strip aid"
      "\<forall>v \<in> set (map view_of ?ps). wv_status v = Queued \<longrightarrow> key_of (view_of x) \<le> key_of v"
    unfolding decide_admit_iff by auto
  have "x \<in> set rows" "ca_id x = strip aid" using x by (simp_all add: peers_def view_of_def)
  then have "x = row" using tbl_find_mem [OF assms(1), of x] admit(1) by simp
  have "?cap \<le> cap" by simp
  with held have n: "int (capacity_holder_count (ca_class row) (ca_scope row) rows) < cap"
    unfolding held_views capacity_holder_count_def by linarith
  have le: "ca_queued_at row < ca_queued_at r \<or> ca_queued_at row = ca_queued_at r \<and> ca_rowid row \<le> ca_rowid r"
    if "r \<in> set rows" "in_group (ca_class row) (ca_scope row) r" "ca_status r = Queued" for r
  proof -
    have "view_of r \<in> set (map view_of ?ps)" "wv_status (view_of r) = Queued"
      using that by (auto simp: peers_def view_of_def)
    then have "key_of (view_of row) \<le> key_of (view_of r)" using x(3) unfolding \<open>x = row\<close> by blast
    then show ?thesis
      by (auto simp: key_of_def view_of_def less_eq_waiter_key_def less_waiter_key_def)
  qed
  show ?thesis using admit(1,2) n le by (intro exI [of _ row]) simp
qed

theorem admission_never_overtakes_witness:
  "\<exists>row. ca_find (strip ''m1'') [sample_machine_row] = Some row \<and> ca_status row = Queued"
proof -
  have "keyed ca_id [sample_machine_row]" "[sample_admitted_row] \<noteq> [sample_machine_row]"
    by (simp_all add: keyed_def sample_admitted_row_def sample_machine_row_def)
  from admission_never_overtakes [OF this(1) sample_machine_run(2) this(2)] show ?thesis by blast
qed

text \<open>The queue position shown to a waiter is one more than the number of active rows
  of its class and scope that precede it in the admission order.\<close>

theorem position_counts_earlier:
  assumes "keyed ca_id rows" and "r \<in> set rows" and "active (ca_status r)" and "strip (ca_id r) = ca_id r"
  shows "capacity_position (ca_id r) rows = Some (Suc (length (filter (\<lambda>q. in_group (ca_class r) (ca_scope r) q
    \<and> active (ca_status q) \<and> key_of (view_of q) < key_of (view_of r)) rows)))"
proof -
  let ?ps = "peers (ca_class r) (ca_scope r) rows"
  let ?vs = "capacity_active_views (ca_class r) (ca_scope r) rows"
  have "distinct (map ca_id ?ps)"
    using assms(1) unfolding keyed_def peers_def by (rule distinct_map_filter)
  then have "distinct (map wv_id (map view_of ?ps))" by (simp add: view_of_def comp_def)
  moreover have "mset (map wv_id ?vs) = mset (map wv_id (map view_of ?ps))"
    by (simp add: capacity_active_views_def)
  ultimately have d: "distinct (map wv_id ?vs)" by (metis mset_eq_imp_distinct_iff)
  have mem: "view_of r \<in> set (sort_key key_of ?vs)"
    using assms by (auto simp: capacity_active_views_def peers_def in_group_def)
  have one: "y = view_of r" if "y \<in> set (sort_key key_of ?vs)" "wv_id y = wv_id (view_of r)" for y
    using d that mem by (auto simp: distinct_map dest: inj_onD)
  have len: "length (filter P ?vs) = length (filter (P \<circ> view_of) ?ps)" for P
    by (simp add: capacity_active_views_def filter_map length_filter_sort_key)
  have "position_in 1 (wv_id (view_of r)) (sort_key key_of ?vs)
      = Some (1 + length (filter (\<lambda>y. key_of y < key_of (view_of r)) ?vs))"
    using position_sorted [OF sorted_keys_strict [OF d] mem one] by (simp add: length_filter_sort_key)
  moreover have "ca_find (strip (ca_id r)) rows = Some r"
    unfolding assms(4) by (rule tbl_find_mem [OF assms(1,2)])
  ultimately show ?thesis
    using assms(3) unfolding len
    by (simp add: capacity_position_def queue_position_among_def view_of_def peers_def comp_def conj_commute conj_left_commute)
qed

theorem position_counts_earlier_witness:
  "capacity_position ''m1'' [sample_machine_row] = Some 1"
proof -
  have "keyed ca_id [sample_machine_row]" "sample_machine_row \<in> set [sample_machine_row]"
    "active (ca_status sample_machine_row)" "strip (ca_id sample_machine_row) = ca_id sample_machine_row"
    by (simp_all add: keyed_def sample_machine_row_def)
  from position_counts_earlier [OF this] show ?thesis by (simp add: sample_machine_row_def)
qed

lemma tbl_update_keeps: "r \<in> set rows \<Longrightarrow> \<not> p r \<Longrightarrow> r \<in> set (tbl_update p f rows)"
  by (force simp: tbl_update_def)

lemma ended_not_found:
  assumes "keyed ca_id rows" and "r \<in> set rows" and "\<not> active (ca_status r)" and "ca_find aid rows = Some q"
    and "active (ca_status q)"
  shows "ca_id r \<noteq> aid"
  using tbl_find_mem [OF assms(1,2)] assms(3-5) by auto

lemma ended_kept:
  assumes "cap_step rows rows'" and "keyed ca_id rows" and "r \<in> set rows" and "\<not> active (ca_status r)"
  shows "r \<in> set rows'"
  using assms(1)
proof cases
  case (cap_enqueue birth now aid cls scope pid row)
  then show ?thesis using assms(3) by (auto simp: capacity_enqueue_def err_iffs Let_def split: if_splits)
next
  case (cap_admit now aid cap out)
  from cap_admit show ?thesis
  proof (cases rule: try_admit_Inr)
    case (admit row)
    then have "ca_id r \<noteq> strip aid" using ended_not_found [OF assms(2-4) admit(1)] by simp
    then show ?thesis unfolding admit(6) by (intro tbl_update_keeps) (use assms(3) in simp_all)
  qed (use assms(3) in simp)
next
  case (cap_force now aid out)
  then show ?thesis using assms(3) ended_not_found [OF assms(2-4), of "strip aid"]
    by (auto simp: capacity_force_admit_def err_iffs Let_def split: if_splits option.splits intro!: tbl_update_keeps)
next
  case (cap_start now aid review row)
  then show ?thesis using assms(3) ended_not_found [OF assms(2-4), of "strip aid"]
    by (auto simp: capacity_mark_started_def err_iffs Let_def split: if_splits option.splits intro!: tbl_update_keeps)
next
  case (cap_finish now aid s why row)
  then show ?thesis using assms(3) ended_not_found [OF assms(2-4), of "strip aid"]
    by (auto simp: capacity_finish_def err_iffs Let_def split: if_splits option.splits intro!: tbl_update_keeps)
next
  case (cap_reclaim ps cls scope stale now t ids)
  then show ?thesis using assms(3,4)
    by (auto simp: capacity_reclaim_stale_def Let_def intro!: tbl_update_keeps)
qed

text \<open>An ended admission is final: no operation on the table changes or removes a row that
  was released, expired or rejected.\<close>

theorem ended_admission_final:
  assumes "reachable_by [] cap_step rows" and "r \<in> set rows" and "\<not> active (ca_status r)"
    and "reachable_by rows cap_step rows'"
  shows "r \<in> set rows'"
proof -
  have "keyed ca_id rows" using cap.reachable_inv [OF assms(1)] by (simp add: cap_ok_def)
  from assms(4) have "r \<in> set rows' \<and> cap_ok rows'"
    by (induction rule: reachable_by.induct)
      (use assms(2,3) cap.reachable_inv [OF assms(1)] in \<open>auto simp: cap_ok_def intro: ended_kept dest: cap_step_ok\<close>)
  then show ?thesis by simp
qed

theorem ended_admission_final_witness:
  "end_row Released ''2026-07-28T12:00:09Z'' None sample_admitted_row
       \<in> set [end_row Released ''2026-07-28T12:00:09Z'' None sample_admitted_row]"
proof -
  let ?e = "end_row Released ''2026-07-28T12:00:09Z'' None sample_admitted_row"
  have "capacity_finish ''2026-07-28T12:00:09Z'' ''m1'' Released None [sample_admitted_row] = Inr (?e, [?e])"
    by (simp add: capacity_finish_def need_def sample_admitted_row_def sample_machine_row_def tbl_update_def)
  then have "reachable_by [] cap_step [?e]"
    by (rule reachable_by.intros(2) [OF sample_reachable cap_finish])
  from ended_admission_final [OF this _ _ reachable_by.intros(1)] show "?e \<in> set [?e]" by simp
qed

text \<open>A living holder is not reclaimed. Whatever its age, a sweep leaves a row alone when its
  process is alive and, for a machine slot, is still the process that took it (or its birth was
  never observed), or, for any other class, when it is still waiting its turn.\<close>

theorem living_process_not_reclaimed:
  assumes "keyed ca_id rows" and "r \<in> set rows" and "ca_pid r = Some p" and "0 < p" and "pr_alive ps p"
    and "pr_observe ps p = (token, False)"
    and "if cls = review_machine then \<not> truthy_text (ca_owner r) \<or> \<not> truthy_text token \<or> token = ca_owner r
         else ca_status r = Queued"
    and "capacity_reclaim_stale ps cls scope stale now t rows = (ids, rows')"
  shows "r \<in> set rows' \<and> ca_id r \<notin> set ids"
proof -
  have none: "reclaim_reason ps cls stale now r = None"
  proof (cases "cls = review_machine")
    case True
    then show ?thesis using assms(4,5,7) by (simp add: reclaim_reason_def assms(3,6) Let_def)
  next
    case False
    have "should_reclaim_admission Queued (Some p) at stale now (pr_alive ps) = None" for at
      using assms(4,5) by (simp add: should_reclaim_admission_def Let_def split: option.split)
    then show ?thesis using False assms(7) by (simp add: reclaim_reason_def assms(3,6) Let_def)
  qed
  have one: "q = r" if "q \<in> set rows" "ca_id q = ca_id r" for q
    by (rule keyed_unique [OF assms(1) that(1) assms(2) that(2)])
  from assms(8) have ids: "set ids = ca_id ` {q \<in> set rows. in_group cls scope q \<and> active (ca_status q) \<and> reclaim_reason ps cls stale now q \<noteq> None}"
    and rows': "rows' = tbl_update (\<lambda>r. in_group cls scope r \<and> active (ca_status r) \<and> reclaim_reason ps cls stale now r \<noteq> None)
        (\<lambda>r. end_row Rejected t (map_option reason_text (reclaim_reason ps cls stale now r)) r) rows"
    by (auto simp: capacity_reclaim_stale_def Let_def)
  have "r \<in> set rows'" unfolding rows' using assms(2) none by (intro tbl_update_keeps) auto
  moreover have "ca_id r \<notin> set ids" unfolding ids using one none by force
  ultimately show ?thesis by simp
qed

theorem living_process_not_reclaimed_witness:
  "sample_machine_row \<in> set (snd (capacity_reclaim_stale
     \<lparr>pr_alive = \<lambda>p. p = 7, pr_custom = False, pr_observe = \<lambda>p. (Some ''b7'', False)\<rparr>
     review_machine ''host'' 0 99999999999 ''2026-07-28T13:00:00Z'' [sample_machine_row]))"
  using living_process_not_reclaimed [of "[sample_machine_row]" sample_machine_row 7
      "\<lparr>pr_alive = \<lambda>p. p = 7, pr_custom = False, pr_observe = \<lambda>p. (Some ''b7'', False)\<rparr>" "Some ''b7''"
      review_machine "''host''" 0 99999999999 "''2026-07-28T13:00:00Z''"]
  by (simp add: keyed_def sample_machine_row_def prod_eq_iff)

text \<open>Settings never starve or overrun: for every configuration and environment the foreground
  capacity is at least one and at most the machine capacity, and a repository's own settings can
  only tighten what the host allows.\<close>

theorem capacity_settings_bounds:
  "1 \<le> resolved_fg_capacity cfg fg_env machine_env
   \<and> resolved_fg_capacity cfg fg_env machine_env \<le> resolved_machine_capacity cfg machine_env
   \<and> resolved_machine_capacity cfg machine_env \<le> resolved_machine_capacity (cfg\<lparr>cs_repo_machine := PNone\<rparr>) machine_env
   \<and> resolved_fg_capacity cfg fg_env machine_env
       \<le> resolved_fg_capacity (cfg\<lparr>cs_repo_machine := PNone, cs_repo_review_fg := PNone\<rparr>) fg_env machine_env"
proof -
  have env: "1 \<le> slots_from_env e" for e
    by (auto simp: slots_from_env_def Let_def split: option.splits)
  have cfg1: "1 \<le> m" if "at_least_one v = Some m" for v m
    using that by (cases v) (auto split: if_splits)
  have tight: "1 \<le> n \<Longrightarrow> 1 \<le> tighten n v" "tighten n v \<le> n" for n v
    using cfg1 [of v] by (auto simp: tighten_def split: option.splits)
  have base: "1 \<le> (if env_set e then slots_from_env e
      else case at_least_one v of None \<Rightarrow> slots_from_env e | Some m \<Rightarrow> m)" for e v
    using env [of e] cfg1 [of v] by (auto split: option.splits)
  have none: "tighten n PNone = n" for n by (simp add: tighten_def)
  have sel: "cs_machine (c\<lparr>cs_repo_machine := v\<rparr>) = cs_machine c" "cs_repo_machine (c\<lparr>cs_repo_machine := v\<rparr>) = v"
    "cs_review_fg (c\<lparr>cs_repo_machine := v, cs_repo_review_fg := u\<rparr>) = cs_review_fg c"
    "cs_repo_review_fg (c\<lparr>cs_repo_machine := v, cs_repo_review_fg := u\<rparr>) = u" for c v u
    by simp_all
  have m: "1 \<le> resolved_machine_capacity cfg machine_env"
    unfolding resolved_machine_capacity_def by (rule tight(1)) (rule base)
  have m': "resolved_machine_capacity cfg machine_env \<le> resolved_machine_capacity (cfg\<lparr>cs_repo_machine := PNone\<rparr>) machine_env"
    unfolding resolved_machine_capacity_def sel none by (rule tight(2))
  let ?fg = "if env_set fg_env then slots_from_env fg_env
      else case at_least_one (cs_review_fg cfg) of None \<Rightarrow> slots_from_env fg_env | Some m \<Rightarrow> m"
  have f: "1 \<le> tighten ?fg (cs_repo_review_fg cfg)" "tighten ?fg (cs_repo_review_fg cfg) \<le> ?fg"
    by (rule tight(1), rule base) (rule tight(2))
  have same: "resolved_machine_capacity (cfg\<lparr>cs_repo_machine := PNone, cs_repo_review_fg := PNone\<rparr>) machine_env
      = resolved_machine_capacity (cfg\<lparr>cs_repo_machine := PNone\<rparr>) machine_env"
    by (simp add: resolved_machine_capacity_def)
  have eff: "1 \<le> effective_fg_capacity a k \<and> effective_fg_capacity a k \<le> k \<and> effective_fg_capacity a k \<le> effective_fg_capacity b l"
    if "1 \<le> a" "a \<le> b" "1 \<le> k" "k \<le> l" for a b k l
    using that by (simp add: effective_fg_capacity_def min_le_iff_disj)
  from eff [OF f m m'] m' show ?thesis
    by (simp only: resolved_fg_capacity_def same sel none)
qed

end
