(* ===== verification/Acquire.thy ===== *)
theory Acquire
  imports Capacity
begin

section \<open>Acquire: waiting for a slot\<close>

text \<open>
  Models the waiting loops of \<open>capacity.py\<close>: \<open>acquire\<close>, the inner loop that also takes the legacy
  foreground lock, \<open>acquire_for_fg\<close> with its outer machine ticket, and \<open>finish\<close>. The loop polls; a
  list of polls says what each poll observes, and what the other processes did to the table between
  its store calls. A run over a list that ends before the loop does is \<open>StillWaiting\<close>. Clock
  readings are whole ticks. The reading of positions and the progress lines change no state and are
  left out, as is the retry after an SQLite error.
\<close>

datatype fault = StoreFault cap_error | LinkLost | ObservationLost

datatype outcome = Acquired | GaveUp | WasCancelled | LostRace | Broke fault | StillWaiting

record poll =
  po_peers_top :: "admissions \<Rightarrow> admissions"   \<comment> \<open>what others do before the poll\<close>
  po_peers_mid :: "admissions \<Rightarrow> admissions"   \<comment> \<open>between the sweep and the admission\<close>
  po_peers_end :: "admissions \<Rightarrow> admissions"   \<comment> \<open>after the admission\<close>
  po_cancelled :: bool
  po_clock_top :: int
  po_clock_end :: int
  po_capacity_fn :: "int option option"   \<comment> \<open>the call of \<open>capacity_fn\<close>, if there is one: \<open>None\<close> is a fault\<close>
  po_lost :: bool                         \<comment> \<open>\<open>budgets.record_capacity\<close> raises\<close>
  po_lock :: bool                         \<comment> \<open>\<open>try_lock\<close>\<close>
  po_processes :: processes
  po_epoch :: int
  po_now :: string                        \<comment> \<open>the store's wall clock\<close>

subsection \<open>The operations on a ticket\<close>

text \<open>\<open>finish(store, ticket)\<close> for one row.\<close>

definition ticket_finish :: "string \<Rightarrow> string \<Rightarrow> status \<Rightarrow> string option \<Rightarrow> admissions \<Rightarrow> cap_error + admissions" where
  "ticket_finish now aid s why rows =
     (case capacity_finish now aid s why rows of
        Inr (row, rows') \<Rightarrow> Inr rows'
      | Inl e \<Rightarrow> ebind (need aid) (\<lambda>aid. if ca_find aid rows \<noteq> None then Inl e else Inr rows))"

text \<open>\<open>finish\<close> with the machine ticket a foreground ticket holds: the ticket, then its parent.\<close>

definition finish_with_parent ::
    "string \<Rightarrow> string \<Rightarrow> string option \<Rightarrow> status \<Rightarrow> string option \<Rightarrow> admissions \<Rightarrow> cap_error + admissions" where
  "finish_with_parent now aid parent s why rows =
     ebind (ticket_finish now aid s why rows) (\<lambda>rows.
       case parent of None \<Rightarrow> Inr rows | Some pid \<Rightarrow> ticket_finish now pid s why rows)"

definition resolve_capacity :: "int option \<Rightarrow> int option option \<Rightarrow> int" where
  "resolve_capacity capacity capacity_fn =
     (case capacity_fn of
        Some r \<Rightarrow> (case r of None \<Rightarrow> 1 | Some v \<Rightarrow> if 0 \<le> v then v else 1)
      | None \<Rightarrow> (case capacity of None \<Rightarrow> 1 | Some v \<Rightarrow> if v < 0 then 1 else v))"

text \<open>The handler \<open>except BaseException\<close> of both loops: \<open>st\<close> is the status the ticket was last
  seen in.\<close>

definition abort :: "string \<Rightarrow> string \<Rightarrow> status \<Rightarrow> fault \<Rightarrow> admissions \<Rightarrow> outcome \<times> admissions" where
  "abort now aid st f rows =
     (if active st
      then (case ticket_finish now aid Rejected (Some ''error'') rows of
              Inl e \<Rightarrow> (Broke (StoreFault e), rows) | Inr rows' \<Rightarrow> (Broke f, rows'))
      else (Broke f, rows))"

text \<open>Finish the ticket and raise \<open>out\<close>.\<close>

definition quit :: "string \<Rightarrow> string \<Rightarrow> status \<Rightarrow> status \<Rightarrow> reason \<Rightarrow> outcome \<Rightarrow> admissions \<Rightarrow> outcome \<times> admissions" where
  "quit now aid st s why out rows =
     (case ticket_finish now aid s (Some (reason_text why)) rows of
        Inr rows' \<Rightarrow> (out, rows') | Inl e \<Rightarrow> abort now aid st (StoreFault e) rows)"

text \<open>Mark the admitted ticket as running and return it.\<close>

definition start :: "string \<Rightarrow> string \<Rightarrow> status \<Rightarrow> admissions \<Rightarrow> outcome \<times> admissions" where
  "start now aid st rows =
     (case capacity_mark_started now aid None rows of
        Inr (row, rows') \<Rightarrow> (Acquired, rows') | Inl e \<Rightarrow> abort now aid st (StoreFault e) rows)"

subsection \<open>The store-only loop: \<open>acquire\<close>\<close>

text \<open>What a poll decides: the loop ends, or goes on with the capacity observed, the status the
  ticket was last seen in and the table.\<close>

datatype verdict = Stop outcome admissions | Go "int option" status admissions

abbreviation stop :: "outcome \<times> admissions \<Rightarrow> verdict" where
  "stop r \<equiv> Stop (fst r) (snd r)"

definition seen :: "status \<Rightarrow> admission option \<Rightarrow> status" where
  "seen st out = (case out of None \<Rightarrow> st | Some r \<Rightarrow> ca_status r)"

definition sweep :: "poll \<Rightarrow> string \<Rightarrow> string \<Rightarrow> int \<Rightarrow> admissions \<Rightarrow> admissions" where
  "sweep p cls scope stale rows =
     snd (capacity_reclaim_stale (po_processes p) (strip cls) (strip scope) stale (po_epoch p) (po_now p) rows)"

definition poll_once ::
    "string \<Rightarrow> string \<Rightarrow> string \<Rightarrow> int option \<Rightarrow> int \<Rightarrow> int \<Rightarrow> poll \<Rightarrow> bool \<Rightarrow> int option \<Rightarrow> status \<Rightarrow> admissions \<Rightarrow> verdict" where
  "poll_once aid cls scope capacity stale deadline p attempted observed st rows =
     (let rows = po_peers_top p rows in
      if po_cancelled p then stop (quit (po_now p) aid st Rejected Cancelled WasCancelled rows)
      else if attempted \<and> deadline - po_clock_top p \<le> 0
      then stop (quit (po_now p) aid st Expired TimedOut GaveUp rows)
      else
        let rows = po_peers_mid p (sweep p cls scope stale rows);
            cap = resolve_capacity capacity (po_capacity_fn p) in
        if Some cap \<noteq> observed \<and> po_lost p then stop (abort (po_now p) aid st ObservationLost rows)
        else case capacity_try_admit (po_now p) aid cap rows of
          Inl e \<Rightarrow> stop (abort (po_now p) aid st (StoreFault e) rows)
        | Inr (out, rows) \<Rightarrow>
            let st = seen st out; rows = po_peers_end p rows in
            if holder st then stop (start (po_now p) aid st rows)
            else if deadline - po_clock_end p \<le> 0
            then stop (quit (po_now p) aid st Expired TimedOut GaveUp rows)
            else Go (Some cap) st rows)"

fun wait_loop ::
    "string \<Rightarrow> string \<Rightarrow> string \<Rightarrow> int option \<Rightarrow> int \<Rightarrow> int \<Rightarrow> poll list \<Rightarrow> bool \<Rightarrow> int option \<Rightarrow> status \<Rightarrow> admissions
      \<Rightarrow> outcome \<times> admissions" where
  "wait_loop aid cls scope capacity stale deadline [] attempted observed st rows = (StillWaiting, rows)"
| "wait_loop aid cls scope capacity stale deadline (p # ps) attempted observed st rows =
     (case poll_once aid cls scope capacity stale deadline p attempted observed st rows of
        Stop out rows \<Rightarrow> (out, rows)
      | Go observed st rows \<Rightarrow> wait_loop aid cls scope capacity stale deadline ps True observed st rows)"

text \<open>\<open>enqueue\<close>: the row, then its link to the request, whose failure ends the row again and raises.
  \<open>aid\<close> is the fresh id of the ticket, \<open>pid\<close> the caller's process.\<close>

record owner =
  ow_id :: string
  ow_pid :: int
  ow_birth :: "int \<Rightarrow> string option"
  ow_link_ok :: bool
  ow_now :: string

definition enqueue :: "owner \<Rightarrow> string \<Rightarrow> string \<Rightarrow> admissions \<Rightarrow> outcome \<times> admissions + admissions" where
  "enqueue ow cls scope rows =
     (case capacity_enqueue (ow_birth ow) (ow_now ow) (ow_id ow) cls scope (Some (ow_pid ow)) rows of
        Inl e \<Rightarrow> Inl (Broke (StoreFault e), rows)
      | Inr (row, rows) \<Rightarrow>
          if ow_link_ok ow then Inr rows
          else (case ticket_finish (ow_now ow) (ow_id ow) Rejected (Some ''request_link_failed'') rows of
                  Inl e \<Rightarrow> Inl (Broke (StoreFault e), rows) | Inr rows' \<Rightarrow> Inl (Broke LinkLost, rows')))"

definition acquire ::
    "owner \<Rightarrow> string \<Rightarrow> string \<Rightarrow> int option \<Rightarrow> int \<Rightarrow> int \<Rightarrow> poll list \<Rightarrow> admissions \<Rightarrow> outcome \<times> admissions" where
  "acquire ow cls scope capacity stale deadline ps rows =
     (case enqueue ow cls scope rows of
        Inl r \<Rightarrow> r
      | Inr rows \<Rightarrow> wait_loop (ow_id ow) cls scope capacity stale deadline ps False None Queued rows)"

subsection \<open>The loop that takes the foreground lock: \<open>_acquire_repo_fg\<close>\<close>

definition poll_locked ::
    "string \<Rightarrow> string \<Rightarrow> int \<Rightarrow> int \<Rightarrow> int \<Rightarrow> poll \<Rightarrow> bool \<Rightarrow> status \<Rightarrow> admissions \<Rightarrow> verdict" where
  "poll_locked aid scope cap stale deadline p attempted st rows =
     (let rows = po_peers_top p rows in
      if po_cancelled p then stop (quit (po_now p) aid st Rejected Cancelled WasCancelled rows)
      else if attempted \<and> deadline - po_clock_top p \<le> 0
      then stop (quit (po_now p) aid st Expired TimedOut GaveUp rows)
      else
        let rows = po_peers_mid p (sweep p review_fg scope stale rows);
            onward = (\<lambda>rows. if deadline - po_clock_end p \<le> 0
              then stop (quit (po_now p) aid st Expired TimedOut GaveUp rows)
              else Go None st rows) in
        if \<not> (decide_admit aid (capacity_active_views review_fg (strip scope) rows) (min cap 1) \<and> po_lock p)
        then onward (po_peers_end p rows)
        else case capacity_force_admit (po_now p) aid rows of
          Inl e \<Rightarrow> stop (abort (po_now p) aid st (StoreFault e) rows)
        | Inr (None, rows) \<Rightarrow> stop (quit (po_now p) aid st Rejected AdmitRace LostRace rows)
        | Inr (Some r, rows) \<Rightarrow> stop (start (po_now p) aid (ca_status r) (po_peers_end p rows)))"

fun wait_locked ::
    "string \<Rightarrow> string \<Rightarrow> int \<Rightarrow> int \<Rightarrow> int \<Rightarrow> poll list \<Rightarrow> bool \<Rightarrow> status \<Rightarrow> admissions \<Rightarrow> outcome \<times> admissions" where
  "wait_locked aid scope cap stale deadline [] attempted st rows = (StillWaiting, rows)"
| "wait_locked aid scope cap stale deadline (p # ps) attempted st rows =
     (case poll_locked aid scope cap stale deadline p attempted st rows of
        Stop out rows \<Rightarrow> (out, rows)
      | Go _ st rows \<Rightarrow> wait_locked aid scope cap stale deadline ps True st rows)"

text \<open>\<open>lock\<close> says whether a lock is to be taken, \<open>lost\<close> that recording the capacity fails.\<close>

definition acquire_repo_fg ::
    "owner \<Rightarrow> bool \<Rightarrow> bool \<Rightarrow> string \<Rightarrow> int \<Rightarrow> int \<Rightarrow> int \<Rightarrow> poll list \<Rightarrow> admissions \<Rightarrow> outcome \<times> admissions" where
  "acquire_repo_fg ow lock lost scope capacity stale deadline ps rows =
     (if \<not> lock then acquire ow review_fg scope (Some capacity) stale deadline ps rows
      else case enqueue ow review_fg scope rows of
        Inl r \<Rightarrow> r
      | Inr rows \<Rightarrow>
          if lost then abort (ow_now ow) (ow_id ow) Queued ObservationLost rows
          else wait_locked (ow_id ow) scope (if capacity < 1 then 1 else capacity) stale deadline ps False Queued rows)"

subsection \<open>Both slots: \<open>acquire_for_fg\<close>\<close>

definition at_least1 :: "int option \<Rightarrow> int" where
  "at_least1 c = (case c of None \<Rightarrow> 1 | Some v \<Rightarrow> if v < 1 then 1 else v)"

text \<open>\<open>mo\<close> and \<open>io\<close> own the machine ticket and the inner ticket, \<open>mps\<close> and \<open>ips\<close> are what their
  polls observe; neither loop has a \<open>capacity_fn\<close>. The inner deadline is what is left of the
  outer one at the reading \<open>clock\<close>, and never negative from there. \<open>machine\<close> is
  \<open>machine_capacity\<close>, or what the environment says in its absence.\<close>

definition no_capacity_fn :: "poll list \<Rightarrow> poll list" where
  "no_capacity_fn = map (\<lambda>p. p\<lparr>po_capacity_fn := None\<rparr>)"

record fg_request =
  fg_scope :: string
  fg_capacity :: "int option"
  fg_machine :: int
  fg_stale :: int
  fg_deadline :: int
  fg_lock :: bool
  fg_lost :: bool
  fg_clock :: int      \<comment> \<open>the reading between the two tickets\<close>
  fg_clock_in :: int   \<comment> \<open>the reading the inner loop starts from\<close>
  fg_peers :: "admissions \<Rightarrow> admissions"
  fg_now :: string

definition acquire_for_fg ::
    "owner \<Rightarrow> owner \<Rightarrow> fg_request \<Rightarrow> poll list \<Rightarrow> poll list \<Rightarrow> admissions \<Rightarrow> outcome \<times> admissions" where
  "acquire_for_fg mo io rq mps ips rows =
     (let machine = at_least1 (Some (fg_machine rq));
          inner = effective_fg_capacity (at_least1 (fg_capacity rq)) machine in
      case acquire mo review_machine ''*'' (Some machine) (fg_stale rq) (fg_deadline rq) (no_capacity_fn mps) rows of
        (mout, rows) \<Rightarrow>
          if mout \<noteq> Acquired then (mout, rows)
          else case acquire_repo_fg io (fg_lock rq) (fg_lost rq) (fg_scope rq) inner (fg_stale rq)
                  (fg_clock_in rq + max (fg_deadline rq - fg_clock rq) 0) (no_capacity_fn ips) (fg_peers rq rows) of
            (out, rows) \<Rightarrow>
              if out \<in> {Acquired, StillWaiting} then (out, rows)
              else (case ticket_finish (fg_now rq) (ow_id mo) Rejected (Some ''inner_admit_failed'') rows of
                      Inl e \<Rightarrow> (Broke (StoreFault e), rows) | Inr rows' \<Rightarrow> (out, rows')))"

subsection \<open>Rows keep their class and never queue again\<close>

lemma find_append: "tbl_find key k (xs @ ys) = (case tbl_find key k xs of None \<Rightarrow> tbl_find key k ys | Some r \<Rightarrow> Some r)"
  by (induction xs) auto

text \<open>How the row of one id may change.\<close>

definition moves_on :: "admission \<Rightarrow> admission \<Rightarrow> bool" where
  "moves_on r r' \<longleftrightarrow> ca_class r' = ca_class r \<and> (ca_status r \<noteq> Queued \<longrightarrow> ca_status r' \<noteq> Queued)
     \<and> (active (ca_status r') \<longrightarrow> active (ca_status r))"

lemma moves_on_refl [simp]: "moves_on r r"
  by (simp add: moves_on_def)

lemma moves_on_trans: "moves_on q r \<Longrightarrow> moves_on r s \<Longrightarrow> moves_on q s"
  by (auto simp: moves_on_def)

lemma moves_on_update:
  assumes "ca_find k rows = Some r" and "\<And>r. ca_id (f r) = ca_id r" and "p r \<Longrightarrow> moves_on r (f r)"
  shows "\<exists>r'. ca_find k (tbl_update p f rows) = Some r' \<and> moves_on r r'"
  using assms by (simp add: tbl_find_update)

lemma moves_on_update_id:
  assumes "ca_find k rows = Some r" and "ca_find aid rows = Some q" and "\<And>r. ca_id (f r) = ca_id r"
    and "moves_on q (f q)"
  shows "\<exists>r'. ca_find k (ca_update aid f rows) = Some r' \<and> moves_on r r'"
proof (rule moves_on_update [OF assms(1,3)])
  assume "ca_id r = aid"
  moreover have "ca_id r = k" using tbl_find_Some_mem [OF assms(1)] by simp
  ultimately show "moves_on r (f r)" using assms by simp
qed

lemma mark_started_shape:
  assumes "capacity_mark_started now aid review rows = Inr (row, rows')"
  obtains old where "ca_find (strip aid) rows = Some old" "\<not> active (ca_status old)" "rows' = rows"
  | old f where "ca_find (strip aid) rows = Some old" "active (ca_status old)"
    "rows' = ca_update (strip aid) f rows" "\<And>r. ca_id (f r) = ca_id r"
    "\<And>r. ca_class (f r) = ca_class r" "\<And>r. ca_status (f r) = Running"
proof -
  from assms obtain old where "ca_find (strip aid) rows = Some old"
    "\<not> active (ca_status old) \<and> rows' = rows \<or> active (ca_status old) \<and> rows' = ca_update (strip aid) (\<lambda>r. r\<lparr>ca_status := Running,
                   ca_admitted_at := Some (or_text (ca_admitted_at r) now),
                   ca_started_at := (case ca_started_at r of None \<Rightarrow> Some now | Some t \<Rightarrow> Some t),
                   ca_review := (case review of None \<Rightarrow> ca_review r | Some v \<Rightarrow> Some v)\<rparr>) rows"
    by (auto simp: capacity_mark_started_def err_iffs Let_def split: if_splits option.splits)
  then show thesis by (elim disjE conjE) (rule that(1), assumption+, rule that(2), assumption+, simp_all)
qed

lemma find_after_step:
  assumes "cap_step rows rows'" and r: "ca_find k rows = Some r"
  shows "\<exists>r'. ca_find k rows' = Some r' \<and> moves_on r r'"
  using assms(1)
proof cases
  case (cap_enqueue birth now aid cls scope pid row)
  then have "rows' = rows @ [row]" by (auto simp: capacity_enqueue_def err_iffs Let_def split: if_splits)
  then show ?thesis by (simp add: find_append r)
next
  case (cap_admit now aid cap out)
  then show ?thesis
  proof (cases rule: try_admit_Inr)
    case (admit row)
    show ?thesis unfolding admit(6)
      by (rule moves_on_update_id [OF r admit(1)]) (simp_all add: moves_on_def admit(2))
  qed (simp add: r)
next
  case (cap_force now aid out)
  then obtain q where "rows' = rows \<or> ca_find (strip aid) rows = Some q \<and> ca_status q = Queued
      \<and> rows' = ca_update (strip aid) (\<lambda>r. r\<lparr>ca_status := Admitted, ca_admitted_at := Some now,
                   ca_limit := (if ca_class r = review_fg then Some 1 else ca_limit r)\<rparr>) rows"
    by (auto simp: capacity_force_admit_def err_iffs Let_def split: if_splits option.splits)
  then show ?thesis
  proof (elim disjE conjE)
    assume q: "ca_find (strip aid) rows = Some q" "ca_status q = Queued"
      and rows': "rows' = ca_update (strip aid) (\<lambda>r. r\<lparr>ca_status := Admitted, ca_admitted_at := Some now,
                   ca_limit := (if ca_class r = review_fg then Some 1 else ca_limit r)\<rparr>) rows"
    show ?thesis unfolding rows' by (rule moves_on_update_id [OF r q(1)]) (simp_all add: moves_on_def q(2))
  qed (simp add: r)
next
  case (cap_start now aid review row)
  from cap_start(1) show ?thesis
  proof (cases rule: mark_started_shape)
    case (2 old f)
    show ?thesis unfolding 2(3) by (rule moves_on_update_id [OF r 2(1) 2(4)]) (simp add: moves_on_def 2)
  qed (simp add: r)
next
  case (cap_finish now aid s why row)
  then have "\<not> active s" "rows' = rows \<or> rows' = ca_update (strip aid) (end_row s now why) rows"
    by (auto simp: capacity_finish_def err_iffs Let_def split: if_splits option.splits)
  moreover have "ca_find k (ca_update (strip aid) (end_row s now why) rows) = Some (if ca_id r = strip aid then end_row s now why r else r)"
    by (simp add: tbl_find_update r)
  ultimately show ?thesis using r by (cases s) (auto simp: moves_on_def)
next
  case (cap_reclaim ps cls scope stale now t ids)
  then have rows': "rows' = tbl_update (\<lambda>r. in_group cls scope r \<and> active (ca_status r) \<and> reclaim_reason ps cls stale now r \<noteq> None)
        (\<lambda>r. end_row Rejected t (map_option reason_text (reclaim_reason ps cls stale now r)) r) rows"
    by (auto simp: capacity_reclaim_stale_def Let_def)
  show ?thesis unfolding rows' by (rule moves_on_update [OF r]) (simp_all add: moves_on_def)
qed

lemma find_after_run:
  assumes "reachable_by rows cap_step rows'" and "ca_find k rows = Some r"
  shows "\<exists>r'. ca_find k rows' = Some r' \<and> moves_on r r'"
  using assms(1)
proof (induction rule: reachable_by.induct)
  case reach_init
  then show ?case using assms(2) by simp
next
  case (reach_step s t)
  then show ?case using find_after_step [of s t k] by (metis moves_on_trans)
qed

subsection \<open>The loops are runs of the admission machine\<close>

abbreviation runs :: "admissions \<Rightarrow> admissions \<Rightarrow> bool" where
  "runs rows rows' \<equiv> reachable_by rows cap_step rows'"

lemma runs_refl [simp]: "runs rows rows"
  by (rule reach_init)

lemma runs_step: "cap_step rows rows' \<Longrightarrow> runs rows rows'"
  by (rule reach_step [OF reach_init])

lemma runs_trans: "runs b c \<Longrightarrow> runs a b \<Longrightarrow> runs a c"
  by (induction rule: reachable_by.induct) (auto intro: reach_step)

text \<open>What is asked of the other processes: whatever they do is done through the same operations.\<close>

definition lawful_peers :: "poll \<Rightarrow> bool" where
  "lawful_peers p \<longleftrightarrow> (\<forall>rows. runs rows (po_peers_top p rows) \<and> runs rows (po_peers_mid p rows)
     \<and> runs rows (po_peers_end p rows))"

lemma finish_runs: "ticket_finish now aid s why rows = Inr rows' \<Longrightarrow> runs rows rows'"
  by (auto simp: ticket_finish_def err_iffs split: sum.splits if_splits intro: runs_step cap_finish)

lemma abort_runs: "runs rows (snd (abort now aid st f rows))"
  by (auto simp: abort_def dest: finish_runs split: sum.split)

lemma quit_runs: "runs rows (snd (quit now aid st s why out rows))"
  by (auto simp: quit_def dest: finish_runs intro: abort_runs split: sum.split)

definition settled :: "string \<Rightarrow> admissions \<Rightarrow> bool" where
  "settled aid rows \<longleftrightarrow> (\<exists>r. ca_find (strip aid) rows = Some r \<and> ca_status r \<noteq> Queued)"

lemma settled_runs: "runs rows rows' \<Longrightarrow> settled aid rows \<Longrightarrow> settled aid rows'"
  unfolding settled_def moves_on_def using find_after_run [of rows rows' "strip aid"]
  by (metis moves_on_def)

lemma start_runs: "settled aid rows \<Longrightarrow> runs rows (snd (start now aid st rows))"
  by (auto simp: start_def settled_def not_waiting_def intro!: abort_runs runs_step cap_start split: sum.split)

lemma sweep_runs: "runs rows (sweep p cls scope stale rows)"
  unfolding sweep_def
  by (rule runs_step, rule cap_reclaim [where ids = "fst (capacity_reclaim_stale (po_processes p) (strip cls)
    (strip scope) stale (po_epoch p) (po_now p) rows)"]) simp

lemma try_admit_out:
  assumes "capacity_try_admit now aid cap rows = Inr (Some r, rows')"
  shows "ca_find (strip aid) rows' = Some r"
  using assms by (auto simp: capacity_try_admit_def err_iffs Let_def split: if_splits option.splits)

lemma force_admit_out:
  assumes "capacity_force_admit now aid rows = Inr (Some r, rows')"
  shows "ca_find (strip aid) rows' = Some r \<and> holder (ca_status r)"
  using assms
  by (auto simp: capacity_force_admit_def err_iffs Let_def tbl_find_update dest: tbl_find_Some_mem
      split: if_splits option.splits)

text \<open>The table of a verdict, and the status the ticket was last seen in.\<close>

fun vd_rows :: "verdict \<Rightarrow> admissions" where
  "vd_rows (Stop out rows) = rows" | "vd_rows (Go c st rows) = rows"

fun vd_waiting :: "verdict \<Rightarrow> bool" where
  "vd_waiting (Stop out rows) = True" | "vd_waiting (Go c st rows) = (\<not> holder st)"

definition ended :: "string \<Rightarrow> admissions \<Rightarrow> bool" where
  "ended aid rows \<longleftrightarrow> (\<exists>r. ca_find (strip aid) rows = Some r \<and> \<not> active (ca_status r))"

lemma ended_runs: "runs rows rows' \<Longrightarrow> ended aid rows \<Longrightarrow> ended aid rows'"
  unfolding ended_def using find_after_run [of rows rows' "strip aid"] by (metis moves_on_def)

definition leaves_row :: "string \<Rightarrow> poll \<Rightarrow> bool" where
  "leaves_row aid p \<longleftrightarrow> (\<forall>rows. ca_find (strip aid) (po_peers_end p rows) = ca_find (strip aid) rows)"

text \<open>The ways a poll can go, for both loops. \<open>st\<close> is the status the ticket was seen in before it.\<close>

inductive poll_way :: "string \<Rightarrow> int \<Rightarrow> poll \<Rightarrow> status \<Rightarrow> admissions \<Rightarrow> verdict \<Rightarrow> bool"
  for aid deadline p st rows where
  way_quit: "runs rows rows1 \<Longrightarrow> st1 = st \<or> active st1 \<or> ended aid rows1 \<Longrightarrow> \<not> active s
    \<Longrightarrow> out \<in> {GaveUp, WasCancelled, LostRace}
    \<Longrightarrow> poll_way aid deadline p st rows (stop (quit now aid st1 s why out rows1))"
| way_abort: "runs rows rows1 \<Longrightarrow> poll_way aid deadline p st rows (stop (abort now aid st f rows1))"
| way_start: "runs rows rows1 \<Longrightarrow> settled aid rows1 \<Longrightarrow> holder st1
    \<Longrightarrow> (leaves_row aid p \<Longrightarrow> \<exists>r. ca_find (strip aid) rows1 = Some r \<and> ca_status r = st1)
    \<Longrightarrow> poll_way aid deadline p st rows (stop (start now aid st1 rows1))"
| way_go: "runs rows rows1 \<Longrightarrow> \<not> holder st1 \<Longrightarrow> st1 = st \<or> active st1 \<or> ended aid rows1
    \<Longrightarrow> po_clock_end p < deadline \<Longrightarrow> poll_way aid deadline p st rows (Go c st1 rows1)"

inductive_cases way_StopE: "poll_way aid deadline p st rows (Stop out rows1)"
inductive_cases way_GoE: "poll_way aid deadline p st rows (Go c st1 rows1)"

lemma poll_once_way:
  assumes "lawful_peers p" and "\<not> holder st"
  shows "poll_way aid deadline p st rows
    (poll_once aid cls scope capacity stale deadline p attempted observed st rows)"
proof -
  let ?r1 = "po_peers_top p rows" and ?cap = "resolve_capacity capacity (po_capacity_fn p)"
  let ?r3 = "po_peers_mid p (sweep p cls scope stale ?r1)"
  have r1: "runs rows ?r1" using assms(1) by (simp add: lawful_peers_def)
  have "runs (sweep p cls scope stale ?r1) ?r3" using assms(1) by (simp add: lawful_peers_def)
  then have r3: "runs rows ?r3" by (rule runs_trans) (rule runs_trans [OF sweep_runs r1])
  consider (early) "po_cancelled p \<or> attempted \<and> deadline - po_clock_top p \<le> 0"
    | (lost) "\<not> (po_cancelled p \<or> attempted \<and> deadline - po_clock_top p \<le> 0)" "Some ?cap \<noteq> observed \<and> po_lost p"
    | (fault) e where "\<not> (po_cancelled p \<or> attempted \<and> deadline - po_clock_top p \<le> 0)" "\<not> (Some ?cap \<noteq> observed \<and> po_lost p)"
        "capacity_try_admit (po_now p) aid ?cap ?r3 = Inl e"
    | (tried) out rows' where "\<not> (po_cancelled p \<or> attempted \<and> deadline - po_clock_top p \<le> 0)" "\<not> (Some ?cap \<noteq> observed \<and> po_lost p)"
        "capacity_try_admit (po_now p) aid ?cap ?r3 = Inr (out, rows')"
    by (cases "capacity_try_admit (po_now p) aid ?cap ?r3") auto
  then show ?thesis
  proof cases
    case early
    then show ?thesis by (auto simp: poll_once_def Let_def intro!: way_quit [OF r1])
  next
    case lost
    then show ?thesis by (auto simp: poll_once_def Let_def intro!: way_abort [OF r3])
  next
    case fault
    then show ?thesis by (auto simp: poll_once_def Let_def intro!: way_abort [OF r3])
  next
    case tried
    let ?r5 = "po_peers_end p rows'" and ?st = "seen st out"
    have r4: "runs rows rows'" by (rule runs_trans [OF runs_step [OF cap_admit [OF tried(3)]] r3])
    have end_run: "runs rows' ?r5" using assms(1) by (simp add: lawful_peers_def)
    have r5: "runs rows ?r5" by (rule runs_trans [OF end_run r4])
    have saw: "?st = st \<or> (\<exists>r. ca_find (strip aid) rows' = Some r \<and> ?st = ca_status r)"
      using try_admit_out tried(3) by (cases out) (auto simp: seen_def)
    have held: "settled aid ?r5 \<and> (leaves_row aid p \<longrightarrow> (\<exists>r. ca_find (strip aid) ?r5 = Some r \<and> ca_status r = ?st))"
      if "holder ?st"
    proof -
      from that assms(2) saw obtain r where r: "ca_find (strip aid) rows' = Some r" "?st = ca_status r" by auto
      then have "settled aid rows'" using that by (auto simp: settled_def)
      then show ?thesis using settled_runs [OF end_run] r by (auto simp: leaves_row_def)
    qed
    have eq: "poll_once aid cls scope capacity stale deadline p attempted observed st rows
      = (if holder ?st then stop (start (po_now p) aid ?st ?r5)
         else if deadline - po_clock_end p \<le> 0 then stop (quit (po_now p) aid ?st Expired TimedOut GaveUp ?r5)
         else Go (Some ?cap) ?st ?r5)"
      using tried by (auto simp: poll_once_def Let_def)
    show ?thesis
    proof (cases "holder ?st")
      case True
      then show ?thesis unfolding eq using held r5 by (simp add: way_start)
    next
      case False
      have "?st = st \<or> active ?st \<or> ended aid rows'" using saw by (auto simp: ended_def)
      then have st: "?st = st \<or> active ?st \<or> ended aid ?r5" using ended_runs [OF end_run] by blast
      show ?thesis
      proof (cases "deadline - po_clock_end p \<le> 0")
        case True
        then show ?thesis using False unfolding eq by (simp add: way_quit [OF r5 st])
      next
        case False
        with \<open>\<not> holder ?st\<close> show ?thesis unfolding eq by (simp add: way_go [OF r5 _ st])
      qed
    qed
  qed
qed

text \<open>The loop with the lock: its row is one of class \<open>review_fg\<close>.\<close>

definition fg_row :: "string \<Rightarrow> admissions \<Rightarrow> bool" where
  "fg_row aid rows \<longleftrightarrow> (\<exists>r. ca_find (strip aid) rows = Some r \<and> ca_class r = review_fg)"

lemma fg_row_runs: "runs rows rows' \<Longrightarrow> fg_row aid rows \<Longrightarrow> fg_row aid rows'"
  unfolding fg_row_def using find_after_run [of rows rows' "strip aid"] by (metis moves_on_def)

lemma poll_locked_way:
  assumes "lawful_peers p" and "\<not> holder st" and "fg_row aid rows"
  shows "poll_way aid deadline p st rows (poll_locked aid scope cap stale deadline p attempted st rows)"
proof -
  let ?r1 = "po_peers_top p rows"
  let ?r3 = "po_peers_mid p (sweep p review_fg scope stale ?r1)"
  let ?go = "decide_admit aid (capacity_active_views review_fg (strip scope) ?r3) (min cap 1) \<and> po_lock p"
  have r1: "runs rows ?r1" using assms(1) by (simp add: lawful_peers_def)
  have "runs (sweep p review_fg scope stale ?r1) ?r3" using assms(1) by (simp add: lawful_peers_def)
  then have r3: "runs rows ?r3" by (rule runs_trans) (rule runs_trans [OF sweep_runs r1])
  have end_run: "runs r (po_peers_end p r)" for r using assms(1) by (simp add: lawful_peers_def)
  have fg: "\<forall>r. ca_find (strip aid) ?r3 = Some r \<longrightarrow> ca_class r = review_fg"
    using fg_row_runs [OF r3 assms(3)] by (auto simp: fg_row_def)
  show ?thesis
  proof (cases "po_cancelled p \<or> attempted \<and> deadline - po_clock_top p \<le> 0")
    case True
    then show ?thesis by (auto simp: poll_locked_def Let_def intro!: way_quit [OF r1])
  next
    case early: False
    show ?thesis
    proof (cases ?go)
      case False
      then have "poll_locked aid scope cap stale deadline p attempted st rows
          = (if deadline - po_clock_end p \<le> 0
             then stop (quit (po_now p) aid st Expired TimedOut GaveUp (po_peers_end p ?r3))
             else Go None st (po_peers_end p ?r3))"
        using early by (auto simp: poll_locked_def Let_def)
      moreover have "runs rows (po_peers_end p ?r3)" by (rule runs_trans [OF end_run r3])
      ultimately show ?thesis by (simp add: way_quit way_go assms(2))
    next
      case True
      then have eq: "poll_locked aid scope cap stale deadline p attempted st rows
          = (case capacity_force_admit (po_now p) aid ?r3 of
               Inl e \<Rightarrow> stop (abort (po_now p) aid st (StoreFault e) ?r3)
             | Inr (None, rows) \<Rightarrow> stop (quit (po_now p) aid st Rejected AdmitRace LostRace rows)
             | Inr (Some r, rows) \<Rightarrow> stop (start (po_now p) aid (ca_status r) (po_peers_end p rows)))"
        using early by (auto simp: poll_locked_def Let_def)
      show ?thesis
      proof (cases "capacity_force_admit (po_now p) aid ?r3")
        case (Inl e)
        then show ?thesis by (simp add: eq way_abort [OF r3])
      next
        case (Inr res)
        obtain out rows' where res: "res = (out, rows')" by (cases res)
        have r4: "runs rows rows'"
          using Inr res by (intro runs_trans [OF runs_step [OF cap_force [OF _ fg]] r3]) simp
        show ?thesis
        proof (cases out)
          case None
          then show ?thesis using Inr res by (simp add: eq way_quit [OF r4])
        next
          case (Some r)
          then have r: "ca_find (strip aid) rows' = Some r" "holder (ca_status r)"
            using Inr res force_admit_out [of "po_now p" aid ?r3 r rows'] by simp_all
          then have "settled aid rows'" by (auto simp: settled_def)
          then have "settled aid (po_peers_end p rows')" by (rule settled_runs [OF end_run])
          moreover have "runs rows (po_peers_end p rows')" by (rule runs_trans [OF end_run r4])
          moreover have "leaves_row aid p \<Longrightarrow> \<exists>q. ca_find (strip aid) (po_peers_end p rows') = Some q \<and> ca_status q = ca_status r"
            using r(1) by (simp add: leaves_row_def)
          ultimately show ?thesis using Inr res Some r(2) by (simp add: eq way_start)
        qed
      qed
    qed
  qed
qed

subsection \<open>What every way of a poll guarantees\<close>

definition idle :: "string \<Rightarrow> admissions \<Rightarrow> bool" where
  "idle aid rows \<longleftrightarrow> (\<forall>r. ca_find (strip aid) rows = Some r \<longrightarrow> \<not> active (ca_status r))"

lemma ended_idle: "ended aid rows \<Longrightarrow> idle aid rows"
  by (auto simp: ended_def idle_def)

lemma finish_idle:
  assumes "ticket_finish now aid s why rows = Inr rows'"
  shows "idle aid rows'"
proof (cases "capacity_finish now aid s why rows")
  case (Inl e)
  then show ?thesis using assms by (auto simp: ticket_finish_def err_iffs idle_def split: if_splits)
next
  case (Inr res)
  then obtain row where f: "capacity_finish now aid s why rows = Inr (row, rows')"
    using assms by (cases res) (simp add: ticket_finish_def)
  then show ?thesis
    by (auto simp: capacity_finish_def err_iffs idle_def tbl_find_update dest: tbl_find_Some_mem
        split: if_splits option.splits)
qed

lemma finish_succeeds:
  assumes "strip aid \<noteq> []" and "\<not> active s"
  shows "\<exists>rows'. ticket_finish now aid s why rows = Inr rows'"
proof (cases "ca_find (strip aid) rows")
  case None
  then have "capacity_finish now aid s why rows = Inl AdmissionMissing"
    using assms by (simp add: capacity_finish_def need_def)
  then show ?thesis using assms None by (simp add: ticket_finish_def need_def)
next
  case (Some r)
  then have "\<exists>row rows'. capacity_finish now aid s why rows = Inr (row, rows')"
    using assms by (simp add: capacity_finish_def need_def)
  then show ?thesis by (auto simp: ticket_finish_def)
qed

lemma abort_idle:
  assumes "strip aid \<noteq> []" and "active st \<or> ended aid rows"
  shows "idle aid (snd (abort now aid st f rows))"
proof (cases "active st")
  case True
  obtain rows' where "ticket_finish now aid Rejected (Some ''error'') rows = Inr rows'"
    using finish_succeeds [OF assms(1)] by fastforce
  then show ?thesis using True finish_idle by (simp add: abort_def)
next
  case False
  then show ?thesis using assms(2) by (simp add: abort_def ended_idle)
qed

lemma quit_idle:
  assumes "strip aid \<noteq> []" and "\<not> active s"
  shows "idle aid (snd (quit now aid st s why out rows)) \<and> fst (quit now aid st s why out rows) = out"
proof -
  obtain rows' where "ticket_finish now aid s (Some (reason_text why)) rows = Inr rows'"
    using finish_succeeds [OF assms] by fastforce
  then show ?thesis using finish_idle by (simp add: quit_def)
qed

lemma fst_abort: "\<exists>f'. fst (abort now aid st f rows) = Broke f'"
  by (auto simp: abort_def split: sum.split)

lemma fst_quit: "fst (quit now aid st s why out rows) = out \<or> (\<exists>f. fst (quit now aid st s why out rows) = Broke f)"
  using fst_abort by (auto simp: quit_def split: sum.split)

lemma fst_start: "fst (start now aid st rows) = Acquired \<or> (\<exists>f. fst (start now aid st rows) = Broke f)"
  using fst_abort by (auto simp: start_def split: sum.split)

lemma start_idle:
  assumes "strip aid \<noteq> []" and "holder st" and "fst (start now aid st rows) \<noteq> Acquired"
  shows "idle aid (snd (start now aid st rows))"
  using assms abort_idle [of aid st rows] by (auto simp: start_def split: sum.splits)

lemma start_running:
  assumes "ca_find (strip aid) rows = Some r" and "holder (ca_status r)" and "fst (start now aid st rows) = Acquired"
  shows "\<exists>r'. ca_find (strip aid) (snd (start now aid st rows)) = Some r' \<and> ca_status r' = Running"
proof -
  from assms(3) obtain row rows' where m: "capacity_mark_started now aid None rows = Inr (row, rows')"
  proof (cases "capacity_mark_started now aid None rows")
    case (Inl e)
    then show ?thesis using assms(3) fst_abort [of now aid st "StoreFault e" rows] by (simp add: start_def)
  next
    case (Inr res)
    then show ?thesis using that by (cases res) simp
  qed
  then show ?thesis
  proof (cases rule: mark_started_shape)
    case (1 old)
    then show ?thesis using assms(1,2) by simp
  next
    case (2 old f)
    then show ?thesis using m assms(1) tbl_find_Some_mem [OF assms(1)]
      by (simp add: start_def tbl_find_update)
  qed
qed

lemma way_runs: "poll_way aid deadline p st rows v \<Longrightarrow> runs rows (vd_rows v)"
  by (induction rule: poll_way.induct)
    (auto intro: runs_trans [OF quit_runs] runs_trans [OF abort_runs] runs_trans [OF start_runs])

lemma fst_not_waiting:
  "out \<noteq> StillWaiting \<Longrightarrow> fst (quit now aid st s why out rows) \<noteq> StillWaiting"
  "fst (abort now aid st f rows) \<noteq> StillWaiting"
  "fst (start now aid st rows) \<noteq> StillWaiting"
  using fst_quit [of now aid st s why out rows] fst_abort [of now aid st f rows] fst_start [of now aid st rows] by auto

lemma way_stops: "poll_way aid deadline p st rows (Stop out rows1) \<Longrightarrow> out \<noteq> StillWaiting"
  by (erule way_StopE) (auto simp: fst_not_waiting)

lemma way_idle:
  assumes "poll_way aid deadline p st rows (Stop out rows1)" and "strip aid \<noteq> []"
    and "active st \<or> ended aid rows" and "out \<noteq> Acquired"
  shows "idle aid rows1"
  using assms(1)
proof (rule way_StopE)
  fix st1 s why out' now rows1'
  assume "rows1 = snd (quit now aid st1 s why out' rows1')" "\<not> active s"
  then show ?thesis using quit_idle [OF assms(2)] by simp
next
  fix now f rows1'
  assume "rows1 = snd (abort now aid st f rows1')" "runs rows rows1'"
  moreover from this have "active st \<or> ended aid rows1'" using assms(3) ended_runs by blast
  ultimately show ?thesis using abort_idle [OF assms(2)] by simp
next
  fix now st1 rows1'
  assume "rows1 = snd (start now aid st1 rows1')" "out = fst (start now aid st1 rows1')" "holder st1"
  then show ?thesis using start_idle [OF assms(2)] assms(4) by simp
qed

text \<open>A poll that goes on has time left, and its ticket may still be ended later.\<close>

lemma way_goes:
  assumes "poll_way aid deadline p st rows (Go c st1 rows1)" and "active st \<or> ended aid rows"
  shows "po_clock_end p < deadline" and "\<not> holder st1" and "active st1 \<or> ended aid rows1" and "runs rows rows1"
  using assms ended_runs by (auto elim!: way_GoE)

lemma way_running:
  assumes "poll_way aid deadline p st rows (Stop Acquired rows1)" and "leaves_row aid p"
  shows "\<exists>r. ca_find (strip aid) rows1 = Some r \<and> ca_status r = Running"
  using assms(1)
proof (rule way_StopE)
  fix rows1' st1 out' s why now
  assume "Acquired = fst (quit now aid st1 s why out' rows1')" "out' = GaveUp \<or> out' = WasCancelled \<or> out' = LostRace"
  then show ?thesis using fst_quit [of now aid st1 s why out' rows1'] by auto
next
  fix rows1' now f
  assume "Acquired = fst (abort now aid st f rows1')"
  then show ?thesis using fst_abort [of now aid st f rows1'] by auto
next
  fix rows1' st1 now
  assume "rows1 = snd (start now aid st1 rows1')" "Acquired = fst (start now aid st1 rows1')" "holder st1"
    and saw: "leaves_row aid p \<Longrightarrow> \<exists>r. ca_find (strip aid) rows1' = Some r \<and> ca_status r = st1"
  then show ?thesis using saw [OF assms(2)] start_running [of aid rows1' _ now st1] by auto
qed

text \<open>The same of the loops, one poll at a time. \<open>wait\<close> stands for either loop.\<close>

locale waiting =
  fixes aid :: string and deadline :: int
    and ready :: "admissions \<Rightarrow> bool"
    and once :: "poll \<Rightarrow> bool \<Rightarrow> int option \<Rightarrow> status \<Rightarrow> admissions \<Rightarrow> verdict"
    and wait :: "poll list \<Rightarrow> bool \<Rightarrow> int option \<Rightarrow> status \<Rightarrow> admissions \<Rightarrow> outcome \<times> admissions"
  assumes wait_Nil: "wait [] attempted observed st rows = (StillWaiting, rows)"
    and wait_Cons: "wait (p # ps) attempted observed st rows =
      (case once p attempted observed st rows of
         Stop out rows \<Rightarrow> (out, rows) | Go observed st rows \<Rightarrow> wait ps True observed st rows)"
    and once_way: "lawful_peers p \<Longrightarrow> \<not> holder st \<Longrightarrow> ready rows
      \<Longrightarrow> poll_way aid deadline p st rows (once p attempted observed st rows)"
    and ready_runs: "runs rows rows' \<Longrightarrow> ready rows \<Longrightarrow> ready rows'"
begin

lemma wait_induct [consumes 4, case_names Nil Stop Go]:
  assumes "\<forall>p \<in> set ps. lawful_peers p" and "\<not> holder st" and "ready rows" and "active st \<or> ended aid rows"
    and "\<And>rows. P [] rows (StillWaiting, rows)"
    and "\<And>p ps st rows out rows1. active st \<or> ended aid rows \<Longrightarrow> poll_way aid deadline p st rows (Stop out rows1)
      \<Longrightarrow> P (p # ps) rows (out, rows1)"
    and "\<And>p ps st rows c st1 rows1 r. poll_way aid deadline p st rows (Go c st1 rows1) \<Longrightarrow> runs rows rows1
      \<Longrightarrow> po_clock_end p < deadline \<Longrightarrow> P ps rows1 r \<Longrightarrow> P (p # ps) rows r"
  shows "P ps rows (wait ps attempted observed st rows)"
  using assms(1-4)
proof (induction ps arbitrary: attempted observed st rows)
  case Nil
  then show ?case by (simp add: wait_Nil assms(5))
next
  case (Cons p ps)
  then have way: "poll_way aid deadline p st rows (once p attempted observed st rows)" by (simp add: once_way)
  show ?case
  proof (cases "once p attempted observed st rows")
    case (Stop out rows1)
    with way Cons.prems show ?thesis by (simp add: wait_Cons assms(6))
  next
    case (Go c st1 rows1)
    with way have way: "poll_way aid deadline p st rows (Go c st1 rows1)" by simp
    note g = way_goes [OF way Cons.prems(4)]
    have "P ps rows1 (wait ps True c st1 rows1)"
      using Cons.prems g by (intro Cons.IH) (auto intro: ready_runs)
    from assms(7) [OF way g(4,1) this] show ?thesis by (simp add: wait_Cons Go)
  qed
qed

lemma wait_runs:
  assumes "\<forall>p \<in> set ps. lawful_peers p" and "\<not> holder st" and "ready rows" and "active st \<or> ended aid rows"
  shows "runs rows (snd (wait ps attempted observed st rows))"
  using assms
proof (induction rule: wait_induct)
  case (Stop p ps st rows out rows1)
  then show ?case using way_runs by fastforce
next
  case (Go p ps st rows c st1 rows1 r)
  then show ?case by (simp add: runs_trans)
qed simp

lemma wait_idle:
  assumes "\<forall>p \<in> set ps. lawful_peers p" and "\<not> holder st" and "ready rows" and "active st \<or> ended aid rows"
    and "strip aid \<noteq> []"
  shows "fst (wait ps attempted observed st rows) \<in> {Acquired, StillWaiting} \<or> idle aid (snd (wait ps attempted observed st rows))"
  using assms(1-4)
proof (induction rule: wait_induct)
  case (Stop p ps st rows out rows1)
  then show ?case using way_idle [OF Stop(2) assms(5)] by auto
qed simp_all

lemma wait_bounded:
  assumes "\<forall>p \<in> set ps. lawful_peers p" and "\<not> holder st" and "ready rows" and "active st \<or> ended aid rows"
  shows "(\<exists>p \<in> set ps. deadline \<le> po_clock_end p) \<longrightarrow> fst (wait ps attempted observed st rows) \<noteq> StillWaiting"
  using assms
proof (induction rule: wait_induct)
  case (Stop p ps st rows out rows1)
  then show ?case using way_stops by simp
qed auto

lemma wait_running:
  assumes "\<forall>p \<in> set ps. lawful_peers p" and "\<not> holder st" and "ready rows" and "active st \<or> ended aid rows"
  shows "(\<forall>p \<in> set ps. leaves_row aid p) \<and> fst (wait ps attempted observed st rows) = Acquired
    \<longrightarrow> (\<exists>r. ca_find (strip aid) (snd (wait ps attempted observed st rows)) = Some r \<and> ca_status r = Running)"
  using assms
proof (induction rule: wait_induct)
  case (Stop p ps st rows out rows1)
  then show ?case using way_running by auto
qed auto

end

interpretation store_loop: waiting aid deadline "\<lambda>rows. True"
  "poll_once aid cls scope capacity stale deadline" "wait_loop aid cls scope capacity stale deadline"
  for aid cls scope capacity stale deadline
  by unfold_locales (auto intro: poll_once_way)

interpretation lock_loop: waiting aid deadline "fg_row aid"
  "\<lambda>p attempted observed. poll_locked aid scope cap stale deadline p attempted"
  "\<lambda>ps attempted observed. wait_locked aid scope cap stale deadline ps attempted"
  for aid scope cap stale deadline
  by unfold_locales (auto intro: poll_locked_way fg_row_runs split: verdict.split)

subsection \<open>Entering and leaving the queue\<close>

lemma capacity_enqueue_Inr:
  "capacity_enqueue birth now aid cls scope pid rows = Inr (row, rows') \<Longrightarrow>
    rows' = rows @ [row] \<and> ca_find (strip aid) rows' = Some row \<and> ca_class row = strip cls
    \<and> ca_status row = Queued \<and> strip aid \<noteq> []"
  using tbl_find_None_iff [of ca_id "strip aid" rows]
  by (auto simp: capacity_enqueue_def err_iffs Let_def find_append split: if_splits)

lemma capacity_enqueue_Inl:
  "capacity_enqueue birth now aid cls scope pid rows = Inl e \<Longrightarrow> ca_find (strip aid) rows = None
    \<Longrightarrow> strip aid = [] \<or> strip cls = [] \<or> strip scope = []"
  using tbl_find_None_iff [of ca_id "strip aid" rows]
  by (auto simp: capacity_enqueue_def err_iffs need_def Let_def split: if_splits)

lemma enqueue_Inr:
  assumes "enqueue ow cls scope rows = Inr rows'"
  shows "runs rows rows'" and "strip (ow_id ow) \<noteq> []" and "strip cls = review_fg \<Longrightarrow> fg_row (ow_id ow) rows'"
proof -
  from assms obtain row where e: "capacity_enqueue (ow_birth ow) (ow_now ow) (ow_id ow) cls scope (Some (ow_pid ow)) rows
      = Inr (row, rows')"
    by (auto simp: enqueue_def split: sum.splits if_splits)
  from e show "runs rows rows'" by (rule runs_step [OF cap_enqueue])
  from capacity_enqueue_Inr [OF e] show "strip (ow_id ow) \<noteq> []"
    and "strip cls = review_fg \<Longrightarrow> fg_row (ow_id ow) rows'" by (auto simp: fg_row_def)
qed

lemma enqueue_Inl:
  assumes "enqueue ow cls scope rows = Inl r"
  shows "runs rows (snd r)" and "fst r \<notin> {Acquired, StillWaiting}"
    and "ca_find (strip (ow_id ow)) rows = None \<Longrightarrow> idle (ow_id ow) (snd r)"
proof -
  let ?e = "capacity_enqueue (ow_birth ow) (ow_now ow) (ow_id ow) cls scope (Some (ow_pid ow)) rows"
  have step: "?e = Inr (row, rows1) \<Longrightarrow> runs rows rows1" for row rows1
    by (rule runs_step) (rule cap_enqueue)
  show "runs rows (snd r)"
    using assms step by (auto simp: enqueue_def split: sum.splits if_splits dest!: finish_runs)
      (erule (1) runs_trans)
  show "fst r \<notin> {Acquired, StillWaiting}"
    using assms by (auto simp: enqueue_def split: sum.splits if_splits)
  show "idle (ow_id ow) (snd r)" if "ca_find (strip (ow_id ow)) rows = None"
  proof (cases ?e)
    case (Inl e)
    then show ?thesis using assms that by (auto simp: enqueue_def idle_def)
  next
    case (Inr res)
    then obtain row rows1 where e: "?e = Inr (row, rows1)" by (cases res) simp
    then have "strip (ow_id ow) \<noteq> []" using capacity_enqueue_Inr by blast
    then obtain rows' where "ticket_finish (ow_now ow) (ow_id ow) Rejected (Some ''request_link_failed'') rows1 = Inr rows'"
      using finish_succeeds by fastforce
    then show ?thesis using assms e finish_idle by (auto simp: enqueue_def split: if_splits)
  qed
qed

lemma acquire_cases:
  obtains (refused) r where "enqueue ow cls scope rows = Inl r" "acquire ow cls scope capacity stale deadline ps rows = r"
  | (waits) rows' where "enqueue ow cls scope rows = Inr rows'"
    "acquire ow cls scope capacity stale deadline ps rows
      = wait_loop (ow_id ow) cls scope capacity stale deadline ps False None Queued rows'"
  by (cases "enqueue ow cls scope rows") (auto simp: acquire_def)

lemma acquire_repo_fg_cases:
  obtains (plain) "acquire_repo_fg ow lock lost scope capacity stale deadline ps rows
      = acquire ow review_fg scope (Some capacity) stale deadline ps rows"
  | (refused) r where "enqueue ow review_fg scope rows = Inl r"
      "acquire_repo_fg ow lock lost scope capacity stale deadline ps rows = r"
  | (lost) rows' where "enqueue ow review_fg scope rows = Inr rows'"
      "acquire_repo_fg ow lock lost scope capacity stale deadline ps rows
        = abort (ow_now ow) (ow_id ow) Queued ObservationLost rows'"
  | (waits) rows' cap where "lock" "\<not> lost" "enqueue ow review_fg scope rows = Inr rows'"
      "acquire_repo_fg ow lock lost scope capacity stale deadline ps rows
        = wait_locked (ow_id ow) scope cap stale deadline ps False Queued rows'"
proof (cases lock)
  case True
  show thesis
  proof (cases "enqueue ow review_fg scope rows")
    case (Inl r)
    then show thesis using True by (intro refused) (simp_all add: acquire_repo_fg_def)
  next
    case (Inr rows')
    show thesis
    proof (cases lost)
      case True
      then show thesis using \<open>lock\<close> Inr by (intro lost) (simp_all add: acquire_repo_fg_def)
    next
      case False
      then show thesis using True Inr by (intro waits) (simp_all add: acquire_repo_fg_def)
    qed
  qed
qed (simp add: plain acquire_repo_fg_def)

lemma strip_review_fg [simp]: "strip review_fg = review_fg"
  by code_simp

lemma acquire_runs:
  assumes "\<forall>p \<in> set ps. lawful_peers p"
  shows "runs rows (snd (acquire ow cls scope capacity stale deadline ps rows))"
proof (cases rule: acquire_cases [of ow cls scope rows capacity stale deadline ps])
  case (waits rows')
  show ?thesis unfolding waits(2)
    by (rule runs_trans [OF store_loop.wait_runs enqueue_Inr(1) [OF waits(1)]]) (simp_all add: assms)
qed (simp add: enqueue_Inl)

lemma acquire_repo_fg_runs:
  assumes "\<forall>p \<in> set ps. lawful_peers p"
  shows "runs rows (snd (acquire_repo_fg ow lock lost scope capacity stale deadline ps rows))"
proof (cases rule: acquire_repo_fg_cases [of ow lock lost scope capacity stale deadline ps rows])
  case plain
  then show ?thesis using acquire_runs [OF assms] by simp
next
  case refused
  then show ?thesis by (simp add: enqueue_Inl)
next
  case (lost rows')
  show ?thesis unfolding lost(2) by (rule runs_trans [OF abort_runs enqueue_Inr(1) [OF lost(1)]])
next
  case (waits rows' cap)
  show ?thesis unfolding waits(4)
    by (rule runs_trans [OF lock_loop.wait_runs enqueue_Inr(1) [OF waits(3)]])
      (simp_all add: assms enqueue_Inr(3) [OF waits(3)])
qed

lemma acquire_idle:
  assumes "\<forall>p \<in> set ps. lawful_peers p" and "ca_find (strip (ow_id ow)) rows = None"
  shows "fst (acquire ow cls scope capacity stale deadline ps rows) \<in> {Acquired, StillWaiting}
    \<or> idle (ow_id ow) (snd (acquire ow cls scope capacity stale deadline ps rows))"
proof (cases rule: acquire_cases [of ow cls scope rows capacity stale deadline ps])
  case (waits rows')
  show ?thesis unfolding waits(2)
    by (rule store_loop.wait_idle) (simp_all add: assms enqueue_Inr(2) [OF waits(1)])
qed (simp add: enqueue_Inl assms(2))

lemma acquire_repo_fg_idle:
  assumes "\<forall>p \<in> set ps. lawful_peers p" and "ca_find (strip (ow_id ow)) rows = None"
  shows "fst (acquire_repo_fg ow lock lost scope capacity stale deadline ps rows) \<in> {Acquired, StillWaiting}
    \<or> idle (ow_id ow) (snd (acquire_repo_fg ow lock lost scope capacity stale deadline ps rows))"
proof (cases rule: acquire_repo_fg_cases [of ow lock lost scope capacity stale deadline ps rows])
  case plain
  then show ?thesis using acquire_idle [OF assms] by simp
next
  case refused
  then show ?thesis by (simp add: enqueue_Inl assms(2))
next
  case (lost rows')
  show ?thesis unfolding lost(2) using abort_idle enqueue_Inr(2) [OF lost(1)] by simp
next
  case (waits rows' cap)
  show ?thesis unfolding waits(4)
    by (rule lock_loop.wait_idle)
      (simp_all add: assms enqueue_Inr(2,3) [OF waits(3)])
qed

lemma acquire_bounded:
  assumes "\<forall>p \<in> set ps. lawful_peers p" and "\<exists>p \<in> set ps. deadline \<le> po_clock_end p"
  shows "fst (acquire ow cls scope capacity stale deadline ps rows) \<noteq> StillWaiting"
proof (cases rule: acquire_cases [of ow cls scope rows capacity stale deadline ps])
  case (refused r)
  then show ?thesis using enqueue_Inl(2) by auto
next
  case (waits rows')
  show ?thesis unfolding waits(2) using store_loop.wait_bounded assms by simp
qed

lemma acquire_repo_fg_bounded:
  assumes "\<forall>p \<in> set ps. lawful_peers p" and "\<exists>p \<in> set ps. deadline \<le> po_clock_end p"
  shows "fst (acquire_repo_fg ow lock lost scope capacity stale deadline ps rows) \<noteq> StillWaiting"
proof (cases rule: acquire_repo_fg_cases [of ow lock lost scope capacity stale deadline ps rows])
  case plain
  then show ?thesis using acquire_bounded [OF assms] by simp
next
  case refused
  then show ?thesis using enqueue_Inl(2) by auto
next
  case (lost rows')
  show ?thesis unfolding lost(2) by (rule fst_not_waiting(2))
next
  case (waits rows' cap)
  show ?thesis unfolding waits(4)
    using lock_loop.wait_bounded [of ps Queued "ow_id ow" rows' deadline] assms enqueue_Inr(3) [OF waits(3)] by simp
qed

lemma lawful_no_fn [simp]: "(\<forall>p \<in> set (no_capacity_fn ps). lawful_peers p) \<longleftrightarrow> (\<forall>p \<in> set ps. lawful_peers p)"
  by (simp add: no_capacity_fn_def lawful_peers_def)

lemma clocks_no_fn [simp]: "(\<exists>p \<in> set (no_capacity_fn ps). d \<le> po_clock_end p) \<longleftrightarrow> (\<exists>p \<in> set ps. d \<le> po_clock_end p)"
  by (simp add: no_capacity_fn_def)

subsection \<open>Properties\<close>

lemma fg_cases:
  obtains (outer) out rows1 where "acquire mo review_machine ''*'' (Some (at_least1 (Some (fg_machine rq)))) (fg_stale rq)
        (fg_deadline rq) (no_capacity_fn mps) rows = (out, rows1)" "out \<noteq> Acquired"
      "acquire_for_fg mo io rq mps ips rows = (out, rows1)"
  | (inner) rows1 cap out rows2 where "acquire mo review_machine ''*'' (Some (at_least1 (Some (fg_machine rq)))) (fg_stale rq)
        (fg_deadline rq) (no_capacity_fn mps) rows = (Acquired, rows1)"
      "acquire_repo_fg io (fg_lock rq) (fg_lost rq) (fg_scope rq) cap (fg_stale rq)
        (fg_clock_in rq + max (fg_deadline rq - fg_clock rq) 0) (no_capacity_fn ips) (fg_peers rq rows1) = (out, rows2)"
      "acquire_for_fg mo io rq mps ips rows = (if out \<in> {Acquired, StillWaiting} then (out, rows2)
         else case ticket_finish (fg_now rq) (ow_id mo) Rejected (Some ''inner_admit_failed'') rows2 of
                Inl e \<Rightarrow> (Broke (StoreFault e), rows2) | Inr rows' \<Rightarrow> (out, rows'))"
proof (cases "acquire mo review_machine ''*'' (Some (at_least1 (Some (fg_machine rq)))) (fg_stale rq)
        (fg_deadline rq) (no_capacity_fn mps) rows")
  case (Pair out rows1)
  show thesis
  proof (cases "out = Acquired")
    case False
    with Pair show thesis by (intro outer) (simp_all add: acquire_for_fg_def)
  next
    case True
    let ?inner = "acquire_repo_fg io (fg_lock rq) (fg_lost rq) (fg_scope rq)
      (effective_fg_capacity (at_least1 (fg_capacity rq)) (at_least1 (Some (fg_machine rq)))) (fg_stale rq)
        (fg_clock_in rq + max (fg_deadline rq - fg_clock rq) 0) (no_capacity_fn ips) (fg_peers rq rows1)"
    obtain out2 rows2 where i: "?inner = (out2, rows2)" by (cases ?inner)
    show thesis
      by (rule inner [OF Pair [unfolded True] i])
        (simp only: acquire_for_fg_def Let_def Pair True i prod.case not_True_eq_False if_False simp_thms)
  qed
qed

lemma fg_machine_run:
  assumes "\<forall>p \<in> set mps. lawful_peers p"
    and "acquire mo review_machine ''*'' cap stale deadline (no_capacity_fn mps) rows = (out, rows1)"
  shows "runs rows rows1"
    and "ca_find (strip (ow_id mo)) rows = None \<Longrightarrow> out \<notin> {Acquired, StillWaiting} \<Longrightarrow> idle (ow_id mo) rows1"
    and "\<exists>p \<in> set mps. deadline \<le> po_clock_end p \<Longrightarrow> out \<noteq> StillWaiting"
proof -
  have m: "\<forall>p \<in> set (no_capacity_fn mps). lawful_peers p" using assms(1) by simp
  show "runs rows rows1"
    using acquire_runs [OF m, of rows mo review_machine "''*''" cap stale deadline] by (simp add: assms(2))
  show "ca_find (strip (ow_id mo)) rows = None \<Longrightarrow> out \<notin> {Acquired, StillWaiting} \<Longrightarrow> idle (ow_id mo) rows1"
    using acquire_idle [OF m, of mo rows review_machine "''*''" cap stale deadline] by (simp add: assms(2))
  show "\<exists>p \<in> set mps. deadline \<le> po_clock_end p \<Longrightarrow> out \<noteq> StillWaiting"
    using acquire_bounded [OF m, of deadline mo review_machine "''*''" cap stale rows] by (simp add: assms(2))
qed

lemma fg_inner_run:
  assumes "\<forall>p \<in> set ips. lawful_peers p"
    and "acquire_repo_fg io lock lost scope cap stale deadline (no_capacity_fn ips) rows = (out, rows1)"
  shows "runs rows rows1"
    and "ca_find (strip (ow_id io)) rows = None \<Longrightarrow> out \<notin> {Acquired, StillWaiting} \<Longrightarrow> idle (ow_id io) rows1"
    and "\<exists>p \<in> set ips. deadline \<le> po_clock_end p \<Longrightarrow> out \<noteq> StillWaiting"
proof -
  have i: "\<forall>p \<in> set (no_capacity_fn ips). lawful_peers p" using assms(1) by simp
  show "runs rows rows1"
    using acquire_repo_fg_runs [OF i, of rows io lock lost scope cap stale deadline] by (simp add: assms(2))
  show "ca_find (strip (ow_id io)) rows = None \<Longrightarrow> out \<notin> {Acquired, StillWaiting} \<Longrightarrow> idle (ow_id io) rows1"
    using acquire_repo_fg_idle [OF i, of io rows lock lost scope cap stale deadline] by (simp add: assms(2))
  show "\<exists>p \<in> set ips. deadline \<le> po_clock_end p \<Longrightarrow> out \<noteq> StillWaiting"
    using acquire_repo_fg_bounded [OF i, of deadline io lock lost scope cap stale rows] by (simp add: assms(2))
qed

text \<open>C32 (refinement). The waiting loops, with whatever the other processes do between their store calls, are
  runs of the admission machine: after any call of \<open>acquire_for_fg\<close> the slots are still
  exclusive.\<close>

theorem acquire_refines_machine:
  assumes "reachable_by [] cap_step rows" and "\<forall>p \<in> set (mps @ ips). lawful_peers p"
    and "\<And>r. reachable_by r cap_step (fg_peers rq r)"
  shows "reachable_by [] cap_step (snd (acquire_for_fg mo io rq mps ips rows))
    \<and> exclusive (snd (acquire_for_fg mo io rq mps ips rows))"
proof -
  have peers: "\<forall>p \<in> set mps. lawful_peers p" "\<forall>p \<in> set ips. lawful_peers p" using assms(2) by auto
  have run: "runs rows (snd (acquire_for_fg mo io rq mps ips rows))"
  proof (cases rule: fg_cases [of mo rq mps rows io ips])
    case (outer out rows1)
    then show ?thesis using fg_machine_run(1) [OF peers(1) outer(1)] by simp
  next
    case (inner rows1 cap out rows2)
    have "runs rows (fg_peers rq rows1)" by (rule runs_trans [OF assms(3) fg_machine_run(1) [OF peers(1) inner(1)]])
    then have r2: "runs rows rows2" by (rule runs_trans [OF fg_inner_run(1) [OF peers(2) inner(2)]])
    have "runs rows2 (snd (acquire_for_fg mo io rq mps ips rows))"
      unfolding inner(3) by (auto dest: finish_runs split: sum.split)
    then show ?thesis using r2 by (rule runs_trans)
  qed
  then have "reachable_by [] cap_step (snd (acquire_for_fg mo io rq mps ips rows))"
    by (rule runs_trans) (rule assms(1))
  then show ?thesis using cap.reachable_inv by (simp add: cap_ok_def)
qed

lemma finish_keeps_idle:
  assumes "ticket_finish now mid s why rows = Inr rows'" and "idle aid rows"
  shows "idle aid rows'"
proof (cases "capacity_finish now mid s why rows")
  case (Inl e)
  then show ?thesis using assms by (auto simp: ticket_finish_def err_iffs split: if_splits)
next
  case (Inr res)
  then obtain row where f: "capacity_finish now mid s why rows = Inr (row, rows')"
    using assms by (cases res) (simp add: ticket_finish_def)
  then show ?thesis using assms(2)
    by (auto simp: capacity_finish_def err_iffs idle_def tbl_find_update split: if_splits option.splits)
qed

text \<open>A failed wait leaks no slot. When \<open>acquire_for_fg\<close> gives up, is cancelled or fails, neither
  its machine ticket nor its foreground ticket is left queued or held.\<close>

theorem failed_wait_frees_slots:
  assumes "\<forall>p \<in> set (mps @ ips). lawful_peers p" and "strip (ow_id mo) \<noteq> []"
    and "ca_find (strip (ow_id mo)) rows = None"
    and "\<And>r. ca_find (strip (ow_id io)) (fg_peers rq r) = None"
    and "acquire_for_fg mo io rq mps ips rows = (out, rows')" and "out \<notin> {Acquired, StillWaiting}"
  shows "idle (ow_id mo) rows' \<and>
    (fst (acquire mo review_machine ''*'' (Some (at_least1 (Some (fg_machine rq)))) (fg_stale rq)
        (fg_deadline rq) (no_capacity_fn mps) rows) = Acquired \<longrightarrow> idle (ow_id io) rows')"
proof (cases rule: fg_cases [of mo rq mps rows io ips])
  case (outer out1 rows1)
  then have eq: "out1 = out" "rows1 = rows'" using assms(5) by simp_all
  have "idle (ow_id mo) rows1"
    using fg_machine_run(2) [OF _ outer(1) assms(3)] assms(1,6) eq(1) by simp
  then show ?thesis using outer(1,2) eq(2) by simp
next
  case (inner rows1 cap out1 rows2)
  have out1: "out1 \<notin> {Acquired, StillWaiting}" using inner(3) assms(5,6) by (auto split: if_splits)
  obtain rows3 where f: "ticket_finish (fg_now rq) (ow_id mo) Rejected (Some ''inner_admit_failed'') rows2 = Inr rows3"
    using finish_succeeds [OF assms(2), of Rejected] by fastforce
  then have "rows' = rows3" using inner(3) assms(5) out1 by simp
  moreover have "idle (ow_id io) rows2"
    using fg_inner_run(2) [OF _ inner(2) assms(4)] assms(1) out1 by simp
  ultimately show ?thesis using finish_idle [OF f] finish_keeps_idle [OF f] by simp
qed

definition sample_owner :: owner where
  "sample_owner = \<lparr>ow_id = ''m1'', ow_pid = 7, ow_birth = (\<lambda>p. Some ''b7''), ow_link_ok = True,
     ow_now = ''2026-07-28T12:00:00Z''\<rparr>"

definition sample_inner :: owner where
  "sample_inner = sample_owner\<lparr>ow_id := ''host''\<rparr>"

definition cancelled_poll :: poll where
  "cancelled_poll = \<lparr>po_peers_top = id, po_peers_mid = id, po_peers_end = id, po_cancelled = True, po_clock_top = 0,
     po_clock_end = 10, po_capacity_fn = None, po_lost = False, po_lock = False,
     po_processes = \<lparr>pr_alive = \<lambda>p. True, pr_custom = False, pr_observe = \<lambda>p. (None, False)\<rparr>,
     po_epoch = 0, po_now = ''2026-07-28T12:00:01Z''\<rparr>"

definition sample_request :: fg_request where
  "sample_request = \<lparr>fg_scope = ''host'', fg_capacity = None, fg_machine = 1, fg_stale = 60, fg_deadline = 10,
     fg_lock = False, fg_lost = False, fg_clock = 0, fg_clock_in = 0, fg_peers = (\<lambda>r. r), fg_now = ''2026-07-28T12:00:02Z''\<rparr>"

lemma sample_lawful [simp]: "lawful_peers cancelled_poll"
  by (simp add: lawful_peers_def cancelled_poll_def)

lemma strip_star [simp]: "strip ''*'' = ''*''"
  by code_simp

lemma sample_enqueued:
  "\<exists>row. enqueue sample_owner review_machine ''*'' [] = Inr [row] \<and> ca_id row = ''m1''"
  by (simp add: enqueue_def capacity_enqueue_def need_def sample_owner_def Let_def)

lemma sample_cancelled:
  "fst (acquire sample_owner review_machine ''*'' cap stale deadline (no_capacity_fn [cancelled_poll]) []) = WasCancelled"
proof -
  obtain row where e: "enqueue sample_owner review_machine ''*'' [] = Inr [row]" using sample_enqueued by blast
  have c: "po_cancelled (cancelled_poll\<lparr>po_capacity_fn := None\<rparr>)" by (simp add: cancelled_poll_def)
  have "strip (ow_id sample_owner) \<noteq> []" by (simp add: sample_owner_def)
  with c show ?thesis by (simp add: acquire_def e no_capacity_fn_def poll_once_def Let_def quit_idle)
qed

theorem acquire_refines_machine_witness:
  "exclusive (snd (acquire_for_fg sample_owner sample_inner sample_request [cancelled_poll] [cancelled_poll] []))"
  using acquire_refines_machine [OF reachable_by.intros(1), of "[cancelled_poll]" "[cancelled_poll]" sample_request]
  by (simp add: sample_request_def)

theorem failed_wait_frees_slots_witness:
  "idle ''m1'' (snd (acquire_for_fg sample_owner sample_inner (sample_request\<lparr>fg_peers := \<lambda>r. []\<rparr>) [cancelled_poll] [] []))"
proof -
  let ?r = "acquire_for_fg sample_owner sample_inner (sample_request\<lparr>fg_peers := \<lambda>r. []\<rparr>) [cancelled_poll] [] []"
  obtain rows1 where a: "acquire sample_owner review_machine ''*'' (Some 1) 60 10 (no_capacity_fn [cancelled_poll]) [] = (WasCancelled, rows1)"
    using sample_cancelled [of "Some 1" 60 10] by (metis prod.collapse)
  have "fst ?r = WasCancelled"
    by (simp add: acquire_for_fg_def Let_def at_least1_def sample_request_def a)
  then have run: "?r = (WasCancelled, snd ?r)" by (metis prod.collapse)
  have ids: "strip (ow_id sample_owner) \<noteq> []" "ow_id sample_owner = ''m1''" by (simp_all add: sample_owner_def)
  have "idle (ow_id sample_owner) (snd ?r)"
    using failed_wait_frees_slots [OF _ ids(1) _ _ run] by simp
  then show ?thesis unfolding ids(2) .
qed

text \<open>C33 (liveness). No wait outlasts its deadline: a run that is polled until its clock has passed the
  deadline of each of the two tickets has returned, whatever the other processes do.\<close>

theorem wait_is_bounded:
  assumes "\<forall>p \<in> set (mps @ ips). lawful_peers p" and "\<exists>p \<in> set mps. fg_deadline rq \<le> po_clock_end p"
    and "\<exists>p \<in> set ips. fg_clock_in rq + max (fg_deadline rq - fg_clock rq) 0 \<le> po_clock_end p"
  shows "fst (acquire_for_fg mo io rq mps ips rows) \<noteq> StillWaiting"
proof (cases rule: fg_cases [of mo rq mps rows io ips])
  case (outer out rows1)
  then show ?thesis using fg_machine_run(3) [OF _ outer(1)] assms(1,2) by simp
next
  case (inner rows1 cap out rows2)
  have "out \<noteq> StillWaiting" using fg_inner_run(3) [OF _ inner(2)] assms(1,3) by simp
  then show ?thesis using inner(3) by (auto split: sum.splits)
qed

theorem wait_is_bounded_witness:
  "fst (acquire_for_fg sample_owner sample_inner sample_request [cancelled_poll] [cancelled_poll] []) \<noteq> StillWaiting"
  using wait_is_bounded [of "[cancelled_poll]" "[cancelled_poll]" sample_request]
  by (simp add: sample_request_def cancelled_poll_def [THEN arg_cong, of po_clock_end])

text \<open>What is acquired runs: when the wait succeeds, and no other process interferes between
  the admission and the start, the ticket's row is running.\<close>

theorem acquired_is_running:
  assumes "\<forall>p \<in> set ps. lawful_peers p \<and> leaves_row (ow_id ow) p"
    and "acquire_repo_fg ow lock lost scope cap stale deadline ps rows = (Acquired, rows')"
  shows "\<exists>r. ca_find (strip (ow_id ow)) rows' = Some r \<and> ca_status r = Running"
proof -
  have peers: "\<forall>p \<in> set ps. lawful_peers p" "\<forall>p \<in> set ps. leaves_row (ow_id ow) p" using assms(1) by auto
  have direct: "\<exists>r. ca_find (strip (ow_id ow)) rows' = Some r \<and> ca_status r = Running"
    if a: "acquire ow review_fg scope (Some cap) stale deadline ps rows = (Acquired, rows')"
  proof (cases rule: acquire_cases [of ow review_fg scope rows "Some cap" stale deadline ps])
    case (refused r)
    then show ?thesis using enqueue_Inl(2) a by fastforce
  next
    case (waits rows1)
    with a have w: "wait_loop (ow_id ow) review_fg scope (Some cap) stale deadline ps False None Queued rows1 = (Acquired, rows')"
      by simp
    show ?thesis
      using store_loop.wait_running [where st = Queued and rows = rows1 and aid = "ow_id ow" and cls = review_fg
          and scope = scope and capacity = "Some cap" and stale = stale and deadline = deadline and attempted = False
          and observed = None, OF peers(1)]
        peers(2) by (simp add: w)
  qed
  show ?thesis
  proof (cases rule: acquire_repo_fg_cases [of ow lock lost scope cap stale deadline ps rows])
    case plain
    with assms(2) have "acquire ow review_fg scope (Some cap) stale deadline ps rows = (Acquired, rows')" by simp
    then show ?thesis by (rule direct)
  next
    case (refused r)
    then show ?thesis using enqueue_Inl(2) assms(2) by fastforce
  next
    case (lost rows1)
    then have "fst (abort (ow_now ow) (ow_id ow) Queued ObservationLost rows1) = Acquired" using assms(2) by (metis fst_conv)
    then show ?thesis using fst_abort [of "ow_now ow" "ow_id ow" Queued ObservationLost rows1] by simp
  next
    case (waits rows1 cap1)
    then have w: "wait_locked (ow_id ow) scope cap1 stale deadline ps False Queued rows1 = (Acquired, rows')"
      using assms(2) by simp
    show ?thesis
      using lock_loop.wait_running [where st = Queued and aid = "ow_id ow" and rows = rows1 and scope = scope
          and cap = cap1 and stale = stale and deadline = deadline and attempted = False, OF peers(1)]
        peers(2) enqueue_Inr(3) [OF waits(3)] by (simp add: w)
  qed
qed

definition free_poll :: poll where
  "free_poll = cancelled_poll\<lparr>po_cancelled := False\<rparr>"

lemma sample_acquired:
  "\<exists>rows'. acquire_repo_fg sample_owner False False ''host'' 1 60 10 [free_poll] [] = (Acquired, rows')"
  by (simp add: acquire_repo_fg_def acquire_def enqueue_def capacity_enqueue_def need_def sample_owner_def Let_def
      poll_once_def free_poll_def cancelled_poll_def sweep_def capacity_reclaim_stale_def in_group_def reclaim_reason_def
      should_reclaim_admission_def tbl_update_def resolve_capacity_def capacity_try_admit_def max_capacity_def
      peers_def view_of_def decide_admit_def limited_def seen_def start_def capacity_mark_started_def
      del: set_filter)

theorem acquired_is_running_witness:
  "\<exists>rows' r. acquire_repo_fg sample_owner False False ''host'' 1 60 10 [free_poll] [] = (Acquired, rows')
     \<and> ca_find ''m1'' rows' = Some r \<and> ca_status r = Running"
proof -
  obtain rows' where a: "acquire_repo_fg sample_owner False False ''host'' 1 60 10 [free_poll] [] = (Acquired, rows')"
    using sample_acquired by blast
  have "lawful_peers free_poll \<and> leaves_row (ow_id sample_owner) free_poll"
    by (simp add: lawful_peers_def leaves_row_def free_poll_def cancelled_poll_def)
  then have p: "\<forall>p \<in> set [free_poll]. lawful_peers p \<and> leaves_row (ow_id sample_owner) p" by simp
  have "strip (ow_id sample_owner) = ''m1''" by (simp add: sample_owner_def)
  with acquired_is_running [OF p a] a show ?thesis by auto
qed

text \<open>Releasing a foreground ticket releases the machine ticket it holds: both rows have
  ended afterwards, whether they still existed or not.\<close>

theorem release_frees_both:
  assumes "strip aid \<noteq> []" and "strip pid \<noteq> []" and "\<not> active s"
  shows "\<exists>rows'. finish_with_parent now aid (Some pid) s why rows = Inr rows' \<and> idle aid rows' \<and> idle pid rows'"
proof -
  obtain rows1 where f1: "ticket_finish now aid s why rows = Inr rows1"
    using finish_succeeds [OF assms(1,3)] by fastforce
  obtain rows2 where f2: "ticket_finish now pid s why rows1 = Inr rows2"
    using finish_succeeds [OF assms(2,3)] by fastforce
  have "idle aid rows2" by (rule finish_keeps_idle [OF f2 finish_idle [OF f1]])
  then show ?thesis using f1 f2 finish_idle [OF f2] by (simp add: finish_with_parent_def)
qed

theorem release_frees_both_witness:
  "\<exists>rows'. finish_with_parent ''2026-07-28T12:00:09Z'' ''host'' (Some ''m1'') Released None [sample_admitted_row] = Inr rows'
     \<and> idle ''host'' rows' \<and> idle ''m1'' rows'"
  by (rule release_frees_both) simp_all

end
