(* ===== verification/ProviderState.thy ===== *)
theory ProviderState
  imports Ledger
begin

section \<open>Provider state: the cache of outages\<close>

text \<open>
  Models the table \<open>provider_state\<close> of \<open>store.py\<close> and \<open>config.quota_pool_for\<close>. An outage is
  recorded for a provider or for one of its quota pools, always with an end; a read says why a
  provider is to be skipped now. A row may have been corrupted from outside, so its end is any value.
\<close>

record provider_row =
  ps_key :: string
  ps_until :: pyval
  ps_reason :: "string option"
  ps_category :: "string option"
  ps_recorded :: pyval

type_synonym provider_table = "provider_row list"

text \<open>\<open>_state_key\<close> and \<open>_decode_state_key\<close>.\<close>

definition state_key :: "string \<Rightarrow> string option \<Rightarrow> door_error + string" where
  "state_key provider pool =
     ebind (require_text ''provider'' (PStr provider)) (\<lambda>provider.
       case pool of None \<Rightarrow> Inr provider
       | Some q \<Rightarrow> ebind (require_text ''quota_pool'' (PStr q)) (\<lambda>q.
           if q = provider then Inr provider else Inr (provider @ ''::'' @ q)))"

fun split_colons :: "string \<Rightarrow> (string \<times> string) option" where
  "split_colons (c # d # s) =
     (if c = CHR '':'' \<and> d = CHR '':'' then Some ([], s)
      else map_option (\<lambda>(a, b). (c # a, b)) (split_colons (d # s)))"
| "split_colons s = None"

definition decode_state_key :: "string \<Rightarrow> string \<times> string option" where
  "decode_state_key key =
     (case split_colons key of None \<Rightarrow> (key, None)
      | Some (provider, pool) \<Rightarrow> (provider, if pool = [] then None else Some pool))"

definition mark_provider_unavailable ::
    "string \<Rightarrow> string \<Rightarrow> string \<Rightarrow> string \<Rightarrow> pyval \<Rightarrow> pyval option \<Rightarrow> string option \<Rightarrow> provider_table
      \<Rightarrow> door_error + provider_table" where
  "mark_provider_unavailable iso_now provider reason category until recorded pool st =
     ebind (require_text ''provider'' (PStr provider)) (\<lambda>provider.
     ebind (state_key provider pool) (\<lambda>key.
     ebind (require_text ''reason'' (PStr reason)) (\<lambda>reason.
     ebind (require_text ''category'' (PStr category)) (\<lambda>category.
     ebind (require_ts ''until_iso'' until) (\<lambda>until.
     ebind (case recorded of None \<Rightarrow> Inr (PStr iso_now) | Some t \<Rightarrow> require_ts ''recorded_at'' t) (\<lambda>at.
     Inr (tbl_upsert ps_key \<lparr>ps_key = key, ps_until = until, ps_reason = Some reason,
       ps_category = Some category, ps_recorded = at\<rparr> st)))))))"

definition provider_state_bypassed :: "string option \<Rightarrow> bool" where
  "provider_state_bypassed env =
     (case env of None \<Rightarrow> False | Some raw \<Rightarrow> if strip raw = [] then False else raw \<noteq> ''0'')"

definition row_text :: "string option \<Rightarrow> string" where
  "row_text t = (case t of None \<Rightarrow> ''provider marked unavailable''
     | Some s \<Rightarrow> if s = [] then ''provider marked unavailable'' else s)"

text \<open>The loop of \<open>provider_unavailable_reason\<close> over its keys.\<close>

fun first_outage :: "string \<Rightarrow> provider_table \<Rightarrow> string list \<Rightarrow> string option" where
  "first_outage now st [] = None"
| "first_outage now st (k # ks) =
     (case tbl_find ps_key k st of
        None \<Rightarrow> first_outage now st ks
      | Some r \<Rightarrow> if still_unavailable (ps_until r) now then Some (row_text (ps_reason r))
                  else first_outage now st ks)"

definition provider_unavailable_reason ::
    "string option \<Rightarrow> string \<Rightarrow> string option \<Rightarrow> string \<Rightarrow> provider_table \<Rightarrow> door_error + string option" where
  "provider_unavailable_reason env provider pool now st =
     ebind (require_ts ''now_iso'' (PStr now)) (\<lambda>_.
       if provider_state_bypassed env then Inr None
       else ebind (require_text ''provider'' (PStr provider)) (\<lambda>provider.
            ebind (state_key provider pool) (\<lambda>key.
            Inr (first_outage now st (if key \<noteq> provider then [key, provider] else [key])))))"

text \<open>\<open>provider_state_rows\<close>: each row decoded, with whether it is in force.\<close>

definition provider_state_rows ::
    "string \<Rightarrow> provider_table \<Rightarrow> door_error + (string \<times> string option \<times> provider_row \<times> bool) list" where
  "provider_state_rows now st =
     ebind (require_ts ''now_iso'' (PStr now)) (\<lambda>_.
       Inr (map (\<lambda>r. case decode_state_key (ps_key r) of (provider, pool) \<Rightarrow>
           (provider, pool, r, still_unavailable (ps_until r) now)) (sort_key ps_key st)))"

text \<open>\<open>quota_pool_for(reviewer)\<close>: \<open>None\<close> stands for its \<open>ValueError\<close>.\<close>

definition quota_pool_for :: "string option \<Rightarrow> string \<Rightarrow> string \<Rightarrow> string option" where
  "quota_pool_for pool provider model =
     (case pool of
        Some q \<Rightarrow> if strip q \<noteq> [] then Some (strip q) else None
      | None \<Rightarrow>
          if strip provider = ''google''
          then Some (if starts_with ''gemini'' (lower (strip model)) then ''google:gemini'' else ''google:claude-gpt'')
          else Some (strip provider))"

interpretation states: keyed_table "tbl_find ps_key" "tbl_upsert ps_key" ps_key
  by unfold_locales (auto simp: tbl_find_upsert_other)

subsection \<open>Keys\<close>

lemma split_colons_first:
  "CHR '':'' \<notin> set p \<Longrightarrow> split_colons (p @ CHR '':'' # CHR '':'' # q) = Some (p, q)"
proof (induction p)
  case (Cons c p)
  then show ?case by (cases p) auto
qed simp

lemma split_colons_none: "CHR '':'' \<notin> set p \<Longrightarrow> split_colons p = None"
  by (induction p rule: split_colons.induct) auto

lemma state_key_Inr:
  "state_key p pool = Inr k \<longleftrightarrow> strip p \<noteq> [] \<and>
     (case pool of None \<Rightarrow> k = strip p
      | Some q \<Rightarrow> strip q \<noteq> [] \<and> k = (if strip q = strip p then strip p else strip p @ ''::'' @ strip q))"
  by (auto simp: state_key_def err_iffs split: option.splits if_splits)

lemma state_key_strip [simp]: "state_key (strip p) pool = state_key p pool"
  by (simp add: state_key_def split: option.split)

text \<open>The key of a provider's outage can be read back: for a provider id without colons,
  decoding its key gives the provider and its pool, or no pool when the pool is the provider
  itself.\<close>

theorem state_key_roundtrip:
  assumes "CHR '':'' \<notin> set p" and "state_key p pool = Inr k"
  shows "decode_state_key k = (strip p, case pool of None \<Rightarrow> None
    | Some q \<Rightarrow> if strip q = strip p then None else Some (strip q))"
proof -
  have "CHR '':'' \<notin> set (strip p)" using assms(1) set_strip by blast
  then show ?thesis using assms(2)
    by (auto simp: state_key_Inr decode_state_key_def split_colons_first split_colons_none
        split: option.splits if_splits)
qed

lemma strip_pools: "strip ''google'' = ''google''" "strip ''google:gemini'' = ''google:gemini''"
  "strip ''google:claude-gpt'' = ''google:claude-gpt''" "strip ''quota'' = ''quota''" "strip ''limit'' = ''limit''"
  by code_simp+

theorem state_key_roundtrip_witness:
  "decode_state_key ''google::google:gemini'' = (''google'', Some ''google:gemini'')"
  using state_key_roundtrip [of "''google''" "Some ''google:gemini''" "''google::google:gemini''"]
  by (simp add: state_key_Inr strip_pools)

subsection \<open>Outages\<close>

lemma mark_Inr:
  "mark_provider_unavailable iso_now p why cat until recorded pool st = Inr st' \<Longrightarrow>
    \<exists>k at. state_key p pool = Inr k \<and> strip p \<noteq> [] \<and> strip why \<noteq> [] \<and> is_canonical_ts until
      \<and> st' = tbl_upsert ps_key \<lparr>ps_key = k, ps_until = until, ps_reason = Some (strip why),
          ps_category = Some (strip cat), ps_recorded = at\<rparr> st"
  by (auto simp: mark_provider_unavailable_def err_iffs require_ts_def split: option.splits if_splits)

lemma first_outage_other:
  "ps_key r \<notin> set ks \<Longrightarrow> first_outage now (tbl_upsert ps_key r st) ks = first_outage now st ks"
  by (induction ks) (auto simp: states.fetch_put split: option.split)

text \<open>An outage lasts exactly until its end: after it is recorded for a pool, that pool is
  unavailable, with the reason given, at every time before the end; from the end on only an
  outage recorded for the whole provider can still make it unavailable.\<close>

theorem outage_lasts_until_its_end:
  assumes "mark_provider_unavailable iso_now p why cat until recorded pool st = Inr st'"
    and "canonical_str now" and "\<not> provider_state_bypassed env"
  shows "provider_unavailable_reason env p pool now st' = Inr
    (if still_unavailable until now then Some (strip why)
     else if state_key p pool = Inr (strip p) then None else first_outage now st [strip p])"
proof -
  from mark_Inr [OF assms(1)] obtain k at where k: "state_key p pool = Inr k" "strip p \<noteq> []" "strip why \<noteq> []"
    and st': "st' = tbl_upsert ps_key \<lparr>ps_key = k, ps_until = until, ps_reason = Some (strip why),
          ps_category = Some (strip cat), ps_recorded = at\<rparr> st" by blast
  have key: "state_key (strip p) pool = Inr k" using k by simp
  have read: "provider_unavailable_reason env p pool now st'
      = Inr (first_outage now st' (if k \<noteq> strip p then [k, strip p] else [k]))"
    using assms(2,3) k(2) key by (simp add: provider_unavailable_reason_def require_ts_def)
  have "row_text (Some (strip why)) = strip why" using k(3) by (simp add: row_text_def)
  then show ?thesis
    using k(1) unfolding read by (simp add: st' states.fetch_put first_outage_other split: option.split)
qed

theorem outage_lasts_until_its_end_witness:
  "provider_unavailable_reason None ''google'' (Some ''google:gemini'') ''2026-07-28T12:00:00Z''
     [\<lparr>ps_key = ''google::google:gemini'', ps_until = PStr ''2026-07-28T13:00:00Z'', ps_reason = Some ''limit'',
       ps_category = Some ''quota'', ps_recorded = PStr ''2026-07-28T12:00:00Z''\<rparr>] = Inr (Some ''limit'')"
proof -
  have c: "canonical_str ''2026-07-28T12:00:00Z''" "canonical_str ''2026-07-28T13:00:00Z''" by code_simp+
  have "mark_provider_unavailable ''2026-07-28T12:00:00Z'' ''google'' ''limit'' ''quota'' (PStr ''2026-07-28T13:00:00Z'')
      None (Some ''google:gemini'') [] = Inr [\<lparr>ps_key = ''google::google:gemini'', ps_until = PStr ''2026-07-28T13:00:00Z'',
       ps_reason = Some ''limit'', ps_category = Some ''quota'', ps_recorded = PStr ''2026-07-28T12:00:00Z''\<rparr>]"
    by (simp add: mark_provider_unavailable_def state_key_def require_ts_def strip_pools c)
  moreover have "''2026-07-28T12:00:00Z'' < (''2026-07-28T13:00:00Z'' :: string)" by code_simp
  ultimately show ?thesis
    using outage_lasts_until_its_end [OF _ c(1), of "''2026-07-28T12:00:00Z''" "''google''" "''limit''" "''quota''"
        "PStr ''2026-07-28T13:00:00Z''" None "Some ''google:gemini''" "[]" _ None]
    by (simp add: provider_state_bypassed_def c strip_pools)
qed

text \<open>Pools do not black out each other: an outage of one pool of a provider changes no
  answer about another pool of it, nor about any other provider.\<close>

theorem pools_are_isolated:
  assumes "mark_provider_unavailable iso_now p why cat until recorded (Some q) st = Inr st'"
    and "CHR '':'' \<notin> set p" and "CHR '':'' \<notin> set p'" and "strip q \<noteq> strip p"
    and "strip p \<noteq> strip p' \<or> (case pool of None \<Rightarrow> True | Some q' \<Rightarrow> strip q' \<noteq> strip q)"
  shows "provider_unavailable_reason env p' pool now st' = provider_unavailable_reason env p' pool now st"
proof -
  from mark_Inr [OF assms(1)] obtain r where k: "state_key p (Some q) = Inr (ps_key r)"
    and st': "st' = tbl_upsert ps_key r st" by (metis provider_row.select_convs(1))
  have dec: "decode_state_key (ps_key r) = (strip p, Some (strip q))"
  proof -
    have "CHR '':'' \<notin> set (strip p)" using assms(2) set_strip by blast
    then show ?thesis using assms(4) k by (simp add: state_key_Inr decode_state_key_def split_colons_first)
  qed
  have "ps_key r \<noteq> k'" if "state_key p' pool = Inr k'" for k'
  proof
    assume "ps_key r = k'"
    moreover have "CHR '':'' \<notin> set (strip p')" using assms(3) set_strip by blast
    ultimately have "decode_state_key (ps_key r) = (strip p', case pool of None \<Rightarrow> None
        | Some q \<Rightarrow> if strip q = strip p' then None else Some (strip q))"
      using that by (auto simp: state_key_Inr decode_state_key_def split_colons_first split_colons_none
          split: option.splits if_splits)
    then show False using dec assms(5) by (auto split: option.splits if_splits)
  qed
  moreover have "ps_key r \<noteq> strip p'"
  proof
    assume "ps_key r = strip p'"
    moreover have "CHR '':'' \<notin> set (strip p')" using assms(3) set_strip by blast
    ultimately show False using dec by (simp add: decode_state_key_def split_colons_none)
  qed
  ultimately show ?thesis
    by (cases "state_key p' pool")
      (simp_all add: provider_unavailable_reason_def st' first_outage_other require_text.simps(1) del: first_outage.simps)
qed

theorem pools_are_isolated_witness:
  "provider_unavailable_reason None ''google'' (Some ''google:claude-gpt'') ''2026-07-28T12:00:00Z''
     [\<lparr>ps_key = ''google::google:gemini'', ps_until = PStr ''2026-07-28T13:00:00Z'', ps_reason = Some ''limit'',
       ps_category = Some ''quota'', ps_recorded = PStr ''2026-07-28T12:00:00Z''\<rparr>]
   = provider_unavailable_reason None ''google'' (Some ''google:claude-gpt'') ''2026-07-28T12:00:00Z'' []"
proof -
  have c: "canonical_str ''2026-07-28T13:00:00Z''" by code_simp
  have "mark_provider_unavailable ''2026-07-28T12:00:00Z'' ''google'' ''limit'' ''quota'' (PStr ''2026-07-28T13:00:00Z'')
      None (Some ''google:gemini'') [] = Inr [\<lparr>ps_key = ''google::google:gemini'', ps_until = PStr ''2026-07-28T13:00:00Z'',
       ps_reason = Some ''limit'', ps_category = Some ''quota'', ps_recorded = PStr ''2026-07-28T12:00:00Z''\<rparr>]"
    by (simp add: mark_provider_unavailable_def state_key_def require_ts_def strip_pools c)
  from pools_are_isolated [OF this, of "''google''" "Some ''google:claude-gpt''"] show ?thesis
    by (simp add: strip_pools)
qed

end
