(* ===== verification/Budget.thy ===== *)
theory Budget
  imports Prelude
begin

section \<open>Budget: how long a review may run, and how large its prompt may be\<close>

text \<open>
  Models \<open>budget.py\<close>: the runtime budgets of a record and of a held lock, and the size budget of a
  prompt. \<open>PROMPT_OVERHEAD_BYTES\<close>, a sum of the lengths of the prompt's fixed parts, and the limit an
  adapter declares are parameters.
\<close>

record defaults =
  d_timeout_sec :: int
  d_timeout_retries :: int
  d_degraded_retries :: int
  d_max_diff_bytes :: int

definition GRACE_SEC :: int where "GRACE_SEC = 60"
definition MAX_PASSES_UNDER_LOCK :: int where "MAX_PASSES_UNDER_LOCK = 3"

definition attempt_budget :: "defaults \<Rightarrow> int" where
  "attempt_budget d = 2 * d_timeout_sec d * (1 + d_timeout_retries d + d_degraded_retries d)"

text \<open>\<open>_calls(chain_width, batch_count)\<close>.\<close>

definition calls :: "int \<Rightarrow> int \<Rightarrow> int" where
  "calls chain_width batch_count = max 1 chain_width * (max 0 batch_count + 1)"

definition worst_runtime :: "defaults \<Rightarrow> int \<Rightarrow> int \<Rightarrow> int" where
  "worst_runtime d chain_width batch_count = calls chain_width batch_count * (attempt_budget d + GRACE_SEC)"

definition lock_stale_ceiling :: "defaults \<Rightarrow> int \<Rightarrow> int \<Rightarrow> int" where
  "lock_stale_ceiling d chain_width batch_count =
     calls chain_width batch_count * (MAX_PASSES_UNDER_LOCK * attempt_budget d + GRACE_SEC)"

text \<open>A reviewer of the configuration: the fields the chain and the budgets read.\<close>

record reviewer =
  rw_name :: string
  rw_provider :: string
  rw_model :: string
  rw_effort :: "string option"
  rw_fallbacks :: "string list"
  rw_quota_pool :: "string option"
  rw_max_diff_bytes :: "int option"

text \<open>\<open>_adapter_ceiling(r)\<close>: \<open>limit\<close> is what \<open>prompt_limit()\<close> of the provider's adapter returns,
  \<open>None\<close> when there is no adapter or the call raises.\<close>

definition adapter_ceiling :: "(string \<Rightarrow> pyval option) \<Rightarrow> reviewer option \<Rightarrow> int option" where
  "adapter_ceiling limit r =
     (case r of None \<Rightarrow> None
      | Some r \<Rightarrow> if rw_provider r = [] then None
          else (case limit (rw_provider r) of Some (PInt i) \<Rightarrow> Some i | _ \<Rightarrow> None))"

definition prompt_budget :: "(string \<Rightarrow> pyval option) \<Rightarrow> int \<Rightarrow> defaults \<Rightarrow> reviewer option \<Rightarrow> int" where
  "prompt_budget limit overhead d r =
     (let configured = (case r of None \<Rightarrow> d_max_diff_bytes d
            | Some r \<Rightarrow> (case rw_max_diff_bytes r of None \<Rightarrow> d_max_diff_bytes d | Some m \<Rightarrow> m)) in
      case adapter_ceiling limit r of None \<Rightarrow> configured
      | Some ceiling \<Rightarrow> max 1 (min configured (ceiling - overhead)))"

lemma calls_pos: "1 \<le> calls w b"
  unfolding calls_def by (smt (verit) mult_le_cancel_left1 max.bounded_iff order.refl)

lemma calls_mono: "w \<le> w' \<Longrightarrow> b \<le> b' \<Longrightarrow> calls w b \<le> calls w' b'"
  unfolding calls_def by (intro mult_mono) auto

text \<open>The lock outlives the record, and neither budget ever shrinks with more work: with
  retries and a timeout that are not negative, a held lock's ceiling is at least the budget of a
  record, which is at least the grace, and both grow with the chain's width and the batches.\<close>

theorem budgets_are_ordered:
  assumes "0 \<le> d_timeout_sec d" and "0 \<le> d_timeout_retries d" and "0 \<le> d_degraded_retries d"
    and "w \<le> w'" and "b \<le> b'"
  shows "GRACE_SEC \<le> worst_runtime d w b \<and> worst_runtime d w b \<le> lock_stale_ceiling d w b
    \<and> worst_runtime d w b \<le> worst_runtime d w' b' \<and> lock_stale_ceiling d w b \<le> lock_stale_ceiling d w' b'"
proof -
  have a: "0 \<le> attempt_budget d" using assms(1-3) by (simp add: attempt_budget_def)
  have "1 * GRACE_SEC \<le> worst_runtime d w b"
    unfolding worst_runtime_def using a calls_pos [of w b] by (intro mult_mono) (auto simp: GRACE_SEC_def)
  moreover have "worst_runtime d w b \<le> lock_stale_ceiling d w b"
    unfolding worst_runtime_def lock_stale_ceiling_def using a calls_pos [of w b]
    by (intro mult_left_mono) (auto simp: MAX_PASSES_UNDER_LOCK_def)
  moreover have "worst_runtime d w b \<le> worst_runtime d w' b'" "lock_stale_ceiling d w b \<le> lock_stale_ceiling d w' b'"
    unfolding worst_runtime_def lock_stale_ceiling_def using a calls_mono [OF assms(4,5)]
    by (auto intro!: mult_right_mono simp: GRACE_SEC_def MAX_PASSES_UNDER_LOCK_def)
  ultimately show ?thesis by simp
qed

definition sample_defaults :: defaults where
  "sample_defaults = \<lparr>d_timeout_sec = 600, d_timeout_retries = 1, d_degraded_retries = 1, d_max_diff_bytes = 400000\<rparr>"

theorem budgets_are_ordered_witness:
  "GRACE_SEC \<le> worst_runtime sample_defaults 2 0
    \<and> worst_runtime sample_defaults 2 0 \<le> lock_stale_ceiling sample_defaults 2 0
    \<and> worst_runtime sample_defaults 2 0 \<le> worst_runtime sample_defaults 3 4
    \<and> lock_stale_ceiling sample_defaults 2 0 \<le> lock_stale_ceiling sample_defaults 3 4"
  by (rule budgets_are_ordered) (simp_all add: sample_defaults_def)

text \<open>A prompt fits what its adapter can carry: with a declared ceiling the envelope is
  positive, and leaves room for the
  fixed parts whenever the ceiling has any.\<close>

theorem prompt_budget_fits:
  assumes "adapter_ceiling limit r = Some ceiling"
  shows "1 \<le> prompt_budget limit overhead d r
    \<and> (overhead < ceiling \<longrightarrow> prompt_budget limit overhead d r + overhead \<le> ceiling)"
  using assms by (auto simp: prompt_budget_def Let_def)

theorem prompt_budget_fits_witness:
  "prompt_budget (\<lambda>p. Some (PInt 120000)) 50000 sample_defaults
     (Some \<lparr>rw_name = ''a'', rw_provider = ''google'', rw_model = ''m'', rw_effort = None, rw_fallbacks = [],
       rw_quota_pool = None, rw_max_diff_bytes = None\<rparr>) + 50000 \<le> 120000"
  using prompt_budget_fits [of "\<lambda>p. Some (PInt 120000)" "Some \<lparr>rw_name = ''a'', rw_provider = ''google'',
       rw_model = ''m'', rw_effort = None, rw_fallbacks = [], rw_quota_pool = None, rw_max_diff_bytes = None\<rparr>" 120000 50000
       sample_defaults]
  by (simp add: adapter_ceiling_def)

end
