(* ===== verification/Chain.thy ===== *)
theory Chain
  imports Budget ProviderState
begin

section \<open>Chain: one reviewer and its fallbacks\<close>

text \<open>
  Models \<open>chain.run_chain\<close> and \<open>pipeline._chain_for\<close>: the entries of a chain are tried in order, each
  with its own retries, until one answers. What happens outside the program is observed: whether
  the binary is there, whether a slot was admitted, what the process did, and how the adapter
  classified and parsed its output. The cache of outages is the table of \<open>ProviderState\<close>. Rows carry
  what the later decisions read; durations, usage and provenance are left out.
\<close>

subsection \<open>Observations\<close>

datatype health_kind = Ok | Degraded | Unavailable

text \<open>A \<open>ClassifyResult\<close> and a \<open>ParseResult\<close>.\<close>

record health =
  he_kind :: health_kind
  he_category :: string
  he_detail :: string

record parsed =
  pa_ok :: bool
  pa_degraded :: bool
  pa_reason :: string
  pa_payload :: pyval

datatype build = Built | TooLarge string | BuildFault string

text \<open>How the process started: it ran; the review was cancelled (before or during the run); the binary
  was missing, with the adapter's verdict on that; it could not be executed; or another fault.\<close>

datatype launch = Launched | Cancel | Missing health string | Denied string | SpawnFault string

record run =
  ru_rc :: int
  ru_descendants :: string
  ru_timed_out :: bool
  ru_output :: bool        \<comment> \<open>\<open>first_output_sec is not None\<close>\<close>
  ru_health :: health
  ru_parsed :: parsed
  ru_until :: string       \<comment> \<open>\<open>_iso_at(time.time() + PROVIDER_UNAVAILABLE_TTL_SEC)\<close>\<close>

record attempt_obs =
  ao_build :: build
  ao_launch :: launch
  ao_run :: run

datatype fit = Fits | TooBig string | Invalid string
datatype slot = Held | SlotCancelled | SlotTimeout string

record entry_obs =
  eo_cancelled :: bool
  eo_now :: string
  eo_absent :: "health option"   \<comment> \<open>the binary is absent, with the adapter's verdict on that\<close>
  eo_binary :: string
  eo_spend :: "string option"    \<comment> \<open>the daily limit is reached, with the detail\<close>
  eo_fit :: fit
  eo_slot :: slot
  eo_attempt :: "nat \<Rightarrow> attempt_obs"

subsection \<open>Rows and state\<close>

record attempt_row =
  at_n :: nat
  at_entry :: reviewer
  at_rc :: "int option"
  at_timed_out :: "bool option"
  at_output :: bool
  at_health :: "health option"
  at_skipped :: "string option"
  at_code :: "string option"

record chain_state =
  cs_rows :: "attempt_row list"
  cs_exhausted :: "string list"
  cs_table :: provider_table

text \<open>\<open>_attempt(n, r, ...)\<close> with a fresh ordinal: \<open>n\<close> is incremented once for each row.\<close>

definition add_row ::
    "reviewer \<Rightarrow> int option \<Rightarrow> bool option \<Rightarrow> bool \<Rightarrow> health option \<Rightarrow> string option \<Rightarrow> string option \<Rightarrow> chain_state \<Rightarrow> chain_state" where
  "add_row e rc timed_out output h skipped reason_code st = st\<lparr>cs_rows := cs_rows st @
     [\<lparr>at_n = Suc (length (cs_rows st)), at_entry = e, at_rc = rc, at_timed_out = timed_out, at_output = output,
       at_health = h, at_skipped = skipped, at_code = reason_code\<rparr>]\<rparr>"

definition skip_row :: "reviewer \<Rightarrow> health option \<Rightarrow> string \<Rightarrow> string option \<Rightarrow> chain_state \<Rightarrow> chain_state" where
  "skip_row e h why reason_code = add_row e None None False h (Some why) reason_code"

definition blame :: "reviewer \<Rightarrow> string \<Rightarrow> chain_state \<Rightarrow> chain_state" where
  "blame e detail st = st\<lparr>cs_exhausted := cs_exhausted st @ [rw_name e @ ''/'' @ rw_provider e @ '': '' @ detail]\<rparr>"

datatype flow =
    Advance
  | Fail string
  | Answer parsed
  | Cancelled
  | Crash string

text \<open>\<open>_cached_unavailable\<close>, which swallows the store's errors.\<close>

definition cached_unavailable :: "string option \<Rightarrow> string \<Rightarrow> string option \<Rightarrow> string \<Rightarrow> provider_table \<Rightarrow> string option" where
  "cached_unavailable env provider pool now table =
     (case provider_unavailable_reason env provider (if pool = Some provider then None else pool) now table of
        Inl _ \<Rightarrow> None | Inr r \<Rightarrow> r)"

definition remember_unavailable :: "string \<Rightarrow> health \<Rightarrow> string \<Rightarrow> string option \<Rightarrow> string \<Rightarrow> provider_table \<Rightarrow> provider_table" where
  "remember_unavailable provider h until pool iso_now table =
     (if he_category h \<noteq> ''quota'' then table
      else
        let why = (if he_detail h = [] then ''provider reported a quota outage'' else he_detail h) in
        case mark_provider_unavailable iso_now provider why ''quota'' (PStr until) None
               (if pool = Some provider then None else pool) table of
          Inl _ \<Rightarrow> table | Inr table' \<Rightarrow> table')"

definition too_large :: "string \<Rightarrow> health" where
  "too_large e = \<lparr>he_kind = Unavailable, he_category = ''prompt_too_large'', he_detail = e\<rparr>"

definition spawn_failure :: "string \<Rightarrow> health" where
  "spawn_failure detail = \<lparr>he_kind = Unavailable, he_category = ''invocation'',
     he_detail = take 400 (''spawn failed before process start: '' @ detail)\<rparr>"

subsection \<open>One attempt\<close>

text \<open>What an attempt leads to: another attempt, of a kind that spends a retry, or the entry's end.\<close>

datatype after = RetryTimeout | RetryDegraded | Over flow

definition not_invoked :: "reviewer \<Rightarrow> string \<Rightarrow> flow" where
  "not_invoked e error = Fail (''reviewer '' @ repr_str (rw_name e) @ '' could not be invoked: '' @ error)"

definition judge_run ::
    "defaults \<Rightarrow> bool \<Rightarrow> reviewer \<Rightarrow> string option \<Rightarrow> entry_obs \<Rightarrow> nat \<Rightarrow> nat \<Rightarrow> nat \<Rightarrow> run \<Rightarrow> chain_state \<Rightarrow> after \<times> chain_state" where
  "judge_run d others e pool eo k timeouts degradeds r st =
     (if ru_descendants r \<noteq> ''none'' then
        (Over (Fail (''reviewer '' @ repr_str (rw_name e) @ '' left descendant state '' @ ru_descendants r @ ''; attempt discarded'')),
         add_row e (Some (ru_rc r)) (Some False) (ru_output r)
           (Some \<lparr>he_kind = Degraded, he_category = [], he_detail = ''wrapper descendant state '' @ ru_descendants r @ ''; attempt discarded''\<rparr>)
           None None st)
      else if ru_timed_out r then
        let st = add_row e (Some (ru_rc r)) (Some True) (ru_output r) None None None st;
            over = Over (Fail (''timed out after '' @ show_nat (Suc k) @ '' attempts'')) in
        if \<not> ru_output r then
          (if others then (Over Advance, blame e ''timed out with no output'' st) else (over, st))
        else if int timeouts < d_timeout_retries d then (RetryTimeout, st)
        else (over, st)
      else
        let h = ru_health r;
            st = add_row e (Some (ru_rc r)) (Some False) (ru_output r) (Some h) None None st in
        if he_kind h = Unavailable then
          (Over Advance, blame e (he_detail h)
             (st\<lparr>cs_table := remember_unavailable (rw_provider e) h (ru_until r) pool (eo_now eo) (cs_table st)\<rparr>))
        else
          let p = (if he_kind h = Degraded \<and> \<not> pa_degraded (ru_parsed r)
                   then (ru_parsed r)\<lparr>pa_degraded := True, pa_reason := he_detail h\<rparr> else ru_parsed r) in
          if pa_degraded p \<and> int degradeds < d_degraded_retries d then (RetryDegraded, st)
          else (Over (Answer p), st))"

definition attempt ::
    "defaults \<Rightarrow> bool \<Rightarrow> reviewer \<Rightarrow> string option \<Rightarrow> entry_obs \<Rightarrow> nat \<Rightarrow> nat \<Rightarrow> nat \<Rightarrow> chain_state \<Rightarrow> after \<times> chain_state" where
  "attempt d others e pool eo k timeouts degradeds st =
     (let o' = eo_attempt eo k in
      case ao_build o' of
        TooLarge error \<Rightarrow>
          (Over Advance, blame e error (skip_row e (Some (too_large error))
            (''prompt too large for this provider: '' @ error) None st))
      | BuildFault error \<Rightarrow>
          (Over (not_invoked e error), skip_row e None (''could not build the invocation: '' @ error) (Some ''invocation_invalid'') st)
      | Built \<Rightarrow>
          (case ao_launch o' of
             Cancel \<Rightarrow> (Over Cancelled, st)
           | Missing h cmd \<Rightarrow>
               (Over Advance, blame e (he_detail h) (skip_row e (Some h) (''binary not found: '' @ cmd) None st))
           | Denied detail \<Rightarrow>
               (let h = spawn_failure detail in
                (Over Advance, blame e (he_detail h) (skip_row e (Some h) (he_detail h) None st)))
           | SpawnFault error \<Rightarrow> (Over (Crash error), st)
           | Launched \<Rightarrow> judge_run d others e pool eo k timeouts degradeds (ao_run o') st))"

lemma retry_spends:
  "attempt d others e pool eo k t g st = (RetryTimeout, st') \<Longrightarrow> int t < d_timeout_retries d"
  "attempt d others e pool eo k t g st = (RetryDegraded, st') \<Longrightarrow> int g < d_degraded_retries d"
  by (auto simp: attempt_def judge_run_def Let_def split: build.splits launch.splits if_splits)

subsection \<open>One entry\<close>

text \<open>The loop \<open>while True\<close>: every round but the last spends one of the two retry budgets.\<close>

function attempts ::
    "defaults \<Rightarrow> bool \<Rightarrow> reviewer \<Rightarrow> string option \<Rightarrow> entry_obs \<Rightarrow> nat \<Rightarrow> nat \<Rightarrow> nat \<Rightarrow> chain_state \<Rightarrow> flow \<times> chain_state" where
  "attempts d others e pool eo k timeouts degradeds st =
     (case attempt d others e pool eo k timeouts degradeds st of
        (Over f, st) \<Rightarrow> (f, st)
      | (RetryTimeout, st) \<Rightarrow> attempts d others e pool eo (Suc k) (Suc timeouts) degradeds st
      | (RetryDegraded, st) \<Rightarrow> attempts d others e pool eo (Suc k) timeouts (Suc degradeds) st)"
  by pat_completeness auto

termination
proof (relation "measure (\<lambda>(d, _, _, _, _, _, t, g, _). nat (d_timeout_retries d - int t) + nat (d_degraded_retries d - int g))")
qed (auto dest: retry_spends [OF sym])

declare attempts.simps [simp del]

text \<open>The body of the loop over the entries: what is checked before a slot is asked for, then the
  attempts. \<open>others\<close> says that the chain has entries left.\<close>

definition run_entry ::
    "defaults \<Rightarrow> string option \<Rightarrow> bool \<Rightarrow> reviewer \<Rightarrow> entry_obs \<Rightarrow> chain_state \<Rightarrow> flow \<times> chain_state" where
  "run_entry d env others e eo st =
     (if eo_cancelled eo then (Cancelled, st)
      else case quota_pool_for (rw_quota_pool e) (rw_provider e) (rw_model e) of
        None \<Rightarrow> (Crash ''reviewer quota_pool must be a non-empty string'', st)
      | Some pool \<Rightarrow>
          (case cached_unavailable env (rw_provider e) (Some pool) (eo_now eo) (cs_table st) of
             Some why \<Rightarrow>
               (Advance, blame e why (skip_row e (Some \<lparr>he_kind = Unavailable, he_category = ''quota'', he_detail = why\<rparr>)
                  (''provider marked unavailable: '' @ why) None st))
           | None \<Rightarrow>
               (case eo_absent eo of
                  Some h \<Rightarrow>
                    (Advance, blame e (he_detail h) (skip_row e (Some h) (''binary not found: '' @ eo_binary eo) None st))
                | None \<Rightarrow>
                    (case eo_spend eo of
                       Some why \<Rightarrow>
                         (Advance, blame e why (skip_row e (Some \<lparr>he_kind = Unavailable, he_category = ''quota'', he_detail = why\<rparr>) why None st))
                     | None \<Rightarrow>
                         (case eo_fit eo of
                            TooBig error \<Rightarrow>
                              (Advance, blame e error (skip_row e (Some (too_large error))
                                 (''prompt too large for this provider: '' @ error) None st))
                          | Invalid error \<Rightarrow>
                              (not_invoked e error, skip_row e None (''could not build the invocation: '' @ error)
                                 (Some ''invocation_invalid'') st)
                          | Fits \<Rightarrow>
                              (case eo_slot eo of
                                 SlotCancelled \<Rightarrow> (Cancelled, st)
                               | SlotTimeout detail \<Rightarrow>
                                   (Advance, blame e ''provider capacity wait'' (skip_row e None (''provider capacity: '' @ detail)
                                      (Some ''provider_wait_exhausted'') st))
                               | Held \<Rightarrow> attempts d others e (Some pool) eo 0 0 0 st))))))"

subsection \<open>The chain\<close>

record chain_outcome =
  oc_parsed :: "parsed option"
  oc_attempts :: "attempt_row list"
  oc_failure :: string
  oc_accepted :: "reviewer option"

text \<open>\<open>_Outcome\<close>, \<open>ReviewCancelled\<close> or another exception.\<close>

datatype chain_result = Outcome chain_outcome | ReviewCancelled | ChainFault string

definition failed :: "string \<Rightarrow> chain_state \<Rightarrow> chain_result" where
  "failed why st = Outcome \<lparr>oc_parsed = None, oc_attempts = cs_rows st, oc_failure = why, oc_accepted = None\<rparr>"

definition exhausted_text :: "chain_state \<Rightarrow> string" where
  "exhausted_text st = ''all providers unavailable: '' @
     (if join ''; '' (cs_exhausted st) = [] then ''no chain entry could be attempted'' else join ''; '' (cs_exhausted st))"

fun chain_loop ::
    "defaults \<Rightarrow> string option \<Rightarrow> (nat \<Rightarrow> entry_obs) \<Rightarrow> nat \<Rightarrow> reviewer list \<Rightarrow> chain_state \<Rightarrow> chain_result \<times> chain_state" where
  "chain_loop d env obs i [] st = (failed (exhausted_text st) st, st)"
| "chain_loop d env obs i (e # es) st =
     (case run_entry d env (es \<noteq> []) e (obs i) st of
        (Advance, st) \<Rightarrow> chain_loop d env obs (Suc i) es st
      | (Fail why, st) \<Rightarrow> (failed why st, st)
      | (Answer p, st) \<Rightarrow> (Outcome \<lparr>oc_parsed = Some p, oc_attempts = cs_rows st, oc_failure = [],
            oc_accepted = (if pa_ok p then Some e else None)\<rparr>, st)
      | (Cancelled, st) \<Rightarrow> (ReviewCancelled, st)
      | (Crash error, st) \<Rightarrow> (ChainFault error, st))"

text \<open>\<open>_chain_for\<close>: \<open>by_name\<close> keeps the last reviewer of a name; a fallback that is missing is refused.\<close>

definition by_name :: "reviewer list \<Rightarrow> string \<Rightarrow> reviewer option" where
  "by_name rs name = map_of (map (\<lambda>r. (rw_name r, r)) (rev rs)) name"

fun resolve_all :: "reviewer list \<Rightarrow> string list \<Rightarrow> reviewer list option" where
  "resolve_all rs [] = Some []"
| "resolve_all rs (n # ns) = (case by_name rs n of None \<Rightarrow> None
     | Some r \<Rightarrow> map_option (\<lambda>es. r # es) (resolve_all rs ns))"

definition chain_for :: "reviewer list \<Rightarrow> reviewer \<Rightarrow> reviewer list option" where
  "chain_for rs head = map_option (\<lambda>es. head # es) (resolve_all rs (rw_fallbacks head))"

definition run_chain ::
    "reviewer list \<Rightarrow> reviewer \<Rightarrow> defaults \<Rightarrow> string option \<Rightarrow> (nat \<Rightarrow> entry_obs) \<Rightarrow> provider_table
      \<Rightarrow> chain_result \<times> provider_table" where
  "run_chain rs head d env obs table =
     (case chain_for rs head of
        None \<Rightarrow> (ChainFault ''fallback does not exist'', table)
      | Some chain \<Rightarrow>
          (case chain_loop d env obs 0 chain \<lparr>cs_rows = [], cs_exhausted = [], cs_table = table\<rparr> of
             (r, st) \<Rightarrow> (r, cs_table st)))"

subsection \<open>What an attempt adds\<close>

lemma add_row_simps [simp]:
  "cs_rows (add_row e rc t out h s c st) = cs_rows st @ [\<lparr>at_n = Suc (length (cs_rows st)), at_entry = e, at_rc = rc,
     at_timed_out = t, at_output = out, at_health = h, at_skipped = s, at_code = c\<rparr>]"
  "cs_table (add_row e rc t out h s c st) = cs_table st"
  "cs_rows (blame e why st) = cs_rows st" "cs_table (blame e why st) = cs_table st"
  "cs_rows (skip_row e h' why c st) = cs_rows st @ [\<lparr>at_n = Suc (length (cs_rows st)), at_entry = e, at_rc = None,
     at_timed_out = None, at_output = False, at_health = h', at_skipped = Some why, at_code = c\<rparr>]"
  "cs_table (skip_row e h' why c st) = cs_table st"
  by (simp_all add: add_row_def blame_def skip_row_def)

text \<open>A row after which the chain may go on to another provider: nothing ran, the provider could not
  serve, or it hung without a word.\<close>

definition gave_way :: "attempt_row \<Rightarrow> bool" where
  "gave_way a \<longleftrightarrow> at_skipped a \<noteq> None \<or> (\<exists>h. at_health a = Some h \<and> he_kind h = Unavailable)
     \<or> at_timed_out a = Some True \<and> \<not> at_output a"

text \<open>A row of a completed run that was not refused.\<close>

definition served :: "attempt_row \<Rightarrow> bool" where
  "served a \<longleftrightarrow> at_skipped a = None \<and> at_timed_out a = Some False \<and> (\<exists>h. at_health a = Some h \<and> he_kind h \<noteq> Unavailable)"

definition quota_row :: "attempt_row \<Rightarrow> bool" where
  "quota_row a \<longleftrightarrow> (\<exists>h. at_health a = Some h \<and> he_kind h = Unavailable \<and> he_category h = ''quota'')"

text \<open>What one attempt of an entry guarantees: at most one new row, of this entry and with the next
  ordinal; what that row says when the entry ends; and what may change the cache.\<close>

definition good_row :: "reviewer \<Rightarrow> chain_state \<Rightarrow> attempt_row \<Rightarrow> bool" where
  "good_row e st a \<longleftrightarrow> at_entry a = e \<and> at_n a = Suc (length (cs_rows st))"

definition ends_well :: "flow \<Rightarrow> attempt_row \<Rightarrow> bool" where
  "ends_well f a \<longleftrightarrow> (f = Advance \<longrightarrow> gave_way a) \<and> (\<forall>p. f = Answer p \<longrightarrow> served a
     \<and> (\<forall>h. at_health a = Some h \<and> he_kind h = Degraded \<longrightarrow> pa_degraded p))"

definition one_row :: "reviewer \<Rightarrow> chain_state \<Rightarrow> after \<Rightarrow> chain_state \<Rightarrow> bool" where
  "one_row e st r st' \<longleftrightarrow> (\<exists>a. cs_rows st' = cs_rows st @ [a] \<and> good_row e st a
     \<and> (\<forall>f. r = Over f \<longrightarrow> ends_well f a \<and> f \<noteq> Cancelled \<and> (\<forall>x. f \<noteq> Crash x) \<and> f \<noteq> Fail [])
     \<and> (cs_table st' = cs_table st \<or> quota_row a))"

lemma one_row_skip:
  assumes "cs_rows st' = cs_rows (skip_row e h why c st)" and "cs_table st' = cs_table st"
    and "f = Advance \<or> (\<exists>x. f = Fail x \<and> x \<noteq> [])"
  shows "one_row e st (Over f) st'"
  using assms by (auto simp: one_row_def good_row_def ends_well_def gave_way_def)

lemma not_invoked_fail: "\<exists>x. not_invoked e error = Fail x \<and> x \<noteq> []"
  by (simp add: not_invoked_def)

lemma remember_quota:
  "remember_unavailable p h until pool now table = table \<or> he_category h = ''quota''"
  by (auto simp: remember_unavailable_def)

lemma judge_run_row: "one_row e st (fst (judge_run d others e pool eo k t g r st)) (snd (judge_run d others e pool eo k t g r st))"
proof (cases "ru_descendants r \<noteq> ''none''")
  case True
  then show ?thesis by (auto simp: judge_run_def one_row_def good_row_def ends_well_def)
next
  case False
  show ?thesis
  proof (cases "ru_timed_out r")
    case True
    then show ?thesis using False
      by (auto simp: judge_run_def Let_def one_row_def good_row_def ends_well_def gave_way_def)
  next
    case run: False
    show ?thesis
    proof (cases "he_kind (ru_health r) = Unavailable")
      case True
      then show ?thesis
        using False run remember_quota [of "rw_provider e" "ru_health r" "ru_until r" pool "eo_now eo" "cs_table st"]
        by (auto simp: judge_run_def Let_def one_row_def good_row_def ends_well_def gave_way_def quota_row_def)
    next
      case False
      then show ?thesis using \<open>\<not> ru_descendants r \<noteq> ''none''\<close> run
        by (auto simp: judge_run_def Let_def one_row_def good_row_def ends_well_def served_def)
    qed
  qed
qed

lemma attempt_row:
  assumes "attempt d others e pool eo k t g st = (r, st')"
  shows "st' = st \<and> (r = Over Cancelled \<or> (\<exists>x. r = Over (Crash x))) \<or> one_row e st r st'"
proof (cases "ao_build (eo_attempt eo k)")
  case Built
  show ?thesis
  proof (cases "ao_launch (eo_attempt eo k)")
    case Launched
    then show ?thesis using assms Built judge_run_row [of e st d others pool eo k t g "ao_run (eo_attempt eo k)"]
      by (simp add: attempt_def Let_def)
  next
    case Cancel
    then show ?thesis using assms Built by (simp add: attempt_def Let_def)
  next
    case (Missing h cmd)
    then show ?thesis using assms Built by (auto simp: attempt_def Let_def intro!: one_row_skip)
  next
    case (Denied x)
    then show ?thesis using assms Built by (auto simp: attempt_def Let_def intro!: one_row_skip)
  next
    case (SpawnFault x)
    then show ?thesis using assms Built by (auto simp: attempt_def Let_def)
  qed
next
  case (TooLarge x)
  then show ?thesis using assms by (auto simp: attempt_def Let_def intro!: one_row_skip)
next
  case (BuildFault x)
  then show ?thesis using assms not_invoked_fail [of e x] by (auto simp: attempt_def Let_def intro!: one_row_skip)
qed

subsection \<open>What an entry and a chain add\<close>

definition entry_ok :: "reviewer \<Rightarrow> nat \<Rightarrow> chain_state \<Rightarrow> flow \<Rightarrow> chain_state \<Rightarrow> attempt_row list \<Rightarrow> bool" where
  "entry_ok e bound st f st' rows \<longleftrightarrow> cs_rows st' = cs_rows st @ rows \<and> length rows \<le> bound
     \<and> (\<forall>a \<in> set rows. at_entry a = e)
     \<and> map at_n rows = [Suc (length (cs_rows st))..<Suc (length (cs_rows st) + length rows)]
     \<and> (f \<noteq> Cancelled \<and> (\<forall>x. f \<noteq> Crash x) \<longrightarrow> rows \<noteq> [] \<and> ends_well f (last rows) \<and> f \<noteq> Fail [])
     \<and> (cs_table st' = cs_table st \<or> (\<exists>a \<in> set rows. quota_row a))"

lemma entry_ok_stop: "f = Cancelled \<or> (\<exists>x. f = Crash x) \<Longrightarrow> entry_ok e b st f st []"
  by (auto simp: entry_ok_def)

lemma entry_ok_one:
  assumes "one_row e st (Over f) st'" and "1 \<le> b"
  shows "\<exists>rows. entry_ok e b st f st' rows"
proof -
  from assms(1) obtain a where "cs_rows st' = cs_rows st @ [a]" "good_row e st a" "ends_well f a" "f \<noteq> Fail []"
    "cs_table st' = cs_table st \<or> quota_row a" by (auto simp: one_row_def)
  then have "entry_ok e b st f st' [a]" using assms(2) by (auto simp: entry_ok_def good_row_def)
  then show ?thesis by blast
qed

lemma upt_join: "[Suc n..<Suc (Suc n)] @ [Suc (Suc n)..<Suc (Suc n + m)] = [Suc n..<Suc (n + Suc m)]"
  using upt_add_eq_append [of "Suc n" "Suc (Suc n)" m] by simp

lemma entry_ok_again:
  assumes "one_row e st r st1" and "entry_ok e b st1 f st' rows"
  shows "\<exists>rows. entry_ok e (Suc b) st f st' rows"
proof -
  from assms(1) obtain a where a: "cs_rows st1 = cs_rows st @ [a]" "good_row e st a"
    "cs_table st1 = cs_table st \<or> quota_row a" by (auto simp: one_row_def)
  have "map at_n (a # rows) = [Suc (length (cs_rows st))..<Suc (length (cs_rows st) + length (a # rows))]"
    using assms(2) a upt_join [of "length (cs_rows st)" "length rows"] by (simp add: entry_ok_def good_row_def)
  then have "entry_ok e (Suc b) st f st' (a # rows)"
    using assms(2) a unfolding entry_ok_def by (auto simp: good_row_def)
  then show ?thesis by blast
qed

lemma attempts_ok:
  "\<exists>rows. entry_ok e (Suc (nat (d_timeout_retries d - int t) + nat (d_degraded_retries d - int g))) st
     (fst (attempts d others e pool eo k t g st)) (snd (attempts d others e pool eo k t g st)) rows"
proof (induction d others e pool eo k t g st rule: attempts.induct)
  case (1 d others e pool eo k t g st)
  obtain r st1 where a: "attempt d others e pool eo k t g st = (r, st1)" by fastforce
  note row = attempt_row [OF a]
  show ?case
  proof (cases r)
    case (Over f)
    then have eq: "attempts d others e pool eo k t g st = (f, st1)" by (simp add: attempts.simps a)
    show ?thesis using row
    proof
      assume "st1 = st \<and> (r = Over Cancelled \<or> (\<exists>x. r = Over (Crash x)))"
      then show ?thesis using Over entry_ok_stop [of f] by (auto simp: eq)
    next
      assume "one_row e st r st1"
      then show ?thesis using Over entry_ok_one by (simp add: eq)
    qed
  next
    case RetryTimeout
    then have one: "one_row e st r st1" using row by simp
    have lt: "int t < d_timeout_retries d" using retry_spends(1) a RetryTimeout by blast
    have eq: "attempts d others e pool eo k t g st = attempts d others e pool eo (Suc k) (Suc t) g st1"
      using a RetryTimeout by (subst attempts.simps) simp
    obtain rows where "entry_ok e (Suc (nat (d_timeout_retries d - int (Suc t)) + nat (d_degraded_retries d - int g))) st1
        (fst (attempts d others e pool eo (Suc k) (Suc t) g st1)) (snd (attempts d others e pool eo (Suc k) (Suc t) g st1)) rows"
      using 1(1) [OF a [symmetric] RetryTimeout] by blast
    moreover have "Suc (Suc (nat (d_timeout_retries d - int (Suc t)) + nat (d_degraded_retries d - int g)))
        = Suc (nat (d_timeout_retries d - int t) + nat (d_degraded_retries d - int g))" using lt by linarith
    ultimately show ?thesis using entry_ok_again [OF one] unfolding eq by metis
  next
    case RetryDegraded
    then have one: "one_row e st r st1" using row by simp
    have lt: "int g < d_degraded_retries d" using retry_spends(2) a RetryDegraded by blast
    have eq: "attempts d others e pool eo k t g st = attempts d others e pool eo (Suc k) t (Suc g) st1"
      using a RetryDegraded by (subst attempts.simps) simp
    obtain rows where "entry_ok e (Suc (nat (d_timeout_retries d - int t) + nat (d_degraded_retries d - int (Suc g)))) st1
        (fst (attempts d others e pool eo (Suc k) t (Suc g) st1)) (snd (attempts d others e pool eo (Suc k) t (Suc g) st1)) rows"
      using 1(2) [OF a [symmetric] RetryDegraded] by blast
    moreover have "Suc (Suc (nat (d_timeout_retries d - int t) + nat (d_degraded_retries d - int (Suc g))))
        = Suc (nat (d_timeout_retries d - int t) + nat (d_degraded_retries d - int g))" using lt by linarith
    ultimately show ?thesis using entry_ok_again [OF one] unfolding eq by metis
  qed
qed

definition entry_bound :: "defaults \<Rightarrow> nat" where
  "entry_bound d = Suc (nat (d_timeout_retries d) + nat (d_degraded_retries d))"

lemma run_entry_ok:
  assumes "run_entry d env others e eo st = (f, st')"
  shows "\<exists>rows. entry_ok e (entry_bound d) st f st' rows"
proof -
  have skip: "\<exists>rows. entry_ok e (entry_bound d) st f (blame e x (skip_row e h why c st)) rows"
    if "f = Advance" for x h why c
    using that by (intro entry_ok_one one_row_skip) (simp_all add: entry_bound_def)
  have stop: "\<exists>rows. entry_ok e (entry_bound d) st f st rows" if "f = Cancelled \<or> (\<exists>x. f = Crash x)"
    using entry_ok_stop [OF that] by blast
  have fail: "\<exists>rows. entry_ok e (entry_bound d) st f (skip_row e h why c st) rows"
    if "f = not_invoked e x" for x h why c
    using that not_invoked_fail [of e x] by (intro entry_ok_one one_row_skip) (auto simp: entry_bound_def)
  show ?thesis
  proof (cases "eo_slot eo")
    case Held
    then show ?thesis using assms skip stop fail attempts_ok [of e d 0 0 st others _ eo 0]
      by (auto simp: run_entry_def entry_bound_def split: if_splits option.splits fit.splits)
        (metis fst_conv snd_conv)
  next
    case SlotCancelled
    then show ?thesis using assms skip stop fail
      by (auto simp: run_entry_def split: if_splits option.splits fit.splits)
  next
    case (SlotTimeout x)
    then show ?thesis using assms skip stop fail
      by (auto simp: run_entry_def split: if_splits option.splits fit.splits)
  qed
qed

text \<open>From one row to the next, either the entry is the same or the earlier one gave way.\<close>

definition handed_over :: "attempt_row list \<Rightarrow> bool" where
  "handed_over rows \<longleftrightarrow> successively (\<lambda>a b. at_entry a = at_entry b \<or> gave_way a) rows"

lemma handed_over_same:
  assumes "\<forall>a \<in> set rows. at_entry a = e"
  shows "handed_over rows"
proof -
  have "successively (\<lambda>a b. at_entry a = at_entry b) rows" using assms
    by (induction rows rule: induct_list012) auto
  then show ?thesis unfolding handed_over_def by (rule successively_mono) simp
qed

lemma handed_over_append:
  assumes "handed_over xs" and "handed_over ys" and "xs \<noteq> [] \<Longrightarrow> gave_way (last xs)"
  shows "handed_over (xs @ ys)"
  using assms by (auto simp: handed_over_def successively_append_iff)

definition outcome_ok :: "reviewer list \<Rightarrow> attempt_row list \<Rightarrow> chain_result \<Rightarrow> bool" where
  "outcome_ok es rows res \<longleftrightarrow> (\<forall>oc. res = Outcome oc \<longrightarrow>
     (oc_parsed oc = None \<longrightarrow> oc_accepted oc = None \<and> oc_failure oc \<noteq> [])
     \<and> (\<forall>p. oc_parsed oc = Some p \<longrightarrow> oc_failure oc = [] \<and> rows \<noteq> [] \<and> served (last rows)
          \<and> at_entry (last rows) \<in> set es
          \<and> oc_accepted oc = (if pa_ok p then Some (at_entry (last rows)) else None)
          \<and> (\<forall>h. at_health (last rows) = Some h \<and> he_kind h = Degraded \<longrightarrow> pa_degraded p)))"

lemma outcome_ok_failed: "why \<noteq> [] \<Longrightarrow> outcome_ok es rows (failed why st)"
  by (simp add: outcome_ok_def failed_def)

definition chain_ok :: "defaults \<Rightarrow> reviewer list \<Rightarrow> chain_state \<Rightarrow> chain_result \<Rightarrow> chain_state \<Rightarrow> attempt_row list \<Rightarrow> bool" where
  "chain_ok d es st res st' rows \<longleftrightarrow> cs_rows st' = cs_rows st @ rows
     \<and> length rows \<le> length es * entry_bound d
     \<and> map at_n rows = [Suc (length (cs_rows st))..<Suc (length (cs_rows st) + length rows)]
     \<and> handed_over rows \<and> outcome_ok es rows res
     \<and> (\<forall>oc. res = Outcome oc \<longrightarrow> oc_attempts oc = cs_rows st')
     \<and> (cs_table st' = cs_table st \<or> (\<exists>a \<in> set rows. quota_row a))"

lemma exhausted_text_nonempty: "exhausted_text st \<noteq> []"
  by (simp add: exhausted_text_def)

lemma upt_append: "[Suc n..<Suc (n + a)] @ [Suc (n + a)..<Suc (n + a + b)] = [Suc n..<Suc (n + (a + b))]"
  using upt_add_eq_append [of "Suc n" "Suc (n + a)" b] by (simp add: add.assoc)

lemma chain_loop_ok:
  "\<exists>rows. chain_ok d es st (fst (chain_loop d env obs i es st)) (snd (chain_loop d env obs i es st)) rows"
proof (induction es arbitrary: i st)
  case Nil
  have "chain_ok d [] st (failed (exhausted_text st) st) st []"
    using outcome_ok_failed [OF exhausted_text_nonempty]
    by (simp add: chain_ok_def handed_over_def failed_def)
  then show ?case by auto
next
  case (Cons e es)
  obtain f st1 where r: "run_entry d env (es \<noteq> []) e (obs i) st = (f, st1)" by fastforce
  from run_entry_ok [OF r] obtain rows where rows: "entry_ok e (entry_bound d) st f st1 rows" by blast
  have stop: "chain_ok d (e # es) st res st1 rows"
    if "outcome_ok (e # es) rows res" "\<And>oc. res = Outcome oc \<Longrightarrow> oc_attempts oc = cs_rows st1" for res
    using rows that handed_over_same [of rows e]
    by (auto simp: chain_ok_def entry_ok_def)
  show ?case
  proof (cases f)
    case Advance
    then have last: "rows \<noteq> []" "gave_way (last rows)" using rows by (simp_all add: entry_ok_def ends_well_def)
    from Cons.IH [of st1 "Suc i"] obtain rows' where
      ih: "chain_ok d es st1 (fst (chain_loop d env obs (Suc i) es st1)) (snd (chain_loop d env obs (Suc i) es st1)) rows'"
      by blast
    have n: "map at_n (rows @ rows') = [Suc (length (cs_rows st))..<Suc (length (cs_rows st) + length (rows @ rows'))]"
      using rows ih upt_append [of "length (cs_rows st)" "length rows" "length rows'"]
      by (simp add: entry_ok_def chain_ok_def)
    have h: "handed_over (rows @ rows')"
      using rows ih last handed_over_same [of rows e] by (intro handed_over_append) (simp_all add: entry_ok_def chain_ok_def)
    have o': "outcome_ok (e # es) (rows @ rows') (fst (chain_loop d env obs (Suc i) es st1))"
      using ih by (auto simp: chain_ok_def outcome_ok_def)
    have "chain_ok d (e # es) st (fst (chain_loop d env obs (Suc i) es st1)) (snd (chain_loop d env obs (Suc i) es st1)) (rows @ rows')"
      using rows ih n h o' by (auto simp: chain_ok_def entry_ok_def)
    then show ?thesis using r Advance by auto
  next
    case (Fail why)
    then have "why \<noteq> []" using rows by (simp add: entry_ok_def)
    then have "chain_ok d (e # es) st (failed why st1) st1 rows"
      by (intro stop outcome_ok_failed) (auto simp: failed_def)
    then show ?thesis using r Fail by auto
  next
    case (Answer p)
    let ?oc = "\<lparr>oc_parsed = Some p, oc_attempts = cs_rows st1, oc_failure = [], oc_accepted = (if pa_ok p then Some e else None)\<rparr>"
    have "rows \<noteq> []" "served (last rows)" "\<forall>h. at_health (last rows) = Some h \<and> he_kind h = Degraded \<longrightarrow> pa_degraded p"
      using rows Answer by (simp_all add: entry_ok_def ends_well_def)
    moreover from this(1) have "at_entry (last rows) = e" using rows by (simp add: entry_ok_def)
    ultimately have "chain_ok d (e # es) st (Outcome ?oc) st1 rows" by (intro stop) (auto simp: outcome_ok_def)
    then show ?thesis using r Answer by auto
  next
    case Cancelled
    have "chain_ok d (e # es) st ReviewCancelled st1 rows" by (intro stop) (simp_all add: outcome_ok_def)
    then show ?thesis using r Cancelled by auto
  next
    case (Crash x)
    have "chain_ok d (e # es) st (ChainFault x) st1 rows" by (intro stop) (simp_all add: outcome_ok_def)
    then show ?thesis using r Crash by auto
  qed
qed

lemma run_chain_ok:
  assumes "run_chain rs head d env obs table = (Outcome oc, table')"
  obtains es where "chain_for rs head = Some es"
    "length (oc_attempts oc) \<le> length es * entry_bound d"
    "map at_n (oc_attempts oc) = [1..<Suc (length (oc_attempts oc))]"
    "handed_over (oc_attempts oc)" "outcome_ok es (oc_attempts oc) (Outcome oc)"
    "table' = table \<or> (\<exists>a \<in> set (oc_attempts oc). quota_row a)"
proof (cases "chain_for rs head")
  case None
  then show thesis using assms by (simp add: run_chain_def)
next
  case (Some es)
  let ?st = "\<lparr>cs_rows = [], cs_exhausted = [], cs_table = table\<rparr>"
  obtain st' where l: "chain_loop d env obs 0 es ?st = (Outcome oc, st')" and "table' = cs_table st'"
    using assms Some by (auto simp: run_chain_def split: prod.splits)
  moreover from chain_loop_ok [of d es ?st env obs 0] obtain rows where
    "chain_ok d es ?st (Outcome oc) st' rows" using l by auto
  ultimately show thesis by (intro that [OF Some]) (simp_all add: chain_ok_def)
qed

subsection \<open>A sample chain\<close>

text \<open>Two reviewers: the first reports a quota outage, the second answers.\<close>

definition sample_head :: reviewer where
  "sample_head = \<lparr>rw_name = ''first'', rw_provider = ''openai'', rw_model = ''m'', rw_effort = None,
     rw_fallbacks = [''second''], rw_quota_pool = None, rw_max_diff_bytes = None\<rparr>"

definition sample_fallback :: reviewer where
  "sample_fallback = \<lparr>rw_name = ''second'', rw_provider = ''xai'', rw_model = ''m'', rw_effort = None,
     rw_fallbacks = [], rw_quota_pool = None, rw_max_diff_bytes = None\<rparr>"

definition sample_run :: "health \<Rightarrow> run" where
  "sample_run h = \<lparr>ru_rc = 0, ru_descendants = ''none'', ru_timed_out = False, ru_output = True, ru_health = h,
     ru_parsed = \<lparr>pa_ok = True, pa_degraded = False, pa_reason = [], pa_payload = PNone\<rparr>,
     ru_until = ''2026-07-28T13:00:00Z''\<rparr>"

definition sample_obs :: "health \<Rightarrow> health \<Rightarrow> nat \<Rightarrow> entry_obs" where
  "sample_obs h h' i = \<lparr>eo_cancelled = False, eo_now = ''2026-07-28T12:00:00Z'', eo_absent = None, eo_binary = ''bin'',
     eo_spend = None, eo_fit = Fits, eo_slot = Held,
     eo_attempt = \<lambda>k. \<lparr>ao_build = Built, ao_launch = Launched, ao_run = sample_run (if i = 0 then h else h')\<rparr>\<rparr>"

abbreviation quota_health :: health where
  "quota_health \<equiv> \<lparr>he_kind = Unavailable, he_category = ''quota'', he_detail = ''limit''\<rparr>"
abbreviation model_health :: health where
  "model_health \<equiv> \<lparr>he_kind = Unavailable, he_category = ''model'', he_detail = ''unknown model''\<rparr>"
abbreviation ok_health :: health where
  "ok_health \<equiv> \<lparr>he_kind = Ok, he_category = [], he_detail = []\<rparr>"

definition sample_rows :: "health \<Rightarrow> health \<Rightarrow> attempt_row list" where
  "sample_rows h h' =
     [\<lparr>at_n = 1, at_entry = sample_head, at_rc = Some 0, at_timed_out = Some False, at_output = True,
       at_health = Some h, at_skipped = None, at_code = None\<rparr>,
      \<lparr>at_n = 2, at_entry = sample_fallback, at_rc = Some 0, at_timed_out = Some False, at_output = True,
       at_health = Some h', at_skipped = None, at_code = None\<rparr>]"

definition sample_outcome :: "health \<Rightarrow> chain_outcome" where
  "sample_outcome h = \<lparr>oc_parsed = Some \<lparr>pa_ok = True, pa_degraded = False, pa_reason = [], pa_payload = PNone\<rparr>,
     oc_attempts = sample_rows h ok_health, oc_failure = [], oc_accepted = Some sample_fallback\<rparr>"

lemma sample_chain: "chain_for [sample_head, sample_fallback] sample_head = Some [sample_head, sample_fallback]"
  by (simp add: chain_for_def by_name_def sample_head_def sample_fallback_def)

lemma strip_providers: "strip ''openai'' = ''openai''" "strip ''xai'' = ''xai''"
  by code_simp+

lemma now_canonical: "canonical_str ''2026-07-28T12:00:00Z''" "canonical_str ''2026-07-28T13:00:00Z''"
  by code_simp+

lemma cached_empty: "cached_unavailable None p pool ''2026-07-28T12:00:00Z'' [] = None"
  by (auto simp: cached_unavailable_def provider_unavailable_reason_def require_ts_def now_canonical
      provider_state_bypassed_def state_key_def split: option.split sum.split)

lemma sample_model_run:
  "run_chain [sample_head, sample_fallback] sample_head sample_defaults None (sample_obs model_health ok_health) []
    = (Outcome (sample_outcome model_health), [])"
proof -
  have pools: "quota_pool_for (rw_quota_pool sample_head) (rw_provider sample_head) (rw_model sample_head) = Some ''openai''"
    "quota_pool_for (rw_quota_pool sample_fallback) (rw_provider sample_fallback) (rw_model sample_fallback) = Some ''xai''"
    by (simp_all add: quota_pool_for_def sample_head_def sample_fallback_def strip_providers)
  show ?thesis
    by (simp add: run_chain_def sample_chain run_entry_def pools cached_empty sample_obs_def attempts.simps attempt_def
        judge_run_def sample_run_def remember_unavailable_def add_row_def blame_def sample_outcome_def sample_rows_def
        sample_defaults_def Let_def)
qed

subsection \<open>Properties\<close>

text \<open>What a chain accepts was really answered: an accepted review comes from the last attempt,
  a completed run that the provider served and that parsed; a run seen to be degraded stays
  degraded; and without an answer there is a reason for the failure and nothing is accepted.\<close>

theorem accepted_was_answered:
  assumes "run_chain rs head d env obs table = (Outcome oc, table')"
  shows "(\<forall>e. oc_accepted oc = Some e \<longrightarrow> (\<exists>p. oc_parsed oc = Some p \<and> pa_ok p)
        \<and> oc_attempts oc \<noteq> [] \<and> served (last (oc_attempts oc)) \<and> at_entry (last (oc_attempts oc)) = e
        \<and> (\<exists>es. chain_for rs head = Some es \<and> e \<in> set es))
    \<and> (\<forall>p h. oc_parsed oc = Some p \<and> at_health (last (oc_attempts oc)) = Some h \<and> he_kind h = Degraded \<longrightarrow> pa_degraded p)
    \<and> (oc_parsed oc = None \<longleftrightarrow> oc_failure oc \<noteq> []) \<and> (oc_parsed oc = None \<longrightarrow> oc_accepted oc = None)"
proof -
  from run_chain_ok [OF assms] obtain es where es: "chain_for rs head = Some es" "outcome_ok es (oc_attempts oc) (Outcome oc)"
    by metis
  then show ?thesis
    by (cases "oc_parsed oc") (auto simp: outcome_ok_def split: if_splits)
qed

theorem accepted_was_answered_witness:
  "served (last (sample_rows model_health ok_health)) \<and> at_entry (last (sample_rows model_health ok_health)) = sample_fallback"
  using accepted_was_answered [OF sample_model_run] by (simp add: sample_outcome_def)

text \<open>Providers are changed only when one could not serve: from one attempt to the next, the
  entry is the same or the earlier attempt started no process, was refused by its provider, or hung
  without any output. A bad answer is never retried elsewhere.\<close>

theorem hops_only_when_unserved:
  assumes "run_chain rs head d env obs table = (Outcome oc, table')" and "Suc i < length (oc_attempts oc)"
    and "at_entry (oc_attempts oc ! i) \<noteq> at_entry (oc_attempts oc ! Suc i)"
  shows "gave_way (oc_attempts oc ! i) \<and> \<not> served (oc_attempts oc ! i)"
proof -
  from run_chain_ok [OF assms(1)] have "handed_over (oc_attempts oc)" by metis
  then have "gave_way (oc_attempts oc ! i)"
    using assms(2,3) by (auto simp: handed_over_def successively_conv_nth)
  then show ?thesis by (auto simp: gave_way_def served_def)
qed

theorem hops_only_when_unserved_witness:
  "gave_way (sample_rows model_health ok_health ! 0)"
  using hops_only_when_unserved [OF sample_model_run, of 0]
  by (simp add: sample_outcome_def sample_rows_def sample_head_def sample_fallback_def)

text \<open>C34 (bounds).  A chain is bounded however it ends. Whether it answers, fails, is cancelled or meets a fault, the loop
  over its \<open>n\<close> entries makes at most \<open>n\<close> times the attempts one entry may make (the first, and its timeout and
  degraded retries), numbers them from 1 without gaps, moves to another reviewer only after an attempt that could not be
  served, and an outcome lists exactly the attempts made. Durations and the waits for admission are not modelled.\<close>

theorem chain_is_bounded:
  assumes "chain_for rs head = Some es"
  shows "\<exists>res st. chain_loop d env obs 0 es \<lparr>cs_rows = [], cs_exhausted = [], cs_table = table\<rparr> = (res, st)
    \<and> run_chain rs head d env obs table = (res, cs_table st)
    \<and> int (length (cs_rows st)) \<le> int (length es) * (1 + max 0 (d_timeout_retries d) + max 0 (d_degraded_retries d))
    \<and> map at_n (cs_rows st) = [1..<Suc (length (cs_rows st))]
    \<and> (\<forall>i. Suc i < length (cs_rows st) \<and> at_entry (cs_rows st ! i) \<noteq> at_entry (cs_rows st ! Suc i) \<longrightarrow> gave_way (cs_rows st ! i))
    \<and> (\<forall>oc. res = Outcome oc \<longrightarrow> oc_attempts oc = cs_rows st)"
proof -
  let ?st = "\<lparr>cs_rows = [], cs_exhausted = [], cs_table = table\<rparr>"
  obtain res st where l: "chain_loop d env obs 0 es ?st = (res, st)" by fastforce
  from chain_loop_ok [of d es ?st env obs 0] l have ok: "chain_ok d es ?st res st (cs_rows st)"
    by (auto simp: chain_ok_def)
  then have "int (length (cs_rows st)) \<le> int (length es * entry_bound d)" unfolding chain_ok_def by (intro of_nat_mono) blast
  moreover have "int (entry_bound d) = 1 + max 0 (d_timeout_retries d) + max 0 (d_degraded_retries d)" by (simp add: entry_bound_def)
  ultimately have "int (length (cs_rows st)) \<le> int (length es) * (1 + max 0 (d_timeout_retries d) + max 0 (d_degraded_retries d))" by simp
  moreover have "run_chain rs head d env obs table = (res, cs_table st)" using assms l by (simp add: run_chain_def)
  ultimately show ?thesis using l ok
    by (intro exI [of _ res] exI [of _ st]) (auto simp: chain_ok_def handed_over_def successively_conv_nth)
qed

theorem chain_is_bounded_witness: "int (length (sample_rows model_health ok_health)) \<le> 2 * (1 + 1 + 1)"
proof -
  from chain_is_bounded [OF sample_chain, of sample_defaults None "sample_obs model_health ok_health" "[]"] sample_model_run
  show ?thesis by (auto simp: sample_outcome_def sample_defaults_def)
qed

text \<open>Only a quota outage is remembered: the cache of outages is unchanged by a chain none of whose
  attempts was refused for quota, so a mistyped model or a missing binary never takes a provider
  away from other reviewers.\<close>

theorem only_quota_is_remembered:
  assumes "run_chain rs head d env obs table = (Outcome oc, table')"
    and "\<And>a. a \<in> set (oc_attempts oc) \<Longrightarrow> \<not> quota_row a"
  shows "table' = table"
  using run_chain_ok [OF assms(1)] assms(2) by metis

theorem only_quota_is_remembered_witness:
  "snd (run_chain [sample_head, sample_fallback] sample_head sample_defaults None (sample_obs model_health ok_health) []) = []"
  using only_quota_is_remembered [OF sample_model_run]
  by (simp add: sample_model_run sample_outcome_def sample_rows_def quota_row_def)

end
