(* ===== verification/Json.thy ===== *)
theory Json
  imports PyText
begin

section \<open>JSON text and content digests\<close>

text \<open>
  Models the canonical serialisation the program hashes and stores:
  \<open>json.dumps(value, sort_keys=True, separators=(",", ":"), allow_nan=False)\<close>, with
  \<open>ensure_ascii\<close> either way, and \<open>canonical_digest\<close> of \<open>checkpoints.py\<close> over it. The hash
  (SHA-256 of the text's UTF-8 bytes) is the parameter \<open>H\<close>. The lemmas show that the text
  determines the value: two values with the same text differ at most in the order of their keys.
\<close>

subsection \<open>The text of a value\<close>

text \<open>\<open>py_encode_basestring\<close> and its ASCII twin, on one character. ASCII escapes everything
  outside the printable range, DEL included.\<close>

definition esc :: "bool \<Rightarrow> char \<Rightarrow> string" where
  "esc ascii c = (let n = code c in
     if n = 34 then [CHR 0x5C, CHR 0x22]
     else if n = 92 then [CHR 0x5C, CHR 0x5C]
     else if n = 10 then [CHR 0x5C, CHR ''n'']
     else if n = 13 then [CHR 0x5C, CHR ''r'']
     else if n = 9 then [CHR 0x5C, CHR ''t'']
     else if n = 12 then [CHR 0x5C, CHR ''f'']
     else if n = 8 then [CHR 0x5C, CHR ''b'']
     else if n < 32 \<or> ascii \<and> 127 \<le> n
       then [CHR 0x5C, CHR ''u'', CHR ''0'', CHR ''0'', hex_char (n div 16), hex_char (n mod 16)]
     else [c])"

definition json_str :: "bool \<Rightarrow> string \<Rightarrow> string" where
  "json_str ascii s = CHR 0x22 # concat (map (esc ascii) s) @ [CHR 0x22]"

text \<open>\<open>sort_keys\<close>: every dictionary in the order of its keys.\<close>

fun sorted_keys :: "pyval \<Rightarrow> pyval" where
  "sorted_keys (PList vs) = PList (map sorted_keys vs)"
| "sorted_keys (PDict d) = PDict (sort_key fst (map (\<lambda>(k, v). (k, sorted_keys v)) d))"
| "sorted_keys v = v"

text \<open>The encoder, in the order the value gives: items after the first follow a comma.\<close>

fun emit :: "bool \<Rightarrow> pyval \<Rightarrow> string"
  and emit_more :: "bool \<Rightarrow> pyval list \<Rightarrow> string"
  and emit_items :: "bool \<Rightarrow> pydict \<Rightarrow> string" where
  "emit a PNone = ''null''"
| "emit a (PBool b) = (if b then ''true'' else ''false'')"
| "emit a (PInt i) = show_int i"
| "emit a (PFloat r) = r"
| "emit a (PStr s) = json_str a s"
| "emit a (PList []) = ''[]''"
| "emit a (PList (v # vs)) = CHR ''['' # emit a v @ emit_more a vs"
| "emit a (PDict []) = ''{}''"
| "emit a (PDict ((k, v) # d)) = CHR ''{'' # json_str a k @ CHR '':'' # emit a v @ emit_items a d"
| "emit_more a [] = '']''"
| "emit_more a (v # vs) = CHR '','' # emit a v @ emit_more a vs"
| "emit_items a [] = ''}''"
| "emit_items a ((k, v) # d) = CHR '','' # json_str a k @ CHR '':'' # emit a v @ emit_items a d"

text \<open>\<open>allow_nan=False\<close> refuses the floats that are not numbers.\<close>

fun finite_floats :: "pyval \<Rightarrow> bool" where
  "finite_floats (PFloat r) = (r \<noteq> ''nan'' \<and> r \<noteq> ''inf'' \<and> r \<noteq> ''-inf'')"
| "finite_floats (PList vs) = list_all finite_floats vs"
| "finite_floats (PDict d) = list_all (\<lambda>(k, v). finite_floats v) d"
| "finite_floats v = True"

definition dumps :: "bool \<Rightarrow> pyval \<Rightarrow> string option" where
  "dumps ascii v = (if finite_floats v then Some (emit ascii (sorted_keys v)) else None)"

text \<open>\<open>len(text.encode("utf-8"))\<close> in the range of code points covered.\<close>

definition utf8_len :: "string \<Rightarrow> nat" where
  "utf8_len s = sum_list (map (\<lambda>c. if code c < 128 then 1 else 2) s)"

text \<open>\<open>canonical_digest(value)\<close>: \<open>None\<close> where the source raises \<open>ValueError\<close>.\<close>

definition canonical_digest :: "(string \<Rightarrow> string) \<Rightarrow> pyval \<Rightarrow> string option" where
  "canonical_digest H v = map_option H (dumps False v)"

subsection \<open>The text determines the value\<close>

lemma hex_char_eq: "m < 16 \<Longrightarrow> n < 16 \<Longrightarrow> hex_char m = hex_char n \<longleftrightarrow> m = n"
proof -
  assume m: "m < 16" and n: "n < 16"
  have c: "code (hex_char k) = (if k < 10 then 48 + k else 87 + k)" if "k < 16" for k
    using that by (simp add: hex_char_def)
  show ?thesis
  proof
    assume "hex_char m = hex_char n"
    with c [OF m] c [OF n] have "(if m < 10 then 48 + m else 87 + m) = (if n < 10 then 48 + n else 87 + (n :: nat))"
      by simp
    with m n show "m = n" by (simp split: if_splits)
  qed simp
qed

lemma esc_not_Nil [simp]: "esc a c \<noteq> []"
  by (simp add: esc_def Let_def)

lemma esc_first: "esc a c @ x \<noteq> CHR 0x22 # y"
  by (auto simp: esc_def Let_def)

text \<open>Reading one encoded character back.\<close>

definition unhex :: "char \<Rightarrow> nat" where
  "unhex h = (if code h < 58 then code h - 48 else code h - 87)"

fun unesc :: "string \<Rightarrow> char \<times> string" where
  "unesc (b # e # x) =
     (if b \<noteq> CHR 0x5C then (b, e # x)
      else if e = CHR ''u'' then (char_of (unhex (x ! 2) * 16 + unhex (x ! 3)), drop 4 x)
      else (if e = CHR ''n'' then char_of (10 :: nat) else if e = CHR ''r'' then char_of (13 :: nat)
            else if e = CHR ''t'' then char_of (9 :: nat) else if e = CHR ''f'' then char_of (12 :: nat)
            else if e = CHR ''b'' then char_of (8 :: nat) else e, x))"
| "unesc [b] = (b, [])"
| "unesc [] = (CHR 0x22, [])"

lemma special_chars: "char_of (34 :: nat) = CHR 0x22" "char_of (92 :: nat) = CHR 0x5C"
  by code_simp+

lemma unhex_hex: "d < 16 \<Longrightarrow> unhex (hex_char d) = d"
  by (simp add: unhex_def hex_char_def)

lemma code_char: "code c = n \<Longrightarrow> c = char_of (n :: nat)"
  by auto

lemma esc_plain: "code c \<notin> {34, 92, 10, 13, 9, 12, 8 :: nat} \<Longrightarrow>
    esc a c = (if code c < (32 :: nat) \<or> a \<and> (127 :: nat) \<le> code c
      then [CHR 0x5C, CHR ''u'', CHR ''0'', CHR ''0'', hex_char (code c div 16), hex_char (code c mod 16)]
      else [c])"
  by (simp add: esc_def Let_def)

lemma unesc_esc: "unesc (esc a c @ x) = (c, x)"
proof -
  have lt: "code c < (256 :: nat)"
    using nat_of_char_less_256 by auto
  have hex: "char_of (unhex (hex_char (code c div 16)) * 16 + unhex (hex_char (code c mod 16))) = c"
    using lt by (simp add: unhex_hex less_mult_imp_div_less)
  have plain: "unesc (c # x) = (c, x)" if "c \<noteq> CHR 0x5C"
    using that by (cases x) auto
  show ?thesis
  proof (cases "code c \<in> {34, 92, 10, 13, 9, 12, 8 :: nat}")
    case True
    then show ?thesis by (elim insertE) (simp_all add: esc_def special_chars, simp_all flip: code_eq_iff)
  next
    case False
    then have "c \<noteq> CHR 0x5C" by auto
    with hex show ?thesis by (simp add: esc_plain [OF False] plain)
  qed
qed

lemma esc_code: "esc a c @ x = esc a d @ y \<Longrightarrow> c = d \<and> x = y"
  by (metis prod.inject unesc_esc)

lemma quoted_eq:
  "concat (map (esc a) s) @ CHR 0x22 # x = concat (map (esc a) t) @ CHR 0x22 # y \<Longrightarrow> s = t \<and> x = y"
proof (induction s arbitrary: t)
  case Nil
  then show ?case
    by (cases t) (auto dest: esc_first [THEN notE, OF sym])
next
  case (Cons c s)
  show ?case
  proof (cases t)
    case Nil
    with Cons.prems show ?thesis by (auto dest: esc_first [THEN notE])
  next
    case (Cons d u)
    with Cons.prems have "c = d" and
      "concat (map (esc a) s) @ CHR 0x22 # x = concat (map (esc a) u) @ CHR 0x22 # y"
      using esc_code [of a c _ d] by auto
    with Cons.IH Cons show ?thesis by auto
  qed
qed

lemma json_str_eq: "json_str a s @ x = json_str a t @ y \<longleftrightarrow> s = t \<and> x = y"
  by (auto simp: json_str_def dest: quoted_eq)

subsubsection \<open>Numbers\<close>

definition number_char :: "char \<Rightarrow> bool" where
  "number_char c \<longleftrightarrow> code c \<in> {43, 45, 46, 101 :: nat} \<or> (48 :: nat) \<le> code c \<and> code c \<le> (57 :: nat)"

text \<open>What \<open>repr\<close> of a finite float looks like: it starts as a number does, and a point or an
  exponent tells it from an integer.\<close>

definition float_repr :: "string \<Rightarrow> bool" where
  "float_repr r \<longleftrightarrow> r \<noteq> [] \<and> list_all number_char r \<and> (CHR ''.'' \<in> set r \<or> CHR ''e'' \<in> set r)"

definition ends :: "string \<Rightarrow> bool" where
  "ends x \<longleftrightarrow> x = [] \<or> \<not> number_char (hd x)"

fun float_reprs :: "pyval \<Rightarrow> bool" where
  "float_reprs (PFloat r) = float_repr r"
| "float_reprs (PList vs) = list_all float_reprs vs"
| "float_reprs (PDict d) = list_all (\<lambda>(k, v). float_reprs v) d"
| "float_reprs v = True"

definition digits_num :: "string \<Rightarrow> nat" where
  "digits_num s = foldl (\<lambda>n c. n * 10 + (code c - 48)) 0 s"

lemma digits_num_show: "digits_num (show_nat n) = n"
proof (induction n rule: show_nat.induct)
  case (1 n)
  show ?case
  proof (cases "n < 10")
    case True
    then show ?thesis by (subst show_nat.simps) (simp add: digits_num_def digit_char_def)
  next
    case False
    with 1 show ?thesis by (subst show_nat.simps) (simp add: digits_num_def digit_char_def)
  qed
qed

lemma show_nat_inj: "show_nat m = show_nat n \<longleftrightarrow> m = n"
  by (metis digits_num_show)

lemma digit_char_facts: "d < 10 \<Longrightarrow> digit_char d \<noteq> CHR ''-'' \<and> digit_char d \<noteq> CHR ''.''
    \<and> digit_char d \<noteq> CHR ''e'' \<and> number_char (digit_char d)"
proof -
  assume "d < 10"
  then have "code (digit_char d) = 48 + d" by (rule digit_char_range)
  with \<open>d < 10\<close> show ?thesis by (simp add: number_char_def flip: code_eq_iff)
qed

lemma show_nat_no_sign: "show_nat n \<noteq> CHR ''-'' # s"
proof
  assume "show_nat n = CHR ''-'' # s"
  then have "CHR ''-'' \<in> set (show_nat n)" by simp
  then show False using show_nat_digits digit_char_facts by metis
qed

lemma show_int_inj: "show_int i = show_int j \<longleftrightarrow> i = j"
proof -
  have "show_nat n \<noteq> CHR ''-'' # s" "CHR ''-'' # s \<noteq> show_nat n" for n s
    using show_nat_no_sign by metis+
  then show ?thesis
    by (auto simp: show_int_def show_nat_inj split: if_splits)
qed

lemma show_nat_nonempty [simp]: "show_nat n \<noteq> []"
  by (subst show_nat.simps) simp

lemma show_int_shape: "show_int i \<noteq> []" "list_all number_char (show_int i)"
    "CHR ''.'' \<notin> set (show_int i)" "CHR ''e'' \<notin> set (show_int i)"
proof -
  show "show_int i \<noteq> []" by (simp add: show_int_def)
  have d: "c = CHR ''-'' \<or> (\<exists>d<10. c = digit_char d)" if "c \<in> set (show_int i)" for c
    using show_int_chars that by blast
  have "number_char CHR ''-''" by (simp add: number_char_def)
  with d digit_char_facts show "list_all number_char (show_int i)"
    unfolding list_all_iff by metis
  show "CHR ''.'' \<notin> set (show_int i)" "CHR ''e'' \<notin> set (show_int i)"
    using d digit_char_facts by fastforce+
qed

lemma number_prefix:
  assumes "list_all number_char m" "list_all number_char n" "ends x" "ends y" "m @ x = n @ y"
  shows "m = n \<and> x = y"
proof -
  have t: "takeWhile number_char (k @ z) = k" if "list_all number_char k" "ends z" for k z
    using that by (cases z) (simp_all add: list_all_iff ends_def)
  from assms t have "m = n" by metis
  with assms show ?thesis by simp
qed

subsubsection \<open>Values\<close>

text \<open>The first character of a text tells which kind of value follows.\<close>

definition lead :: "char \<Rightarrow> nat" where
  "lead c = (if number_char c then 0 else code c)"

fun lead_of :: "pyval \<Rightarrow> nat" where
  "lead_of PNone = 110"
| "lead_of (PBool b) = (if b then 116 else 102)"
| "lead_of (PInt i) = 0"
| "lead_of (PFloat r) = 0"
| "lead_of (PStr s) = 34"
| "lead_of (PList vs) = 91"
| "lead_of (PDict d) = 123"

lemma lead_hd: "m \<noteq> [] \<Longrightarrow> list_all number_char m \<Longrightarrow> lead (hd (m @ x)) = 0"
  by (cases m) (simp_all add: lead_def)

lemma lead_emit: "float_reprs v \<Longrightarrow> lead (hd (emit a v @ x)) = lead_of v"
proof (cases v)
  case (PInt i)
  then show ?thesis using lead_hd [OF show_int_shape(1,2)] by simp
next
  case (PFloat r)
  moreover assume "float_reprs v"
  ultimately show ?thesis using lead_hd [of r] by (simp add: float_repr_def)
next
  case (PList vs)
  then show ?thesis by (cases vs) (simp_all add: lead_def number_char_def)
next
  case (PDict d)
  then show ?thesis by (cases d) (auto simp: lead_def number_char_def)
qed (simp_all add: lead_def number_char_def json_str_def)

lemma ends_emit: "ends (emit_more a vs @ x)" "ends (emit_items a d @ x)"
  by (cases vs; simp add: ends_def number_char_def) (cases d; auto simp: ends_def number_char_def)

lemma lead_emit_eq:
  "float_reprs v \<Longrightarrow> float_reprs w \<Longrightarrow> emit a v @ x = emit a w @ y \<Longrightarrow> lead_of v = lead_of w"
  by (metis lead_emit)

lemma emit_not_close: "float_reprs v \<Longrightarrow> emit a v @ x \<noteq> CHR '']'' # y"
  using lead_emit [of v a x] by (cases v) (auto simp: lead_def number_char_def split: if_splits)

lemma emit_eq:
  "float_reprs v \<Longrightarrow> float_reprs w \<Longrightarrow> ends x \<Longrightarrow> ends y \<Longrightarrow> emit a v @ x = emit a w @ y \<Longrightarrow> v = w \<and> x = y"
  "list_all float_reprs vs \<Longrightarrow> list_all float_reprs ws \<Longrightarrow> emit_more a vs @ x = emit_more a ws @ y \<Longrightarrow> vs = ws \<and> x = y"
  "list_all (\<lambda>(k, v). float_reprs v) d \<Longrightarrow> list_all (\<lambda>(k, v). float_reprs v) e \<Longrightarrow>
    emit_items a d @ x = emit_items a e @ y \<Longrightarrow> d = e \<and> x = y"
proof (induction a v and a vs and a d arbitrary: w x y and ws x y and e x y rule: emit_emit_more_emit_items.induct)
  case (1 a)
  from lead_emit_eq [OF 1(1,2,5)] 1(5) show ?case by (cases w) (auto split: if_splits)
next
  case (2 a b)
  from lead_emit_eq [OF 2(1,2,5)] 2(5) show ?case by (cases w) (auto split: if_splits)
next
  case (3 a i)
  show ?case
  proof (cases w)
    case (PInt j)
    with 3 number_prefix [OF show_int_shape(2) show_int_shape(2)] show ?thesis
      by (auto simp: show_int_inj)
  next
    case (PFloat r)
    with 3 number_prefix [OF show_int_shape(2), of r x y i] show_int_shape(3,4) [of i] show ?thesis
      by (auto simp: float_repr_def)
  qed (use lead_emit_eq [OF 3(1,2,5)] in \<open>auto split: if_splits\<close>)
next
  case (4 a r)
  show ?case
  proof (cases w)
    case (PInt j)
    with 4 number_prefix [OF _ show_int_shape(2), of r x y j] show_int_shape(3,4) [of j] show ?thesis
      by (auto simp: float_repr_def)
  next
    case (PFloat q)
    with 4 number_prefix [of r q x y] show ?thesis by (auto simp: float_repr_def)
  qed (use lead_emit_eq [OF 4(1,2,5)] in \<open>auto split: if_splits\<close>)
next
  case (5 a s)
  from lead_emit_eq [OF 5(1,2,5)] 5(5) show ?case by (cases w) (auto simp: json_str_eq split: if_splits)
next
  case (6 a)
  from lead_emit_eq [OF 6(1,2,5)] obtain ws where w: "w = PList ws" by (cases w) (auto split: if_splits)
  show ?case
  proof (cases ws)
    case (Cons u us)
    with 6(2,5) w emit_not_close [of u a "emit_more a us @ y" x] show ?thesis by simp
  qed (use 6 w in simp)
next
  case (7 a v vs)
  from lead_emit_eq [OF 7(3,4,7)] obtain ws where w: "w = PList ws" by (cases w) (auto split: if_splits)
  with 7 show ?case
  proof (cases ws)
    case Nil
    with 7(3,7) w emit_not_close [of v a "emit_more a vs @ x" y] show ?thesis by simp
  next
    case (Cons u us)
    with 7(3-7) w have vu: "v = u \<and> emit_more a vs @ x = emit_more a us @ y"
      by (intro "7.IH"(1)) (simp_all add: ends_emit)
    with 7(3,4) w Cons have "vs = us \<and> x = y"
      by (intro "7.IH"(2)) simp_all
    with vu w Cons show ?thesis by simp
  qed
next
  case (8 a)
  from lead_emit_eq [OF 8(1,2,5)] obtain e where w: "w = PDict e" by (cases w) (auto split: if_splits)
  with 8 show ?case by (cases e) (auto simp: json_str_def)
next
  case (9 a k v d)
  from lead_emit_eq [OF 9(3,4,7)] obtain e where w: "w = PDict e" by (cases w) (auto split: if_splits)
  with 9 show ?case
  proof (cases e)
    case Nil
    with 9 w show ?thesis by (auto simp: json_str_def)
  next
    case (Cons kw f)
    obtain l u where kw: "kw = (l, u)" by fastforce
    with 9(7) w Cons have k: "k = l" "emit a v @ emit_items a d @ x = emit a u @ emit_items a f @ y"
      by (auto simp: json_str_eq)
    with 9(3-7) w Cons kw have vu: "v = u \<and> emit_items a d @ x = emit_items a f @ y"
      by (intro "9.IH"(1)) (simp_all add: ends_emit)
    with 9(3,4) w Cons kw have "d = f \<and> x = y"
      by (intro "9.IH"(2)) simp_all
    with vu w Cons kw k show ?thesis by simp
  qed
next
  case (10 a)
  then show ?case by (cases ws) auto
next
  case (11 a v vs)
  from 11(5) obtain u us where ws: "ws = u # us" by (cases ws) auto
  with 11(3-5) have vu: "v = u \<and> emit_more a vs @ x = emit_more a us @ y"
    by (intro "11.IH"(1)) (simp_all add: ends_emit)
  with 11(3,4) ws have "vs = us \<and> x = y"
    by (intro "11.IH"(2)) simp_all
  with vu ws show ?case by simp
next
  case (12 a)
  then show ?case by (cases e) auto
next
  case (13 a k v d)
  from 13(5) obtain l u f where e: "e = (l, u) # f" by (cases e) auto
  with 13(5) have k: "k = l" "emit a v @ emit_items a d @ x = emit a u @ emit_items a f @ y"
    by (auto simp: json_str_eq)
  with 13(3,4) e have vu: "v = u \<and> emit_items a d @ x = emit_items a f @ y"
    by (intro "13.IH"(1)) (simp_all add: ends_emit)
  with 13(3,4) e have "d = f \<and> x = y"
    by (intro "13.IH"(2)) simp_all
  with vu e k show ?case by simp
qed

text \<open>Sorting the keys changes no float.\<close>

lemma float_reprs_sorted: "float_reprs v \<Longrightarrow> float_reprs (sorted_keys v)"
  by (induction v rule: sorted_keys.induct) (auto simp: list_all_iff)

lemma dumps_determines:
  assumes "float_reprs v" "float_reprs w" "dumps a v = dumps a w" "dumps a v = Some t"
  shows "sorted_keys v = sorted_keys w"
proof -
  from assms have "emit a (sorted_keys v) @ [] = emit a (sorted_keys w) @ []"
    by (auto simp: dumps_def split: if_splits)
  then have "sorted_keys v = sorted_keys w \<and> [] = ([] :: string)"
    by (intro emit_eq(1) [OF float_reprs_sorted float_reprs_sorted]) (use assms in \<open>simp_all add: ends_def\<close>)
  then show ?thesis by simp
qed

text \<open>Equal up to the order of keys: the same keys, with values equal in the same sense.\<close>

lemma sorted_keys_lookup:
  assumes "sorted_keys (PDict d) = sorted_keys (PDict e)" "distinct (map fst d)" "distinct (map fst e)"
  shows "map_option sorted_keys (map_of d k) = map_option sorted_keys (map_of e k)"
proof -
  have m: "map_of (sort_key fst (map (\<lambda>(k, v). (k, sorted_keys v)) f)) k = map_option sorted_keys (map_of f k)"
    if "distinct (map fst f)" for f :: pydict
  proof -
    have "map_of (sort_key fst (map (\<lambda>(k, v). (k, sorted_keys v)) f)) = map_of (map (\<lambda>(k, v). (k, sorted_keys v)) f)"
      using that by (intro map_of_inject_set [THEN iffD2]) (auto simp: comp_def case_prod_beta distinct_map inj_on_def)
    then show ?thesis by (simp add: map_of_map)
  qed
  from assms(1) show ?thesis
    unfolding m [OF assms(2), symmetric] m [OF assms(3), symmetric] by simp
qed

text \<open>What is looked up in a serialised dictionary is what was looked up before.\<close>

lemma sorted_keys_dget:
  assumes "sorted_keys (PDict d) = sorted_keys (PDict e)" "distinct (map fst d)" "distinct (map fst e)"
  shows "sorted_keys (dget d k) = sorted_keys (dget e k)"
  using sorted_keys_lookup [OF assms, of k]
  by (cases "map_of d k"; cases "map_of e k") (simp_all add: dget_def)

end
