(* ===== verification/Checkpoints.thy ===== *)
theory Checkpoints
  imports Json Dispatch
begin

section \<open>Checkpoints: exact identities and the door of stored passes\<close>

text \<open>
  Models \<open>checkpoints.py\<close>: the identity of one planned pass (\<open>PassIdentity\<close>), the identity of
  a whole batched review (\<open>OrchestrationIdentity\<close>, its canonical JSON and digest,
  \<open>first_mismatch\<close>), and the validation every stored pass goes through
  (\<open>CheckpointPayload.from_mapping\<close>, \<open>_scan_json\<close>, \<open>_attempt_shape\<close>, \<open>usable_payload\<close>),
  with the review schema check \<open>_valid_payload\<close> of \<open>adapters/base.py\<close> it rests on. Stored JSON
  text is represented by the value it decodes to. The hash is the parameter \<open>H\<close>.
\<close>

subsection \<open>Identities\<close>

datatype pass_kind = Batch_pass | Integration_pass | Security_pass | Skeptic_pass

fun kind_text :: "pass_kind \<Rightarrow> string" where
  "kind_text Batch_pass = ''batch''"
| "kind_text Integration_pass = ''integration''"
| "kind_text Security_pass = ''security''"
| "kind_text Skeptic_pass = ''skeptic''"

definition kind_of :: "string \<Rightarrow> pass_kind option" where
  "kind_of s = find (\<lambda>k. kind_text k = s) [Batch_pass, Integration_pass, Security_pass, Skeptic_pass]"

definition max_text_chars :: nat where "max_text_chars = 65536"
definition max_findings :: nat where "max_findings = 1000"
definition max_attempts :: nat where "max_attempts = 64"
definition max_checkpoint_json_bytes :: nat where "max_checkpoint_json_bytes = 2 * 1024 * 1024"

text \<open>\<open>_text(label, value)\<close>, and with \<open>optional=True\<close>.\<close>

definition text_ok :: "string \<Rightarrow> bool" where
  "text_ok s \<longleftrightarrow> s \<noteq> [] \<and> length s \<le> max_text_chars"

definition opt_text_ok :: "string option \<Rightarrow> bool" where
  "opt_text_ok t \<longleftrightarrow> (case t of None \<Rightarrow> True | Some s \<Rightarrow> text_ok s)"

record pass_identity =
  pi_kind :: pass_kind
  pi_index :: int
  pi_prompt :: "string option"
  pi_diff :: string
  pi_boundary :: string

text \<open>\<open>PassIdentity(kind, index, prompt_hash, diff_hash, boundary_hash)\<close>: \<open>None\<close> where
  \<open>__post_init__\<close> raises.\<close>

definition make_pass :: "string \<Rightarrow> int \<Rightarrow> string option \<Rightarrow> string \<Rightarrow> string \<Rightarrow> pass_identity option" where
  "make_pass kind index prompt diff boundary =
     (case kind_of kind of None \<Rightarrow> None
      | Some k \<Rightarrow>
          if index < (if k = Batch_pass then 1 else 0) then None
          else if k \<noteq> Batch_pass \<and> index \<noteq> 0 then None
          else if k = Batch_pass \<and> prompt = None then None
          else if \<not> opt_text_ok prompt \<or> \<not> text_ok diff \<or> \<not> text_ok boundary then None
          else Some \<lparr>pi_kind = k, pi_index = index, pi_prompt = prompt, pi_diff = diff, pi_boundary = boundary\<rparr>)"

record orch_identity =
  oi_repo_id :: string
  oi_worktree_root :: string
  oi_branch :: string
  oi_head :: string
  oi_base_ref :: string
  oi_base_sha :: string
  oi_diff_hash :: string
  oi_tree_fingerprint :: string
  oi_context_hash :: "string option"
  oi_checklist_hash :: "string option"
  oi_reviewer_hash :: string
  oi_config_hash :: string
  oi_policy_hash :: string
  oi_planner_version :: string
  oi_batch_budget :: int
  oi_batch_count :: int
  oi_boundary_digest :: string
  oi_integration_plan_digest :: string
  oi_passes :: "pass_identity list"
  oi_source :: "string option"
  oi_policy :: "pydict option"

text \<open>\<open>OrchestrationIdentity.__post_init__\<close>; \<open>digest\<close> is the policy digest of
  \<open>planning_policy.py\<close>.\<close>

fun opt_dict :: "pydict option \<Rightarrow> pyval" where
  "opt_dict None = PNone" | "opt_dict (Some d) = PDict d"

fun opt_str :: "string option \<Rightarrow> pyval" where
  "opt_str None = PNone" | "opt_str (Some s) = PStr s"

definition identity_ok :: "(pydict \<Rightarrow> string) \<Rightarrow> orch_identity \<Rightarrow> bool" where
  "identity_ok digest i \<longleftrightarrow>
     list_all text_ok [oi_repo_id i, oi_worktree_root i, oi_branch i, oi_head i, oi_base_ref i,
       oi_base_sha i, oi_diff_hash i, oi_tree_fingerprint i, oi_reviewer_hash i, oi_config_hash i,
       oi_policy_hash i, oi_planner_version i, oi_boundary_digest i, oi_integration_plan_digest i]
     \<and> validate_policy digest (opt_dict (oi_policy i))
     \<and> opt_text_ok (oi_source i) \<and> opt_text_ok (oi_context_hash i) \<and> opt_text_ok (oi_checklist_hash i)
     \<and> 1 \<le> oi_batch_budget i \<and> 1 \<le> oi_batch_count i \<and> oi_passes i \<noteq> []"

text \<open>\<open>asdict\<close> of the two dataclasses, with the fields \<open>canonical_json\<close> drops when unset.\<close>

definition pass_dict :: "pass_identity \<Rightarrow> pydict" where
  "pass_dict p = [(''kind'', PStr (kind_text (pi_kind p))), (''index'', PInt (pi_index p)),
     (''prompt_hash'', opt_str (pi_prompt p)), (''diff_hash'', PStr (pi_diff p)),
     (''boundary_hash'', PStr (pi_boundary p))]"

definition identity_dict :: "orch_identity \<Rightarrow> pydict" where
  "identity_dict i =
     [(''repo_id'', PStr (oi_repo_id i)), (''worktree_root'', PStr (oi_worktree_root i)),
      (''branch'', PStr (oi_branch i)), (''head'', PStr (oi_head i)), (''base_ref'', PStr (oi_base_ref i)),
      (''base_sha'', PStr (oi_base_sha i)), (''diff_hash'', PStr (oi_diff_hash i)),
      (''tree_fingerprint'', PStr (oi_tree_fingerprint i)), (''context_hash'', opt_str (oi_context_hash i)),
      (''checklist_hash'', opt_str (oi_checklist_hash i)), (''reviewer_hash'', PStr (oi_reviewer_hash i)),
      (''config_hash'', PStr (oi_config_hash i)), (''policy_hash'', PStr (oi_policy_hash i)),
      (''planner_version'', PStr (oi_planner_version i)), (''batch_budget'', PInt (oi_batch_budget i)),
      (''batch_count'', PInt (oi_batch_count i)), (''boundary_digest'', PStr (oi_boundary_digest i)),
      (''integration_plan_digest'', PStr (oi_integration_plan_digest i)),
      (''pass_identities'', PList (map (\<lambda>p. PDict (pass_dict p)) (oi_passes i)))]
     @ (case oi_source i of None \<Rightarrow> [] | Some s \<Rightarrow> [(''continuation_source'', PStr s)])
     @ (case oi_policy i of None \<Rightarrow> [] | Some d \<Rightarrow> [(''planning_policy'', PDict d)])"

definition identity_json :: "orch_identity \<Rightarrow> string option" where
  "identity_json i = dumps False (PDict (identity_dict i))"

definition identity_digest :: "(string \<Rightarrow> string) \<Rightarrow> orch_identity \<Rightarrow> string option" where
  "identity_digest H i = map_option H (identity_json i)"

text \<open>\<open>first_mismatch(left, right)\<close>: the fields in the order of \<open>_IDENTITY_FIELDS\<close>. The result
  names the field, or says how the planning policy differs.\<close>

datatype difference = Field string | Policy policy_mismatch

definition policy_difference ::
    "(pydict \<Rightarrow> string) \<Rightarrow> orch_identity \<Rightarrow> orch_identity \<Rightarrow> difference option" where
  "policy_difference digest l r =
     (case oi_policy r of None \<Rightarrow> Some (Policy IdentityMissing)
      | Some e \<Rightarrow> map_option Policy (mismatch digest (opt_dict (oi_policy l)) e))"

definition differs :: "string \<Rightarrow> bool \<Rightarrow> difference option \<Rightarrow> difference option" where
  "differs name b rest = (if b then Some (Field name) else rest)"

definition first_mismatch ::
    "(pydict \<Rightarrow> string) \<Rightarrow> orch_identity \<Rightarrow> orch_identity \<Rightarrow> difference option" where
  "first_mismatch digest l r =
     differs ''repo_id'' (oi_repo_id l \<noteq> oi_repo_id r) (
     differs ''worktree_root'' (oi_worktree_root l \<noteq> oi_worktree_root r) (
     differs ''branch'' (oi_branch l \<noteq> oi_branch r) (
     differs ''head'' (oi_head l \<noteq> oi_head r) (
     differs ''base_ref'' (oi_base_ref l \<noteq> oi_base_ref r) (
     differs ''base_sha'' (oi_base_sha l \<noteq> oi_base_sha r) (
     differs ''diff_hash'' (oi_diff_hash l \<noteq> oi_diff_hash r) (
     differs ''tree_fingerprint'' (oi_tree_fingerprint l \<noteq> oi_tree_fingerprint r) (
     differs ''context_hash'' (oi_context_hash l \<noteq> oi_context_hash r) (
     differs ''checklist_hash'' (oi_checklist_hash l \<noteq> oi_checklist_hash r) (
     differs ''reviewer_hash'' (oi_reviewer_hash l \<noteq> oi_reviewer_hash r) (
     if \<not> py_eq (opt_dict (oi_policy l)) (opt_dict (oi_policy r)) then policy_difference digest l r else
     differs ''batch_budget'' (oi_batch_budget l \<noteq> oi_batch_budget r) (
     differs ''config_hash'' (oi_config_hash l \<noteq> oi_config_hash r) (
     differs ''policy_hash'' (oi_policy_hash l \<noteq> oi_policy_hash r) (
     differs ''planner_version'' (oi_planner_version l \<noteq> oi_planner_version r) (
     differs ''batch_count'' (oi_batch_count l \<noteq> oi_batch_count r) (
     differs ''boundary_digest'' (oi_boundary_digest l \<noteq> oi_boundary_digest r) (
     differs ''integration_plan_digest'' (oi_integration_plan_digest l \<noteq> oi_integration_plan_digest r) (
     differs ''pass_identities'' (oi_passes l \<noteq> oi_passes r) None))))))))))))))))))"

subsection \<open>The door of stored passes\<close>

text \<open>\<open>str.casefold()\<close>: as \<open>lower()\<close>, but the sharp s becomes two letters. (The micro sign
  becomes a letter outside the range covered; no forbidden name has it.)\<close>

definition casefold :: "string \<Rightarrow> string" where
  "casefold s = concat (map (\<lambda>c. if code c = 223 then ''ss'' else [lower_char c]) s)"

abbreviation finding_exceptions :: "string list" where
  "finding_exceptions \<equiv> [''path'', ''path_value'', ''path_values'', ''executable_path'', ''argv'', ''command'', ''binary'']"

abbreviation always_forbidden :: "string list" where
  "always_forbidden \<equiv> [''prompt'', ''prompt_text'', ''full_prompt'', ''transcript'', ''stdout'', ''stderr'',
     ''environment'', ''environment_values'', ''env_values'', ''full_path'', ''path_env'']"

definition forbidden_fields :: "string list" where
  "forbidden_fields = always_forbidden @ finding_exceptions"

definition finding_forbidden :: "string list" where
  "finding_forbidden = filter (\<lambda>f. f \<notin> set finding_exceptions) forbidden_fields"

text \<open>\<open>_scan_json\<close>: whether it returns. Every other value of the type is JSON.\<close>

fun scan_json :: "string list \<Rightarrow> pyval \<Rightarrow> bool" where
  "scan_json forbidden (PDict d) =
     list_all (\<lambda>(k, v). casefold k \<notin> set forbidden \<and> scan_json forbidden v) d"
| "scan_json forbidden (PList vs) = list_all (scan_json forbidden) vs"
| "scan_json forbidden (PStr s) = (length s \<le> max_text_chars)"
| "scan_json forbidden _ = True"

text \<open>\<open>math.isfinite(float(v)) and v >= 0\<close>, with \<open>False\<close> on overflow: an integer that rounds
  to \<open>2 ** 1024\<close> overflows, and the sign of a float is the first character of its \<open>repr\<close>.\<close>

fun finite_nonneg :: "pyval \<Rightarrow> bool" where
  "finite_nonneg (PInt i) = (0 \<le> i \<and> i < 2 ^ 1024 - 2 ^ 970)"
| "finite_nonneg (PFloat r) = (r \<notin> {''nan'', ''inf'', ''-inf''} \<and> (hd r \<noteq> CHR ''-'' \<or> r = ''-0.0''))"
| "finite_nonneg _ = False"

definition null_or :: "(pyval \<Rightarrow> bool) \<Rightarrow> pyval \<Rightarrow> bool" where
  "null_or p v \<longleftrightarrow> v = PNone \<or> p v"

definition classification_ok :: "pyval \<Rightarrow> bool" where
  "classification_ok v = (case v of
     PDict c \<Rightarrow> is_str (dget c ''kind'') \<and> is_str (dget c ''category'') \<and> is_str (dget c ''detail'')
       \<and> dget c ''kind'' \<in> {PStr ''ok'', PStr ''degraded'', PStr ''unavailable''}
   | _ \<Rightarrow> False)"

text \<open>\<open>_attempt_shape\<close>: whether it returns.\<close>

fun attempt_shape :: "pyval \<Rightarrow> bool" where
  "attempt_shape (PDict a) =
     (list_all (dhas a) [''n'', ''provider'', ''model'', ''effort'', ''rc'', ''timed_out'', ''duration_sec'',
        ''first_output_sec'', ''classification'']
      \<and> int_from 1 (dget a ''n'')
      \<and> nonempty_str (dget a ''provider'') \<and> nonempty_str (dget a ''model'')
      \<and> null_or nonempty_str (dget a ''effort'')
      \<and> null_or is_int (dget a ''rc'')
      \<and> null_or is_bool (dget a ''timed_out'')
      \<and> null_or finite_nonneg (dget a ''duration_sec'') \<and> null_or finite_nonneg (dget a ''first_output_sec'')
      \<and> null_or classification_ok (dget a ''classification'')
      \<and> (dhas a ''skipped'' \<longrightarrow> nonempty_str (dget a ''skipped''))
      \<and> (dhas a ''usage'' \<longrightarrow> is_dict (dget a ''usage'')))"
| "attempt_shape _ = False"

text \<open>\<open>_valid_payload\<close> and the shape of one finding.\<close>

fun valid_finding :: "pyval \<Rightarrow> bool" where
  "valid_finding (PDict f) =
     (is_str (dget f ''file'') \<and> is_str (dget f ''title'') \<and> is_str (dget f ''detail'')
      \<and> dget f ''severity'' \<in> {PStr ''high'', PStr ''medium'', PStr ''low''}
      \<and> (dhas f ''line'' \<longrightarrow> is_int (dget f ''line'')))"
| "valid_finding _ = False"

fun valid_payload :: "pyval \<Rightarrow> bool" where
  "valid_payload (PDict d) =
     ((dhas d ''summary'' \<or> dhas d ''findings'') \<and> is_str (dget d ''summary'')
      \<and> (case dget d ''findings'' of PList fs \<Rightarrow> list_all valid_finding fs | _ \<Rightarrow> False))"
| "valid_payload _ = False"

abbreviation payload_fields :: "string list" where
  "payload_fields \<equiv> [''parse_ok'', ''degraded'', ''degraded_reason'', ''stop_reason'', ''diff_truncated'', ''summary'',
     ''findings'', ''failure_reason'', ''attempts'', ''provenance'', ''accepted'']"

fun short_str :: "pyval \<Rightarrow> bool" where
  "short_str (PStr s) = (length s \<le> max_text_chars)" | "short_str _ = False"

fun short_list :: "nat \<Rightarrow> (pyval \<Rightarrow> bool) \<Rightarrow> pyval \<Rightarrow> bool" where
  "short_list n p (PList vs) = (length vs \<le> n \<and> list_all p vs)" | "short_list _ _ _ = False"

definition payload_shape :: "pydict \<Rightarrow> bool" where
  "payload_shape raw \<longleftrightarrow>
     has_keys raw payload_fields
     \<and> list_all (\<lambda>k. is_bool (dget raw k)) [''parse_ok'', ''degraded'', ''diff_truncated'']
     \<and> list_all (\<lambda>k. short_str (dget raw k)) [''degraded_reason'', ''summary'', ''failure_reason'']
     \<and> short_list max_findings (\<lambda>_. True) (dget raw ''findings'')
     \<and> valid_payload (PDict [(''summary'', dget raw ''summary''), (''findings'', dget raw ''findings'')])
     \<and> short_list max_attempts attempt_shape (dget raw ''attempts'')
     \<and> is_dict (dget raw ''provenance'') \<and> null_or is_dict (dget raw ''accepted'')
     \<and> list_all (\<lambda>(k, v). scan_json (if k = ''findings'' then finding_forbidden else forbidden_fields) v) raw"

text \<open>\<open>CheckpointPayload.from_mapping(raw)\<close>: the stored text decodes to \<open>raw\<close> with its keys
  sorted. \<open>None\<close> where the source raises \<open>ValueError\<close>.\<close>

definition sorted_dict :: "pydict \<Rightarrow> pydict" where
  "sorted_dict d = sort_key fst (map (\<lambda>(k, v). (k, sorted_keys v)) d)"

definition from_mapping :: "pydict \<Rightarrow> pydict option" where
  "from_mapping raw =
     (if \<not> payload_shape raw then None
      else case dumps False (PDict raw) of None \<Rightarrow> None
        | Some text \<Rightarrow> if max_checkpoint_json_bytes < utf8_len text then None else Some (sorted_dict raw))"

text \<open>\<open>usable_payload(payload)\<close>: it validates the payload again, and raises if that fails. The
  tests \<open>is True\<close> and \<open>is False\<close> are of the booleans themselves.\<close>

definition usable_payload :: "pydict \<Rightarrow> bool option" where
  "usable_payload payload = map_option (\<lambda>value. dget value ''parse_ok'' = PBool True \<and> dget value ''degraded'' = PBool False
     \<and> dget value ''diff_truncated'' = PBool False \<and> \<not> truthy (dget value ''failure_reason'')) (from_mapping payload)"

subsection \<open>Properties\<close>

lemma differs_None [simp]: "differs n b rest = None \<longleftrightarrow> \<not> b \<and> rest = None"
  by (simp add: differs_def)

fun distinct_keys :: "pyval \<Rightarrow> bool" where
  "distinct_keys (PList vs) = list_all distinct_keys vs"
| "distinct_keys (PDict d) = (distinct (map fst d) \<and> list_all (\<lambda>(k, v). distinct_keys v) d)"
| "distinct_keys v = True"

lemma map_of_keys: "k \<in> set (map fst d) \<longleftrightarrow> map_of d k \<noteq> None"
  by (simp add: map_of_eq_None_iff)

text \<open>Sorting changes only containers.\<close>

fun atom :: "pyval \<Rightarrow> bool" where
  "atom (PList _) = False" | "atom (PDict _) = False" | "atom _ = True"

lemma sorted_keys_atom: "atom v \<Longrightarrow> sorted_keys w = v \<longleftrightarrow> w = v" "atom v \<Longrightarrow> v = sorted_keys w \<longleftrightarrow> w = v"
  by (cases w; auto)+

lemma sorted_keys_py_eq:
  "distinct_keys v \<Longrightarrow> distinct_keys w \<Longrightarrow> sorted_keys v = sorted_keys w \<Longrightarrow> py_eq v w"
proof (induction v w rule: py_eq.induct)
  case (1 d e)
  have look: "map_option sorted_keys (map_of d k) = map_option sorted_keys (map_of e k)" for k
    using 1(2-4) by (intro sorted_keys_lookup) simp_all
  have "k \<in> set (map fst d) \<longleftrightarrow> k \<in> set (map fst e)" for k
    using look [of k] unfolding map_of_keys by (metis option.map_disc_iff)
  then have keys: "set (map fst d) = set (map fst e)" by blast
  have "case map_of e k of None \<Rightarrow> False | Some u \<Rightarrow> py_eq v u" if "(k, v) \<in> set d" for k v
  proof -
    have dv: "map_of d k = Some v" using that 1(2) by simp
    with look [of k] obtain u where u: "map_of e k = Some u" "sorted_keys u = sorted_keys v"
      by (metis map_option_eq_Some option.simps(9))
    have "distinct_keys v" using that 1(2) by (auto simp: list_all_iff)
    moreover have "distinct_keys u" using map_of_SomeD [OF u(1)] 1(3) by (auto simp: list_all_iff)
    ultimately have "py_eq v u"
      using 1(1) [OF that refl u(1)] u(2) by simp
    with u show ?thesis by simp
  qed
  with keys show ?case by (auto simp: list_all_iff)
next
  case (2 vs ws)
  then have len: "length vs = length ws" and eq: "map sorted_keys vs = map sorted_keys ws"
    by (auto dest: map_eq_imp_length_eq)
  have "py_eq v w" if m: "(v, w) \<in> set (zip vs ws)" for v w
  proof -
    from m obtain i where "i < length vs" "v = vs ! i" "w = ws ! i" "i < length ws"
      by (auto simp: set_zip)
    then have "sorted_keys v = sorted_keys w" using eq by (metis nth_map)
    moreover have "distinct_keys v" "distinct_keys w"
      using 2(2,3) set_zip_leftD [OF m] set_zip_rightD [OF m] by (simp_all add: list_all_iff)
    ultimately show ?thesis using 2(1) [OF m refl] by simp
  qed
  with len show ?case by (auto simp: list_all_iff)
qed (simp_all, (simp add: sorted_keys_atom | metis sorted_keys_atom)+)

lemma opt_str_inj [simp]: "opt_str s = opt_str t \<longleftrightarrow> s = t"
  by (cases s; cases t) simp_all

lemma float_reprs_opt_str [simp]: "float_reprs (opt_str s)"
  by (cases s) simp_all

lemma sorted_opt_str [simp]: "sorted_keys (opt_str s) = opt_str s"
  by (cases s) simp_all

lemma kind_text_inj [simp]: "kind_text k = kind_text l \<longleftrightarrow> k = l"
  by (cases k; cases l) simp_all

lemma distinct_pass_dict: "distinct (map fst (pass_dict p))"
  by (simp add: pass_dict_def)

lemma pass_dict_inj:
  assumes "sorted_keys (PDict (pass_dict p)) = sorted_keys (PDict (pass_dict q))"
  shows "p = q"
proof -
  note look = sorted_keys_dget [OF assms distinct_pass_dict distinct_pass_dict]
  from look [of "''kind''"] look [of "''index''"] look [of "''prompt_hash''"] look [of "''diff_hash''"]
    look [of "''boundary_hash''"]
  show ?thesis by (simp add: pass_dict_def dget_def)
qed

lemma passes_inj: "map (\<lambda>p. sorted_keys (PDict (pass_dict p))) ps = map (\<lambda>p. sorted_keys (PDict (pass_dict p))) qs \<Longrightarrow> ps = qs"
  by (rule map_inj_on [where f = "\<lambda>p. sorted_keys (PDict (pass_dict p))"]) (auto intro!: inj_onI pass_dict_inj)

definition policy_clean :: "orch_identity \<Rightarrow> bool" where
  "policy_clean i \<longleftrightarrow> (case oi_policy i of None \<Rightarrow> True | Some p \<Rightarrow> distinct_keys (PDict p) \<and> float_reprs (PDict p))"

lemma distinct_identity_dict: "distinct (map fst (identity_dict i))"
  by (cases "oi_source i"; cases "oi_policy i") (simp_all add: identity_dict_def)

lemma identity_reprs: "policy_clean i \<Longrightarrow> float_reprs (PDict (identity_dict i))"
  by (cases "oi_source i"; cases "oi_policy i"; cases "oi_context_hash i"; cases "oi_checklist_hash i")
    (auto simp: identity_dict_def policy_clean_def pass_dict_def list_all_iff split: option.splits)

lemma identity_fields:
  "map_of (identity_dict i) ''repo_id'' = Some (PStr (oi_repo_id i))"
  "map_of (identity_dict i) ''worktree_root'' = Some (PStr (oi_worktree_root i))"
  "map_of (identity_dict i) ''branch'' = Some (PStr (oi_branch i))"
  "map_of (identity_dict i) ''head'' = Some (PStr (oi_head i))"
  "map_of (identity_dict i) ''base_ref'' = Some (PStr (oi_base_ref i))"
  "map_of (identity_dict i) ''base_sha'' = Some (PStr (oi_base_sha i))"
  "map_of (identity_dict i) ''diff_hash'' = Some (PStr (oi_diff_hash i))"
  "map_of (identity_dict i) ''tree_fingerprint'' = Some (PStr (oi_tree_fingerprint i))"
  "map_of (identity_dict i) ''reviewer_hash'' = Some (PStr (oi_reviewer_hash i))"
  "map_of (identity_dict i) ''config_hash'' = Some (PStr (oi_config_hash i))"
  "map_of (identity_dict i) ''policy_hash'' = Some (PStr (oi_policy_hash i))"
  "map_of (identity_dict i) ''planner_version'' = Some (PStr (oi_planner_version i))"
  "map_of (identity_dict i) ''boundary_digest'' = Some (PStr (oi_boundary_digest i))"
  "map_of (identity_dict i) ''integration_plan_digest'' = Some (PStr (oi_integration_plan_digest i))"
  "map_of (identity_dict i) ''context_hash'' = Some (opt_str (oi_context_hash i))"
  "map_of (identity_dict i) ''checklist_hash'' = Some (opt_str (oi_checklist_hash i))"
  "map_of (identity_dict i) ''batch_budget'' = Some (PInt (oi_batch_budget i))"
  "map_of (identity_dict i) ''batch_count'' = Some (PInt (oi_batch_count i))"
  "map_of (identity_dict i) ''pass_identities'' = Some (PList (map (\<lambda>p. PDict (pass_dict p)) (oi_passes i)))"
  "map_of (identity_dict i) ''continuation_source'' = map_option PStr (oi_source i)"
  "map_of (identity_dict i) ''planning_policy'' = map_option PDict (oi_policy i)"
  by (simp_all add: identity_dict_def split: option.split)

text \<open>  Two orchestrations with the same digest have the same content: for a hash
  without collisions, \<open>first_mismatch\<close> finds no field that differs, and they belong to the same
  generation. So resuming by digest never resumes a different diff, tree, checklist or policy.\<close>

theorem digest_identifies:
  assumes "inj H" "policy_clean i" "policy_clean j"
    and "identity_digest H i = Some t" "identity_digest H j = Some t"
  shows "first_mismatch digest i j = None \<and> oi_source i = oi_source j"
proof -
  let ?d = "PDict (identity_dict i)" and ?e = "PDict (identity_dict j)"
  from assms(4,5) obtain u where "dumps False ?d = Some u" "dumps False ?e = Some u"
    using injD [OF assms(1)] by (auto simp: identity_digest_def identity_json_def)
  with dumps_determines [OF identity_reprs [OF assms(2)] identity_reprs [OF assms(3)], of False u]
  have "sorted_keys ?d = sorted_keys ?e" by simp
  note look = sorted_keys_lookup [OF this distinct_identity_dict distinct_identity_dict]
  have "oi_passes i = oi_passes j"
    using look [of "''pass_identities''"] by (intro passes_inj) (simp add: identity_fields comp_def)
  moreover have "oi_source i = oi_source j"
    using look [of "''continuation_source''"]
    by (cases "oi_source i"; cases "oi_source j") (simp_all add: identity_fields)
  moreover have "py_eq (opt_dict (oi_policy i)) (opt_dict (oi_policy j))"
  proof (rule sorted_keys_py_eq)
    show "sorted_keys (opt_dict (oi_policy i)) = sorted_keys (opt_dict (oi_policy j))"
      using look [of "''planning_policy''"]
      by (cases "oi_policy i"; cases "oi_policy j") (simp_all add: identity_fields)
  qed (use assms(2,3) in \<open>auto simp: policy_clean_def split: option.splits\<close>)
  ultimately show ?thesis
    using look [of "''repo_id''"] look [of "''worktree_root''"] look [of "''branch''"] look [of "''head''"] look [of "''base_ref''"] look [of "''base_sha''"] look [of "''diff_hash''"] look [of "''tree_fingerprint''"] look [of "''reviewer_hash''"] look [of "''config_hash''"] look [of "''policy_hash''"] look [of "''planner_version''"] look [of "''boundary_digest''"] look [of "''integration_plan_digest''"]
      look [of "''context_hash''"] look [of "''checklist_hash''"] look [of "''batch_budget''"] look [of "''batch_count''"]
    by (simp add: identity_fields first_mismatch_def)
qed

subsubsection \<open>Sorting keeps what is validated\<close>

lemma sorted_keys_idem [simp]: "sorted_keys (sorted_keys v) = sorted_keys v"
proof (induction v rule: sorted_keys.induct)
  case (2 d)
  let ?m = "map (\<lambda>(k, v). (k, sorted_keys v)) d"
  have "map (\<lambda>(k, v). (k, sorted_keys v)) (sort_key fst ?m) = sort_key fst ?m"
    by (rule map_idI) (use 2 in \<open>force\<close>)
  then show ?case by (simp add: sort_key_id_if_sorted)
qed simp_all

lemma sorted_keys_dict: "sorted_keys (PDict d) = PDict (sorted_dict d)"
  by (simp add: sorted_dict_def)

lemma map_of_sorted_dict: "distinct (map fst d) \<Longrightarrow> map_of (sorted_dict d) k = map_option sorted_keys (map_of d k)"
proof -
  assume d: "distinct (map fst d)"
  have "map_of (sorted_dict d) = map_of (map (\<lambda>(k, v). (k, sorted_keys v)) d)"
    using d by (intro map_of_inject_set [THEN iffD2])
      (auto simp: sorted_dict_def comp_def case_prod_beta distinct_map inj_on_def)
  then show ?thesis by (simp add: map_of_map)
qed

lemma dget_sorted_dict: "distinct (map fst d) \<Longrightarrow> dget (sorted_dict d) k = sorted_keys (dget d k)"
  by (simp add: dget_def map_of_sorted_dict split: option.split)

lemma dhas_sorted_dict: "distinct (map fst d) \<Longrightarrow> dhas (sorted_dict d) k = dhas d k"
  by (simp add: dhas_def map_of_sorted_dict)

lemma keys_sorted_dict: "set (map fst (sorted_dict d)) = set (map fst d)"
  by (force simp: sorted_dict_def)

lemma distinct_sorted_dict: "distinct (map fst d) \<Longrightarrow> distinct (map fst (sorted_dict d))"
  by (force simp: sorted_dict_def distinct_map inj_on_def)

lemma distinct_keys_dget: "distinct_keys (PDict d) \<Longrightarrow> distinct_keys (dget d k)"
  by (cases "map_of d k") (auto simp: dget_def list_all_iff dest: map_of_SomeD)

lemma sort_key_Nil: "sort_key f xs = [] \<longleftrightarrow> xs = []"
  by (metis length_0_conv length_sort)

lemma sorted_keys_tests [simp]:
  "is_str (sorted_keys v) = is_str v" "is_bool (sorted_keys v) = is_bool v" "is_int (sorted_keys v) = is_int v"
  "is_dict (sorted_keys v) = is_dict v" "int_from lo (sorted_keys v) = int_from lo v"
  "nonempty_str (sorted_keys v) = nonempty_str v" "finite_nonneg (sorted_keys v) = finite_nonneg v"
  "short_str (sorted_keys v) = short_str v" "truthy (sorted_keys v) = truthy v"
  by (cases v; simp add: sort_key_Nil)+

lemma sorted_keys_is_atom [simp]:
  "sorted_keys v = PStr s \<longleftrightarrow> v = PStr s" "sorted_keys v = PNone \<longleftrightarrow> v = PNone" "sorted_keys v = PBool b \<longleftrightarrow> v = PBool b"
  by (cases v; simp)+

lemma null_or_sorted: "(p (sorted_keys v) = p v) \<Longrightarrow> null_or p (sorted_keys v) = null_or p v"
  by (simp add: null_or_def)

text \<open>A test of a dictionary is stable under sorting when it is a test of the values looked up.\<close>

definition stable :: "(pyval \<Rightarrow> bool) \<Rightarrow> bool" where
  "stable p \<longleftrightarrow> (\<forall>v. distinct_keys v \<longrightarrow> p (sorted_keys v) = p v)"

lemma stable_dget: "stable p \<Longrightarrow> distinct_keys (PDict d) \<Longrightarrow> p (dget (sorted_dict d) k) = p (dget d k)"
  using distinct_keys_dget [of d k] by (simp add: stable_def dget_sorted_dict)

lemma stable_list: "stable p \<Longrightarrow> distinct_keys (PList vs) \<Longrightarrow> list_all p (map sorted_keys vs) = list_all p vs"
  by (auto simp: stable_def list_all_iff)

lemma stable_simple: "stable is_str" "stable is_bool" "stable is_int" "stable is_dict" "stable (int_from lo)"
    "stable nonempty_str" "stable finite_nonneg" "stable short_str"
  by (simp_all add: stable_def)

lemma stable_null_or: "stable p \<Longrightarrow> stable (null_or p)"
  by (simp add: stable_def null_or_sorted)

lemma stable_is: "stable (\<lambda>v. v = PStr s)"
  by (simp add: stable_def)

lemma stable_dict:
  assumes "\<And>d. distinct_keys (PDict d) \<Longrightarrow> p (PDict (sorted_dict d)) = p (PDict d)"
    and "\<And>v. \<not> is_dict v \<Longrightarrow> \<not> p v"
  shows "stable p"
  unfolding stable_def
proof (intro allI impI)
  fix v :: pyval
  assume "distinct_keys v"
  then show "p (sorted_keys v) = p v"
  proof (cases v)
    case (PDict d)
    with assms(1) [of d] \<open>distinct_keys v\<close> show ?thesis by (simp add: sorted_dict_def)
  qed (simp_all add: assms(2))
qed

lemmas stable_gets = stable_simple [THEN stable_dget] stable_simple [THEN stable_null_or, THEN stable_dget]
  stable_is [THEN stable_dget]

lemma stable_classification: "stable classification_ok"
  by (rule stable_dict) (auto simp: classification_ok_def stable_gets split: pyval.splits)

lemma stable_attempt: "stable attempt_shape"
proof (rule stable_dict)
  fix d assume d: "distinct_keys (PDict d)"
  then have "dhas (sorted_dict d) k = dhas d k" for k
    by (simp add: dhas_sorted_dict)
  with d show "attempt_shape (PDict (sorted_dict d)) = attempt_shape (PDict d)"
    by (simp add: stable_gets stable_classification [THEN stable_null_or, THEN stable_dget])
next
  fix v assume "\<not> is_dict v" then show "\<not> attempt_shape v" by (cases v) simp_all
qed

lemma stable_finding: "stable valid_finding"
proof (rule stable_dict)
  fix d assume d: "distinct_keys (PDict d)"
  then have "dhas (sorted_dict d) k = dhas d k" for k
    by (simp add: dhas_sorted_dict)
  with d show "valid_finding (PDict (sorted_dict d)) = valid_finding (PDict d)"
    by (simp add: stable_gets)
next
  fix v assume "\<not> is_dict v" then show "\<not> valid_finding v" by (cases v) simp_all
qed

lemma stable_short_list: "stable p \<Longrightarrow> stable (short_list n p)"
  unfolding stable_def
proof (intro allI impI)
  fix v :: pyval
  assume "\<forall>v. distinct_keys v \<longrightarrow> p (sorted_keys v) = p v" "distinct_keys v"
  then show "short_list n p (sorted_keys v) = short_list n p v"
    by (cases v) (auto simp: list_all_iff)
qed

lemma scan_json_sorted: "scan_json f (sorted_keys v) = scan_json f v"
  by (induction f v rule: scan_json.induct) (force simp: list_all_iff)+

lemma finite_floats_sorted: "finite_floats (sorted_keys v) = finite_floats v"
  by (induction v rule: sorted_keys.induct) (force simp: list_all_iff)+

lemma stable_true: "stable (\<lambda>_. True)"
  by (simp add: stable_def)

lemma valid_payload_sorted:
  assumes "distinct_keys v" "distinct_keys w"
  shows "valid_payload (PDict [(''summary'', sorted_keys v), (''findings'', sorted_keys w)])
    = valid_payload (PDict [(''summary'', v), (''findings'', w)])"
  using assms stable_list [OF stable_finding, of "case w of PList vs \<Rightarrow> vs | _ \<Rightarrow> []"]
  by (cases w) (simp_all add: dget_def dhas_def)

lemma payload_shape_sorted:
  assumes "distinct_keys (PDict raw)"
  shows "payload_shape (sorted_dict raw) = payload_shape raw"
proof -
  have keys: "has_keys (sorted_dict raw) ks = has_keys raw ks" for ks
    by (simp only: has_keys_def keys_sorted_dict)
  have scan: "list_all (\<lambda>(k, v). scan_json (f k) v) (sorted_dict raw) = list_all (\<lambda>(k, v). scan_json (f k) v) raw" for f
    by (force simp: list_all_iff sorted_dict_def scan_json_sorted)
  have dgets: "dget (sorted_dict raw) k = sorted_keys (dget raw k)" "distinct_keys (dget raw k)" for k
    using assms distinct_keys_dget by (auto intro: dget_sorted_dict)
  have short: "short_list n p (sorted_keys (dget raw k)) = short_list n p (dget raw k)" if "stable p" for n p k
    using stable_short_list [OF that] dgets(2) by (simp add: stable_def)
  have null: "null_or is_dict (sorted_keys (dget raw k)) = null_or is_dict (dget raw k)" for k
    by (simp add: null_or_def)
  show ?thesis
    by (simp del: valid_payload.simps add: payload_shape_def keys scan dgets(1) valid_payload_sorted [OF dgets(2) dgets(2)] null
        short [OF stable_true] short [OF stable_attempt])
qed

lemma from_mapping_stable:
  assumes "distinct_keys (PDict raw)" "from_mapping raw = Some stored"
  shows "from_mapping stored = Some stored"
proof -
  from assms(2) obtain t where raw: "payload_shape raw" "dumps False (PDict raw) = Some t"
    "utf8_len t \<le> max_checkpoint_json_bytes" and st: "stored = sorted_dict raw"
    by (auto simp: from_mapping_def split: option.splits if_splits)
  have idem: "PDict (sorted_dict stored) = PDict stored"
    using sorted_keys_idem [of "PDict raw"] unfolding sorted_keys_dict st by simp
  have "finite_floats (PDict stored) = finite_floats (PDict raw)"
    using finite_floats_sorted [of "PDict raw"] unfolding sorted_keys_dict st .
  with raw idem have "dumps False (PDict stored) = Some t"
    by (auto simp del: sorted_keys.simps(2) simp: dumps_def sorted_keys_dict st split: if_splits)
  with raw idem show ?thesis
    by (simp add: from_mapping_def st payload_shape_sorted [OF assms(1)])
qed

text \<open>  The door is stable: what it stores passes it again, unchanged. So the second
  validation, when a checkpoint is completed or read back, never refuses or alters a stored
  pass.\<close>

theorem door_is_stable:
  assumes "distinct_keys (PDict raw)" "from_mapping raw = Some stored"
  shows "from_mapping stored = Some stored"
  using assms by (rule from_mapping_stable)

definition sample_pass :: pydict where
  "sample_pass = [(''summary'', PStr ''ok''), (''parse_ok'', PBool True), (''degraded'', PBool False),
     (''degraded_reason'', PStr []), (''stop_reason'', PNone), (''diff_truncated'', PBool False),
     (''findings'', PList [PDict [(''severity'', PStr ''low''), (''file'', PStr ''a.py''), (''title'', PStr ''t''),
        (''detail'', PStr ''d''), (''path'', PStr ''a.py'')]]),
     (''failure_reason'', PStr []), (''attempts'', PList []), (''provenance'', PDict [(''provider'', PStr ''xai'')]),
     (''accepted'', PNone)]"

lemma casefold_samples: "map casefold [''severity'', ''file'', ''title'', ''detail'', ''path'', ''provider'']
    = [''severity'', ''file'', ''title'', ''detail'', ''path'', ''provider'']"
  by code_simp

lemma sample_pass_stored: "from_mapping sample_pass = Some (sorted_dict sample_pass)"
proof -
  have "payload_shape sample_pass"
    using casefold_samples
    by (simp add: payload_shape_def sample_pass_def has_keys_def dget_def dhas_def null_or_def forbidden_fields_def
        finding_forbidden_def max_text_chars_def max_findings_def max_attempts_def insert_commute)
  moreover have "finite_floats (PDict sample_pass)"
      "utf8_len (emit False (sorted_keys (PDict sample_pass))) = 279"
    by code_simp+
  ultimately show ?thesis
    by (simp add: from_mapping_def dumps_def max_checkpoint_json_bytes_def)
qed

lemma door_is_stable_witness: "from_mapping (sorted_dict sample_pass) = Some (sorted_dict sample_pass)"
  by (rule door_is_stable [OF _ sample_pass_stored]) code_simp

text \<open>Every key of a value, at any depth.\<close>

fun deep_keys :: "pyval \<Rightarrow> string list" where
  "deep_keys (PDict d) = concat (map (\<lambda>(k, v). k # deep_keys v) d)"
| "deep_keys (PList vs) = concat (map deep_keys vs)"
| "deep_keys v = []"

lemma scan_deep_keys: "scan_json forbidden v \<Longrightarrow> f \<in> set (deep_keys v) \<Longrightarrow> casefold f \<notin> set forbidden"
  by (induction forbidden v rule: scan_json.induct) (fastforce simp: list_all_iff)+

text \<open> What is stored of a pass is bounded and holds no transcript: at no depth does
  a stored field have one of the forbidden names, in any case of letters (findings may name paths
  and commands), and the stored text is at most two mebibytes long.\<close>

theorem stored_pass_is_clean:
  assumes "from_mapping raw = Some stored"
  shows "(\<exists>t. dumps False (PDict stored) = Some t \<and> utf8_len t \<le> 2097152)
    \<and> list_all (\<lambda>(k, v). list_all
        (\<lambda>f. casefold f \<notin> set (if k = ''findings'' then finding_forbidden else forbidden_fields)) (deep_keys v)) stored"
proof -
  from assms obtain t where raw: "payload_shape raw" "dumps False (PDict raw) = Some t"
    "utf8_len t \<le> max_checkpoint_json_bytes" and st: "stored = sorted_dict raw"
    by (auto simp: from_mapping_def split: option.splits if_splits)
  have "dumps False (PDict stored) = dumps False (PDict raw)"
    using sorted_keys_idem [of "PDict raw"] finite_floats_sorted [of "PDict raw"]
    unfolding sorted_keys_dict st dumps_def by simp
  moreover have "scan_json (if k = ''findings'' then finding_forbidden else forbidden_fields) v"
    if "(k, v) \<in> set stored" for k v
  proof -
    from that obtain u where "(k, u) \<in> set raw" "v = sorted_keys u"
      by (auto simp: st sorted_dict_def)
    with raw(1) show ?thesis
      by (auto simp only: payload_shape_def list_all_iff scan_json_sorted split: prod.splits)
  qed
  ultimately show ?thesis
    using raw scan_deep_keys unfolding max_checkpoint_json_bytes_def list_all_iff by fastforce
qed

lemma stored_pass_is_clean_witness:
  "list_all (\<lambda>(k, v). list_all
     (\<lambda>f. casefold f \<notin> set (if k = ''findings'' then finding_forbidden else forbidden_fields)) (deep_keys v))
     (sorted_dict sample_pass)"
  using stored_pass_is_clean [OF sample_pass_stored] by blast

definition sample_identity :: "pydict \<Rightarrow> orch_identity" where
  "sample_identity policy = \<lparr>oi_repo_id = ''r'', oi_worktree_root = ''/w'', oi_branch = ''main'', oi_head = ''h'',
     oi_base_ref = ''origin/main'', oi_base_sha = ''b'', oi_diff_hash = ''d'', oi_tree_fingerprint = ''t'',
     oi_context_hash = None, oi_checklist_hash = Some ''c'', oi_reviewer_hash = ''rv'', oi_config_hash = ''cf'',
     oi_policy_hash = ''p'', oi_planner_version = ''v1'', oi_batch_budget = 1000, oi_batch_count = 1,
     oi_boundary_digest = ''bd'', oi_integration_plan_digest = ''i'',
     oi_passes = [\<lparr>pi_kind = Batch_pass, pi_index = 1, pi_prompt = Some ''ph'', pi_diff = ''d'', pi_boundary = ''bd''\<rparr>],
     oi_source = None, oi_policy = Some policy\<rparr>"

lemma digest_identifies_witness:
  "first_mismatch (\<lambda>_. []) (sample_identity [(''a'', PInt 1), (''b'', PInt 2)]) (sample_identity [(''b'', PInt 2), (''a'', PInt 1)]) = None"
proof -
  let ?i = "sample_identity [(''a'', PInt 1), (''b'', PInt 2)]" and ?j = "sample_identity [(''b'', PInt 2), (''a'', PInt 1)]"
  have "identity_digest id ?i = identity_digest id ?j" "identity_digest id ?i \<noteq> None"
    by code_simp+
  moreover have "policy_clean ?i" "policy_clean ?j" by code_simp+
  ultimately show ?thesis
    using digest_identifies [of id ?i ?j] by auto
qed

end
