(* ===== verification/Followups.thy ===== *)
theory Followups
  imports Checkpoints
begin

section \<open>Follow-ups: the evidence a security or skeptic pass is bound to\<close>

text \<open>
  Models \<open>followups.py\<close>: which table a pass lives in, the semantic part of a stored pass, the
  dependencies of a follow-up pass, its binding and the validation of a binding. The row of a
  checkpoint is declared here; it has the columns of both checkpoint tables. JSON columns hold
  the decoded value. The hash is the parameter \<open>H\<close>.
\<close>

subsection \<open>Rows of the checkpoint tables\<close>

datatype cp_state = Cp_pending | Cp_running | Cp_complete | Cp_failed

record pass_row =
  cp_orch :: string
  cp_kind :: pass_kind
  cp_index :: int
  cp_state :: cp_state
  cp_prompt :: "string option"
  cp_diff :: string
  cp_boundary :: string
  cp_payload :: "pydict option"
  cp_completed :: "string option"
  cp_token :: "string option"
  cp_fence :: nat
  cp_owner :: "string option"
  cp_claimed :: "string option"
  cp_lease :: "string option"
  cp_failure :: "string option"
  cp_binding :: "pydict option"
  cp_binding_hash :: "string option"
  cp_candidate :: "pydict option"
  cp_invalidation :: "string option"

text \<open>\<open>table_for(kind)\<close>; it raises for any other text.\<close>

datatype cp_table = Review_checkpoints | Followup_checkpoints

fun table_of :: "pass_kind \<Rightarrow> cp_table" where
  "table_of Security_pass = Followup_checkpoints"
| "table_of Skeptic_pass = Followup_checkpoints"
| "table_of Batch_pass = Review_checkpoints"
| "table_of Integration_pass = Review_checkpoints"

definition table_for :: "string \<Rightarrow> cp_table option" where
  "table_for kind = map_option table_of (kind_of kind)"

definition followup_kind :: "pass_kind \<Rightarrow> bool" where
  "followup_kind k \<longleftrightarrow> k \<in> {Security_pass, Skeptic_pass}"

definition max_binding_bytes :: nat where "max_binding_bytes = 262144"

subsection \<open>What a stored pass says\<close>

text \<open>\<open>usable(payload)\<close>: a truncated diff does not demote a follow-up.\<close>

definition followup_usable :: "pydict \<Rightarrow> bool" where
  "followup_usable value \<longleftrightarrow> dget value ''parse_ok'' = PBool True \<and> dget value ''degraded'' = PBool False
     \<and> \<not> truthy (dget value ''failure_reason'')"

definition picks :: "string list \<Rightarrow> pyval \<Rightarrow> pydict" where
  "picks ks v = map (\<lambda>k. (k, vget v k)) ks"

text \<open>The attempt whose execution provenance counts: the last that ran and recorded one.\<close>

fun ran_with_provenance :: "pyval \<Rightarrow> bool" where
  "ran_with_provenance (PDict a) = (\<not> dhas a ''skipped'' \<and> is_dict (dget a ''execution_provenance''))"
| "ran_with_provenance _ = False"

fun items_of :: "pyval \<Rightarrow> pyval list" where
  "items_of (PList vs) = vs" | "items_of _ = []"

definition semantic_payload :: "pydict \<Rightarrow> pydict" where
  "semantic_payload value =
     picks [''parse_ok'', ''degraded'', ''degraded_reason'', ''stop_reason'', ''diff_truncated'', ''summary'',
        ''findings'', ''failure_reason''] (PDict value)
     @ [(''actual'', PDict (picks [''provider'', ''model'', ''effort'', ''adapter_name'']
           (if truthy (dget value ''accepted'') then dget value ''accepted'' else dget value ''provenance''))),
        (''execution'',
           case filter ran_with_provenance (rev (items_of (dget value ''attempts''))) of [] \<Rightarrow> PNone
           | a # _ \<Rightarrow> PDict (picks [''adapter'', ''resolved'', ''version'', ''override_source'']
               (vget a ''execution_provenance'')))]"

subsection \<open>Bindings\<close>

text \<open>\<open>_digest\<close>: whether it returns.\<close>

definition hex_digest :: "nat list \<Rightarrow> pyval \<Rightarrow> bool" where
  "hex_digest lengths v = (case v of
     PStr s \<Rightarrow> length s \<in> set lengths \<and> s \<noteq> [] \<and> list_all (\<lambda>c. c \<in> set ''0123456789abcdef'') s
   | _ \<Rightarrow> False)"

definition decision_ok :: "pyval \<Rightarrow> bool" where
  "decision_ok v = (case v of
     PDict d \<Rightarrow> has_keys d [''scheduled'', ''required'', ''reason''] \<and> is_bool (dget d ''scheduled'')
       \<and> dget d ''required'' = dget d ''scheduled''
       \<and> dget d ''reason'' \<in> {PStr ''scheduled'', PStr ''policy_not_scheduled'', PStr ''aggregate_not_clean'', PStr ''preparation_failed''}
       \<and> dget d ''scheduled'' = PBool (dget d ''reason'' \<in> {PStr ''scheduled'', PStr ''preparation_failed''})
   | _ \<Rightarrow> False)"

definition dependency_ok :: "pyval \<Rightarrow> bool" where
  "dependency_ok v = (case v of
     PDict d \<Rightarrow> has_keys d [''pass_kind'', ''pass_index'', ''diff_hash'', ''boundary_hash'', ''prompt_hash'',
          ''output_hash'', ''binding_hash'', ''provenance_known'']
       \<and> dget d ''pass_kind'' \<in> {PStr ''batch'', PStr ''integration'', PStr ''security''}
       \<and> (if dget d ''pass_kind'' = PStr ''batch'' then int_from 1 (dget d ''pass_index'') else dget d ''pass_index'' = PInt 0)
       \<and> is_bool (dget d ''provenance_known'')
       \<and> hex_digest [40, 64] (dget d ''diff_hash'') \<and> hex_digest [64] (dget d ''boundary_hash'')
       \<and> null_or (hex_digest [40, 64]) (dget d ''prompt_hash'') \<and> hex_digest [64] (dget d ''output_hash'')
       \<and> null_or (hex_digest [64]) (dget d ''binding_hash'')
   | _ \<Rightarrow> False)"

definition dependency_key :: "pyval \<Rightarrow> pyval \<times> pyval" where
  "dependency_key v = (vget v ''pass_kind'', vget v ''pass_index'')"

definition prompt_ok :: "pyval \<Rightarrow> pyval \<Rightarrow> bool" where
  "prompt_ok decision prompt =
     (case prompt of
        PNone \<Rightarrow> vget decision ''scheduled'' = PBool False \<or> vget decision ''reason'' = PStr ''preparation_failed''
      | PDict p \<Rightarrow> has_keys p [''hash'', ''bytes'', ''diff_truncated''] \<and> hex_digest [40, 64] (dget p ''hash'')
          \<and> int_from 0 (dget p ''bytes'') \<and> is_bool (dget p ''diff_truncated'')
          \<and> vget decision ''scheduled'' = PBool True
      | _ \<Rightarrow> False)"

definition binding_shape :: "pydict \<Rightarrow> bool" where
  "binding_shape body \<longleftrightarrow>
     has_keys body [''version'', ''kind'', ''content_hash'', ''dependencies'', ''aggregate_hash'', ''decision'', ''prompt_identity'']
     \<and> dget body ''version'' = PStr ''followup-input/v1''
     \<and> dget body ''kind'' \<in> {PStr ''security'', PStr ''skeptic''}
     \<and> decision_ok (dget body ''decision'')
     \<and> hex_digest [64] (dget body ''content_hash'') \<and> hex_digest [64] (dget body ''aggregate_hash'')
     \<and> short_list 10000 dependency_ok (dget body ''dependencies'')
     \<and> distinct (map dependency_key (items_of (dget body ''dependencies'')))
     \<and> prompt_ok (dget body ''decision'') (dget body ''prompt_identity'')
     \<and> scan_json forbidden_fields (PDict body)"

text \<open>\<open>validate_binding(body)\<close>: the body as its text decodes, or \<open>None\<close> where the source raises.
  The bound is on ASCII text. \<open>decode_binding\<close> reads a stored one, none of which is longer.\<close>

definition validate_binding :: "pydict \<Rightarrow> pydict option" where
  "validate_binding body =
     (if \<not> binding_shape body then None
      else case dumps True (PDict body) of None \<Rightarrow> None
        | Some t \<Rightarrow> if max_binding_bytes < length t then None else Some (sorted_dict body))"

definition decode_binding :: "pydict option \<Rightarrow> pydict option" where
  "decode_binding stored = Option.bind stored validate_binding"

definition scheduled :: "pydict \<Rightarrow> bool" where
  "scheduled body \<longleftrightarrow> vget (dget body ''decision'') ''scheduled'' = PBool True"

text \<open>\<open>dependencies(rows, kind)\<close>: one entry for each pass a follow-up of this kind rests on.\<close>

fun omap :: "('a \<Rightarrow> 'b option) \<Rightarrow> 'a list \<Rightarrow> 'b list option" where
  "omap f [] = Some []"
| "omap f (x # xs) = (case f x of None \<Rightarrow> None | Some y \<Rightarrow> map_option (\<lambda>ys. y # ys) (omap f xs))"

definition provenance_known :: "pass_row \<Rightarrow> bool option" where
  "provenance_known row =
     (case cp_payload row of
        Some p \<Rightarrow> Some (truthy (vget (dget (semantic_payload p) ''actual'') ''provider''))
      | None \<Rightarrow> if cp_kind row = Security_pass \<and> cp_binding row \<noteq> None
          then map_option (\<lambda>body. \<not> scheduled body) (decode_binding (cp_binding row)) else Some False)"

definition dependency :: "(string \<Rightarrow> string) \<Rightarrow> pass_row \<Rightarrow> pyval option" where
  "dependency H row =
     (case canonical_digest H (case cp_payload row of None \<Rightarrow> PNone | Some p \<Rightarrow> PDict (semantic_payload p)) of
        None \<Rightarrow> None
      | Some out \<Rightarrow> map_option (\<lambda>known. PDict
          [(''pass_kind'', PStr (kind_text (cp_kind row))), (''pass_index'', PInt (cp_index row)),
           (''diff_hash'', PStr (cp_diff row)), (''boundary_hash'', PStr (cp_boundary row)),
           (''prompt_hash'', opt_str (cp_prompt row)), (''output_hash'', PStr out),
           (''binding_hash'', opt_str (cp_binding_hash row)), (''provenance_known'', PBool known)])
          (provenance_known row))"

definition rests_on :: "pass_kind \<Rightarrow> pass_row \<Rightarrow> bool" where
  "rests_on kind row \<longleftrightarrow> cp_kind row \<noteq> Skeptic_pass \<and> \<not> (cp_kind row = Security_pass \<and> kind = Security_pass)"

definition dependencies :: "(string \<Rightarrow> string) \<Rightarrow> pass_row list \<Rightarrow> pass_kind \<Rightarrow> pyval list option" where
  "dependencies H rows kind = omap (dependency H) (filter (rests_on kind) rows)"

text \<open>\<open>asdict(identity)\<close> less the generation: the content a binding is about.\<close>

definition content_dict :: "orch_identity \<Rightarrow> pydict" where
  "content_dict i = identity_dict (i\<lparr>oi_source := None, oi_policy := None\<rparr>) @ [(''planning_policy'', opt_dict (oi_policy i))]"

definition build_binding ::
    "(string \<Rightarrow> string) \<Rightarrow> orch_identity \<Rightarrow> pass_kind \<Rightarrow> pass_row list \<Rightarrow> pydict \<Rightarrow> bool \<Rightarrow> string \<Rightarrow> pyval \<Rightarrow> pydict option" where
  "build_binding H i kind rows aggregate sched reason prompt =
     (case (canonical_digest H (PDict (content_dict i)), dependencies H rows kind,
            canonical_digest H (PDict (picks [''parse_ok'', ''degraded'', ''diff_truncated'', ''findings_total'', ''findings''] (PDict aggregate)))) of
        (Some content, Some deps, Some agg) \<Rightarrow> validate_binding
          [(''version'', PStr ''followup-input/v1''), (''kind'', PStr (kind_text kind)), (''content_hash'', PStr content),
           (''dependencies'', PList deps), (''aggregate_hash'', PStr agg),
           (''decision'', PDict [(''scheduled'', PBool sched), (''required'', PBool sched), (''reason'', PStr reason)]),
           (''prompt_identity'', prompt)]
      | _ \<Rightarrow> None)"

definition binding_mismatch :: "pydict \<Rightarrow> pydict \<Rightarrow> string" where
  "binding_mismatch old new =
     (if \<not> py_eq (dget old ''dependencies'') (dget new ''dependencies'') then ''followup_upstream_changed''
      else if \<not> py_eq (dget old ''decision'') (dget new ''decision'') then ''followup_schedule_changed''
      else if \<not> py_eq (dget old ''prompt_identity'') (dget new ''prompt_identity'') then ''followup_prompt_changed''
      else ''followup_upstream_changed'')"

end
