(* ===== verification/Orchestrations.thy ===== *)
theory Orchestrations
  imports Followups Timestamps
begin

section \<open>Orchestrations: resumable batched reviews and their fenced claims\<close>

text \<open>
  Models the tables \<open>review_orchestrations\<close>, \<open>review_checkpoints\<close> and
  \<open>review_followup_checkpoints\<close> of \<open>store.py\<close> and the operations on them: creating an
  orchestration, claiming, completing and releasing one of its passes, recording a mismatch,
  expiry, and the checks of \<open>followup_store.py\<close> a claim of a follow-up goes through. The two
  checkpoint tables hold disjoint kinds of pass (\<open>table_for\<close>), so they are one list here. The
  columns an orchestration copies from its identity are read from the identity; no operation
  writes them. A claim's token (\<open>ids.new_review_id\<close>) is an argument. Every operation is one
  transaction: a raise leaves both tables as they were.
\<close>

subsection \<open>Rows and state\<close>

datatype or_state = Or_active | Or_complete | Or_cancelled | Or_failed | Or_expired | Or_consumed

definition resumable :: "or_state \<Rightarrow> bool" where
  "resumable s \<longleftrightarrow> s \<in> {Or_active, Or_cancelled, Or_failed, Or_complete}"

record orch_row =
  or_id :: string
  or_state :: or_state
  or_mode :: string
  or_created :: string
  or_updated :: string
  or_expires :: string
  or_final :: "string option"
  or_identity :: orch_identity
  or_digest :: string
  or_reason :: "string option"
  or_mismatch :: "string option"

record orch_db =
  db_orchs :: "orch_row list"
  db_passes :: "pass_row list"

datatype orch_error =
    Blank_field | Too_long | Bad_timestamp | Bad_lease | Bad_index
  | Duplicate_passes | Duplicate_id | Not_json
  | Missing_orchestration | Not_resumable | Not_planned | Diff_mismatch | Boundary_mismatch
  | Prompt_missing | Prompt_mismatch | Unknown_kind | Bad_payload
  | Binding_mismatch | Not_scheduled | Bad_binding | Identity_corrupt | Content_changed
  | Plan_changed | Upstream_changed | Missing_followup

text \<open>\<open>_require_text\<close>, \<open>_checkpoint_text\<close> and \<open>_require_ts\<close> on text.\<close>

definition text_arg :: "string \<Rightarrow> orch_error + string" where
  "text_arg s = (if strip s = [] then Inl Blank_field else Inr (strip s))"

definition checkpoint_text :: "string \<Rightarrow> orch_error + string" where
  "checkpoint_text s = ebind (text_arg s) (\<lambda>t. if 4096 < length t then Inl Too_long else Inr t)"

definition ts_arg :: "string \<Rightarrow> orch_error + string" where
  "ts_arg s = (if is_canonical_ts (PStr s) then Inr s else Inl Bad_timestamp)"

abbreviation orch_find :: "string \<Rightarrow> orch_db \<Rightarrow> orch_row option" where
  "orch_find oid db \<equiv> tbl_find or_id oid (db_orchs db)"

definition orch_update :: "(orch_row \<Rightarrow> bool) \<Rightarrow> (orch_row \<Rightarrow> orch_row) \<Rightarrow> orch_db \<Rightarrow> orch_db" where
  "orch_update p f db = db\<lparr>db_orchs := tbl_update p f (db_orchs db)\<rparr>"

text \<open>One pass of an orchestration: the primary key of the checkpoint tables.\<close>

definition the_pass :: "string \<Rightarrow> pass_kind \<Rightarrow> int \<Rightarrow> pass_row \<Rightarrow> bool" where
  "the_pass oid k i r \<longleftrightarrow> cp_orch r = oid \<and> cp_kind r = k \<and> cp_index r = i"

definition pass_find :: "string \<Rightarrow> pass_kind \<Rightarrow> int \<Rightarrow> orch_db \<Rightarrow> pass_row option" where
  "pass_find oid k i db = find (the_pass oid k i) (db_passes db)"

definition pass_update :: "(pass_row \<Rightarrow> bool) \<Rightarrow> (pass_row \<Rightarrow> pass_row) \<Rightarrow> orch_db \<Rightarrow> orch_db" where
  "pass_update p f db = db\<lparr>db_passes := tbl_update p f (db_passes db)\<rparr>"

subsection \<open>Creation\<close>

text \<open>Both primary keys are checked on insertion, and the index of a follow-up, which the schema fixes at 0.\<close>

definition pending_pass :: "string \<Rightarrow> pass_identity \<Rightarrow> pass_row" where
  "pending_pass oid p = \<lparr>cp_orch = oid, cp_kind = pi_kind p, cp_index = pi_index p, cp_state = Cp_pending,
     cp_prompt = pi_prompt p, cp_diff = pi_diff p, cp_boundary = pi_boundary p, cp_payload = None,
     cp_completed = None, cp_token = None, cp_fence = 0, cp_owner = None, cp_claimed = None, cp_lease = None,
     cp_failure = None, cp_binding = None, cp_binding_hash = None, cp_candidate = None, cp_invalidation = None\<rparr>"

definition insert_orchestration ::
    "(string \<Rightarrow> string) \<Rightarrow> string \<Rightarrow> orch_identity \<Rightarrow> string \<Rightarrow> string \<Rightarrow> string \<Rightarrow> orch_db \<Rightarrow> orch_error + orch_db" where
  "insert_orchestration H oid i mode created expires db =
     (case identity_digest H i of None \<Rightarrow> Inl Not_json
      | Some dg \<Rightarrow>
          if orch_find oid db \<noteq> None then Inl Duplicate_id
          else if \<not> distinct (map (\<lambda>p. (pi_kind p, pi_index p)) (oi_passes i)) then Inl Duplicate_passes
          else if list_ex (\<lambda>p. followup_kind (pi_kind p) \<and> pi_index p \<noteq> 0) (oi_passes i) then Inl Bad_index
          else Inr \<lparr>db_orchs = db_orchs db @ [\<lparr>or_id = oid, or_state = Or_active, or_mode = mode, or_created = created,
                 or_updated = created, or_expires = expires, or_final = None, or_identity = i, or_digest = dg,
                 or_reason = None, or_mismatch = None\<rparr>],
               db_passes = db_passes db @ map (pending_pass oid) (oi_passes i)\<rparr>)"

text \<open>The ids a live generation continues: \<open>continuation_source\<close> of the unexpired rows.\<close>

definition superseded :: "orch_db \<Rightarrow> string set" where
  "superseded db = set (List.map_filter (\<lambda>r. if or_state r = Or_expired then None else oi_source (or_identity r)) (db_orchs db))"

text \<open>\<open>ORDER BY created_at DESC, id DESC LIMIT 1\<close>.\<close>

definition newer :: "orch_row \<Rightarrow> orch_row \<Rightarrow> bool" where
  "newer r s \<longleftrightarrow> or_created s < or_created r \<or> or_created r = or_created s \<and> or_id s < or_id r"

fun newest :: "orch_row list \<Rightarrow> orch_row option" where
  "newest [] = None"
| "newest (r # rs) = (case newest rs of None \<Rightarrow> Some r | Some s \<Rightarrow> Some (if newer s r then s else r))"

definition open_rows :: "orch_db \<Rightarrow> orch_row list" where
  "open_rows db = filter (\<lambda>r. resumable (or_state r) \<and> or_id r \<notin> superseded db) (db_orchs db)"

definition create_orchestration ::
    "(string \<Rightarrow> string) \<Rightarrow> string \<Rightarrow> orch_identity \<Rightarrow> string \<Rightarrow> string \<Rightarrow> string \<Rightarrow> bool \<Rightarrow> orch_db
      \<Rightarrow> orch_error + orch_row \<times> orch_db" where
  "create_orchestration H oid i mode created expires reuse db =
     ebind (text_arg oid) (\<lambda>oid. ebind (text_arg mode) (\<lambda>mode.
     ebind (ts_arg created) (\<lambda>created. ebind (ts_arg expires) (\<lambda>expires.
       if expires \<le> created then Inl Bad_lease
       else if \<not> distinct (map (\<lambda>p. (pi_kind p, pi_index p)) (oi_passes i)) then Inl Duplicate_passes
       else case (if reuse then newest (filter (\<lambda>r. Some (or_digest r) = identity_digest H i) (open_rows db)) else None) of
           Some r \<Rightarrow> Inr (r, db)
         | None \<Rightarrow> ebind (insert_orchestration H oid i mode created expires db) (\<lambda>db'.
             case orch_find oid db' of Some r \<Rightarrow> Inr (r, db') | None \<Rightarrow> Inl Missing_orchestration)))))"

definition get_orchestration :: "string \<Rightarrow> orch_db \<Rightarrow> orch_error + orch_row option" where
  "get_orchestration oid db = ebind (text_arg oid) (\<lambda>oid. Inr (orch_find oid db))"

text \<open>\<open>find_resume_candidate\<close> without consumed work.\<close>

definition find_resume_candidate :: "string \<Rightarrow> string \<Rightarrow> string \<Rightarrow> orch_db \<Rightarrow> orch_error + orch_row option" where
  "find_resume_candidate repo root branch db =
     ebind (text_arg repo) (\<lambda>repo. ebind (text_arg root) (\<lambda>root. ebind (text_arg branch) (\<lambda>branch.
       Inr (newest (filter (\<lambda>r. oi_repo_id (or_identity r) = repo \<and> oi_worktree_root (or_identity r) = root
          \<and> oi_branch (or_identity r) = branch) (open_rows db))))))"

definition record_orchestration_mismatch :: "string \<Rightarrow> string \<Rightarrow> string \<Rightarrow> orch_db \<Rightarrow> orch_error + bool \<times> orch_db" where
  "record_orchestration_mismatch oid field at db =
     ebind (text_arg oid) (\<lambda>oid. ebind (checkpoint_text field) (\<lambda>field. ebind (ts_arg at) (\<lambda>at.
       let hit = (\<lambda>r. or_id r = oid \<and> or_state r \<noteq> Or_consumed) in
       Inr (length (filter hit (db_orchs db)) = 1,
            orch_update hit (\<lambda>r. r\<lparr>or_mismatch := Some field, or_updated := at\<rparr>) db))))"

text \<open>\<open>list_checkpoints\<close>: batches by index, then the integration pass, then the follow-ups.\<close>

definition pass_order :: "pass_row \<Rightarrow> nat \<times> int" where
  "pass_order r = (case cp_kind r of Batch_pass \<Rightarrow> 0 | Integration_pass \<Rightarrow> 1 | Security_pass \<Rightarrow> 2 | Skeptic_pass \<Rightarrow> 3, cp_index r)"

definition list_checkpoints :: "string \<Rightarrow> orch_db \<Rightarrow> pass_row list" where
  "list_checkpoints oid db =
     sort_key (\<lambda>r. fst (pass_order r)) (sort_key (\<lambda>r. snd (pass_order r)) (filter (\<lambda>r. cp_orch r = oid) (db_passes db)))"

subsection \<open>Bindings against the tables\<close>

text \<open>\<open>_validate_followup_binding\<close>: the binding still describes the passes as they are stored.\<close>

definition validate_followup_binding :: "(string \<Rightarrow> string) \<Rightarrow> string \<Rightarrow> pydict \<Rightarrow> orch_db \<Rightarrow> orch_error + pydict" where
  "validate_followup_binding H oid raw db =
     (case validate_binding raw of None \<Rightarrow> Inl Bad_binding
      | Some body \<Rightarrow>
        (case orch_find oid db of None \<Rightarrow> Inl Missing_orchestration
         | Some orch \<Rightarrow>
             let i = or_identity orch; rows = list_checkpoints oid db in
             if identity_digest H i \<noteq> Some (or_digest orch) then Inl Identity_corrupt
             else if Some (dget body ''content_hash'') \<noteq> map_option PStr (canonical_digest H (PDict (content_dict i)))
               then Inl Content_changed
             else if set (map (\<lambda>r. (cp_kind r, cp_index r)) rows) \<noteq> set (map (\<lambda>p. (pi_kind p, pi_index p)) (oi_passes i))
               then Inl Plan_changed
             else (case (find (\<lambda>p. PStr (kind_text (pi_kind p)) = dget body ''kind'') (oi_passes i),
                         find (\<lambda>r. PStr (kind_text (cp_kind r)) = dget body ''kind'') rows) of
                 (Some p, Some r) \<Rightarrow>
                   if cp_diff r \<noteq> pi_diff p \<or> cp_boundary r \<noteq> pi_boundary p then Inl Plan_changed
                   else (case dependencies H rows (cp_kind r) of None \<Rightarrow> Inl Bad_binding
                     | Some deps \<Rightarrow>
                         if py_eq (dget body ''dependencies'') (PList deps) then Inr body else Inl Upstream_changed)
               | _ \<Rightarrow> Inl Plan_changed)))"

definition require_followup_claim_binding ::
    "(string \<Rightarrow> string) \<Rightarrow> string \<Rightarrow> pass_row \<Rightarrow> string option \<Rightarrow> orch_db \<Rightarrow> orch_error + unit" where
  "require_followup_claim_binding H oid row binding_hash db =
     (if binding_hash = None \<or> binding_hash \<noteq> cp_binding_hash row then Inl Binding_mismatch
      else case decode_binding (cp_binding row) of None \<Rightarrow> Inl Bad_binding
      | Some body \<Rightarrow>
          if canonical_digest H (PDict body) \<noteq> binding_hash \<or> \<not> scheduled body then Inl Not_scheduled
          else ebind (validate_followup_binding H oid body db) (\<lambda>_. Inr ()))"

subsection \<open>Claims\<close>

datatype claim = Already_complete pass_row | In_flight pass_row | Claimed pass_row

text \<open>The checks of \<open>claim_checkpoint\<close> before it decides: the planned row of the pass.\<close>

definition planned_row ::
    "(string \<Rightarrow> string) \<Rightarrow> string \<Rightarrow> pass_identity \<Rightarrow> string option \<Rightarrow> orch_db \<Rightarrow> orch_error + pass_row" where
  "planned_row H oid p binding_hash db =
     (case orch_find oid db of None \<Rightarrow> Inl Missing_orchestration
      | Some orch \<Rightarrow>
          if \<not> resumable (or_state orch) then Inl Not_resumable
          else (case pass_find oid (pi_kind p) (pi_index p) db of None \<Rightarrow> Inl Not_planned
            | Some r \<Rightarrow>
                if cp_diff r \<noteq> pi_diff p then Inl Diff_mismatch
                else if cp_boundary r \<noteq> pi_boundary p then Inl Boundary_mismatch
                else ebind (if followup_kind (pi_kind p) then require_followup_claim_binding H oid r binding_hash db else Inr ())
                  (\<lambda>_. if cp_prompt r = None \<and> pi_kind p = Batch_pass then Inl Prompt_missing
                       else if cp_prompt r \<noteq> None \<and> cp_prompt r \<noteq> pi_prompt p then Inl Prompt_mismatch
                       else Inr r)))"

definition lease_live :: "string \<Rightarrow> pass_row \<Rightarrow> bool" where
  "lease_live now r \<longleftrightarrow> cp_state r = Cp_running
     \<and> (case cp_lease r of None \<Rightarrow> False | Some l \<Rightarrow> is_canonical_ts (PStr l) \<and> now < l)"

definition claimed_row :: "string \<Rightarrow> string \<Rightarrow> string \<Rightarrow> string \<Rightarrow> pass_row \<Rightarrow> pass_row" where
  "claimed_row token owner now lease r = r\<lparr>cp_state := Cp_running, cp_token := Some token, cp_fence := Suc (cp_fence r),
     cp_owner := Some owner, cp_claimed := Some now, cp_lease := Some lease, cp_failure := None\<rparr>"

definition claim_checkpoint ::
    "(string \<Rightarrow> string) \<Rightarrow> string \<Rightarrow> string \<Rightarrow> pass_identity \<Rightarrow> string \<Rightarrow> string \<Rightarrow> string \<Rightarrow> string option \<Rightarrow> orch_db
      \<Rightarrow> orch_error + claim \<times> orch_db" where
  "claim_checkpoint H token oid p owner now lease binding_hash db =
     ebind (text_arg oid) (\<lambda>oid. ebind (checkpoint_text owner) (\<lambda>owner. ebind (ts_arg now) (\<lambda>now. ebind (ts_arg lease) (\<lambda>lease.
       if lease \<le> now then Inl Bad_lease
       else ebind (planned_row H oid p binding_hash db) (\<lambda>r.
         let hit = the_pass oid (pi_kind p) (pi_index p);
             db = (if cp_prompt r = None then pass_update hit (\<lambda>r. r\<lparr>cp_prompt := pi_prompt p\<rparr>) db else db) in
         if cp_state r = Cp_complete then Inr (Already_complete r, db)
         else if lease_live now r then Inr (In_flight r, db)
         else Inr (Claimed (claimed_row token owner now lease (r\<lparr>cp_prompt := pi_prompt p\<rparr>)),
           orch_update (\<lambda>q. or_id q = oid)
             (\<lambda>q. q\<lparr>or_state := Or_active, or_updated := now,
                or_expires := (if or_expires q < lease then lease else or_expires q)\<rparr>)
             (pass_update hit (claimed_row token owner now lease) db)))))))"

definition held_by :: "string \<Rightarrow> string \<Rightarrow> nat \<Rightarrow> pass_row \<Rightarrow> bool" where
  "held_by owner token fence r \<longleftrightarrow> cp_state r = Cp_running \<and> cp_owner r = Some owner \<and> cp_token r = Some token \<and> cp_fence r = fence"

definition unclaimed :: "pass_row \<Rightarrow> pass_row" where
  "unclaimed r = r\<lparr>cp_token := None, cp_owner := None, cp_claimed := None, cp_lease := None\<rparr>"

text \<open>The fenced update \<open>complete_checkpoint\<close> and \<open>release_checkpoint\<close> share, and whether it
  found its row.\<close>

definition fenced_update ::
    "string \<Rightarrow> pass_kind \<Rightarrow> int \<Rightarrow> string \<Rightarrow> string \<Rightarrow> nat \<Rightarrow> (pass_row \<Rightarrow> pass_row) \<Rightarrow> string \<Rightarrow> orch_db \<Rightarrow> bool \<times> orch_db" where
  "fenced_update oid k i owner token fence f at db =
     (let hit = (\<lambda>r. the_pass oid k i r \<and> held_by owner token fence r) in
      if length (filter hit (db_passes db)) = 1
      then (True, orch_update (\<lambda>q. or_id q = oid) (\<lambda>q. q\<lparr>or_updated := at\<rparr>) (pass_update hit f db))
      else (False, pass_update hit f db))"

definition pass_args :: "string \<Rightarrow> string \<Rightarrow> int \<Rightarrow> string \<Rightarrow> string \<Rightarrow> int \<Rightarrow> orch_error + string \<times> string \<times> string \<times> string" where
  "pass_args oid kind i owner token fence =
     ebind (text_arg oid) (\<lambda>oid. ebind (text_arg kind) (\<lambda>kind. ebind (guard (0 \<le> i) Bad_index) (\<lambda>_.
     ebind (checkpoint_text owner) (\<lambda>owner. ebind (text_arg token) (\<lambda>token. ebind (guard (0 \<le> fence) Bad_index) (\<lambda>_.
       Inr (oid, kind, owner, token)))))))"

definition complete_checkpoint ::
    "(string \<Rightarrow> string) \<Rightarrow> string \<Rightarrow> string \<Rightarrow> int \<Rightarrow> string \<Rightarrow> string \<Rightarrow> int \<Rightarrow> pydict \<Rightarrow> string \<Rightarrow> string option \<Rightarrow> orch_db
      \<Rightarrow> orch_error + bool \<times> orch_db" where
  "complete_checkpoint H oid kind i owner token fence payload completed_at binding_hash db =
     ebind (pass_args oid kind i owner token fence) (\<lambda>(oid, kind, owner, token).
     ebind (ts_arg completed_at) (\<lambda>completed_at.
       case from_mapping payload of None \<Rightarrow> Inl Bad_payload
       | Some stored \<Rightarrow>
         (case kind_of kind of None \<Rightarrow> Inl Unknown_kind
          | Some k \<Rightarrow>
              ebind (if followup_kind k
                 then (case find (\<lambda>r. cp_orch r = oid \<and> cp_kind r = k) (db_passes db) of None \<Rightarrow> Inl Missing_followup
                   | Some r \<Rightarrow> require_followup_claim_binding H oid r binding_hash db) else Inr ())
                (\<lambda>_. Inr (fenced_update oid k i owner token (nat fence)
                   (\<lambda>r. unclaimed (r\<lparr>cp_state := Cp_complete, cp_payload := Some stored, cp_completed := Some completed_at,
                      cp_failure := None\<rparr>)) completed_at db)))))"

definition release_checkpoint ::
    "string \<Rightarrow> string \<Rightarrow> int \<Rightarrow> string \<Rightarrow> string \<Rightarrow> int \<Rightarrow> string \<Rightarrow> string \<Rightarrow> orch_db \<Rightarrow> orch_error + bool \<times> orch_db" where
  "release_checkpoint oid kind i owner token fence reason at db =
     ebind (pass_args oid kind i owner token fence) (\<lambda>(oid, kind, owner, token).
     ebind (checkpoint_text reason) (\<lambda>reason. ebind (ts_arg at) (\<lambda>at.
       case kind_of kind of None \<Rightarrow> Inl Unknown_kind
       | Some k \<Rightarrow> Inr (fenced_update oid k i owner token (nat fence)
           (\<lambda>r. unclaimed (r\<lparr>cp_state := Cp_pending, cp_failure := Some reason\<rparr>)) at db))))"

subsection \<open>Expiry and publication\<close>

definition expire_orchestrations :: "string \<Rightarrow> orch_db \<Rightarrow> orch_error + nat \<times> orch_db" where
  "expire_orchestrations now db =
     ebind (ts_arg now) (\<lambda>now.
       let due = (\<lambda>q. resumable (or_state q) \<and> or_expires q \<le> now);
           db' = orch_update due (\<lambda>q. q\<lparr>or_state := Or_expired, or_updated := now,
                   or_reason := Some ''checkpoint retention expired''\<rparr>) db;
           gone = or_id ` set (filter (\<lambda>q. or_state q = Or_expired \<and> or_expires q \<le> now) (db_orchs db')) in
       Inr (length (filter due (db_orchs db)),
         pass_update (\<lambda>r. cp_orch r \<in> gone)
           (\<lambda>r. if followup_kind (cp_kind r) then r\<lparr>cp_payload := None, cp_candidate := None\<rparr> else r\<lparr>cp_payload := None\<rparr>) db'))"

text \<open>\<open>_require_complete_orchestration\<close> counts the rows of \<open>review_checkpoints\<close> only.\<close>

definition require_complete :: "string \<Rightarrow> string \<Rightarrow> orch_db \<Rightarrow> orch_error + unit" where
  "require_complete oid dg db =
     (case orch_find oid db of None \<Rightarrow> Inl Missing_orchestration
      | Some orch \<Rightarrow>
          if or_digest orch \<noteq> dg then Inl Identity_corrupt
          else if \<not> resumable (or_state orch) then Inl Not_resumable
          else let mine = filter (\<lambda>r. cp_orch r = oid \<and> \<not> followup_kind (cp_kind r)) (db_passes db) in
            if mine = [] \<or> length (filter (\<lambda>r. cp_state r = Cp_complete) mine) \<noteq> length mine
            then Inl Not_planned else Inr ())"

definition consume_in_transaction :: "string \<Rightarrow> string \<Rightarrow> string \<Rightarrow> orch_db \<Rightarrow> orch_error + orch_db" where
  "consume_in_transaction oid rid at db =
     (let hit = (\<lambda>q. or_id q = oid \<and> resumable (or_state q)) in
      if length (filter hit (db_orchs db)) \<noteq> 1 then Inl Not_resumable
      else Inr (orch_update hit (\<lambda>q. q\<lparr>or_state := Or_consumed, or_final := Some rid, or_updated := at\<rparr>) db))"

text \<open>What \<open>mark_cancelled\<close> does to the orchestration its review had consumed.\<close>

definition reopen_consumed :: "string \<Rightarrow> string \<Rightarrow> string \<Rightarrow> string \<Rightarrow> orch_db \<Rightarrow> orch_db" where
  "reopen_consumed oid rid why at db =
     orch_update (\<lambda>q. or_id q = oid \<and> or_state q = Or_consumed \<and> or_final q = Some rid)
       (\<lambda>q. q\<lparr>or_state := Or_failed, or_final := None, or_reason := Some why, or_updated := at\<rparr>) db"

end
