(* ===== verification/Requests.thy ===== *)
theory Requests
  imports Orchestrations
begin

section \<open>Requests: execution ownership and cancellation\<close>

text \<open>
  Models \<open>request_store.py\<close> and the cancellation ledger of \<open>control_store.py\<close> with
  \<open>audit_text\<close> of \<open>control.py\<close>: the tables \<open>review_requests\<close>, \<open>request_links\<close>,
  \<open>request_executions\<close> and \<open>cancellation_audit\<close>. A JSON column holds its decoded value, with
  the keys sorted as the text has them; texts are compared through their serialisation. What
  \<open>begin_request\<close> reads of the table \<open>reviews\<close> is a lookup function. SHA-256 is \<open>H\<close>.
\<close>

subsection \<open>Rows and state\<close>

datatype rq_state = Rq_accepted | Rq_queued | Rq_running | Rq_finished | Rq_cancelled | Rq_failed | Rq_expired

definition live :: "rq_state \<Rightarrow> bool" where
  "live s \<longleftrightarrow> s \<in> {Rq_accepted, Rq_queued, Rq_running}"

record request =
  rq_id :: string
  rq_scope :: string
  rq_key :: "string option"
  rq_identity :: pydict
  rq_intent :: string
  rq_owner :: string
  rq_pid :: int
  rq_source :: string
  rq_state :: rq_state
  rq_created :: string
  rq_updated :: string
  rq_expires :: string
  rq_reason :: "string option"
  rq_result :: "pydict option"
  rq_actor :: "string option"

datatype link_kind = Link_capacity | Link_review | Link_recovery | Link_batch

record link =
  ln_request :: string
  ln_kind :: link_kind
  ln_target :: string

record execution =
  ex_seq :: nat
  ex_request :: string
  ex_owner :: string
  ex_source :: string
  ex_pid :: int
  ex_started :: string
  ex_completed :: "string option"
  ex_status :: "pyval"
  ex_reason :: "string option"
  ex_actor :: "string option"

datatype cancel_outcome = Requested | Observed | Done string

record cancellation =
  cn_id :: nat
  cn_target :: string
  cn_request :: "string option"
  cn_token :: "string option"
  cn_identity :: pydict
  cn_actor :: string
  cn_source :: string
  cn_pid :: int
  cn_worktree :: "string option"
  cn_created :: string
  cn_reason :: string
  cn_cause :: string
  cn_outcome :: cancel_outcome
  cn_completed :: "string option"

text \<open>The two counters are the sequences of the \<open>AUTOINCREMENT\<close> keys.\<close>

record request_db =
  rd_requests :: "request list"
  rd_links :: "link list"
  rd_execs :: "execution list"
  rd_cancels :: "cancellation list"
  rd_seq :: nat
  rd_cancel_seq :: nat

datatype request_error =
    Bad_text | Bad_time | Bad_expiry | Bad_number | Bad_json | Too_large | Scope_mismatch | Credential_text
  | Duplicate_request | Duplicate_owner | Bad_state | Not_terminal_state | No_status
  | Target_changed | Target_terminal | Identity_changed | Unknown_link | Bad_limit | No_such_request

subsection \<open>Arguments\<close>

text \<open>\<open>_text(label, value, limit)\<close>, \<open>_require_ts\<close> and \<open>_json\<close>.\<close>

definition short_text :: "nat \<Rightarrow> string \<Rightarrow> request_error + string" where
  "short_text limit s = (if s = [] \<or> limit < length s then Inl Bad_text else Inr s)"

definition time_arg :: "string \<Rightarrow> request_error + string" where
  "time_arg s = (if is_canonical_ts (PStr s) then Inr s else Inl Bad_time)"

definition json_arg :: "pydict \<Rightarrow> request_error + string" where
  "json_arg d = (case dumps True (PDict d) of None \<Rightarrow> Inl Bad_json
     | Some t \<Rightarrow> if 2 * 1024 * 1024 < length t then Inl Too_large else Inr t)"

definition identity_arg :: "string \<Rightarrow> pydict \<Rightarrow> request_error + string" where
  "identity_arg scope identity =
     ebind (json_arg identity) (\<lambda>t.
       if dget identity ''worktree_root'' \<noteq> PStr scope then Inl Scope_mismatch
       else if 65536 < length t then Inl Too_large else Inr t)"

text \<open>\<open>audit_text\<close>: what it takes for a credential, at one place of the text. The three
  alternatives of its regular expression; the optional part of the first matches either way.\<close>

definition prefix_ci :: "string \<Rightarrow> string \<Rightarrow> bool" where
  "prefix_ci p s \<longleftrightarrow> lower (take (length p) s) = p"

definition token_char :: "char \<Rightarrow> bool" where
  "token_char c \<longleftrightarrow> (let n = code (lower_char c) in 97 \<le> n \<and> n \<le> (122 :: nat)) \<or> (48 :: nat) \<le> code c \<and> code c \<le> (57 :: nat)
     \<or> c = CHR ''_'' \<or> c = CHR ''-''"

definition secret_token :: "string \<Rightarrow> bool" where
  "secret_token s \<longleftrightarrow> prefix_ci ''sk-'' s
     \<and> list_ex (\<lambda>r. 12 \<le> length (takeWhile token_char r))
         [drop 3 s, if prefix_ci ''proj-'' (drop 3 s) then drop 8 s else [], if prefix_ci ''ant-'' (drop 3 s) then drop 7 s else []]"

definition bearer :: "string \<Rightarrow> bool" where
  "bearer s \<longleftrightarrow> prefix_ci ''bearer'' s \<and> (case drop 6 s of c # _ \<Rightarrow> is_space c | [] \<Rightarrow> False)"

definition named_secret :: "string \<Rightarrow> bool" where
  "named_secret s \<longleftrightarrow> list_ex (\<lambda>p. prefix_ci p s \<and>
      (case dropWhile is_space (drop (length p) s) of c # _ \<Rightarrow> c = CHR '':'' \<or> c = CHR ''='' | [] \<Rightarrow> False))
    [''apikey'', ''api_key'', ''api-key'', ''token'', ''secret'']"

fun credential :: "string \<Rightarrow> bool" where
  "credential [] = False"
| "credential (c # s) = (secret_token (c # s) \<or> bearer (c # s) \<or> named_secret (c # s) \<or> credential s)"

definition audit_text :: "nat \<Rightarrow> string \<Rightarrow> request_error + string" where
  "audit_text limit s =
     (if strip s = [] \<or> limit < length s \<or> list_ex (\<lambda>c. code c < (32 :: nat)) s \<or> credential s then Inl Credential_text
      else Inr (strip s))"

definition opt_arg :: "('a \<Rightarrow> 'e + 'b) \<Rightarrow> 'a option \<Rightarrow> 'e + 'b option" where
  "opt_arg f x = (case x of None \<Rightarrow> Inr None | Some a \<Rightarrow> ebind (f a) (\<lambda>b. Inr (Some b)))"

subsection \<open>Beginning a request\<close>

text \<open>What the store says of a review: its columns \<open>trustworthy\<close> and \<open>status\<close>.\<close>

type_synonym review_lookup = "string \<Rightarrow> (bool \<times> string option) option"

text \<open>\<open>_scheduled_skeptic_unusable(rows)\<close>.\<close>

definition scheduled_skeptic_unusable :: "pass_row list \<Rightarrow> bool" where
  "scheduled_skeptic_unusable rows =
     (case find (\<lambda>r. cp_kind r = Skeptic_pass) rows of None \<Rightarrow> False
      | Some r \<Rightarrow>
          (case (cp_payload r, decode_binding (cp_binding r)) of
             (Some p, Some body) \<Rightarrow> scheduled body \<and> \<not> followup_usable p
           | _ \<Rightarrow> False))"

definition running_review :: "bool \<times> string option \<Rightarrow> bool" where
  "running_review v \<longleftrightarrow> snd v = Some ''running''"

text \<open>\<open>old_result.get("status") in (0, 1)\<close>, with Python's equality of numbers.\<close>

definition settled_status :: "pyval \<Rightarrow> bool" where
  "settled_status v \<longleftrightarrow> v \<in> {PInt 0, PInt 1, PBool True, PBool False, PFloat ''0.0'', PFloat ''-0.0'', PFloat ''1.0''}"

definition settled_result :: "pydict option \<Rightarrow> bool" where
  "settled_result res = (case res of None \<Rightarrow> False | Some d \<Rightarrow> settled_status (dget d ''status''))"

datatype decision = Existing | Mismatched | Continuation_unavailable | Continued | Created

text \<open>The decision on a terminal request named by its id, as a continuation of \<open>target\<close>.\<close>

definition continue_decision ::
    "review_lookup \<Rightarrow> orch_db \<Rightarrow> string option \<Rightarrow> bool \<Rightarrow> request \<Rightarrow> decision" where
  "continue_decision reviews odb target allow prior =
     (let orch = Option.bind target (\<lambda>t. orch_find t odb);
          review = (case orch of Some q \<Rightarrow> if allow \<and> or_state q = Or_consumed
                       then Option.bind (or_final q) reviews else None | None \<Rightarrow> None);
          settled = (case review of Some v \<Rightarrow> \<not> running_review v | None \<Rightarrow> False);
          consumed_failed = (settled \<and> \<not> fst (the review));
          skeptic_open = (settled \<and> fst (the review) \<and> scheduled_skeptic_unusable (list_checkpoints (the target) odb)) in
      if settled_result (rq_result prior) \<and> \<not> skeptic_open then Existing
      else (case orch of None \<Rightarrow> Continuation_unavailable
        | Some q \<Rightarrow> if \<not> resumable (or_state q) \<and> \<not> consumed_failed \<and> \<not> skeptic_open
            then Continuation_unavailable else Continued))"

abbreviation rq_find :: "string \<Rightarrow> request_db \<Rightarrow> request option" where
  "rq_find rid db \<equiv> tbl_find rq_id rid (rd_requests db)"

text \<open>The arguments of one call of \<open>begin_request\<close>.\<close>

record begin_args =
  ba_id :: string
  ba_scope :: string
  ba_key :: "string option"
  ba_identity :: pydict
  ba_intent :: pydict
  ba_owner :: string
  ba_pid :: int
  ba_source :: string
  ba_now :: string
  ba_expires :: string
  ba_continuation :: "string option"
  ba_target :: "string option"
  ba_actor :: "string option"
  ba_allow :: bool

definition same_text :: "pydict \<Rightarrow> string \<Rightarrow> bool" where
  "same_text d t \<longleftrightarrow> emit True (PDict d) = t"

definition prior_request :: "begin_args \<Rightarrow> string \<Rightarrow> request_db \<Rightarrow> request_error + request option" where
  "prior_request a encoded db =
     (case ba_key a of
        Some key \<Rightarrow> Inr (find (\<lambda>r. rq_scope r = ba_scope a \<and> rq_key r = Some key) (rd_requests db))
      | None \<Rightarrow>
          (case ba_continuation a of None \<Rightarrow> Inr None
           | Some cid \<Rightarrow> ebind (short_text 4096 cid) (\<lambda>cid. Inr
               (find (\<lambda>r. rq_id r = cid \<and> rq_scope r = ba_scope a \<and> same_text (rq_identity r) encoded) (rd_requests db)))))"

text \<open>The row of \<open>request_executions\<close> a created or continued request opens; the owner token is
  \<open>UNIQUE\<close> there.\<close>

definition open_execution :: "begin_args \<Rightarrow> string option \<Rightarrow> string \<Rightarrow> request_db \<Rightarrow> request_error + request_db" where
  "open_execution a actor rid db =
     (if ba_owner a \<in> ex_owner ` set (rd_execs db) then Inl Duplicate_owner
      else Inr (db\<lparr>rd_execs := rd_execs db @ [\<lparr>ex_seq = Suc (rd_seq db), ex_request = rid, ex_owner = ba_owner a,
             ex_source = ba_source a, ex_pid = ba_pid a, ex_started = ba_now a, ex_completed = None, ex_status = PNone,
             ex_reason = None, ex_actor = actor\<rparr>],
           rd_seq := Suc (rd_seq db)\<rparr>))"

definition continued_row :: "begin_args \<Rightarrow> string option \<Rightarrow> request \<Rightarrow> request" where
  "continued_row a actor r = r\<lparr>rq_state := Rq_accepted, rq_owner := ba_owner a, rq_pid := ba_pid a, rq_source := ba_source a,
     rq_updated := ba_now a, rq_expires := ba_expires a, rq_result := None, rq_reason := None, rq_actor := actor\<rparr>"

definition created_row :: "begin_args \<Rightarrow> string option \<Rightarrow> string \<Rightarrow> request" where
  "created_row a actor digest = \<lparr>rq_id = ba_id a, rq_scope = ba_scope a, rq_key = ba_key a, rq_identity = sorted_dict (ba_identity a),
     rq_intent = digest, rq_owner = ba_owner a, rq_pid = ba_pid a, rq_source = ba_source a, rq_state = Rq_accepted,
     rq_created = ba_now a, rq_updated = ba_now a, rq_expires = ba_expires a, rq_reason = None, rq_result = None,
     rq_actor = actor\<rparr>"

definition begin_checked ::
    "review_lookup \<Rightarrow> orch_db \<Rightarrow> begin_args \<Rightarrow> string option \<Rightarrow> string \<Rightarrow> string \<Rightarrow> request_db
      \<Rightarrow> request_error + decision \<times> string \<times> request_db" where
  "begin_checked reviews odb a actor encoded digest db =
     ebind (prior_request a encoded db) (\<lambda>prior.
       case prior of
         None \<Rightarrow>
           if ba_id a \<in> rq_id ` set (rd_requests db) then Inl Duplicate_request
           else ebind (open_execution a actor (ba_id a)
               (db\<lparr>rd_requests := rd_requests db @ [created_row a actor digest]\<rparr>)) (\<lambda>db'. Inr (Created, ba_id a, db'))
       | Some r \<Rightarrow>
           let by_id = (ba_continuation a \<noteq> None \<and> ba_key a = None) in
           if by_id \<and> \<not> live (rq_state r) then
             (case continue_decision reviews odb (ba_target a) (ba_allow a) r of
                Continued \<Rightarrow> ebind (open_execution a actor (rq_id r)
                    (db\<lparr>rd_requests := tbl_update (\<lambda>q. rq_id q = rq_id r) (continued_row a actor) (rd_requests db)\<rparr>))
                  (\<lambda>db'. Inr (Continued, rq_id r, db'))
              | d \<Rightarrow> Inr (d, rq_id r, db))
           else if by_id \<or> same_text (rq_identity r) encoded \<and> rq_intent r = digest then Inr (Existing, rq_id r, db)
           else Inr (Mismatched, rq_id r, db))"

definition begin_request ::
    "(string \<Rightarrow> string) \<Rightarrow> review_lookup \<Rightarrow> orch_db \<Rightarrow> begin_args \<Rightarrow> request_db
      \<Rightarrow> request_error + decision \<times> string \<times> request_db" where
  "begin_request H reviews odb a db =
     ebind (short_text 4096 (ba_id a)) (\<lambda>_. ebind (short_text 4096 (ba_scope a)) (\<lambda>_.
     ebind (short_text 4096 (ba_owner a)) (\<lambda>_. ebind (short_text 4096 (ba_source a)) (\<lambda>_.
     ebind (opt_arg (short_text 128) (ba_key a)) (\<lambda>_. ebind (guard (0 < ba_pid a) Bad_number) (\<lambda>_.
     ebind (time_arg (ba_now a)) (\<lambda>_. ebind (time_arg (ba_expires a)) (\<lambda>_.
     ebind (guard (ba_now a < ba_expires a) Bad_expiry) (\<lambda>_.
     ebind (opt_arg (audit_text 120) (ba_actor a)) (\<lambda>actor.
     ebind (identity_arg (ba_scope a) (ba_identity a)) (\<lambda>encoded.
     ebind (json_arg (ba_intent a)) (\<lambda>intent.
       begin_checked reviews odb a actor encoded (H intent) db))))))))))))"

subsection \<open>Links, progress and completion\<close>

text \<open>\<open>INSERT OR IGNORE\<close>: a link that is there is kept; the foreign key refuses one of an unknown request.\<close>

definition link_request :: "string \<Rightarrow> link_kind \<Rightarrow> string \<Rightarrow> request_db \<Rightarrow> request_error + request_db" where
  "link_request rid kind target db =
     ebind (short_text 4096 rid) (\<lambda>rid. ebind (short_text 4096 target) (\<lambda>target.
       let l = \<lparr>ln_request = rid, ln_kind = kind, ln_target = target\<rparr> in
       if l \<in> set (rd_links db) then Inr db
       else if rq_find rid db = None then Inl No_such_request
       else Inr (db\<lparr>rd_links := rd_links db @ [l]\<rparr>)))"

text \<open>The fence of every write by the executing process: its own token, on a live request.\<close>

definition owned :: "string \<Rightarrow> string \<Rightarrow> request \<Rightarrow> bool" where
  "owned rid token r \<longleftrightarrow> rq_id r = rid \<and> rq_owner r = token \<and> live (rq_state r)"

definition advance_request :: "string \<Rightarrow> string \<Rightarrow> rq_state \<Rightarrow> string \<Rightarrow> request_db \<Rightarrow> request_error + bool \<times> request_db" where
  "advance_request rid token state now db =
     ebind (short_text 4096 rid) (\<lambda>rid. ebind (short_text 4096 token) (\<lambda>token. ebind (time_arg now) (\<lambda>now.
     ebind (guard (state \<in> {Rq_queued, Rq_running}) Bad_state) (\<lambda>_.
       Inr (length (filter (owned rid token) (rd_requests db)) = 1,
         db\<lparr>rd_requests := tbl_update (owned rid token) (\<lambda>r. r\<lparr>rq_state := state, rq_updated := now\<rparr>) (rd_requests db)\<rparr>)))))"

text \<open>\<open>finish_cancellations\<close>, of one execution or of a review that no request owns.\<close>

definition pending_cancel :: "cancellation \<Rightarrow> bool" where
  "pending_cancel c \<longleftrightarrow> cn_outcome c = Requested \<or> cn_outcome c = Observed"

definition finish_cancellations :: "(cancellation \<Rightarrow> bool) \<Rightarrow> string \<Rightarrow> string \<Rightarrow> request_db \<Rightarrow> request_db" where
  "finish_cancellations target outcome now db =
     db\<lparr>rd_cancels := tbl_update (\<lambda>c. target c \<and> pending_cancel c)
       (\<lambda>c. c\<lparr>cn_outcome := Done outcome, cn_completed := Some now\<rparr>) (rd_cancels db)\<rparr>"

definition of_execution :: "string \<Rightarrow> string \<Rightarrow> cancellation \<Rightarrow> bool" where
  "of_execution rid token c \<longleftrightarrow> cn_request c = Some rid \<and> cn_token c = Some token"

definition of_target :: "string \<Rightarrow> cancellation \<Rightarrow> bool" where
  "of_target target c \<longleftrightarrow> cn_target c = target \<and> cn_request c = None"

fun state_name :: "rq_state \<Rightarrow> string" where
  "state_name Rq_accepted = ''accepted''"
| "state_name Rq_queued = ''queued''"
| "state_name Rq_running = ''running''"
| "state_name Rq_finished = ''finished''"
| "state_name Rq_cancelled = ''cancelled''"
| "state_name Rq_failed = ''failed''"
| "state_name Rq_expired = ''expired''"

definition cancel_result :: "rq_state \<Rightarrow> pydict option \<Rightarrow> string" where
  "cancel_result state result =
     (if state = Rq_cancelled then ''cancelled''
      else if settled_result result then ''completed_before_cancel'' else state_name state)"

text \<open>\<open>result["status"]\<close> raises when the key is absent.\<close>

definition exit_status :: "rq_state \<Rightarrow> pydict option \<Rightarrow> request_error + pyval" where
  "exit_status state result =
     (case result of
        Some d \<Rightarrow> if dhas d ''status'' then Inr (dget d ''status'') else Inl No_status
      | None \<Rightarrow> Inr (PInt (if state = Rq_cancelled then 130 else 4)))"

definition finish_request ::
    "string \<Rightarrow> string \<Rightarrow> rq_state \<Rightarrow> string \<Rightarrow> pydict option \<Rightarrow> string \<Rightarrow> request_db \<Rightarrow> request_error + bool \<times> request_db" where
  "finish_request rid token state reason result now db =
     ebind (short_text 4096 rid) (\<lambda>rid. ebind (short_text 4096 token) (\<lambda>token. ebind (short_text 4096 reason) (\<lambda>reason.
     ebind (time_arg now) (\<lambda>now. ebind (guard (\<not> live state) Not_terminal_state) (\<lambda>_.
     ebind (opt_arg json_arg result) (\<lambda>_.
       if length (filter (owned rid token) (rd_requests db)) \<noteq> 1 then Inr (False, db)
       else ebind (exit_status state result) (\<lambda>status. Inr (True,
         finish_cancellations (of_execution rid token) (cancel_result state result) now
           (db\<lparr>rd_requests := tbl_update (owned rid token) (\<lambda>r. r\<lparr>rq_state := state, rq_reason := Some reason,
                 rq_result := map_option sorted_dict result, rq_updated := now\<rparr>) (rd_requests db),
               rd_execs := tbl_update (\<lambda>e. ex_request e = rid \<and> ex_owner e = token)
                 (\<lambda>e. e\<lparr>ex_completed := Some now, ex_status := status, ex_reason := Some reason\<rparr>) (rd_execs db)\<rparr>)))))))))"

text \<open>\<open>prune_request_results\<close>: the ids it takes, oldest first, and the pruned table. A pruned
  request keeps its key, so that a retry still finds it.\<close>

definition prunable :: "string \<Rightarrow> request \<Rightarrow> bool" where
  "prunable before r \<longleftrightarrow> rq_updated r < before \<and> rq_result r \<noteq> None \<and> \<not> live (rq_state r)"

definition prune_ids :: "string \<Rightarrow> nat \<Rightarrow> request_db \<Rightarrow> string list" where
  "prune_ids before limit db =
     take limit (map rq_id (sort_key rq_updated (sort_key rq_id (filter (prunable before) (rd_requests db)))))"

definition prune_request_results :: "string \<Rightarrow> bool \<Rightarrow> int \<Rightarrow> request_db \<Rightarrow> request_error + nat \<times> request_db" where
  "prune_request_results before dry_run limit db =
     ebind (time_arg before) (\<lambda>before. ebind (guard (1 \<le> limit \<and> limit \<le> 1000) Bad_limit) (\<lambda>_.
       let ids = prune_ids before (nat limit) db in
       Inr (length ids, if dry_run then db else
         db\<lparr>rd_requests := tbl_update (\<lambda>r. rq_id r \<in> set ids)
           (\<lambda>r. r\<lparr>rq_result := None, rq_reason := Some ''request_result_expired''\<rparr>) (rd_requests db)\<rparr>)))"

subsection \<open>Cancellation\<close>

definition request_cancel_event :: "string \<Rightarrow> string \<Rightarrow> request_db \<Rightarrow> (nat \<times> string) option" where
  "request_cancel_event rid token db =
     (case sort_key cn_id (filter (\<lambda>c. of_execution rid token c \<and> pending_cancel c) (rd_cancels db)) of
        [] \<Rightarrow> None | c # _ \<Rightarrow> Some (cn_id c, cn_cause c))"

text \<open>The target of \<open>record_cancellation\<close>: a request as its caller saw it (id and owner), or a
  review without one, whose stored identity is looked up.\<close>

record cancel_args =
  cg_target :: string
  cg_request :: "(string \<times> string) option"
  cg_identity :: pydict
  cg_actor :: string
  cg_source :: string
  cg_pid :: int
  cg_worktree :: "string option"
  cg_reason :: string
  cg_cause :: string
  cg_now :: string

text \<open>\<open>review_identity\<close> compares five fields; \<open>identities\<close> gives a review's status and those.\<close>

type_synonym identity_lookup = "string \<Rightarrow> (string option \<times> pydict) option"

definition cancel_target_ok :: "identity_lookup \<Rightarrow> cancel_args \<Rightarrow> request_db \<Rightarrow> request_error + unit" where
  "cancel_target_ok identities a db =
     (case cg_request a of
        Some (rid, token) \<Rightarrow>
          (case rq_find rid db of None \<Rightarrow> Inl Target_changed
           | Some r \<Rightarrow> guard (rq_owner r = token \<and> live (rq_state r)) Target_changed)
      | None \<Rightarrow>
          (case identities (cg_target a) of None \<Rightarrow> Inl Target_terminal
           | Some (status, identity) \<Rightarrow>
               ebind (guard (status = Some ''running'') Target_terminal) (\<lambda>_.
                 guard (py_eq (PDict identity) (PDict (cg_identity a))) Identity_changed)))"

definition record_cancellation :: "identity_lookup \<Rightarrow> cancel_args \<Rightarrow> request_db \<Rightarrow> request_error + nat \<times> request_db" where
  "record_cancellation identities a db =
     ebind (time_arg (cg_now a)) (\<lambda>now. ebind (short_text 4096 (cg_target a)) (\<lambda>target.
     ebind (guard (case cg_worktree a of None \<Rightarrow> True | Some w \<Rightarrow> length w \<le> 4096) Bad_text) (\<lambda>_.
     ebind (audit_text 120 (cg_actor a)) (\<lambda>actor. ebind (audit_text 80 (cg_source a)) (\<lambda>source.
     ebind (audit_text 500 (cg_reason a)) (\<lambda>reason. ebind (audit_text 80 (cg_cause a)) (\<lambda>cause.
     ebind (guard (0 < cg_pid a) Bad_number) (\<lambda>_. ebind (cancel_target_ok identities a db) (\<lambda>_.
       Inr (Suc (rd_cancel_seq db),
         db\<lparr>rd_cancels := rd_cancels db @ [\<lparr>cn_id = Suc (rd_cancel_seq db), cn_target = target,
              cn_request = map_option fst (cg_request a), cn_token = map_option snd (cg_request a),
              cn_identity = sorted_dict (cg_identity a), cn_actor = actor, cn_source = source, cn_pid = cg_pid a,
              cn_worktree = cg_worktree a, cn_created = now, cn_reason = reason, cn_cause = cause,
              cn_outcome = Requested, cn_completed = None\<rparr>],
            rd_cancel_seq := Suc (rd_cancel_seq db)\<rparr>))))))))))"

subsection \<open>Queries\<close>

text \<open>\<open>list_requests\<close>: by worktree, or by repository, or all; newest first, live ones before if asked.\<close>

definition list_requests :: "string option \<Rightarrow> string option \<Rightarrow> int \<Rightarrow> bool \<Rightarrow> request_db \<Rightarrow> request_error + request list" where
  "list_requests root repo limit active_first db =
     ebind (guard (1 \<le> limit \<and> limit \<le> 1000) Bad_limit) (\<lambda>_.
     ebind (opt_arg (short_text 4096) root) (\<lambda>root.
     ebind (if root = None then opt_arg (short_text 4096) repo else Inr None) (\<lambda>repo.
       let rows = filter (\<lambda>r. (case root of Some w \<Rightarrow> rq_scope r = w
              | None \<Rightarrow> (case repo of Some p \<Rightarrow> dget (rq_identity r) ''repo_id'' = PStr p | None \<Rightarrow> True))) (rd_requests db);
           newest_first = rev (sort_key rq_created (sort_key rq_id rows)) in
       Inr (take (nat limit) (if active_first then sort_key (\<lambda>r. \<not> live (rq_state r)) newest_first else newest_first)))))"

text \<open>\<open>continuation_request_mismatch\<close>: the first field, by name, in which the linked request differs.\<close>

definition differing_field :: "pydict \<Rightarrow> pydict \<Rightarrow> string option" where
  "differing_field d e =
     find (\<lambda>k. \<not> dhas d k \<or> \<not> dhas e k \<or> \<not> py_eq (dget d k) (dget e k)) (sort (remdups (map fst d @ map fst e)))"

definition linked_requests :: "link_kind \<Rightarrow> string \<Rightarrow> request_db \<Rightarrow> request list" where
  "linked_requests kind target db =
     filter (\<lambda>r. \<lparr>ln_request = rq_id r, ln_kind = kind, ln_target = target\<rparr> \<in> set (rd_links db)) (rd_requests db)"

definition latest_updated :: "request list \<Rightarrow> request option" where
  "latest_updated rows = (case rev (sort_key rq_updated (sort_key rq_id rows)) of [] \<Rightarrow> None | r # _ \<Rightarrow> Some r)"

definition continuation_request_mismatch :: "string \<Rightarrow> pydict \<Rightarrow> request_db \<Rightarrow> request_error + string option" where
  "continuation_request_mismatch oid identity db =
     ebind (short_text 4096 oid) (\<lambda>oid. Inr
       (Option.bind (latest_updated (linked_requests Link_batch oid db)) (\<lambda>r. differing_field (rq_identity r) identity)))"

subsection \<open>Runs\<close>

inductive rq_step :: "(string \<Rightarrow> string) \<Rightarrow> request_db \<Rightarrow> request_db \<Rightarrow> bool" for H where
  rq_begin: "begin_request H reviews odb a db = Inr (d, rid, db') \<Longrightarrow> rq_step H db db'"
| rq_link: "link_request rid kind target db = Inr db' \<Longrightarrow> rq_step H db db'"
| rq_advance: "advance_request rid token state now db = Inr (b, db') \<Longrightarrow> rq_step H db db'"
| rq_finish: "finish_request rid token state reason result now db = Inr (b, db') \<Longrightarrow> rq_step H db db'"
| rq_prune: "prune_request_results before dry_run limit db = Inr (n, db') \<Longrightarrow> rq_step H db db'"
| rq_cancel: "record_cancellation identities a db = Inr (n, db') \<Longrightarrow> rq_step H db db'"
| rq_close: "rq_step H db (finish_cancellations (of_target target) outcome now db)"

inductive_cases rq_stepE: "rq_step H db db'"

definition empty_requests :: request_db where
  "empty_requests = \<lparr>rd_requests = [], rd_links = [], rd_execs = [], rd_cancels = [], rd_seq = 0, rd_cancel_seq = 0\<rparr>"

text \<open>A row and its open execution belong together: an execution is open exactly while its request
  is live and owned by its token.\<close>

definition executes :: "request_db \<Rightarrow> execution \<Rightarrow> bool" where
  "executes db e \<longleftrightarrow> (\<exists>r \<in> set (rd_requests db). rq_id r = ex_request e \<and> rq_owner r = ex_owner e \<and> live (rq_state r))"

definition keys_unique :: "request list \<Rightarrow> bool" where
  "keys_unique rows \<longleftrightarrow> (\<forall>r \<in> set rows. \<forall>q \<in> set rows. rq_key r \<noteq> None \<longrightarrow> rq_scope r = rq_scope q \<longrightarrow> rq_key r = rq_key q \<longrightarrow> r = q)"

definition rq_ok :: "request_db \<Rightarrow> bool" where
  "rq_ok db \<longleftrightarrow> keyed rq_id (rd_requests db) \<and> keyed ex_owner (rd_execs db) \<and> keys_unique (rd_requests db)
     \<and> (\<forall>e \<in> set (rd_execs db). (ex_completed e = None) = executes db e)
     \<and> (\<forall>r \<in> set (rd_requests db). \<exists>e \<in> set (rd_execs db). ex_request e = rq_id r \<and> ex_owner e = rq_owner r)"

subsubsection \<open>What an operation can have done\<close>

lemma begin_cases:
  assumes "begin_request H reviews odb a db = Inr (d, rid, db')"
  obtains (kept) "db' = db" "d \<noteq> Created" "d \<noteq> Continued"
  | (created) actor digest where "d = Created" "rid = ba_id a" "ba_id a \<notin> rq_id ` set (rd_requests db)"
      "open_execution a actor (ba_id a) (db\<lparr>rd_requests := rd_requests db @ [created_row a actor digest]\<rparr>) = Inr db'"
      "\<forall>key. ba_key a = Some key \<longrightarrow> (\<forall>r \<in> set (rd_requests db). rq_scope r = ba_scope a \<longrightarrow> rq_key r \<noteq> Some key)"
  | (continued) actor r where "d = Continued" "rid = rq_id r" "r \<in> set (rd_requests db)" "\<not> live (rq_state r)"
      "open_execution a actor (rq_id r)
        (db\<lparr>rd_requests := tbl_update (\<lambda>q. rq_id q = rq_id r) (continued_row a actor) (rd_requests db)\<rparr>) = Inr db'"
proof -
  from assms obtain actor encoded digest where
    chk: "begin_checked reviews odb a actor encoded digest db = Inr (d, rid, db')"
    by (auto simp: begin_request_def err_iffs)
  then obtain prior where prior: "prior_request a encoded db = Inr prior"
    unfolding begin_checked_def ebind_Inr_iff by blast
  show thesis
  proof (cases prior)
    case None
    have "\<forall>key. ba_key a = Some key \<longrightarrow> (\<forall>r \<in> set (rd_requests db). rq_scope r = ba_scope a \<longrightarrow> rq_key r \<noteq> Some key)"
      using prior None by (auto simp: prior_request_def find_None_iff)
    with chk prior None show thesis
      by (intro created) (auto simp: begin_checked_def err_iffs split: if_splits)
  next
    case (Some r)
    have r: "r \<in> set (rd_requests db)"
      using prior Some by (auto simp: prior_request_def err_iffs find_Some_iff split: option.splits)
    from chk prior Some show thesis
    proof (cases "ba_continuation a \<noteq> None \<and> ba_key a = None \<and> \<not> live (rq_state r)")
      case True
      have "continue_decision reviews odb (ba_target a) (ba_allow a) r \<noteq> Created"
        by (auto simp: continue_decision_def Let_def split: option.split)
      with True chk prior Some r show thesis
        by (cases "continue_decision reviews odb (ba_target a) (ba_allow a) r")
          (auto simp: begin_checked_def err_iffs intro: kept continued)
    next
      case False
      with chk prior Some show thesis
        by (intro kept) (auto simp: begin_checked_def Let_def split: if_splits)
    qed
  qed
qed

lemma open_execution_Inr:
  "open_execution a actor rid db = Inr db' \<Longrightarrow> ba_owner a \<notin> ex_owner ` set (rd_execs db)
    \<and> rd_requests db' = rd_requests db \<and> rd_links db' = rd_links db \<and> rd_cancels db' = rd_cancels db
    \<and> (\<exists>e. rd_execs db' = rd_execs db @ [e] \<and> ex_owner e = ba_owner a \<and> ex_request e = rid \<and> ex_completed e = None)"
  by (auto simp: open_execution_def split: if_splits)

lemma rq_update_same:
  "rq_ok db \<Longrightarrow> rd_requests db' = rd_requests db \<Longrightarrow> rd_execs db' = rd_execs db \<Longrightarrow> rq_ok db'"
  by (simp add: rq_ok_def executes_def)

text \<open>An update that keeps id, owner, scope and key, and whether each row is live.\<close>

definition quiet :: "(request \<Rightarrow> request) \<Rightarrow> bool" where
  "quiet f \<longleftrightarrow> (\<forall>r. rq_id (f r) = rq_id r \<and> rq_owner (f r) = rq_owner r \<and> rq_scope (f r) = rq_scope r \<and> rq_key (f r) = rq_key r)"

lemma keys_unique_update:
  assumes "keys_unique rows" "\<And>r. rq_scope (f r) = rq_scope r \<and> rq_key (f r) = rq_key r"
  shows "keys_unique (tbl_update p f rows)"
  unfolding keys_unique_def
proof (intro ballI impI)
  fix x y
  assume "x \<in> set (tbl_update p f rows)" "y \<in> set (tbl_update p f rows)"
    and same: "rq_key x \<noteq> None" "rq_scope x = rq_scope y" "rq_key x = rq_key y"
  then obtain r q where rq: "r \<in> set rows" "x = (if p r then f r else r)" "q \<in> set rows" "y = (if p q then f q else q)"
    by (auto dest!: tbl_update_mem)
  with same assms(2) have "rq_key r \<noteq> None" "rq_scope r = rq_scope q" "rq_key r = rq_key q"
    by (auto split: if_splits)
  with assms(1) rq(1,3) have "r = q" by (auto simp: keys_unique_def)
  with rq show "x = y" by simp
qed

lemma bex_tbl_update: "(\<exists>x \<in> set (tbl_update p f rows). P x) \<longleftrightarrow> (\<exists>r \<in> set rows. P (if p r then f r else r))"
  unfolding tbl_update_def set_map bex_simps ..

lemma ball_tbl_update: "(\<forall>x \<in> set (tbl_update p f rows). P x) \<longleftrightarrow> (\<forall>r \<in> set rows. P (if p r then f r else r))"
  unfolding tbl_update_def set_map ball_simps ..

lemma short_text_Inr [simp]: "short_text n s = Inr t \<longleftrightarrow> s \<noteq> [] \<and> length s \<le> n \<and> t = s"
  by (auto simp: short_text_def)

lemma time_arg_Inr [simp]: "time_arg s = Inr t \<longleftrightarrow> is_canonical_ts (PStr s) \<and> t = s"
  by (auto simp: time_arg_def)

lemma rq_update_quiet:
  assumes ok: "rq_ok db" and f: "quiet f" "\<And>r. p r \<Longrightarrow> live (rq_state (f r)) = live (rq_state r)"
    and db': "rd_requests db' = tbl_update p f (rd_requests db)" "rd_execs db' = rd_execs db"
  shows "rq_ok db'"
proof -
  have "executes db' e = executes db e" for e
    using f unfolding executes_def db' bex_tbl_update quiet_def by (intro bex_cong) auto
  with ok f(1) show ?thesis
    unfolding rq_ok_def db' ball_tbl_update by (auto simp: quiet_def intro: keyed_update keys_unique_update)
qed

lemma find_cancels [simp]:
  "rd_requests (finish_cancellations p outcome now db) = rd_requests db" "rd_execs (finish_cancellations p outcome now db) = rd_execs db"
  "rd_links (finish_cancellations p outcome now db) = rd_links db"
  by (simp_all add: finish_cancellations_def)

lemma advance_ok: "advance_request rid token state now db = Inr (b, db') \<Longrightarrow> rq_ok db \<Longrightarrow> rq_ok db'"
proof (rule rq_update_quiet [where f = "\<lambda>r. r\<lparr>rq_state := state, rq_updated := now\<rparr>" and p = "owned rid token"])
  assume adv: "advance_request rid token state now db = Inr (b, db')"
  then show "rd_requests db' = tbl_update (owned rid token) (\<lambda>r. r\<lparr>rq_state := state, rq_updated := now\<rparr>) (rd_requests db)"
      "rd_execs db' = rd_execs db"
    by (auto simp: advance_request_def ebind_Inr_iff)
  show "live (rq_state (r\<lparr>rq_state := state, rq_updated := now\<rparr>)) = live (rq_state r)" if "owned rid token r" for r
    using adv that by (auto simp: advance_request_def ebind_Inr_iff owned_def live_def)
qed (simp_all add: quiet_def)

lemma prune_ok: "prune_request_results before dry limit db = Inr (n, db') \<Longrightarrow> rq_ok db \<Longrightarrow> rq_ok db'"
proof (cases dry)
  case False
  assume "prune_request_results before dry limit db = Inr (n, db')" and ok: "rq_ok db"
  with False have "db' = db\<lparr>rd_requests := tbl_update (\<lambda>r. rq_id r \<in> set (prune_ids before (nat limit) db))
      (\<lambda>r. r\<lparr>rq_result := None, rq_reason := Some ''request_result_expired''\<rparr>) (rd_requests db)\<rparr>"
    by (auto simp: prune_request_results_def ebind_Inr_iff Let_def)
  then show ?thesis
    by (intro rq_update_quiet [OF ok, where f = "\<lambda>r. r\<lparr>rq_result := None, rq_reason := Some ''request_result_expired''\<rparr>"
      and p = "\<lambda>r. rq_id r \<in> set (prune_ids before (nat limit) db)"]) (simp_all add: quiet_def)
qed (auto simp: prune_request_results_def ebind_Inr_iff Let_def)

lemma link_ok: "link_request rid kind target db = Inr db' \<Longrightarrow> rq_ok db \<Longrightarrow> rq_ok db'"
  by (auto simp: link_request_def err_iffs Let_def intro: rq_update_same split: if_splits)

lemma cancel_ok: "record_cancellation identities a db = Inr (n, db') \<Longrightarrow> rq_ok db \<Longrightarrow> rq_ok db'"
  by (auto simp: record_cancellation_def err_iffs intro: rq_update_same)

text \<open>Finishing: one live row becomes terminal, and the one execution with its token closes.\<close>

lemma finish_Inr:
  assumes "finish_request rid token state reason result now db = Inr (b, db')"
  obtains (missed) "\<not> b" "db' = db" "length (filter (owned rid token) (rd_requests db)) \<noteq> 1"
  | (hit) status where "b" "\<not> live state" "length (filter (owned rid token) (rd_requests db)) = 1"
      "exit_status state result = Inr status"
      "rd_requests db' = tbl_update (owned rid token) (\<lambda>r. r\<lparr>rq_state := state, rq_reason := Some reason,
         rq_result := map_option sorted_dict result, rq_updated := now\<rparr>) (rd_requests db)"
      "rd_execs db' = tbl_update (\<lambda>e. ex_request e = rid \<and> ex_owner e = token)
         (\<lambda>e. e\<lparr>ex_completed := Some now, ex_status := status, ex_reason := Some reason\<rparr>) (rd_execs db)"
  using assms by (auto simp: finish_request_def short_text_def time_arg_def err_iffs split: if_splits)

lemma finish_request_ok:
  assumes fin: "finish_request rid token state reason result now db = Inr (b, db')" and ok: "rq_ok db"
  shows "rq_ok db'"
  using fin
proof (cases rule: finish_Inr)
  case missed
  with ok show ?thesis by simp
next
  case (hit status)
  have same: "executes db' e = (executes db e \<and> \<not> (ex_request e = rid \<and> ex_owner e = token))" for e
  proof -
    have "(rq_id (if owned rid token r then f r else r) = ex_request e \<and> rq_owner (if owned rid token r then f r else r) = ex_owner e
        \<and> live (rq_state (if owned rid token r then f r else r)))
      = (rq_id r = ex_request e \<and> rq_owner r = ex_owner e \<and> live (rq_state r) \<and> \<not> (ex_request e = rid \<and> ex_owner e = token))"
      if "f = (\<lambda>r. r\<lparr>rq_state := state, rq_reason := Some reason, rq_result := map_option sorted_dict result, rq_updated := now\<rparr>)" for r f
      using hit(2) that by (auto simp: owned_def)
    then show ?thesis unfolding executes_def hit(5) bex_tbl_update by blast
  qed
  have "keyed ex_owner (rd_execs db')"
    using ok unfolding hit(6) by (intro keyed_update) (simp_all add: rq_ok_def)
  moreover have "(ex_completed e = None) = executes db' e" if "e \<in> set (rd_execs db')" for e
  proof -
    from that obtain e0 where e0: "e0 \<in> set (rd_execs db)"
      "e = (if ex_request e0 = rid \<and> ex_owner e0 = token then e0\<lparr>ex_completed := Some now, ex_status := status, ex_reason := Some reason\<rparr> else e0)"
      unfolding hit(6) by (auto dest: tbl_update_mem)
    with ok same [of e] show ?thesis by (auto simp: rq_ok_def split: if_splits)
  qed
  moreover have "\<forall>r \<in> set (rd_requests db'). \<exists>e \<in> set (rd_execs db'). ex_request e = rq_id r \<and> ex_owner e = rq_owner r"
  proof -
    have "\<exists>e \<in> set (rd_execs db). ex_request e = rq_id r \<and> ex_owner e = rq_owner r" if "r \<in> set (rd_requests db)" for r
      using ok that by (simp add: rq_ok_def)
    then show ?thesis unfolding hit(5,6) ball_tbl_update bex_tbl_update
      by (simp add: if_distrib [of rq_id] if_distrib [of rq_owner] if_distrib [of ex_request] if_distrib [of ex_owner]) metis
  qed
  ultimately show ?thesis
    using ok unfolding rq_ok_def hit(5) by (auto intro: keyed_update keys_unique_update)
qed

lemma live_simps [simp]: "live Rq_accepted" "live Rq_queued" "live Rq_running" "\<not> live Rq_finished"
    "\<not> live Rq_cancelled" "\<not> live Rq_failed" "\<not> live Rq_expired"
  by (simp_all add: live_def)

lemma created_ok:
  assumes ok: "rq_ok db" and new: "ba_id a \<notin> rq_id ` set (rd_requests db)"
    and key: "\<forall>key. ba_key a = Some key \<longrightarrow> (\<forall>r \<in> set (rd_requests db). rq_scope r = ba_scope a \<longrightarrow> rq_key r \<noteq> Some key)"
    and op: "open_execution a actor (ba_id a) (db\<lparr>rd_requests := rd_requests db @ [created_row a actor digest]\<rparr>) = Inr db'"
  shows "rq_ok db'"
proof -
  let ?r = "created_row a actor digest"
  have r: "rq_id ?r = ba_id a" "rq_owner ?r = ba_owner a" "rq_state ?r = Rq_accepted" "rq_scope ?r = ba_scope a" "rq_key ?r = ba_key a"
    by (simp_all add: created_row_def)
  from open_execution_Inr [OF op] obtain e where e: "rd_execs db' = rd_execs db @ [e]" "ex_owner e = ba_owner a"
    "ex_request e = ba_id a" "ex_completed e = None" and rows: "rd_requests db' = rd_requests db @ [?r]"
    and own: "ba_owner a \<notin> ex_owner ` set (rd_execs db)"
    by auto
  have "executes db' x = executes db x" if "x \<in> set (rd_execs db)" for x
    using own that r by (auto simp: executes_def rows)
  moreover have "executes db' e" using r e by (auto simp: executes_def rows)
  moreover have "keys_unique (rd_requests db')"
    using ok key r unfolding rq_ok_def keys_unique_def rows by (auto simp: set_append ball_Un)
  ultimately show ?thesis
    using ok new own r e unfolding rq_ok_def rows e(1) by (auto simp: keyed_def ball_Un bex_Un)
qed

lemma continued_ok:
  assumes ok: "rq_ok db" and r: "r \<in> set (rd_requests db)" "\<not> live (rq_state r)"
    and op: "open_execution a actor (rq_id r)
        (db\<lparr>rd_requests := tbl_update (\<lambda>q. rq_id q = rq_id r) (continued_row a actor) (rd_requests db)\<rparr>) = Inr db'"
  shows "rq_ok db'"
proof -
  let ?f = "continued_row a actor"
  have f: "rq_id (?f q) = rq_id q" "rq_owner (?f q) = ba_owner a" "rq_state (?f q) = Rq_accepted"
      "rq_scope (?f q) = rq_scope q" "rq_key (?f q) = rq_key q" for q
    by (simp_all add: continued_row_def)
  from open_execution_Inr [OF op] obtain e where e: "rd_execs db' = rd_execs db @ [e]" "ex_owner e = ba_owner a"
    "ex_request e = rq_id r" "ex_completed e = None"
    and rows: "rd_requests db' = tbl_update (\<lambda>q. rq_id q = rq_id r) ?f (rd_requests db)"
    and own: "ba_owner a \<notin> ex_owner ` set (rd_execs db)"
    by auto
  have uniq: "q = r" if "q \<in> set (rd_requests db)" "rq_id q = rq_id r" for q
    using ok r(1) that keyed_unique by (fastforce simp: rq_ok_def)
  have old: "executes db' x = executes db x" if "x \<in> set (rd_execs db)" for x
  proof -
    have "ex_owner x \<noteq> ba_owner a" using own that by (metis imageI)
    with r uniq show ?thesis
      unfolding executes_def rows bex_tbl_update by (intro bex_cong) (auto simp: f)
  qed
  have new: "executes db' e"
    using r(1) e unfolding executes_def rows bex_tbl_update by (auto simp: f intro!: bexI [of _ r])
  have "\<exists>x \<in> set (rd_execs db'). ex_request x = rq_id q \<and> ex_owner x = rq_owner q" if "q \<in> set (rd_requests db')" for q
  proof (cases "rq_id q = rq_id r")
    case True
    with that e show ?thesis unfolding rows by (auto dest!: tbl_update_mem simp: f split: if_splits)
  next
    case False
    with that ok show ?thesis unfolding rows e(1) by (auto dest!: tbl_update_mem simp: f rq_ok_def split: if_splits)
  qed
  with ok own e old new show ?thesis
    unfolding rq_ok_def by (auto simp: rows keyed_update keys_unique_update f keyed_def [of ex_owner])
qed

lemma begin_ok: "begin_request H reviews odb a db = Inr (d, rid, db') \<Longrightarrow> rq_ok db \<Longrightarrow> rq_ok db'"
  by (erule begin_cases) (auto intro: created_ok continued_ok)

lemma rq_step_ok: "rq_ok db \<Longrightarrow> rq_step H db db' \<Longrightarrow> rq_ok db'"
  by (erule rq_stepE) (auto intro: begin_ok link_ok advance_ok finish_request_ok prune_ok cancel_ok rq_update_same)

lemma rq_ok_empty: "rq_ok empty_requests"
  by (simp add: empty_requests_def rq_ok_def keyed_def keys_unique_def)

interpretation rq: safe_machine empty_requests "rq_step H" rq_ok for H
  by unfold_locales (rule rq_ok_empty, erule (1) rq_step_ok)

subsection \<open>Properties\<close>

text \<open>Which owners executions and requests have. Only \<open>begin_request\<close> changes that.\<close>

definition exec_owners :: "request_db \<Rightarrow> string list" where
  "exec_owners db = map ex_owner (rd_execs db)"

definition owners :: "request_db \<Rightarrow> (string \<times> string) list" where
  "owners db = map (\<lambda>r. (rq_id r, rq_owner r)) (rd_requests db)"

lemma map_tbl_update: "(\<And>r. g (f r) = g r) \<Longrightarrow> map g (tbl_update p f rows) = map g rows"
  by (simp add: tbl_update_def)

lemma rq_step_owners:
  assumes "rq_step H db db'"
  obtains (quiet) "exec_owners db' = exec_owners db" "owners db' = owners db"
  | (begun) reviews odb a d rid where "begin_request H reviews odb a db = Inr (d, rid, db')"
  using assms
proof cases
  case (rq_finish rid token state reason result now b)
  from rq_finish(1) show thesis
    by (cases rule: finish_Inr) (auto intro!: quiet simp: exec_owners_def owners_def map_tbl_update)
next
  case (rq_prune before dry limit n)
  then show thesis
    by (auto intro!: quiet simp: prune_request_results_def ebind_Inr_iff Let_def exec_owners_def owners_def map_tbl_update split: if_splits)
next
  case (rq_link rid kind target)
  then show thesis
    by (auto intro!: quiet simp: link_request_def ebind_Inr_iff Let_def exec_owners_def owners_def split: if_splits)
next
  case rq_advance
  then show thesis
    by (auto intro!: quiet simp: advance_request_def ebind_Inr_iff exec_owners_def owners_def map_tbl_update)
next
  case rq_cancel
  then show thesis
    by (auto intro!: quiet simp: record_cancellation_def ebind_Inr_iff exec_owners_def owners_def)
next
  case rq_close
  then show thesis by (auto intro!: quiet simp: exec_owners_def owners_def)
qed (rule begun)

lemma begin_owners:
  assumes "begin_request H reviews odb a db = Inr (d, rid, db')"
  shows "set (exec_owners db) \<subseteq> set (exec_owners db')"
    and "x \<in> set (owners db') \<Longrightarrow> x \<in> set (owners db) \<or> snd x \<notin> set (exec_owners db)"
proof -
  have "set (exec_owners db) \<subseteq> set (exec_owners db') \<and> (x \<in> set (owners db') \<longrightarrow> x \<in> set (owners db) \<or> snd x \<notin> set (exec_owners db))"
    using assms
  proof (cases rule: begin_cases)
    case (created actor digest)
    from open_execution_Inr [OF created(4)] show ?thesis
      by (auto simp: exec_owners_def owners_def created_row_def)
  next
    case (continued actor r)
    from open_execution_Inr [OF continued(5)] obtain e where e: "rd_execs db' = rd_execs db @ [e]"
      and own: "ba_owner a \<notin> ex_owner ` set (rd_execs db)"
      and rows: "rd_requests db' = tbl_update (\<lambda>q. rq_id q = rq_id r) (continued_row a actor) (rd_requests db)"
      by auto
    have "x \<in> set (owners db) \<or> snd x \<notin> set (exec_owners db)" if x: "x \<in> set (owners db')"
    proof -
      from x obtain q where "q \<in> set (rd_requests db')" "x = (rq_id q, rq_owner q)" by (auto simp: owners_def)
      moreover then obtain q0 where "q0 \<in> set (rd_requests db)" "q = (if rq_id q0 = rq_id r then continued_row a actor q0 else q0)"
        unfolding rows by (auto dest!: tbl_update_mem)
      ultimately show ?thesis
        using own by (auto simp: owners_def exec_owners_def continued_row_def split: if_splits)
    qed
    with e show ?thesis by (auto simp: exec_owners_def)
  qed simp
  then show "set (exec_owners db) \<subseteq> set (exec_owners db')"
    and "x \<in> set (owners db') \<Longrightarrow> x \<in> set (owners db) \<or> snd x \<notin> set (exec_owners db)"
    by auto
qed

text \<open>A token is spent on a request when an execution had it and the request has another owner.\<close>

definition spent :: "string \<Rightarrow> string \<Rightarrow> request_db \<Rightarrow> bool" where
  "spent rid token db \<longleftrightarrow> token \<in> set (exec_owners db) \<and> (rid, token) \<notin> set (owners db)"

lemma spent_step: "rq_step H db db' \<Longrightarrow> spent rid token db \<Longrightarrow> spent rid token db'"
  by (erule rq_step_owners) (auto simp: spent_def dest: begin_owners)

lemma spent_run: "reachable_by db (rq_step H) db' \<Longrightarrow> spent rid token db \<Longrightarrow> spent rid token db'"
  by (induction rule: reachable_by.induct) (auto intro: spent_step)

lemma exec_owners_run: "reachable_by db (rq_step H) db' \<Longrightarrow> set (exec_owners db) \<subseteq> set (exec_owners db')"
  by (induction rule: reachable_by.induct) (auto elim!: rq_step_owners dest: begin_owners)

lemma reachable_trans: "reachable_by s step t \<Longrightarrow> reachable_by s0 step s \<Longrightarrow> reachable_by s0 step t"
  by (induction rule: reachable_by.induct) (auto intro: reachable_by.intros)

lemma spent_not_owned: "spent rid token db \<Longrightarrow> filter (owned rid token) (rd_requests db) = []"
  by (auto simp: spent_def owners_def owned_def filter_empty_conv)

lemma tbl_update_none: "filter p rows = [] \<Longrightarrow> tbl_update p f rows = rows"
  by (auto simp: tbl_update_def filter_empty_conv intro!: map_idI)

text \<open>C24 (safety).   A process that has lost a request cannot act on it. Once a request that was
  executed under one token is owned by another, the first token never advances or finishes it
  again, whatever happens in between: both writes report that they changed nothing, and do not.\<close>

theorem stale_owner_is_fenced:
  assumes "reachable_by empty_requests (rq_step H) db" "rq_find rid db = Some r" "rq_owner r = token"
    and "reachable_by db (rq_step H) db1" "rq_find rid db1 = Some r1" "rq_owner r1 \<noteq> token"
    and "reachable_by db1 (rq_step H) db2"
  shows "(advance_request rid token s now db2 = Inr (b, db3) \<longrightarrow> \<not> b \<and> db3 = db2)
    \<and> (finish_request rid token t why result now db2 = Inr (c, db4) \<longrightarrow> \<not> c \<and> db4 = db2)"
proof -
  from assms(2,3) have "r \<in> set (rd_requests db)" "rq_id r = rid" by (auto dest: tbl_find_Some_mem)
  with rq.reachable_inv [OF assms(1)] assms(3) have "token \<in> set (exec_owners db)"
    unfolding rq_ok_def exec_owners_def by (metis imageI set_map)
  then have "token \<in> set (exec_owners db1)" using exec_owners_run [OF assms(4)] by auto
  moreover have "(rid, token) \<notin> set (owners db1)"
  proof
    assume "(rid, token) \<in> set (owners db1)"
    then obtain q where "q \<in> set (rd_requests db1)" "rq_id q = rid" "rq_owner q = token"
      by (auto simp: owners_def)
    moreover have "keyed rq_id (rd_requests db1)"
      using rq.reachable_inv [OF reachable_trans [OF assms(4,1)]] by (simp add: rq_ok_def)
    ultimately show False using assms(5,6) by (metis tbl_find_mem option.inject)
  qed
  ultimately have "spent rid token db2" using spent_run [OF assms(7)] by (simp add: spent_def)
  then have none: "filter (owned rid token) (rd_requests db2) = []" by (rule spent_not_owned)
  show ?thesis
  proof (intro conjI impI)
    assume "advance_request rid token s now db2 = Inr (b, db3)"
    then show "\<not> b" "db3 = db2"
      using none by (auto simp: advance_request_def ebind_Inr_iff tbl_update_none)
  next
    assume "finish_request rid token t why result now db2 = Inr (c, db4)"
    then show "\<not> c" "db4 = db2"
      by (cases rule: finish_Inr; simp add: none)+
  qed
qed

text \<open>C25 (invariant).   A request is executed by one process at a time. An execution is open exactly
  while its request is live and owned by its token, so no request ever has two open executions.\<close>

theorem one_execution_at_a_time:
  assumes "reachable_by empty_requests (rq_step H) db"
    and "e \<in> set (rd_execs db)" "ex_completed e = None"
    and "f \<in> set (rd_execs db)" "ex_completed f = None" "ex_request f = ex_request e"
  shows "f = e \<and> (\<exists>r. rq_find (ex_request e) db = Some r \<and> live (rq_state r) \<and> rq_owner r = ex_owner e)"
proof -
  have ok: "rq_ok db" by (rule rq.reachable_inv [OF assms(1)])
  then have k: "keyed rq_id (rd_requests db)" "keyed ex_owner (rd_execs db)" by (simp_all add: rq_ok_def)
  from ok assms(2,3) obtain r where r: "r \<in> set (rd_requests db)" "rq_id r = ex_request e" "rq_owner r = ex_owner e" "live (rq_state r)"
    by (auto simp: rq_ok_def executes_def)
  from ok assms(4,5) obtain q where q: "q \<in> set (rd_requests db)" "rq_id q = ex_request f" "rq_owner q = ex_owner f"
    by (auto simp: rq_ok_def executes_def)
  have "q = r" using keyed_unique [OF k(1) q(1) r(1)] q(2) r(2) assms(6) by simp
  then have "ex_owner f = ex_owner e" using q(3) r(3) by simp
  then have "f = e" by (rule keyed_unique [OF k(2) assms(4,2)])
  moreover have "rq_find (ex_request e) db = Some r" using tbl_find_mem [OF k(1) r(1)] r(2) by simp
  ultimately show ?thesis using r by blast
qed

text \<open>  A retried key starts nothing. A request begun again under its idempotency key
  leaves every table as it was; the caller is shown the first request, and is told so when it
  differs in identity or intent.\<close>

theorem retried_key_starts_nothing:
  assumes "reachable_by empty_requests (rq_step H) db"
    and "r \<in> set (rd_requests db)" "rq_scope r = ba_scope a" "rq_key r = ba_key a" "ba_key a = Some key"
    and "begin_request H reviews odb a db = Inr (d, rid, db')"
  shows "db' = db \<and> rid = rq_id r
    \<and> d = (if emit True (PDict (rq_identity r)) = emit True (sorted_keys (PDict (ba_identity a)))
             \<and> rq_intent r = H (emit True (sorted_keys (PDict (ba_intent a)))) then Existing else Mismatched)"
proof -
  have "keys_unique (rd_requests db)" using rq.reachable_inv [OF assms(1)] by (simp add: rq_ok_def)
  then have uniq: "q = r" if "q \<in> set (rd_requests db)" "rq_scope q = ba_scope a" "rq_key q = Some key" for q
  proof -
    have "rq_key q \<noteq> None \<longrightarrow> rq_scope q = rq_scope r \<longrightarrow> rq_key q = rq_key r \<longrightarrow> q = r"
      using \<open>keys_unique (rd_requests db)\<close> that(1) assms(2) unfolding keys_unique_def by blast
    with that assms(3-5) show ?thesis by simp
  qed
  have "find (\<lambda>q. rq_scope q = ba_scope a \<and> rq_key q = Some key) (rd_requests db) = Some r"
  proof (cases "find (\<lambda>q. rq_scope q = ba_scope a \<and> rq_key q = Some key) (rd_requests db)")
    case None
    with assms(2-5) show ?thesis by (auto simp: find_None_iff)
  next
    case (Some q)
    then have "q \<in> set (rd_requests db)" "rq_scope q = ba_scope a" "rq_key q = Some key"
      by (auto simp: find_Some_iff)
    with uniq Some show ?thesis by blast
  qed
  then have prior: "prior_request a t db = Inr (Some r)" for t
    using assms(5) by (simp add: prior_request_def)
  from assms(6) obtain actor encoded intent where enc: "identity_arg (ba_scope a) (ba_identity a) = Inr encoded"
    "json_arg (ba_intent a) = Inr intent" and chk: "begin_checked reviews odb a actor encoded (H intent) db = Inr (d, rid, db')"
    by (auto simp: begin_request_def ebind_Inr_iff)
  have "encoded = emit True (sorted_keys (PDict (ba_identity a)))" "intent = emit True (sorted_keys (PDict (ba_intent a)))"
    using enc by (auto simp: identity_arg_def json_arg_def dumps_def ebind_Inr_iff split: if_splits)
  with chk show ?thesis
    using assms(5) by (auto simp: begin_checked_def prior same_text_def split: if_splits)
qed

text \<open>  A cancellation reaches one execution. Recorded against a request and its
  owner, it is what that owner's next check sees, unless an earlier one was pending; no other
  token sees anything new; and it is only recorded while that owner executes the request.\<close>

theorem cancellation_hits_one_execution:
  assumes "record_cancellation identities a db = Inr (n, db')" "cg_request a = Some (rid, token)"
  shows "(request_cancel_event rid token db = None \<longrightarrow>
        request_cancel_event rid token db' = Some (n, strip (cg_cause a)))
    \<and> (\<forall>rid' token'. (rid', token') \<noteq> (rid, token) \<longrightarrow> request_cancel_event rid' token' db' = request_cancel_event rid' token' db)
    \<and> (\<exists>r. rq_find rid db = Some r \<and> rq_owner r = token \<and> live (rq_state r))"
proof -
  from assms obtain c where c: "rd_cancels db' = rd_cancels db @ [c]" "cn_request c = Some rid" "cn_token c = Some token"
      "cn_outcome c = Requested" "cn_id c = n" "cn_cause c = strip (cg_cause a)"
    and ok: "cancel_target_ok identities a db = Inr ()"
    by (auto simp: record_cancellation_def ebind_Inr_iff audit_text_def split: if_splits)
  have "request_cancel_event rid token db' = Some (n, strip (cg_cause a))" if "request_cancel_event rid token db = None"
  proof -
    from that have "filter (\<lambda>c. of_execution rid token c \<and> pending_cancel c) (rd_cancels db) = []"
      by (simp add: request_cancel_event_def split: list.splits) (metis length_0_conv length_sort)
    with c show ?thesis by (simp add: request_cancel_event_def of_execution_def pending_cancel_def)
  qed
  moreover have "request_cancel_event rid' token' db' = request_cancel_event rid' token' db" if "(rid', token') \<noteq> (rid, token)" for rid' token'
    using that c by (auto simp: request_cancel_event_def of_execution_def)
  moreover have "\<exists>r. rq_find rid db = Some r \<and> rq_owner r = token \<and> live (rq_state r)"
    using ok assms(2) by (auto simp: cancel_target_ok_def split: option.splits)
  ultimately show ?thesis by blast
qed

subsection \<open>A run the properties apply to\<close>

definition t_at :: string where "t_at = ''2026-07-28T12:00:00Z''"
definition t_late :: string where "t_late = ''2026-07-28T13:00:00Z''"

definition sample_args :: "string option \<Rightarrow> string option \<Rightarrow> string \<Rightarrow> begin_args" where
  "sample_args key cont owner = \<lparr>ba_id = ''q'', ba_scope = ''w'', ba_key = key, ba_identity = [(''worktree_root'', PStr ''w'')],
     ba_intent = [], ba_owner = owner, ba_pid = 7, ba_source = ''cli'', ba_now = t_at, ba_expires = t_late,
     ba_continuation = cont, ba_target = Some ''o'', ba_actor = None, ba_allow = False\<rparr>"

definition sample_identity_text :: string where
  "sample_identity_text = emit True (PDict [(''worktree_root'', PStr ''w'')])"

definition sample_orch :: orch_db where
  "sample_orch = \<lparr>db_orchs = [\<lparr>or_id = ''o'', or_state = Or_failed, or_mode = ''batched'', or_created = t_at, or_updated = t_at,
       or_expires = t_late, or_final = None, or_identity = sample_identity [], or_digest = ''d'', or_reason = None,
       or_mismatch = None\<rparr>], db_passes = []\<rparr>"

definition sample_row :: "string \<Rightarrow> rq_state \<Rightarrow> string option \<Rightarrow> request" where
  "sample_row owner state why = \<lparr>rq_id = ''q'', rq_scope = ''w'', rq_key = Some ''k'', rq_identity = [(''worktree_root'', PStr ''w'')],
     rq_intent = emit True (PDict []), rq_owner = owner, rq_pid = 7, rq_source = ''cli'', rq_state = state, rq_created = t_at,
     rq_updated = t_at, rq_expires = t_late, rq_reason = why, rq_result = None, rq_actor = None\<rparr>"

definition sample_exec :: "nat \<Rightarrow> string \<Rightarrow> string option \<Rightarrow> pyval \<Rightarrow> string option \<Rightarrow> execution" where
  "sample_exec n owner ended status why = \<lparr>ex_seq = n, ex_request = ''q'', ex_owner = owner, ex_source = ''cli'', ex_pid = 7,
     ex_started = t_at, ex_completed = ended, ex_status = status, ex_reason = why, ex_actor = None\<rparr>"

definition run_begun :: request_db where
  "run_begun = \<lparr>rd_requests = [sample_row ''t1'' Rq_accepted None], rd_links = [], rd_execs = [sample_exec 1 ''t1'' None PNone None],
     rd_cancels = [], rd_seq = 1, rd_cancel_seq = 0\<rparr>"

definition run_failed :: request_db where
  "run_failed = run_begun\<lparr>rd_requests := [sample_row ''t1'' Rq_failed (Some ''crashed'')],
     rd_execs := [sample_exec 1 ''t1'' (Some t_at) (PInt 4) (Some ''crashed'')]\<rparr>"

definition run_continued :: request_db where
  "run_continued = run_failed\<lparr>rd_requests := [sample_row ''t2'' Rq_accepted None],
     rd_execs := rd_execs run_failed @ [sample_exec 2 ''t2'' None PNone None], rd_seq := 2\<rparr>"

lemma sample_times [simp]: "canonical_str t_at" "canonical_str t_late" "t_at < t_late"
  by code_simp+

lemma sample_texts: "dumps True (PDict [(''worktree_root'', PStr ''w'')]) = Some sample_identity_text"
    "length sample_identity_text = 21" "dumps True (PDict []) = Some (emit True (PDict []))" "length (emit True (PDict [])) = 2"
  by code_simp+

lemma sample_begin:
  assumes "owner \<noteq> []" "length owner \<le> 4096" "case key of None \<Rightarrow> True | Some k \<Rightarrow> k \<noteq> [] \<and> length k \<le> 128"
  shows "begin_request id reviews odb (sample_args key cont owner) db =
     begin_checked reviews odb (sample_args key cont owner) None sample_identity_text (emit True (PDict [])) db"
  using assms sample_texts
  by (cases key) (simp_all add: begin_request_def sample_args_def short_text_def opt_arg_def guard_def time_arg_def identity_arg_def
      json_arg_def dget_def)

lemma sample_steps:
  "begin_request id (\<lambda>_. None) sample_orch (sample_args (Some ''k'') None ''t1'') empty_requests = Inr (Created, ''q'', run_begun)"
  "finish_request ''q'' ''t1'' Rq_failed ''crashed'' None t_at run_begun = Inr (True, run_failed)"
  "begin_request id (\<lambda>_. None) sample_orch (sample_args None (Some ''q'') ''t2'') run_failed = Inr (Continued, ''q'', run_continued)"
  "begin_request id (\<lambda>_. None) sample_orch (sample_args (Some ''k'') None ''t2'') run_begun = Inr (Existing, ''q'', run_begun)"
proof -
  note defs = sample_args_def run_begun_def run_failed_def run_continued_def sample_row_def sample_exec_def empty_requests_def
    begin_checked_def prior_request_def open_execution_def created_row_def continued_row_def same_text_def tbl_update_def
    sample_identity_text_def
  have s: "sorted_dict [(''worktree_root'', PStr ''w'')] = [(''worktree_root'', PStr ''w'')]"
    by (simp add: sorted_dict_def)
  show "begin_request id (\<lambda>_. None) sample_orch (sample_args (Some ''k'') None ''t1'') empty_requests = Inr (Created, ''q'', run_begun)"
    by (subst sample_begin) (simp_all add: defs s)
  show "begin_request id (\<lambda>_. None) sample_orch (sample_args (Some ''k'') None ''t2'') run_begun = Inr (Existing, ''q'', run_begun)"
    by (subst sample_begin) (simp_all add: defs s)
  show "begin_request id (\<lambda>_. None) sample_orch (sample_args None (Some ''q'') ''t2'') run_failed = Inr (Continued, ''q'', run_continued)"
    by (subst sample_begin)
      (simp_all add: defs s short_text_def continue_decision_def sample_orch_def settled_result_def resumable_def)
  show "finish_request ''q'' ''t1'' Rq_failed ''crashed'' None t_at run_begun = Inr (True, run_failed)"
    by (simp add: defs finish_request_def short_text_def time_arg_def opt_arg_def guard_def owned_def exit_status_def
        finish_cancellations_def cancel_result_def settled_result_def)
qed

lemma sample_runs:
  "reachable_by empty_requests (rq_step id) run_begun"
  "reachable_by run_begun (rq_step id) run_continued"
proof -
  show "reachable_by empty_requests (rq_step id) run_begun"
    by (rule reach_step, rule reach_init, rule rq_begin, rule sample_steps(1))
  show "reachable_by run_begun (rq_step id) run_continued"
    by (rule reach_step, rule reach_step, rule reach_init, rule rq_finish, rule sample_steps(2),
        rule rq_begin, rule sample_steps(3))
qed

lemma stale_owner_is_fenced_witness:
  "advance_request ''q'' ''t1'' Rq_running t_at run_continued = Inr (False, run_continued)"
proof -
  obtain b db where res: "advance_request ''q'' ''t1'' Rq_running t_at run_continued = Inr (b, db)"
    by (simp add: advance_request_def short_text_def time_arg_def guard_def)
  have "rq_find ''q'' run_begun = Some (sample_row ''t1'' Rq_accepted None)"
    "rq_find ''q'' run_continued = Some (sample_row ''t2'' Rq_accepted None)"
    by (simp_all add: run_begun_def run_continued_def run_failed_def sample_row_def)
  moreover have "rq_owner (sample_row ''t1'' Rq_accepted None) = ''t1''" "rq_owner (sample_row ''t2'' Rq_accepted None) \<noteq> ''t1''"
    by (simp_all add: sample_row_def)
  ultimately have fenced: "\<not> b \<and> db = run_continued"
    using stale_owner_is_fenced [OF sample_runs(1) _ _ sample_runs(2) _ _ reach_init, of "''q''" _ "''t1''" _
        Rq_running t_at b db] res by blast
  from res fenced show ?thesis by simp
qed

lemma one_execution_at_a_time_witness:
  "rd_execs run_begun = [sample_exec 1 ''t1'' None PNone None]
    \<and> (\<exists>r. rq_find ''q'' run_begun = Some r \<and> live (rq_state r) \<and> rq_owner r = ''t1'')"
proof -
  let ?e = "sample_exec 1 ''t1'' None PNone None"
  have e: "?e \<in> set (rd_execs run_begun)" "ex_completed ?e = None" by (simp_all add: run_begun_def sample_exec_def)
  have f: "ex_request ?e = ''q''" "ex_owner ?e = ''t1''" by (simp_all add: sample_exec_def)
  from one_execution_at_a_time [OF sample_runs(1) e e refl]
  show ?thesis unfolding f by (simp add: run_begun_def)
qed

lemma retried_key_starts_nothing_witness:
  "begin_request id (\<lambda>_. None) sample_orch (sample_args (Some ''k'') None ''t2'') run_begun = Inr (Existing, ''q'', run_begun)
    \<and> Existing = (if emit True (PDict (rq_identity (sample_row ''t1'' Rq_accepted None))) = emit True (sorted_keys (PDict [(''worktree_root'', PStr ''w'')]))
        \<and> rq_intent (sample_row ''t1'' Rq_accepted None) = emit True (sorted_keys (PDict [])) then Existing else Mismatched)"
proof -
  have "sample_row ''t1'' Rq_accepted None \<in> set (rd_requests run_begun)"
    "rq_scope (sample_row ''t1'' Rq_accepted None) = ba_scope (sample_args (Some ''k'') None ''t2'')"
    "rq_key (sample_row ''t1'' Rq_accepted None) = ba_key (sample_args (Some ''k'') None ''t2'')"
    "ba_key (sample_args (Some ''k'') None ''t2'') = Some ''k''"
    by (simp_all add: run_begun_def sample_row_def sample_args_def)
  from retried_key_starts_nothing [OF sample_runs(1) this sample_steps(4)] sample_steps(4)
  show ?thesis by (simp add: sample_args_def)
qed

definition sample_cancel :: cancel_args where
  "sample_cancel = \<lparr>cg_target = ''q'', cg_request = Some (''q'', ''t1''), cg_identity = [], cg_actor = ''ann'', cg_source = ''cli'',
     cg_pid = 9, cg_worktree = None, cg_reason = ''stop'', cg_cause = ''requested_cancel'', cg_now = t_at\<rparr>"

lemma cancellation_hits_one_execution_witness:
  "request_cancel_event ''q'' ''t1'' (snd (projr (record_cancellation (\<lambda>_. None) sample_cancel run_begun))) = Some (1, ''requested_cancel'')"
proof -
  have texts: "audit_text 120 ''ann'' = Inr ''ann''" "audit_text 80 ''cli'' = Inr ''cli''" "audit_text 500 ''stop'' = Inr ''stop''"
    "audit_text 80 ''requested_cancel'' = Inr ''requested_cancel''"
    by code_simp+
  obtain db where "record_cancellation (\<lambda>_. None) sample_cancel run_begun = Inr (1, db)"
    by (simp add: record_cancellation_def sample_cancel_def time_arg_def short_text_def guard_def texts cancel_target_ok_def
        run_begun_def sample_row_def)
  moreover have "cg_request sample_cancel = Some (''q'', ''t1'')" "strip (cg_cause sample_cancel) = ''requested_cancel''"
    "request_cancel_event ''q'' ''t1'' run_begun = None"
    by (simp add: sample_cancel_def, code_simp, simp add: request_cancel_event_def run_begun_def)
  ultimately show ?thesis
    using cancellation_hits_one_execution [of "\<lambda>_. None" sample_cancel run_begun 1] by simp
qed

end
