(* ===== verification/Continuation.thy ===== *)
theory Continuation
  imports Requests
begin

section \<open>Continuation: binding follow-ups and forking a generation\<close>

text \<open>
  Models the rest of \<open>followup_store.py\<close> and \<open>fork_continuation\<close> of \<open>store.py\<close>: a follow-up
  pass is bound to its evidence, which may promote the candidate a former generation left; a
  continuation copies the usable passes of its source into a child; a publication checks the
  follow-ups once more. The id of the child is an argument. Both writes are transactions.
\<close>

datatype refusal =
    Refused_field orch_error | Refused_request request_error
  | Request_ownership | Source_expired | Source_corrupt | Source_mismatch | Source_trustworthy
  | Source_unavailable | Source_plan | Source_pass | Source_in_flight
  | Followup_ownership | Followup_ownership_missing | Followup_inactive | Followup_pass | Followup_bound
  | Followup_running | Bad_candidate

abbreviation lift_orch :: "orch_error + 'a \<Rightarrow> refusal + 'a" where
  "lift_orch \<equiv> map_sum Refused_field id"

subsection \<open>Candidates\<close>

text \<open>\<open>_candidate(row, source_id)\<close> and \<open>_decode_candidate\<close>.\<close>

definition candidate_of :: "(string \<Rightarrow> string) \<Rightarrow> pass_row \<Rightarrow> string \<Rightarrow> refusal + pydict" where
  "candidate_of H row source =
     (case (decode_binding (cp_binding row), cp_payload row) of
        (Some body, Some payload) \<Rightarrow>
          if canonical_digest H (PDict body) \<noteq> cp_binding_hash row then Inl Bad_candidate
          else Inr (sorted_dict [(''source_id'', PStr source), (''binding'', PDict body), (''payload'', PDict payload),
            (''completed_at'', opt_str (cp_completed row))])
      | _ \<Rightarrow> Inl Bad_candidate)"

record candidate =
  cd_source :: string
  cd_binding :: pydict
  cd_payload :: pydict
  cd_completed :: string

definition max_candidate_bytes :: nat where
  "max_candidate_bytes = max_checkpoint_json_bytes + max_binding_bytes + 4096"

definition decode_candidate :: "pydict \<Rightarrow> candidate option" where
  "decode_candidate raw =
     (if max_candidate_bytes < length (emit True (PDict raw))
        \<or> \<not> has_keys raw [''source_id'', ''binding'', ''payload'', ''completed_at''] then None
      else (case (dget raw ''source_id'', dget raw ''completed_at'', dget raw ''binding'', dget raw ''payload'') of
          (PStr source, PStr at, PDict b, PDict p) \<Rightarrow>
            if source = [] \<or> \<not> is_canonical_ts (PStr at) then None
            else (case (validate_binding b, from_mapping p) of
                (Some body, Some payload) \<Rightarrow>
                  if followup_usable payload
                  then Some \<lparr>cd_source = source, cd_binding = body, cd_payload = payload, cd_completed = at\<rparr> else None
              | _ \<Rightarrow> None)
        | _ \<Rightarrow> None))"

text \<open>The payload a continuation stores: the source's, marked as reused.\<close>

definition reused_payload :: "string \<Rightarrow> pydict \<Rightarrow> pydict option" where
  "reused_payload source value =
     (case dget value ''provenance'' of
        PDict prov \<Rightarrow> from_mapping (dset ''provenance'' (PDict (dset ''continuation_action'' (PStr ''reused'')
          (dset ''continuation_source'' (PStr source) prov))) value)
      | _ \<Rightarrow> None)"

subsection \<open>Binding a follow-up\<close>

text \<open>Who may bind: the owner of a linked request, or anyone while no live request is linked.\<close>

definition linked :: "string \<Rightarrow> string \<Rightarrow> request_db \<Rightarrow> bool" where
  "linked rid oid rdb \<longleftrightarrow> \<lparr>ln_request = rid, ln_kind = Link_batch, ln_target = oid\<rparr> \<in> set (rd_links rdb)"

definition owns_linked :: "string \<Rightarrow> string \<Rightarrow> string \<Rightarrow> request_db \<Rightarrow> bool" where
  "owns_linked rid token oid rdb \<longleftrightarrow>
     (case rq_find rid rdb of None \<Rightarrow> False | Some r \<Rightarrow> rq_owner r = token \<and> live (rq_state r)) \<and> linked rid oid rdb"

definition may_bind :: "(string \<times> string) option \<Rightarrow> string \<Rightarrow> request_db \<Rightarrow> refusal + unit" where
  "may_bind request oid rdb =
     (case request of
        Some (rid, token) \<Rightarrow> guard (owns_linked rid token oid rdb) Followup_ownership
      | None \<Rightarrow> guard (\<not> list_ex (\<lambda>r. live (rq_state r)) (linked_requests Link_batch oid rdb)) Followup_ownership_missing)"

text \<open>What becomes of a candidate: the payload and time to store, or the reason it is not used.\<close>

definition provider_known :: "pydict \<Rightarrow> pydict \<Rightarrow> bool" where
  "provider_known payload body \<longleftrightarrow>
     truthy (vget (dget (semantic_payload payload) ''actual'') ''provider'')
     \<and> list_all (\<lambda>d. truthy (vget d ''provenance_known'')) (items_of (dget body ''dependencies''))"

definition settle_candidate ::
    "pydict option \<Rightarrow> pydict \<Rightarrow> refusal + pydict option \<times> string option \<times> string option" where
  "settle_candidate stored body =
     (case stored of None \<Rightarrow> Inr (None, None, None)
      | Some raw \<Rightarrow>
          (case decode_candidate raw of None \<Rightarrow> Inl Bad_candidate
           | Some c \<Rightarrow>
               if py_eq (PDict (cd_binding c)) (PDict body) \<and> scheduled body \<and> provider_known (cd_payload c) body then
                 (case reused_payload (cd_source c) (cd_payload c) of None \<Rightarrow> Inl Bad_candidate
                  | Some p \<Rightarrow> Inr (Some p, Some (cd_completed c), None))
               else Inr (None, None, Some (if provider_known (cd_payload c) body
                 then binding_mismatch (cd_binding c) body else ''followup_candidate_unusable''))))"

definition bound_row :: "pydict \<Rightarrow> string \<Rightarrow> string option \<Rightarrow> pydict option \<times> string option \<times> string option \<Rightarrow> pass_row \<Rightarrow> pass_row" where
  "bound_row body digest prompt settled r =
     (case settled of (payload, completed, reason) \<Rightarrow>
        r\<lparr>cp_binding := Some body, cp_binding_hash := Some digest, cp_prompt := prompt, cp_candidate := None,
          cp_state := (if payload = None then Cp_pending else Cp_complete), cp_payload := payload,
          cp_completed := completed, cp_invalidation := reason\<rparr>)"

definition prompt_of :: "pydict \<Rightarrow> string option" where
  "prompt_of body = (case vget (dget body ''prompt_identity'') ''hash'' of PStr s \<Rightarrow> Some s | _ \<Rightarrow> None)"

definition followup_row :: "string \<Rightarrow> pass_kind \<Rightarrow> orch_db \<Rightarrow> pass_row option" where
  "followup_row oid k db = find (\<lambda>r. cp_orch r = oid \<and> cp_kind r = k) (db_passes db)"

definition bind_followup_checkpoint ::
    "(string \<Rightarrow> string) \<Rightarrow> request_db \<Rightarrow> string \<Rightarrow> pass_identity \<Rightarrow> pydict \<Rightarrow> string \<Rightarrow> (string \<times> string) option \<Rightarrow> orch_db
      \<Rightarrow> refusal + string \<times> orch_db" where
  "bind_followup_checkpoint H rdb oid p binding now request db =
     ebind (lift_orch (ts_arg now)) (\<lambda>_. ebind (guard (followup_kind (pi_kind p) \<and> pi_index p = 0) Followup_pass) (\<lambda>_.
     ebind (may_bind request oid rdb) (\<lambda>_.
     ebind (guard (case orch_find oid db of None \<Rightarrow> False | Some q \<Rightarrow> resumable (or_state q)) Followup_inactive) (\<lambda>_.
     ebind (lift_orch (validate_followup_binding H oid binding db)) (\<lambda>body.
     ebind (guard (dget body ''kind'' = PStr (kind_text (pi_kind p)) \<and> prompt_of body = pi_prompt p) Followup_pass) (\<lambda>_.
       case followup_row oid (pi_kind p) db of None \<Rightarrow> Inl Followup_pass
       | Some r \<Rightarrow>
          if cp_diff r \<noteq> pi_diff p \<or> cp_boundary r \<noteq> pi_boundary p then Inl Followup_pass
          else (case canonical_digest H (PDict body) of None \<Rightarrow> Inl (Refused_field Not_json)
            | Some digest \<Rightarrow>
                if cp_binding_hash r \<noteq> None then
                  (if cp_binding_hash r \<noteq> Some digest
                      \<or> Option.bind (decode_binding (cp_binding r)) (\<lambda>b. canonical_digest H (PDict b)) \<noteq> Some digest
                   then Inl Followup_bound else Inr (digest, db))
                else if cp_state r = Cp_running then Inl Followup_running
                else ebind (settle_candidate (cp_candidate r) body) (\<lambda>settled.
                  Inr (digest, pass_update (\<lambda>x. cp_orch x = oid \<and> cp_kind x = pi_kind p)
                    (bound_row body digest (prompt_of body) settled) db)))))))))"

subsection \<open>Forking a generation\<close>

text \<open>The checks of \<open>fork_continuation\<close> on its source, in their order.\<close>

definition planned_pass :: "orch_identity \<Rightarrow> pass_row \<Rightarrow> pass_identity option" where
  "planned_pass i r = find (\<lambda>p. pi_kind p = cp_kind r \<and> pi_index p = cp_index r) (oi_passes i)"

definition matches_plan :: "orch_identity \<Rightarrow> pass_row \<Rightarrow> bool" where
  "matches_plan i r \<longleftrightarrow> (case planned_pass i r of None \<Rightarrow> False
     | Some p \<Rightarrow> cp_diff r = pi_diff p \<and> cp_boundary r = pi_boundary p \<and> (pi_prompt p \<noteq> None \<longrightarrow> cp_prompt r = pi_prompt p))"

definition still_leased :: "string \<Rightarrow> pass_row \<Rightarrow> bool" where
  "still_leased now r \<longleftrightarrow> cp_state r = Cp_running
     \<and> (case cp_lease r of None \<Rightarrow> True | Some l \<Rightarrow> \<not> is_canonical_ts (PStr l) \<or> now < l)"

definition source_state_ok :: "review_lookup \<Rightarrow> orch_row \<Rightarrow> pass_row list \<Rightarrow> refusal + unit" where
  "source_state_ok reviews q rows =
     (if or_state q = Or_consumed then
        (case Option.bind (or_final q) reviews of None \<Rightarrow> Inl Source_trustworthy
         | Some v \<Rightarrow>
             if running_review v then Inl Source_trustworthy
             else if fst v \<and> \<not> scheduled_skeptic_unusable rows then Inl Source_trustworthy else Inr ())
      else guard (resumable (or_state q)) Source_unavailable)"

definition source_ok ::
    "(string \<Rightarrow> string) \<Rightarrow> (pydict \<Rightarrow> string) \<Rightarrow> review_lookup \<Rightarrow> string \<Rightarrow> orch_identity \<Rightarrow> string \<Rightarrow> orch_db
      \<Rightarrow> refusal + orch_row \<times> pass_row list" where
  "source_ok H digest reviews source i now db =
     (case orch_find source db of None \<Rightarrow> Inl Source_expired
      | Some q \<Rightarrow>
          let rows = list_checkpoints source db in
          if or_expires q \<le> now then Inl Source_expired
          else if identity_digest H (or_identity q) \<noteq> Some (or_digest q) then Inl Source_corrupt
          else if first_mismatch digest (or_identity q) i \<noteq> None then Inl Source_mismatch
          else ebind (source_state_ok reviews q rows) (\<lambda>_.
            if set (map (\<lambda>r. (cp_kind r, cp_index r)) rows) \<noteq> set (map (\<lambda>p. (pi_kind p, pi_index p)) (oi_passes i))
              then Inl Source_plan
            else if \<not> list_all (matches_plan i) rows then Inl Source_pass
            else if list_ex (still_leased now) rows then Inl Source_in_flight
            else Inr (q, rows)))"

text \<open>The passes to copy: complete ones with a payload that is usable; reading one that does not
  pass the door raises.\<close>

fun usable_rows :: "pass_row list \<Rightarrow> (pass_row \<times> pydict) list option" where
  "usable_rows [] = Some []"
| "usable_rows (r # rs) =
     (case (if cp_state r = Cp_complete then cp_payload r else None) of
        None \<Rightarrow> usable_rows rs
      | Some p \<Rightarrow>
          (case usable_payload p of None \<Rightarrow> None
           | Some u \<Rightarrow> map_option (\<lambda>xs. if u then (r, p) # xs else xs) (usable_rows rs)))"

definition batches_complete :: "orch_identity \<Rightarrow> (pass_row \<times> pydict) list \<Rightarrow> bool" where
  "batches_complete i us \<longleftrightarrow> int (length (filter (\<lambda>(r, p). cp_kind r = Batch_pass) us)) = oi_batch_count i"

definition copies :: "orch_identity \<Rightarrow> (pass_row \<times> pydict) list \<Rightarrow> (pass_row \<times> pydict) list" where
  "copies i us = filter (\<lambda>(r, p). \<not> followup_kind (cp_kind r) \<and> (cp_kind r = Integration_pass \<longrightarrow> batches_complete i us)) us"

definition copied_row :: "pass_row \<Rightarrow> pydict \<Rightarrow> pass_row \<Rightarrow> pass_row" where
  "copied_row r payload x = x\<lparr>cp_state := Cp_complete, cp_payload := Some payload, cp_completed := cp_completed r, cp_prompt := cp_prompt r\<rparr>"

fun copy_passes :: "string \<Rightarrow> string \<Rightarrow> (pass_row \<times> pydict) list \<Rightarrow> orch_db \<Rightarrow> refusal + orch_db" where
  "copy_passes source child [] db = Inr db"
| "copy_passes source child ((r, p) # us) db =
     (case reused_payload source p of None \<Rightarrow> Inl (Refused_field Bad_payload)
      | Some payload \<Rightarrow> copy_passes source child us
          (pass_update (the_pass child (cp_kind r) (cp_index r)) (copied_row r payload) db))"

text \<open>\<open>_seed_followup_candidates\<close>.\<close>

definition seed_of :: "(string \<Rightarrow> string) \<Rightarrow> string \<Rightarrow> orch_db \<Rightarrow> pass_row \<Rightarrow> refusal + pydict option" where
  "seed_of H source db r =
     (if cp_state r = Cp_complete \<and> cp_payload r \<noteq> None then
        (if \<not> followup_usable (the (cp_payload r)) then Inr None
         else (case decode_binding (cp_binding r) of None \<Rightarrow> Inl Bad_candidate
           | Some body \<Rightarrow> ebind (lift_orch (validate_followup_binding H source body db)) (\<lambda>_.
               ebind (candidate_of H r source) (\<lambda>c. Inr (Some c)))))
      else (case cp_candidate r of None \<Rightarrow> Inr None
        | Some c \<Rightarrow> if decode_candidate c = None then Inl Bad_candidate else Inr (Some c)))"

fun seed_followups :: "(string \<Rightarrow> string) \<Rightarrow> string \<Rightarrow> string \<Rightarrow> pass_row list \<Rightarrow> orch_db \<Rightarrow> refusal + orch_db" where
  "seed_followups H source child [] db = Inr db"
| "seed_followups H source child (r # rs) db =
     (if \<not> followup_kind (cp_kind r) then seed_followups H source child rs db
      else ebind (seed_of H source db r) (\<lambda>seed.
        seed_followups H source child rs
          (case seed of None \<Rightarrow> db
           | Some c \<Rightarrow> pass_update (\<lambda>x. cp_orch x = child \<and> cp_kind x = cp_kind r) (\<lambda>x. x\<lparr>cp_candidate := Some c\<rparr>) db)))"

record fork_args =
  fa_source :: string
  fa_identity :: orch_identity
  fa_request :: string
  fa_owner :: string
  fa_created :: string
  fa_expires :: string

definition fork_checked ::
    "(string \<Rightarrow> string) \<Rightarrow> (pydict \<Rightarrow> string) \<Rightarrow> review_lookup \<Rightarrow> string \<Rightarrow> fork_args \<Rightarrow> orch_db \<Rightarrow> request_db
      \<Rightarrow> refusal + orch_row \<times> orch_db \<times> request_db" where
  "fork_checked H digest reviews child a db rdb =
     (let source = fa_source a; i = fa_identity a; ci = i\<lparr>oi_source := Some source\<rparr> in
      ebind (guard (owns_linked (fa_request a) (fa_owner a) source rdb) Request_ownership) (\<lambda>_.
      ebind (source_ok H digest reviews source i (fa_created a) db) (\<lambda>(q, rows).
        case newest (filter (\<lambda>r. Some (or_digest r) = identity_digest H ci \<and> or_state r \<noteq> Or_expired) (db_orchs db)) of
          Some r \<Rightarrow> Inr (r, db, rdb)
        | None \<Rightarrow>
            ebind (lift_orch (insert_orchestration H child ci (or_mode q) (fa_created a) (fa_expires a) db)) (\<lambda>db1.
              case usable_rows rows of None \<Rightarrow> Inl (Refused_field Bad_payload)
              | Some us \<Rightarrow>
                  ebind (copy_passes source child (copies i us) db1) (\<lambda>db2.
                  ebind (seed_followups H source child rows db2) (\<lambda>db3.
                  ebind (map_sum Refused_request id (link_request (fa_request a) Link_batch child rdb)) (\<lambda>rdb'.
                    case orch_find child db3 of None \<Rightarrow> Inl (Refused_field Missing_orchestration)
                    | Some r \<Rightarrow> Inr (r, db3, rdb'))))))))"

definition fork_continuation ::
    "(string \<Rightarrow> string) \<Rightarrow> (pydict \<Rightarrow> string) \<Rightarrow> review_lookup \<Rightarrow> string \<Rightarrow> fork_args \<Rightarrow> orch_db \<Rightarrow> request_db
      \<Rightarrow> refusal + orch_row \<times> orch_db \<times> request_db" where
  "fork_continuation H digest reviews child a db rdb =
     ebind (lift_orch (text_arg (fa_source a))) (\<lambda>source. ebind (lift_orch (text_arg (fa_request a))) (\<lambda>request.
     ebind (lift_orch (text_arg (fa_owner a))) (\<lambda>owner. ebind (lift_orch (ts_arg (fa_created a))) (\<lambda>created.
     ebind (lift_orch (ts_arg (fa_expires a))) (\<lambda>expires.
     ebind (guard (created < expires) (Refused_field Bad_lease)) (\<lambda>_.
       fork_checked H digest reviews child (a\<lparr>fa_source := source, fa_request := request, fa_owner := owner\<rparr>) db rdb))))))"

subsection \<open>Publication\<close>

text \<open>What the record of a publication must say of a scheduled follow-up: \<open>expected\<close> of
  \<open>_require_followup_publication\<close>. Values are compared with their types, as the source does.\<close>

definition expected_metadata :: "pass_kind \<Rightarrow> pydict \<Rightarrow> pydict" where
  "expected_metadata k value =
     (if dget value ''parse_ok'' = PBool True
      then [(''parse_ok'', PBool True), (''degraded'', dget value ''degraded''), (''diff_truncated'', dget value ''diff_truncated''),
            (''findings_total'', PInt (int (length (items_of (dget value ''findings'')))))]
      else [(''failed'', PBool True)])
     @ [(''pass'', PStr (kind_text k)), (''ran'', dget value ''parse_ok'')]
     @ picks [''provider'', ''model'', ''effort''] (dget value ''provenance'')"

definition metadata_of :: "pydict \<Rightarrow> pass_kind \<Rightarrow> pydict" where
  "metadata_of rec k = (case vget (dget rec ''extra_passes'') (kind_text k) of PDict d \<Rightarrow> d | _ \<Rightarrow> [])"

definition output_matches :: "(string \<Rightarrow> string) \<Rightarrow> pydict \<Rightarrow> pass_kind \<Rightarrow> pydict \<Rightarrow> bool" where
  "output_matches H rec k value \<longleftrightarrow>
     (let m = metadata_of rec k in
      map_option PStr (canonical_digest H (PDict (semantic_payload value))) = Some (dget m ''followup_output_hash'')
      \<and> \<not> (dget value ''parse_ok'' = PBool True \<and> dget m ''failed'' = PBool True)
      \<and> list_all (\<lambda>(key, v). py_eq (dget m key) v) (expected_metadata k value)
      \<and> py_eq (dget m ''attempts'') (dget value ''attempts''))"

definition followup_published :: "(string \<Rightarrow> string) \<Rightarrow> string \<Rightarrow> pydict \<Rightarrow> orch_db \<Rightarrow> pass_row \<Rightarrow> bool" where
  "followup_published H oid rec db r \<longleftrightarrow>
     cp_candidate r = None
     \<and> (case decode_binding (cp_binding r) of None \<Rightarrow> False
        | Some b \<Rightarrow>
            (case validate_followup_binding H oid b db of Inl _ \<Rightarrow> False
             | Inr body \<Rightarrow>
                 canonical_digest H (PDict body) = cp_binding_hash r \<and> cp_binding_hash r \<noteq> None \<and> cp_prompt r = prompt_of body
                 \<and> (scheduled body \<longrightarrow>
                      (case (cp_state r, cp_payload r) of
                         (Cp_complete, Some value) \<Rightarrow>
                           output_matches H rec (cp_kind r) value
                           \<and> (truthy (dget rec ''trustworthy'') \<and> cp_kind r \<noteq> Skeptic_pass \<longrightarrow> followup_usable value)
                       | _ \<Rightarrow> False))))"

definition require_followup_publication :: "(string \<Rightarrow> string) \<Rightarrow> string \<Rightarrow> pydict \<Rightarrow> orch_db \<Rightarrow> bool" where
  "require_followup_publication H oid rec db \<longleftrightarrow>
     (case orch_find oid db of None \<Rightarrow> False
      | Some q \<Rightarrow>
          let rows = filter (\<lambda>r. followup_kind (cp_kind r)) (list_checkpoints oid db) in
          set (map cp_kind rows) = set (filter followup_kind (map pi_kind (oi_passes (or_identity q))))
          \<and> list_all (followup_published H oid rec db) rows)"

text \<open>The orchestration's side of \<open>save_checkpointed_review\<close>: the record \<open>rec\<close> is the one written.\<close>

definition publish_checkpointed :: "(string \<Rightarrow> string) \<Rightarrow> string \<Rightarrow> string \<Rightarrow> string \<Rightarrow> pydict \<Rightarrow> string \<Rightarrow> orch_db \<Rightarrow> refusal + orch_db" where
  "publish_checkpointed H oid dg rid rec at db =
     ebind (lift_orch (require_complete oid dg db)) (\<lambda>_.
     ebind (guard (require_followup_publication H oid rec db) Followup_pass) (\<lambda>_.
       lift_orch (consume_in_transaction oid rid at db)))"

text \<open>The orchestration's side of \<open>finalize_review\<close>, the writer of a background worker, for a record that names one
  and is applied: it does not look at the follow-ups, and it lets a failed, degraded record be kept while passes are
  still open, which consumes nothing.\<close>

definition finalize_orchestration :: "string \<Rightarrow> string \<Rightarrow> string \<Rightarrow> pydict \<Rightarrow> string \<Rightarrow> orch_db \<Rightarrow> orch_error + orch_db" where
  "finalize_orchestration oid dg rid rec at db =
     (case require_complete oid dg db of
        Inr _ \<Rightarrow> consume_in_transaction oid rid at db
      | Inl why \<Rightarrow>
          if dget rec ''status'' = PStr ''failed'' \<and> dget rec ''degraded'' = PBool True \<and> why = Not_planned then Inr db
          else Inl why)"

end
