(* ===== verification/OrchProps.thy ===== *)
theory OrchProps
  imports Continuation
begin

section \<open>Orchestrations as a machine\<close>

text \<open>
  Every operation on the orchestration tables is a step of \<open>or_step\<close>; the hash, the tables a
  step only reads and the arguments are arbitrary. The invariant \<open>or_ok\<close> says that rows keep
  their keys and that the passes of an orchestration are those of its plan. Two facts hold
  between any two states of a run: passes persist and their fences grow, and a complete pass
  stays as it is until its payload expires. The properties follow.
\<close>

inductive or_step :: "(string \<Rightarrow> string) \<Rightarrow> (pydict \<Rightarrow> string) \<Rightarrow> orch_db \<Rightarrow> orch_db \<Rightarrow> bool" for H digest where
  or_create: "create_orchestration H oid i mode created expires reuse db = Inr (r, db') \<Longrightarrow> or_step H digest db db'"
| or_note: "record_orchestration_mismatch oid field at db = Inr (b, db') \<Longrightarrow> or_step H digest db db'"
| or_claim: "claim_checkpoint H token oid p owner now lease bh db = Inr (c, db') \<Longrightarrow> or_step H digest db db'"
| or_finish: "complete_checkpoint H oid kind i owner token fence payload at bh db = Inr (b, db') \<Longrightarrow> or_step H digest db db'"
| or_release: "release_checkpoint oid kind i owner token fence reason at db = Inr (b, db') \<Longrightarrow> or_step H digest db db'"
| or_expire: "expire_orchestrations now db = Inr (n, db') \<Longrightarrow> or_step H digest db db'"
| or_bind: "bind_followup_checkpoint H rdb oid p binding now request db = Inr (d, db') \<Longrightarrow> or_step H digest db db'"
| or_fork: "fork_continuation H digest reviews child a db rdb = Inr (r, db', rdb') \<Longrightarrow> or_step H digest db db'"
| or_publish: "require_complete oid dg db = Inr () \<Longrightarrow> consume_in_transaction oid rid at db = Inr db' \<Longrightarrow> or_step H digest db db'"
| or_reopen: "or_step H digest db (reopen_consumed oid rid why at db)"

definition empty_orchs :: orch_db where
  "empty_orchs = \<lparr>db_orchs = [], db_passes = []\<rparr>"

subsection \<open>Elementary changes\<close>

text \<open>Every step either updates rows in place or inserts an orchestration with its passes. An update
  keeps keys and hashes, lowers no fence, completes a pass only with a payload that went through
  the door, and touches a complete pass only by dropping its payload when its orchestration has
  expired.\<close>

definition pass_key :: "pass_row \<Rightarrow> string \<times> pass_kind \<times> int" where
  "pass_key r = (cp_orch r, cp_kind r, cp_index r)"

definition pass_plan :: "pass_row \<Rightarrow> pass_kind \<times> int \<times> string \<times> string" where
  "pass_plan r = (cp_kind r, cp_index r, cp_diff r, cp_boundary r)"

definition plan_of :: "pass_identity \<Rightarrow> pass_kind \<times> int \<times> string \<times> string" where
  "plan_of p = (pi_kind p, pi_index p, pi_diff p, pi_boundary p)"

definition expired_in :: "orch_db \<Rightarrow> string \<Rightarrow> bool" where
  "expired_in db oid \<longleftrightarrow> (\<exists>q \<in> set (db_orchs db). or_id q = oid \<and> or_state q = Or_expired)"

definition door :: "pass_row \<Rightarrow> bool" where
  "door r \<longleftrightarrow> (\<exists>p raw. cp_payload r = Some p \<and> from_mapping raw = Some p)"

definition bound :: "pass_row \<Rightarrow> bool" where
  "bound r \<longleftrightarrow> (followup_kind (cp_kind r) \<longrightarrow> cp_binding_hash r \<noteq> None)"

definition orch_change :: "orch_row \<Rightarrow> orch_row \<Rightarrow> bool" where
  "orch_change q x \<longleftrightarrow> or_id x = or_id q \<and> or_identity x = or_identity q \<and> or_digest x = or_digest q
     \<and> (or_state q = Or_expired \<longrightarrow> or_state x = Or_expired)"

definition pass_kept :: "orch_db \<Rightarrow> pass_row \<Rightarrow> pass_row \<Rightarrow> bool" where
  "pass_kept db r x \<longleftrightarrow> cp_orch x = cp_orch r \<and> pass_plan x = pass_plan r \<and> cp_fence r \<le> cp_fence x
     \<and> (bound r \<longrightarrow> bound x)
     \<and> (cp_state r = Cp_complete \<and> bound r \<longrightarrow> cp_state x = Cp_complete
          \<and> (cp_payload x = cp_payload r \<or> cp_payload x = None \<and> expired_in db (cp_orch r)))"

definition pass_change :: "orch_db \<Rightarrow> pass_row \<Rightarrow> pass_row \<Rightarrow> bool" where
  "pass_change db r x \<longleftrightarrow> pass_kept db r x \<and> (cp_state x = Cp_complete \<longrightarrow> cp_state r = Cp_complete \<or> bound x \<and> door x)"

definition fresh_pass :: "string \<Rightarrow> pass_identity \<Rightarrow> pass_row \<Rightarrow> bool" where
  "fresh_pass oid p r \<longleftrightarrow> cp_orch r = oid \<and> pass_plan r = plan_of p \<and> cp_fence r = 0
     \<and> (cp_state r = Cp_pending \<or> cp_state r = Cp_complete \<and> door r \<and> \<not> followup_kind (cp_kind r))"

inductive change :: "orch_db \<Rightarrow> orch_db \<Rightarrow> bool" where
  ch_update: "db_orchs db' = map F (db_orchs db) \<Longrightarrow> db_passes db' = map G (db_passes db) \<Longrightarrow>
    \<forall>q \<in> set (db_orchs db). orch_change q (F q) \<Longrightarrow> \<forall>r \<in> set (db_passes db). pass_change db' r (G r) \<Longrightarrow> change db db'"
| ch_insert: "or_id q \<notin> or_id ` set (db_orchs db) \<Longrightarrow> db_orchs db' = db_orchs db @ [q] \<Longrightarrow>
    db_passes db' = db_passes db @ news \<Longrightarrow> list_all2 (fresh_pass (or_id q)) (oi_passes (or_identity q)) news \<Longrightarrow>
    distinct (map (\<lambda>p. (pi_kind p, pi_index p)) (oi_passes (or_identity q))) \<Longrightarrow>
    \<forall>p \<in> set (oi_passes (or_identity q)). followup_kind (pi_kind p) \<longrightarrow> pi_index p = 0 \<Longrightarrow> change db db'"

lemma orch_change_refl [simp]: "orch_change q q"
  by (simp add: orch_change_def)

lemma pass_change_refl [simp]: "pass_change db r r"
  by (simp add: pass_change_def pass_kept_def)

lemma change_refl: "change db db"
  by (rule ch_update [where F = "\<lambda>q. q" and G = "\<lambda>r. r"]) simp_all

lemma update_maps:
  "db_orchs (orch_update p f db) = map (\<lambda>q. if p q then f q else q) (db_orchs db)"
  "db_passes (orch_update p f db) = db_passes db"
  "db_passes (pass_update p' g db) = map (\<lambda>r. if p' r then g r else r) (db_passes db)"
  "db_orchs (pass_update p' g db) = db_orchs db"
  by (simp_all add: orch_update_def pass_update_def tbl_update_def)

lemma change_updates:
  assumes "\<And>q. q \<in> set (db_orchs db) \<Longrightarrow> p q \<Longrightarrow> orch_change q (f q)"
    and "\<And>r. r \<in> set (db_passes db) \<Longrightarrow> p' r \<Longrightarrow> pass_change (orch_update p f (pass_update p' g db)) r (g r)"
  shows "change db (orch_update p f (pass_update p' g db))"
  by (rule ch_update [where F = "\<lambda>q. if p q then f q else q" and G = "\<lambda>r. if p' r then g r else r"])
    (use assms in \<open>auto simp: update_maps\<close>)

lemma change_orchs:
  "(\<And>q. q \<in> set (db_orchs db) \<Longrightarrow> p q \<Longrightarrow> orch_change q (f q)) \<Longrightarrow> change db (orch_update p f db)"
  by (rule ch_update [where F = "\<lambda>q. if p q then f q else q" and G = "\<lambda>r. r"]) (auto simp: update_maps)

lemma change_passes:
  "(\<And>r. r \<in> set (db_passes db) \<Longrightarrow> p' r \<Longrightarrow> pass_change (pass_update p' g db) r (g r)) \<Longrightarrow> change db (pass_update p' g db)"
  by (rule ch_update [where F = "\<lambda>q. q" and G = "\<lambda>r. if p' r then g r else r"]) (auto simp: update_maps)

subsubsection \<open>Each operation\<close>

lemma note_change: "record_orchestration_mismatch oid field at db = Inr (b, db') \<Longrightarrow> change db db'"
  by (auto simp: record_orchestration_mismatch_def ebind_Inr_iff Let_def orch_change_def intro!: change_orchs)

lemma publish_change: "consume_in_transaction oid rid at db = Inr db' \<Longrightarrow> change db db'"
  by (auto simp: consume_in_transaction_def Let_def orch_change_def resumable_def split: if_splits intro!: change_orchs)

lemma reopen_change: "change db (reopen_consumed oid rid why at db)"
  by (auto simp: reopen_consumed_def orch_change_def intro!: change_orchs)

lemma insert_change:
  assumes "insert_orchestration H oid i mode created expires db = Inr db'"
  obtains q where "q = \<lparr>or_id = oid, or_state = Or_active, or_mode = mode, or_created = created, or_updated = created,
        or_expires = expires, or_final = None, or_identity = i, or_digest = or_digest q, or_reason = None, or_mismatch = None\<rparr>"
    "or_id q = oid" "or_identity q = i" "oid \<notin> or_id ` set (db_orchs db)" "db_orchs db' = db_orchs db @ [q]"
    "db_passes db' = db_passes db @ map (pending_pass oid) (oi_passes i)" "or_state q = Or_active"
    "distinct (map (\<lambda>p. (pi_kind p, pi_index p)) (oi_passes i))" "Some (or_digest q) = identity_digest H i"
    "\<forall>p \<in> set (oi_passes i). followup_kind (pi_kind p) \<longrightarrow> pi_index p = 0"
proof -
  from assms obtain dg where dg: "identity_digest H i = Some dg" by (auto simp: insert_orchestration_def split: option.splits)
  let ?q = "\<lparr>or_id = oid, or_state = Or_active, or_mode = mode, or_created = created, or_updated = created,
        or_expires = expires, or_final = None, or_identity = i, or_digest = dg, or_reason = None, or_mismatch = None\<rparr>"
  show thesis
    by (rule that [of ?q]) (use assms dg in \<open>auto simp: insert_orchestration_def tbl_find_None_iff list_ex_iff split: if_splits\<close>)
qed

lemma pending_fresh: "fresh_pass oid p (pending_pass oid p)"
  by (simp add: fresh_pass_def pending_pass_def pass_plan_def plan_of_def)

lemma insert_is_change: "insert_orchestration H oid i mode created expires db = Inr db' \<Longrightarrow> change db db'"
  by (erule insert_change, rule ch_insert) (auto simp: list_all2_map2 list_all2_same pending_fresh)

lemma create_change: "create_orchestration H oid i mode created expires reuse db = Inr (r, db') \<Longrightarrow> change db db'"
  by (auto simp: create_orchestration_def ebind_Inr_iff split: if_splits option.splits
      intro: change_refl insert_is_change)

text \<open>The keys of both tables are unique.\<close>

definition keys_ok :: "orch_db \<Rightarrow> bool" where
  "keys_ok db \<longleftrightarrow> keyed or_id (db_orchs db) \<and> distinct (map pass_key (db_passes db))"

lemma the_pass_key: "the_pass oid k i r \<longleftrightarrow> pass_key r = (oid, k, i)"
  by (auto simp: the_pass_def pass_key_def)

lemma pass_unique: "keys_ok db \<Longrightarrow> r \<in> set (db_passes db) \<Longrightarrow> x \<in> set (db_passes db) \<Longrightarrow> pass_key r = pass_key x \<Longrightarrow> r = x"
  by (auto simp: keys_ok_def distinct_map inj_on_def)

lemma orch_unique: "keys_ok db \<Longrightarrow> orch_find oid db = Some q \<Longrightarrow> x \<in> set (db_orchs db) \<Longrightarrow> or_id x = oid \<Longrightarrow> x = q"
  by (auto simp: keys_ok_def dest: tbl_find_Some_mem keyed_unique)

lemma pass_find_Some: "pass_find oid k i db = Some r \<Longrightarrow> r \<in> set (db_passes db) \<and> pass_key r = (oid, k, i)"
  by (auto simp: pass_find_def find_Some_iff the_pass_key)

lemma pass_update_twice:
  "(\<And>r. p r \<Longrightarrow> p (f r)) \<Longrightarrow> pass_update p g (pass_update p f db) = pass_update p (\<lambda>r. g (f r)) db"
  by (auto simp: pass_update_def tbl_update_def)

lemma orch_pass_update: "pass_update p' g (orch_update p f db) = orch_update p f (pass_update p' g db)"
  by (simp add: pass_update_def orch_update_def)

lemma planned_row_Inr:
  assumes "planned_row H oid p bh db = Inr r"
  obtains q where "orch_find oid db = Some q" "resumable (or_state q)" "pass_find oid (pi_kind p) (pi_index p) db = Some r"
    "cp_diff r = pi_diff p" "cp_boundary r = pi_boundary p" "cp_prompt r = None \<or> cp_prompt r = pi_prompt p"
    "followup_kind (pi_kind p) \<Longrightarrow> require_followup_claim_binding H oid r bh db = Inr ()"
  using assms by (auto simp: planned_row_def ebind_Inr_iff split: option.splits if_splits)

text \<open>What a claim can have done: nothing but filling in the prompt, or a new fenced claim.\<close>

lemma claim_cases:
  assumes "claim_checkpoint H token oid p owner now lease bh db = Inr (c, db')" and "keys_ok db"
  obtains (looked) r where "planned_row H (strip oid) p bh db = Inr r"
      "db' = pass_update (the_pass (strip oid) (pi_kind p) (pi_index p)) (\<lambda>x. x\<lparr>cp_prompt := pi_prompt p\<rparr>) db \<or> db' = db"
      "c = Already_complete r \<and> cp_state r = Cp_complete \<or> c = In_flight r \<and> lease_live now r"
  | (claimed) r where "planned_row H (strip oid) p bh db = Inr r" "cp_state r \<noteq> Cp_complete" "\<not> lease_live now r" "now < lease"
      "c = Claimed (claimed_row token (strip owner) now lease (r\<lparr>cp_prompt := pi_prompt p\<rparr>))"
      "db' = orch_update (\<lambda>q. or_id q = strip oid)
        (\<lambda>q. q\<lparr>or_state := Or_active, or_updated := now, or_expires := (if or_expires q < lease then lease else or_expires q)\<rparr>)
        (pass_update (the_pass (strip oid) (pi_kind p) (pi_index p))
          (\<lambda>x. claimed_row token (strip owner) now lease (x\<lparr>cp_prompt := pi_prompt p\<rparr>)) db)"
proof -
  let ?hit = "the_pass (strip oid) (pi_kind p) (pi_index p)"
  from assms(1) obtain r where r: "planned_row H (strip oid) p bh db = Inr r" and lt: "now < lease"
    and res: "(let db1 = (if cp_prompt r = None then pass_update ?hit (\<lambda>x. x\<lparr>cp_prompt := pi_prompt p\<rparr>) db else db) in
         if cp_state r = Cp_complete then (Already_complete r, db1)
         else if lease_live now r then (In_flight r, db1)
         else (Claimed (claimed_row token (strip owner) now lease (r\<lparr>cp_prompt := pi_prompt p\<rparr>)),
           orch_update (\<lambda>q. or_id q = strip oid)
             (\<lambda>q. q\<lparr>or_state := Or_active, or_updated := now, or_expires := (if or_expires q < lease then lease else or_expires q)\<rparr>)
             (pass_update ?hit (claimed_row token (strip owner) now lease) db1))) = (c, db')"
    by (auto simp: claim_checkpoint_def ebind_Inr_iff text_arg_def checkpoint_text_def ts_arg_def Let_def split: if_splits)
  show thesis
  proof (cases "cp_state r = Cp_complete \<or> lease_live now r")
    case True
    with res show thesis by (intro looked [OF r]) (auto simp: Let_def split: if_splits)
  next
    case False
    from r obtain q where f: "pass_find (strip oid) (pi_kind p) (pi_index p) db = Some r"
      and pr: "cp_prompt r = None \<or> cp_prompt r = pi_prompt p" by (rule planned_row_Inr)
    have same: "pass_update ?hit (claimed_row token (strip owner) now lease)
        (if cp_prompt r = None then pass_update ?hit (\<lambda>x. x\<lparr>cp_prompt := pi_prompt p\<rparr>) db else db)
      = pass_update ?hit (\<lambda>x. claimed_row token (strip owner) now lease (x\<lparr>cp_prompt := pi_prompt p\<rparr>)) db"
    proof (cases "cp_prompt r = None")
      case True
      then show ?thesis by simp (rule pass_update_twice, simp add: the_pass_def)
    next
      case False
      have "x\<lparr>cp_prompt := pi_prompt p\<rparr> = x" if "x \<in> set (db_passes db)" "?hit x" for x
        using pass_unique [OF assms(2) that(1)] pass_find_Some [OF f] that(2) pr False by (auto simp: the_pass_key)
      with False show ?thesis by (auto simp: pass_update_def tbl_update_def)
    qed
    with False res r lt show thesis by (intro claimed [OF r]) (auto simp: Let_def)
  qed
qed

lemma claim_change:
  assumes "claim_checkpoint H token oid p owner now lease bh db = Inr (c, db')" and ok: "keys_ok db"
  shows "change db db'"
  using assms
proof (cases rule: claim_cases)
  case (looked r)
  have "change db (pass_update (the_pass (strip oid) (pi_kind p) (pi_index p)) (\<lambda>x. x\<lparr>cp_prompt := pi_prompt p\<rparr>) db)"
    by (rule change_passes) (simp add: pass_change_def pass_kept_def pass_plan_def bound_def)
  with looked show ?thesis by (auto intro: change_refl)
next
  case (claimed r)
  from claimed(1) obtain q where q: "orch_find (strip oid) db = Some q" "resumable (or_state q)"
    and f: "pass_find (strip oid) (pi_kind p) (pi_index p) db = Some r" by (rule planned_row_Inr)
  show ?thesis unfolding claimed(6)
  proof (rule change_updates)
    fix x assume "x \<in> set (db_orchs db)" "or_id x = strip oid"
    with orch_unique [OF ok q(1)] q(2) show "orch_change x (x\<lparr>or_state := Or_active, or_updated := now,
        or_expires := (if or_expires x < lease then lease else or_expires x)\<rparr>)"
      by (auto simp: orch_change_def resumable_def)
  next
    fix x assume "x \<in> set (db_passes db)" "the_pass (strip oid) (pi_kind p) (pi_index p) x"
    with pass_unique [OF ok] pass_find_Some [OF f] have "x = r" by (metis the_pass_key)
    with claimed(2) show "pass_change (orch_update (\<lambda>q. or_id q = strip oid)
        (\<lambda>q. q\<lparr>or_state := Or_active, or_updated := now, or_expires := (if or_expires q < lease then lease else or_expires q)\<rparr>)
        (pass_update (the_pass (strip oid) (pi_kind p) (pi_index p))
          (\<lambda>x. claimed_row token (strip owner) now lease (x\<lparr>cp_prompt := pi_prompt p\<rparr>)) db))
        x (claimed_row token (strip owner) now lease (x\<lparr>cp_prompt := pi_prompt p\<rparr>))"
      by (simp add: pass_change_def pass_kept_def pass_plan_def claimed_row_def bound_def)
  qed
qed

lemma fenced_change:
  assumes "fenced_update oid k i owner token fence f at db = (b, db')"
    and "\<And>r db''. r \<in> set (db_passes db) \<Longrightarrow> the_pass oid k i r \<Longrightarrow> held_by owner token fence r \<Longrightarrow> pass_change db'' r (f r)"
  shows "change db db'"
proof -
  have "change db (orch_update (\<lambda>q. or_id q = oid) (\<lambda>q. q\<lparr>or_updated := at\<rparr>)
      (pass_update (\<lambda>r. the_pass oid k i r \<and> held_by owner token fence r) f db))"
    by (rule change_updates) (use assms(2) in \<open>auto simp: orch_change_def\<close>)
  moreover have "change db (pass_update (\<lambda>r. the_pass oid k i r \<and> held_by owner token fence r) f db)"
    by (rule change_passes) (use assms(2) in auto)
  ultimately show ?thesis
    using assms(1) by (auto simp: fenced_update_def Let_def split: if_splits)
qed

lemma pass_args_Inr: "pass_args oid kind i owner token fence = Inr (a, b, c, d) \<longleftrightarrow>
    strip oid \<noteq> [] \<and> a = strip oid \<and> strip kind \<noteq> [] \<and> b = strip kind \<and> 0 \<le> i \<and> strip owner \<noteq> [] \<and> length (strip owner) \<le> 4096
    \<and> c = strip owner \<and> strip token \<noteq> [] \<and> d = strip token \<and> 0 \<le> fence"
  by (auto simp: pass_args_def ebind_Inr_iff text_arg_def checkpoint_text_def split: if_splits)

definition completed :: "pydict \<Rightarrow> string \<Rightarrow> pass_row \<Rightarrow> pass_row" where
  "completed stored at r = unclaimed (r\<lparr>cp_state := Cp_complete, cp_payload := Some stored, cp_completed := Some at, cp_failure := None\<rparr>)"

lemma complete_Inr:
  assumes "complete_checkpoint H oid kind i owner token fence payload at bh db = Inr (b, db')"
  obtains stored k where "from_mapping payload = Some stored" "kind_of (strip kind) = Some k"
    "fenced_update (strip oid) k i (strip owner) (strip token) (nat fence) (completed stored at) at db = (b, db')" "0 \<le> fence"
    "followup_kind k \<Longrightarrow> \<exists>r. followup_row (strip oid) k db = Some r \<and> require_followup_claim_binding H (strip oid) r bh db = Inr ()"
proof -
  have step: "(\<lambda>r. unclaimed (r\<lparr>cp_state := Cp_complete, cp_payload := Some stored, cp_completed := Some at, cp_failure := None\<rparr>))
      = completed stored at" for stored by (rule ext) (simp add: completed_def)
  from assms obtain stored k where 1: "from_mapping payload = Some stored" "kind_of (strip kind) = Some k" "0 \<le> fence"
    and 2: "fenced_update (strip oid) k i (strip owner) (strip token) (nat fence) (completed stored at) at db = (b, db')"
    and 3: "(if followup_kind k then (case find (\<lambda>r. cp_orch r = strip oid \<and> cp_kind r = k) (db_passes db) of None \<Rightarrow> Inl Missing_followup
        | Some r \<Rightarrow> require_followup_claim_binding H (strip oid) r bh db) else Inr ()) = Inr ()"
    unfolding step [symmetric]
    by (cases "from_mapping payload"; cases "kind_of (strip kind)")
      (auto simp: complete_checkpoint_def ebind_Inr_iff pass_args_Inr ts_arg_def simp del: split_paired_Ex split: if_splits)
  from 1 2 3 show thesis
    by (intro that [of stored k]) (auto simp: followup_row_def split: option.splits)
qed

definition released :: "string \<Rightarrow> pass_row \<Rightarrow> pass_row" where
  "released reason r = unclaimed (r\<lparr>cp_state := Cp_pending, cp_failure := Some reason\<rparr>)"

lemma release_Inr:
  assumes "release_checkpoint oid kind i owner token fence reason at db = Inr (b, db')"
  obtains k where "kind_of (strip kind) = Some k" "0 \<le> fence"
    "fenced_update (strip oid) k i (strip owner) (strip token) (nat fence) (released (strip reason)) at db = (b, db')"
proof -
  have step: "(\<lambda>r. unclaimed (r\<lparr>cp_state := Cp_pending, cp_failure := Some reason\<rparr>)) = released reason" for reason
    by (rule ext) (simp add: released_def)
  from assms show thesis
    unfolding release_checkpoint_def step
    by (cases "kind_of (strip kind)")
      (auto simp: ebind_Inr_iff pass_args_Inr ts_arg_def checkpoint_text_def text_arg_def split: if_splits intro: that)
qed

text \<open>Follow-up passes have index 0, so there is one of a kind in an orchestration.\<close>

definition followups_single :: "orch_db \<Rightarrow> bool" where
  "followups_single db \<longleftrightarrow> (\<forall>r \<in> set (db_passes db). followup_kind (cp_kind r) \<longrightarrow> cp_index r = 0)"

lemma followup_unique:
  "keys_ok db \<Longrightarrow> followups_single db \<Longrightarrow> followup_row oid k db = Some r \<Longrightarrow> followup_kind k \<Longrightarrow> x \<in> set (db_passes db)
    \<Longrightarrow> cp_orch x = oid \<Longrightarrow> cp_kind x = k \<Longrightarrow> x = r"
  by (rule pass_unique [of db]) (auto simp: followup_row_def find_Some_iff followups_single_def pass_key_def)

lemma require_binding_bound: "require_followup_claim_binding H oid r bh db = Inr () \<Longrightarrow> cp_binding_hash r \<noteq> None"
  by (auto simp: require_followup_claim_binding_def split: if_splits)

lemma complete_change:
  assumes "complete_checkpoint H oid kind i owner token fence payload at bh db = Inr (b, db')"
    and ok: "keys_ok db" "followups_single db"
  shows "change db db'"
  using assms(1)
proof (rule complete_Inr)
  fix stored k
  assume st: "from_mapping payload = Some stored"
    and up: "fenced_update (strip oid) k i (strip owner) (strip token) (nat fence) (completed stored at) at db = (b, db')"
    and fu: "followup_kind k \<Longrightarrow> \<exists>r. followup_row (strip oid) k db = Some r \<and> require_followup_claim_binding H (strip oid) r bh db = Inr ()"
  from up show ?thesis
  proof (rule fenced_change)
    fix r db''
    assume r: "r \<in> set (db_passes db)" "the_pass (strip oid) k i r" "held_by (strip owner) (strip token) (nat fence) r"
    then have "bound r"
      using fu followup_unique [OF ok _ _ r(1)] require_binding_bound unfolding bound_def the_pass_def by metis
    with r st show "pass_change db'' r (completed stored at r)"
      by (auto simp: pass_change_def pass_kept_def pass_plan_def completed_def unclaimed_def held_by_def bound_def door_def)
  qed
qed

lemma release_change:
  assumes "release_checkpoint oid kind i owner token fence reason at db = Inr (b, db')"
  shows "change db db'"
  using assms
proof (rule release_Inr)
  fix k
  assume "fenced_update (strip oid) k i (strip owner) (strip token) (nat fence) (released (strip reason)) at db = (b, db')"
  then show ?thesis
    by (rule fenced_change) (auto simp: pass_change_def pass_kept_def pass_plan_def released_def unclaimed_def held_by_def bound_def)
qed

lemma expire_change:
  assumes "expire_orchestrations now db = Inr (n, db')"
  shows "change db db'"
proof -
  let ?due = "\<lambda>q. resumable (or_state q) \<and> or_expires q \<le> now"
  let ?late = "\<lambda>q. q\<lparr>or_state := Or_expired, or_updated := now, or_reason := Some ''checkpoint retention expired''\<rparr>"
  let ?drop = "\<lambda>r. if followup_kind (cp_kind r) then r\<lparr>cp_payload := None, cp_candidate := None\<rparr> else r\<lparr>cp_payload := None\<rparr>"
  let ?db = "orch_update ?due ?late db"
  let ?gone = "\<lambda>r. cp_orch r \<in> or_id ` set (filter (\<lambda>q. or_state q = Or_expired \<and> or_expires q \<le> now) (db_orchs ?db))"
  from assms have db': "db' = orch_update ?due ?late (pass_update ?gone ?drop db)"
    by (auto simp: expire_orchestrations_def ebind_Inr_iff ts_arg_def Let_def orch_pass_update split: if_splits)
  have ex: "expired_in db' (cp_orch r)" if "?gone r" for r
  proof -
    have "db_orchs db' = db_orchs ?db" unfolding db' update_maps ..
    moreover from that obtain x where "cp_orch r = or_id x" "x \<in> set (db_orchs ?db)" "or_state x = Or_expired"
      unfolding set_filter by blast
    ultimately show ?thesis unfolding expired_in_def by metis
  qed
  show ?thesis unfolding db'
  proof (rule change_updates)
    show "orch_change q (?late q)" for q by (simp add: orch_change_def)
  next
    fix r assume "r \<in> set (db_passes db)" "?gone r"
    then have "expired_in (orch_update ?due ?late (pass_update ?gone ?drop db)) (cp_orch r)"
      using ex unfolding db' by blast
    then show "pass_change (orch_update ?due ?late (pass_update ?gone ?drop db)) r (?drop r)"
      by (simp add: pass_change_def pass_kept_def pass_plan_def bound_def)
  qed
qed

lemma reused_door: "reused_payload source p = Some payload \<Longrightarrow> \<exists>raw. from_mapping raw = Some payload"
  by (auto simp: reused_payload_def split: pyval.splits)

lemma settled_door:
  "settle_candidate c body = Inr (Some p, at, why) \<Longrightarrow> \<exists>raw. from_mapping raw = Some p"
  by (auto simp: settle_candidate_def dest: reused_door split: option.splits if_splits)

lemma bound_row_sels [simp]:
  "cp_orch (bound_row body dg pr s r) = cp_orch r" "cp_kind (bound_row body dg pr s r) = cp_kind r"
  "cp_index (bound_row body dg pr s r) = cp_index r" "cp_diff (bound_row body dg pr s r) = cp_diff r"
  "cp_boundary (bound_row body dg pr s r) = cp_boundary r" "cp_fence (bound_row body dg pr s r) = cp_fence r"
  "cp_binding_hash (bound_row body dg pr s r) = Some dg"
  "cp_payload (bound_row body dg pr s r) = fst s"
  "cp_state (bound_row body dg pr s r) = (if fst s = None then Cp_pending else Cp_complete)"
  by (simp_all add: bound_row_def split: prod.splits)

lemma bind_Inr:
  assumes "bind_followup_checkpoint H rdb oid p binding now request db = Inr (dg, db')"
  obtains (again) "db' = db"
  | (bind) r body settled where "followup_row oid (pi_kind p) db = Some r" "followup_kind (pi_kind p)" "cp_binding_hash r = None"
      "cp_state r \<noteq> Cp_running" "validate_followup_binding H oid binding db = Inr body"
      "settle_candidate (cp_candidate r) body = Inr settled" "canonical_digest H (PDict body) = Some dg"
      "db' = pass_update (\<lambda>x. cp_orch x = oid \<and> cp_kind x = pi_kind p) (bound_row body dg (prompt_of body) settled) db"
proof -
  from assms obtain body r where v: "validate_followup_binding H oid binding db = Inr body"
    and r: "followup_row oid (pi_kind p) db = Some r" and k: "followup_kind (pi_kind p)"
    and rest: "(case canonical_digest H (PDict body) of None \<Rightarrow> Inl (Refused_field Not_json)
            | Some digest \<Rightarrow>
                if cp_binding_hash r \<noteq> None then
                  (if cp_binding_hash r \<noteq> Some digest
                      \<or> Option.bind (decode_binding (cp_binding r)) (\<lambda>b. canonical_digest H (PDict b)) \<noteq> Some digest
                   then Inl Followup_bound else Inr (digest, db))
                else if cp_state r = Cp_running then Inl Followup_running
                else ebind (settle_candidate (cp_candidate r) body) (\<lambda>settled.
                  Inr (digest, pass_update (\<lambda>x. cp_orch x = oid \<and> cp_kind x = pi_kind p)
                    (bound_row body digest (prompt_of body) settled) db))) = Inr (dg, db')"
    by (cases "validate_followup_binding H oid binding db"; cases "followup_row oid (pi_kind p) db")
      (auto simp: bind_followup_checkpoint_def ebind_Inr_iff simp del: split_paired_Ex split: if_splits)
  show thesis
  proof (cases "cp_binding_hash r = None")
    case True
    with rest show thesis
      by (cases "canonical_digest H (PDict body)") (auto simp: ebind_Inr_iff split: if_splits intro: bind [OF r k True _ v])
  next
    case False
    with rest show thesis by (cases "canonical_digest H (PDict body)") (auto split: if_splits intro: again)
  qed
qed

lemma bind_change:
  assumes "bind_followup_checkpoint H rdb oid p binding now request db = Inr (dg, db')" and ok: "keys_ok db" "followups_single db"
  shows "change db db'"
  using assms(1)
proof (cases rule: bind_Inr)
  case again
  then show ?thesis by (simp add: change_refl)
next
  case (bind r body settled)
  show ?thesis unfolding bind(8)
  proof (rule change_passes)
    fix x assume x: "x \<in> set (db_passes db)" "cp_orch x = oid \<and> cp_kind x = pi_kind p"
    have "x = r" using followup_unique [OF ok bind(1,2) x(1)] x(2) by simp
    moreover have "door (bound_row body dg (prompt_of body) settled r)" if "fst settled \<noteq> None"
      using that settled_door [of "cp_candidate r" body "the (fst settled)" "fst (snd settled)" "snd (snd settled)"] bind(6)
      by (auto simp: door_def)
    ultimately show "pass_change (pass_update (\<lambda>x. cp_orch x = oid \<and> cp_kind x = pi_kind p)
        (bound_row body dg (prompt_of body) settled) db) x (bound_row body dg (prompt_of body) settled x)"
      using bind(2,3) x(2) by (auto simp: pass_change_def pass_kept_def pass_plan_def bound_def)
  qed
qed

text \<open>A fork writes only to the passes of its child.\<close>

definition child_step :: "string \<Rightarrow> orch_db \<Rightarrow> orch_db \<Rightarrow> bool" where
  "child_step oid db db' \<longleftrightarrow> db_orchs db' = db_orchs db
     \<and> (\<exists>G. db_passes db' = map G (db_passes db) \<and> (\<forall>r. cp_orch r \<noteq> oid \<longrightarrow> G r = r)
          \<and> (\<forall>p r. fresh_pass oid p r \<longrightarrow> fresh_pass oid p (G r)))"

lemma child_refl: "child_step oid db db"
  unfolding child_step_def by (intro conjI exI [of _ "\<lambda>r. r"]) simp_all

lemma child_trans:
  assumes "child_step oid a b" "child_step oid b c"
  shows "child_step oid a c"
proof -
  from assms obtain F G where "db_passes b = map F (db_passes a)" "\<forall>r. cp_orch r \<noteq> oid \<longrightarrow> F r = r"
    "\<forall>p r. fresh_pass oid p r \<longrightarrow> fresh_pass oid p (F r)" "db_passes c = map G (db_passes b)"
    "\<forall>r. cp_orch r \<noteq> oid \<longrightarrow> G r = r" "\<forall>p r. fresh_pass oid p r \<longrightarrow> fresh_pass oid p (G r)"
    unfolding child_step_def by blast
  then have "db_passes c = map (\<lambda>r. G (F r)) (db_passes a)" "\<forall>r. cp_orch r \<noteq> oid \<longrightarrow> G (F r) = r"
    "\<forall>p r. fresh_pass oid p r \<longrightarrow> fresh_pass oid p (G (F r))" by (simp_all add: comp_def)
  with assms show ?thesis unfolding child_step_def by (intro conjI exI [of _ "\<lambda>r. G (F r)"]) auto
qed

lemma child_update:
  assumes "\<And>r. h r \<Longrightarrow> cp_orch r = oid" "\<And>p r. h r \<Longrightarrow> fresh_pass oid p r \<Longrightarrow> fresh_pass oid p (g r)"
  shows "child_step oid db (pass_update h g db)"
  unfolding child_step_def update_maps by (intro conjI exI [of _ "\<lambda>r. if h r then g r else r"]) (use assms in auto)

lemma copy_is_child:
  "copy_passes source child us db = Inr db' \<Longrightarrow> \<forall>(r, p) \<in> set us. \<not> followup_kind (cp_kind r) \<Longrightarrow> child_step child db db'"
proof (induction source child us db rule: copy_passes.induct)
  case (2 source child r p us db)
  from "2.prems"(1) obtain payload where p: "reused_payload source p = Some payload"
    and rest: "copy_passes source child us (pass_update (the_pass child (cp_kind r) (cp_index r)) (copied_row r payload) db) = Inr db'"
    by (auto split: option.splits)
  have "child_step child db (pass_update (the_pass child (cp_kind r) (cp_index r)) (copied_row r payload) db)"
    using reused_door [OF p] "2.prems"(2)
    by (intro child_update) (auto simp: the_pass_def fresh_pass_def copied_row_def door_def pass_plan_def)
  then show ?case by (rule child_trans) (use "2.IH" [OF p rest] "2.prems"(2) in simp)
qed (simp add: child_refl)

lemma seed_is_child: "seed_followups H source child rs db = Inr db' \<Longrightarrow> child_step child db db'"
proof (induction H source child rs db rule: seed_followups.induct)
  case (2 H source child r rs db)
  have seed: "child_step child db (case s of None \<Rightarrow> db
      | Some c \<Rightarrow> pass_update (\<lambda>x. cp_orch x = child \<and> cp_kind x = cp_kind r) (\<lambda>x. x\<lparr>cp_candidate := Some c\<rparr>) db)" for s
    by (cases s) (auto intro!: child_update child_refl simp: fresh_pass_def door_def pass_plan_def)
  show ?case
  proof (cases "followup_kind (cp_kind r)")
    case False
    with "2.IH"(1) "2.prems" show ?thesis by simp
  next
    case True
    with "2.prems" obtain s where "seed_followups H source child rs (case s of None \<Rightarrow> db
      | Some c \<Rightarrow> pass_update (\<lambda>x. cp_orch x = child \<and> cp_kind x = cp_kind r) (\<lambda>x. x\<lparr>cp_candidate := Some c\<rparr>) db) = Inr db'"
      by (auto simp: ebind_Inr_iff)
    then show ?thesis using True by (intro child_trans [OF seed]) (rule "2.IH"(2), simp_all)
  qed
qed (simp add: child_refl)

lemma map_sum_Inr_iff: "map_sum f id x = Inr y \<longleftrightarrow> x = Inr y"
  by (cases x) auto

lemma fork_checked_Inr:
  assumes "fork_checked H digest reviews child a db rdb = Inr (r, db', rdb')"
  obtains (existing) "db' = db"
  | (forked) q rows us db1 db2 where "source_ok H digest reviews (fa_source a) (fa_identity a) (fa_created a) db = Inr (q, rows)"
      "insert_orchestration H child ((fa_identity a)\<lparr>oi_source := Some (fa_source a)\<rparr>) (or_mode q) (fa_created a) (fa_expires a) db = Inr db1"
      "usable_rows rows = Some us" "copy_passes (fa_source a) child (copies (fa_identity a) us) db1 = Inr db2"
      "seed_followups H (fa_source a) child rows db2 = Inr db'"
proof -
  let ?same = "newest (filter (\<lambda>r. Some (or_digest r) = identity_digest H ((fa_identity a)\<lparr>oi_source := Some (fa_source a)\<rparr>)
          \<and> or_state r \<noteq> Or_expired) (db_orchs db))"
  obtain q rows where src: "source_ok H digest reviews (fa_source a) (fa_identity a) (fa_created a) db = Inr (q, rows)"
    using assms by (cases "source_ok H digest reviews (fa_source a) (fa_identity a) (fa_created a) db")
      (auto simp: fork_checked_def Let_def ebind_Inr_iff [of "guard _ _"])
  show thesis
  proof (cases ?same)
    case (Some x)
    with assms src show thesis by (intro existing) (auto simp: fork_checked_def Let_def ebind_Inr_iff [of "guard _ _"])
  next
    case None
    with assms src obtain db1 us db2 where
      "insert_orchestration H child ((fa_identity a)\<lparr>oi_source := Some (fa_source a)\<rparr>) (or_mode q) (fa_created a) (fa_expires a) db = Inr db1"
      "usable_rows rows = Some us" "copy_passes (fa_source a) child (copies (fa_identity a) us) db1 = Inr db2"
      "seed_followups H (fa_source a) child rows db2 = Inr db'"
      by (auto simp: fork_checked_def Let_def ebind_Inr_iff map_sum_Inr_iff split: option.splits)
    with src show thesis by (intro forked)
  qed
qed

lemma fork_Inr:
  assumes "fork_continuation H digest reviews child a db rdb = Inr (r, db', rdb')"
  obtains (existing) "db' = db"
  | (forked) source q rows us db1 db2 where "source = strip (fa_source a)" "source_ok H digest reviews source (fa_identity a) (fa_created a) db = Inr (q, rows)"
      "insert_orchestration H child ((fa_identity a)\<lparr>oi_source := Some source\<rparr>) (or_mode q) (fa_created a) (fa_expires a) db = Inr db1"
      "usable_rows rows = Some us" "copy_passes source child (copies (fa_identity a) us) db1 = Inr db2"
      "seed_followups H source child rows db2 = Inr db'"
proof -
  let ?a = "a\<lparr>fa_source := strip (fa_source a), fa_request := strip (fa_request a), fa_owner := strip (fa_owner a)\<rparr>"
  from assms have "fork_checked H digest reviews child ?a db rdb = Inr (r, db', rdb')"
    by (auto simp: fork_continuation_def ebind_Inr_iff text_arg_def ts_arg_def split: if_splits)
  then show thesis
    by (cases rule: fork_checked_Inr) (auto intro: existing forked [OF refl])
qed

lemma copies_kind: "\<forall>(r, p) \<in> set (copies i us). \<not> followup_kind (cp_kind r)"
  by (auto simp: copies_def)

text \<open>Every pass belongs to an orchestration of the table.\<close>

definition homed :: "orch_db \<Rightarrow> bool" where
  "homed db \<longleftrightarrow> (\<forall>r \<in> set (db_passes db). cp_orch r \<in> or_id ` set (db_orchs db))"

lemma fork_change:
  assumes "fork_continuation H digest reviews child a db rdb = Inr (r, db', rdb')" and own: "homed db"
  shows "change db db'"
  using assms(1)
proof (cases rule: fork_Inr)
  case existing
  then show ?thesis by (simp add: change_refl)
next
  case (forked source q rows us db1 db2)
  from copy_is_child [OF forked(5) copies_kind] seed_is_child [OF forked(6)]
  have "child_step child db1 db'" by (rule child_trans)
  then obtain G where G: "db_orchs db' = db_orchs db1" "db_passes db' = map G (db_passes db1)"
    "\<forall>r. cp_orch r \<noteq> child \<longrightarrow> G r = r" "\<forall>p r. fresh_pass child p r \<longrightarrow> fresh_pass child p (G r)"
    unfolding child_step_def by blast
  from forked(3) show ?thesis
  proof (rule insert_change)
    fix x
    assume x: "or_id x = child" "child \<notin> or_id ` set (db_orchs db)" "db_orchs db1 = db_orchs db @ [x]"
      "or_identity x = (fa_identity a)\<lparr>oi_source := Some source\<rparr>"
      "db_passes db1 = db_passes db @ map (pending_pass child) (oi_passes ((fa_identity a)\<lparr>oi_source := Some source\<rparr>))"
      "distinct (map (\<lambda>p. (pi_kind p, pi_index p)) (oi_passes ((fa_identity a)\<lparr>oi_source := Some source\<rparr>)))"
      "\<forall>p \<in> set (oi_passes ((fa_identity a)\<lparr>oi_source := Some source\<rparr>)). followup_kind (pi_kind p) \<longrightarrow> pi_index p = 0"
    have old: "map G (db_passes db) = db_passes db"
    proof (rule map_idI)
      fix y assume "y \<in> set (db_passes db)"
      with own x(2) have "cp_orch y \<noteq> child" unfolding homed_def by metis
      with G(3) show "G y = y" by blast
    qed
    show ?thesis
      by (rule ch_insert [of x _ _ "map (\<lambda>p. G (pending_pass child p)) (oi_passes (fa_identity a))"])
        (use x G old pending_fresh in \<open>auto simp: list_all2_map2 list_all2_same comp_def\<close>)
  qed
qed

subsection \<open>The invariant\<close>

definition plan_rows :: "orch_db \<Rightarrow> orch_row \<Rightarrow> bool" where
  "plan_rows db q \<longleftrightarrow> map pass_plan (filter (\<lambda>r. cp_orch r = or_id q) (db_passes db)) = map plan_of (oi_passes (or_identity q))"

definition stored :: "orch_db \<Rightarrow> pass_row \<Rightarrow> bool" where
  "stored db r \<longleftrightarrow> (cp_state r = Cp_complete \<longrightarrow> bound r \<and> (door r \<or> cp_payload r = None \<and> expired_in db (cp_orch r)))"

definition or_ok :: "orch_db \<Rightarrow> bool" where
  "or_ok db \<longleftrightarrow> keys_ok db \<and> followups_single db \<and> homed db
     \<and> (\<forall>q \<in> set (db_orchs db). plan_rows db q) \<and> (\<forall>r \<in> set (db_passes db). stored db r)"

lemma pass_kept_key: "pass_kept db r x \<Longrightarrow> pass_key x = pass_key r"
  by (simp add: pass_kept_def pass_key_def pass_plan_def)

lemma expired_kept:
  "expired_in db oid \<Longrightarrow> \<forall>q \<in> set (db_orchs db). \<exists>x \<in> set (db_orchs db'). orch_change q x \<Longrightarrow> expired_in db' oid"
  unfolding expired_in_def orch_change_def by metis

lemma stored_kept:
  assumes "stored db r" "pass_change db' r x" "expired_in db (cp_orch r) \<Longrightarrow> expired_in db' (cp_orch r)"
  shows "stored db' x"
  using assms by (auto simp: stored_def pass_change_def pass_kept_def door_def)

lemma plan_rows_map:
  assumes "\<forall>r \<in> set (db_passes db). cp_orch (G r) = cp_orch r \<and> pass_plan (G r) = pass_plan r"
    and "db_passes db' = map G (db_passes db)" and "or_id x = or_id q" "or_identity x = or_identity q"
  shows "plan_rows db' x = plan_rows db q"
proof -
  have "filter (\<lambda>r. cp_orch r = or_id q) (map G (db_passes db)) = map G (filter (\<lambda>r. cp_orch r = or_id q) (db_passes db))"
    using assms(1) by (auto simp: filter_map comp_def intro!: arg_cong [where f = "map G"] filter_cong)
  moreover have "map (\<lambda>r. pass_plan (G r)) (filter (\<lambda>r. cp_orch r = or_id q) (db_passes db))
      = map pass_plan (filter (\<lambda>r. cp_orch r = or_id q) (db_passes db))" using assms(1) by (intro map_cong) auto
  ultimately show ?thesis unfolding plan_rows_def assms(2-4) by (simp only: map_map comp_def)
qed

lemma fresh_plans: "list_all2 (fresh_pass oid) ps news \<Longrightarrow> map pass_plan news = map plan_of ps"
  by (induction rule: list_all2_induct) (auto simp: fresh_pass_def)

lemma fresh_orch: "list_all2 (fresh_pass oid) ps news \<Longrightarrow> r \<in> set news \<Longrightarrow> \<exists>p \<in> set ps. fresh_pass oid p r"
  by (metis list_all2_conv_all_nth in_set_conv_nth)

lemma fresh_keys: "list_all2 (fresh_pass oid) ps news \<Longrightarrow> map pass_key news = map (\<lambda>p. (oid, pi_kind p, pi_index p)) ps"
  by (induction rule: list_all2_induct) (auto simp: fresh_pass_def pass_key_def pass_plan_def plan_of_def)

lemma change_ok:
  assumes "change db db'" and ok: "or_ok db"
  shows "or_ok db'"
  using assms(1)
proof cases
  case (ch_update F G)
  have key: "pass_key (G r) = pass_key r" if "r \<in> set (db_passes db)" for r
    using ch_update(4) that pass_kept_key by (auto simp: pass_change_def)
  have same: "cp_orch (G r) = cp_orch r \<and> pass_plan (G r) = pass_plan r" if "r \<in> set (db_passes db)" for r
    using ch_update(4) that by (auto simp: pass_change_def pass_kept_def)
  have oids: "map or_id (db_orchs db') = map or_id (db_orchs db)"
    using ch_update(1,3) by (auto simp: orch_change_def)
  have "\<forall>q \<in> set (db_orchs db). \<exists>x \<in> set (db_orchs db'). orch_change q x" using ch_update(1,3) by auto
  then have late: "expired_in db oid \<Longrightarrow> expired_in db' oid" for oid by (rule expired_kept [rotated])
  have "map pass_key (db_passes db') = map pass_key (db_passes db)" using ch_update(2) key by simp
  then have "keys_ok db'" using ok oids by (simp add: or_ok_def keys_ok_def keyed_def keys_unique_def)
  moreover have "followups_single db'"
    using ok ch_update(2) key by (auto simp: or_ok_def followups_single_def pass_key_def)
  moreover have "homed db'"
    using ok same oids ch_update(2) unfolding or_ok_def homed_def by (metis (no_types, lifting) imageE list.set_map)
  moreover have "\<forall>q \<in> set (db_orchs db'). plan_rows db' q"
  proof
    fix x assume "x \<in> set (db_orchs db')"
    then obtain q where q: "q \<in> set (db_orchs db)" "x = F q" using ch_update(1) by auto
    with ch_update(3) have "or_id x = or_id q" "or_identity x = or_identity q" by (auto simp: orch_change_def)
    from plan_rows_map [OF _ ch_update(2) this] same q(1) ok show "plan_rows db' x" by (auto simp: or_ok_def)
  qed
  moreover have "\<forall>r \<in> set (db_passes db'). stored db' r"
    using ok ch_update(2,4) late by (auto simp: or_ok_def intro: stored_kept)
  ultimately show ?thesis by (simp add: or_ok_def)
next
  case (ch_insert q news)
  have news: "cp_orch r = or_id q" if "r \<in> set news" for r
    using fresh_orch [OF ch_insert(4) that] by (auto simp: fresh_pass_def)
  have old: "cp_orch r \<noteq> or_id q" if "r \<in> set (db_passes db)" for r
    using ok that ch_insert(1) unfolding or_ok_def homed_def by metis
  have late: "expired_in db oid \<Longrightarrow> expired_in db' oid" for oid using ch_insert(2) by (auto simp: expired_in_def)
  have "distinct (map pass_key (db_passes db'))"
    using ok news old ch_insert(3,5) fresh_keys [OF ch_insert(4)]
    by (auto simp: or_ok_def keys_ok_def distinct_map inj_on_def pass_key_def)
  then have "keys_ok db'" using ok ch_insert(1,2) by (auto simp: or_ok_def keys_ok_def keyed_def keys_unique_def)
  moreover have "followups_single db'"
    using ok ch_insert(3,6) fresh_orch [OF ch_insert(4)]
    by (fastforce simp: or_ok_def followups_single_def fresh_pass_def pass_plan_def plan_of_def)
  moreover have "homed db'" using ok news ch_insert(2,3) by (auto simp: or_ok_def homed_def)
  moreover have "\<forall>x \<in> set (db_orchs db'). plan_rows db' x"
  proof -
    have "filter (\<lambda>r. cp_orch r = or_id q) (db_passes db') = news"
      using news old ch_insert(3) by (auto simp: filter_empty_conv filter_id_conv)
    moreover have "filter (\<lambda>r. cp_orch r = or_id x) (db_passes db') = filter (\<lambda>r. cp_orch r = or_id x) (db_passes db)"
      if "x \<in> set (db_orchs db)" for x using that ch_insert(1,3) news by (auto simp: filter_empty_conv)
    ultimately show ?thesis using ok fresh_plans [OF ch_insert(4)] ch_insert(2) by (auto simp: or_ok_def plan_rows_def)
  qed
  moreover have "\<forall>r \<in> set (db_passes db'). stored db' r"
  proof -
    have "stored db' r" if "r \<in> set news" for r
      using fresh_orch [OF ch_insert(4) that] by (auto simp: stored_def fresh_pass_def bound_def)
    moreover have "stored db' r" if "r \<in> set (db_passes db)" for r
      using ok that late by (auto simp: or_ok_def stored_def)
    ultimately show ?thesis using ch_insert(3) by auto
  qed
  ultimately show ?thesis by (simp add: or_ok_def)
qed

lemma or_step_change: "or_step H digest db db' \<Longrightarrow> or_ok db \<Longrightarrow> change db db'"
  by (cases rule: or_step.cases)
    (auto simp: or_ok_def intro: create_change note_change claim_change complete_change release_change
      expire_change bind_change fork_change publish_change reopen_change)

lemma or_ok_empty: "or_ok empty_orchs"
  by (simp add: empty_orchs_def or_ok_def keys_ok_def keyed_def keys_unique_def followups_single_def homed_def)

text \<open>What holds between an earlier and a later state.\<close>

definition history :: "orch_db \<Rightarrow> orch_db \<Rightarrow> bool" where
  "history db db' \<longleftrightarrow> (\<forall>q \<in> set (db_orchs db). \<exists>x \<in> set (db_orchs db'). orch_change q x)
     \<and> (\<forall>r \<in> set (db_passes db). \<exists>x \<in> set (db_passes db'). pass_kept db' r x)"

lemma change_history: "change db db' \<Longrightarrow> history db db'"
proof (induction rule: change.induct)
  case (ch_update db' F db G)
  then show ?case by (auto simp: history_def pass_change_def)
next
  case (ch_insert q db db' news)
  show ?case
    unfolding history_def
  proof (intro conjI ballI)
    fix x assume "x \<in> set (db_orchs db)"
    with ch_insert(2) show "\<exists>y \<in> set (db_orchs db'). orch_change x y" by (intro bexI [of _ x]) auto
  next
    fix r assume "r \<in> set (db_passes db)"
    with ch_insert(3) show "\<exists>y \<in> set (db_passes db'). pass_kept db' r y" by (intro bexI [of _ r]) (auto simp: pass_kept_def)
  qed
qed

lemma orch_change_trans: "orch_change q x \<Longrightarrow> orch_change x y \<Longrightarrow> orch_change q y"
  by (auto simp: orch_change_def)

lemma pass_kept_trans:
  assumes "pass_kept a r x" "pass_kept b x y" "expired_in a (cp_orch r) \<Longrightarrow> expired_in b (cp_orch r)"
  shows "pass_kept b r y"
  using assms by (auto simp: pass_kept_def)

lemma history_trans:
  assumes "history a b" "history b c"
  shows "history a c"
proof -
  have late: "expired_in b oid \<Longrightarrow> expired_in c oid" for oid
    using assms(2) expired_kept unfolding history_def by blast
  show ?thesis
    unfolding history_def
  proof (intro conjI ballI)
    fix q assume "q \<in> set (db_orchs a)"
    with assms show "\<exists>x \<in> set (db_orchs c). orch_change q x" unfolding history_def by (meson orch_change_trans)
  next
    fix r assume "r \<in> set (db_passes a)"
    with assms obtain x y where "pass_kept b r x" "pass_kept c x y" "y \<in> set (db_passes c)" unfolding history_def by meson
    with late show "\<exists>y \<in> set (db_passes c). pass_kept c r y" using pass_kept_trans by blast
  qed
qed

interpretation orchestrations: history_machine empty_orchs "or_step H digest" or_ok history for H digest
proof unfold_locales
  show "or_ok empty_orchs" by (rule or_ok_empty)
  show "or_ok t" if "or_ok s" "or_step H digest s t" for s t using that by (blast intro: change_ok or_step_change)
  show "history s s" for s by (rule change_history, rule change_refl)
  show "history s u" if "history s t" "history t u" for s t u using that by (rule history_trans)
  show "history s t" if "or_ok s" "or_step H digest s t" for s t using that by (blast intro: change_history or_step_change)
qed

text \<open>The row a key has in a later state.\<close>

lemma kept_row:
  assumes "history db db'" "or_ok db'" "r \<in> set (db_passes db)" "x \<in> set (db_passes db')" "pass_key x = pass_key r"
  shows "pass_kept db' r x"
proof -
  from assms(1,3) obtain y where y: "y \<in> set (db_passes db')" "pass_kept db' r y" unfolding history_def by blast
  with assms(2,4,5) have "x = y" by (intro pass_unique [of db']) (auto simp: or_ok_def pass_kept_key)
  with y show ?thesis by simp
qed

subsection \<open>Claims and their fences\<close>

lemma kind_of_text [simp]: "kind_of (strip (kind_text k)) = Some k"
  by (cases k; simp only:; code_simp)

lemma claimed_stored:
  assumes "claim_checkpoint H token oid p owner now lease bh db = Inr (Claimed r, db')" and ok: "keys_ok db"
  obtains r0 where "pass_find (strip oid) (pi_kind p) (pi_index p) db = Some r0" "r \<in> set (db_passes db')"
    "pass_key r = (strip oid, pi_kind p, pi_index p)" "cp_fence r = Suc (cp_fence r0)" "r0 \<in> set (db_passes db)" "pass_key r0 = pass_key r"
  using assms
proof (cases rule: claim_cases)
  case (claimed r0)
  let ?new = "claimed_row token (strip owner) now lease (r0\<lparr>cp_prompt := pi_prompt p\<rparr>)"
  from claimed(1) have f: "pass_find (strip oid) (pi_kind p) (pi_index p) db = Some r0" by (rule planned_row_Inr)
  then have r0: "r0 \<in> set (db_passes db)" "pass_key r0 = (strip oid, pi_kind p, pi_index p)" by (auto dest: pass_find_Some)
  then have "?new \<in> set (db_passes db')"
    unfolding claimed(6) update_maps by (auto simp: the_pass_key intro!: image_eqI [where x = r0])
  with claimed(5) f r0 show thesis by (intro that [of r0]) (auto simp: claimed_row_def pass_key_def)
qed simp

lemma fenced_miss:
  assumes "\<And>r. r \<in> set (db_passes db) \<Longrightarrow> the_pass oid k i r \<Longrightarrow> cp_fence r \<noteq> fence"
  shows "fenced_update oid k i owner token fence f at db = (False, db)"
proof -
  have "filter (\<lambda>r. the_pass oid k i r \<and> held_by owner token fence r) (db_passes db) = []"
    using assms by (auto simp: filter_empty_conv held_by_def)
  moreover have "pass_update (\<lambda>r. the_pass oid k i r \<and> held_by owner token fence r) f db = db"
  proof -
    have "tbl_update (\<lambda>r. the_pass oid k i r \<and> held_by owner token fence r) f (db_passes db) = db_passes db"
      unfolding tbl_update_def by (rule map_idI) (use assms in \<open>auto simp: held_by_def\<close>)
    then show ?thesis by (simp add: pass_update_def)
  qed
  ultimately show ?thesis by (simp add: fenced_update_def)
qed

text \<open>A pass claimed twice has a fence above the first claim's from then on.\<close>

lemma reclaimed_fence:
  assumes ok: "or_ok db"
    and first: "claim_checkpoint H token oid p owner now lease bh db = Inr (Claimed r, db1)"
    and run: "(or_step H digest)\<^sup>*\<^sup>* db1 db2"
    and again: "claim_checkpoint H token' oid p' owner' now' lease' bh' db2 = Inr (Claimed r', db3)"
    and same: "pi_kind p' = pi_kind p" "pi_index p' = pi_index p"
    and run': "(or_step H digest)\<^sup>*\<^sup>* db3 db4"
    and x: "x \<in> set (db_passes db4)" "the_pass (strip oid) (pi_kind p) (pi_index p) x"
  shows "cp_fence r < cp_fence x"
proof -
  have ok1: "or_ok db1" using orchestrations.inv_step [OF ok or_claim [OF first]] .
  have ok2: "or_ok db2" using orchestrations.run_inv [OF run ok1] .
  have ok3: "or_ok db3" using orchestrations.inv_step [OF ok2 or_claim [OF again]] .
  have ok4: "or_ok db4" using orchestrations.run_inv [OF run' ok3] .
  have keys: "keys_ok db" "keys_ok db2" using ok ok2 by (simp_all add: or_ok_def)
  from claimed_stored [OF first keys(1)] have r: "r \<in> set (db_passes db1)" "pass_key r = (strip oid, pi_kind p, pi_index p)" by auto
  from claimed_stored [OF again keys(2)] obtain r0 where r0: "r0 \<in> set (db_passes db2)" "r' \<in> set (db_passes db3)"
    "pass_key r' = (strip oid, pi_kind p, pi_index p)" "pass_key r0 = pass_key r'" "cp_fence r' = Suc (cp_fence r0)"
    using same by metis
  have "pass_kept db2 r r0"
    using orchestrations.run_keeps [OF run ok1] ok2 r r0 by (intro kept_row [of db1 db2]) auto
  moreover have "pass_kept db4 r' x"
    using orchestrations.run_keeps [OF run' ok3] ok4 r0 x by (intro kept_row [of db3 db4]) (auto simp: the_pass_key)
  ultimately show ?thesis using r0(5) by (simp add: pass_kept_def)
qed

text \<open>C20 (safety).   A worker whose claim was lost to another can no longer write. Once a pass has
  been claimed a second time, however many steps ago, completing or releasing it with the fence of
  the first claim, under any owner and token, answers false and leaves the database as it was.\<close>

theorem stale_claim_is_fenced:
  assumes "reachable_by empty_orchs (or_step H digest) db"
    and "claim_checkpoint H token oid p owner now lease bh db = Inr (Claimed r, db1)"
    and "(or_step H digest)\<^sup>*\<^sup>* db1 db2"
    and "claim_checkpoint H token' oid p' owner' now' lease' bh' db2 = Inr (Claimed r', db3)"
    and "pi_kind p' = pi_kind p" and "pi_index p' = pi_index p"
    and "(or_step H digest)\<^sup>*\<^sup>* db3 db4"
    and "complete_checkpoint H oid (kind_text (pi_kind p)) (pi_index p) any_owner any_token (int (cp_fence r)) payload at bh'' db4 = Inr (done, db5)
      \<or> release_checkpoint oid (kind_text (pi_kind p)) (pi_index p) any_owner any_token (int (cp_fence r)) reason at db4 = Inr (done, db5)"
  shows "\<not> done \<and> db5 = db4"
proof -
  have late: "cp_fence x \<noteq> cp_fence r" if "x \<in> set (db_passes db4)" "the_pass (strip oid) (pi_kind p) (pi_index p) x" for x
    using reclaimed_fence [OF orchestrations.reachable_inv [OF assms(1)] assms(2-7) that] by simp
  have "fenced_update (strip oid) (pi_kind p) (pi_index p) ow tk (cp_fence r) f at db4 = (False, db4)" for ow tk f
    using late by (intro fenced_miss) auto
  with assms(8) show ?thesis
    by (auto elim!: complete_Inr release_Inr)
qed

text \<open>  What a claim decides. A pass that is complete is reported as complete, one
  whose lease has not run out as in flight, and every other one is claimed: the row then stored
  is running with the new lease and a fence one higher. No other pass changes.\<close>

theorem claim_decides:
  assumes "reachable_by empty_orchs (or_step H digest) db"
    and "claim_checkpoint H token oid p owner now lease bh db = Inr (c, db')"
  shows "\<exists>r. pass_find (strip oid) (pi_kind p) (pi_index p) db = Some r
    \<and> (case c of
         Already_complete x \<Rightarrow> x = r \<and> cp_state r = Cp_complete
       | In_flight x \<Rightarrow> x = r \<and> cp_state r = Cp_running \<and> (\<exists>l. cp_lease r = Some l \<and> now < l)
       | Claimed x \<Rightarrow> cp_state r \<noteq> Cp_complete \<and> (cp_state r = Cp_running \<longrightarrow> \<not> lease_live now r)
           \<and> x \<in> set (db_passes db') \<and> pass_key x = pass_key r \<and> cp_state x = Cp_running \<and> cp_token x = Some token
           \<and> cp_lease x = Some lease \<and> cp_fence x = Suc (cp_fence r))
    \<and> (\<forall>y. pass_key y \<noteq> pass_key r \<longrightarrow> (y \<in> set (db_passes db') \<longleftrightarrow> y \<in> set (db_passes db)))"
proof -
  have keys: "keys_ok db" using orchestrations.reachable_inv [OF assms(1)] by (simp add: or_ok_def)
  from assms(2) keys show ?thesis
  proof (cases rule: claim_cases)
    case (looked r)
    from looked(1) have f: "pass_find (strip oid) (pi_kind p) (pi_index p) db = Some r" by (rule planned_row_Inr)
    with pass_find_Some [OF f] looked show ?thesis
      by (intro exI [of _ r]) (auto simp: lease_live_def update_maps the_pass_key pass_key_def image_iff split: option.splits)
  next
    case (claimed r)
    from claimed(1) have f: "pass_find (strip oid) (pi_kind p) (pi_index p) db = Some r" by (rule planned_row_Inr)
    moreover from assms(2) claimed(5) have "claim_checkpoint H token oid p owner now lease bh db
        = Inr (Claimed (claimed_row token (strip owner) now lease (r\<lparr>cp_prompt := pi_prompt p\<rparr>)), db')" by simp
    ultimately show ?thesis
      using claimed claimed_stored [OF _ keys] pass_find_Some [OF f]
      by (intro exI [of _ r]) (auto simp: claimed_row_def update_maps the_pass_key pass_key_def image_iff)
  qed
qed

text \<open>C23 (invariant).   Whatever sequence of operations led to a state, the stored passes of each
  orchestration are exactly those of its plan, in order and with its hashes, and a complete pass
  carries a payload that went through the checks of \<open>CheckpointPayload.from_mapping\<close>, or none at
  all once its orchestration has expired. A complete follow-up is bound to its evidence.\<close>

theorem orchestrations_keep_their_plan:
  assumes "reachable_by empty_orchs (or_step H digest) db"
  shows "(\<forall>q \<in> set (db_orchs db). map pass_plan (filter (\<lambda>r. cp_orch r = or_id q) (db_passes db)) = map plan_of (oi_passes (or_identity q)))
    \<and> (\<forall>r \<in> set (db_passes db). cp_state r = Cp_complete \<longrightarrow> (followup_kind (cp_kind r) \<longrightarrow> cp_binding_hash r \<noteq> None)
      \<and> ((\<exists>p raw. cp_payload r = Some p \<and> from_mapping raw = Some p)
         \<or> cp_payload r = None \<and> (\<exists>q \<in> set (db_orchs db). or_id q = cp_orch r \<and> or_state q = Or_expired)))"
  using orchestrations.reachable_inv [OF assms]
  by (auto simp: or_ok_def plan_rows_def stored_def bound_def door_def expired_in_def)

text \<open>C21 (safety).   A complete pass is final. Later operations never change its payload, never
  reopen it and never lose the row; expiry alone may drop the payload.\<close>

theorem complete_pass_is_final:
  assumes "reachable_by empty_orchs (or_step H digest) db"
    and "r \<in> set (db_passes db)" and "cp_state r = Cp_complete"
    and "(or_step H digest)\<^sup>*\<^sup>* db db'"
  shows "\<exists>x \<in> set (db_passes db'). pass_key x = pass_key r \<and> pass_plan x = pass_plan r \<and> cp_state x = Cp_complete
    \<and> (cp_payload x = cp_payload r
       \<or> cp_payload x = None \<and> (\<exists>q \<in> set (db_orchs db'). or_id q = cp_orch r \<and> or_state q = Or_expired))"
proof -
  have ok: "or_ok db" by (rule orchestrations.reachable_inv [OF assms(1)])
  then have "bound r" using assms(2,3) by (auto simp: or_ok_def stored_def)
  moreover from orchestrations.run_keeps [OF assms(4) ok] obtain x where "x \<in> set (db_passes db')" "pass_kept db' r x"
    using assms(2) unfolding history_def by blast
  ultimately show ?thesis
    using assms(3) by (intro bexI [of _ x]) (auto simp: pass_kept_def pass_key_def pass_plan_def expired_in_def)
qed

lemma pass_find_unique:
  "keys_ok db \<Longrightarrow> r \<in> set (db_passes db) \<Longrightarrow> pass_key r = (oid, k, i) \<Longrightarrow> pass_find oid k i db = Some r"
proof (cases "pass_find oid k i db")
  case None
  moreover assume "r \<in> set (db_passes db)" "pass_key r = (oid, k, i)"
  ultimately show ?thesis by (auto simp: pass_find_def find_None_iff the_pass_key)
next
  case (Some x)
  moreover assume "keys_ok db" "r \<in> set (db_passes db)" "pass_key r = (oid, k, i)"
  ultimately show ?thesis using pass_find_Some [OF Some] by (auto intro: pass_unique)
qed

lemma planned_stored:
  assumes "or_ok db" "q \<in> set (db_orchs db)" "p \<in> set (oi_passes (or_identity q))"
  obtains r where "pass_find (or_id q) (pi_kind p) (pi_index p) db = Some r" "cp_orch r = or_id q" "pass_plan r = plan_of p" "r \<in> set (db_passes db)"
proof -
  have "plan_of p \<in> set (map pass_plan (filter (\<lambda>r. cp_orch r = or_id q) (db_passes db)))"
    using assms unfolding or_ok_def plan_rows_def by (metis (no_types, lifting) image_eqI list.set_map)
  then obtain r where r: "r \<in> set (db_passes db)" "cp_orch r = or_id q" "pass_plan r = plan_of p" by auto
  with assms(1) show thesis
    by (intro that [of r]) (auto intro!: pass_find_unique simp: or_ok_def pass_key_def pass_plan_def plan_of_def)
qed

lemma list_checkpoints_set [simp]: "set (list_checkpoints oid db) = {r \<in> set (db_passes db). cp_orch r = oid}"
  by (auto simp: list_checkpoints_def)

text \<open>What is known of an orchestration once every row of its batches and seams is complete.\<close>

lemma complete_passes:
  assumes "reachable_by empty_orchs (or_step H digest) db" and "require_complete oid dg db = Inr ()"
  obtains q where "orch_find oid db = Some q" "or_digest q = dg" "resumable (or_state q)"
    and "\<And>p. p \<in> set (oi_passes (or_identity q)) \<Longrightarrow> \<exists>r \<in> set (db_passes db). pass_find oid (pi_kind p) (pi_index p) db = Some r
      \<and> cp_orch r = oid \<and> cp_kind r = pi_kind p \<and> cp_diff r = pi_diff p \<and> cp_boundary r = pi_boundary p
      \<and> (followup_kind (pi_kind p) \<or> cp_state r = Cp_complete) \<and> (cp_state r = Cp_complete \<longrightarrow> door r)"
proof -
  have ok: "or_ok db" by (rule orchestrations.reachable_inv [OF assms(1)])
  from assms(2) obtain q where q: "orch_find oid db = Some q" "or_digest q = dg" "resumable (or_state q)"
    and all: "length (filter (\<lambda>r. cp_state r = Cp_complete) (filter (\<lambda>r. cp_orch r = oid \<and> \<not> followup_kind (cp_kind r)) (db_passes db)))
      = length (filter (\<lambda>r. cp_orch r = oid \<and> \<not> followup_kind (cp_kind r)) (db_passes db))"
    by (auto simp: require_complete_def Let_def split: option.splits if_splits)
  have mem: "q \<in> set (db_orchs db)" "or_id q = oid" using tbl_find_Some_mem [OF q(1)] by auto
  have complete: "cp_state r = Cp_complete" if "r \<in> set (db_passes db)" "cp_orch r = oid" "\<not> followup_kind (cp_kind r)" for r
    using all that by (metis (mono_tags, lifting) length_filter_less less_irrefl mem_Collect_eq set_filter)
  have live: "\<not> expired_in db oid"
  proof
    assume "expired_in db oid"
    then obtain x where "x \<in> set (db_orchs db)" "or_id x = oid" "or_state x = Or_expired" by (auto simp: expired_in_def)
    moreover from this have "x = q" using ok by (intro orch_unique [OF _ q(1)]) (simp_all add: or_ok_def)
    ultimately show False using q(3) by (simp add: resumable_def)
  qed
  show thesis
  proof (rule that [OF q])
    fix p assume p: "p \<in> set (oi_passes (or_identity q))"
    from planned_stored [OF ok mem(1) p] obtain r where r: "pass_find oid (pi_kind p) (pi_index p) db = Some r"
      "cp_orch r = oid" "pass_plan r = plan_of p" "r \<in> set (db_passes db)" using mem(2) by metis
    then have "cp_kind r = pi_kind p" "cp_diff r = pi_diff p" "cp_boundary r = pi_boundary p" by (auto simp: pass_plan_def plan_of_def)
    moreover have "cp_state r = Cp_complete \<longrightarrow> door r" using ok live r by (auto simp: or_ok_def stored_def)
    ultimately show "\<exists>r \<in> set (db_passes db). pass_find oid (pi_kind p) (pi_index p) db = Some r
      \<and> cp_orch r = oid \<and> cp_kind r = pi_kind p \<and> cp_diff r = pi_diff p \<and> cp_boundary r = pi_boundary p
      \<and> (followup_kind (pi_kind p) \<or> cp_state r = Cp_complete) \<and> (cp_state r = Cp_complete \<longrightarrow> door r)"
      using r complete [of r] by (intro bexI [of _ r]) auto
  qed
qed

lemma consumed_by:
  "consume_in_transaction oid rid at db = Inr db' \<Longrightarrow> orch_find oid db = Some q \<Longrightarrow> resumable (or_state q) \<Longrightarrow>
    \<exists>x. orch_find oid db' = Some x \<and> or_state x = Or_consumed \<and> or_final x = Some rid"
  using tbl_find_Some_mem [of or_id oid "db_orchs db" q]
  by (auto simp: consume_in_transaction_def Let_def orch_update_def tbl_find_update split: if_splits)

text \<open>A pass that is done, and a follow-up that is settled: bound to the evidence as it stands and, where it was scheduled,
  done, reported by the record, and usable if the record claims trust.\<close>

definition pass_done :: "pass_row \<Rightarrow> bool" where
  "pass_done r \<longleftrightarrow> cp_state r = Cp_complete \<and> (\<exists>v raw. cp_payload r = Some v \<and> from_mapping raw = Some v)"

definition followup_settled :: "(string \<Rightarrow> string) \<Rightarrow> string \<Rightarrow> pydict \<Rightarrow> orch_db \<Rightarrow> pass_row \<Rightarrow> bool" where
  "followup_settled H oid rec db r \<longleftrightarrow> cp_candidate r = None
     \<and> (\<exists>b body. decode_binding (cp_binding r) = Some b \<and> validate_followup_binding H oid b db = Inr body
          \<and> canonical_digest H (PDict body) = cp_binding_hash r
          \<and> (scheduled body \<longrightarrow> pass_done r \<and> (\<exists>v. cp_payload r = Some v \<and> output_matches H rec (cp_kind r) v
               \<and> (truthy (dget rec ''trustworthy'') \<and> cp_kind r \<noteq> Skeptic_pass \<longrightarrow> followup_usable v))))"

text \<open>Every planned pass is stored with its planned hashes, and \<open>good\<close>.\<close>

definition all_planned :: "string \<Rightarrow> string \<Rightarrow> orch_db \<Rightarrow> (pass_row \<Rightarrow> bool) \<Rightarrow> bool" where
  "all_planned oid dg db good \<longleftrightarrow>
     (\<exists>q. orch_find oid db = Some q \<and> or_digest q = dg \<and> (\<forall>p \<in> set (oi_passes (or_identity q)).
        \<exists>r. pass_find oid (pi_kind p) (pi_index p) db = Some r \<and> cp_kind r = pi_kind p \<and> cp_diff r = pi_diff p
          \<and> cp_boundary r = pi_boundary p \<and> good r))"

definition consumed_for :: "string \<Rightarrow> string \<Rightarrow> orch_db \<Rightarrow> bool" where
  "consumed_for oid rid db \<longleftrightarrow> (\<exists>x. orch_find oid db = Some x \<and> or_state x = Or_consumed \<and> or_final x = Some rid)"

lemma published_followup:
  assumes "followup_published H oid rec db r" and "cp_state r = Cp_complete \<longrightarrow> door r"
  shows "followup_settled H oid rec db r"
  using assms by (auto simp: followup_published_def followup_settled_def pass_done_def door_def split: option.splits sum.splits cp_state.splits)

lemma complete_planned:
  assumes "reachable_by empty_orchs (or_step H digest) db" and "require_complete oid dg db = Inr ()"
    and "consume_in_transaction oid rid at db = Inr db'"
    and "\<And>r. r \<in> set (db_passes db) \<Longrightarrow> cp_orch r = oid \<Longrightarrow> followup_kind (cp_kind r) \<Longrightarrow>
      (cp_state r = Cp_complete \<longrightarrow> door r) \<Longrightarrow> good r"
    and "\<And>r. \<not> followup_kind (cp_kind r) \<Longrightarrow> pass_done r \<Longrightarrow> good r"
  shows "all_planned oid dg db good \<and> consumed_for oid rid db'"
proof -
  from complete_passes [OF assms(1,2)] obtain q where q: "orch_find oid db = Some q" "or_digest q = dg" "resumable (or_state q)"
    and planned: "\<And>p. p \<in> set (oi_passes (or_identity q)) \<Longrightarrow> \<exists>r \<in> set (db_passes db). pass_find oid (pi_kind p) (pi_index p) db = Some r
      \<and> cp_orch r = oid \<and> cp_kind r = pi_kind p \<and> cp_diff r = pi_diff p \<and> cp_boundary r = pi_boundary p
      \<and> (followup_kind (pi_kind p) \<or> cp_state r = Cp_complete) \<and> (cp_state r = Cp_complete \<longrightarrow> door r)" by blast
  have "\<exists>r. pass_find oid (pi_kind p) (pi_index p) db = Some r \<and> cp_kind r = pi_kind p \<and> cp_diff r = pi_diff p
          \<and> cp_boundary r = pi_boundary p \<and> good r" if p: "p \<in> set (oi_passes (or_identity q))" for p
  proof -
    from planned [OF p] obtain r where r: "r \<in> set (db_passes db)" "pass_find oid (pi_kind p) (pi_index p) db = Some r"
      "cp_orch r = oid" "cp_kind r = pi_kind p" "cp_diff r = pi_diff p" "cp_boundary r = pi_boundary p"
      "followup_kind (pi_kind p) \<or> cp_state r = Cp_complete" "cp_state r = Cp_complete \<longrightarrow> door r" by blast
    have "good r"
    proof (cases "followup_kind (cp_kind r)")
      case True
      with assms(4) r show ?thesis by blast
    next
      case False
      with r have "pass_done r" by (auto simp: pass_done_def door_def)
      with False assms(5) show ?thesis by blast
    qed
    with r show ?thesis by blast
  qed
  with q show ?thesis using consumed_by [OF assms(3) q(1,3)] unfolding all_planned_def consumed_for_def by blast
qed

text \<open>C19 (safety).  No review is published over half an orchestration. When \<open>save_checkpointed_review\<close> publishes a review, each
  pass its orchestration planned is stored with the planned hashes: a batch or integration pass is complete and holds a
  payload that passed the strict door, and a follow-up is bound to the evidence as it stands and, where it was scheduled,
  complete in the same sense, reported by the record, and usable if the record claims trust. When \<open>finalize_review\<close>
  applies a worker's record, either the batch and integration passes are complete in that sense (it does not look at
  the follow-ups), or nothing is consumed and the record is a failed, degraded one, which is never trustworthy. A complete
  orchestration is consumed by the review it was published as.\<close>

theorem publication_is_complete:
  assumes "reachable_by empty_orchs (or_step H digest) db"
  shows "(publish_checkpointed H oid dg rid rec at db = Inr db' \<longrightarrow>
      all_planned oid dg db (\<lambda>r. if followup_kind (cp_kind r) then followup_settled H oid rec db r else pass_done r)
      \<and> consumed_for oid rid db')
    \<and> (finalize_orchestration oid dg rid rec at db = Inr db' \<longrightarrow>
      all_planned oid dg db (\<lambda>r. followup_kind (cp_kind r) \<or> pass_done r) \<and> consumed_for oid rid db'
      \<or> db' = db \<and> dget rec ''status'' = PStr ''failed''
        \<and> \<not> is_trustworthy_py (dget rec ''parse_ok'') (dget rec ''degraded'') (dget rec ''diff_truncated''))"
proof (rule conjI; rule impI)
  assume "publish_checkpointed H oid dg rid rec at db = Inr db'"
  then have req: "require_complete oid dg db = Inr ()" and fol: "require_followup_publication H oid rec db"
    and con: "consume_in_transaction oid rid at db = Inr db'"
    by (auto simp: publish_checkpointed_def ebind_Inr_iff map_sum_Inr_iff)
  have "followup_published H oid rec db r" if "r \<in> set (db_passes db)" "cp_orch r = oid" "followup_kind (cp_kind r)" for r
    using fol that by (auto simp: require_followup_publication_def list_all_iff Let_def split: option.splits)
  then show "all_planned oid dg db (\<lambda>r. if followup_kind (cp_kind r) then followup_settled H oid rec db r else pass_done r)
      \<and> consumed_for oid rid db'"
    using published_followup by (intro complete_planned [OF assms req con]) auto
next
  assume fin: "finalize_orchestration oid dg rid rec at db = Inr db'"
  show "all_planned oid dg db (\<lambda>r. followup_kind (cp_kind r) \<or> pass_done r) \<and> consumed_for oid rid db'
      \<or> db' = db \<and> dget rec ''status'' = PStr ''failed''
        \<and> \<not> is_trustworthy_py (dget rec ''parse_ok'') (dget rec ''degraded'') (dget rec ''diff_truncated'')"
  proof (cases "require_complete oid dg db")
    case (Inl why)
    with fin have "db' = db \<and> dget rec ''status'' = PStr ''failed'' \<and> dget rec ''degraded'' = PBool True"
      by (auto simp: finalize_orchestration_def split: if_splits)
    then show ?thesis by (simp add: is_trustworthy_py_def is_trustworthy_def)
  next
    case (Inr u)
    with fin have "require_complete oid dg db = Inr ()" "consume_in_transaction oid rid at db = Inr db'"
      by (simp_all add: finalize_orchestration_def)
    from complete_planned [OF assms this, of "\<lambda>r. followup_kind (cp_kind r) \<or> pass_done r"] show ?thesis by blast
  qed
qed

subsection \<open>Continuations\<close>

text \<open>Which rows of the child are complete, and what they hold.\<close>

definition copied_from :: "string \<Rightarrow> pass_row list \<Rightarrow> (pass_row \<times> pydict) list \<Rightarrow> pass_row \<Rightarrow> bool" where
  "copied_from source rows us x \<longleftrightarrow> (\<exists>(r, p) \<in> set us. cp_kind r = cp_kind x \<and> cp_index r = cp_index x
     \<and> reused_payload source p = cp_payload x)"

lemma usable_rows_mem:
  "usable_rows rows = Some us \<Longrightarrow> (r, p) \<in> set us \<Longrightarrow>
    r \<in> set rows \<and> cp_state r = Cp_complete \<and> cp_payload r = Some p \<and> usable_payload p = Some True"
  by (induction rows arbitrary: us) (auto split: option.splits if_splits)

lemma copy_passes_source:
  assumes "copy_passes source child us db = Inr db'" and "x \<in> set (db_passes db')" and "cp_orch x = child"
    and "cp_state x = Cp_complete"
    and "\<And>y. y \<in> set (db_passes db) \<Longrightarrow> cp_orch y = child \<Longrightarrow> cp_state y = Cp_complete \<Longrightarrow> copied_from source rows all y"
    and "set us \<subseteq> set all"
  shows "copied_from source rows all x"
  using assms
proof (induction source child us db rule: copy_passes.induct)
  case (2 source child r p us db)
  from "2.prems"(1) obtain payload where p: "reused_payload source p = Some payload"
    and rest: "copy_passes source child us (pass_update (the_pass child (cp_kind r) (cp_index r)) (copied_row r payload) db) = Inr db'"
    by (auto split: option.splits)
  show ?case
  proof (rule "2.IH" [OF p rest "2.prems"(2-4)])
    fix y
    assume y: "y \<in> set (db_passes (pass_update (the_pass child (cp_kind r) (cp_index r)) (copied_row r payload) db))"
      "cp_orch y = child" "cp_state y = Cp_complete"
    then obtain z where z: "z \<in> set (db_passes db)"
      "y = (if the_pass child (cp_kind r) (cp_index r) z then copied_row r payload z else z)" unfolding update_maps by auto
    show "copied_from source rows all y"
    proof (cases "the_pass child (cp_kind r) (cp_index r) z")
      case True
      with z p "2.prems"(6) show ?thesis
        by (auto simp: copied_from_def copied_row_def the_pass_def intro!: bexI [of _ "(r, p)"])
    next
      case False
      with z y show ?thesis by (auto intro: "2.prems"(5))
    qed
  qed (use "2.prems"(6) in simp)
qed auto

lemma seed_followups_rows:
  "seed_followups H source child rs db = Inr db' \<Longrightarrow> x \<in> set (db_passes db') \<Longrightarrow>
    \<exists>y \<in> set (db_passes db). cp_orch y = cp_orch x \<and> cp_kind y = cp_kind x \<and> cp_index y = cp_index x
      \<and> cp_state y = cp_state x \<and> cp_payload y = cp_payload x"
proof (induction H source child rs db rule: seed_followups.induct)
  case (2 H source child r rs db)
  show ?case
  proof (cases "followup_kind (cp_kind r)")
    case False
    with 2 show ?thesis by simp
  next
    case True
    let ?upd = "\<lambda>s. case s of None \<Rightarrow> db
      | Some c \<Rightarrow> pass_update (\<lambda>x. cp_orch x = child \<and> cp_kind x = cp_kind r) (\<lambda>x. x\<lparr>cp_candidate := Some c\<rparr>) db"
    from True "2.prems" obtain s where "seed_followups H source child rs (?upd s) = Inr db'"
      by (auto simp: ebind_Inr_iff)
    then obtain y where y: "y \<in> set (db_passes (?upd s))" "cp_orch y = cp_orch x" "cp_kind y = cp_kind x" "cp_index y = cp_index x"
      "cp_state y = cp_state x" "cp_payload y = cp_payload x"
      using "2.IH"(2) True "2.prems"(2) by blast
    then obtain z where "z \<in> set (db_passes db)" "y = z \<or> (\<exists>c. y = z\<lparr>cp_candidate := Some c\<rparr>)"
      by (cases s) (auto simp: update_maps)
    with y show ?thesis by (intro bexI [of _ z]) auto
  qed
qed auto

definition usable_row :: "pass_row \<Rightarrow> bool" where
  "usable_row r \<longleftrightarrow> cp_state r = Cp_complete \<and> (\<exists>p. cp_payload r = Some p \<and> usable_payload p = Some True)"

lemma usable_rows_rows: "usable_rows rows = Some us \<Longrightarrow> map fst us = filter usable_row rows"
  by (induction rows arbitrary: us) (auto simp: usable_row_def split: option.splits if_splits)

lemma batches_counted:
  assumes "usable_rows rows = Some us" "batches_complete i us"
  shows "int (length (filter (\<lambda>r. cp_kind r = Batch_pass \<and> usable_row r) rows)) = oi_batch_count i"
proof -
  have "filter (\<lambda>r. cp_kind r = Batch_pass \<and> usable_row r) rows = filter (\<lambda>r. cp_kind r = Batch_pass) (map fst us)"
    using usable_rows_rows [OF assms(1)] by (simp add: conj_commute)
  also have "length \<dots> = length (filter (\<lambda>(r, p). cp_kind r = Batch_pass) us)"
    by (simp add: filter_map comp_def case_prod_unfold)
  finally show ?thesis using assms(2) by (simp add: batches_complete_def)
qed

lemma source_ok_Inr:
  assumes "source_ok H digest reviews source i now db = Inr (q, rows)"
  shows "orch_find source db = Some q \<and> rows = list_checkpoints source db \<and> first_mismatch digest (or_identity q) i = None
    \<and> (\<forall>r \<in> set rows. matches_plan i r) \<and> now < or_expires q"
  using assms by (auto simp: source_ok_def Let_def ebind_Inr_iff list_all_iff not_le split: option.splits if_splits)

lemma child_rows:
  assumes "child_step child db1 db'" and "db_passes db1 = db_passes db @ map (pending_pass child) ps"
    and "\<And>y. y \<in> set (db_passes db) \<Longrightarrow> cp_orch y \<noteq> child" and "x \<in> set (db_passes db')"
  shows "x \<in> set (db_passes db) \<or> (\<exists>p \<in> set ps. fresh_pass child p x)"
proof -
  from assms(1) obtain G where G: "db_passes db' = map G (db_passes db1)" "\<forall>r. cp_orch r \<noteq> child \<longrightarrow> G r = r"
    "\<forall>p r. fresh_pass child p r \<longrightarrow> fresh_pass child p (G r)" unfolding child_step_def by blast
  from assms(4) G(1) obtain y where y: "y \<in> set (db_passes db1)" "x = G y" by auto
  show ?thesis
  proof (cases "y \<in> set (db_passes db)")
    case True
    with assms(3) G(2) y show ?thesis by auto
  next
    case False
    with y(1) assms(2) obtain p where "p \<in> set ps" "y = pending_pass child p" by auto
    with y(2) G(3) pending_fresh show ?thesis by blast
  qed
qed

lemma planned_pass_Some:
  "planned_pass i r = Some p \<Longrightarrow> p \<in> set (oi_passes i) \<and> pi_kind p = cp_kind r \<and> pi_index p = cp_index r"
  by (auto simp: planned_pass_def find_Some_iff)

text \<open>What a complete pass of the child was copied from.\<close>

lemma copied_source:
  assumes fresh: "fresh_pass child p x" "p \<in> set (oi_passes i)" "cp_state x = Cp_complete" "x \<in> set (db_passes db3)"
    and new: "\<And>y. y \<in> set (db_passes db1) \<Longrightarrow> cp_orch y = child \<Longrightarrow> cp_state y \<noteq> Cp_complete"
    and us: "usable_rows rows = Some us" "copy_passes source child (copies i us) db1 = Inr db2" "seed_followups H source child rows db2 = Inr db3"
    and plan: "\<forall>r \<in> set rows. matches_plan i r" "distinct (map (\<lambda>p. (pi_kind p, pi_index p)) (oi_passes i))"
  obtains r v where "r \<in> set rows" "cp_state r = Cp_complete" "pass_plan r = pass_plan x" "cp_payload r = Some v"
    "usable_payload v = Some True" "reused_payload source v = cp_payload x" "\<not> followup_kind (cp_kind x)"
    "cp_kind x = Integration_pass \<Longrightarrow> batches_complete i us"
proof -
  from seed_followups_rows [OF us(3) fresh(4)] obtain y where y: "y \<in> set (db_passes db2)" "cp_orch y = cp_orch x"
    "cp_kind y = cp_kind x" "cp_index y = cp_index x" "cp_state y = cp_state x" "cp_payload y = cp_payload x" by blast
  have x: "cp_orch x = child" "pass_plan x = plan_of p" using fresh(1) by (auto simp: fresh_pass_def)
  have "copied_from source rows (copies i us) y"
    using new x(1) y fresh(3) by (intro copy_passes_source [OF us(2) y(1)]) auto
  then obtain r v where r: "(r, v) \<in> set (copies i us)" "cp_kind r = cp_kind x" "cp_index r = cp_index x"
    "reused_payload source v = cp_payload x" using y by (auto simp: copied_from_def)
  then have mem: "(r, v) \<in> set us" "\<not> followup_kind (cp_kind x)" "cp_kind x = Integration_pass \<Longrightarrow> batches_complete i us"
    by (auto simp: copies_def)
  from usable_rows_mem [OF us(1) mem(1)] have u: "r \<in> set rows" "cp_state r = Cp_complete" "cp_payload r = Some v"
    "usable_payload v = Some True" by auto
  with plan(1) obtain p' where p': "planned_pass i r = Some p'" "cp_diff r = pi_diff p'" "cp_boundary r = pi_boundary p'"
    by (auto simp: matches_plan_def split: option.splits)
  have "p' = p"
    using planned_pass_Some [OF p'(1)] fresh(2) plan(2) x(2) r(2,3)
    by (auto simp: distinct_map inj_on_def pass_plan_def plan_of_def)
  with p' planned_pass_Some [OF p'(1)] x(2) have "pass_plan r = pass_plan x" by (auto simp: pass_plan_def plan_of_def)
  with u r mem show thesis by (intro that [of r v])
qed

text \<open>C22 (safety).   A continuation reuses only what still answers the question. Each complete pass a fork puts
  into its child is a complete and usable pass of the source with the same kind, index, diff and
  boundary hashes, its payload differing only in the marks of \<open>reused_payload\<close>; the identities of
  source and child agree in every field \<open>first_mismatch\<close> compares; and an integration pass is reused
  only when as many batch passes of the source are usable as the identity has batches.\<close>

theorem continuation_reuses_only_matching_passes:
  assumes "reachable_by empty_orchs (or_step H digest) db"
    and "fork_continuation H digest reviews child a db rdb = Inr (c, db', rdb')"
    and "x \<in> set (db_passes db')" and "x \<notin> set (db_passes db)" and "cp_state x = Cp_complete"
  shows "cp_orch x = child
    \<and> (\<exists>q. orch_find (strip (fa_source a)) db = Some q \<and> first_mismatch digest (or_identity q) (fa_identity a) = None)
    \<and> (\<exists>r p. r \<in> set (db_passes db) \<and> cp_orch r = strip (fa_source a) \<and> cp_state r = Cp_complete \<and> pass_plan r = pass_plan x
         \<and> cp_payload r = Some p \<and> usable_payload p = Some True \<and> reused_payload (strip (fa_source a)) p = cp_payload x)
    \<and> \<not> followup_kind (cp_kind x)
    \<and> (cp_kind x = Integration_pass \<longrightarrow>
         int (length (filter (\<lambda>r. cp_kind r = Batch_pass \<and> usable_row r) (list_checkpoints (strip (fa_source a)) db)))
           = oi_batch_count (fa_identity a))"
  using assms(2)
proof (cases rule: fork_Inr)
  case existing
  with assms(3,4) show ?thesis by simp
next
  case (forked source q rows us db1 db2)
  have ok: "or_ok db" by (rule orchestrations.reachable_inv [OF assms(1)])
  note src = source_ok_Inr [OF forked(2)]
  from forked(3) obtain n where n: "child \<notin> or_id ` set (db_orchs db)"
    "db_passes db1 = db_passes db @ map (pending_pass child) (oi_passes (fa_identity a))"
    "distinct (map (\<lambda>p. (pi_kind p, pi_index p)) (oi_passes (fa_identity a)))"
    by (rule insert_change) auto
  have old: "cp_orch y \<noteq> child" if "y \<in> set (db_passes db)" for y
    using ok that n(1) unfolding or_ok_def homed_def by metis
  from child_rows [OF child_trans [OF copy_is_child [OF forked(5) copies_kind] seed_is_child [OF forked(6)]] n(2) old assms(3)]
  obtain p where p: "p \<in> set (oi_passes (fa_identity a))" "fresh_pass child p x" using assms(4) by blast
  have new: "cp_state y \<noteq> Cp_complete" if "y \<in> set (db_passes db1)" "cp_orch y = child" for y
  proof -
    from that old n(2) obtain p where "y = pending_pass child p" by auto
    then show ?thesis by (simp only: pending_pass_def) simp
  qed
  obtain r v where rv: "r \<in> set rows" "cp_state r = Cp_complete" "pass_plan r = pass_plan x" "cp_payload r = Some v"
    "usable_payload v = Some True" "reused_payload source v = cp_payload x" "\<not> followup_kind (cp_kind x)"
    "cp_kind x = Integration_pass \<Longrightarrow> batches_complete (fa_identity a) us"
    using copied_source [OF p(2,1) assms(5,3) new forked(4-6) _ n(3)] src by blast
  moreover have "r \<in> set (db_passes db)" "cp_orch r = source" using rv(1) src by auto
  moreover have "cp_orch x = child" using p(2) by (simp add: fresh_pass_def)
  moreover have "int (length (filter (\<lambda>r. cp_kind r = Batch_pass \<and> usable_row r) rows)) = oi_batch_count (fa_identity a)"
    if "cp_kind x = Integration_pass" using that rv(8) by (intro batches_counted [OF forked(4)])
  ultimately show ?thesis
    using src unfolding forked(1) [symmetric] by auto
qed

subsection \<open>A run the properties apply to\<close>

definition t_end :: string where "t_end = ''2026-07-28T14:00:00Z''"

definition sample_hash :: "string \<Rightarrow> string" where "sample_hash s = (if length s < 500 then ''h'' else ''c'')"

definition sample_policy :: pydict where "sample_policy = [(''a'', PInt 1)]"

definition sample_batch :: pass_identity where
  "sample_batch = \<lparr>pi_kind = Batch_pass, pi_index = 1, pi_prompt = Some ''ph'', pi_diff = ''d'', pi_boundary = ''bd''\<rparr>"

definition sample_open :: "string \<Rightarrow> orch_row" where
  "sample_open updated = \<lparr>or_id = ''o'', or_state = Or_active, or_mode = ''batched'', or_created = t_at, or_updated = updated,
     or_expires = t_end, or_final = None, or_identity = sample_identity sample_policy, or_digest = ''h'', or_reason = None, or_mismatch = None\<rparr>"

definition sample_claim :: "string \<Rightarrow> nat \<Rightarrow> string \<Rightarrow> string \<Rightarrow> string \<Rightarrow> pass_row" where
  "sample_claim token fence owner now lease = (pending_pass ''o'' sample_batch)\<lparr>cp_state := Cp_running, cp_token := Some token,
     cp_fence := fence, cp_owner := Some owner, cp_claimed := Some now, cp_lease := Some lease\<rparr>"

definition sample_done :: pass_row where
  "sample_done = (pending_pass ''o'' sample_batch)\<lparr>cp_state := Cp_complete, cp_payload := Some (sorted_dict sample_pass),
     cp_completed := Some t_late, cp_fence := 2\<rparr>"

definition orch_started :: orch_db where
  "orch_started = \<lparr>db_orchs = [sample_open t_at], db_passes = [pending_pass ''o'' sample_batch]\<rparr>"

definition orch_claimed :: orch_db where
  "orch_claimed = \<lparr>db_orchs = [sample_open t_at], db_passes = [sample_claim ''k1'' 1 ''w1'' t_at t_late]\<rparr>"

definition orch_reclaimed :: orch_db where
  "orch_reclaimed = \<lparr>db_orchs = [sample_open t_late], db_passes = [sample_claim ''k2'' 2 ''w2'' t_late t_end]\<rparr>"

definition orch_done :: orch_db where
  "orch_done = \<lparr>db_orchs = [sample_open t_late], db_passes = [sample_done]\<rparr>"

definition sample_fork :: fork_args where
  "sample_fork = \<lparr>fa_source = ''o'', fa_identity = sample_identity sample_policy, fa_request = ''q'', fa_owner = ''t1'', fa_created = t_late,
     fa_expires = t_end\<rparr>"

definition sample_linked :: request_db where
  "sample_linked = run_begun\<lparr>rd_links := [\<lparr>ln_request = ''q'', ln_kind = Link_batch, ln_target = ''o''\<rparr>]\<rparr>"

lemma sample_run1: "create_orchestration sample_hash ''o'' (sample_identity sample_policy) ''batched'' t_at t_end False empty_orchs = Inr (sample_open t_at, orch_started)"
  by code_simp
lemma sample_run2: "claim_checkpoint sample_hash ''k1'' ''o'' sample_batch ''w1'' t_at t_late None orch_started = Inr (Claimed (sample_claim ''k1'' 1 ''w1'' t_at t_late), orch_claimed)"
  by code_simp
lemma sample_run3: "claim_checkpoint sample_hash ''k2'' ''o'' sample_batch ''w2'' t_late t_end None orch_claimed = Inr (Claimed (sample_claim ''k2'' 2 ''w2'' t_late t_end), orch_reclaimed)"
  by code_simp
lemma sample_run4: "release_checkpoint ''o'' ''batch'' 1 ''w1'' ''k1'' 1 ''gone'' t_late orch_reclaimed = Inr (False, orch_reclaimed)"
  by code_simp

lemma sample_ready:
  "pass_args ''o'' ''batch'' 1 ''w2'' ''k2'' 2 = Inr (''o'', ''batch'', ''w2'', ''k2'')" "ts_arg t_late = Inr t_late"
  "kind_of ''batch'' = Some Batch_pass"
  by code_simp+

lemma sample_run5:
  "complete_checkpoint sample_hash ''o'' ''batch'' 1 ''w2'' ''k2'' 2 sample_pass t_late None orch_reclaimed = Inr (True, orch_done)"
  by (simp add: complete_checkpoint_def sample_ready sample_pass_stored fenced_update_def followup_kind_def orch_reclaimed_def
      orch_done_def sample_done_def sample_claim_def the_pass_def held_by_def pending_pass_def sample_batch_def sample_open_def
      orch_update_def pass_update_def tbl_update_def unclaimed_def)

lemma sample_run6:
  "publish_checkpointed sample_hash ''o'' ''h'' ''R1'' [] t_late orch_done
    = Inr (orch_done\<lparr>db_orchs := [(sample_open t_late)\<lparr>or_state := Or_consumed, or_final := Some ''R1''\<rparr>]\<rparr>)"
  by (simp add: publish_checkpointed_def require_complete_def consume_in_transaction_def require_followup_publication_def
      orch_done_def sample_done_def pending_pass_def sample_batch_def sample_open_def resumable_def followup_kind_def
      list_checkpoints_def sample_identity_def orch_update_def tbl_update_def guard_def)

definition sample_reused :: pydict where
  "sample_reused = dset ''provenance'' (PDict [(''provider'', PStr ''xai''), (''continuation_source'', PStr ''o''),
     (''continuation_action'', PStr ''reused'')]) (sorted_dict sample_pass)"

lemma sample_reused_stored: "from_mapping sample_reused = Some (sorted_dict sample_reused)"
proof -
  have "sample_reused = map (\<lambda>(k, v). (k, if k = ''provenance'' then PDict [(''provider'', PStr ''xai''),
      (''continuation_source'', PStr ''o''), (''continuation_action'', PStr ''reused'')] else v)) (sorted_dict sample_pass)"
    by code_simp
  have casefolds: "map casefold [''continuation_source'', ''continuation_action''] = [''continuation_source'', ''continuation_action'']"
    by code_simp
  have explicit: "sample_reused = [(''accepted'', PNone), (''attempts'', PList []), (''degraded'', PBool False), (''degraded_reason'', PStr []),
      (''diff_truncated'', PBool False), (''failure_reason'', PStr []),
      (''findings'', PList [PDict [(''detail'', PStr ''d''), (''file'', PStr ''a.py''), (''path'', PStr ''a.py''), (''severity'', PStr ''low''),
        (''title'', PStr ''t'')]]), (''parse_ok'', PBool True),
      (''provenance'', PDict [(''provider'', PStr ''xai''), (''continuation_source'', PStr ''o''), (''continuation_action'', PStr ''reused'')]),
      (''stop_reason'', PNone), (''summary'', PStr ''ok'')]"
    by code_simp
  have "payload_shape sample_reused"
    unfolding explicit using casefold_samples casefolds
    by (simp add: payload_shape_def has_keys_def dget_def dhas_def null_or_def forbidden_fields_def
        finding_forbidden_def max_text_chars_def max_findings_def max_attempts_def insert_commute)
  moreover have "finite_floats (PDict sample_reused)" "utf8_len (emit False (sorted_keys (PDict sample_reused))) < 1000"
    by code_simp+
  ultimately show ?thesis
    by (simp add: from_mapping_def dumps_def max_checkpoint_json_bytes_def)
qed

lemma sample_usable: "usable_payload (sorted_dict sample_pass) = Some True"
proof -
  have "from_mapping (sorted_dict sample_pass) = Some (sorted_dict sample_pass)"
    by (rule from_mapping_stable [OF _ sample_pass_stored]) code_simp
  moreover have "dget (sorted_dict sample_pass) ''parse_ok'' = PBool True" "dget (sorted_dict sample_pass) ''degraded'' = PBool False"
    "dget (sorted_dict sample_pass) ''diff_truncated'' = PBool False" "\<not> truthy (dget (sorted_dict sample_pass) ''failure_reason'')"
    by code_simp+
  ultimately show ?thesis by (simp add: usable_payload_def)
qed

lemma sample_reuse: "reused_payload ''o'' (sorted_dict sample_pass) = Some (sorted_dict sample_reused)"
proof -
  have "dget (sorted_dict sample_pass) ''provenance'' = PDict [(''provider'', PStr ''xai'')]" by code_simp
  then show ?thesis using sample_reused_stored by (simp add: reused_payload_def sample_reused_def dset_def)
qed

definition orch_forked :: orch_db where
  "orch_forked = orch_done\<lparr>db_orchs := db_orchs orch_done @ [(sample_open t_late)\<lparr>or_id := ''c'', or_digest := ''c'', or_created := t_late,
       or_identity := (sample_identity sample_policy)\<lparr>oi_source := Some ''o''\<rparr>\<rparr>],
     db_passes := db_passes orch_done @ [sample_done\<lparr>cp_orch := ''c'', cp_payload := Some (sorted_dict sample_reused), cp_fence := 0\<rparr>]\<rparr>"

lemma sample_identity_sels: "oi_passes (sample_identity p) = [sample_batch]" "oi_batch_count (sample_identity p) = 1"
  by (simp_all add: sample_identity_def sample_batch_def)

lemma sample_rows: "list_checkpoints ''o'' orch_done = [sample_done]" "cp_kind sample_done = Batch_pass" "cp_index sample_done = 1"
    "cp_state sample_done = Cp_complete" "cp_payload sample_done = Some (sorted_dict sample_pass)"
    "cp_prompt sample_done = pi_prompt sample_batch" "cp_diff sample_done = pi_diff sample_batch" "cp_boundary sample_done = pi_boundary sample_batch"
    "cp_orch sample_done = ''o''" "cp_completed sample_done = Some t_late" "pi_kind sample_batch = Batch_pass" "pi_index sample_batch = 1"
  by (simp_all add: list_checkpoints_def orch_done_def sample_done_def pending_pass_def sample_batch_def)

lemma sample_orchs: "orch_find ''o'' orch_done = Some (sample_open t_late)" "db_orchs orch_done = [sample_open t_late]"
    "db_passes orch_done = [sample_done]"
    "or_id (sample_open u) = ''o''" "or_identity (sample_open u) = sample_identity sample_policy" "or_state (sample_open u) = Or_active"
    "or_digest (sample_open u) = ''h''" "or_expires (sample_open u) = t_end" "or_mode (sample_open u) = ''batched''"
    "or_created (sample_open u) = t_at"
  by (simp_all add: orch_done_def sample_open_def)

lemma sample_source:
  "source_ok sample_hash (\<lambda>_. []) (\<lambda>_. None) ''o'' (sample_identity sample_policy) t_late orch_done = Inr (sample_open t_late, [sample_done])"
proof -
  have "first_mismatch (\<lambda>_. []) (sample_identity sample_policy) (sample_identity sample_policy) = None"
    "identity_digest sample_hash (sample_identity sample_policy) = Some ''h''" "t_late < t_end"
    by code_simp+
  then show ?thesis
    by (simp add: source_ok_def Let_def sample_orchs sample_rows sample_identity_sels source_state_ok_def resumable_def matches_plan_def
        planned_pass_def still_leased_def guard_def)
qed

lemma sample_insert:
  "insert_orchestration sample_hash ''c'' ((sample_identity sample_policy)\<lparr>oi_source := Some ''o''\<rparr>) ''batched'' t_late t_end orch_done
    = Inr (orch_forked\<lparr>db_passes := [sample_done, pending_pass ''c'' sample_batch]\<rparr>)"
proof -
  have "identity_digest sample_hash ((sample_identity sample_policy)\<lparr>oi_source := Some ''o''\<rparr>) = Some ''c''" by code_simp
  then show ?thesis
    by (simp add: insert_orchestration_def orch_forked_def sample_orchs sample_identity_sels sample_rows followup_kind_def)
      (simp add: sample_open_def)
qed

lemma sample_run7:
  "\<exists>c rdb. fork_continuation sample_hash (\<lambda>_. []) (\<lambda>_. None) ''c'' sample_fork orch_done sample_linked = Inr (c, orch_forked, rdb)"
proof -
  let ?i = "sample_identity sample_policy"
  have args: "text_arg ''o'' = Inr ''o''" "text_arg ''q'' = Inr ''q''" "text_arg ''t1'' = Inr ''t1''" "ts_arg t_end = Inr t_end" "t_late < t_end"
    by code_simp+
  have child: "identity_digest sample_hash (?i\<lparr>oi_source := Some ''o''\<rparr>) = Some ''c''" by code_simp
  have us: "usable_rows [sample_done] = Some [(sample_done, sorted_dict sample_pass)]"
    using sample_usable by (simp add: sample_rows)
  have batch: "copies ?i [(sample_done, sorted_dict sample_pass)] = [(sample_done, sorted_dict sample_pass)]"
    by (simp add: copies_def sample_rows followup_kind_def)
  have "copied_row sample_done (sorted_dict sample_reused) (pending_pass ''c'' sample_batch)
      = sample_done\<lparr>cp_orch := ''c'', cp_payload := Some (sorted_dict sample_reused), cp_fence := 0\<rparr>"
    by (simp add: copied_row_def sample_done_def pending_pass_def)
  then have copy: "copy_passes ''o'' ''c'' [(sample_done, sorted_dict sample_pass)]
      (orch_forked\<lparr>db_passes := [sample_done, pending_pass ''c'' sample_batch]\<rparr>) = Inr orch_forked"
    using sample_reuse
    by (simp add: sample_rows pass_update_def tbl_update_def the_pass_def) (simp add: orch_forked_def sample_orchs pending_pass_def sample_rows)
  have seed: "seed_followups sample_hash ''o'' ''c'' [sample_done] orch_forked = Inr orch_forked"
    by (simp add: sample_rows followup_kind_def)
  have found: "orch_find ''c'' orch_forked = Some (db_orchs orch_forked ! 1)"
    by (simp add: orch_forked_def sample_orchs)
  have link: "\<exists>rdb. link_request ''q'' Link_batch ''c'' sample_linked = Inr rdb"
    by (simp add: link_request_def sample_linked_def run_begun_def sample_row_def short_text_def guard_def)
  have none: "newest (filter (\<lambda>r. Some (or_digest r) = identity_digest sample_hash (?i\<lparr>oi_source := Some ''o''\<rparr>)
      \<and> or_state r \<noteq> Or_expired) (db_orchs orch_done)) = None"
    unfolding child sample_orchs by (simp add: sample_orchs)
  have own: "owns_linked ''q'' ''t1'' ''o'' sample_linked"
    by (simp add: owns_linked_def linked_def sample_linked_def run_begun_def sample_row_def)
  show ?thesis
    using args us batch copy seed found link none own sample_source sample_insert
    by (auto simp: fork_continuation_def fork_checked_def sample_fork_def guard_def sample_ready(2) sample_orchs)
qed

lemma sample_reached:
  "reachable_by empty_orchs (or_step sample_hash (\<lambda>_. [])) orch_started"
  "reachable_by empty_orchs (or_step sample_hash (\<lambda>_. [])) orch_done"
proof -
  show start: "reachable_by empty_orchs (or_step sample_hash (\<lambda>_. [])) orch_started"
    by (rule reach_step, rule reach_init, rule or_create, rule sample_run1)
  show "reachable_by empty_orchs (or_step sample_hash (\<lambda>_. [])) orch_done"
    by (rule reach_step, rule reach_step, rule reach_step, rule start, rule or_claim, rule sample_run2, rule or_claim, rule sample_run3,
        rule or_finish, rule sample_run5)
qed

lemma stale_claim_is_fenced_witness:
  "release_checkpoint ''o'' ''batch'' 1 ''w1'' ''k1'' 1 ''gone'' t_late orch_reclaimed = Inr (False, orch_reclaimed)"
proof -
  have sels: "pi_kind sample_batch = Batch_pass" "pi_index sample_batch = 1" "cp_fence (sample_claim ''k1'' 1 ''w1'' t_at t_late) = 1"
    "kind_text Batch_pass = ''batch''"
    by (simp_all add: sample_batch_def sample_claim_def)
  obtain b db where res: "release_checkpoint ''o'' ''batch'' 1 ''w1'' ''k1'' 1 ''gone'' t_late orch_reclaimed = Inr (b, db)"
    using sample_run4 by blast
  then have "\<not> b \<and> db = orch_reclaimed"
    using stale_claim_is_fenced [OF sample_reached(1) sample_run2 rtranclp.rtrancl_refl sample_run3 refl refl rtranclp.rtrancl_refl]
    unfolding sels by (metis of_nat_1)
  with res show ?thesis by simp
qed

lemma claim_decides_witness:
  "cp_fence (sample_claim ''k1'' 1 ''w1'' t_at t_late) = Suc (cp_fence (pending_pass ''o'' sample_batch))"
proof -
  have "strip ''o'' = ''o''" by code_simp
  then have "pass_find (strip ''o'') (pi_kind sample_batch) (pi_index sample_batch) orch_started = Some (pending_pass ''o'' sample_batch)"
    by (simp add: pass_find_def orch_started_def the_pass_def pending_pass_def)
  with claim_decides [OF sample_reached(1) sample_run2] show ?thesis by auto
qed

lemma orchestrations_keep_their_plan_witness:
  "map pass_plan (filter (\<lambda>r. cp_orch r = or_id (sample_open t_late)) (db_passes orch_done))
    = map plan_of (oi_passes (or_identity (sample_open t_late)))"
proof -
  have "sample_open t_late \<in> set (db_orchs orch_done)" by (simp add: sample_orchs)
  with orchestrations_keep_their_plan [OF sample_reached(2)] show ?thesis by blast
qed

lemma complete_pass_is_final_witness:
  "\<exists>x \<in> set (db_passes (reopen_consumed ''o'' ''R1'' ''w'' t_late orch_done)). pass_key x = pass_key sample_done \<and> cp_state x = Cp_complete"
proof -
  have "sample_done \<in> set (db_passes orch_done)" "cp_state sample_done = Cp_complete" by (simp_all add: sample_orchs sample_rows)
  from complete_pass_is_final [OF sample_reached(2) this r_into_rtranclp, OF or_reopen] show ?thesis by blast
qed

lemma publication_is_complete_witness:
  "(\<exists>r. pass_find ''o'' Batch_pass 1 orch_done = Some r \<and> pass_done r)
   \<and> finalize_orchestration ''o'' ''h'' ''R1'' [(''status'', PStr ''failed''), (''degraded'', PBool True)] t_at orch_claimed = Inr orch_claimed"
proof -
  have "sample_batch \<in> set (oi_passes (or_identity (sample_open t_late)))" "\<not> followup_kind (pi_kind sample_batch)"
    "pi_kind sample_batch = Batch_pass" "pi_index sample_batch = 1"
    by (simp_all add: sample_orchs sample_identity_sels sample_rows followup_kind_def)
  moreover have "finalize_orchestration ''o'' ''h'' ''R1'' [(''status'', PStr ''failed''), (''degraded'', PBool True)] t_at orch_claimed = Inr orch_claimed"
    by code_simp
  ultimately show ?thesis
    using publication_is_complete [OF sample_reached(2), of "''o''" "''h''" "''R1''" "[]" t_late] sample_run6
    unfolding sample_orchs(1) all_planned_def by fastforce
qed

lemma continuation_reuses_only_matching_passes_witness:
  "\<exists>x \<in> set (db_passes orch_forked). cp_orch x = ''c'' \<and> cp_state x = Cp_complete \<and>
    (\<exists>r \<in> set (db_passes orch_done). pass_plan r = pass_plan x \<and> cp_state r = Cp_complete)"
proof -
  let ?x = "sample_done\<lparr>cp_orch := ''c'', cp_payload := Some (sorted_dict sample_reused), cp_fence := 0\<rparr>"
  have x: "?x \<in> set (db_passes orch_forked)" "?x \<notin> set (db_passes orch_done)" "cp_state ?x = Cp_complete"
    by (simp add: orch_forked_def, simp add: sample_orchs sample_done_def pending_pass_def, simp add: sample_rows)
  from sample_run7 obtain c rdb
    where "fork_continuation sample_hash (\<lambda>_. []) (\<lambda>_. None) ''c'' sample_fork orch_done sample_linked = Inr (c, orch_forked, rdb)" by blast
  from continuation_reuses_only_matching_passes [OF sample_reached(2) this x] x show ?thesis by blast
qed

end
