(* ===== verification/Budgets.thy ===== *)
theory Budgets
  imports Prelude Complex_Main
begin

section \<open>Review budgets: queue, provider waits, review and total\<close>

text \<open>
  Models \<open>budgets.py\<close>: the limits of one execution, the controller that watches them, and the
  allowance a pass has for waiting at providers. Seconds are rational numbers, so the rounding
  of floats is left out; every reading of the monotonic clock is an argument, in the order the
  code takes them. The controller is shared by threads: an operation is one critical section of
  \<open>_lock\<close>, and \<open>is_set\<close>, which releases the lock to ask the upstream token, is two. The
  callback that publishes a snapshot runs outside the lock; whether it failed is an argument
  where that matters. Deadlines are instants of the clock; their rendering as UTC text is not
  modelled.
\<close>

subsection \<open>Limits\<close>

record limits =
  lm_queue :: "rat option"
  lm_review :: "rat option"
  lm_wait :: "rat option"
  lm_total :: "rat option"

definition limit_ok :: "rat option \<Rightarrow> bool" where
  "limit_ok v \<longleftrightarrow> (case v of None \<Rightarrow> True | Some x \<Rightarrow> 0 < x \<and> x \<le> 86400)"

text \<open>\<open>Limits.__post_init__\<close>: a provider wait of zero is allowed, none now all is not.\<close>

definition limits_ok :: "limits \<Rightarrow> bool" where
  "limits_ok l \<longleftrightarrow> limit_ok (lm_queue l) \<and> limit_ok (lm_review l) \<and> (lm_wait l = Some 0 \<or> limit_ok (lm_wait l))
     \<and> limit_ok (lm_total l) \<and> lm_wait l \<noteq> None"

text \<open>\<open>Limits.from_args\<close>; \<open>policy\<close> is the wait \<open>admission_wait_from_env(30.0)\<close> gives.\<close>

definition limits_from_args :: "bool \<Rightarrow> rat \<Rightarrow> rat option \<Rightarrow> rat option \<Rightarrow> rat option \<Rightarrow> rat option \<Rightarrow> limits option" where
  "limits_from_args recover policy q r w t =
     (let l = \<lparr>lm_queue = q, lm_review = r, lm_wait = (if w = None then Some policy else w),
               lm_total = (if t = None then (if recover then Some 900 else None) else t)\<rparr> in
      if limits_ok l then Some l else None)"

subsection \<open>The controller\<close>

text \<open>\<open>provider_waiters\<close> and \<open>provider_deadline_mono\<close> are the number of open waits and their earliest
  deadline after every operation, and are computed from them here.\<close>

record controller =
  bc_limits :: limits
  bc_started :: rat
  bc_queue_started :: "rat option"
  bc_review_started :: "rat option"
  bc_wait_started :: "rat option"
  bc_queue_elapsed :: rat
  bc_wait_elapsed :: rat
  bc_queue_deadline :: "rat option"
  bc_queue_at_review :: rat
  bc_waits :: "(nat \<times> rat) list"
  bc_next :: nat
  bc_ended :: "rat option"
  bc_reason :: "string option"
  bc_marked :: "string option"
  bc_event :: bool

definition new_controller :: "limits \<Rightarrow> rat \<Rightarrow> controller" where
  "new_controller l t = \<lparr>bc_limits = l, bc_started = t, bc_queue_started = None, bc_review_started = None, bc_wait_started = None,
     bc_queue_elapsed = 0, bc_wait_elapsed = 0, bc_queue_deadline = None, bc_queue_at_review = 0, bc_waits = [], bc_next = 0,
     bc_ended = None, bc_reason = None, bc_marked = None, bc_event = False\<rparr>"

definition since :: "rat option \<Rightarrow> rat \<Rightarrow> rat" where
  "since s now = (case s of None \<Rightarrow> 0 | Some t \<Rightarrow> max 0 (now - t))"

definition queue_seconds :: "controller \<Rightarrow> rat \<Rightarrow> rat" where
  "queue_seconds b now = bc_queue_elapsed b + since (bc_queue_started b) now"

definition review_seconds :: "controller \<Rightarrow> rat \<Rightarrow> rat" where
  "review_seconds b now = (case bc_review_started b of None \<Rightarrow> 0
     | Some r \<Rightarrow> max 0 (now - r - max 0 (queue_seconds b now - bc_queue_at_review b)))"

definition wait_seconds :: "controller \<Rightarrow> rat \<Rightarrow> rat" where
  "wait_seconds b now = bc_wait_elapsed b + since (bc_wait_started b) now"

definition queue_remaining :: "controller \<Rightarrow> rat \<Rightarrow> rat option" where
  "queue_remaining b now = map_option (\<lambda>q. max 0 (q - queue_seconds b now)) (lm_queue (bc_limits b))"

subsubsection \<open>The foreground queue\<close>

text \<open>\<open>start_queue(wait_seconds)\<close> reads the clock when the queue opens, for what remains, and for the
  deadline.\<close>

definition start_queue :: "rat option \<Rightarrow> rat \<Rightarrow> rat \<Rightarrow> rat \<Rightarrow> controller \<Rightarrow> controller" where
  "start_queue wait t0 t1 t2 b =
     (let b = (if bc_queue_started b = None then b\<lparr>bc_queue_started := Some t0\<rparr> else b);
          effective = (case (queue_remaining b t1, wait) of
             (None, w) \<Rightarrow> w | (Some r, None) \<Rightarrow> Some r | (Some r, Some w) \<Rightarrow> Some (min r w)) in
      b\<lparr>bc_queue_deadline := map_option (\<lambda>e. t2 + e) effective\<rparr>)"

definition end_queue :: "rat \<Rightarrow> controller \<Rightarrow> controller" where
  "end_queue t b = (if bc_queue_started b = None then b
     else b\<lparr>bc_queue_elapsed := bc_queue_elapsed b + since (bc_queue_started b) t, bc_queue_started := None, bc_queue_deadline := None\<rparr>)"

subsubsection \<open>Waiting for a provider\<close>

datatype budget_error = Wait_after_end | Too_many_waits | Unknown_wait | Update_failed

definition wait_deadline :: "controller \<Rightarrow> rat option" where
  "wait_deadline b = (if bc_waits b = [] then None else Some (Min (snd ` set (bc_waits b))))"

definition close_wait :: "nat option \<Rightarrow> rat \<Rightarrow> controller \<Rightarrow> budget_error + controller" where
  "close_wait token t b =
     (let token = (if token = None \<and> length (bc_waits b) = 1 then Some (fst (hd (bc_waits b))) else token) in
      case token of None \<Rightarrow> Inl Unknown_wait
      | Some k \<Rightarrow>
          if k \<notin> fst ` set (bc_waits b) then Inl Unknown_wait
          else (let rest = filter (\<lambda>(j, d). j \<noteq> k) (bc_waits b); b' = b\<lparr>bc_waits := rest\<rparr> in
            Inr (if rest = [] \<and> bc_wait_started b \<noteq> None
              then b'\<lparr>bc_wait_elapsed := bc_wait_elapsed b + since (bc_wait_started b) t, bc_wait_started := None\<rparr> else b')))"

text \<open>\<open>start_provider_wait\<close>: \<open>t0\<close> and \<open>t1\<close> are its readings; when publishing fails (\<open>published\<close> is
  false) the wait is closed again, now \<open>t2\<close>, and the failure goes on.\<close>

definition open_wait :: "rat option \<Rightarrow> rat \<Rightarrow> rat \<Rightarrow> controller \<Rightarrow> budget_error + nat \<times> controller" where
  "open_wait seconds t0 t1 b =
     (if bc_ended b \<noteq> None then Inl Wait_after_end
      else if 2 \<le> length (bc_waits b) then Inl Too_many_waits
      else (let token = Suc (bc_next b);
                span = (case seconds of None \<Rightarrow> (case lm_wait (bc_limits b) of None \<Rightarrow> 0 | Some w \<Rightarrow> w) | Some s \<Rightarrow> s) in
        Inr (token, b\<lparr>bc_wait_started := (if bc_waits b = [] then Some t0 else bc_wait_started b), bc_next := token,
          bc_waits := bc_waits b @ [(token, t1 + span)]\<rparr>)))"

definition start_provider_wait :: "rat option \<Rightarrow> rat \<Rightarrow> rat \<Rightarrow> bool \<Rightarrow> rat \<Rightarrow> controller \<Rightarrow> (budget_error + nat) \<times> controller" where
  "start_provider_wait seconds t0 t1 published t2 b =
     (case open_wait seconds t0 t1 b of Inl e \<Rightarrow> (Inl e, b)
      | Inr (token, b') \<Rightarrow>
          if published then (Inr token, b')
          else (case close_wait (Some token) t2 b' of Inl e \<Rightarrow> (Inl e, b') | Inr b'' \<Rightarrow> (Inl Update_failed, b'')))"

definition provider_started :: "rat \<Rightarrow> controller \<Rightarrow> controller" where
  "provider_started t b = (if bc_review_started b \<noteq> None then b
     else b\<lparr>bc_review_started := Some t, bc_queue_at_review := queue_seconds b t\<rparr>)"

subsubsection \<open>Observation and cancellation\<close>

text \<open>What asking the upstream token gave: nothing set (or no token), set with its own reason, or an
  exception other than an interrupt.\<close>

datatype upstream = Up_clear | Up_set "string option" | Up_failed

definition decided :: "controller \<Rightarrow> bool option" where
  "decided b = (if bc_ended b \<noteq> None \<or> bc_reason b \<noteq> None then Some (bc_reason b \<noteq> None) else None)"

definition upstream_reason :: "string option \<Rightarrow> string option \<Rightarrow> string" where
  "upstream_reason marked observed =
     (case marked of Some m \<Rightarrow> if m \<noteq> [] \<and> observed \<in> {None, Some ''unknown_cancel_token'', Some ''cancelled_external''} then m
          else (case observed of Some r \<Rightarrow> if r = [] then ''cancelled_external'' else r | None \<Rightarrow> ''cancelled_external'')
      | None \<Rightarrow> (case observed of Some r \<Rightarrow> if r = [] then ''cancelled_external'' else r | None \<Rightarrow> ''cancelled_external''))"

definition reached :: "rat option \<Rightarrow> rat \<Rightarrow> bool" where
  "reached limit spent \<longleftrightarrow> (case limit of None \<Rightarrow> False | Some l \<Rightarrow> l \<le> spent)"

definition expiry :: "controller \<Rightarrow> rat \<Rightarrow> string option" where
  "expiry b now =
     (if reached (lm_total (bc_limits b)) (now - bc_started b) then Some ''total_budget_exhausted''
      else if (case bc_queue_started b of None \<Rightarrow> False
          | Some q \<Rightarrow> reached (lm_queue (bc_limits b)) (bc_queue_elapsed b + now - q)) then Some ''queue_budget_exhausted''
      else if bc_review_started b \<noteq> None \<and> reached (lm_review (bc_limits b)) (review_seconds b now) then Some ''review_budget_exhausted''
      else None)"

text \<open>The second half of \<open>is_set\<close>, after the upstream token was asked.\<close>

definition settle :: "upstream \<Rightarrow> rat \<Rightarrow> controller \<Rightarrow> bool \<times> controller" where
  "settle up now b =
     (case up of
        Up_failed \<Rightarrow> (True, b\<lparr>bc_reason := Some (case bc_reason b of Some r \<Rightarrow> if r = [] then ''cancellation_state_unavailable'' else r
            | None \<Rightarrow> ''cancellation_state_unavailable'')\<rparr>)
      | _ \<Rightarrow>
          (case decided b of Some d \<Rightarrow> (d, b)
           | None \<Rightarrow>
               let reason = (case up of
                     Up_set observed \<Rightarrow> Some (upstream_reason (bc_marked b) observed)
                   | _ \<Rightarrow> if bc_event b
                       then Some (case bc_marked b of Some m \<Rightarrow> if m = [] then ''cancelled_external'' else m
                                  | None \<Rightarrow> ''cancelled_external'')
                       else expiry b now) in
               (reason \<noteq> None, b\<lparr>bc_reason := reason\<rparr>)))"

definition is_set :: "upstream \<Rightarrow> rat \<Rightarrow> controller \<Rightarrow> bool \<times> controller" where
  "is_set up now b = (case decided b of Some d \<Rightarrow> (d, b) | None \<Rightarrow> settle up now b)"

definition set_event :: "controller \<Rightarrow> controller" where
  "set_event b = b\<lparr>bc_event := True\<rparr>"

definition mark_reason :: "string option \<Rightarrow> controller \<Rightarrow> controller" where
  "mark_reason v b = b\<lparr>bc_marked := v\<rparr>"

definition finish :: "rat \<Rightarrow> controller \<Rightarrow> controller" where
  "finish t b = (if bc_ended b = None then b\<lparr>bc_ended := Some t\<rparr> else b)"

subsubsection \<open>The snapshot\<close>

text \<open>\<open>round\<close> of Python: to the nearest integer, halves to the even one.\<close>

definition py_round :: "rat \<Rightarrow> int" where
  "py_round x = (let n = \<lfloor>x\<rfloor>; f = x - of_int n in
     if f < 1/2 then n else if 1/2 < f then n + 1 else if even n then n else n + 1)"

definition millis :: "rat \<Rightarrow> int" where
  "millis s = py_round (s * 1000)"

datatype phase = Finished | In_queue | Provider_wait | In_review | Preflight

record view =
  vw_phase :: phase
  vw_limits :: limits
  vw_queue_deadline :: "rat option"
  vw_review_deadline :: "rat option"
  vw_total_deadline :: "rat option"
  vw_wait_deadline :: "rat option"
  vw_queue_ms :: int
  vw_wait_ms :: int
  vw_wall_ms :: int
  vw_active_ms :: int
  vw_total_ms :: int
  vw_reason :: "string option"
  vw_paused :: bool
  vw_waits :: "rat list"
  vw_updated :: rat

definition snapshot :: "rat \<Rightarrow> controller \<Rightarrow> view" where
  "snapshot t b =
     (let now = (case bc_ended b of None \<Rightarrow> t | Some e \<Rightarrow> e); l = bc_limits b in
      \<lparr>vw_phase = (if bc_ended b \<noteq> None then Finished else if bc_queue_started b \<noteq> None then In_queue
          else if bc_waits b \<noteq> [] then Provider_wait else if bc_review_started b \<noteq> None then In_review else Preflight),
       vw_limits = l,
       vw_queue_deadline = bc_queue_deadline b,
       vw_review_deadline = (case (bc_review_started b, lm_review l, bc_queue_started b) of
          (Some r, Some m, None) \<Rightarrow> Some (now + m - review_seconds b now) | _ \<Rightarrow> None),
       vw_total_deadline = map_option (\<lambda>m. bc_started b + m) (lm_total l),
       vw_wait_deadline = wait_deadline b,
       vw_queue_ms = millis (queue_seconds b now),
       vw_wait_ms = millis (wait_seconds b now),
       vw_wall_ms = (case bc_review_started b of None \<Rightarrow> 0 | Some r \<Rightarrow> millis (max 0 (now - r))),
       vw_active_ms = millis (review_seconds b now),
       vw_total_ms = millis (max 0 (now - bc_started b)),
       vw_reason = bc_reason b,
       vw_paused = (bc_queue_started b \<noteq> None \<and> bc_review_started b \<noteq> None),
       vw_waits = sort (map snd (bc_waits b)),
       vw_updated = now\<rparr>)"

subsubsection \<open>The allowance of one pass\<close>

text \<open>\<open>ProviderAllowance\<close>: \<open>waiting\<close> is \<open>begin_waiting\<close> and, whatever its body did, \<open>end_waiting\<close>.\<close>

record allowance =
  al_seconds :: rat
  al_spent :: rat
  al_started :: "rat option"

definition new_allowance :: "rat \<Rightarrow> allowance" where
  "new_allowance s = \<lparr>al_seconds = max 0 s, al_spent = 0, al_started = None\<rparr>"

definition remaining :: "rat \<Rightarrow> allowance \<Rightarrow> rat" where
  "remaining t a = max 0 (al_seconds a - al_spent a - since (al_started a) t)"

definition begin_waiting :: "rat \<Rightarrow> allowance \<Rightarrow> allowance" where
  "begin_waiting t a = a\<lparr>al_started := Some t\<rparr>"

definition end_waiting :: "rat \<Rightarrow> allowance \<Rightarrow> allowance" where
  "end_waiting t a = a\<lparr>al_spent := al_spent a + since (al_started a) t, al_started := None\<rparr>"

text \<open>\<open>provider_wait_overhead(batch_count, extra_passes)\<close> with the controller's provider wait.\<close>

definition provider_wait_overhead :: "rat option \<Rightarrow> int \<Rightarrow> int \<Rightarrow> int \<Rightarrow> int" where
  "provider_wait_overhead wait grace batches extra =
     (case wait of None \<Rightarrow> 0
      | Some w \<Rightarrow> let calls = (if batches \<noteq> 0 then batches + 1 else 1); passes = calls + extra in
          \<lceil>max 0 (w * of_int passes - of_int (grace * calls))\<rceil>)"

text \<open>\<open>foreground_wait\<close> around an admission \<open>fn\<close>, which polls the controller while it waits; the path
  that rejects an acquired ticket when closing the queue itself fails is left out.\<close>

definition foreground_wait ::
    "rat \<Rightarrow> rat \<times> rat \<times> rat \<times> rat \<Rightarrow> (rat \<Rightarrow> controller \<Rightarrow> 'r \<times> controller) \<Rightarrow> upstream \<Rightarrow> rat \<times> rat \<Rightarrow> controller \<Rightarrow> 'r \<times> controller" where
  "foreground_wait wait = (\<lambda>(t0, t1, t2, t3) fn up (t4, t5) b.
     let w = (case queue_remaining b t0 of None \<Rightarrow> wait | Some r \<Rightarrow> min wait r);
         (res, b1) = fn w (start_queue (Some w) t1 t2 t3 b) in
     (res, end_queue t5 (snd (is_set up t4 b1))))"

subsection \<open>The controller as a machine\<close>

text \<open>A state is the last reading of the clock with the controller. The readings of a step are not
  earlier; the clock does not go back.\<close>

inductive bg_step :: "rat \<times> controller \<Rightarrow> rat \<times> controller \<Rightarrow> bool" where
  bg_start_queue: "now \<le> t0 \<Longrightarrow> t0 \<le> t1 \<Longrightarrow> t1 \<le> t2 \<Longrightarrow> bg_step (now, b) (t2, start_queue w t0 t1 t2 b)"
| bg_end_queue: "now \<le> t \<Longrightarrow> bg_step (now, b) (t, end_queue t b)"
| bg_start_wait: "now \<le> t0 \<Longrightarrow> t0 \<le> t1 \<Longrightarrow> t1 \<le> t2 \<Longrightarrow> start_provider_wait s t0 t1 pub t2 b = (r, b') \<Longrightarrow> bg_step (now, b) (t2, b')"
| bg_end_wait: "now \<le> t \<Longrightarrow> close_wait token t b = Inr b' \<Longrightarrow> bg_step (now, b) (t, b')"
| bg_started: "now \<le> t \<Longrightarrow> bg_step (now, b) (t, provider_started t b)"
| bg_settle: "now \<le> t \<Longrightarrow> bg_step (now, b) (t, snd (settle up t b))"
| bg_event: "bg_step (now, b) (now, set_event b)"
| bg_mark: "bg_step (now, b) (now, mark_reason v b)"
| bg_finish: "now \<le> t \<Longrightarrow> bg_step (now, b) (t, finish t b)"

definition times_ok :: "rat \<Rightarrow> controller \<Rightarrow> bool" where
  "times_ok now b \<longleftrightarrow> bc_started b \<le> now
     \<and> (\<forall>q. bc_queue_started b = Some q \<longrightarrow> bc_started b \<le> q \<and> q \<le> now)
     \<and> 0 \<le> bc_queue_elapsed b \<and> queue_seconds b now \<le> now - bc_started b
     \<and> (\<forall>r. bc_review_started b = Some r \<longrightarrow> bc_started b \<le> r \<and> r \<le> now
          \<and> bc_queue_at_review b \<le> queue_seconds b now \<and> queue_seconds b now - bc_queue_at_review b \<le> now - r
          \<and> bc_queue_at_review b \<le> r - bc_started b)
     \<and> (\<forall>e. bc_ended b = Some e \<longrightarrow> bc_started b \<le> e \<and> e \<le> now)"

definition waits_ok :: "rat \<Rightarrow> controller \<Rightarrow> bool" where
  "waits_ok now b \<longleftrightarrow> (bc_wait_started b = None \<longleftrightarrow> bc_waits b = [])
     \<and> (\<forall>w. bc_wait_started b = Some w \<longrightarrow> bc_started b \<le> w \<and> w \<le> now)
     \<and> 0 \<le> bc_wait_elapsed b \<and> wait_seconds b now \<le> now - bc_started b
     \<and> length (bc_waits b) \<le> 2 \<and> distinct (map fst (bc_waits b)) \<and> (\<forall>k \<in> fst ` set (bc_waits b). k \<le> bc_next b)"

definition bg_ok :: "rat \<times> controller \<Rightarrow> bool" where
  "bg_ok s \<longleftrightarrow> (case s of (now, b) \<Rightarrow> times_ok now b \<and> waits_ok now b \<and> bc_reason b \<noteq> Some [])"

lemma since_simps [simp]: "since None t = 0" "since (Some s) t = max 0 (t - s)"
  by (simp_all add: since_def)

lemma queue_advance: "now \<le> t \<Longrightarrow> queue_seconds b now \<le> queue_seconds b t \<and> queue_seconds b t \<le> queue_seconds b now + (t - now)"
  by (cases "bc_queue_started b") (auto simp: queue_seconds_def)

lemma wait_advance: "now \<le> t \<Longrightarrow> wait_seconds b t \<le> wait_seconds b now + (t - now)"
  by (cases "bc_wait_started b") (auto simp: wait_seconds_def)

lemma times_advance: "times_ok now b \<Longrightarrow> now \<le> t \<Longrightarrow> times_ok t b"
  using queue_advance [of now t b] unfolding times_ok_def by fastforce

lemma waits_advance: "waits_ok now b \<Longrightarrow> now \<le> t \<Longrightarrow> waits_ok t b"
  using wait_advance [of now t b] unfolding waits_ok_def by fastforce

subsubsection \<open>Each operation at its own time\<close>

lemma start_queue_times: "times_ok t0 b \<Longrightarrow> times_ok t0 (start_queue w t0 t1 t2 b)"
  by (auto simp: times_ok_def start_queue_def Let_def queue_seconds_def)

lemma end_queue_times: "times_ok t b \<Longrightarrow> times_ok t (end_queue t b)"
  by (auto simp: times_ok_def end_queue_def queue_seconds_def)

lemma provider_started_times: "times_ok t b \<Longrightarrow> times_ok t (provider_started t b)"
  by (auto simp: times_ok_def provider_started_def queue_seconds_def)

lemma finish_times: "times_ok t b \<Longrightarrow> times_ok t (finish t b)"
  by (auto simp: times_ok_def finish_def queue_seconds_def)

text \<open>The operations on waits leave the times of queue and review alone, and the others the waits.\<close>

definition same_times :: "controller \<Rightarrow> controller \<Rightarrow> bool" where
  "same_times b b' \<longleftrightarrow> bc_started b' = bc_started b \<and> bc_queue_started b' = bc_queue_started b \<and> bc_review_started b' = bc_review_started b
     \<and> bc_queue_elapsed b' = bc_queue_elapsed b \<and> bc_queue_at_review b' = bc_queue_at_review b \<and> bc_ended b' = bc_ended b
     \<and> bc_limits b' = bc_limits b"

definition same_waits :: "controller \<Rightarrow> controller \<Rightarrow> bool" where
  "same_waits b b' \<longleftrightarrow> bc_started b' = bc_started b \<and> bc_waits b' = bc_waits b \<and> bc_wait_started b' = bc_wait_started b
     \<and> bc_wait_elapsed b' = bc_wait_elapsed b \<and> bc_next b' = bc_next b"

lemma times_same: "same_times b b' \<Longrightarrow> times_ok t b' = times_ok t b"
  by (simp add: same_times_def times_ok_def queue_seconds_def)

lemma waits_same: "same_waits b b' \<Longrightarrow> waits_ok t b' = waits_ok t b"
  by (simp add: same_waits_def waits_ok_def wait_seconds_def)

lemma keeps_waits:
  "same_waits b (start_queue w t0 t1 t2 b)" "same_waits b (end_queue t b)" "same_waits b (provider_started t b)"
  "same_waits b (finish t b)" "same_waits b (snd (settle up t b))" "same_waits b (set_event b)" "same_waits b (mark_reason v b)"
  by (auto simp: same_waits_def start_queue_def end_queue_def provider_started_def finish_def settle_def set_event_def mark_reason_def
      Let_def split: upstream.splits option.splits)

lemma keeps_times:
  "same_times b (snd (settle up t b))" "same_times b (set_event b)" "same_times b (mark_reason v b)"
  "open_wait s t0 t1 b = Inr (k, b') \<Longrightarrow> same_times b b'" "close_wait token t b = Inr b' \<Longrightarrow> same_times b b'"
  by (auto simp: same_times_def settle_def set_event_def mark_reason_def open_wait_def close_wait_def Let_def
      split: upstream.splits option.splits if_splits)

lemma open_waits: "open_wait s t0 t1 b = Inr (k, b') \<Longrightarrow> waits_ok t0 b \<Longrightarrow> t0 \<le> t1 \<Longrightarrow> bc_started b \<le> t0 \<Longrightarrow> waits_ok t0 b'"
proof -
  assume o: "open_wait s t0 t1 b = Inr (k, b')" and ok: "waits_ok t0 b" and t: "t0 \<le> t1" "bc_started b \<le> t0"
  from ok have "Suc (bc_next b) \<notin> fst ` set (bc_waits b)" unfolding waits_ok_def by (metis Suc_n_not_le_n)
  moreover from o obtain d where "b' = b\<lparr>bc_wait_started := (if bc_waits b = [] then Some t0 else bc_wait_started b), bc_next := Suc (bc_next b),
      bc_waits := bc_waits b @ [(Suc (bc_next b), d)]\<rparr>" and len: "length (bc_waits b) < 2"
    by (auto simp: open_wait_def Let_def split: if_splits)
  moreover from len have "bc_waits b = [] \<or> length (bc_waits b) = Suc 0" by (cases "bc_waits b") auto
  ultimately show ?thesis using ok t
    by (cases "bc_wait_started b") (auto simp: waits_ok_def wait_seconds_def image_iff le_Suc_eq)
qed

lemma close_wait_Inr:
  assumes "close_wait token t b = Inr b'"
  obtains k where "k \<in> fst ` set (bc_waits b)" "bc_waits b' = filter (\<lambda>(j, d). j \<noteq> k) (bc_waits b)"
    "b' = (if bc_waits b' = [] \<and> bc_wait_started b \<noteq> None
       then b\<lparr>bc_waits := bc_waits b', bc_wait_elapsed := bc_wait_elapsed b + since (bc_wait_started b) t, bc_wait_started := None\<rparr>
       else b\<lparr>bc_waits := bc_waits b'\<rparr>)"
proof -
  let ?token = "if token = None \<and> length (bc_waits b) = 1 then Some (fst (hd (bc_waits b))) else token"
  from assms obtain k where k: "?token = Some k" "k \<in> fst ` set (bc_waits b)"
    by (auto simp: close_wait_def Let_def split: option.splits if_splits)
  let ?rest = "filter (\<lambda>(j, d). j \<noteq> k) (bc_waits b)"
  from assms k have "b' = (if ?rest = [] \<and> bc_wait_started b \<noteq> None
      then b\<lparr>bc_waits := ?rest, bc_wait_elapsed := bc_wait_elapsed b + since (bc_wait_started b) t, bc_wait_started := None\<rparr>
      else b\<lparr>bc_waits := ?rest\<rparr>)"
    unfolding close_wait_def Let_def k(1) option.case by simp
  moreover from this have "bc_waits b' = ?rest" by simp
  ultimately show thesis using k(2) by (intro that [of k]) simp_all
qed

lemma close_waits:
  assumes "close_wait token t b = Inr b'" "waits_ok t b"
  shows "waits_ok t b'"
  using assms(1)
proof (rule close_wait_Inr)
  fix k
  let ?rest = "filter (\<lambda>(j, d). j \<noteq> k) (bc_waits b)"
  assume k: "k \<in> fst ` set (bc_waits b)" and w: "bc_waits b' = ?rest"
    and b': "b' = (if bc_waits b' = [] \<and> bc_wait_started b \<noteq> None
       then b\<lparr>bc_waits := bc_waits b', bc_wait_elapsed := bc_wait_elapsed b + since (bc_wait_started b) t, bc_wait_started := None\<rparr>
       else b\<lparr>bc_waits := bc_waits b'\<rparr>)"
  have "length ?rest \<le> 2" "distinct (map fst (bc_waits b)) \<Longrightarrow> distinct (map fst ?rest)"
    "fst ` set ?rest \<subseteq> fst ` set (bc_waits b)"
    using assms(2) by (auto simp: distinct_map inj_on_def waits_ok_def intro: le_trans [OF length_filter_le])
  moreover from k assms(2) obtain s where s: "bc_wait_started b = Some s" by (cases "bc_waits b") (auto simp: waits_ok_def)
  ultimately show ?thesis
    using assms(2) b' w by (cases "?rest = []") (auto simp: waits_ok_def wait_seconds_def)
qed

lemma settle_reason: "bc_reason b \<noteq> Some [] \<Longrightarrow> bc_reason (snd (settle up t b)) \<noteq> Some []"
  by (auto simp: settle_def decided_def upstream_reason_def expiry_def Let_def split: upstream.splits option.splits if_splits)

lemma keeps_reason:
  "bc_reason (start_queue w t0 t1 t2 b) = bc_reason b" "bc_reason (end_queue t b) = bc_reason b"
  "bc_reason (provider_started t b) = bc_reason b" "bc_reason (finish t b) = bc_reason b"
  "bc_reason (set_event b) = bc_reason b" "bc_reason (mark_reason v b) = bc_reason b"
  "open_wait s t0 t1 b = Inr (k, b') \<Longrightarrow> bc_reason b' = bc_reason b" "close_wait token t b = Inr b' \<Longrightarrow> bc_reason b' = bc_reason b"
  by (auto simp: start_queue_def end_queue_def provider_started_def finish_def set_event_def mark_reason_def open_wait_def
      close_wait_def Let_def split: if_splits option.splits)

lemma start_wait_parts:
  assumes "start_provider_wait s t0 t1 pub t2 b = (r, b')"
  obtains "b' = b" | k b1 where "open_wait s t0 t1 b = Inr (k, b1)" "b' = b1"
    | k b1 where "open_wait s t0 t1 b = Inr (k, b1)" "close_wait (Some k) t2 b1 = Inr b'"
  using assms by (auto simp: start_provider_wait_def split: sum.splits prod.splits if_splits)

lemma start_wait_ok:
  assumes "start_provider_wait s t0 t1 pub t2 b = (r, b')" "bg_ok (now, b)" "now \<le> t0" "t0 \<le> t1" "t1 \<le> t2"
  shows "bg_ok (t2, b') \<and> bc_reason b' = bc_reason b \<and> bc_ended b' = bc_ended b"
proof -
  from assms(2,3) have ok: "times_ok t0 b" "waits_ok t0 b" "bc_reason b \<noteq> Some []"
    by (auto simp: bg_ok_def intro: times_advance waits_advance)
  have adv: "bg_ok (t2, x)" if "times_ok t0 x" "waits_ok t0 x" "bc_reason x = bc_reason b" for x
    using that assms(4,5) ok(3) by (auto simp: bg_ok_def intro: times_advance [of t0] waits_advance [of t0])
  have opened: "bg_ok (t2, b1) \<and> bc_reason b1 = bc_reason b \<and> bc_ended b1 = bc_ended b" if "open_wait s t0 t1 b = Inr (k, b1)" for k b1
  proof -
    have "waits_ok t0 b1" using ok open_waits [OF that ok(2) assms(4)] by (simp add: times_ok_def)
    moreover have "times_ok t0 b1" using ok(1) by (simp add: times_same [OF keeps_times(4) [OF that]])
    ultimately show ?thesis using adv [of b1] keeps_reason(7) [OF that] keeps_times(4) [OF that] by (simp add: same_times_def)
  qed
  from assms(1) show ?thesis
  proof (cases rule: start_wait_parts)
    case 1
    with adv [of b] ok show ?thesis by simp
  next
    case (2 k b1)
    with opened show ?thesis by simp
  next
    case (3 k b1)
    from opened [OF 3(1)] have o: "times_ok t2 b1" "waits_ok t2 b1" "bc_reason b1 = bc_reason b" "bc_ended b1 = bc_ended b"
      by (simp_all add: bg_ok_def)
    moreover have "times_ok t2 b'" using o(1) times_same [OF keeps_times(5) [OF 3(2)]] by simp
    moreover have "bc_ended b' = bc_ended b1" using keeps_times(5) [OF 3(2)] by (simp add: same_times_def)
    ultimately show ?thesis
      using ok(3) close_waits [OF 3(2)] keeps_reason(8) [OF 3(2)] by (simp add: bg_ok_def)
  qed
qed

lemma bg_step_ok: "bg_step s s' \<Longrightarrow> bg_ok s \<Longrightarrow> bg_ok s'"
proof (induction rule: bg_step.induct)
  case (bg_start_queue now t0 t1 t2 b w)
  then have "times_ok t0 (start_queue w t0 t1 t2 b)" "waits_ok t0 (start_queue w t0 t1 t2 b)"
    using waits_same [OF keeps_waits(1)] by (auto simp: bg_ok_def intro!: start_queue_times dest: times_advance waits_advance)
  with bg_start_queue show ?case
    by (auto simp: bg_ok_def keeps_reason intro: times_advance [of t0] waits_advance [of t0])
next
  case (bg_start_wait now t0 t1 t2 s pub b r b')
  then show ?case using start_wait_ok by blast
next
  case (bg_end_wait now t token b b')
  then show ?case
    using keeps_times(5) keeps_reason(8) close_waits times_same times_advance waits_advance
    unfolding bg_ok_def prod.case by metis
next
  case (bg_event now b)
  then show ?case by (simp add: bg_ok_def keeps_reason times_same [OF keeps_times(2)] waits_same [OF keeps_waits(6)])
next
  case (bg_mark now b v)
  then show ?case by (simp add: bg_ok_def keeps_reason times_same [OF keeps_times(3)] waits_same [OF keeps_waits(7)])
next
  case (bg_settle now t up b)
  then show ?case
    by (auto simp: bg_ok_def settle_reason times_same [OF keeps_times(1)] waits_same [OF keeps_waits(5)] intro: times_advance waits_advance)
qed (auto simp: bg_ok_def keeps_reason waits_same [OF keeps_waits(2)] waits_same [OF keeps_waits(3)] waits_same [OF keeps_waits(4)]
    intro!: end_queue_times provider_started_times finish_times intro: times_advance waits_advance)

text \<open>Whether a controller was cancelled and when it ended never changes once it is set.\<close>

definition settled_before :: "rat \<times> controller \<Rightarrow> rat \<times> controller \<Rightarrow> bool" where
  "settled_before s s' \<longleftrightarrow> (\<forall>r. bc_reason (snd s) = Some r \<and> r \<noteq> [] \<longrightarrow> bc_reason (snd s') = Some r)
     \<and> (\<forall>e. bc_ended (snd s) = Some e \<longrightarrow> bc_ended (snd s') = Some e)"

lemma settle_keeps: "bc_reason b = Some r \<Longrightarrow> r \<noteq> [] \<Longrightarrow> bc_reason (snd (settle up t b)) = Some r"
  by (simp add: settle_def decided_def split: upstream.splits)

lemma bg_step_keeps: "bg_step s s' \<Longrightarrow> bg_ok s \<Longrightarrow> settled_before s s'"
proof (induction rule: bg_step.induct)
  case (bg_start_wait now t0 t1 t2 s pub b r b')
  then show ?case using start_wait_ok [OF bg_start_wait(4,5)] by (simp add: settled_before_def)
next
  case (bg_end_wait now t token b b')
  then show ?case using keeps_times(5) keeps_reason(8) by (simp add: settled_before_def same_times_def)
next
  case (bg_settle now t up b)
  then show ?case using settle_keeps keeps_times(1) by (simp add: settled_before_def same_times_def)
qed (auto simp: settled_before_def keeps_reason start_queue_def end_queue_def provider_started_def finish_def set_event_def mark_reason_def Let_def)

interpretation budget: history_machine "(t0, new_controller l t0)" bg_step bg_ok settled_before for t0 l
proof unfold_locales
  show "bg_ok (t0, new_controller l t0)"
    by (simp add: bg_ok_def times_ok_def waits_ok_def new_controller_def queue_seconds_def wait_seconds_def)
  show "bg_ok t" if "bg_ok s" "bg_step s t" for s t using that(2,1) by (rule bg_step_ok)
  show "settled_before s s" for s by (simp add: settled_before_def)
  show "settled_before s u" if "settled_before s t" "settled_before t u" for s t u using that by (simp add: settled_before_def)
  show "settled_before s t" if "bg_ok s" "bg_step s t" for s t using that(2,1) by (rule bg_step_keeps)
qed

subsection \<open>Properties\<close>

lemma reached_simps [simp]: "reached None x = False" "reached (Some l) x \<longleftrightarrow> l \<le> x"
  by (simp_all add: reached_def)

text \<open>Outside the queue the review clock runs with the wall clock; in it, it stands.\<close>

lemma review_clock:
  assumes "times_ok now b" "now \<le> t" "bc_review_started b = Some r"
  shows "review_seconds b t = (t - r) - (queue_seconds b t - bc_queue_at_review b)"
    and "bc_queue_started b = None \<Longrightarrow> review_seconds b t = review_seconds b now + (t - now)"
  using assms times_advance [OF assms(1,2)] by (auto simp: times_ok_def review_seconds_def queue_seconds_def)

text \<open> Time is accounted for once. In every reachable controller, at any later reading of the
  clock, the time in the foreground queue and the active review time are disjoint parts of the
  total, the active time is the wall time since the first provider less the queueing since then,
  no clamp to zero ever bites, and provider waits fit into the total.\<close>

theorem time_is_accounted:
  assumes "reachable_by (t0, new_controller l t0) bg_step (now, b)" and "now \<le> t"
  shows "0 \<le> queue_seconds b t \<and> 0 \<le> review_seconds b t \<and> queue_seconds b t + review_seconds b t \<le> t - bc_started b
    \<and> 0 \<le> wait_seconds b t \<and> wait_seconds b t \<le> t - bc_started b
    \<and> (\<forall>r. bc_review_started b = Some r \<longrightarrow> review_seconds b t = (t - r) - (queue_seconds b t - bc_queue_at_review b))"
proof -
  from budget.reachable_inv [OF assms(1)] assms(2) have ok: "times_ok t b" "waits_ok t b"
    by (auto simp: bg_ok_def intro: times_advance waits_advance)
  have q: "0 \<le> queue_seconds b t" using ok(1) by (cases "bc_queue_started b") (auto simp: times_ok_def queue_seconds_def)
  have w: "0 \<le> wait_seconds b t" using ok(2) by (cases "bc_wait_started b") (auto simp: waits_ok_def wait_seconds_def)
  show ?thesis
  proof (cases "bc_review_started b")
    case None
    with ok q w show ?thesis by (auto simp: times_ok_def waits_ok_def review_seconds_def)
  next
    case (Some r)
    from review_clock(1) [OF ok(1) order.refl Some] ok Some q w show ?thesis by (auto simp: times_ok_def waits_ok_def)
  qed
qed

text \<open> Cancellation and the end are final. Whatever happens afterwards, a controller that has a
  reason keeps it and answers set, and one that has ended keeps its end, shows the same snapshot
  at every later reading of the clock, and is not changed by being asked.\<close>

theorem observation_is_final:
  assumes "reachable_by (t0, new_controller l t0) bg_step (now, b)" and "bg_step\<^sup>*\<^sup>* (now, b) (now', b')"
  shows "(\<forall>r. bc_reason b = Some r \<longrightarrow> bc_reason b' = Some r \<and> is_set up t b' = (True, b'))
    \<and> (\<forall>e. bc_ended b = Some e \<longrightarrow> bc_ended b' = Some e \<and> snapshot s b' = snapshot s' b' \<and> snd (is_set up t b') = b'
         \<and> finish t b' = b')"
proof -
  have ok: "bg_ok (now, b)" by (rule budget.reachable_inv [OF assms(1)])
  have keep: "settled_before (now, b) (now', b')" by (rule budget.run_keeps [OF assms(2) ok])
  from ok have "bc_reason b \<noteq> Some []" by (simp add: bg_ok_def)
  then have "bc_reason b' = Some r" if "bc_reason b = Some r" for r using keep that by (auto simp: settled_before_def)
  moreover have "bc_ended b' = Some e" if "bc_ended b = Some e" for e using keep that by (simp add: settled_before_def)
  ultimately show ?thesis
    by (auto simp: is_set_def decided_def snapshot_def finish_def Let_def)
qed

text \<open> The deadlines of a snapshot are exact. For a controller that runs outside the queue and
  was not cancelled, a snapshot taken at \<open>s\<close> tells when it will expire: asked at any \<open>t\<close> from then
  on, with nothing in between, it answers set exactly when the total or the review deadline of
  that snapshot has come.\<close>

theorem deadlines_are_exact:
  assumes "reachable_by (t0, new_controller l t0) bg_step (now, b)" and "now \<le> s" and "s \<le> t"
    and "bc_ended b = None" and "bc_reason b = None" and "\<not> bc_event b" and "bc_queue_started b = None"
  shows "fst (is_set Up_clear t b) \<longleftrightarrow>
    (\<exists>d. vw_total_deadline (snapshot s b) = Some d \<and> d \<le> t) \<or> (\<exists>d. vw_review_deadline (snapshot s b) = Some d \<and> d \<le> t)"
proof -
  from budget.reachable_inv [OF assms(1)] assms(2) have ok: "times_ok s b" by (auto simp: bg_ok_def intro: times_advance)
  have "review_seconds b t = review_seconds b s + (t - s)" if "bc_review_started b = Some r" for r
    by (rule review_clock(2) [OF ok assms(3) that assms(7)])
  then show ?thesis
    using assms(4-7)
    by (cases "bc_review_started b"; cases "lm_review (bc_limits b)"; cases "lm_total (bc_limits b)")
      (auto simp: is_set_def settle_def decided_def expiry_def snapshot_def Let_def)
qed

text \<open>The end alone does not freeze the reason: a poll that asked the upstream token before \<open>finish\<close>
  and fails after it still labels the finished controller.\<close>

lemma late_poll_relabels:
  "bc_ended b = Some e \<Longrightarrow> bc_reason b = None \<Longrightarrow>
     bc_reason (snd (settle Up_failed t b)) = Some ''cancellation_state_unavailable''"
  by (simp add: settle_def)

text \<open>The waits of one pass, each no longer than what the allowance has left when it begins.\<close>

fun fitting :: "allowance \<Rightarrow> (rat \<times> rat) list \<Rightarrow> bool" where
  "fitting a [] = True"
| "fitting a ((s, e) # ws) \<longleftrightarrow> s \<le> e \<and> e \<le> s + remaining s a \<and> fitting (end_waiting e (begin_waiting s a)) ws"

fun spend :: "allowance \<Rightarrow> (rat \<times> rat) list \<Rightarrow> allowance" where
  "spend a [] = a"
| "spend a ((s, e) # ws) = spend (end_waiting e (begin_waiting s a)) ws"

lemma spend_total:
  "fitting a ws \<Longrightarrow> al_started a = None \<Longrightarrow> al_spent a \<le> al_seconds a \<Longrightarrow>
    al_spent a + (\<Sum>(s, e)\<leftarrow>ws. e - s) \<le> al_seconds a \<and> al_started (spend a ws) = None \<and> al_seconds (spend a ws) = al_seconds a
    \<and> al_spent (spend a ws) = al_spent a + (\<Sum>(s, e)\<leftarrow>ws. e - s)"
proof (induction a ws rule: fitting.induct)
  case (2 a s e ws)
  from 2 have "fitting (end_waiting e (begin_waiting s a)) ws" "al_spent (end_waiting e (begin_waiting s a)) = al_spent a + (e - s)"
    by (auto simp: end_waiting_def begin_waiting_def)
  with 2 show ?case by (auto simp: end_waiting_def begin_waiting_def remaining_def)
qed simp

text \<open> One allowance for all fallbacks. However the waits of a pass are divided among its
  providers, together they last at most the allowance, and what remains is the rest.\<close>

theorem allowance_is_shared:
  assumes "fitting (new_allowance n) ws"
  shows "(\<Sum>(s, e)\<leftarrow>ws. e - s) \<le> max 0 n \<and> remaining t (spend (new_allowance n) ws) = max 0 n - (\<Sum>(s, e)\<leftarrow>ws. e - s)"
  using spend_total [OF assms] by (simp add: new_allowance_def remaining_def)

subsubsection \<open>A run the properties apply to\<close>

definition sample_limits :: limits where
  "sample_limits = \<lparr>lm_queue = Some 60, lm_review = Some 100, lm_wait = Some 30, lm_total = Some 900\<rparr>"

definition sample_budget :: controller where
  "sample_budget = provider_started 20 (end_queue 15 (start_queue None 5 5 5 (new_controller sample_limits 0)))"

lemma sample_budget_reached: "reachable_by (0, new_controller sample_limits 0) bg_step (20, sample_budget)"
proof -
  have "reachable_by (0, new_controller sample_limits 0) bg_step (5, start_queue None 5 5 5 (new_controller sample_limits 0))"
    by (rule reach_step, rule reach_init, rule bg_start_queue) simp_all
  then have "reachable_by (0, new_controller sample_limits 0) bg_step (15, end_queue 15 (start_queue None 5 5 5 (new_controller sample_limits 0)))"
    by (rule reach_step) (rule bg_end_queue, simp)
  then show ?thesis unfolding sample_budget_def by (rule reach_step) (rule bg_started, simp)
qed

lemma sample_budget_parts: "bc_ended sample_budget = None" "bc_reason sample_budget = None" "\<not> bc_event sample_budget"
  "bc_queue_started sample_budget = None" "bc_review_started sample_budget = Some 20" "queue_seconds sample_budget t = 10"
  "bc_queue_at_review sample_budget = 10" "bc_limits sample_budget = sample_limits" "bc_started sample_budget = 0"
  by (simp_all add: sample_budget_def provider_started_def end_queue_def start_queue_def new_controller_def Let_def queue_seconds_def)

lemma time_is_accounted_witness: "review_seconds sample_budget 50 = 30"
  using time_is_accounted [OF sample_budget_reached, of 50] by (simp add: sample_budget_parts)

lemma deadlines_are_exact_witness: "\<not> fst (is_set Up_clear 119 sample_budget) \<and> fst (is_set Up_clear 120 sample_budget)"
  using deadlines_are_exact [OF sample_budget_reached, of 20 119] deadlines_are_exact [OF sample_budget_reached, of 20 120]
  by (simp add: sample_budget_parts snapshot_def sample_limits_def review_seconds_def Let_def)

lemma observation_is_final_witness:
  "bc_reason (finish 130 (snd (settle Up_clear 120 sample_budget))) = Some ''review_budget_exhausted''"
proof -
  let ?b = "snd (settle Up_clear 120 sample_budget)"
  have "reachable_by (0, new_controller sample_limits 0) bg_step (120, ?b)"
    by (rule reach_step, rule sample_budget_reached, rule bg_settle, simp)
  moreover have "bg_step\<^sup>*\<^sup>* (120, ?b) (130, finish 130 ?b)" by (rule r_into_rtranclp, rule bg_finish) simp
  moreover have "bc_reason ?b = Some ''review_budget_exhausted''"
    by (simp add: settle_def decided_def expiry_def sample_budget_parts sample_limits_def review_seconds_def Let_def)
  ultimately show ?thesis using observation_is_final by blast
qed

lemma allowance_is_shared_witness:
  "remaining 50 (spend (new_allowance 30) [(0, 10), (20, 35)]) = 5"
  using allowance_is_shared [of 30 "[(0, 10), (20, 35)]" 50]
  by (simp add: new_allowance_def end_waiting_def begin_waiting_def remaining_def)

end
