(* ===== verification/BudgetStore.thy ===== *)
theory BudgetStore
  imports Requests Capacity
begin

section \<open>Budget snapshots and capacity layers of an execution\<close>

text \<open>
  Models \<open>budget_store.py\<close>: the snapshots of a review budget and the capacity layers an execution
  observed, both fenced by the request registry. A stored snapshot is the value its canonical
  text has, as elsewhere; reading it back validates it again. A write is one transaction or
  savepoint, so a raise leaves the tables as they were. The admission table is that of
  \<open>Capacity\<close>.
\<close>

record budget_row =
  bs_request :: string
  bs_seq :: nat
  bs_snapshot :: pydict
  bs_updated :: string

record layer =
  ly_admission :: string
  ly_request :: string
  ly_seq :: nat
  ly_class :: string
  ly_scope :: string
  ly_effective :: int
  ly_configured :: "int option"
  ly_legacy :: "bool option"
  ly_updated :: string

record budget_db =
  bd_rows :: "budget_row list"
  bd_layers :: "layer list"

datatype store_error = Budget_text | Budget_seq | Budget_capacity | Budget_time | Budget_snapshot | Budget_data | Budget_limit

subsection \<open>Arguments\<close>

definition field_arg :: "nat \<Rightarrow> string \<Rightarrow> store_error + unit" where
  "field_arg limit s = guard (s \<noteq> [] \<and> length s \<le> limit) Budget_text"

definition max_int64 :: int where "max_int64 = 9223372036854775807"

definition seq_arg :: "int \<Rightarrow> store_error + unit" where
  "seq_arg n = guard (1 \<le> n \<and> n \<le> max_int64) Budget_seq"

definition capacity_arg :: "int \<Rightarrow> store_error + unit" where
  "capacity_arg n = guard (0 \<le> n \<and> n \<le> max_int64) Budget_capacity"

text \<open>\<open>_number\<close>, \<open>_timestamp\<close> with \<open>optional=True\<close>, and \<open>_text\<close> on values.\<close>

definition number_ok :: "pyval \<Rightarrow> bool" where
  "number_ok v \<longleftrightarrow> v = PNone \<or> finite_nonneg v"

definition time_ok :: "pyval \<Rightarrow> bool" where
  "time_ok v \<longleftrightarrow> v = PNone \<or> is_canonical_ts v"

fun short_value :: "nat \<Rightarrow> pyval \<Rightarrow> bool" where
  "short_value limit (PStr s) = (s \<noteq> [] \<and> length s \<le> limit)"
| "short_value limit _ = False"

subsection \<open>Snapshots\<close>

definition limit_keys :: "string list" where
  "limit_keys = [''max_queue_seconds'', ''max_review_seconds'', ''max_provider_wait_seconds'', ''max_wall_seconds'']"

definition deadline_keys :: "string list" where
  "deadline_keys = [''queue'', ''review'', ''total'', ''provider_wait'']"

definition timing_keys :: "string list" where
  "timing_keys = [''queue_wait_ms'', ''provider_wait_ms'', ''review_wall_ms'', ''review_active_ms'', ''total_ms'']"

definition snapshot_fields :: "string list" where
  "snapshot_fields = [''scope'', ''request_id'', ''execution_seq'', ''phase'', ''limits'', ''deadlines'', ''timing'',
     ''review_paused_for_queue'', ''reason_code'', ''updated_at'', ''provider_waits'']"

text \<open>\<open>_object\<close>, and the part of it the source rebuilds with every key.\<close>

definition object_ok :: "string list \<Rightarrow> (pyval \<Rightarrow> bool) \<Rightarrow> pyval \<Rightarrow> bool" where
  "object_ok keys p v \<longleftrightarrow>
     (case v of PDict d \<Rightarrow> set (map fst d) \<subseteq> set keys \<and> list_all (\<lambda>k. p (dget d k)) keys | _ \<Rightarrow> False)"

definition rebuilt :: "string list \<Rightarrow> pyval \<Rightarrow> pyval" where
  "rebuilt keys v = PDict (map (\<lambda>k. (k, vget v k)) keys)"

definition waits_shape :: "pyval \<Rightarrow> bool" where
  "waits_shape v \<longleftrightarrow>
     (case v of PDict d \<Rightarrow> set (map fst d) \<subseteq> {''active_count'', ''deadlines''}
        \<and> (case (dget d ''active_count'', dget d ''deadlines'') of
             (PInt n, PList xs) \<Rightarrow> 0 \<le> n \<and> n \<le> 2 \<and> int (length xs) = n \<and> list_all is_canonical_ts xs
           | _ \<Rightarrow> False)
      | _ \<Rightarrow> False)"

definition snapshot_ok :: "string \<Rightarrow> nat \<Rightarrow> pydict \<Rightarrow> bool" where
  "snapshot_ok rid seq v \<longleftrightarrow>
     set (map fst v) \<subseteq> set snapshot_fields
     \<and> dget_or v ''scope'' (PStr ''request_execution'') = PStr ''request_execution''
     \<and> dget_or v ''request_id'' (PStr rid) = PStr rid
     \<and> dget_or v ''execution_seq'' (PInt (int seq)) = PInt (int seq)
     \<and> object_ok limit_keys number_ok (dget v ''limits'')
     \<and> object_ok deadline_keys time_ok (dget v ''deadlines'')
     \<and> object_ok timing_keys number_ok (dget v ''timing'')
     \<and> null_or is_bool (dget v ''review_paused_for_queue'')
     \<and> null_or (short_value 128) (dget v ''reason_code'')
     \<and> short_value 128 (dget v ''phase'')
     \<and> is_canonical_ts (dget v ''updated_at'')
     \<and> (dhas v ''provider_waits'' \<longrightarrow> waits_shape (dget v ''provider_waits''))"

definition normalized :: "string \<Rightarrow> nat \<Rightarrow> pydict \<Rightarrow> pydict" where
  "normalized rid seq v =
     [(''scope'', PStr ''request_execution''), (''request_id'', PStr rid), (''execution_seq'', PInt (int seq)),
      (''phase'', dget v ''phase''), (''limits'', rebuilt limit_keys (dget v ''limits'')),
      (''deadlines'', rebuilt deadline_keys (dget v ''deadlines'')), (''timing'', rebuilt timing_keys (dget v ''timing'')),
      (''review_paused_for_queue'', dget v ''review_paused_for_queue''), (''reason_code'', dget v ''reason_code''),
      (''updated_at'', dget v ''updated_at'')]
     @ (if dhas v ''provider_waits'' then [(''provider_waits'', rebuilt [''active_count'', ''deadlines''] (dget v ''provider_waits''))] else [])"

definition max_snapshot_bytes :: nat where "max_snapshot_bytes = 65536"

text \<open>\<open>_snapshot\<close>: the normalized value, where the source does not raise.\<close>

definition norm_snapshot :: "string \<Rightarrow> nat \<Rightarrow> pydict \<Rightarrow> pydict option" where
  "norm_snapshot rid seq v =
     (if \<not> snapshot_ok rid seq v then None
      else (case dumps True (PDict (normalized rid seq v)) of None \<Rightarrow> None
        | Some t \<Rightarrow> if max_snapshot_bytes < utf8_len t then None else Some (normalized rid seq v)))"

subsection \<open>Writes\<close>

text \<open>\<open>_budget_owner\<close>: the caller owns the request and its last execution.\<close>

definition last_seq :: "string \<Rightarrow> request_db \<Rightarrow> nat option" where
  "last_seq rid rdb = (let es = filter (\<lambda>e. ex_request e = rid) (rd_execs rdb) in
     if es = [] then None else Some (Max (ex_seq ` set es)))"

definition budget_owner :: "string \<Rightarrow> nat \<Rightarrow> string \<Rightarrow> request_db \<Rightarrow> bool" where
  "budget_owner rid seq token rdb \<longleftrightarrow>
     list_ex (\<lambda>r. rq_id r = rid \<and> rq_owner r = token) (rd_requests rdb)
     \<and> list_ex (\<lambda>e. ex_request e = rid \<and> ex_owner e = token \<and> ex_seq e = seq) (rd_execs rdb)
     \<and> last_seq rid rdb = Some seq"

definition the_row :: "string \<Rightarrow> nat \<Rightarrow> budget_row \<Rightarrow> bool" where
  "the_row rid seq r \<longleftrightarrow> bs_request r = rid \<and> bs_seq r = seq"

text \<open>The time text of a normalized snapshot.\<close>

definition updated_text :: "pydict \<Rightarrow> string" where
  "updated_text n = (case dget n ''updated_at'' of PStr s \<Rightarrow> s | _ \<Rightarrow> [])"

definition upsert_snapshot :: "string \<Rightarrow> nat \<Rightarrow> pydict \<Rightarrow> budget_db \<Rightarrow> bool \<times> budget_db" where
  "upsert_snapshot rid seq n db =
     (let at = updated_text n; row = \<lparr>bs_request = rid, bs_seq = seq, bs_snapshot = sorted_dict n, bs_updated = at\<rparr> in
      case find (the_row rid seq) (bd_rows db) of
        None \<Rightarrow> (True, db\<lparr>bd_rows := bd_rows db @ [row]\<rparr>)
      | Some old \<Rightarrow>
          if at < bs_updated old then (False, db)
          else (True, db\<lparr>bd_rows := tbl_update (the_row rid seq) (\<lambda>r. r\<lparr>bs_snapshot := sorted_dict n, bs_updated := at\<rparr>) (bd_rows db)\<rparr>))"

definition save_request_budget ::
    "string \<Rightarrow> int \<Rightarrow> string \<Rightarrow> pydict \<Rightarrow> request_db \<Rightarrow> budget_db \<Rightarrow> store_error + bool \<times> budget_db" where
  "save_request_budget rid seq token snap rdb db =
     ebind (field_arg 4096 rid) (\<lambda>_. ebind (field_arg 4096 token) (\<lambda>_. ebind (seq_arg seq) (\<lambda>_.
       case norm_snapshot rid (nat seq) snap of None \<Rightarrow> Inl Budget_snapshot
       | Some n \<Rightarrow> Inr (if budget_owner rid (nat seq) token rdb then upsert_snapshot rid (nat seq) n db else (False, db)))))"

record capacity_args =
  cy_admission :: string
  cy_class :: string
  cy_scope :: string
  cy_effective :: int
  cy_configured :: "int option"
  cy_legacy :: "bool option"
  cy_updated :: string

definition new_layer :: "string \<Rightarrow> nat \<Rightarrow> capacity_args \<Rightarrow> layer" where
  "new_layer rid seq a = \<lparr>ly_admission = cy_admission a, ly_request = rid, ly_seq = seq, ly_class = cy_class a, ly_scope = cy_scope a,
     ly_effective = cy_effective a, ly_configured = cy_configured a, ly_legacy = cy_legacy a, ly_updated = cy_updated a\<rparr>"

definition upsert_layer :: "string \<Rightarrow> nat \<Rightarrow> capacity_args \<Rightarrow> budget_db \<Rightarrow> bool \<times> budget_db" where
  "upsert_layer rid seq a db =
     (case tbl_find ly_admission (cy_admission a) (bd_layers db) of
        None \<Rightarrow> (True, db\<lparr>bd_layers := bd_layers db @ [new_layer rid seq a]\<rparr>)
      | Some l \<Rightarrow>
          if ly_request l = rid \<and> ly_seq l = seq \<and> ly_class l = cy_class a \<and> ly_scope l = cy_scope a \<and> ly_updated l \<le> cy_updated a
          then (True, db\<lparr>bd_layers := tbl_update (\<lambda>x. ly_admission x = cy_admission a)
             (\<lambda>x. x\<lparr>ly_effective := cy_effective a, ly_configured := cy_configured a, ly_legacy := cy_legacy a, ly_updated := cy_updated a\<rparr>)
             (bd_layers db)\<rparr>)
          else (False, db))"

definition record_request_capacity ::
    "string \<Rightarrow> int \<Rightarrow> string \<Rightarrow> capacity_args \<Rightarrow> request_db \<Rightarrow> admissions \<Rightarrow> budget_db \<Rightarrow> store_error + bool \<times> budget_db" where
  "record_request_capacity rid seq token a rdb caps db =
     ebind (field_arg 4096 rid) (\<lambda>_. ebind (field_arg 4096 token) (\<lambda>_. ebind (field_arg 4096 (cy_admission a)) (\<lambda>_.
     ebind (field_arg 4096 (cy_class a)) (\<lambda>_. ebind (field_arg 4096 (cy_scope a)) (\<lambda>_. ebind (seq_arg seq) (\<lambda>_.
     ebind (capacity_arg (cy_effective a)) (\<lambda>_.
     ebind (case cy_configured a of None \<Rightarrow> Inr () | Some c \<Rightarrow> capacity_arg c) (\<lambda>_.
     ebind (guard (is_canonical_ts (PStr (cy_updated a))) Budget_time) (\<lambda>_.
       if \<not> budget_owner rid (nat seq) token rdb then Inr (False, db)
       else (case tbl_find ca_id (cy_admission a) caps of None \<Rightarrow> Inr (False, db)
         | Some adm \<Rightarrow>
             if \<lparr>ln_request = rid, ln_kind = Link_capacity, ln_target = cy_admission a\<rparr> \<notin> set (rd_links rdb)
                \<or> ca_class adm \<noteq> cy_class a \<or> ca_scope adm \<noteq> cy_scope a then Inr (False, db)
             else if tbl_find ly_admission (cy_admission a) (bd_layers db) = None \<and> \<not> active (ca_status adm) then Inr (False, db)
             else Inr (upsert_layer rid (nat seq) a db)))))))))))"

subsection \<open>Reads\<close>

definition all_keys :: "string list \<Rightarrow> pyval \<Rightarrow> bool" where
  "all_keys keys v \<longleftrightarrow> (case v of PDict d \<Rightarrow> set (map fst d) = set keys | _ \<Rightarrow> False)"

definition layer_ok :: "layer \<Rightarrow> bool" where
  "layer_ok l \<longleftrightarrow> list_all (\<lambda>s. s \<noteq> [] \<and> length s \<le> 4096) [ly_admission l, ly_class l, ly_scope l]
     \<and> 1 \<le> int (ly_seq l) \<and> int (ly_seq l) \<le> max_int64
     \<and> 0 \<le> ly_effective l \<and> ly_effective l \<le> max_int64
     \<and> (case ly_configured l of None \<Rightarrow> True | Some c \<Rightarrow> 0 \<le> c \<and> c \<le> max_int64)
     \<and> is_canonical_ts (PStr (ly_updated l))"

definition max_layers :: nat where "max_layers = 1000"

definition layers_of :: "budget_row \<Rightarrow> budget_db \<Rightarrow> layer list" where
  "layers_of row db = take (Suc max_layers) (sort_key ly_admission
     (filter (\<lambda>l. ly_request l = bs_request row \<and> ly_seq l = bs_seq row) (bd_layers db)))"

record budget_view =
  bv_snapshot :: pydict
  bv_layers :: "layer list"
  bv_truncated :: bool

definition read_request_budget :: "request_db \<Rightarrow> budget_db \<Rightarrow> budget_row \<Rightarrow> store_error + budget_view" where
  "read_request_budget rdb db row =
     (let d = bs_snapshot row in
      if max_snapshot_bytes < utf8_len (emit True (PDict d)) then Inl Budget_data
      else if set (map fst d) \<noteq> set snapshot_fields \<and> set (map fst d) \<noteq> set snapshot_fields - {''provider_waits''} then Inl Budget_data
      else if \<not> (all_keys limit_keys (dget d ''limits'') \<and> all_keys deadline_keys (dget d ''deadlines'') \<and> all_keys timing_keys (dget d ''timing''))
        then Inl Budget_data
      else (case norm_snapshot (bs_request row) (bs_seq row) d of None \<Rightarrow> Inl Budget_data
        | Some n \<Rightarrow>
            if dget n ''updated_at'' \<noteq> PStr (bs_updated row) then Inl Budget_data
            else if \<not> list_ex (\<lambda>e. ex_seq e = bs_seq row \<and> ex_request e = bs_request row) (rd_execs rdb) then Inl Budget_data
            else let ls = layers_of row db in
              if list_all layer_ok (take max_layers ls)
              then Inr \<lparr>bv_snapshot = n, bv_layers = take max_layers ls, bv_truncated = (max_layers < length ls)\<rparr>
              else Inl Budget_data))"

text \<open>\<open>request_budget\<close>: only the last execution's snapshot.\<close>

definition request_budget :: "string \<Rightarrow> request_db \<Rightarrow> budget_db \<Rightarrow> store_error + budget_view option" where
  "request_budget rid rdb db =
     ebind (field_arg 4096 rid) (\<lambda>_.
       case (rq_find rid rdb, last_seq rid rdb) of
         (Some r, Some seq) \<Rightarrow>
           (case find (\<lambda>e. ex_request e = rid \<and> ex_seq e = seq) (rd_execs rdb) of None \<Rightarrow> Inr None
            | Some e \<Rightarrow>
                if ex_owner e \<noteq> rq_owner r then Inl Budget_data
                else (case find (the_row rid seq) (bd_rows db) of None \<Rightarrow> Inr None
                  | Some row \<Rightarrow> map_sum id Some (read_request_budget rdb db row)))
       | _ \<Rightarrow> Inr None)"

text \<open>\<open>request_budgets\<close>: the history, latest first, and whether it was cut.\<close>

fun read_all :: "request_db \<Rightarrow> budget_db \<Rightarrow> budget_row list \<Rightarrow> store_error + budget_view list" where
  "read_all rdb db [] = Inr []"
| "read_all rdb db (r # rs) = ebind (read_request_budget rdb db r) (\<lambda>v. ebind (read_all rdb db rs) (\<lambda>vs. Inr (v # vs)))"

definition request_budgets :: "string \<Rightarrow> int \<Rightarrow> request_db \<Rightarrow> budget_db \<Rightarrow> store_error + budget_view list \<times> bool" where
  "request_budgets rid limit rdb db =
     ebind (field_arg 4096 rid) (\<lambda>_. ebind (guard (1 \<le> limit \<and> limit \<le> 100) Budget_limit) (\<lambda>_.
       let rows = take (Suc (nat limit)) (rev (sort_key bs_seq (filter (\<lambda>r. bs_request r = rid) (bd_rows db)))) in
       ebind (read_all rdb db (take (nat limit) rows)) (\<lambda>vs. Inr (vs, nat limit < length rows))))"

subsection \<open>Numbers of executions\<close>

definition numbered :: "request_db \<Rightarrow> bool" where
  "numbered db \<longleftrightarrow> distinct (map ex_seq (rd_execs db)) \<and> (\<forall>n \<in> set (map ex_seq (rd_execs db)). n \<le> rd_seq db)"

lemma numbered_same:
  "map ex_seq (rd_execs db') = map ex_seq (rd_execs db) \<Longrightarrow> rd_seq db' = rd_seq db \<Longrightarrow> numbered db \<Longrightarrow> numbered db'"
  unfolding numbered_def by simp

lemma numbered_opened:
  assumes "open_execution a actor rid db = Inr db'" "numbered db"
  shows "numbered db'"
proof -
  from assms(2) have "Suc (rd_seq db) \<notin> set (map ex_seq (rd_execs db))" unfolding numbered_def by (metis Suc_n_not_le_n)
  moreover from assms(1) have "map ex_seq (rd_execs db') = map ex_seq (rd_execs db) @ [Suc (rd_seq db)]" "rd_seq db' = Suc (rd_seq db)"
    by (auto simp: open_execution_def split: if_splits)
  ultimately show ?thesis using assms(2) unfolding numbered_def by (auto simp del: set_map simp: le_Suc_eq)
qed

lemma numbered_begun:
  assumes "begin_request H reviews odb a db = Inr (d, rid, db')" "numbered db"
  shows "numbered db'"
  using assms(1)
proof (cases rule: begin_cases)
  case (created actor digest)
  from numbered_opened [OF created(4)] assms(2) show ?thesis by (simp add: numbered_def)
next
  case (continued actor r)
  from numbered_opened [OF continued(5)] assms(2) show ?thesis by (simp add: numbered_def)
qed (use assms(2) in simp)

lemma numbered_step: "rq_step H db db' \<Longrightarrow> numbered db \<Longrightarrow> numbered db'"
proof (induction rule: rq_step.induct)
  case (rq_begin reviews odb a db d rid db')
  then show ?case by (rule numbered_begun)
next
  case (rq_finish rid token state reason result now db b db')
  from rq_finish(1) show ?case
  proof (cases rule: finish_Inr)
    case missed
    with rq_finish(2) show ?thesis by simp
  next
    case (hit status)
    have "rd_seq db' = rd_seq db"
      using rq_finish(1) by (auto simp: finish_request_def ebind_Inr_iff finish_cancellations_def split: if_splits)
    with hit(6) rq_finish(2) show ?thesis by - (rule numbered_same [of db' db]; simp add: map_tbl_update)
  qed
next
  case (rq_prune before dry limit db n db')
  then show ?case
    by - (rule numbered_same [of db' db]; auto simp: prune_request_results_def ebind_Inr_iff Let_def split: if_splits)
next
  case (rq_link rid kind target db db')
  then show ?case
    by - (rule numbered_same [of db' db]; auto simp: link_request_def ebind_Inr_iff Let_def split: if_splits)
next
  case (rq_advance rid token state now db b db')
  then show ?case
    by - (rule numbered_same [of db' db]; auto simp: advance_request_def ebind_Inr_iff split: if_splits)
next
  case (rq_cancel identities a db n db')
  then show ?case
    by - (rule numbered_same [of db' db]; auto simp: record_cancellation_def ebind_Inr_iff split: if_splits)
next
  case (rq_close db target outcome now)
  then show ?case by - (rule numbered_same [of _ db]; auto simp: finish_cancellations_def)
qed

interpretation executions: safe_machine empty_requests "rq_step H" numbered for H
  by unfold_locales (simp add: empty_requests_def numbered_def, erule (1) numbered_step [rotated])

subsection \<open>The tables as a machine\<close>

text \<open>Both writes, under any state of the registry and of the admissions.\<close>

inductive bs_step :: "budget_db \<Rightarrow> budget_db \<Rightarrow> bool" where
  bs_save: "save_request_budget rid seq token snap rdb db = Inr (b, db') \<Longrightarrow> bs_step db db'"
| bs_layer: "record_request_capacity rid seq token a rdb caps db = Inr (b, db') \<Longrightarrow> bs_step db db'"

definition empty_budgets :: budget_db where
  "empty_budgets = \<lparr>bd_rows = [], bd_layers = []\<rparr>"

definition bs_ok :: "budget_db \<Rightarrow> bool" where
  "bs_ok db \<longleftrightarrow> distinct (map (\<lambda>r. (bs_request r, bs_seq r)) (bd_rows db)) \<and> keyed ly_admission (bd_layers db)
     \<and> (\<forall>l \<in> set (bd_layers db). layer_ok l)"

text \<open>Layers stay with their execution and resource; times do not go back.\<close>

definition layer_kept :: "layer \<Rightarrow> layer \<Rightarrow> bool" where
  "layer_kept l x \<longleftrightarrow> ly_admission x = ly_admission l \<and> ly_request x = ly_request l \<and> ly_seq x = ly_seq l
     \<and> ly_class x = ly_class l \<and> ly_scope x = ly_scope l \<and> ly_updated l \<le> ly_updated x"

definition row_kept :: "budget_row \<Rightarrow> budget_row \<Rightarrow> bool" where
  "row_kept r x \<longleftrightarrow> bs_request x = bs_request r \<and> bs_seq x = bs_seq r \<and> bs_updated r \<le> bs_updated x"

definition bs_history :: "budget_db \<Rightarrow> budget_db \<Rightarrow> bool" where
  "bs_history db db' \<longleftrightarrow> (\<forall>r \<in> set (bd_rows db). \<exists>x \<in> set (bd_rows db'). row_kept r x)
     \<and> (\<forall>l \<in> set (bd_layers db). \<exists>x \<in> set (bd_layers db'). layer_kept l x)"

lemma the_row_key: "the_row rid seq r \<longleftrightarrow> (bs_request r, bs_seq r) = (rid, seq)"
  by (auto simp: the_row_def)

lemma row_unique: "bs_ok db \<Longrightarrow> r \<in> set (bd_rows db) \<Longrightarrow> x \<in> set (bd_rows db) \<Longrightarrow> the_row rid seq r \<Longrightarrow> the_row rid seq x \<Longrightarrow> r = x"
  by (auto simp: bs_ok_def the_row_key distinct_map inj_on_def)

lemma find_Some_mem: "find P xs = Some x \<Longrightarrow> P x \<and> x \<in> set xs"
  by (induction xs) (auto split: if_splits)

lemma upsert_snapshot_cases:
  assumes "upsert_snapshot rid seq n db = (b, db')"
  obtains (new) "b" "\<forall>r \<in> set (bd_rows db). \<not> the_row rid seq r" "bd_layers db' = bd_layers db"
      "bd_rows db' = bd_rows db @ [\<lparr>bs_request = rid, bs_seq = seq, bs_snapshot = sorted_dict n, bs_updated = updated_text n\<rparr>]"
  | (late) old where "\<not> b" "db' = db" "old \<in> set (bd_rows db)" "the_row rid seq old" "updated_text n < bs_updated old"
  | (update) old where "b" "old \<in> set (bd_rows db)" "the_row rid seq old" "bs_updated old \<le> updated_text n" "bd_layers db' = bd_layers db"
      "bd_rows db' = tbl_update (the_row rid seq) (\<lambda>r. r\<lparr>bs_snapshot := sorted_dict n, bs_updated := updated_text n\<rparr>) (bd_rows db)"
proof (cases "find (the_row rid seq) (bd_rows db)")
  case None
  with assms show thesis by (intro new) (auto simp: upsert_snapshot_def Let_def find_None_iff)
next
  case (Some old)
  note mem = find_Some_mem [OF Some]
  show thesis
  proof (cases "updated_text n < bs_updated old")
    case True
    with assms Some mem show thesis by (intro late) (simp_all add: upsert_snapshot_def Let_def)
  next
    case False
    with assms Some mem show thesis by (intro update) (auto simp: upsert_snapshot_def Let_def)
  qed
qed

lemma row_kept_refl [simp]: "row_kept r r" and layer_kept_refl [simp]: "layer_kept l l"
  by (simp_all add: row_kept_def layer_kept_def)

lemma bs_history_sub:
  "set (bd_rows db) \<subseteq> set (bd_rows db') \<Longrightarrow> set (bd_layers db) \<subseteq> set (bd_layers db') \<Longrightarrow> bs_history db db'"
  unfolding bs_history_def by (meson row_kept_refl layer_kept_refl subsetD)

lemma upsert_snapshot_ok:
  assumes up: "upsert_snapshot rid seq n db = (b, db')" and ok: "bs_ok db"
  shows "bs_ok db' \<and> bs_history db db'"
  using up
proof (cases rule: upsert_snapshot_cases)
  case new
  with ok show ?thesis
    by (auto simp: bs_ok_def the_row_key intro!: bs_history_sub)
next
  case (late old)
  with ok show ?thesis by (simp add: bs_history_sub)
next
  case (update old)
  let ?f = "\<lambda>r. r\<lparr>bs_snapshot := sorted_dict n, bs_updated := updated_text n\<rparr>"
  have "map (\<lambda>r. (bs_request r, bs_seq r)) (bd_rows db') = map (\<lambda>r. (bs_request r, bs_seq r)) (bd_rows db)"
    unfolding update(6) by (rule map_tbl_update) simp
  then have "bs_ok db'" using ok update(5) unfolding bs_ok_def by simp
  moreover have "\<exists>x \<in> set (bd_rows db'). row_kept r x" if r: "r \<in> set (bd_rows db)" for r
  proof -
    have "row_kept r (if the_row rid seq r then ?f r else r)"
      using row_unique [OF ok r update(2) _ update(3)] update(4) by (auto simp: row_kept_def)
    moreover have "(if the_row rid seq r then ?f r else r) \<in> set (bd_rows db')"
      unfolding update(6) tbl_update_def set_map using r by (rule imageI)
    ultimately show ?thesis by blast
  qed
  ultimately show ?thesis using update(5) unfolding bs_history_def by (metis layer_kept_refl)
qed

lemma upsert_layer_cases:
  assumes "upsert_layer rid seq a db = (b, db')"
  obtains (new) "b" "cy_admission a \<notin> ly_admission ` set (bd_layers db)" "bd_rows db' = bd_rows db"
      "bd_layers db' = bd_layers db @ [new_layer rid seq a]"
  | (refused) "\<not> b" "db' = db"
  | (update) l where "b" "l \<in> set (bd_layers db)" "layer_kept l (new_layer rid seq a)" "bd_rows db' = bd_rows db"
      "bd_layers db' = tbl_update (\<lambda>x. ly_admission x = cy_admission a)
         (\<lambda>x. x\<lparr>ly_effective := cy_effective a, ly_configured := cy_configured a, ly_legacy := cy_legacy a, ly_updated := cy_updated a\<rparr>) (bd_layers db)"
proof (cases "tbl_find ly_admission (cy_admission a) (bd_layers db)")
  case None
  with assms show thesis by (intro new) (auto simp: upsert_layer_def tbl_find_None_iff)
next
  case (Some l)
  show thesis
  proof (cases b)
    case True
    with assms Some tbl_find_Some_mem [OF Some] show thesis
      by (intro update [of l]) (auto simp: upsert_layer_def layer_kept_def new_layer_def split: if_splits)
  next
    case False
    with assms Some show thesis by (intro refused) (auto simp: upsert_layer_def split: if_splits)
  qed
qed

lemma upsert_layer_ok:
  assumes up: "upsert_layer rid seq a db = (b, db')" and ok: "bs_ok db" and new: "layer_ok (new_layer rid seq a)"
  shows "bs_ok db' \<and> bs_history db db'"
  using up
proof (cases rule: upsert_layer_cases)
  case new
  with ok assms(3) show ?thesis by (auto simp: bs_ok_def keyed_def new_layer_def intro!: bs_history_sub)
next
  case refused
  with ok show ?thesis by (simp add: bs_history_sub)
next
  case (update l)
  let ?f = "\<lambda>x. x\<lparr>ly_effective := cy_effective a, ly_configured := cy_configured a, ly_legacy := cy_legacy a, ly_updated := cy_updated a\<rparr>"
  let ?p = "\<lambda>x. ly_admission x = cy_admission a"
  have same: "x = l" if "x \<in> set (bd_layers db)" "?p x" for x
    using ok that update(2,3) by (intro keyed_unique [of ly_admission "bd_layers db"]) (auto simp: bs_ok_def layer_kept_def new_layer_def)
  have one: "layer_ok (if ?p x then ?f x else x) \<and> layer_kept x (if ?p x then ?f x else x)" if x: "x \<in> set (bd_layers db)" for x
    using same [OF x] x ok new update(3) by (auto simp: bs_ok_def layer_ok_def layer_kept_def new_layer_def)
  have "keyed ly_admission (bd_layers db')" unfolding update(5) using ok by (intro keyed_update) (auto simp: bs_ok_def)
  moreover have "\<forall>x \<in> set (bd_layers db'). layer_ok x" unfolding update(5) ball_tbl_update using one by blast
  moreover have "\<exists>x \<in> set (bd_layers db'). layer_kept y x" if "y \<in> set (bd_layers db)" for y
    unfolding update(5) bex_tbl_update using one that by blast
  moreover have "\<exists>x \<in> set (bd_rows db'). row_kept y x" if "y \<in> set (bd_rows db)" for y
    using that update(4) by (metis row_kept_refl)
  ultimately show ?thesis using ok update(4) by (simp add: bs_ok_def bs_history_def)
qed

lemma field_arg_Inr [simp]: "field_arg n s = Inr u \<longleftrightarrow> s \<noteq> [] \<and> length s \<le> n"
  by (auto simp: field_arg_def)

lemma save_Inr:
  assumes "save_request_budget rid seq token snap rdb db = Inr (b, db')"
  obtains n where "norm_snapshot rid (nat seq) snap = Some n" "1 \<le> seq"
    "if budget_owner rid (nat seq) token rdb then upsert_snapshot rid (nat seq) n db = (b, db') else \<not> b \<and> db' = db"
  using assms by (auto simp: save_request_budget_def ebind_Inr_iff seq_arg_def split: option.splits if_splits)

lemma layer_Inr:
  assumes "record_request_capacity rid seq token a rdb caps db = Inr (b, db')"
  obtains (refused) "\<not> b" "db' = db"
  | (written) adm where "budget_owner rid (nat seq) token rdb" "tbl_find ca_id (cy_admission a) caps = Some adm"
      "ca_class adm = cy_class a" "ca_scope adm = cy_scope a"
      "\<lparr>ln_request = rid, ln_kind = Link_capacity, ln_target = cy_admission a\<rparr> \<in> set (rd_links rdb)"
      "cy_admission a \<in> ly_admission ` set (bd_layers db) \<or> active (ca_status adm)"
      "layer_ok (new_layer rid (nat seq) a)" "upsert_layer rid (nat seq) a db = (b, db')"
proof -
  from assms have ok: "layer_ok (new_layer rid (nat seq) a)"
    by (auto simp: record_request_capacity_def ebind_Inr_iff seq_arg_def capacity_arg_def layer_ok_def new_layer_def split: option.splits)
  from assms have res: "(if \<not> budget_owner rid (nat seq) token rdb then Inr (False, db)
       else (case tbl_find ca_id (cy_admission a) caps of None \<Rightarrow> Inr (False, db)
         | Some adm \<Rightarrow>
             if \<lparr>ln_request = rid, ln_kind = Link_capacity, ln_target = cy_admission a\<rparr> \<notin> set (rd_links rdb)
                \<or> ca_class adm \<noteq> cy_class a \<or> ca_scope adm \<noteq> cy_scope a then Inr (False, db)
             else if tbl_find ly_admission (cy_admission a) (bd_layers db) = None \<and> \<not> active (ca_status adm) then Inr (False, db)
             else Inr (upsert_layer rid (nat seq) a db))) = (Inr (b, db') :: store_error + bool \<times> budget_db)"
    unfolding record_request_capacity_def ebind_Inr_iff by blast
  show thesis
  proof (cases "tbl_find ca_id (cy_admission a) caps")
    case None
    with res show thesis by (intro refused) (auto split: if_splits)
  next
    case (Some adm)
    with res ok show thesis
      by (cases "budget_owner rid (nat seq) token rdb")
        (auto simp: tbl_find_None_iff split: if_splits intro: refused written [of adm])
  qed
qed

lemma bs_step_ok: "bs_step db db' \<Longrightarrow> bs_ok db \<Longrightarrow> bs_ok db' \<and> bs_history db db'"
proof (induction rule: bs_step.induct)
  case (bs_save rid seq token snap rdb db b db')
  from bs_save(1) show ?case
    by (rule save_Inr) (use bs_save(2) upsert_snapshot_ok in \<open>auto split: if_splits intro: bs_history_sub\<close>)
next
  case (bs_layer rid seq token a rdb caps db b db')
  from bs_layer(1) show ?case
    by (cases rule: layer_Inr) (use bs_layer(2) upsert_layer_ok in \<open>auto intro: bs_history_sub\<close>)
qed

lemma row_kept_trans: "row_kept r x \<Longrightarrow> row_kept x y \<Longrightarrow> row_kept r y"
  and layer_kept_trans: "layer_kept l m \<Longrightarrow> layer_kept m n \<Longrightarrow> layer_kept l n"
  by (auto simp: row_kept_def layer_kept_def)

lemma bs_history_trans: "bs_history a b \<Longrightarrow> bs_history b c \<Longrightarrow> bs_history a c"
  unfolding bs_history_def by (meson row_kept_trans layer_kept_trans)

interpretation budgets: history_machine empty_budgets bs_step bs_ok bs_history
proof unfold_locales
  show "bs_ok empty_budgets" by (simp add: bs_ok_def empty_budgets_def keyed_def)
  show "bs_ok t" if "bs_ok s" "bs_step s t" for s t using that bs_step_ok by blast
  show "bs_history s s" for s by (simp add: bs_history_sub)
  show "bs_history s u" if "bs_history s t" "bs_history t u" for s t u using that by (rule bs_history_trans)
  show "bs_history s t" if "bs_ok s" "bs_step s t" for s t using that bs_step_ok by blast
qed

subsection \<open>Reading back what was saved\<close>

lemma atom_sorted:
  "number_ok v \<Longrightarrow> sorted_keys v = v" "time_ok v \<Longrightarrow> sorted_keys v = v" "is_canonical_ts v \<Longrightarrow> sorted_keys v = v"
  "null_or is_bool v \<Longrightarrow> sorted_keys v = v" "null_or (short_value k) v \<Longrightarrow> sorted_keys v = v" "short_value k v \<Longrightarrow> sorted_keys v = v"
  by (cases v; auto simp: number_ok_def time_ok_def null_or_def)+

lemma dget_map: "dget (map (\<lambda>k. (k, g k)) keys) k = (if k \<in> set keys then g k else PNone)"
  by (induction keys) (auto simp: dget_def)

definition rebuilt_dict :: "string list \<Rightarrow> pyval \<Rightarrow> pydict" where
  "rebuilt_dict keys v = map (\<lambda>k. (k, vget v k)) keys"

text \<open>A rebuilt object survives sorting.\<close>

lemma rebuilt_sorted:
  assumes "distinct keys" and "\<And>k. k \<in> set keys \<Longrightarrow> sorted_keys (vget v k) = vget v k"
  shows "sorted_keys (rebuilt keys v) = PDict (sorted_dict (rebuilt_dict keys v))"
    and "rebuilt keys (sorted_keys (rebuilt keys v)) = rebuilt keys v"
    and "\<forall>k \<in> set keys. dget (sorted_dict (rebuilt_dict keys v)) k = vget v k"
    and "set (map fst (sorted_dict (rebuilt_dict keys v))) = set keys"
proof -
  let ?d = "rebuilt_dict keys v"
  have d: "distinct (map fst ?d)" "map fst ?d = keys" using assms(1) by (simp_all add: comp_def rebuilt_dict_def)
  show s: "sorted_keys (rebuilt keys v) = PDict (sorted_dict ?d)" by (simp only: rebuilt_def sorted_keys_dict rebuilt_dict_def)
  have get: "dget (sorted_dict ?d) k = vget v k" if "k \<in> set keys" for k
    using assms(2) that by (simp add: dget_sorted_dict [OF d(1)]) (simp add: dget_map rebuilt_dict_def)
  then show "\<forall>k \<in> set keys. dget (sorted_dict ?d) k = vget v k" by blast
  show "rebuilt keys (sorted_keys (rebuilt keys v)) = rebuilt keys v"
    unfolding s unfolding rebuilt_def vget.simps using get by (auto intro!: map_cong)
  show "set (map fst (sorted_dict ?d)) = set keys" by (simp only: keys_sorted_dict d(2))
qed

lemma object_okD: "object_ok keys p v \<Longrightarrow> k \<in> set keys \<Longrightarrow> p (vget v k)"
  by (auto simp: object_ok_def list_all_iff split: pyval.splits)

lemma object_rebuilt:
  assumes "object_ok keys p v" "distinct keys" "\<And>x. p x \<Longrightarrow> sorted_keys x = x"
  shows "object_ok keys p (sorted_keys (rebuilt keys v))" "rebuilt keys (sorted_keys (rebuilt keys v)) = rebuilt keys v"
    "all_keys keys (sorted_keys (rebuilt keys v))"
proof -
  have fix_: "sorted_keys (vget v k) = vget v k" if "k \<in> set keys" for k using assms(1,3) object_okD that by blast
  note r = rebuilt_sorted [OF assms(2) fix_]
  show "rebuilt keys (sorted_keys (rebuilt keys v)) = rebuilt keys v" by (rule r(2))
  have "all_keys keys (PDict (sorted_dict (rebuilt_dict keys v)))" using r(4) by (simp del: set_map add: all_keys_def)
  then show "all_keys keys (sorted_keys (rebuilt keys v))" by (simp only: r(1))
  show "object_ok keys p (sorted_keys (rebuilt keys v))"
  proof -
    have "object_ok keys p (PDict (sorted_dict (rebuilt_dict keys v)))"
      using r(3,4) object_okD [OF assms(1)] by (simp del: set_map add: object_ok_def list_all_iff)
    then show ?thesis by (simp only: r(1))
  qed
qed

lemma keys_distinct: "distinct limit_keys" "distinct deadline_keys" "distinct timing_keys"
  by (simp_all add: limit_keys_def deadline_keys_def timing_keys_def)

lemma waits_rebuilt:
  assumes "waits_shape v"
  shows "waits_shape (sorted_keys (rebuilt [''active_count'', ''deadlines''] v))"
    and "rebuilt [''active_count'', ''deadlines''] (sorted_keys (rebuilt [''active_count'', ''deadlines''] v)) = rebuilt [''active_count'', ''deadlines''] v"
proof -
  let ?ks = "[''active_count'', ''deadlines'']"
  from assms obtain d n xs where v: "v = PDict d" "dget d ''active_count'' = PInt n" "dget d ''deadlines'' = PList xs"
    "0 \<le> n" "n \<le> 2" "int (length xs) = n" "list_all is_canonical_ts xs"
    by (auto simp: waits_shape_def split: pyval.splits)
  have "map sorted_keys xs = xs" using v(7) atom_sorted(3) by (intro map_idI) (auto simp: list_all_iff)
  with v have fixd: "sorted_keys (vget v k) = vget v k" if "k \<in> set ?ks" for k using that by auto
  have ks: "distinct ?ks" by simp
  note r = rebuilt_sorted [OF ks fixd]
  show "rebuilt ?ks (sorted_keys (rebuilt ?ks v)) = rebuilt ?ks v" by (rule r(2))
  show "waits_shape (sorted_keys (rebuilt ?ks v))"
  proof -
    have "dget (sorted_dict (rebuilt_dict ?ks v)) ''active_count'' = PInt n" "dget (sorted_dict (rebuilt_dict ?ks v)) ''deadlines'' = PList xs"
      using r(3) v by simp_all
    moreover have "set (map fst (sorted_dict (rebuilt_dict ?ks v))) \<subseteq> {''active_count'', ''deadlines''}" using r(4) by (simp del: set_map)
    ultimately have "waits_shape (PDict (sorted_dict (rebuilt_dict ?ks v)))" using v(4-7) by (simp del: set_map add: waits_shape_def)
    then show ?thesis by (simp only: r(1))
  qed
qed

lemma normalized_get:
  "dget (normalized rid seq v) ''scope'' = PStr ''request_execution''" "dget (normalized rid seq v) ''request_id'' = PStr rid"
  "dget (normalized rid seq v) ''execution_seq'' = PInt (int seq)" "dget (normalized rid seq v) ''phase'' = dget v ''phase''"
  "dget (normalized rid seq v) ''limits'' = rebuilt limit_keys (dget v ''limits'')"
  "dget (normalized rid seq v) ''deadlines'' = rebuilt deadline_keys (dget v ''deadlines'')"
  "dget (normalized rid seq v) ''timing'' = rebuilt timing_keys (dget v ''timing'')"
  "dget (normalized rid seq v) ''review_paused_for_queue'' = dget v ''review_paused_for_queue''"
  "dget (normalized rid seq v) ''reason_code'' = dget v ''reason_code''"
  "dget (normalized rid seq v) ''updated_at'' = dget v ''updated_at''"
  "dhas v ''provider_waits'' \<Longrightarrow> dget (normalized rid seq v) ''provider_waits'' = rebuilt [''active_count'', ''deadlines''] (dget v ''provider_waits'')"
  by (simp_all add: normalized_def dget_def)

lemma normalized_keys:
  "set (map fst (normalized rid seq v)) = (if dhas v ''provider_waits'' then set snapshot_fields else set snapshot_fields - {''provider_waits''})"
  "distinct (map fst (normalized rid seq v))"
  "dhas (normalized rid seq v) k \<longleftrightarrow> k \<in> set (map fst (normalized rid seq v))"
proof -
  show "distinct (map fst (normalized rid seq v))" by (simp add: normalized_def)
  show "set (map fst (normalized rid seq v)) = (if dhas v ''provider_waits'' then set snapshot_fields else set snapshot_fields - {''provider_waits''})"
    by (auto simp: normalized_def snapshot_fields_def)
  show "dhas (normalized rid seq v) k \<longleftrightarrow> k \<in> set (map fst (normalized rid seq v))"
    by (auto simp: dhas_def map_of_eq_None_iff)
qed

text \<open>A saved snapshot normalizes to itself when it is read.\<close>

lemma norm_snapshot_stable:
  assumes "norm_snapshot rid seq v = Some n"
  shows "norm_snapshot rid seq (sorted_dict n) = Some n"
    and "utf8_len (emit True (PDict (sorted_dict n))) \<le> max_snapshot_bytes"
    and "n = normalized rid seq v" and "snapshot_ok rid seq v"
    and "all_keys limit_keys (dget (sorted_dict n) ''limits'') \<and> all_keys deadline_keys (dget (sorted_dict n) ''deadlines'')
      \<and> all_keys timing_keys (dget (sorted_dict n) ''timing'')"
proof -
  from assms obtain t where ok: "snapshot_ok rid seq v" and n: "n = normalized rid seq v"
    and t: "dumps True (PDict n) = Some t" "utf8_len t \<le> max_snapshot_bytes"
    by (auto simp: norm_snapshot_def split: if_splits option.splits)
  show "snapshot_ok rid seq v" "n = normalized rid seq v" by (fact ok, fact n)
  have "t = emit True (PDict (sorted_dict n))" using t(1) by (auto simp: dumps_def sorted_dict_def split: if_splits)
  with t(2) show "utf8_len (emit True (PDict (sorted_dict n))) \<le> max_snapshot_bytes" by simp
  let ?s = "sorted_dict n"
  have get: "dget ?s k = sorted_keys (dget n k)" for k
    unfolding n by (rule dget_sorted_dict [OF normalized_keys(2)])
  have has: "dhas ?s k = dhas n k" for k unfolding n by (rule dhas_sorted_dict [OF normalized_keys(2)])
  note g = get normalized_get [where rid = rid and seq = seq and v = v, folded n]
  from ok have objs: "object_ok limit_keys number_ok (dget v ''limits'')" "object_ok deadline_keys time_ok (dget v ''deadlines'')"
    "object_ok timing_keys number_ok (dget v ''timing'')" by (simp_all add: snapshot_ok_def)
  note reb = object_rebuilt [OF objs(1) keys_distinct(1) atom_sorted(1)] object_rebuilt [OF objs(2) keys_distinct(2) atom_sorted(2)]
    object_rebuilt [OF objs(3) keys_distinct(3) atom_sorted(1)]
  show "all_keys limit_keys (dget ?s ''limits'') \<and> all_keys deadline_keys (dget ?s ''deadlines'') \<and> all_keys timing_keys (dget ?s ''timing'')"
    unfolding g using reb by simp
  have atoms: "sorted_keys (dget v ''phase'') = dget v ''phase''" "sorted_keys (dget v ''review_paused_for_queue'') = dget v ''review_paused_for_queue''"
    "sorted_keys (dget v ''reason_code'') = dget v ''reason_code''" "sorted_keys (dget v ''updated_at'') = dget v ''updated_at''"
    using ok unfolding snapshot_ok_def by (auto intro: atom_sorted)
  have waits: "dhas v ''provider_waits'' \<Longrightarrow> waits_shape (dget v ''provider_waits'')" using ok by (simp add: snapshot_ok_def)
  have norm: "normalized rid seq ?s = n"
  proof (cases "dhas v ''provider_waits''")
    case True
    have "dhas ?s ''provider_waits''"
      unfolding has unfolding n normalized_keys(3) normalized_keys(1) using True by (simp add: snapshot_fields_def)
    with True show ?thesis
      unfolding normalized_def [of rid seq ?s] g(1) g(2-11) using reb waits_rebuilt(2) [OF waits [OF True]] atoms g(12)
      by (simp add: n normalized_def)
  next
    case False
    have "\<not> dhas ?s ''provider_waits''"
      unfolding has unfolding n normalized_keys(3) normalized_keys(1) using False by simp
    with False show ?thesis
      unfolding normalized_def [of rid seq ?s] using reb atoms g
      by (simp add: n normalized_def)
  qed
  have keys: "set (map fst ?s) = set (map fst n)" by (rule keys_sorted_dict)
  have mem: "dhas ?s k" if "k \<in> set snapshot_fields - {''provider_waits''}" for k
    unfolding has unfolding n normalized_keys(3) normalized_keys(1) using that by (simp split: if_splits)
  have present: "dhas ?s ''scope''" "dhas ?s ''request_id''" "dhas ?s ''execution_seq''"
    by (rule mem, simp add: snapshot_fields_def)+
  have "waits_shape (dget ?s ''provider_waits'')" if "dhas ?s ''provider_waits''"
  proof -
    have "dhas v ''provider_waits''"
      using that unfolding has unfolding n normalized_keys(3) normalized_keys(1) by (simp split: if_splits)
    then show ?thesis unfolding g(1) g(12) [OF \<open>dhas v _\<close>] using waits waits_rebuilt(1) by blast
  qed
  moreover have "set (map fst ?s) \<subseteq> set snapshot_fields"
    unfolding keys unfolding n normalized_keys(1) by auto
  ultimately have "snapshot_ok rid seq ?s"
    unfolding snapshot_ok_def dget_or_dhas [OF present(1)] dget_or_dhas [OF present(2)] dget_or_dhas [OF present(3)] g(1) g(2-11) atoms
    using ok reb unfolding snapshot_ok_def by simp
  then show "norm_snapshot rid seq ?s = Some n"
    using norm t unfolding norm_snapshot_def by simp
qed

subsection \<open>Properties\<close>

text \<open>An owner is the owner of the request's row.\<close>

lemma owner_row: "budget_owner rid seq token rdb \<Longrightarrow> (rid, token) \<in> set (owners rdb) \<and> token \<in> set (exec_owners rdb)"
  unfolding budget_owner_def list_ex_iff owners_def exec_owners_def set_map by (force simp: image_iff)

text \<open>C26 (safety).  A process that has lost its request writes no budget. Once another token owns the
  request, however many operations of the registry ago, saving a snapshot or a capacity layer
  under the old token answers false, if it does not refuse the arguments, and changes nothing.\<close>

theorem lost_execution_writes_nothing:
  assumes "reachable_by empty_requests (rq_step H) rdb" and "budget_owner rid seq token rdb"
    and "reachable_by rdb (rq_step H) rdb1" and "rq_find rid rdb1 = Some r" and "rq_owner r \<noteq> token"
    and "reachable_by rdb1 (rq_step H) rdb2"
    and "save_request_budget rid n token snap rdb2 db = Inr (b, db') \<or> record_request_capacity rid n token a rdb2 caps db = Inr (b, db')"
  shows "\<not> b \<and> db' = db"
proof -
  have ok: "rq_ok rdb1" by (rule rq.reachable_inv [OF reachable_trans [OF assms(3,1)]])
  have "token \<in> set (exec_owners rdb1)" using owner_row [OF assms(2)] exec_owners_run [OF assms(3)] by blast
  moreover have "(rid, token) \<notin> set (owners rdb1)"
  proof
    assume "(rid, token) \<in> set (owners rdb1)"
    then obtain q where "q \<in> set (rd_requests rdb1)" "rq_id q = rid" "rq_owner q = token" by (auto simp: owners_def)
    moreover have "r \<in> set (rd_requests rdb1)" "rq_id r = rid" using tbl_find_Some_mem [OF assms(4)] by auto
    ultimately show False using ok assms(5) keyed_unique [of rq_id "rd_requests rdb1" q r] by (auto simp: rq_ok_def)
  qed
  ultimately have "spent rid token rdb2" using spent_run [OF assms(6)] by (simp add: spent_def)
  then have "\<not> budget_owner rid m token rdb2" for m using owner_row by (auto simp: spent_def)
  with assms(7) show ?thesis by (auto elim!: save_Inr layer_Inr)
qed

text \<open> Attribution is immutable. Between any two states of the budget tables, a capacity layer
  stays with its admission, request, execution, class and scope, its time does not go back and it
  stays valid, a snapshot's time does not go back, and neither kind of row is ever lost.\<close>

theorem attribution_is_immutable:
  assumes "reachable_by empty_budgets bs_step db" and "bs_step\<^sup>*\<^sup>* db db'"
  shows "(\<forall>l \<in> set (bd_layers db). \<exists>x \<in> set (bd_layers db'). ly_admission x = ly_admission l \<and> ly_request x = ly_request l
           \<and> ly_seq x = ly_seq l \<and> ly_class x = ly_class l \<and> ly_scope x = ly_scope l \<and> ly_updated l \<le> ly_updated x \<and> layer_ok x)
    \<and> (\<forall>r \<in> set (bd_rows db). \<exists>x \<in> set (bd_rows db'). bs_request x = bs_request r \<and> bs_seq x = bs_seq r \<and> bs_updated r \<le> bs_updated x)
    \<and> distinct (map ly_admission (bd_layers db'))"
proof -
  have ok: "bs_ok db" by (rule budgets.reachable_inv [OF assms(1)])
  have "bs_ok db'" "bs_history db db'" by (rule budgets.run_inv [OF assms(2) ok], rule budgets.run_keeps [OF assms(2) ok])
  then show ?thesis unfolding bs_ok_def bs_history_def layer_kept_def row_kept_def keyed_def by blast
qed

lemma last_seq_execution:
  assumes "numbered rdb" "e \<in> set (rd_execs rdb)" "ex_request e = rid" "ex_seq e = seq"
  shows "find (\<lambda>e. ex_request e = rid \<and> ex_seq e = seq) (rd_execs rdb) = Some e"
proof (cases "find (\<lambda>e. ex_request e = rid \<and> ex_seq e = seq) (rd_execs rdb)")
  case None
  with assms show ?thesis by (auto simp: find_None_iff)
next
  case (Some x)
  from find_Some_mem [OF Some] assms show ?thesis using Some by (auto simp: numbered_def distinct_map inj_on_def)
qed

lemma upserted_row:
  assumes "upsert_snapshot rid seq n db = (True, db')" "bs_ok db" "updated_text n = s"
  shows "find (the_row rid seq) (bd_rows db') = Some \<lparr>bs_request = rid, bs_seq = seq, bs_snapshot = sorted_dict n, bs_updated = s\<rparr>"
proof -
  let ?row = "\<lparr>bs_request = rid, bs_seq = seq, bs_snapshot = sorted_dict n, bs_updated = s\<rparr>"
  have mem: "?row \<in> set (bd_rows db')"
    using assms(1)
  proof (cases rule: upsert_snapshot_cases)
    case new
    with assms(3) show ?thesis by simp
  next
    case (update old)
    then have "old\<lparr>bs_snapshot := sorted_dict n, bs_updated := updated_text n\<rparr> \<in> set (bd_rows db')"
      unfolding update(6) tbl_update_def set_map by (intro image_eqI [where x = old]) auto
    moreover have "old\<lparr>bs_snapshot := sorted_dict n, bs_updated := updated_text n\<rparr> = ?row" using update(3) assms(3) by (simp add: the_row_def)
    ultimately show ?thesis by simp
  qed simp
  have ok: "bs_ok db'" using upsert_snapshot_ok [OF assms(1,2)] by simp
  show ?thesis
  proof (cases "find (the_row rid seq) (bd_rows db')")
    case None
    then have "\<not> the_row rid seq ?row" using mem unfolding find_None_iff by blast
    then show ?thesis by (simp add: the_row_def)
  next
    case (Some x)
    with find_Some_mem [OF Some] row_unique [OF ok _ mem] show ?thesis by (auto simp: the_row_def)
  qed
qed

text \<open> What an execution saves is what is read. When a snapshot was saved, asking for the request's
  budget gives the normalized snapshot and never raises.\<close>

theorem saved_budget_reads_back:
  assumes "reachable_by empty_requests (rq_step H) rdb" and "reachable_by empty_budgets bs_step db"
    and "save_request_budget rid seq token snap rdb db = Inr (True, db')"
  shows "\<exists>v. request_budget rid rdb db' = Inr (Some v) \<and> norm_snapshot rid (nat seq) snap = Some (bv_snapshot v)"
proof -
  from assms(3) obtain n where n: "norm_snapshot rid (nat seq) snap = Some n" and own: "budget_owner rid (nat seq) token rdb"
    and up: "upsert_snapshot rid (nat seq) n db = (True, db')"
    by (rule save_Inr) (auto split: if_splits)
  have ok: "rq_ok rdb" "numbered rdb" "bs_ok db"
    by (rule rq.reachable_inv [OF assms(1)], rule executions.reachable_inv [OF assms(1)], rule budgets.reachable_inv [OF assms(2)])
  have ok': "bs_ok db'" using upsert_snapshot_ok [OF up ok(3)] by simp
  note st = norm_snapshot_stable [OF n]
  have rid: "rid \<noteq> []" "length rid \<le> 4096" using assms(3) by (auto simp: save_request_budget_def ebind_Inr_iff)
  from own obtain r e where r: "r \<in> set (rd_requests rdb)" "rq_id r = rid" "rq_owner r = token"
    and e: "e \<in> set (rd_execs rdb)" "ex_request e = rid" "ex_seq e = nat seq" "ex_owner e = token"
    and last: "last_seq rid rdb = Some (nat seq)" by (auto simp: budget_owner_def list_ex_iff)
  have found: "rq_find rid rdb = Some r" using r ok(1) tbl_find_mem [of rq_id "rd_requests rdb" r] by (simp add: rq_ok_def)
  have exec: "find (\<lambda>e. ex_request e = rid \<and> ex_seq e = nat seq) (rd_execs rdb) = Some e"
    by (rule last_seq_execution [OF ok(2) e(1-3)])
  from st(4) have "is_canonical_ts (dget snap ''updated_at'')" by (simp add: snapshot_ok_def)
  then obtain s where s: "dget n ''updated_at'' = PStr s" unfolding st(3) normalized_get by (cases "dget snap ''updated_at''") auto
  then have row: "find (the_row rid (nat seq)) (bd_rows db') = Some \<lparr>bs_request = rid, bs_seq = nat seq, bs_snapshot = sorted_dict n, bs_updated = s\<rparr>"
    by (intro upserted_row [OF up ok(3)]) (simp add: updated_text_def)
  let ?row = "\<lparr>bs_request = rid, bs_seq = nat seq, bs_snapshot = sorted_dict n, bs_updated = s\<rparr>"
  have keys: "set (map fst (sorted_dict n)) = set snapshot_fields \<or> set (map fst (sorted_dict n)) = set snapshot_fields - {''provider_waits''}"
    unfolding keys_sorted_dict unfolding st(3) normalized_keys(1) by simp
  have layers: "list_all layer_ok (take max_layers (layers_of ?row db'))"
    using ok' by (auto simp: list_all_iff layers_of_def bs_ok_def dest!: in_set_takeD)
  have "list_ex (\<lambda>e. ex_seq e = nat seq \<and> ex_request e = rid) (rd_execs rdb)" using e by (auto simp: list_ex_iff)
  with st keys layers s have "\<exists>v. read_request_budget rdb db' ?row = Inr v \<and> bv_snapshot v = n"
    by (auto simp: read_request_budget_def Let_def)
  then obtain v where "read_request_budget rdb db' ?row = Inr v" "bv_snapshot v = n" by blast
  with rid found last exec row r e n show ?thesis by (simp add: request_budget_def field_arg_def guard_def)
qed

subsubsection \<open>A run the properties apply to\<close>

definition sample_snap :: pydict where
  "sample_snap = [(''phase'', PStr ''review''), (''limits'', PDict [(''max_queue_seconds'', PInt 60)]), (''deadlines'', PDict [(''total'', PStr t_late)]),
     (''timing'', PDict []), (''updated_at'', PStr t_at)]"

definition sample_stored :: budget_db where
  "sample_stored = \<lparr>bd_rows = [\<lparr>bs_request = ''q'', bs_seq = 1, bs_snapshot = sorted_dict (normalized ''q'' 1 sample_snap), bs_updated = t_at\<rparr>],
     bd_layers = []\<rparr>"

lemma sample_norm: "norm_snapshot ''q'' 1 sample_snap = Some (normalized ''q'' 1 sample_snap)"
proof -
  have "snapshot_ok ''q'' 1 sample_snap" by code_simp
  moreover have "case dumps True (PDict (normalized ''q'' 1 sample_snap)) of Some t \<Rightarrow> utf8_len t \<le> 2000 | None \<Rightarrow> False" by code_simp
  then obtain t where "dumps True (PDict (normalized ''q'' 1 sample_snap)) = Some t" "utf8_len t \<le> 2000" by (auto split: option.splits)
  ultimately show ?thesis by (simp add: norm_snapshot_def max_snapshot_bytes_def)
qed

lemma sample_owner: "budget_owner ''q'' 1 ''t1'' run_begun"
  by (simp add: budget_owner_def last_seq_def Let_def run_begun_def sample_row_def sample_exec_def)

lemma sample_saved: "save_request_budget ''q'' 1 ''t1'' sample_snap run_begun empty_budgets = Inr (True, sample_stored)"
proof -
  have "updated_text (normalized ''q'' 1 sample_snap) = t_at"
    unfolding updated_text_def normalized_get(10) by (simp add: sample_snap_def dget_def)
  then show ?thesis
    using sample_norm sample_owner
    by (simp add: save_request_budget_def field_arg_def guard_def seq_arg_def max_int64_def upsert_snapshot_def empty_budgets_def Let_def
        sample_stored_def)
qed

lemma saved_budget_reads_back_witness:
  "\<exists>v. request_budget ''q'' run_begun sample_stored = Inr (Some v) \<and> bv_snapshot v = normalized ''q'' 1 sample_snap"
  using saved_budget_reads_back [OF sample_runs(1) reach_init sample_saved] sample_norm by auto

lemma attribution_is_immutable_witness:
  "\<exists>x \<in> set (bd_rows sample_stored). bs_request x = ''q'' \<and> bs_seq x = 1 \<and> t_at \<le> bs_updated x"
proof -
  have "reachable_by empty_budgets bs_step sample_stored" by (rule reach_step, rule reach_init, rule bs_save, rule sample_saved)
  from attribution_is_immutable [OF this rtranclp.rtrancl_refl]
  have "\<forall>r \<in> set (bd_rows sample_stored). \<exists>x \<in> set (bd_rows sample_stored). bs_request x = bs_request r \<and> bs_seq x = bs_seq r \<and> bs_updated r \<le> bs_updated x"
    by blast
  then show ?thesis by (simp add: sample_stored_def)
qed

lemma lost_execution_writes_nothing_witness:
  "save_request_budget ''q'' 1 ''t1'' sample_snap run_continued empty_budgets = Inr (False, empty_budgets)"
proof -
  obtain b db where res: "save_request_budget ''q'' 1 ''t1'' sample_snap run_continued empty_budgets = Inr (b, db)"
  proof -
    have "\<exists>x. save_request_budget ''q'' 1 ''t1'' sample_snap run_continued empty_budgets = Inr x"
      using sample_norm by (simp add: save_request_budget_def field_arg_def guard_def seq_arg_def max_int64_def)
    with that show thesis by auto
  qed
  have "rq_find ''q'' run_continued = Some (sample_row ''t2'' Rq_accepted None)"
    by (simp add: run_continued_def run_failed_def run_begun_def sample_row_def)
  moreover have "rq_owner (sample_row ''t2'' Rq_accepted None) \<noteq> ''t1''" by (simp add: sample_row_def)
  ultimately have "\<not> b \<and> db = empty_budgets"
    using lost_execution_writes_nothing [OF sample_runs(1) sample_owner sample_runs(2) _ _ reach_init disjI1 [OF res]] by blast
  with res show ?thesis by simp
qed

end
