(* ===== verification/Spend.thy ===== *)
theory Spend
  imports ProviderState Complex_Main
begin

section \<open>Spend: the daily ceiling of a metered provider\<close>

text \<open>
  Models \<open>spend.py\<close> and the table \<open>api_spend_events\<close> of \<open>store.py\<close>. US dollars are rational
  numbers; \<open>num\<close> is \<open>float()\<close> on the text of a finite number, \<open>None\<close> where it raises \<open>ValueError\<close>.
  The infinities and the NaN that \<open>float()\<close> also reads are left out. \<open>env\<close> is the environment.
\<close>

subsection \<open>Limits and rates\<close>

definition default_spend_limit :: rat where "default_spend_limit = 10"

text \<open>\<open>str.upper\<close> on ASCII text, which the provider ids are.\<close>

definition upper_char :: "char \<Rightarrow> char" where
  "upper_char c = (let n = (of_char c :: nat) in if 97 \<le> n \<and> n \<le> 122 then char_of (n - 32) else c)"

definition provider_limit_env_names :: "string \<Rightarrow> string \<times> string" where
  "provider_limit_env_names provider =
     (let base = ''SKODUN_'' @ replace_char (CHR ''-'') (CHR ''_'') (map upper_char (strip provider)) @ ''_SPEND_LIMIT_USD'' in
      (base @ ''_PER_DAY'', base))"

text \<open>The value a name of the environment gives, if it gives one.\<close>

definition limit_from :: "(string \<Rightarrow> rat option) \<Rightarrow> (string \<Rightarrow> string option) \<Rightarrow> string \<Rightarrow> rat option" where
  "limit_from num env name =
     (case env name of None \<Rightarrow> None
      | Some raw \<Rightarrow> if strip raw = [] then None
          else (case num (strip raw) of None \<Rightarrow> None | Some v \<Rightarrow> if v < 0 then None else Some v))"

fun first_limit :: "(string \<Rightarrow> rat option) \<Rightarrow> (string \<Rightarrow> string option) \<Rightarrow> string list \<Rightarrow> rat" where
  "first_limit num env [] = default_spend_limit"
| "first_limit num env (n # ns) = (case limit_from num env n of Some v \<Rightarrow> v | None \<Rightarrow> first_limit num env ns)"

definition spend_limit_usd :: "(string \<Rightarrow> rat option) \<Rightarrow> (string \<Rightarrow> string option) \<Rightarrow> string \<Rightarrow> rat" where
  "spend_limit_usd num env provider =
     first_limit num env [fst (provider_limit_env_names provider), snd (provider_limit_env_names provider),
       ''SKODUN_API_SPEND_LIMIT_USD_PER_DAY'', ''SKODUN_API_SPEND_LIMIT_USD'']"

definition model_rates :: "(string \<times> rat \<times> rat) list" where
  "model_rates = [
     (''gpt-6-luna'', 1/10, 1/2),
     (''gpt-6-sol'', 2, 10),
     (''gpt-5.6-luna'', 1, 4),
     (''gpt-5.4'', 2, 8),
     (''gpt-5.4-mini'', 1/2, 2),
     (''gpt-4o'', 5/2, 10),
     (''gpt-4o-mini'', 15/100, 6/10),
     (''o3'', 10, 40),
     (''o4-mini'', 11/10, 44/10)]"

definition default_rate :: "rat \<times> rat" where "default_rate = (5, 15)"

definition base_rate :: "string \<Rightarrow> rat \<times> rat" where
  "base_rate mid =
     (case map_of model_rates mid of Some r \<Rightarrow> r
      | None \<Rightarrow> (case find (\<lambda>(key, _). starts_with key mid) model_rates of Some (_, r) \<Rightarrow> r | None \<Rightarrow> default_rate))"

text \<open>The overrides: a value that is not a number ends the reading of both, keeping what was read.\<close>

definition rate_env :: "(string \<Rightarrow> string option) \<Rightarrow> string \<Rightarrow> string" where
  "rate_env env name = strip (case env name of None \<Rightarrow> [] | Some s \<Rightarrow> s)"

definition rates_for_model :: "(string \<Rightarrow> rat option) \<Rightarrow> (string \<Rightarrow> string option) \<Rightarrow> string \<Rightarrow> rat \<times> rat" where
  "rates_for_model num env model =
     (let (inp, out) = base_rate (strip model);
          i = rate_env env ''SKODUN_OPENAI_API_INPUT_USD_PER_1M'';
          u = rate_env env ''SKODUN_OPENAI_API_OUTPUT_USD_PER_1M'';
          (inp, readable) = (if i = [] then (inp, True) else case num i of Some v \<Rightarrow> (v, True) | None \<Rightarrow> (inp, False));
          out = (if \<not> readable \<or> u = [] then out else case num u of Some v \<Rightarrow> v | None \<Rightarrow> out) in
      (max 0 inp, max 0 out))"

definition estimate_cost_usd :: "(string \<Rightarrow> rat option) \<Rightarrow> (string \<Rightarrow> string option) \<Rightarrow> string \<Rightarrow> int \<Rightarrow> int \<Rightarrow> rat" where
  "estimate_cost_usd num env model prompt completion =
     (let (inp, out) = rates_for_model num env model in
      (of_int (max 0 prompt) * inp + of_int (max 0 completion) * out) / 1000000)"

subsection \<open>The table\<close>

record spend_row =
  sp_seq :: nat
  sp_at :: string
  sp_provider :: string
  sp_model :: "string option"
  sp_review :: "string option"
  sp_prompt :: int
  sp_completion :: int
  sp_total :: int
  sp_cost :: rat
  sp_request :: "string option"

record spend_db =
  sd_rows :: "spend_row list"
  sd_last :: nat   \<comment> \<open>the sequence of \<open>AUTOINCREMENT\<close>\<close>

definition text_field :: "string \<Rightarrow> string option \<Rightarrow> door_error + string option" where
  "text_field label v = (case v of None \<Rightarrow> Inr None | Some s \<Rightarrow> ebind (require_text label (PStr s)) (\<lambda>t. Inr (Some t)))"

text \<open>\<open>api_spend_append\<close>; the sequence number of the new row is set here.\<close>

definition api_spend_append :: "spend_row \<Rightarrow> spend_db \<Rightarrow> door_error + spend_row \<times> spend_db" where
  "api_spend_append r db =
     ebind (require_ts ''at'' (PStr (sp_at r))) (\<lambda>_.
     ebind (require_text ''provider'' (PStr (sp_provider r))) (\<lambda>provider.
     ebind (text_field ''model'' (sp_model r)) (\<lambda>model.
     ebind (text_field ''review_id'' (sp_review r)) (\<lambda>review.
     ebind (text_field ''request_id'' (sp_request r)) (\<lambda>request.
       let row = r\<lparr>sp_seq := Suc (sd_last db), sp_provider := provider, sp_model := model, sp_review := review, sp_request := request\<rparr> in
       Inr (row, \<lparr>sd_rows = sd_rows db @ [row], sd_last = Suc (sd_last db)\<rparr>))))))"

text \<open>\<open>api_spend_sum_usd\<close>: \<open>LIKE\<close> with a prefix of digits and hyphens.\<close>

definition day_rows :: "string \<Rightarrow> string \<Rightarrow> spend_db \<Rightarrow> spend_row list" where
  "day_rows provider day db = filter (\<lambda>r. sp_provider r = provider \<and> starts_with day (sp_at r)) (sd_rows db)"

definition api_spend_sum_usd :: "string \<Rightarrow> string \<Rightarrow> spend_db \<Rightarrow> door_error + rat" where
  "api_spend_sum_usd provider day db =
     ebind (require_text ''provider'' (PStr provider)) (\<lambda>provider.
     ebind (require_text ''day_prefix'' (PStr day)) (\<lambda>day.
       Inr (sum_list (map sp_cost (day_rows provider day db)))))"

text \<open>\<open>_utc_day_prefix(now_iso)\<close>; \<open>today\<close> is the current day, for a time that is too short.\<close>

definition utc_day_prefix :: "string \<Rightarrow> string option \<Rightarrow> string" where
  "utc_day_prefix today now = (case now of Some t \<Rightarrow> if 10 \<le> length t then take 10 t else today | None \<Rightarrow> today)"

definition spent_today_usd :: "string \<Rightarrow> string \<Rightarrow> string option \<Rightarrow> spend_db \<Rightarrow> door_error + rat" where
  "spent_today_usd today provider now db = api_spend_sum_usd provider (utc_day_prefix today now) db"

definition remaining_budget_usd ::
    "(string \<Rightarrow> rat option) \<Rightarrow> (string \<Rightarrow> string option) \<Rightarrow> string \<Rightarrow> string \<Rightarrow> string option \<Rightarrow> spend_db \<Rightarrow> door_error + rat" where
  "remaining_budget_usd num env today provider now db =
     ebind (spent_today_usd today provider now db) (\<lambda>spent. Inr (max 0 (spend_limit_usd num env provider - spent)))"

definition would_exceed_limit ::
    "(string \<Rightarrow> rat option) \<Rightarrow> (string \<Rightarrow> string option) \<Rightarrow> string \<Rightarrow> string \<Rightarrow> rat \<Rightarrow> string option \<Rightarrow> spend_db \<Rightarrow> door_error + bool" where
  "would_exceed_limit num env today provider additional now db =
     ebind (spent_today_usd today provider now db) (\<lambda>spent.
       Inr (spend_limit_usd num env provider + 1 / 10^12 < spent + max 0 additional))"

text \<open>\<open>chain._api_spend_blocked(store, entry)\<close>.\<close>

definition api_spend_blocked ::
    "(string \<Rightarrow> rat option) \<Rightarrow> (string \<Rightarrow> string option) \<Rightarrow> string \<Rightarrow> string \<Rightarrow> spend_db \<Rightarrow> bool" where
  "api_spend_blocked num env today provider db =
     (provider = ''openai-api'' \<and> would_exceed_limit num env today provider 0 None db = Inr True)"

record usage =
  us_provider :: string
  us_model :: string
  us_prompt :: int
  us_completion :: int
  us_total :: "int option"
  us_cost :: "rat option"
  us_review :: "string option"
  us_request :: "string option"

definition usage_row :: "(string \<Rightarrow> rat option) \<Rightarrow> (string \<Rightarrow> string option) \<Rightarrow> string \<Rightarrow> usage \<Rightarrow> spend_row" where
  "usage_row num env stamp u =
     (let pt = max 0 (us_prompt u); ct = max 0 (us_completion u); tt = (case us_total u of Some t \<Rightarrow> t | None \<Rightarrow> pt + ct) in
      \<lparr>sp_seq = 0, sp_at = stamp, sp_provider = us_provider u, sp_model = Some (us_model u), sp_review = us_review u,
       sp_prompt = pt, sp_completion = ct, sp_total = max 0 tt,
       sp_cost = (case us_cost u of Some c \<Rightarrow> c | None \<Rightarrow> estimate_cost_usd num env (us_model u) pt ct),
       sp_request = us_request u\<rparr>)"

text \<open>\<open>record_usage\<close>; \<open>at\<close> is its argument, or the current time when that is absent or empty.\<close>

definition record_usage ::
    "(string \<Rightarrow> rat option) \<Rightarrow> (string \<Rightarrow> string option) \<Rightarrow> string \<Rightarrow> usage \<Rightarrow> spend_db \<Rightarrow> door_error + spend_row \<times> spend_db" where
  "record_usage num env stamp u db = api_spend_append (usage_row num env stamp u) db"

subsection \<open>The prefix rule of the rate table\<close>

text \<open>The prefixes are tried in the order of the table, which has the short name first: a dated release
  of a mini model is charged at the rates of the large one.\<close>

lemma dated_mini_charged_as_full:
  "base_rate ''gpt-4o-mini-2024-07-18'' = the (map_of model_rates ''gpt-4o'')
     \<and> base_rate ''gpt-4o-mini'' = the (map_of model_rates ''gpt-4o-mini'')
     \<and> base_rate ''gpt-5.4-mini-2026-03'' = the (map_of model_rates ''gpt-5.4'')"
  by code_simp

text \<open>A ceiling that is reached exactly, or a ceiling of zero with nothing spent, does not refuse the next call.\<close>

lemma reached_ceiling_admits:
  "spent_today_usd today p now db = Inr (spend_limit_usd num env p) \<Longrightarrow>
     would_exceed_limit num env today p 0 now db = Inr False"
  by (simp add: would_exceed_limit_def)

subsection \<open>Metered calls, one after the other\<close>

text \<open>One call: the ceiling is asked as the chain asks it, then the usage is recorded, on the same UTC day.\<close>

inductive metered :: "(string \<Rightarrow> rat option) \<Rightarrow> (string \<Rightarrow> string option) \<Rightarrow> spend_db \<Rightarrow> spend_db \<Rightarrow> bool" for num env where
  metered: "would_exceed_limit num env (take 10 stamp) (us_provider u) 0 None db = Inr False
    \<Longrightarrow> record_usage num env stamp u db = Inr (row, db') \<Longrightarrow> metered num env db db'"

inductive_cases meteredE: "metered num env db db'"

definition no_spend :: spend_db where "no_spend = \<lparr>sd_rows = [], sd_last = 0\<rparr>"

definition within_ceiling :: "(string \<Rightarrow> rat option) \<Rightarrow> (string \<Rightarrow> string option) \<Rightarrow> spend_db \<Rightarrow> bool" where
  "within_ceiling num env db \<longleftrightarrow> (\<forall>provider day. length day = 10 \<longrightarrow>
     sum_list (map sp_cost (butlast (day_rows provider day db))) \<le> spend_limit_usd num env provider + 1 / 10^12
       \<or> day_rows provider day db = [])"

lemma record_usage_Inr: "record_usage num env stamp u db = Inr (row, db') \<Longrightarrow>
    is_canonical_ts (PStr stamp) \<and> sd_rows db' = sd_rows db @ [row] \<and> sp_provider row = strip (us_provider u) \<and> sp_at row = stamp
    \<and> strip (us_provider u) \<noteq> []"
  by (auto simp: record_usage_def api_spend_append_def usage_row_def text_field_def require_ts_def Let_def err_iffs split: if_splits option.splits)

lemma limit_strip [simp]: "spend_limit_usd num env (strip p) = spend_limit_usd num env p"
  by (simp add: spend_limit_usd_def provider_limit_env_names_def)

lemma canonical_day:
  assumes "is_canonical_ts (PStr stamp)"
  shows "length (take 10 stamp) = 10" and "strip (take 10 stamp) = take 10 stamp"
proof -
  from assms have st: "length stamp = 20" "is_digit (stamp ! 0)" "is_digit (stamp ! 9)"
    by (auto simp: canonical_str_def ts_shape_def)
  then show "length (take 10 stamp) = 10" by simp
  have "hd (take 10 stamp) = stamp ! 0" using st(1) by (cases stamp) auto
  moreover have "last (take 10 stamp) = stamp ! 9" using st(1) by (subst last_conv_nth) auto
  ultimately show "strip (take 10 stamp) = take 10 stamp"
    using st(2,3) by (intro strip_id) (auto simp: is_digit_def is_space_def)
qed

lemma day_rows_snoc:
  "sd_rows db' = sd_rows db @ [row] \<Longrightarrow> day_rows p d db' =
     day_rows p d db @ (if sp_provider row = p \<and> starts_with d (sp_at row) then [row] else [])"
  by (simp add: day_rows_def)

lemma asked_ceiling:
  assumes "would_exceed_limit num env day p 0 None db = Inr False" and "strip day = day"
  shows "sum_list (map sp_cost (day_rows (strip p) day db)) \<le> spend_limit_usd num env p + 1 / 10^12"
  using assms by (auto simp: would_exceed_limit_def spent_today_usd_def api_spend_sum_usd_def utc_day_prefix_def err_iffs split: if_splits)

lemma metered_within:
  assumes "within_ceiling num env db" and "metered num env db db'"
  shows "within_ceiling num env db'"
  using assms(2)
proof (rule meteredE)
  fix stamp u row
  assume asked: "would_exceed_limit num env (take 10 stamp) (us_provider u) 0 None db = Inr False"
    and "record_usage num env stamp u db = Inr (row, db')"
  from record_usage_Inr [OF this(2)] have row: "is_canonical_ts (PStr stamp)" "sd_rows db' = sd_rows db @ [row]"
    "sp_provider row = strip (us_provider u)" "sp_at row = stamp" by auto
  note day = canonical_day [OF row(1)]
  show ?thesis
    unfolding within_ceiling_def
  proof (intro allI impI)
    fix p d :: string
    assume d: "length d = 10"
    show "sum_list (map sp_cost (butlast (day_rows p d db'))) \<le> spend_limit_usd num env p + 1 / 10^12 \<or> day_rows p d db' = []"
    proof (cases "sp_provider row = p \<and> starts_with d (sp_at row)")
      case True
      then have "p = strip (us_provider u)" "d = take 10 stamp" using row d by (auto simp: starts_with_def)
      with asked_ceiling [OF asked day(2)] True show ?thesis by (simp add: day_rows_snoc [OF row(2)])
    next
      case False
      with assms(1) d show ?thesis by (auto simp: day_rows_snoc [OF row(2)] within_ceiling_def)
    qed
  qed
qed

interpretation metering: safe_machine no_spend "metered num env" "within_ceiling num env" for num env
proof unfold_locales
  show "within_ceiling num env no_spend" by (simp add: within_ceiling_def no_spend_def day_rows_def)
  show "within_ceiling num env t" if "within_ceiling num env s" "metered num env s t" for s t
    using that by (rule metered_within)
qed

text \<open> The ceiling is passed by one call at most. When every metered call asks the ceiling first and
  records its usage afterwards, then on every UTC day, whatever other days and providers cost,
  what a provider had spent before its last call of the day was within its ceiling.\<close>

theorem daily_overrun_is_one_call:
  assumes "reachable_by no_spend (metered num env) db" and "length day = 10"
    and "day_rows provider day db = earlier @ [r]"
  shows "sum_list (map sp_cost earlier) \<le> spend_limit_usd num env provider + 1 / 10^12"
proof -
  from metering.reachable_inv [OF assms(1)] assms(2)
  have "sum_list (map sp_cost (butlast (day_rows provider day db))) \<le> spend_limit_usd num env provider + 1 / 10^12
      \<or> day_rows provider day db = []"
    unfolding within_ceiling_def by blast
  with assms(3) show ?thesis by simp
qed

text \<open>A call of 11 dollars against the default ceiling of 10: the day's second call would be refused.\<close>

definition sample_usage :: usage where
  "sample_usage = \<lparr>us_provider = ''openai-api'', us_model = ''o3'', us_prompt = 100000, us_completion = 0, us_total = None,
     us_cost = Some 11, us_review = None, us_request = None\<rparr>"

definition sample_row :: spend_row where
  "sample_row = \<lparr>sp_seq = 1, sp_at = ''2026-01-02T03:04:05Z'', sp_provider = ''openai-api'', sp_model = Some ''o3'',
     sp_review = None, sp_prompt = 100000, sp_completion = 0, sp_total = 100000, sp_cost = 11, sp_request = None\<rparr>"

lemma sample_metered:
  "reachable_by no_spend (metered Map.empty Map.empty) \<lparr>sd_rows = [sample_row], sd_last = 1\<rparr>"
proof (rule reach_step [OF reach_init], rule metered [where stamp = "''2026-01-02T03:04:05Z''" and u = sample_usage])
  show "would_exceed_limit Map.empty Map.empty (take 10 ''2026-01-02T03:04:05Z'') (us_provider sample_usage) 0 None no_spend = Inr False"
    by code_simp
  show "record_usage Map.empty Map.empty ''2026-01-02T03:04:05Z'' sample_usage no_spend =
      Inr (sample_row, \<lparr>sd_rows = [sample_row], sd_last = 1\<rparr>)"
    by code_simp
qed

theorem daily_overrun_is_one_call_witness:
  "sum_list (map sp_cost ([] :: spend_row list)) \<le> spend_limit_usd Map.empty Map.empty ''openai-api'' + 1 / 10^12
     \<and> would_exceed_limit Map.empty Map.empty ''2026-01-02'' ''openai-api'' 0 None \<lparr>sd_rows = [sample_row], sd_last = 1\<rparr> = Inr True"
proof
  show "sum_list (map sp_cost ([] :: spend_row list)) \<le> spend_limit_usd Map.empty Map.empty ''openai-api'' + 1 / 10^12"
    by (rule daily_overrun_is_one_call [OF sample_metered, where day = "''2026-01-02''" and r = sample_row]) code_simp+
  show "would_exceed_limit Map.empty Map.empty ''2026-01-02'' ''openai-api'' 0 None \<lparr>sd_rows = [sample_row], sd_last = 1\<rparr> = Inr True"
    by code_simp
qed

end
