(* ===== verification/Routing.thy ===== *)
theory Routing
  imports Reviews Capacity Chain Budgets Spend
begin

section \<open>Routing: which reviewer heads a review nobody pinned\<close>

text \<open>
  Models \<open>routing.py\<close>, \<open>routing_counts\<close> of \<open>store.py\<close> and the selection of the head in
  \<open>pipeline.py\<close> (\<open>resolve_review_head\<close>). Weights and shares are rational numbers. The progress
  notes are not modelled. Where \<open>quota_pool_for\<close> raises, the result is \<open>None\<close> of the outer option
  and \<open>auto_route\<close> falls back, as its own guard does.
\<close>

subsection \<open>Configuration\<close>

text \<open>The fields of a reviewer entry that routing reads besides those of the chain.\<close>

record entry = reviewer +
  rw_role :: string
  rw_enabled :: bool

record routing_cfg =
  ro_mode :: string
  ro_pool :: "string list"
  ro_cross :: bool
  ro_weights :: "(string \<times> rat) list"
  ro_window :: int

record config =
  cf_reviewers :: "entry list"
  cf_routing :: routing_cfg

abbreviation pool_of :: "entry \<Rightarrow> string option" where
  "pool_of e \<equiv> quota_pool_for (rw_quota_pool e) (rw_provider e) (rw_model e)"

subsection \<open>Families\<close>

definition provider_families :: "(string \<times> string) list" where
  "provider_families = [(''xai'', ''xai''), (''openai'', ''openai''), (''openai-api'', ''openai''),
     (''google'', ''google''), (''junie'', ''junie'')]"

definition provider_family :: "string \<Rightarrow> string" where
  "provider_family provider_id =
     (let pid = strip provider_id in case map_of provider_families pid of Some f \<Rightarrow> f | None \<Rightarrow> pid)"

fun normalize_family :: "pyval \<Rightarrow> string option" where
  "normalize_family (PStr s) = (let cleaned = lower (strip s) in if cleaned = [] then None else Some cleaned)"
| "normalize_family _ = None"

definition client_name_families :: "(string \<times> string) list" where
  "client_name_families = [(''grok'', ''xai''), (''codex'', ''openai''), (''openai'', ''openai''),
     (''gemini'', ''google''), (''junie'', ''junie''), (''jetbrains'', ''junie'')]"

text \<open>\<open>needle in text\<close>.\<close>

fun occurs_in :: "string \<Rightarrow> string \<Rightarrow> bool" where
  "occurs_in needle [] = (needle = [])"
| "occurs_in needle (c # cs) = (starts_with needle (c # cs) \<or> occurs_in needle cs)"

fun family_for_client_name :: "pyval \<Rightarrow> string option" where
  "family_for_client_name (PStr s) =
     (let lowered = lower (strip s) in
      if lowered = [] then None
      else map_option snd (find (\<lambda>(needle, _). occurs_in needle lowered) client_name_families))"
| "family_for_client_name _ = None"

definition client_family_env :: string where "client_family_env = ''SKODUN_CLIENT_FAMILY''"

definition opt_str_val :: "string option \<Rightarrow> pyval" where
  "opt_str_val v = (case v of None \<Rightarrow> PNone | Some s \<Rightarrow> PStr s)"

definition resolve_client_family :: "pyval \<Rightarrow> (string \<Rightarrow> string option) \<Rightarrow> pyval \<Rightarrow> string option" where
  "resolve_client_family explicit env client_name =
     (case normalize_family explicit of Some f \<Rightarrow> Some f
      | None \<Rightarrow> (case normalize_family (opt_str_val (env client_family_env)) of Some f \<Rightarrow> Some f
      | None \<Rightarrow> normalize_family (opt_str_val (family_for_client_name client_name))))"

subsection \<open>Scores\<close>

record load =
  ld_free :: int
  ld_queue :: int
  ld_unavailable :: bool

definition no_load :: load where "no_load = \<lparr>ld_free = 0, ld_queue = 0, ld_unavailable = True\<rparr>"

record share =
  sh_target :: rat
  sh_actual :: rat

definition deficit :: "share \<Rightarrow> rat" where "deficit s = sh_target s - sh_actual s"

definition free_slot_score :: int where "free_slot_score = 100"
definition queue_depth_penalty :: int where "queue_depth_penalty = 10"
definition cross_model_bonus :: int where "cross_model_bonus = 20"
definition weight_share_score :: rat where "weight_share_score = 24"

definition cross_bonus_applies :: "entry \<Rightarrow> string option \<Rightarrow> bool \<Rightarrow> bool" where
  "cross_bonus_applies e family cross =
     (if \<not> cross then False else case family of None \<Rightarrow> False | Some f \<Rightarrow> provider_family (rw_provider e) \<noteq> f)"

definition score_candidate :: "entry \<Rightarrow> load \<Rightarrow> string option \<Rightarrow> bool \<Rightarrow> share option \<Rightarrow> int" where
  "score_candidate e l family cross sh =
     (if 0 < ld_free l then free_slot_score * ld_free l else - queue_depth_penalty * (ld_queue l + 1))
     + (case sh of None \<Rightarrow> 0 | Some s \<Rightarrow> py_round (weight_share_score * deficit s))
     + (if cross_bonus_applies e family cross then cross_model_bonus else 0)"

text \<open>\<open>share_targets(weights, providers, served)\<close>: keyed by provider, so repetitions do not count.\<close>

definition weight_of :: "(string \<Rightarrow> rat option) \<Rightarrow> string \<Rightarrow> rat" where
  "weight_of weights p = (case weights p of None \<Rightarrow> 1 | Some w \<Rightarrow> w)"

definition served_of :: "(string \<Rightarrow> int option) \<Rightarrow> string \<Rightarrow> int" where
  "served_of counts p = max 0 (case counts p of None \<Rightarrow> 0 | Some n \<Rightarrow> n)"

definition share_targets :: "(string \<times> rat) list \<Rightarrow> string list \<Rightarrow> (string \<Rightarrow> int option) \<Rightarrow> string \<Rightarrow> share option" where
  "share_targets weights providers counts =
     (let ps = remdups providers; w = weight_of (map_of (rev weights)); total = sum_list (map w ps);
          n = served_of counts; total_served = sum_list (map n ps) in
      if weights = [] \<or> ps = [] \<or> total \<le> 0 then Map.empty
      else (\<lambda>p. if p \<in> set ps
        then Some \<lparr>sh_target = w p / total, sh_actual = (if 0 < total_served then of_int (n p) / of_int total_served else 0)\<rparr>
        else None))"

subsection \<open>The choice\<close>

text \<open>\<open>_argmax\<close>: the first candidate with the highest score. The accumulator is \<open>best, chosen\<close>.\<close>

definition scoring :: "string option \<Rightarrow> bool \<Rightarrow> (string \<Rightarrow> share option) option \<Rightarrow> entry \<Rightarrow> load \<Rightarrow> int" where
  "scoring family cross shares e l =
     score_candidate e l family cross (case shares of None \<Rightarrow> None | Some m \<Rightarrow> m (rw_provider e))"

fun argmax_from :: "(entry \<Rightarrow> load \<Rightarrow> int) \<Rightarrow> (string \<Rightarrow> load option) \<Rightarrow> entry list \<Rightarrow> (int \<times> entry \<times> load) option
    \<Rightarrow> (int \<times> entry \<times> load) option option" where
  "argmax_from score loads [] best = Some best"
| "argmax_from score loads (e # es) best =
     (case pool_of e of None \<Rightarrow> None
      | Some pool \<Rightarrow>
          (case loads pool of
             None \<Rightarrow> argmax_from score loads es best
           | Some l \<Rightarrow>
               if ld_unavailable l then argmax_from score loads es best
               else argmax_from score loads es
                 (if (case best of None \<Rightarrow> True | Some (b, _) \<Rightarrow> b < score e l) then Some (score e l, e, l) else best)))"

definition argmax :: "(entry \<Rightarrow> load \<Rightarrow> int) \<Rightarrow> (string \<Rightarrow> load option) \<Rightarrow> entry list \<Rightarrow> (entry \<times> load) option option" where
  "argmax score loads pool = map_option (map_option snd) (argmax_from score loads pool None)"

datatype route_reason = Pinned | Config_finder | Default_finder | Free | Free_cross | Wait | Wait_cross | Free_share | Wait_share

definition reason_text :: "route_reason \<Rightarrow> string" where
  "reason_text r = (case r of Pinned \<Rightarrow> ''pinned'' | Config_finder \<Rightarrow> ''config-finder'' | Default_finder \<Rightarrow> ''auto:default-finder''
     | Free \<Rightarrow> ''auto:free'' | Free_cross \<Rightarrow> ''auto:free+cross'' | Wait \<Rightarrow> ''auto:wait'' | Wait_cross \<Rightarrow> ''auto:wait+cross''
     | Free_share \<Rightarrow> ''auto:free+share'' | Wait_share \<Rightarrow> ''auto:wait+share'')"

text \<open>\<open>_label\<close> with its \<open>wins\<close>: whether the chosen entry still heads the pool under another scoring.\<close>

definition wins :: "entry list \<Rightarrow> (string \<Rightarrow> load option) \<Rightarrow> string option \<Rightarrow> bool \<Rightarrow> (string \<Rightarrow> share option) option
    \<Rightarrow> entry \<Rightarrow> bool \<Rightarrow> bool \<Rightarrow> bool" where
  "wins pool loads family cross_model shares chosen cross share \<longleftrightarrow>
     (case argmax (scoring family (cross_model \<and> cross) (if share then shares else None)) loads pool of
        Some (Some (e, _)) \<Rightarrow> rw_name e = rw_name chosen | _ \<Rightarrow> False)"

definition route_label :: "entry list \<Rightarrow> (string \<Rightarrow> load option) \<Rightarrow> string option \<Rightarrow> bool \<Rightarrow> (string \<Rightarrow> share option) option
    \<Rightarrow> entry \<Rightarrow> load \<Rightarrow> route_reason" where
  "route_label pool loads family cross_model shares chosen l =
     (let win = wins pool loads family cross_model shares chosen; free = 0 < ld_free l in
      if win False False then (if free then Free else Wait)
      else if win False True \<or> \<not> win True False then (if free then Free_share else Wait_share)
      else (if free then Free_cross else Wait_cross))"

definition pick_finder :: "entry list \<Rightarrow> (string \<Rightarrow> load option) \<Rightarrow> string option \<Rightarrow> bool \<Rightarrow> (string \<Rightarrow> share option) option
    \<Rightarrow> (entry \<times> route_reason) option option" where
  "pick_finder pool loads family cross_model shares =
     map_option (map_option (\<lambda>(e, l). (e, route_label pool loads family cross_model shares e l)))
       (argmax (scoring family cross_model shares) loads pool)"

definition entry_named :: "entry list \<Rightarrow> string \<Rightarrow> entry option" where
  "entry_named rs n = map_of (map (\<lambda>r. (rw_name r, r)) (rev rs)) n"

definition resolve_pool :: "config \<Rightarrow> entry list" where
  "resolve_pool cfg =
     (let rs = cf_reviewers cfg; names = ro_pool (cf_routing cfg) in
      if names \<noteq> [] then filter rw_enabled (List.map_filter (entry_named rs) names)
      else filter (\<lambda>r. rw_enabled r \<and> rw_role r = ''finder'') rs)"

subsection \<open>What the store shows\<close>

text \<open>\<open>_candidate_unavailable\<close>: what the adapter says of itself, \<open>None\<close> when asking it raises. \<open>af_eligible\<close> is
  the answer of \<open>routing_eligibility()\<close> where the adapter has one; the texts of the reasons are only
  printed.\<close>

record adapter_facts =
  af_eligible :: "bool option"
  af_limit :: "int option"

definition candidate_unavailable :: "adapter_facts option \<Rightarrow> int option \<Rightarrow> bool" where
  "candidate_unavailable facts prompt_size =
     (case facts of None \<Rightarrow> True
      | Some a \<Rightarrow> af_eligible a = Some False
          \<or> (case (prompt_size, af_limit a) of (Some n, Some limit) \<Rightarrow> limit < n | _ \<Rightarrow> False))"

text \<open>The store, the adapters and the environment as one run of the router sees them. \<open>su_reviews\<close> is \<open>None\<close>
  when the reviews cannot be read; \<open>su_since\<close> is the canonical time of a number of days ago.\<close>

record surroundings =
  su_adapter :: "string \<Rightarrow> adapter_facts option"
  su_registered :: "string \<Rightarrow> bool"
  su_adapter_name :: "string \<Rightarrow> string option"
  su_bypass :: "string option"
  su_now :: string
  su_outages :: provider_table
  su_num :: "string \<Rightarrow> rat option"
  su_env :: "string \<Rightarrow> string option"
  su_spend :: spend_db
  su_admissions :: admissions
  su_max :: int
  su_reviews :: "row list option"
  su_since :: "int \<Rightarrow> string"

definition provider_blackout :: "surroundings \<Rightarrow> entry \<Rightarrow> string \<Rightarrow> bool" where
  "provider_blackout su e pool =
     (if cached_unavailable (su_bypass su) (rw_provider e) (Some pool) (su_now su) (su_outages su) \<noteq> None then True
      else api_spend_blocked (su_num su) (su_env su) (take 10 (su_now su)) (rw_provider e) (su_spend su))"

definition load_of :: "surroundings \<Rightarrow> int option \<Rightarrow> entry \<Rightarrow> string \<Rightarrow> load" where
  "load_of su prompt_size e pool =
     (if \<not> su_registered su (rw_provider e) then no_load
      else if candidate_unavailable (su_adapter su (rw_provider e)) prompt_size then no_load
      else if provider_blackout su e pool then no_load
      else (case provider_resource_class (rw_provider e) (Some pool) of
          None \<Rightarrow> no_load
        | Some cls \<Rightarrow>
            \<lparr>ld_free = max 0 (su_max su - int (capacity_holder_count cls pool (su_admissions su))),
             ld_queue = int (length (filter (\<lambda>v. wv_status v = Queued) (capacity_active_views cls pool (su_admissions su)))),
             ld_unavailable = False\<rparr>))"

fun provider_loads :: "surroundings \<Rightarrow> int option \<Rightarrow> entry list \<Rightarrow> (string \<Rightarrow> load option) \<Rightarrow> (string \<Rightarrow> load option) option" where
  "provider_loads su prompt_size [] out = Some out"
| "provider_loads su prompt_size (e # es) out =
     (case pool_of e of None \<Rightarrow> None
      | Some pool \<Rightarrow> provider_loads su prompt_size es
          (if out pool \<noteq> None then out else out(pool \<mapsto> load_of su prompt_size e pool)))"

text \<open>\<open>routing_counts(since_iso)\<close>: the groups in the order of their first row.\<close>

definition counted_row :: "string \<Rightarrow> row \<Rightarrow> bool" where
  "counted_row begun r \<longleftrightarrow> (case col r ''reviewed_at'' of PStr t \<Rightarrow> begun \<le> t | _ \<Rightarrow> False)
     \<and> col r ''source'' = PStr ''skodun'' \<and> col r ''adapter'' \<noteq> PNone"

definition group_of :: "row \<Rightarrow> pyval \<times> pyval \<times> pyval" where
  "group_of r = (col r ''adapter'', dget (r_art r) ''route_reason'', dget (r_art r) ''routed_reviewer'')"

definition routing_counts :: "string \<Rightarrow> row list \<Rightarrow> ((pyval \<times> pyval \<times> pyval) \<times> nat) list" where
  "routing_counts begun rows =
     (let rs = map group_of (filter (counted_row begun) rows) in
      map (\<lambda>g. (g, length (filter (\<lambda>x. x = g) rs))) (remdups rs))"

text \<open>\<open>provider_served\<close>: \<open>by_adapter\<close> as a list of pairs, the later entry of a key first. \<open>wanted\<close> is a set
  in the code; the order matters only if two adapters had one name.\<close>

definition base_of :: "string \<Rightarrow> string" where
  "base_of p = takeWhile (\<lambda>c. c \<noteq> CHR '':'') p"

definition by_adapter :: "(string \<Rightarrow> string option) \<Rightarrow> string list \<Rightarrow> (string \<times> string) list" where
  "by_adapter name wanted =
     rev (List.map_filter (\<lambda>p. if length (filter (\<lambda>q. base_of q = base_of p) wanted) = 1
        then map_option (\<lambda>a. (a, p)) (name (base_of p)) else None) wanted)"

definition served_by :: "(string \<Rightarrow> string option) \<Rightarrow> string list \<Rightarrow> pyval \<Rightarrow> string option" where
  "served_by name wanted adapter = (case adapter of PStr a \<Rightarrow> map_of (by_adapter name wanted) a | _ \<Rightarrow> None)"

definition provider_served :: "surroundings \<Rightarrow> string list \<Rightarrow> int \<Rightarrow> (string \<Rightarrow> int option) option" where
  "provider_served su providers window =
     (let wanted = remdups providers; begun = su_since su (max 1 window) in
      case su_reviews su of None \<Rightarrow> None
      | Some rows \<Rightarrow> Some (\<lambda>p. if p \<in> set wanted
          then Some (\<Sum>(g, n) \<leftarrow> routing_counts begun rows.
             if served_by (su_adapter_name su) wanted (fst g) = Some p then int n else 0)
          else None))"

definition available :: "(string \<Rightarrow> load option) \<Rightarrow> entry \<Rightarrow> bool" where
  "available loads e \<longleftrightarrow> (case pool_of e of None \<Rightarrow> False
     | Some pool \<Rightarrow> (case loads pool of None \<Rightarrow> False | Some l \<Rightarrow> \<not> ld_unavailable l))"

definition shares_for :: "config \<Rightarrow> entry list \<Rightarrow> (string \<Rightarrow> load option) \<Rightarrow> surroundings \<Rightarrow> (string \<Rightarrow> share option) option" where
  "shares_for cfg pool loads su =
     (let weights = ro_weights (cf_routing cfg) in
      if weights = [] then None
      else let providers = remdups (map rw_provider (filter (available loads) pool)) in
        map_option (share_targets weights providers) (provider_served su providers (ro_window (cf_routing cfg))))"

subsection \<open>The router and the head of a review\<close>

definition routable :: "config \<Rightarrow> string list \<Rightarrow> entry \<Rightarrow> bool" where
  "routable cfg excluded r \<longleftrightarrow> rw_provider r \<notin> set excluded
     \<and> (rw_provider r \<noteq> ''junie'' \<or> list_ex (\<lambda>n. case entry_named (cf_reviewers cfg) n of
          None \<Rightarrow> False | Some f \<Rightarrow> rw_provider f \<noteq> ''junie'') (rw_fallbacks r))"

definition auto_route :: "config \<Rightarrow> surroundings \<Rightarrow> string option \<Rightarrow> string list \<Rightarrow> int option \<Rightarrow> (entry \<times> route_reason) option" where
  "auto_route cfg su family excluded prompt_size =
     (let pool = filter (routable cfg excluded) (resolve_pool cfg) in
      if pool = [] then None
      else (case provider_loads su prompt_size pool Map.empty of
          None \<Rightarrow> None
        | Some loads \<Rightarrow>
            (case pick_finder pool loads family (ro_cross (cf_routing cfg)) (shares_for cfg pool loads su) of
               None \<Rightarrow> None | Some route \<Rightarrow> route)))"

text \<open>\<open>pipeline.py\<close>: \<open>_reviewer_for(cfg, ''finder'')\<close>, \<open>_requested_head\<close>, \<open>_auto_fallback_head\<close> and
  \<open>resolve_review_head\<close>. The left side is \<open>PreflightRefused\<close>, except \<open>Bad_pool\<close>, the \<open>ValueError\<close> of
  the audit's own \<open>quota_pool_for\<close>.\<close>

datatype head_error = No_finder | Not_requested | No_alternative | Bad_pool

definition default_head :: "config \<Rightarrow> head_error + entry" where
  "default_head cfg = (case find (\<lambda>r. rw_role r = ''finder'' \<and> rw_enabled r) (cf_reviewers cfg) of
     None \<Rightarrow> Inl No_finder | Some r \<Rightarrow> Inr r)"

definition auto_fallback_head :: "config \<Rightarrow> head_error + entry" where
  "auto_fallback_head cfg =
     (if ro_pool (cf_routing cfg) \<noteq> [] \<and> resolve_pool cfg \<noteq> [] then Inr (hd (resolve_pool cfg)) else default_head cfg)"

definition requested_head :: "config \<Rightarrow> string \<Rightarrow> head_error + entry" where
  "requested_head cfg requested =
     (case find (\<lambda>r. rw_name r = requested) (cf_reviewers cfg) of
        None \<Rightarrow> Inl Not_requested | Some r \<Rightarrow> if \<not> rw_enabled r then Inl Not_requested else Inr r)"

text \<open>The head, the reason, and the audit: the names of the entries asked for and routed to, the reason,
  the family of the client, and the quota pool where it differs from the provider.\<close>

record audit =
  au_requested :: "string option"
  au_routed :: string
  au_reason :: route_reason
  au_family :: "string option"
  au_pool :: "string option"

definition audit_of :: "string option \<Rightarrow> string option \<Rightarrow> entry \<Rightarrow> route_reason \<Rightarrow> head_error + entry \<times> audit" where
  "audit_of requested family head reason =
     (case pool_of head of None \<Rightarrow> Inl Bad_pool
      | Some pool \<Rightarrow> Inr (head, \<lparr>au_requested = requested, au_routed = rw_name head, au_reason = reason, au_family = family,
          au_pool = (if pool \<noteq> rw_provider head then Some pool else None)\<rparr>))"

definition fallback_head :: "config \<Rightarrow> string list \<Rightarrow> head_error + entry" where
  "fallback_head cfg avoid =
     ebind (auto_fallback_head cfg) (\<lambda>head.
       if rw_provider head \<notin> set avoid then Inr head
       else (case filter (\<lambda>r. rw_provider r \<notin> set avoid) (resolve_pool cfg) of
          [] \<Rightarrow> Inl No_alternative | r # _ \<Rightarrow> Inr r))"

definition resolve_review_head ::
    "config \<Rightarrow> surroundings \<Rightarrow> string option \<Rightarrow> string option \<Rightarrow> string list \<Rightarrow> int option \<Rightarrow> head_error + entry \<times> audit" where
  "resolve_review_head cfg su requested family avoid prompt_size =
     (case requested of
        Some name \<Rightarrow> ebind (requested_head cfg name) (\<lambda>head. audit_of requested family head Pinned)
      | None \<Rightarrow>
          if ro_mode (cf_routing cfg) = ''auto''
          then (case auto_route cfg su family avoid prompt_size of
              None \<Rightarrow> ebind (fallback_head cfg avoid) (\<lambda>head. audit_of requested family head Default_finder)
            | Some (head, why) \<Rightarrow> audit_of requested family head why)
          else ebind (default_head cfg) (\<lambda>head. audit_of requested family head Config_finder))"

subsection \<open>The loop picks the first best candidate\<close>

definition candidates :: "(string \<Rightarrow> load option) \<Rightarrow> entry list \<Rightarrow> (entry \<times> load) list" where
  "candidates loads pool = List.map_filter (\<lambda>e. case pool_of e of None \<Rightarrow> None
     | Some k \<Rightarrow> (case loads k of None \<Rightarrow> None | Some l \<Rightarrow> if ld_unavailable l then None else Some (e, l))) pool"

definition first_best :: "('a \<Rightarrow> int) \<Rightarrow> 'a list \<Rightarrow> 'a option" where
  "first_best f xs = find (\<lambda>x. \<forall>y \<in> set xs. f y \<le> f x) xs"

lemma find_cong_set: "(\<And>x. x \<in> set xs \<Longrightarrow> P x = Q x) \<Longrightarrow> find P xs = find Q xs"
  by (induction xs) auto

lemma first_best_Cons:
  "first_best f (b # x # xs) = first_best f ((if f b < f x then x else b) # xs)"
proof (cases "f b < f x")
  case True
  then have "find (\<lambda>z. \<forall>y \<in> set (b # x # xs). f y \<le> f z) (x # xs) = find (\<lambda>z. \<forall>y \<in> set (x # xs). f y \<le> f z) (x # xs)"
    by (intro find_cong_set) auto
  with True show ?thesis by (simp add: first_best_def del: find.simps(2)) (simp add: find.simps(2) [of _ b])
next
  case False
  then have "find (\<lambda>z. \<forall>y \<in> set (b # x # xs). f y \<le> f z) xs = find (\<lambda>z. \<forall>y \<in> set (b # xs). f y \<le> f z) xs"
    by (intro find_cong_set) auto
  with False show ?thesis by (auto simp: first_best_def)
qed

lemma first_best_Some: "first_best f xs = Some x \<Longrightarrow> x \<in> set xs \<and> (\<forall>y \<in> set xs. f y \<le> f x)"
  by (auto simp: first_best_def find_Some_iff)

lemma first_best_cong:
  assumes "\<And>x y. x \<in> set xs \<Longrightarrow> y \<in> set xs \<Longrightarrow> f y \<le> f x \<longleftrightarrow> g y \<le> g x"
  shows "first_best f xs = first_best g xs"
  unfolding first_best_def by (intro find_cong_set) (use assms in auto)

lemma argmax_from_first:
  assumes "\<And>e. e \<in> set pool \<Longrightarrow> pool_of e \<noteq> None"
  shows "argmax_from score loads pool (Some (score (fst b) (snd b), b)) =
      Some (map_option (\<lambda>c. (score (fst c) (snd c), c)) (first_best (\<lambda>c. score (fst c) (snd c)) (b # candidates loads pool)))"
  using assms
proof (induction pool arbitrary: b)
  case Nil
  then show ?case by (simp add: candidates_def List.map_filter_def first_best_def)
next
  case (Cons e es)
  from Cons.prems obtain k where k: "pool_of e = Some k" by fastforce
  have IH: "argmax_from score loads es (Some (score (fst b) (snd b), b)) =
      Some (map_option (\<lambda>c. (score (fst c) (snd c), c)) (first_best (\<lambda>c. score (fst c) (snd c)) (b # candidates loads es)))" for b
    using Cons.IH Cons.prems by simp
  show ?case
  proof (cases "case loads k of None \<Rightarrow> True | Some l \<Rightarrow> ld_unavailable l")
    case True
    then have "candidates loads (e # es) = candidates loads es"
      using k by (auto simp: candidates_def List.map_filter_def split: option.splits)
    with True k IH show ?thesis by (auto split: option.splits)
  next
    case False
    then obtain l where l: "loads k = Some l" "\<not> ld_unavailable l" by (auto split: option.splits)
    then have "candidates loads (e # es) = (e, l) # candidates loads es"
      using k by (simp add: candidates_def List.map_filter_def)
    moreover have "argmax_from score loads (e # es) (Some (score (fst b) (snd b), b)) =
        argmax_from score loads es (Some (let c = (if score (fst b) (snd b) < score e l then (e, l) else b) in (score (fst c) (snd c), c)))"
      using k l by simp
    ultimately show ?thesis
      using IH [of "if score (fst b) (snd b) < score e l then (e, l) else b"]
      by (simp add: first_best_Cons Let_def)
  qed
qed

lemma argmax_skip:
  assumes "\<And>e. e \<in> set pool \<Longrightarrow> pool_of e \<noteq> None"
  shows "argmax_from score loads pool None =
    Some (map_option (\<lambda>c. (score (fst c) (snd c), c)) (first_best (\<lambda>c. score (fst c) (snd c)) (candidates loads pool)))"
  using assms
proof (induction pool)
  case Nil
  then show ?case by (simp add: candidates_def List.map_filter_def first_best_def)
next
  case (Cons e es)
  from Cons.prems obtain k where k: "pool_of e = Some k" by fastforce
  show ?case
  proof (cases "case loads k of None \<Rightarrow> True | Some l \<Rightarrow> ld_unavailable l")
    case True
    then have "candidates loads (e # es) = candidates loads es"
      using k by (auto simp: candidates_def List.map_filter_def split: option.splits)
    moreover have "argmax_from score loads (e # es) None = argmax_from score loads es None"
      using True k by (auto split: option.splits)
    ultimately show ?thesis using Cons by simp
  next
    case False
    then obtain l where l: "loads k = Some l" "\<not> ld_unavailable l" by (auto split: option.splits)
    then have "candidates loads (e # es) = (e, l) # candidates loads es"
      using k by (simp add: candidates_def List.map_filter_def)
    with k l argmax_from_first [of es score loads "(e, l)"] Cons.prems show ?thesis by simp
  qed
qed

lemma argmax_first:
  assumes "\<And>e. e \<in> set pool \<Longrightarrow> pool_of e \<noteq> None"
  shows "argmax score loads pool = Some (first_best (\<lambda>c. score (fst c) (snd c)) (candidates loads pool))"
proof (cases "candidates loads pool")
  case Nil
  then show ?thesis using argmax_skip [OF assms] by (simp add: argmax_def first_best_def)
next
  case (Cons b cs)
  have "map_option snd \<circ> map_option (\<lambda>c. (score (fst c) (snd c), c)) = (\<lambda>x. x)" by (auto simp: option.map_comp comp_def option.map_ident)
  then show ?thesis using argmax_skip [OF assms] by (simp add: argmax_def fun_eq_iff)
qed

lemma first_best_None: "first_best f xs = None \<longleftrightarrow> xs = []"
proof (cases xs)
  case (Cons x ys)
  have "first_best f (x # ys) \<noteq> None"
  proof (induction ys arbitrary: x)
    case (Cons y ys)
    then show ?case by (simp add: first_best_Cons)
  qed (simp add: first_best_def)
  then show ?thesis using Cons by simp
qed (simp add: first_best_def)

lemma mem_map_filter: "y \<in> set (List.map_filter f xs) \<longleftrightarrow> (\<exists>x \<in> set xs. f x = Some y)"
  by (force simp: List.map_filter_def image_iff)

lemma candidates_mem: "(e, l) \<in> set (candidates loads pool) \<longleftrightarrow>
    e \<in> set pool \<and> (\<exists>k. pool_of e = Some k \<and> loads k = Some l \<and> \<not> ld_unavailable l)"
proof -
  have "(e, l) \<in> set (candidates loads pool) \<longleftrightarrow> (\<exists>x \<in> set pool. (case pool_of x of None \<Rightarrow> None
     | Some k \<Rightarrow> (case loads k of None \<Rightarrow> None | Some l \<Rightarrow> if ld_unavailable l then None else Some (x, l))) = Some (e, l))"
    by (simp only: candidates_def mem_map_filter)
  also have "\<dots> \<longleftrightarrow> (\<exists>x \<in> set pool. x = e \<and> (\<exists>k. pool_of e = Some k \<and> loads k = Some l \<and> \<not> ld_unavailable l))"
    by (intro bex_cong refl) (auto split: option.splits if_splits)
  finally show ?thesis by blast
qed

lemma candidates_available: "e \<in> fst ` set (candidates loads pool) \<longleftrightarrow> e \<in> set pool \<and> available loads e"
proof -
  have "e \<in> fst ` set (candidates loads pool) \<longleftrightarrow> (\<exists>l. (e, l) \<in> set (candidates loads pool))" by force
  then show ?thesis by (auto simp: candidates_mem available_def split: option.splits)
qed

text \<open> The loop of \<open>_argmax\<close> is a reference definition: among the candidates, in the order
  the operator wrote them, the first whose score no candidate exceeds. It is none exactly when
  no entry of the pool is available.\<close>

theorem argmax_is_first_best:
  assumes "\<forall>e \<in> set pool. pool_of e \<noteq> None"
  shows "argmax score loads pool = Some (first_best (\<lambda>(e, l). score e l) (candidates loads pool))
    \<and> (first_best (\<lambda>(e, l). score e l) (candidates loads pool) = None \<longleftrightarrow> (\<forall>e \<in> set pool. \<not> available loads e))"
proof -
  have "candidates loads pool = [] \<longleftrightarrow> (\<forall>e. e \<notin> fst ` set (candidates loads pool))" by auto
  then have "candidates loads pool = [] \<longleftrightarrow> (\<forall>e \<in> set pool. \<not> available loads e)"
    unfolding candidates_available by blast
  then show ?thesis using argmax_first [of pool score loads] assms by (simp add: first_best_None split_def)
qed

subsection \<open>Loads and shares\<close>

lemma provider_loads_Some: "provider_loads su n pool out = Some loads \<Longrightarrow> e \<in> set pool \<Longrightarrow> pool_of e \<noteq> None"
  by (induction pool arbitrary: out) (auto split: option.splits)

lemma load_of_bounds: "0 \<le> ld_free (load_of su n e k) \<and> 0 \<le> ld_queue (load_of su n e k)"
  by (simp add: load_of_def no_load_def split: option.splits)

lemma provider_loads_bounds:
  assumes "provider_loads su n pool out = Some loads" and "loads k = Some l"
    and "\<And>k l. out k = Some l \<Longrightarrow> 0 \<le> ld_free l \<and> 0 \<le> ld_queue l"
  shows "0 \<le> ld_free l \<and> 0 \<le> ld_queue l"
  using assms
proof (induction pool arbitrary: out)
  case (Cons e es)
  then obtain p where p: "pool_of e = Some p" by fastforce
  from Cons.prems(1) p have "provider_loads su n es (if out p \<noteq> None then out else out(p \<mapsto> load_of su n e p)) = Some loads" by simp
  then show ?case
    by (rule Cons.IH [OF _ Cons.prems(2)]) (use Cons.prems(3) load_of_bounds in \<open>auto split: if_splits\<close>)
qed simp

lemma sum_div: "(\<Sum>p\<leftarrow>ps. f p / (t :: rat)) = sum_list (map f ps) / t"
  by (induction ps) (simp_all add: add_divide_distrib)

lemma share_targets_Some:
  assumes "share_targets weights providers n p = Some s"
  shows "p \<in> set providers \<and> (let ps = remdups providers; w = weight_of (map_of (rev weights)) in
     0 < sum_list (map w ps) \<and> sh_target s = w p / sum_list (map w ps)
     \<and> sh_actual s = (if 0 < sum_list (map (served_of n) ps) then of_int (served_of n p) / of_int (sum_list (map (served_of n) ps)) else 0))"
  using assms by (auto simp: share_targets_def Let_def split: if_splits)

lemma positive_weight:
  assumes "\<forall>(p, w) \<in> set weights. 0 < w"
  shows "0 < weight_of (map_of (rev weights)) p"
  using assms by (auto simp: weight_of_def dest!: map_of_SomeD split: option.splits)

lemma part_of_sum:
  assumes "\<And>p. p \<in> set ps \<Longrightarrow> 0 \<le> f p" and "q \<in> set ps"
  shows "f q \<le> (sum_list (map f ps) :: 'a :: ordered_comm_monoid_add)"
  using assms by (intro member_le_sum_list) auto

lemma share_bounds:
  assumes "\<forall>(p, w) \<in> set weights. 0 < w" and "share_targets weights providers n p = Some s"
  shows "0 < sh_target s \<and> sh_target s \<le> 1 \<and> 0 \<le> sh_actual s \<and> sh_actual s \<le> 1"
proof -
  let ?ps = "remdups providers" and ?w = "weight_of (map_of (rev weights))"
  have w: "0 < ?w p" for p by (rule positive_weight [OF assms(1)])
  from share_targets_Some [OF assms(2)] have p: "p \<in> set ?ps" and t: "0 < sum_list (map ?w ?ps)" "sh_target s = ?w p / sum_list (map ?w ?ps)"
    and a: "sh_actual s = (if 0 < sum_list (map (served_of n) ?ps) then of_int (served_of n p) / of_int (sum_list (map (served_of n) ?ps)) else 0)"
    by (auto simp: Let_def)
  have "?w p \<le> sum_list (map ?w ?ps)" by (rule part_of_sum [OF _ p]) (use w less_imp_le in blast)
  moreover have "served_of n p \<le> sum_list (map (served_of n) ?ps)" by (rule part_of_sum [OF _ p]) (simp add: served_of_def)
  then have "(of_int (served_of n p) :: rat) \<le> of_int (sum_list (map (served_of n) ?ps))" by simp
  moreover have "0 \<le> served_of n p" by (simp add: served_of_def)
  ultimately show ?thesis using t a w [of p] by (simp add: divide_le_eq)
qed

lemma py_round_bounds:
  shows "of_int a \<le> x \<Longrightarrow> a \<le> py_round x" and "x \<le> of_int b \<Longrightarrow> py_round x \<le> b"
proof -
  assume "of_int a \<le> x"
  then have "a \<le> \<lfloor>x\<rfloor>" by (simp add: le_floor_iff)
  then show "a \<le> py_round x" by (simp add: py_round_def Let_def)
next
  assume b: "x \<le> of_int b"
  have "\<lfloor>x\<rfloor> < b" if "1 / 2 \<le> x - of_int \<lfloor>x\<rfloor>"
  proof -
    from that b have "(of_int \<lfloor>x\<rfloor> :: rat) < of_int b" by linarith
    then show ?thesis by simp
  qed
  moreover have "\<lfloor>x\<rfloor> \<le> b" using floor_mono [OF b] by simp
  ultimately show "py_round x \<le> b" by (auto simp: py_round_def Let_def not_less)
qed

definition share_term :: "(string \<Rightarrow> share option) option \<Rightarrow> entry \<Rightarrow> int" where
  "share_term shares e = (case shares of None \<Rightarrow> 0 | Some m \<Rightarrow>
     (case m (rw_provider e) of None \<Rightarrow> 0 | Some s \<Rightarrow> py_round (weight_share_score * deficit s)))"

lemma scoring_terms: "scoring family cross shares e l =
    (if 0 < ld_free l then 100 * ld_free l else - 10 * (ld_queue l + 1)) + share_term shares e
    + (if cross_bonus_applies e family cross then 20 else 0)"
  by (simp add: scoring_def score_candidate_def share_term_def free_slot_score_def queue_depth_penalty_def cross_model_bonus_def
      split: option.split)

lemma share_term_bounds:
  assumes "\<forall>(p, w) \<in> set (ro_weights (cf_routing cfg)). 0 < w"
  shows "- 24 \<le> share_term (shares_for cfg pool loads su) e \<and> share_term (shares_for cfg pool loads su) e \<le> 24"
proof (cases "shares_for cfg pool loads su")
  case (Some m)
  then obtain providers n where m: "m = share_targets (ro_weights (cf_routing cfg)) providers n"
    by (auto simp: shares_for_def Let_def split: if_splits)
  show ?thesis
  proof (cases "m (rw_provider e)")
    case (Some s)
    with m share_bounds [OF assms] have "- 1 \<le> deficit s \<and> deficit s \<le> 1" by (force simp: deficit_def)
    then have "of_int (- 24) \<le> weight_share_score * deficit s" "weight_share_score * deficit s \<le> of_int 24"
      by (simp_all add: weight_share_score_def)
    then have "- 24 \<le> py_round (weight_share_score * deficit s)" "py_round (weight_share_score * deficit s) \<le> 24"
      by (blast intro: py_round_bounds)+
    then show ?thesis using Some \<open>shares_for cfg pool loads su = Some m\<close> by (simp add: share_term_def)
  qed (simp add: share_term_def \<open>shares_for cfg pool loads su = Some m\<close>)
qed (simp add: share_term_def)

text \<open>What the bounds of the soft terms are for: they never outweigh a free slot.\<close>

lemma free_slot_dominates:
  assumes "scoring family cross shares f k \<le> scoring family cross shares e l"
    and "\<And>x. - 24 \<le> share_term shares x \<and> share_term shares x \<le> 24"
    and "0 \<le> ld_free l" and "0 \<le> ld_queue l"
  shows "ld_free k \<le> ld_free l"
  using assms(1,3,4) assms(2) [of e] assms(2) [of f] by (auto simp: scoring_terms split: if_splits)

subsection \<open>Runs of the router\<close>

lemma pick_Some:
  assumes "pick_finder pool loads family cross shares = Some (Some (e, r))" and "\<forall>x \<in> set pool. pool_of x \<noteq> None"
  obtains l where "(e, l) \<in> set (candidates loads pool)" and "r = route_label pool loads family cross shares e l"
    and "\<forall>(f, k) \<in> set (candidates loads pool). scoring family cross shares f k \<le> scoring family cross shares e l"
proof -
  from assms(1) argmax_first [OF bspec [OF assms(2)]] obtain l where
    b: "first_best (\<lambda>c. scoring family cross shares (fst c) (snd c)) (candidates loads pool) = Some (e, l)"
    and r: "r = route_label pool loads family cross shares e l"
    by (auto simp: pick_finder_def)
  from first_best_Some [OF b] show thesis by (intro that [of l]) (auto simp: r)
qed

lemma auto_route_Some:
  assumes "auto_route cfg su family excluded n = Some (e, r)"
  obtains loads where "provider_loads su n (filter (routable cfg excluded) (resolve_pool cfg)) Map.empty = Some loads"
    and "pick_finder (filter (routable cfg excluded) (resolve_pool cfg)) loads family (ro_cross (cf_routing cfg))
        (shares_for cfg (filter (routable cfg excluded) (resolve_pool cfg)) loads su) = Some (Some (e, r))"
  using assms by (auto simp: auto_route_def Let_def split: if_splits option.splits)

lemma resolve_pool_enabled: "e \<in> set (resolve_pool cfg) \<Longrightarrow> rw_enabled e"
  by (auto simp: resolve_pool_def Let_def split: if_splits)

text \<open>The candidates of one run: the entries the router may choose from, with the loads the store shows.\<close>

definition run_candidates :: "config \<Rightarrow> surroundings \<Rightarrow> string list \<Rightarrow> int option \<Rightarrow> (entry \<times> load) list" where
  "run_candidates cfg su excluded n =
     (let pool = filter (routable cfg excluded) (resolve_pool cfg) in
      case provider_loads su n pool Map.empty of None \<Rightarrow> [] | Some loads \<Rightarrow> candidates loads pool)"

text \<open>C35 (safety).  Capacity decides. The router chooses an enabled entry of the pool whose provider is available
  and not excluded, and none of the candidates of the run has more free slots than it: whatever
  the declared weights, the served shares and the client's family, a review is never queued while
  a candidate has a slot free. The reason it records says truly whether it had one.\<close>

theorem free_slot_wins:
  assumes "auto_route cfg su family excluded n = Some (e, r)" and "\<forall>(p, w) \<in> set (ro_weights (cf_routing cfg)). 0 < w"
  shows "rw_enabled e \<and> e \<in> set (resolve_pool cfg) \<and> rw_provider e \<notin> set excluded
    \<and> (\<exists>l. (e, l) \<in> set (run_candidates cfg su excluded n) \<and> \<not> ld_unavailable l
         \<and> (\<forall>(f, k) \<in> set (run_candidates cfg su excluded n). ld_free k \<le> ld_free l)
         \<and> (r \<in> {Free, Free_cross, Free_share} \<longleftrightarrow> 0 < ld_free l))"
proof -
  let ?pool = "filter (routable cfg excluded) (resolve_pool cfg)"
  from auto_route_Some [OF assms(1)] obtain loads where loads: "provider_loads su n ?pool Map.empty = Some loads"
    and pick: "pick_finder ?pool loads family (ro_cross (cf_routing cfg)) (shares_for cfg ?pool loads su) = Some (Some (e, r))" .
  have po: "\<forall>x \<in> set ?pool. pool_of x \<noteq> None" using provider_loads_Some [OF loads] by blast
  from pick_Some [OF pick po] obtain l where l: "(e, l) \<in> set (candidates loads ?pool)"
    and r: "r = route_label ?pool loads family (ro_cross (cf_routing cfg)) (shares_for cfg ?pool loads su) e l"
    and best: "\<forall>(f, k) \<in> set (candidates loads ?pool).
      scoring family (ro_cross (cf_routing cfg)) (shares_for cfg ?pool loads su) f k
        \<le> scoring family (ro_cross (cf_routing cfg)) (shares_for cfg ?pool loads su) e l" .
  from l have e: "e \<in> set ?pool" "\<not> ld_unavailable l" and at_l: "\<exists>k. loads k = Some l" by (auto simp: candidates_mem)
  from at_l provider_loads_bounds [OF loads] have bounds: "0 \<le> ld_free l" "0 \<le> ld_queue l" by auto
  have "ld_free k \<le> ld_free l" if "(f, k) \<in> set (candidates loads ?pool)" for f k
    by (rule free_slot_dominates [OF _ share_term_bounds [OF assms(2)] bounds]) (use best that in blast)
  moreover have "run_candidates cfg su excluded n = candidates loads ?pool" using loads by (simp add: run_candidates_def Let_def)
  moreover have "r \<in> {Free, Free_cross, Free_share} \<longleftrightarrow> 0 < ld_free l" by (simp add: r route_label_def Let_def)
  ultimately show ?thesis using e l resolve_pool_enabled by (auto simp: routable_def)
qed

lemma argmax_cong:
  assumes "\<forall>e \<in> set pool. pool_of e \<noteq> None"
    and "\<And>e l f k. (e, l) \<in> set (candidates loads pool) \<Longrightarrow> (f, k) \<in> set (candidates loads pool) \<Longrightarrow> s f k \<le> s e l \<longleftrightarrow> s' f k \<le> s' e l"
  shows "argmax s loads pool = argmax s' loads pool"
proof -
  have "first_best (\<lambda>c. s (fst c) (snd c)) (candidates loads pool) = first_best (\<lambda>c. s' (fst c) (snd c)) (candidates loads pool)"
    by (rule first_best_cong) (use assms(2) in auto)
  then show ?thesis using argmax_first [OF bspec [OF assms(1)]] by simp
qed

text \<open>A bonus that every candidate earns changes no choice.\<close>

lemma argmax_inert:
  assumes "\<forall>e \<in> set pool. pool_of e \<noteq> None" and "\<forall>e \<in> set pool. provider_family (rw_provider e) \<noteq> f"
  shows "argmax (scoring (Some f) cross shares) loads pool = argmax (scoring None cross shares) loads pool"
proof (rule argmax_cong [OF assms(1)])
  fix e l g k
  assume "(e, l) \<in> set (candidates loads pool)" "(g, k) \<in> set (candidates loads pool)"
  with assms(2) have "provider_family (rw_provider e) \<noteq> f" "provider_family (rw_provider g) \<noteq> f" by (auto simp: candidates_mem)
  then show "scoring (Some f) cross shares g k \<le> scoring (Some f) cross shares e l \<longleftrightarrow> scoring None cross shares g k \<le> scoring None cross shares e l"
    by (auto simp: scoring_terms cross_bonus_applies_def)
qed

lemma pick_inert:
  assumes "\<forall>e \<in> set pool. pool_of e \<noteq> None" and "\<forall>e \<in> set pool. provider_family (rw_provider e) \<noteq> f"
  shows "pick_finder pool loads (Some f) cross shares = pick_finder pool loads None cross shares"
proof -
  have "wins pool loads (Some f) cross shares e c b = wins pool loads None cross shares e c b" for e c b
    by (simp add: wins_def argmax_inert [OF assms])
  then have "route_label pool loads (Some f) cross shares e l = route_label pool loads None cross shares e l" for e l
    by (simp add: route_label_def Let_def)
  then show ?thesis by (simp add: pick_finder_def argmax_inert [OF assms])
qed

text \<open> A declared client family that no finder of the pool has is inert, not harmful: the
  router chooses the entry, and records the reason, that it would with no family declared.\<close>

theorem unknown_family_is_inert:
  assumes "\<forall>e \<in> set (resolve_pool cfg). provider_family (rw_provider e) \<noteq> f"
  shows "auto_route cfg su (Some f) excluded n = auto_route cfg su None excluded n"
proof (cases "provider_loads su n (filter (routable cfg excluded) (resolve_pool cfg)) Map.empty")
  case (Some loads)
  have "\<forall>e \<in> set (filter (routable cfg excluded) (resolve_pool cfg)). pool_of e \<noteq> None"
    using provider_loads_Some [OF Some] by blast
  then show ?thesis
    using assms by (simp add: auto_route_def Let_def Some pick_inert)
qed (simp add: auto_route_def Let_def)

lemma no_family_scoring: "scoring family False shares = scoring None False shares"
  by (simp add: scoring_def score_candidate_def cross_bonus_applies_def fun_eq_iff)

text \<open> The labels are causal. A route is labelled plain exactly when load alone, without shares and
  without the family of the client, sends the review to an entry of the same name. A \<open>+cross\<close>
  label means that load with the family alone does so and load with the shares alone does not.\<close>

theorem labels_are_causal:
  assumes "pick_finder pool loads family cross shares = Some (Some (e, r))" and "\<forall>x \<in> set pool. pool_of x \<noteq> None"
  shows "(r \<in> {Free, Wait} \<longleftrightarrow> (\<exists>e' r'. pick_finder pool loads None False None = Some (Some (e', r')) \<and> rw_name e' = rw_name e))
    \<and> (r \<in> {Free_cross, Wait_cross} \<longleftrightarrow>
          (\<exists>e' r'. pick_finder pool loads family cross None = Some (Some (e', r')) \<and> rw_name e' = rw_name e)
        \<and> \<not> (\<exists>e' r'. pick_finder pool loads None False shares = Some (Some (e', r')) \<and> rw_name e' = rw_name e)
        \<and> \<not> (\<exists>e' r'. pick_finder pool loads None False None = Some (Some (e', r')) \<and> rw_name e' = rw_name e))"
proof -
  from pick_Some [OF assms] obtain l where r: "r = route_label pool loads family cross shares e l" by blast
  have heads: "wins pool loads family cross shares e c b \<longleftrightarrow>
      (\<exists>e' r'. pick_finder pool loads family (cross \<and> c) (if b then shares else None) = Some (Some (e', r')) \<and> rw_name e' = rw_name e)" for c b
    by (auto simp: wins_def pick_finder_def split: option.splits)
  have none: "(\<exists>e' r'. pick_finder pool loads family False s = Some (Some (e', r')) \<and> rw_name e' = rw_name e) \<longleftrightarrow>
      (\<exists>e' r'. pick_finder pool loads None False s = Some (Some (e', r')) \<and> rw_name e' = rw_name e)" for s
    by (auto simp: pick_finder_def no_family_scoring [of family])
  have label: "r \<in> {Free, Wait} \<longleftrightarrow> wins pool loads family cross shares e False False"
    "r \<in> {Free_cross, Wait_cross} \<longleftrightarrow> wins pool loads family cross shares e True False
       \<and> \<not> wins pool loads family cross shares e False True \<and> \<not> wins pool loads family cross shares e False False"
    by (simp_all add: r route_label_def Let_def)
  show ?thesis unfolding label heads by (simp only: none if_True if_False simp_thms)
qed

subsection \<open>The head of a review\<close>

lemma fallback_head_Inr:
  assumes "fallback_head cfg avoid = Inr h"
  shows "rw_enabled h \<and> rw_provider h \<notin> set avoid
    \<and> (ro_pool (cf_routing cfg) \<noteq> [] \<and> resolve_pool cfg \<noteq> [] \<longrightarrow> h \<in> set (resolve_pool cfg))"
proof -
  from assms obtain d where d: "auto_fallback_head cfg = Inr d" by (auto simp: fallback_head_def err_iffs)
  then have "rw_enabled d \<and> (ro_pool (cf_routing cfg) \<noteq> [] \<and> resolve_pool cfg \<noteq> [] \<longrightarrow> d \<in> set (resolve_pool cfg))"
    using resolve_pool_enabled [OF hd_in_set]
    by (auto simp: auto_fallback_head_def default_head_def find_Some_iff split: if_splits option.splits)
  moreover have "h \<in> set (filter (\<lambda>r. rw_provider r \<notin> set avoid) (resolve_pool cfg))" if "rw_provider d \<in> set avoid"
  proof -
    from assms d that obtain rs where "filter (\<lambda>r. rw_provider r \<notin> set avoid) (resolve_pool cfg) = h # rs"
      by (auto simp: fallback_head_def split: list.splits)
    then show ?thesis by (metis list.set_intros(1))
  qed
  moreover have "h = d" if "rw_provider d \<notin> set avoid" using assms d that by (simp add: fallback_head_def)
  ultimately show ?thesis using resolve_pool_enabled by (cases "rw_provider d \<in> set avoid") auto
qed

text \<open> An automatic run stays where the operator put it. In the mode \<open>auto\<close>, with no entry asked for,
  the head is an enabled entry whose provider is not to be avoided, and with an explicit pool that
  has an enabled entry it is an entry of that pool, also when nothing could be routed to.\<close>

theorem automatic_head_stays_in_pool:
  assumes "resolve_review_head cfg su None family avoid n = Inr (head, a)" and "ro_mode (cf_routing cfg) = ''auto''"
  shows "rw_enabled head \<and> rw_provider head \<notin> set avoid \<and> au_routed a = rw_name head
    \<and> (ro_pool (cf_routing cfg) \<noteq> [] \<and> resolve_pool cfg \<noteq> [] \<longrightarrow> head \<in> set (resolve_pool cfg))"
proof (cases "auto_route cfg su family avoid n")
  case None
  with assms have "fallback_head cfg avoid = Inr head" and a: "au_routed a = rw_name head"
    by (auto simp: resolve_review_head_def audit_of_def err_iffs split: option.splits)
  from fallback_head_Inr [OF this(1)] a show ?thesis by simp
next
  case (Some er)
  then obtain e r where er: "auto_route cfg su family avoid n = Some (e, r)" by (cases er) auto
  with assms have e: "head = e" "au_routed a = rw_name head"
    by (auto simp: resolve_review_head_def audit_of_def split: option.splits)
  from auto_route_Some [OF er] obtain loads where loads: "provider_loads su n (filter (routable cfg avoid) (resolve_pool cfg)) Map.empty = Some loads"
    and pick: "pick_finder (filter (routable cfg avoid) (resolve_pool cfg)) loads family (ro_cross (cf_routing cfg))
        (shares_for cfg (filter (routable cfg avoid) (resolve_pool cfg)) loads su) = Some (Some (e, r))" .
  have "\<forall>x \<in> set (filter (routable cfg avoid) (resolve_pool cfg)). pool_of x \<noteq> None" using provider_loads_Some [OF loads] by blast
  from pick_Some [OF pick this] obtain l where "(e, l) \<in> set (candidates loads (filter (routable cfg avoid) (resolve_pool cfg)))" by blast
  then have "e \<in> set (resolve_pool cfg)" "routable cfg avoid e" by (auto simp: candidates_mem)
  with e show ?thesis by (auto simp: routable_def intro: resolve_pool_enabled)
qed

subsection \<open>Off and auto agree on an idle machine\<close>

lemma first_best_const: "(\<And>x y. x \<in> set xs \<Longrightarrow> y \<in> set xs \<Longrightarrow> f y \<le> f x) \<Longrightarrow> first_best f xs = (case xs of [] \<Rightarrow> None | x # _ \<Rightarrow> Some x)"
  by (auto simp: first_best_def split: list.splits)

lemma find_filter: "find P xs = (case filter P xs of [] \<Rightarrow> None | x # _ \<Rightarrow> Some x)"
  by (induction xs) auto

lemma hd_candidates: "available loads e \<Longrightarrow> \<exists>l cs. candidates loads (e # es) = (e, l) # cs"
  by (auto simp: candidates_def List.map_filter_def available_def split: option.splits)

text \<open>When turning \<open>auto\<close> on changes nothing. If no weights are declared, no client family is given,
  the pool is the implicit one (every enabled finder in the order of the table) and not empty, each of its finders is
  routable and available, and all their providers have equally many free slots and equally long queues, the head of an
  automatic review is the one that \<open>off\<close> chooses. An explicit pool, a provider that is out, or providers of
  different capacity may make it another one, as \<open>explicit_pool_leads\<close> below shows of the pool.\<close>

theorem idle_auto_is_off:
  assumes "ro_weights (cf_routing cfg) = []" and "ro_pool (cf_routing cfg) = []" and "resolve_pool cfg \<noteq> []"
    and "\<forall>e \<in> set (resolve_pool cfg). routable cfg excluded e"
    and "provider_loads su n (resolve_pool cfg) Map.empty = Some loads"
    and "\<forall>e \<in> set (resolve_pool cfg). available loads e"
    and "\<forall>k l k' l'. loads k = Some l \<and> loads k' = Some l' \<longrightarrow> ld_free l = ld_free l' \<and> ld_queue l = ld_queue l'"
  shows "Inr (map_option fst (auto_route cfg su None excluded n)) = map_sum id Some (default_head cfg)"
proof -
  from assms(4) have pool: "filter (routable cfg excluded) (resolve_pool cfg) = resolve_pool cfg" by simp
  from assms(3) obtain e es where e: "resolve_pool cfg = e # es" by (cases "resolve_pool cfg") auto
  then have "filter (\<lambda>r. rw_role r = ''finder'' \<and> rw_enabled r) (cf_reviewers cfg) = e # es"
    using assms(2) by (simp add: resolve_pool_def conj_commute)
  then have "find (\<lambda>r. rw_role r = ''finder'' \<and> rw_enabled r) (cf_reviewers cfg) = Some e"
    by (simp add: find_filter)
  then have head: "default_head cfg = Inr e" by (simp add: default_head_def)
  have po: "\<And>x. x \<in> set (resolve_pool cfg) \<Longrightarrow> pool_of x \<noteq> None" using provider_loads_Some [OF assms(5)] by blast
  have "scoring None cross None f k = scoring None cross None g l"
    if "(f, k) \<in> set (candidates loads (resolve_pool cfg))" "(g, l) \<in> set (candidates loads (resolve_pool cfg))" for f k g l cross
  proof -
    from that obtain i j where "loads i = Some k" "loads j = Some l" unfolding candidates_mem by blast
    with assms(7) have "ld_free k = ld_free l" "ld_queue k = ld_queue l" by blast+
    then show ?thesis by (simp add: scoring_terms share_term_def cross_bonus_applies_def)
  qed
  then have "first_best (\<lambda>c. scoring None cross None (fst c) (snd c)) (candidates loads (resolve_pool cfg)) =
      (case candidates loads (resolve_pool cfg) of [] \<Rightarrow> None | x # _ \<Rightarrow> Some x)" for cross
    by (intro first_best_const) (metis order.refl prod.collapse)
  moreover obtain l cs where "candidates loads (resolve_pool cfg) = (e, l) # cs"
    using hd_candidates [of loads e es] assms(6) e by auto
  ultimately have "argmax (scoring None cross None) loads (resolve_pool cfg) = Some (Some (e, l))" for cross
    using argmax_first [OF po] by simp
  then show ?thesis
    using assms(1,3,5) by (simp add: auto_route_def pool pick_finder_def shares_for_def head)
qed

subsection \<open>Shares are shares of what was served\<close>

lemma length_filter_groups:
  assumes "finite A" and "set xs \<subseteq> A"
  shows "(\<Sum>g \<in> A. if Q g then int (length (filter (\<lambda>x. x = g) xs)) else 0) = int (length (filter Q xs))"
  using assms(2)
proof (induction xs)
  case (Cons x xs)
  have "(\<Sum>g \<in> A. if Q g then int (length (filter (\<lambda>y. y = g) (x # xs))) else 0) =
      (\<Sum>g \<in> A. (if g = x then if Q g then 1 else 0 else 0) + (if Q g then int (length (filter (\<lambda>y. y = g) xs)) else 0))"
    by (rule sum.cong) auto
  then show ?case using Cons assms(1) by (simp add: sum.distrib)
next
  case Nil
  show ?case by (intro trans [OF sum.neutral]) auto
qed

text \<open> What counts as served. The number a provider is charged with is the number of skodun's
  own reviews of the window that its adapter answered, each counted once whatever the router's
  record of it says, whoever the router had chosen.\<close>

theorem served_counts_answers:
  assumes "provider_served su providers window = Some m" and "su_reviews su = Some rows" and "p \<in> set providers"
  shows "m p = Some (int (length (filter (\<lambda>r. counted_row (su_since su (max 1 window)) r
    \<and> served_by (su_adapter_name su) (remdups providers) (col r ''adapter'') = Some p) rows)))"
proof -
  let ?rs = "map group_of (filter (counted_row (su_since su (max 1 window))) rows)"
  let ?Q = "\<lambda>g. served_by (su_adapter_name su) (remdups providers) (fst g) = Some p"
  from assms have "m p = Some (\<Sum>(g, n) \<leftarrow> routing_counts (su_since su (max 1 window)) rows. if ?Q g then int n else 0)"
    by (auto simp: provider_served_def Let_def)
  also have "(\<Sum>(g, n) \<leftarrow> routing_counts (su_since su (max 1 window)) rows. if ?Q g then int n else 0) =
      (\<Sum>g \<leftarrow> remdups ?rs. if ?Q g then int (length (filter (\<lambda>x. x = g) ?rs)) else 0)"
    unfolding routing_counts_def Let_def map_map comp_def split_beta fst_conv snd_conv by (rule refl)
  also have "\<dots> = (\<Sum>g \<in> set ?rs. if ?Q g then int (length (filter (\<lambda>x. x = g) ?rs)) else 0)"
    by (subst sum_list_distinct_conv_sum_set) simp_all
  also have "\<dots> = int (length (filter ?Q ?rs))" by (rule length_filter_groups) simp_all
  also have "length (filter ?Q ?rs) = length (filter (\<lambda>r. counted_row (su_since su (max 1 window)) r \<and> ?Q (group_of r)) rows)"
    by (simp add: filter_map comp_def conj_commute)
  finally show ?thesis by (simp add: group_of_def)
qed

lemma sum_pos_iff: "(\<And>p. 0 \<le> (f p :: int)) \<Longrightarrow> 0 < sum_list (map f ps) \<longleftrightarrow> (\<exists>p \<in> set ps. 0 < f p)"
proof (induction ps)
  case (Cons p ps)
  have "0 \<le> sum_list (map f ps)" by (intro sum_list_nonneg) (use Cons.prems in auto)
  then show ?case using Cons.IH [OF Cons.prems] Cons.prems [of p] by auto
qed simp

text \<open> Shares are fractions of one whole. With positive weights, the targets of the providers are
  positive and sum to one, what they served sums to one as soon as any of them served, and so
  the deficits sum to zero then and to one on a cold start.\<close>

theorem shares_sum_to_one:
  assumes "\<forall>(p, w) \<in> set weights. 0 < w" and "weights \<noteq> []" and "providers \<noteq> []"
  shows "let ps = remdups providers; sh = (\<lambda>p. the (share_targets weights providers counts p)) in
    (\<forall>p \<in> set ps. share_targets weights providers counts p \<noteq> None \<and> 0 < sh_target (sh p) \<and> sh_target (sh p) \<le> 1 \<and> 0 \<le> sh_actual (sh p) \<and> sh_actual (sh p) \<le> 1)
    \<and> (\<Sum>p\<leftarrow>ps. sh_target (sh p)) = 1
    \<and> (\<Sum>p\<leftarrow>ps. sh_actual (sh p)) = (if \<exists>p \<in> set ps. 0 < served_of counts p then 1 else 0)"
proof -
  let ?ps = "remdups providers" and ?w = "weight_of (map_of (rev weights))"
  let ?t = "sum_list (map ?w ?ps)" and ?n = "sum_list (map (served_of counts) ?ps)"
  have w: "0 < ?w p" for p by (rule positive_weight [OF assms(1)])
  have q: "hd providers \<in> set ?ps" using assms(3) by simp
  have "?w (hd providers) \<le> ?t" by (rule part_of_sum [OF _ q]) (use w less_imp_le in blast)
  with w [of "hd providers"] have t: "0 < ?t" by linarith
  have sh: "share_targets weights providers counts p = Some \<lparr>sh_target = ?w p / ?t,
      sh_actual = (if 0 < ?n then of_int (served_of counts p) / of_int ?n else 0)\<rparr>" if "p \<in> set ?ps" for p
    using that t assms(2,3) by (auto simp: share_targets_def Let_def)
  have "(\<Sum>p\<leftarrow>?ps. sh_target (the (share_targets weights providers counts p))) = (\<Sum>p\<leftarrow>?ps. ?w p / ?t)"
    by (intro arg_cong [where f = sum_list] map_cong refl) (simp add: sh)
  with t have 1: "(\<Sum>p\<leftarrow>?ps. sh_target (the (share_targets weights providers counts p))) = 1" by (simp add: sum_div)
  have pos: "0 < ?n \<longleftrightarrow> (\<exists>p \<in> set ?ps. 0 < served_of counts p)"
    by (rule sum_pos_iff) (simp add: served_of_def)
  have ints: "sum_list (map (\<lambda>p. of_int (served_of counts p) :: rat) ps) = of_int (sum_list (map (served_of counts) ps))" for ps
    by (induction ps) simp_all
  have "(\<Sum>p\<leftarrow>?ps. sh_actual (the (share_targets weights providers counts p))) = (\<Sum>p\<leftarrow>?ps. if 0 < ?n then of_int (served_of counts p) / of_int ?n else 0)"
    by (intro arg_cong [where f = sum_list] map_cong refl) (simp add: sh)
  then have 2: "(\<Sum>p\<leftarrow>?ps. sh_actual (the (share_targets weights providers counts p))) = (if 0 < ?n then 1 else 0)"
    by (auto simp: sum_div ints)
  show ?thesis
    using 1 2 sh share_bounds [OF assms(1)] unfolding pos Let_def by fastforce
qed

subsection \<open>A configuration the properties apply to\<close>

text \<open>Two idle finders; the first listed is \<open>openai\<close>, the declared share prefers \<open>xai\<close> three to one.\<close>

definition sample_entry :: "string \<Rightarrow> entry" where
  "sample_entry p = \<lparr>rw_name = p, rw_provider = p, rw_model = ''m'', rw_effort = None, rw_fallbacks = [], rw_quota_pool = None,
     rw_max_diff_bytes = None, rw_role = ''finder'', rw_enabled = True\<rparr>"

definition sample_config :: "(string \<times> rat) list \<Rightarrow> string list \<Rightarrow> config" where
  "sample_config weights names = \<lparr>cf_reviewers = [sample_entry ''openai'', sample_entry ''xai''],
     cf_routing = \<lparr>ro_mode = ''auto'', ro_pool = names, ro_cross = True, ro_weights = weights, ro_window = 7\<rparr>\<rparr>"

definition sample_around :: surroundings where
  "sample_around = \<lparr>su_adapter = (\<lambda>_. Some \<lparr>af_eligible = None, af_limit = None\<rparr>), su_registered = (\<lambda>_. True),
     su_adapter_name = (\<lambda>p. Some p), su_bypass = None, su_now = ''2026-01-02T03:04:05Z'', su_outages = [], su_num = Map.empty,
     su_env = Map.empty, su_spend = no_spend, su_admissions = [], su_max = 1, su_reviews = Some [],
     su_since = (\<lambda>_. ''2025-12-26T03:04:05Z'')\<rparr>"

lemma sample_routed:
  "auto_route (sample_config [(''xai'', 3), (''openai'', 1)] []) sample_around None [] None = Some (sample_entry ''xai'', Free_share)"
  by code_simp

lemma sample_unweighted:
  "auto_route (sample_config [] []) sample_around None [] None = Some (sample_entry ''openai'', Free)"
  by code_simp

text \<open>An explicit pool in another order than the table's: idle, unweighted, without a family, \<open>auto\<close> is not \<open>off\<close>.\<close>

lemma explicit_pool_leads:
  "auto_route (sample_config [] [''xai'', ''openai'']) sample_around None [] None = Some (sample_entry ''xai'', Free)"
  "default_head (sample_config [] [''xai'', ''openai'']) = Inr (sample_entry ''openai'')"
  by code_simp+

theorem free_slot_wins_witness:
  "rw_enabled (sample_entry ''xai'') \<and> rw_provider (sample_entry ''xai'') \<notin> set []"
  using free_slot_wins [OF sample_routed] by (simp add: sample_config_def)

definition sample_loads :: "string \<Rightarrow> load option" where
  "sample_loads = [''openai'' \<mapsto> \<lparr>ld_free = 1, ld_queue = 0, ld_unavailable = False\<rparr>,
     ''xai'' \<mapsto> \<lparr>ld_free = 1, ld_queue = 0, ld_unavailable = False\<rparr>]"

lemma sample_pools: "pool_of (sample_entry ''openai'') = Some ''openai''" "pool_of (sample_entry ''xai'') = Some ''xai''"
  by code_simp+

lemma sample_provider_loads:
  "provider_loads sample_around None (resolve_pool (sample_config [] [])) Map.empty = Some sample_loads"
proof -
  have pool: "resolve_pool (sample_config [] []) = [sample_entry ''openai'', sample_entry ''xai'']"
    by (simp add: resolve_pool_def sample_config_def sample_entry_def)
  have loads: "load_of sample_around None (sample_entry p) p = \<lparr>ld_free = 1, ld_queue = 0, ld_unavailable = False\<rparr>"
    if "p \<in> {''openai'', ''xai''}" for p using that by (elim insertE emptyE) (simp only:, code_simp)+
  show ?thesis by (simp add: pool sample_pools loads sample_loads_def)
qed

theorem argmax_is_first_best_witness:
  "argmax (\<lambda>e l. ld_free l) sample_loads [sample_entry ''openai'', sample_entry ''xai''] =
     Some (first_best (\<lambda>(e, l). ld_free l) (candidates sample_loads [sample_entry ''openai'', sample_entry ''xai'']))"
  using argmax_is_first_best [of "[sample_entry ''openai'', sample_entry ''xai'']" "\<lambda>e l. ld_free l" sample_loads]
  by (simp add: sample_pools)

theorem unknown_family_is_inert_witness:
  "auto_route (sample_config [] []) sample_around (Some ''openia'') [] None = Some (sample_entry ''openai'', Free)"
proof -
  have "\<forall>e \<in> set (resolve_pool (sample_config [] [])). provider_family (rw_provider e) \<noteq> ''openia''" by code_simp
  from unknown_family_is_inert [OF this] sample_unweighted show ?thesis by simp
qed

theorem labels_are_causal_witness:
  "(Free_cross \<in> {Free, Wait} \<longleftrightarrow> (\<exists>e' r'. pick_finder [sample_entry ''openai'', sample_entry ''xai''] sample_loads None False None
      = Some (Some (e', r')) \<and> rw_name e' = rw_name (sample_entry ''xai'')))
   \<and> pick_finder [sample_entry ''openai'', sample_entry ''xai''] sample_loads (Some ''openai'') True None
      = Some (Some (sample_entry ''xai'', Free_cross))"
proof -
  have pick: "pick_finder [sample_entry ''openai'', sample_entry ''xai''] sample_loads (Some ''openai'') True None
      = Some (Some (sample_entry ''xai'', Free_cross))" by code_simp
  from labels_are_causal [OF pick] pick show ?thesis by (simp add: sample_pools)
qed

theorem automatic_head_stays_in_pool_witness:
  "sample_entry ''xai'' \<in> set (resolve_pool (sample_config [] [''xai'']))"
proof -
  have head: "resolve_review_head (sample_config [] [''xai'']) (sample_around\<lparr>su_registered := (\<lambda>_. False)\<rparr>) None None [] None =
      Inr (sample_entry ''xai'', \<lparr>au_requested = None, au_routed = ''xai'', au_reason = Default_finder, au_family = None, au_pool = None\<rparr>)"
    by code_simp
  have "ro_mode (cf_routing (sample_config [] [''xai''])) = ''auto''" "ro_pool (cf_routing (sample_config [] [''xai''])) \<noteq> []"
    by (simp_all add: sample_config_def)
  moreover have "resolve_pool (sample_config [] [''xai'']) \<noteq> []" by code_simp
  ultimately show ?thesis using automatic_head_stays_in_pool [OF head] by simp
qed

theorem idle_auto_is_off_witness:
  "Inr (map_option fst (auto_route (sample_config [] []) sample_around None [] None)) =
     map_sum id Some (default_head (sample_config [] []))"
proof (rule idle_auto_is_off [OF _ _ _ _ sample_provider_loads])
  show "\<forall>e \<in> set (resolve_pool (sample_config [] [])). routable (sample_config [] []) [] e"
    "\<forall>e \<in> set (resolve_pool (sample_config [] [])). available sample_loads e" "resolve_pool (sample_config [] []) \<noteq> []"
    by code_simp+
  show "\<forall>k l k' l'. sample_loads k = Some l \<and> sample_loads k' = Some l' \<longrightarrow> ld_free l = ld_free l' \<and> ld_queue l = ld_queue l'"
    by (simp add: sample_loads_def)
qed (simp_all add: sample_config_def)

theorem served_counts_answers_witness:
  "the (provider_served sample_around [''xai''] 7) ''xai'' = Some 0"
proof -
  obtain m where m: "provider_served sample_around [''xai''] 7 = Some m"
    by (auto simp: provider_served_def sample_around_def Let_def)
  have "su_reviews sample_around = Some []" by (simp add: sample_around_def)
  from served_counts_answers [OF m this, of "''xai''"] m show ?thesis by simp
qed

theorem shares_sum_to_one_witness:
  "(\<Sum>p\<leftarrow>remdups [''openai'', ''xai'']. sh_target (the (share_targets [(''xai'', 3), (''openai'', 1)] [''openai'', ''xai''] Map.empty p))) = 1"
  using shares_sum_to_one [of "[(''xai'', 3), (''openai'', 1)]" "[''openai'', ''xai'']" Map.empty] by (simp add: Let_def)

end
