(* ===== verification/Delivery.thy ===== *)
theory Delivery
  imports Triage Reviews
begin

section \<open>Delivery: which background rounds a reader has been shown\<close>

text \<open>
  Models \<open>delivery.py\<close>, the round context of \<open>roundctx.py\<close> it prints, and the order of rendering,
  writing and acknowledging in \<open>_cmd_surface\<close> of \<open>cli.py\<close>. A record is the dictionary the renderer
  reads; \<open>readable\<close> says of which rows the stored artifact decodes to a dictionary. The one
  character outside Latin-1, the dash of \<open>NO_REVIEW_LINE\<close>, is written as the bytes of its UTF-8
  text. The JSON envelope of the \<open>claude\<close> format only wraps the body and is not modelled.
\<close>

subsection \<open>Constants\<close>

definition no_review_line :: string where
  "no_review_line = ''NO REVIEW HAPPENED '' @ [CHR 0xE2, CHR 0x80, CHR 0x94]
     @ '' this round reports nothing because it said nothing, not because it found nothing''"

definition incomplete_warning :: string where
  "incomplete_warning = ''INCOMPLETE REVIEW -- this round did not finish and cannot certify ''
     @ ''anything; what follows is partial evidence, not a clean bill of health''"

definition terminal_statuses :: "string list" where
  "terminal_statuses = [''clean'', ''degraded'', ''failed'', ''superseded'']"

definition channels :: "string list" where
  "channels = [''cli-text'', ''cli-claude'', ''mcp'', ''quiet'']"

definition quiet_channel :: string where "quiet_channel = ''quiet''"

definition max_findings_shown :: nat where "max_findings_shown = 10"

definition footer :: string where
  "footer = ''skodun surface: nothing above certifies the current change -- run `skodun gate` for that''"

subsection \<open>Reading the rounds\<close>

record delivery =
  dl_review :: string
  dl_at :: string
  dl_channel :: string

definition delivered :: "delivery list \<Rightarrow> row \<Rightarrow> delivery option" where
  "delivered led r = tbl_find dl_review (r_id r) led"

definition eligible :: "string \<Rightarrow> string \<Rightarrow> row \<Rightarrow> bool" where
  "eligible repo branch r \<longleftrightarrow> col r ''repo'' = PStr repo \<and> col r ''branch'' = PStr branch \<and> col r ''mode'' = PStr prepush
     \<and> col r ''source'' = PStr skodun_source \<and> col r ''status'' \<in> PStr ` set terminal_statuses"

definition text_of :: "pyval \<Rightarrow> string" where
  "text_of v = (case v of PStr s \<Rightarrow> s | _ \<Rightarrow> [])"

definition index_record :: "row \<Rightarrow> pydict" where
  "index_record r = [(''id'', PStr (r_id r)), (''status'', col r ''status''), (''reviewed_at'', col r ''reviewed_at''),
     (''branch'', col r ''branch''), (''head'', col r ''head''), (''base_ref'', col r ''base_ref''),
     (''base_sha'', col r ''base_sha''), (''diff_hash'', col r ''diff_hash''), (''context_hash'', col r ''context_hash''),
     (''mode'', col r ''mode''), (''model'', col r ''model''), (''adapter'', col r ''adapter''),
     (''parse_ok'', PBool (truthy (col r ''parse_ok''))), (''degraded'', PBool (truthy (col r ''degraded''))),
     (''diff_truncated'', PBool (truthy (col r ''diff_truncated''))), (''trustworthy'', PBool (truthy (col r ''trustworthy''))),
     (''stop_reason'', col r ''stop_reason''), (''findings_total'', col r ''findings_total''), (''findings'', PList []),
     (''severity'', PDict [(''high'', col r ''sev_high''), (''medium'', col r ''sev_medium''), (''low'', col r ''sev_low'')]),
     (''summary'', col r ''summary''), (''source'', col r ''source''), (''superseded_by'', col r ''superseded_by'')]"

definition record_of :: "(row \<Rightarrow> bool) \<Rightarrow> delivery list \<Rightarrow> row \<Rightarrow> pydict" where
  "record_of readable led r =
     (let rec = (if \<not> readable r then dset ''artifact_unreadable'' (PBool True) (index_record r)
          else dset ''status'' (col r ''status'') (dset ''id'' (PStr (r_id r)) (dict_update (index_record r) (r_art r)))) in
      case delivered led r of None \<Rightarrow> rec
      | Some d \<Rightarrow> dset ''delivery'' (PDict [(''delivered_at'', PStr (dl_at d)), (''channel'', PStr (dl_channel d))]) rec)"

text \<open>\<open>_query\<close>: by \<open>reviewed_at\<close>, then \<open>id\<close>.\<close>

definition round_rows :: "delivery list \<Rightarrow> row list \<Rightarrow> string \<Rightarrow> string \<Rightarrow> bool \<Rightarrow> row list" where
  "round_rows led rows branch repo include =
     sort_key (\<lambda>r. text_of (col r ''reviewed_at'')) (sort_key r_id
       (filter (\<lambda>r. eligible repo branch r \<and> (include \<or> delivered led r = None)) rows))"

definition query_rounds :: "(row \<Rightarrow> bool) \<Rightarrow> delivery list \<Rightarrow> row list \<Rightarrow> string \<Rightarrow> string \<Rightarrow> bool \<Rightarrow> pydict list" where
  "query_rounds readable led rows branch repo include = map (record_of readable led) (round_rows led rows branch repo include)"

definition undelivered :: "(row \<Rightarrow> bool) \<Rightarrow> delivery list \<Rightarrow> row list \<Rightarrow> string \<Rightarrow> string \<Rightarrow> pydict list" where
  "undelivered readable led rows branch repo = query_rounds readable led rows branch repo False"

subsection \<open>The signal\<close>

definition has_usable_output :: "pydict \<Rightarrow> bool" where
  "has_usable_output rec =
     (case dget rec ''usable_output'' of PBool b \<Rightarrow> b
      | _ \<Rightarrow> truthy (dget rec ''parse_ok'') \<or> 0 < coerce_count (dget rec ''findings_total''))"

definition trustworthy_rec :: "pydict \<Rightarrow> bool" where
  "trustworthy_rec rec \<longleftrightarrow> dget rec ''trustworthy'' = PBool True"

definition has_evidence :: "pydict \<Rightarrow> bool" where
  "has_evidence rec =
     (if (case dget rec ''findings'' of PList (_ # _) \<Rightarrow> True | _ \<Rightarrow> False) then True
      else (case dget rec ''findings_total'' of PNone \<Rightarrow> False | PInt n \<Rightarrow> 0 < n | _ \<Rightarrow> True))"

datatype presentation = Superseded | No_output | Incomplete | Findings | Quiet

definition classify_round :: "pydict \<Rightarrow> presentation" where
  "classify_round rec =
     (if dget rec ''status'' = PStr ''superseded'' then Superseded
      else if \<not> has_usable_output rec then (if has_evidence rec then Incomplete else No_output)
      else if \<not> trustworthy_rec rec then Incomplete
      else if has_evidence rec then Findings else Quiet)"

subsection \<open>The presentations\<close>

abbreviation field :: "pydict \<Rightarrow> string \<Rightarrow> string" where
  "field rec k \<equiv> shown_field (dget rec k)"

definition head_prefix :: "pydict \<Rightarrow> string" where
  "head_prefix rec = ''  - '' @ field rec ''reviewed_at'' @ '' '' @ field rec ''id'' @ '' (head '' @ take 9 (field rec ''head'') @ '')''
     @ (case dget rec ''delivery'' of
          PDict d \<Rightarrow> '' [delivered '' @ field d ''delivered_at'' @ '' via '' @ field d ''channel'' @ '']'' | _ \<Rightarrow> [])"

definition own_words :: "pydict \<Rightarrow> string \<Rightarrow> string" where
  "own_words rec name = strip (one_line (dget rec name))"

definition reason_lines :: "pydict \<Rightarrow> string list" where
  "reason_lines rec =
     (let given = map (\<lambda>name. ''      '' @ name @ '': '' @ shown_field (PStr (own_words rec name)))
            (filter (\<lambda>name. own_words rec name \<noteq> []) [''degraded_reason'', ''failure_reason'']) in
      if given = [] then [''      reason: this round recorded no reason for not finishing''] else given)"

definition stack_line :: "pydict \<Rightarrow> string list" where
  "stack_line rec =
     (case dget rec ''stack'' of
        PDict stack \<Rightarrow>
          (let status = field stack ''status''; why = field stack ''reason_code'' in
           if status = [] then []
           else [''      stack: '' @ status @ (if why = [] then [] else '' reason='' @ why)
             @ (if dget rec ''stack_context_truncated'' = PBool True then '' context=truncated'' else [])
             @ (if dget rec ''lineage_context_truncated'' = PBool True then '' lineage=truncated'' else [])])
      | _ \<Rightarrow> if dget rec ''lineage_context_truncated'' = PBool True then [''      lineage: truncated''] else [])"

definition annotation :: "pydict \<Rightarrow> string \<Rightarrow> string \<Rightarrow> string \<Rightarrow> string list" where
  "annotation f key inner label =
     (case dget f key of PDict d \<Rightarrow> if field d inner = [] then [] else [label @ field d inner] | _ \<Rightarrow> [])"

definition finding_line :: "nat \<Rightarrow> pyval \<Rightarrow> string" where
  "finding_line i v =
     (let f = as_dict v;
          notes = annotation f ''scope_attribution'' ''scope'' ''scope='' @ annotation f ''finding_lineage_v2'' ''match_reason'' ''lineage='' in
      ''      ['' @ show_nat i @ ''] '' @ field f ''severity'' @ '' '' @ field f ''file'' @ '':'' @ field f ''line'' @ '' '' @ field f ''title''
        @ (if notes = [] then [] else '' '' @ join '' '' notes))"

definition findings_lines :: "pydict \<Rightarrow> string list" where
  "findings_lines rec =
     (let findings = as_list (dget rec ''findings'') in
      (if own_words rec ''summary'' = [] then [] else [''      summary: '' @ shown_field (PStr (own_words rec ''summary''))])
      @ (if dget rec ''artifact_unreadable'' = PBool True
         then [''      note: this round's stored artifact could not be read, so only its indexed summary is shown''] else [])
      @ stack_line rec
      @ map (\<lambda>(i, f). finding_line i f) (List.enumerate 0 (take max_findings_shown findings))
      @ (if max_findings_shown < length findings
         then [''      ... and '' @ show_nat (length findings - max_findings_shown) @ '' more finding(s) not shown''] else [])
      @ [''      see: skodun triage --list '' @ field rec ''id''])"

definition severity_phrase :: "pydict \<Rightarrow> string" where
  "severity_phrase rec =
     (let sev = as_dict (dget rec ''severity''); n = (\<lambda>k. show_int (coerce_count (dget sev k))) in
      n ''high'' @ '' high / '' @ n ''medium'' @ '' medium / '' @ n ''low'' @ '' low'')"

definition count_phrase :: "pydict \<Rightarrow> string" where
  "count_phrase rec =
     (case dget rec ''findings_total'' of PNone \<Rightarrow> ''0 finding(s)'' | PInt n \<Rightarrow> show_int n @ '' finding(s)''
      | _ \<Rightarrow> ''an unreadable number of finding(s)'')"

text \<open>\<open>round_lines\<close>; \<open>ctx\<close> is the line of the round context, if there is one.\<close>

definition round_lines :: "pydict \<Rightarrow> string list \<Rightarrow> string list" where
  "round_lines rec ctx =
     (case classify_round rec of
        Quiet \<Rightarrow> []
      | Superseded \<Rightarrow>
          (let by = own_words rec ''superseded_by'';
               tail = (if by = [] then ''superseded by a newer push, which did not record its id''
                       else ''superseded by '' @ shown_field (PStr by)) in
           (head_prefix rec @ '': '' @ tail @ ''; read that round instead of this one'') # ctx
           @ (if has_usable_output rec \<or> has_evidence rec
              then (''      '' @ incomplete_warning) # reason_lines rec @ findings_lines rec else []))
      | No_output \<Rightarrow> (head_prefix rec @ '': '' @ no_review_line) # ctx @ reason_lines rec
      | Incomplete \<Rightarrow> (head_prefix rec @ '': '' @ incomplete_warning) # ctx @ reason_lines rec @ findings_lines rec
      | Findings \<Rightarrow> (head_prefix rec @ '': '' @ count_phrase rec @ '' -- '' @ severity_phrase rec) # ctx @ findings_lines rec)"

definition header :: "string \<Rightarrow> nat \<Rightarrow> bool \<Rightarrow> string" where
  "header branch count include =
     (if include then ''skodun surface: '' @ show_nat count @ '' background review round(s) on branch ''
          @ shown_field (PStr branch) @ '', previously delivered ones included''
      else ''skodun surface: '' @ show_nat count @ '' undelivered background review round(s) on branch ''
          @ shown_field (PStr branch) @ '' -- each ran after `git push` returned, so nobody has seen it'')"

subsection \<open>The context of a round\<close>

text \<open>\<open>list_reviews(branch, limit, repo)\<close>. SQL leaves the order of equal times open; here the row stored
  later comes first.\<close>

definition list_reviews :: "row list \<Rightarrow> string \<Rightarrow> nat \<Rightarrow> string option \<Rightarrow> row list" where
  "list_reviews rows branch limit repo =
     take limit (rev (sort_key (\<lambda>r. text_of (col r ''reviewed_at''))
       (filter (\<lambda>r. col r ''branch'' = PStr branch \<and> (case repo of None \<Rightarrow> True | Some p \<Rightarrow> col r ''repo'' = PStr p)) rows)))"

record round_context =
  rc_ordinal :: nat
  rc_total :: nat
  rc_triaged :: nat

definition round_context_line :: "round_context \<Rightarrow> string" where
  "round_context_line c = ''round: review '' @ show_nat (rc_ordinal c) @ '' of '' @ show_nat (rc_total c)
     @ '' on this branch; '' @ show_nat (rc_triaged c) @ '' finding(s) already triaged in earlier rounds''"

text \<open>\<open>round_context_for_review\<close>; \<open>None\<close> also where an artifact among those listed does not decode, which
  \<open>_round_context_lines\<close> swallows.\<close>

definition round_context_for_review :: "row list \<Rightarrow> (row \<Rightarrow> bool) \<Rightarrow> ledger \<Rightarrow> pydict \<Rightarrow> round_context option" where
  "round_context_for_review rows readable l rec =
     (case (dget rec ''branch'', dget rec ''id'') of
        (PStr branch, PStr rid) \<Rightarrow>
          if branch = [] then None
          else
            let repo = (case dget rec ''repo'' of PStr p \<Rightarrow> if p = [] then None else Some p | _ \<Rightarrow> None);
                listed = list_reviews rows branch 500 repo in
            if list_ex (\<lambda>r. \<not> readable r) listed then None
            else
              let ids = rev (map (\<lambda>a. text_of (dget a ''id''))
                    (filter (\<lambda>a. dget a ''status'' \<in> PStr ` set terminal_statuses \<and> is_str (dget a ''id'')) (map r_art listed)));
                  before = takeWhile (\<lambda>i. i \<noteq> rid) ids in
              if before = ids
              then Some \<lparr>rc_ordinal = length ids + 1, rc_total = length ids + 1, rc_triaged = count_triaged_on_reviews l branch ids\<rparr>
              else Some \<lparr>rc_ordinal = length before + 1, rc_total = length ids, rc_triaged = count_triaged_on_reviews l branch before\<rparr>
      | _ \<Rightarrow> None)"

definition round_context_lines :: "row list \<Rightarrow> (row \<Rightarrow> bool) \<Rightarrow> ledger \<Rightarrow> pydict \<Rightarrow> string list" where
  "round_context_lines rows readable l rec =
     (case round_context_for_review rows readable l rec of None \<Rightarrow> [] | Some c \<Rightarrow> [''      '' @ round_context_line c])"

subsection \<open>The ledger\<close>

datatype surface_error = Unknown_format | Unknown_channel | Not_an_id | Bad_time | Refused_write

definition channel_for_format :: "string \<Rightarrow> surface_error + string" where
  "channel_for_format fmt = (if fmt = ''text'' then Inr ''cli-text'' else if fmt = ''claude'' then Inr ''cli-claude'' else Inl Unknown_format)"

definition insert_delivery :: "string \<Rightarrow> string \<Rightarrow> string \<Rightarrow> delivery list \<Rightarrow> delivery list" where
  "insert_delivery stamp channel rid led =
     (if tbl_find dl_review rid led \<noteq> None then led
      else led @ [\<lparr>dl_review = rid, dl_at = stamp, dl_channel = channel\<rparr>])"

definition insert_deliveries :: "string list \<Rightarrow> string \<Rightarrow> string \<Rightarrow> delivery list \<Rightarrow> delivery list" where
  "insert_deliveries ids stamp channel led = fold (insert_delivery stamp channel) ids led"

text \<open>\<open>acknowledge\<close>: each insert is its own statement, and \<open>refused_at = Some k\<close> says that the store takes
  no write after the first \<open>k\<close>.\<close>

definition acknowledge :: "string list \<Rightarrow> string \<Rightarrow> string \<Rightarrow> nat option \<Rightarrow> delivery list \<Rightarrow> (surface_error + nat) \<times> delivery list" where
  "acknowledge ids channel stamp refused_at led =
     (if channel \<notin> set channels then (Inl Unknown_channel, led)
      else if [] \<in> set ids then (Inl Not_an_id, led)
      else if ids = [] then (Inr 0, led)
      else if \<not> is_canonical_ts (PStr stamp) then (Inl Bad_time, led)
      else (case refused_at of
          None \<Rightarrow> let led' = insert_deliveries ids stamp channel led in (Inr (length led' - length led), led')
        | Some k \<Rightarrow> if length ids \<le> k then (let led' = insert_deliveries ids stamp channel led in (Inr (length led' - length led), led'))
            else (Inl Refused_write, insert_deliveries (take k ids) stamp channel led)))"

definition acknowledge_quiet :: "string list \<Rightarrow> string \<Rightarrow> nat option \<Rightarrow> delivery list \<Rightarrow> delivery list" where
  "acknowledge_quiet ids stamp refused_at led = (if ids = [] then led else snd (acknowledge ids quiet_channel stamp refused_at led))"

subsection \<open>One pass\<close>

text \<open>The rounds of a pass with what each renders.\<close>

definition rendered_rounds ::
    "(row \<Rightarrow> bool) \<Rightarrow> ledger \<Rightarrow> delivery list \<Rightarrow> row list \<Rightarrow> string \<Rightarrow> string \<Rightarrow> bool \<Rightarrow> (pydict \<times> string list) list" where
  "rendered_rounds readable l led rows branch repo include =
     map (\<lambda>rec. (rec, round_lines rec (round_context_lines rows readable l rec))) (query_rounds readable led rows branch repo include)"

definition id_of :: "pydict \<Rightarrow> string" where "id_of rec = text_of (dget rec ''id'')"

definition quiet_ids :: "(pydict \<times> string list) list \<Rightarrow> string list" where
  "quiet_ids rs = map (\<lambda>(rec, _). id_of rec) (filter (\<lambda>(rec, ls). id_of rec \<noteq> [] \<and> ls = []) rs)"

definition pending_ids :: "(pydict \<times> string list) list \<Rightarrow> string list" where
  "pending_ids rs = map (\<lambda>(rec, _). id_of rec) (filter (\<lambda>(rec, ls). id_of rec \<noteq> [] \<and> ls \<noteq> []) rs)"

definition body_of :: "string \<Rightarrow> bool \<Rightarrow> (pydict \<times> string list) list \<Rightarrow> string" where
  "body_of branch include rs =
     (let ls = concat (map snd rs) in
      if ls = [] then [] else join [LF] (header branch (length (pending_ids rs)) include # ls @ [footer]) @ [LF])"

text \<open>\<open>surface\<close>: the body, the ids to acknowledge after the write, and the ledger with the quiet rounds. The
  acknowledgement of the quiet rounds is best effort.\<close>

definition surface ::
    "(row \<Rightarrow> bool) \<Rightarrow> ledger \<Rightarrow> row list \<Rightarrow> string \<Rightarrow> string \<Rightarrow> string \<Rightarrow> bool \<Rightarrow> string \<Rightarrow> nat option \<Rightarrow> delivery list
      \<Rightarrow> (surface_error + string \<times> string list) \<times> delivery list" where
  "surface readable l rows branch repo fmt include stamp refused_at led =
     (if fmt \<notin> {''text'', ''claude''} then (Inl Unknown_format, led)
      else
        let rs = rendered_rounds readable l led rows branch repo include;
            led' = acknowledge_quiet (quiet_ids rs) stamp refused_at led;
            body = body_of branch include rs in
        (Inr (if body = [] then ([], []) else (body, pending_ids rs)), led'))"

text \<open>\<open>_cmd_surface\<close> from the open store on: what \<open>surface\<close> gave, whether the write landed, and the
  acknowledgement, on a ledger \<open>led\<close> that others may have changed since. The exit code and the ledger.\<close>

definition after_surface ::
    "surface_error + string \<times> string list \<Rightarrow> string \<Rightarrow> bool \<Rightarrow> string \<Rightarrow> nat option \<Rightarrow> delivery list \<Rightarrow> nat \<times> delivery list" where
  "after_surface result fmt emitted stamp refused_at led =
     (case result of Inl _ \<Rightarrow> (2, led)
      | Inr (text, pending) \<Rightarrow>
          if text = [] then (0, led)
          else if \<not> emitted then (2, led)
          else if pending = [] then (0, led)
          else (case channel_for_format fmt of Inl _ \<Rightarrow> (2, led)
              | Inr channel \<Rightarrow>
                  (case acknowledge pending channel stamp refused_at led of (Inl _, led') \<Rightarrow> (2, led') | (Inr _, led') \<Rightarrow> (0, led'))))"

text \<open>The MCP transport's half of the contract: its answer carries the report, and \<open>_respond_tool\<close> acknowledges the rounds in
  it, under its own channel, once the line has been written; whatever the ledger refuses is swallowed by \<open>_ack\<close>.\<close>

definition mcp_channel :: string where "mcp_channel = ''mcp''"

definition mcp_respond :: "string list \<Rightarrow> bool \<Rightarrow> string \<Rightarrow> nat option \<Rightarrow> delivery list \<Rightarrow> delivery list" where
  "mcp_respond pending_acks written stamp refused_at led =
     (if written \<and> pending_acks \<noteq> [] then snd (acknowledge pending_acks mcp_channel stamp refused_at led) else led)"

subsection \<open>Nothing a model wrote can forge a line\<close>

lemma flat_shown [simp]: "flat (shown_field v)"
  using shown_field_safe [of v] by (simp add: flat_def)

lemma flat_constants [simp]: "flat no_review_line" "flat incomplete_warning" "flat footer"
  by code_simp+

lemma flat_prefix [simp]: "flat (head_prefix rec)"
  by (auto simp: head_prefix_def is_line_end_def flat_take split: pyval.split)

lemma flat_reason: "l \<in> set (reason_lines rec) \<Longrightarrow> flat l"
  by (auto simp: reason_lines_def Let_def is_line_end_def split: if_splits)

lemma flat_stack: "l \<in> set (stack_line rec) \<Longrightarrow> flat l"
  by (auto simp: stack_line_def Let_def is_line_end_def split: pyval.splits if_splits)

lemma flat_annotation: "l \<in> set (annotation f key inner label) \<Longrightarrow> flat label \<Longrightarrow> flat l"
  by (auto simp: annotation_def split: pyval.splits if_splits)

lemma flat_finding [simp]: "flat (finding_line i v)"
proof -
  have "flat ''scope=''" "flat ''lineage=''" "flat '' ''" by (simp_all add: is_line_end_def)
  then have "flat (join '' '' (annotation f ''scope_attribution'' ''scope'' ''scope='' @ annotation f ''finding_lineage_v2'' ''match_reason'' ''lineage=''))" for f
    by (intro flat_join) (auto dest: flat_annotation)
  then show ?thesis by (simp add: finding_line_def Let_def is_line_end_def)
qed

lemma flat_findings: "l \<in> set (findings_lines rec) \<Longrightarrow> flat l"
  by (auto simp: findings_lines_def Let_def is_line_end_def dest: flat_stack split: if_splits)

lemma flat_count [simp]: "flat (count_phrase rec)" "flat (severity_phrase rec)"
  by (simp_all add: count_phrase_def severity_phrase_def Let_def is_line_end_def split: pyval.split)

lemma flat_round:
  assumes "\<forall>c \<in> set ctx. flat c" and "l \<in> set (round_lines rec ctx)"
  shows "flat l"
  using assms
  by (auto simp: round_lines_def Let_def is_line_end_def dest: flat_reason flat_findings split: presentation.splits if_splits)

lemma flat_context: "l \<in> set (round_context_lines rows readable ld rec) \<Longrightarrow> flat l"
  by (auto simp: round_context_lines_def round_context_line_def is_line_end_def split: option.splits)

lemma flat_header [simp]: "flat (header branch n include)"
  by (simp add: header_def is_line_end_def)

text \<open> Nothing a model wrote can forge a line of the report. Whatever the stored records contain, the
  report of a pass, read line by line, is its header, the lines of its rounds in order, and the
  footer that says it certifies nothing.\<close>

theorem lines_cannot_be_forged:
  assumes "surface readable l rows branch repo fmt include stamp k led = (Inr (text, pending), led')" and "text \<noteq> []"
  shows "str_lines [] text = header branch (length pending) include
      # concat (map snd (rendered_rounds readable l led rows branch repo include)) @ [footer]"
proof -
  let ?rs = "rendered_rounds readable l led rows branch repo include"
  from assms have out: "text = body_of branch include ?rs" "pending = pending_ids ?rs"
    by (auto simp: surface_def Let_def split: if_splits)
  then have lines: "text = join [LF] (header branch (length pending) include # concat (map snd ?rs) @ [footer]) @ [LF]"
    using assms(2) by (auto simp: body_of_def Let_def split: if_splits)
  have "flat x" if "x \<in> set (concat (map snd ?rs))" for x
    using that by (auto simp: rendered_rounds_def intro: flat_round dest: flat_context)
  then show ?thesis unfolding lines by (intro str_lines_join) auto
qed

subsection \<open>No false clear\<close>





subsection \<open>Delivery as a machine\<close>

text \<open>Passes of both transports, the command line's (\<open>dv_finish\<close>) and the MCP server's (\<open>dv_mcp\<close>), run interleaved over one
  ledger, while the reviews change as they may. A pass is its surface result, its format, and whether its write landed. \<open>dv_shown\<close> and \<open>dv_hushed\<close> record
  what happened: the rounds of reports that were written, and the rounds a pass found quiet.\<close>

record dv_state =
  dv_led :: "delivery list"
  dv_passes :: "((surface_error + string \<times> string list) \<times> string \<times> bool) list"
  dv_shown :: "string set"
  dv_hushed :: "string set"

inductive dv_step :: "dv_state \<Rightarrow> dv_state \<Rightarrow> bool" where
  dv_surface: "surface readable l rows branch repo fmt include stamp k (dv_led s) = (result, led') \<Longrightarrow>
    dv_step s (s\<lparr>dv_led := led', dv_passes := dv_passes s @ [(result, fmt, False)],
      dv_hushed := dv_hushed s \<union> set (quiet_ids (rendered_rounds readable l (dv_led s) rows branch repo include))\<rparr>)"
| dv_emit: "i < length (dv_passes s) \<Longrightarrow> dv_passes s ! i = (Inr (text, pending), fmt, False) \<Longrightarrow>
    dv_step s (s\<lparr>dv_passes := (dv_passes s)[i := (Inr (text, pending), fmt, True)], dv_shown := dv_shown s \<union> set pending\<rparr>)"
| dv_finish: "i < length (dv_passes s) \<Longrightarrow> dv_passes s ! i = (result, fmt, emitted) \<Longrightarrow>
    after_surface result fmt emitted stamp k (dv_led s) = (rc, led') \<Longrightarrow> dv_step s (s\<lparr>dv_led := led'\<rparr>)"
| dv_mcp: "i < length (dv_passes s) \<Longrightarrow> dv_passes s ! i = (Inr (text, pending), fmt, emitted) \<Longrightarrow>
    dv_step s (s\<lparr>dv_led := mcp_respond pending emitted stamp k (dv_led s)\<rparr>)"

definition dv_start :: dv_state where
  "dv_start = \<lparr>dv_led = [], dv_passes = [], dv_shown = {}, dv_hushed = {}\<rparr>"

definition dv_ok :: "dv_state \<Rightarrow> bool" where
  "dv_ok s \<longleftrightarrow> keyed dl_review (dv_led s)
     \<and> (\<forall>d \<in> set (dv_led s). if dl_channel d = quiet_channel then dl_review d \<in> dv_hushed s else dl_review d \<in> dv_shown s)
     \<and> (\<forall>text pending fmt. (Inr (text, pending), fmt, True) \<in> set (dv_passes s) \<longrightarrow> set pending \<subseteq> dv_shown s)"

definition dv_history :: "dv_state \<Rightarrow> dv_state \<Rightarrow> bool" where
  "dv_history s s' \<longleftrightarrow> (\<exists>ds. dv_led s' = dv_led s @ ds) \<and> dv_shown s \<subseteq> dv_shown s' \<and> dv_hushed s \<subseteq> dv_hushed s'"

lemma insert_deliveries_new:
  "keyed dl_review led \<Longrightarrow> \<exists>ds. insert_deliveries ids stamp channel led = led @ ds \<and> keyed dl_review (led @ ds)
     \<and> (\<forall>d \<in> set ds. dl_channel d = channel \<and> dl_review d \<in> set ids)"
proof (induction ids arbitrary: led)
  case (Cons i ids)
  have one: "\<exists>e. insert_delivery stamp channel i led = led @ e \<and> keyed dl_review (led @ e) \<and> (\<forall>d \<in> set e. dl_channel d = channel \<and> dl_review d = i)"
    using Cons.prems by (auto simp: insert_delivery_def keyed_def tbl_find_None_iff intro: exI [of _ "[]"])
  then obtain e where e: "insert_delivery stamp channel i led = led @ e" "keyed dl_review (led @ e)"
    "\<forall>d \<in> set e. dl_channel d = channel \<and> dl_review d = i" by blast
  from Cons.IH [OF e(2)] obtain ds where "insert_deliveries ids stamp channel (led @ e) = led @ e @ ds" "keyed dl_review (led @ e @ ds)"
    "\<forall>d \<in> set ds. dl_channel d = channel \<and> dl_review d \<in> set ids" by auto
  with e show ?case by (intro exI [of _ "e @ ds"]) (auto simp: insert_deliveries_def)
qed (auto simp: insert_deliveries_def)

lemma acknowledge_new:
  assumes "keyed dl_review led" and "acknowledge ids channel stamp k led = (res, led')"
  shows "\<exists>ds. led' = led @ ds \<and> keyed dl_review led' \<and> (\<forall>d \<in> set ds. dl_channel d = channel \<and> dl_review d \<in> set ids)"
proof -
  have "led' = led \<or> (\<exists>n. led' = insert_deliveries (take n ids) stamp channel led)"
    using assms(2) by (auto simp: acknowledge_def Let_def split: if_splits option.splits intro: exI [of _ "length ids"])
  then show ?thesis
  proof
    assume "\<exists>n. led' = insert_deliveries (take n ids) stamp channel led"
    then obtain n where led: "led' = insert_deliveries (take n ids) stamp channel led" by blast
    from insert_deliveries_new [OF assms(1), of "take n ids" stamp channel] set_take_subset [of n ids] show ?thesis unfolding led by (metis subsetD)
  qed (use assms(1) in auto)
qed

lemma surface_led:
  assumes "keyed dl_review led" and "surface readable l rows branch repo fmt include stamp k led = (result, led')"
  shows "\<exists>ds. led' = led @ ds \<and> keyed dl_review led' \<and>
    (\<forall>d \<in> set ds. dl_channel d = quiet_channel \<and> dl_review d \<in> set (quiet_ids (rendered_rounds readable l led rows branch repo include)))"
proof -
  let ?q = "quiet_ids (rendered_rounds readable l led rows branch repo include)"
  from assms(2) have "led' = led \<or> led' = snd (acknowledge ?q quiet_channel stamp k led)"
    by (auto simp: surface_def acknowledge_quiet_def Let_def split: if_splits)
  then show ?thesis
  proof
    assume "led' = snd (acknowledge ?q quiet_channel stamp k led)"
    then show ?thesis using acknowledge_new [OF assms(1), of ?q quiet_channel stamp k _ led'] by (metis prod.collapse)
  qed (use assms(1) in auto)
qed

lemma after_surface_led:
  assumes "keyed dl_review led" and "after_surface result fmt emitted stamp k led = (rc, led')"
  shows "\<exists>ds. led' = led @ ds \<and> keyed dl_review led' \<and>
    (\<forall>d \<in> set ds. emitted \<and> dl_channel d \<noteq> quiet_channel \<and> (\<exists>text pending. result = Inr (text, pending) \<and> dl_review d \<in> set pending))"
proof (cases "led' = led")
  case False
  with assms(2) obtain out pending channel res where r: "result = Inr (out, pending)" "emitted" "channel_for_format fmt = Inr channel"
    "acknowledge pending channel stamp k led = (res, led')"
    by (auto simp: after_surface_def split: sum.splits if_splits prod.splits)
  moreover have "channel \<noteq> quiet_channel" using r(3) by (auto simp: channel_for_format_def quiet_channel_def split: if_splits)
  ultimately show ?thesis using acknowledge_new [OF assms(1) r(4)] by fastforce
qed (use assms(1) in auto)

lemma mcp_respond_led:
  assumes "keyed dl_review led"
  shows "\<exists>ds. mcp_respond pending emitted stamp k led = led @ ds \<and> keyed dl_review (led @ ds) \<and>
    (\<forall>d \<in> set ds. emitted \<and> dl_channel d \<noteq> quiet_channel \<and> dl_review d \<in> set pending)"
proof (cases "emitted \<and> pending \<noteq> []")
  case True
  obtain res led' where a: "acknowledge pending mcp_channel stamp k led = (res, led')" by fastforce
  have "mcp_channel \<noteq> quiet_channel" by (simp add: mcp_channel_def quiet_channel_def)
  with acknowledge_new [OF assms a] a True show ?thesis by (auto simp: mcp_respond_def)
qed (use assms in \<open>auto simp: mcp_respond_def intro: exI [of _ "[]"]\<close>)

lemma dv_step_ok: "dv_step s s' \<Longrightarrow> dv_ok s \<Longrightarrow> dv_ok s' \<and> dv_history s s'"
proof (induction rule: dv_step.induct)
  case (dv_surface readable l rows branch repo fmt inc stamp k s result led')
  then have k: "keyed dl_review (dv_led s)" by (simp add: dv_ok_def)
  from surface_led [OF k dv_surface(1)] dv_surface(2) show ?case by (fastforce simp: dv_ok_def dv_history_def)
next
  case (dv_emit i s out pending fmt)
  have "\<And>x. x \<in> set ((dv_passes s)[i := (Inr (out, pending), fmt, True)]) \<Longrightarrow> x \<in> set (dv_passes s) \<or> x = (Inr (out, pending), fmt, True)"
    using set_update_subset_insert by fastforce
  with dv_emit(3) show ?case by (fastforce simp: dv_ok_def dv_history_def)
next
  case (dv_finish i s result fmt emitted stamp k rc led')
  then have k: "keyed dl_review (dv_led s)" and mem: "(result, fmt, emitted) \<in> set (dv_passes s)" by (auto simp: dv_ok_def dest: nth_mem)
  from after_surface_led [OF k dv_finish(3)] obtain ds where ds: "led' = dv_led s @ ds" "keyed dl_review led'"
    "\<forall>d \<in> set ds. emitted \<and> dl_channel d \<noteq> quiet_channel \<and> (\<exists>text pending. result = Inr (text, pending) \<and> dl_review d \<in> set pending)" by blast
  have "dl_channel d \<noteq> quiet_channel \<and> dl_review d \<in> dv_shown s" if "d \<in> set ds" for d
  proof -
    from ds(3) that obtain out pending where d: "emitted" "dl_channel d \<noteq> quiet_channel" "result = Inr (out, pending)"
      "dl_review d \<in> set pending" by blast
    with mem have "(Inr (out, pending), fmt, True) \<in> set (dv_passes s)" by simp
    then have "set pending \<subseteq> dv_shown s" using dv_finish(4) unfolding dv_ok_def by blast
    with d show ?thesis by blast
  qed
  with ds dv_finish(4) show ?case by (auto simp: dv_ok_def dv_history_def)
next
  case (dv_mcp i s out pending fmt emitted stamp k)
  then have k: "keyed dl_review (dv_led s)" and mem: "(Inr (out, pending), fmt, emitted) \<in> set (dv_passes s)"
    by (simp_all add: dv_ok_def) (metis nth_mem)
  from mcp_respond_led [OF k, of pending emitted stamp k] obtain ds where
    ds: "mcp_respond pending emitted stamp k (dv_led s) = dv_led s @ ds" "keyed dl_review (dv_led s @ ds)"
      "\<forall>d \<in> set ds. emitted \<and> dl_channel d \<noteq> quiet_channel \<and> dl_review d \<in> set pending" by blast
  have "dl_review d \<in> dv_shown s" if "d \<in> set ds" for d
  proof -
    from ds(3) that have d: "emitted" "dl_review d \<in> set pending" by blast+
    with mem have "(Inr (out, pending), fmt, True) \<in> set (dv_passes s)" by simp
    then have "set pending \<subseteq> dv_shown s" using dv_mcp(3) unfolding dv_ok_def by blast
    with d show ?thesis by blast
  qed
  with ds dv_mcp(3) show ?case by (auto simp: dv_ok_def dv_history_def)
qed

interpretation deliveries: history_machine dv_start dv_step dv_ok dv_history
proof unfold_locales
  show "dv_ok dv_start" by (simp add: dv_ok_def dv_start_def keyed_def)
  show "dv_ok t" if "dv_ok s" "dv_step s t" for s t using dv_step_ok that by blast
  show "dv_history s s" for s by (simp add: dv_history_def)
  show "dv_history s u" if "dv_history s t" "dv_history t u" for s t u using that by (fastforce simp: dv_history_def)
  show "dv_history s t" if "dv_ok s" "dv_step s t" for s t using dv_step_ok that by blast
qed



text \<open> The ledger is a record of first deliveries. Over any run it only grows at its end, with at
  most one entry for a round, so a later acknowledgement rewrites neither the time nor the channel
  of an earlier one.\<close>

theorem first_delivery_stands:
  assumes "reachable_by dv_start dv_step s" and "dv_step\<^sup>*\<^sup>* s s'"
  shows "(\<exists>ds. dv_led s' = dv_led s @ ds) \<and> distinct (map dl_review (dv_led s'))
    \<and> (\<forall>d. tbl_find dl_review rid (dv_led s) = Some d \<longrightarrow> tbl_find dl_review rid (dv_led s') = Some d)"
proof -
  have ok: "dv_ok s" by (rule deliveries.reachable_inv [OF assms(1)])
  from deliveries.run_keeps [OF assms(2) ok] obtain ds where ds: "dv_led s' = dv_led s @ ds" by (auto simp: dv_history_def)
  have "tbl_find dl_review rid (xs @ ys) = Some d" if "tbl_find dl_review rid xs = Some d" for xs ys d
    using that by (induction xs) auto
  moreover have "keyed dl_review (dv_led s')" using deliveries.run_inv [OF assms(2) ok] by (simp add: dv_ok_def)
  ultimately show ?thesis using ds by (auto simp: keyed_def)
qed

subsection \<open>A round the properties apply to\<close>

text \<open>A trustworthy background round with one finding, whose title carries a line break and a forged line.\<close>

definition sample_round :: row where
  "sample_round = \<lparr>r_id = ''r1'',
     r_cols = [(''repo'', PStr ''/r''), (''branch'', PStr ''b''), (''mode'', PStr ''prepush''), (''source'', PStr ''skodun''),
       (''status'', PStr ''clean''), (''reviewed_at'', PStr ''2026-01-02T03:04:05Z''), (''trustworthy'', PInt 1), (''parse_ok'', PInt 1)],
     r_art = [(''usable_output'', PBool True), (''trustworthy'', PBool True), (''findings_total'', PInt 1),
       (''findings'', PList [PDict [(''title'', PStr (''x'' @ [LF] @ ''  - all clear''))]])]\<rparr>"

definition sample_pass :: "(surface_error + string \<times> string list) \<times> delivery list" where
  "sample_pass = surface (\<lambda>_. True) [] [sample_round] ''b'' ''/r'' ''text'' False ''2026-01-02T03:05:00Z'' None []"

definition sample_text :: string where
  "sample_text = body_of ''b'' False (rendered_rounds (\<lambda>_. True) [] [] [sample_round] ''b'' ''/r'' False)"

lemma sample_surface: "sample_pass = (Inr (sample_text, [''r1'']), []) \<and> sample_text \<noteq> []"
  unfolding sample_text_def by code_simp

theorem lines_cannot_be_forged_witness: "length (str_lines [] sample_text) = 6"
proof -
  have s: "surface (\<lambda>_. True) [] [sample_round] ''b'' ''/r'' ''text'' False ''2026-01-02T03:05:00Z'' None [] = (Inr (sample_text, [''r1'']), [])"
    "sample_text \<noteq> []"
    using sample_surface by (auto simp: sample_pass_def)
  have "length (concat (map snd (rendered_rounds (\<lambda>_. True) [] [] [sample_round] ''b'' ''/r'' False))) = 4" by code_simp
  with lines_cannot_be_forged [OF s] show ?thesis by simp
qed

definition sample_state :: "bool \<Rightarrow> delivery list \<Rightarrow> string set \<Rightarrow> dv_state" where
  "sample_state emitted led shown = \<lparr>dv_led = led, dv_passes = [(Inr (sample_text, [''r1'']), ''text'', emitted)], dv_shown = shown, dv_hushed = {}\<rparr>"

definition sample_entry_r1 :: delivery where
  "sample_entry_r1 = \<lparr>dl_review = ''r1'', dl_at = ''2026-01-02T03:05:00Z'', dl_channel = ''cli-text''\<rparr>"

lemma sample_passed: "dv_step dv_start (sample_state False [] {})"
proof -
  have q: "quiet_ids (rendered_rounds (\<lambda>_. True) [] [] [sample_round] ''b'' ''/r'' False) = []" by code_simp
  have "surface (\<lambda>_. True) [] [sample_round] ''b'' ''/r'' ''text'' False ''2026-01-02T03:05:00Z'' None (dv_led dv_start) =
      (Inr (sample_text, [''r1'']), [])"
    using sample_surface by (simp add: sample_pass_def dv_start_def)
  from dv_surface [where s = dv_start, OF this] show ?thesis by (simp add: dv_start_def sample_state_def q)
qed

lemma sample_written: "dv_step (sample_state False [] {}) (sample_state True [] {''r1''})"
  using dv_emit [of 0 "sample_state False [] {}" sample_text "[''r1'']" "''text''"] by (simp add: sample_state_def)

lemma sample_acknowledged: "dv_step (sample_state True [] {''r1''}) (sample_state True [sample_entry_r1] {''r1''})"
proof -
  have "acknowledge [''r1''] ''cli-text'' ''2026-01-02T03:05:00Z'' None [] = (Inr 1, [sample_entry_r1])" by code_simp
  then have "after_surface (Inr (sample_text, [''r1''])) ''text'' True ''2026-01-02T03:05:00Z'' None [] = (0, [sample_entry_r1])"
    using sample_surface by (simp add: after_surface_def channel_for_format_def)
  then show ?thesis
    using dv_finish [of 0 "sample_state True [] {''r1''}" "Inr (sample_text, [''r1''])" "''text''" True "''2026-01-02T03:05:00Z''" None 0 "[sample_entry_r1]"]
    by (simp add: sample_state_def)
qed


theorem first_delivery_stands_witness:
  "tbl_find dl_review ''r1'' (dv_led (sample_state True [sample_entry_r1] {''r1''})) = Some sample_entry_r1"
proof -
  have r: "reachable_by dv_start dv_step (sample_state True [sample_entry_r1] {''r1''})"
    by (rule reach_step [where step = dv_step, OF reach_step [where step = dv_step, OF
        reach_step [where step = dv_step, OF reach_init sample_passed] sample_written] sample_acknowledged])
  have "tbl_find dl_review ''r1'' (dv_led (sample_state True [sample_entry_r1] {''r1''})) = Some sample_entry_r1"
    by (simp add: sample_state_def sample_entry_r1_def)
  then show ?thesis using first_delivery_stands [OF r rtranclp.rtrancl_refl, of "''r1''"] by blast
qed


end
