(* ===== verification/Stack.thy ===== *)
theory Stack
  imports Json Batching GitIdentity Triage
begin

section \<open>Stack manifests: who owns which part of a change\<close>

text \<open>
  Models \<open>stack.py\<close>: the parser of an untrusted manifest, its digest, the evidence a slice's diff gives,
  the validation against the captured review, the attribution of findings, and the bounded hint in the
  prompts. An error is its reason code; the detail text beside it is not modelled. Reading the file and
  decoding its JSON are given as what they led to; SHA-256, SHA-1 and the answers of git are parameters.
  Text is of the code points up to 255, as everywhere in the development.
\<close>

subsection \<open>The manifest\<close>

definition max_dependencies :: nat where "max_dependencies = 32"
definition max_downstream_owners :: nat where "max_downstream_owners = 64"
definition max_scopes_per_owner :: nat where "max_scopes_per_owner = 256"
definition max_total_scopes :: nat where "max_total_scopes = 2048"
definition max_known_finding_refs :: nat where "max_known_finding_refs = 128"
definition max_id_chars :: nat where "max_id_chars = 128"
definition max_path_chars :: nat where "max_path_chars = 512"
definition max_tracking_chars :: nat where "max_tracking_chars = 1024"

datatype scope_kind = File | Prefix

record scope =
  sc_kind :: scope_kind
  sc_path :: string
  sc_exclusive :: bool
  sc_start :: "int option"
  sc_end :: "int option"
  sc_symbol :: "string option"

record slice =
  sl_id :: string
  sl_commit :: string
  sl_ref :: string
  sl_ownership :: "scope list"

record downstream_owner =
  ow_ref :: string
  ow_ownership :: "scope list"
  ow_known :: "string list"

record manifest =
  mf_repository :: string
  mf_base :: string
  mf_head :: string
  mf_parent :: "string option"
  mf_deps :: "slice list"
  mf_current :: slice
  mf_downstream :: "downstream_owner list"
  mf_producer :: string
  mf_version :: string
  mf_digest :: string

subsection \<open>Reading fields\<close>

type_synonym 'a parsed_as = "string + 'a"

definition invalid :: string where "invalid = ''invalid_field''"

fun emap :: "('a \<Rightarrow> 'e + 'b) \<Rightarrow> 'a list \<Rightarrow> 'e + 'b list" where
  "emap f [] = Inr []"
| "emap f (x # xs) = ebind (f x) (\<lambda>y. ebind (emap f xs) (\<lambda>ys. Inr (y # ys)))"

definition object_field :: "pyval \<Rightarrow> string + pydict" where
  "object_field v = (case v of PDict d \<Rightarrow> Inr d | _ \<Rightarrow> Inl invalid)"

definition exact_keys :: "pydict \<Rightarrow> string list \<Rightarrow> string + unit" where
  "exact_keys d expected =
     (if \<not> set (map fst d) \<subseteq> set expected then Inl ''unknown_field''
      else if \<not> set expected \<subseteq> set (map fst d) then Inl invalid else Inr ())"

definition valid_text :: "nat \<Rightarrow> string \<Rightarrow> bool" where
  "valid_text maximum s \<longleftrightarrow> s \<noteq> [] \<and> length s \<le> maximum \<and> \<not> list_ex is_control s"

definition text_value :: "nat \<Rightarrow> pyval \<Rightarrow> string + string" where
  "text_value maximum v = (case v of PStr s \<Rightarrow> if valid_text maximum s then Inr s else Inl invalid | _ \<Rightarrow> Inl invalid)"

definition opt_text_value :: "pyval \<Rightarrow> string + string option" where
  "opt_text_value v = (if v = PNone then Inr None else ebind (text_value max_id_chars v) (\<lambda>s. Inr (Some s)))"

text \<open>\<open>rpartition\<close> at the last \<open>sep\<close>.\<close>

definition after_last_char :: "char \<Rightarrow> string \<Rightarrow> string" where
  "after_last_char sep s = rev (takeWhile (\<lambda>c. c \<noteq> sep) (rev s))"

definition before_last_char :: "char \<Rightarrow> string \<Rightarrow> string" where
  "before_last_char sep s = rev (tl (dropWhile (\<lambda>c. c \<noteq> sep) (rev s)))"

definition ascii_digit :: "char \<Rightarrow> bool" where
  "ascii_digit c \<longleftrightarrow> (let n = code c in 48 \<le> n \<and> n \<le> 57)"

definition is_hex_digit :: "char \<Rightarrow> bool" where
  "is_hex_digit c \<longleftrightarrow> ascii_digit c \<or> (let n = code c in 97 \<le> n \<and> n \<le> 102)"

text \<open>\<open>[1-9][0-9]*\<close> and its bounded form.\<close>

definition positive_digits :: "string \<Rightarrow> bool" where
  "positive_digits s \<longleftrightarrow> s \<noteq> [] \<and> list_all ascii_digit s \<and> hd s \<noteq> CHR ''0''"

text \<open>\<open>_HOST\<close>: a name of lower-case letters, digits, dots and dashes, and a port.\<close>

definition host_char :: "char \<Rightarrow> bool" where
  "host_char c \<longleftrightarrow> ascii_digit c \<or> c \<in> {CHR ''.'', CHR ''-''} \<or> (let n = code c in 97 \<le> n \<and> n \<le> 122)"

definition host_shape :: "string \<Rightarrow> bool" where
  "host_shape host =
     (let name = takeWhile (\<lambda>c. c \<noteq> CHR '':'') host; rest = dropWhile (\<lambda>c. c \<noteq> CHR '':'') host in
      name \<noteq> [] \<and> list_all host_char name
      \<and> (rest = [] \<or> positive_digits (tl rest) \<and> length (tl rest) \<le> 5))"

fun double_dot :: "string \<Rightarrow> bool" where
  "double_dot (a # b # s) \<longleftrightarrow> a = CHR ''.'' \<and> b = CHR ''.'' \<or> double_dot (b # s)"
| "double_dot s \<longleftrightarrow> False"

definition safe_part :: "string \<Rightarrow> bool" where
  "safe_part p \<longleftrightarrow> p \<noteq> [] \<and> p \<noteq> ''.'' \<and> p \<noteq> ''..'' \<and> CHR 0x5C \<notin> set p"

definition repository_ok :: "string \<Rightarrow> bool" where
  "repository_ok s =
     (valid_text max_path_chars s \<and>
      (case split_on (CHR ''/'') s of
         [] \<Rightarrow> False
       | host # parts \<Rightarrow> parts \<noteq> [] \<and> host_shape host \<and> lower host = host \<and> hd host \<noteq> CHR ''.'' \<and> last host \<noteq> CHR ''.''
           \<and> \<not> double_dot host \<and> list_all safe_part parts))"

definition repository_value :: "pyval \<Rightarrow> string + string" where
  "repository_value v = (case v of PStr s \<Rightarrow> if repository_ok s then Inr s else Inl invalid | _ \<Rightarrow> Inl invalid)"

definition oid_ok :: "string \<Rightarrow> bool" where
  "oid_ok s \<longleftrightarrow> length s = 40 \<and> list_all is_hex_digit s"

definition oid_value :: "pyval \<Rightarrow> string + string" where
  "oid_value v = (case v of PStr s \<Rightarrow> if oid_ok s then Inr s else Inl invalid | _ \<Rightarrow> Inl invalid)"

definition tracking_ok :: "string \<Rightarrow> bool" where
  "tracking_ok s \<longleftrightarrow> valid_text max_tracking_chars s \<and> CHR ''#'' \<in> set s \<and> positive_digits (after_last_char (CHR ''#'') s)
     \<and> repository_ok (before_last_char (CHR ''#'') s)"

definition tracking_value :: "pyval \<Rightarrow> string + string" where
  "tracking_value v = (case v of PStr s \<Rightarrow> if tracking_ok s then Inr s else Inl invalid | _ \<Rightarrow> Inl invalid)"

definition path_ok :: "string \<Rightarrow> bool" where
  "path_ok s \<longleftrightarrow> valid_text max_path_chars s \<and> CHR 0x5C \<notin> set s
     \<and> list_all (\<lambda>p. p \<noteq> [] \<and> p \<noteq> ''.'' \<and> p \<noteq> ''..'') (split_on (CHR ''/'') s)"

definition path_value :: "pyval \<Rightarrow> string + string" where
  "path_value v = (case v of PStr s \<Rightarrow> if path_ok s then Inr s else Inl invalid | _ \<Rightarrow> Inl invalid)"

definition line_value :: "pyval \<Rightarrow> string + int option" where
  "line_value v = (case v of PNone \<Rightarrow> Inr None | PInt n \<Rightarrow> if 1 \<le> n then Inr (Some n) else Inl invalid | _ \<Rightarrow> Inl invalid)"

definition array_value :: "nat \<Rightarrow> pyval \<Rightarrow> string + pyval list" where
  "array_value maximum v =
     (case v of PList xs \<Rightarrow> if length xs \<le> maximum then Inr xs else Inl ''limit_exceeded'' | _ \<Rightarrow> Inl invalid)"

subsection \<open>The parser\<close>

definition scope_keys :: "string list" where
  "scope_keys = [''kind'', ''path'', ''exclusive'', ''line_start'', ''line_end'', ''symbol'']"

text \<open>The test against a set of strings raises \<open>TypeError\<close> on a list or a dictionary, which
  \<open>load_request\<close> reports as \<open>unsafe_file\<close>.\<close>

definition kind_value :: "pyval \<Rightarrow> string + scope_kind" where
  "kind_value v =
     (case v of PStr s \<Rightarrow> if s = ''file'' then Inr File else if s = ''prefix'' then Inr Prefix else Inl invalid
      | PList _ \<Rightarrow> Inl ''unsafe_file'' | PDict _ \<Rightarrow> Inl ''unsafe_file'' | _ \<Rightarrow> Inl invalid)"

definition range_ok :: "int option \<Rightarrow> int option \<Rightarrow> bool" where
  "range_ok a b \<longleftrightarrow> (case (a, b) of (None, None) \<Rightarrow> True | (Some i, Some j) \<Rightarrow> i \<le> j | _ \<Rightarrow> False)"

definition parse_scope :: "pyval \<Rightarrow> string + scope" where
  "parse_scope v =
     ebind (object_field v) (\<lambda>d.
     ebind (exact_keys d scope_keys) (\<lambda>_.
     ebind (kind_value (dget d ''kind'')) (\<lambda>kind.
     ebind (path_value (dget d ''path'')) (\<lambda>path.
     ebind (guard (is_bool (dget d ''exclusive'')) invalid) (\<lambda>_.
     ebind (line_value (dget d ''line_start'')) (\<lambda>line_start.
     ebind (line_value (dget d ''line_end'')) (\<lambda>line_end.
     ebind (guard (range_ok line_start line_end) invalid) (\<lambda>_.
     ebind (opt_text_value (dget d ''symbol'')) (\<lambda>symbol.
     ebind (guard (kind = Prefix \<longrightarrow> line_start = None \<and> symbol = None) invalid) (\<lambda>_.
       Inr \<lparr>sc_kind = kind, sc_path = path, sc_exclusive = (dget d ''exclusive'' = PBool True), sc_start = line_start,
            sc_end = line_end, sc_symbol = symbol\<rparr>))))))))))"

definition parse_scopes :: "pyval \<Rightarrow> string + scope list" where
  "parse_scopes v = ebind (array_value max_scopes_per_owner v) (emap parse_scope)"

definition slice_keys :: "string list" where
  "slice_keys = [''slice_id'', ''commit'', ''tracking_ref'', ''ownership'']"

definition parse_slice :: "pyval \<Rightarrow> string + slice" where
  "parse_slice v =
     ebind (object_field v) (\<lambda>d.
     ebind (exact_keys d slice_keys) (\<lambda>_.
     ebind (text_value max_id_chars (dget d ''slice_id'')) (\<lambda>i.
     ebind (oid_value (dget d ''commit'')) (\<lambda>commit.
     ebind (tracking_value (dget d ''tracking_ref'')) (\<lambda>ref.
     ebind (parse_scopes (dget d ''ownership'')) (\<lambda>ownership.
       Inr \<lparr>sl_id = i, sl_commit = commit, sl_ref = ref, sl_ownership = ownership\<rparr>))))))"

definition owner_keys :: "string list" where
  "owner_keys = [''tracking_ref'', ''ownership'', ''known_finding_refs'']"

definition parse_downstream :: "pyval \<Rightarrow> string + downstream_owner" where
  "parse_downstream v =
     ebind (object_field v) (\<lambda>d.
     ebind (exact_keys d owner_keys) (\<lambda>_.
     ebind (array_value max_known_finding_refs (dget d ''known_finding_refs'')) (\<lambda>refs.
     ebind (tracking_value (dget d ''tracking_ref'')) (\<lambda>ref.
     ebind (parse_scopes (dget d ''ownership'')) (\<lambda>ownership.
     ebind (emap (text_value max_id_chars) refs) (\<lambda>known.
       Inr \<lparr>ow_ref = ref, ow_ownership = ownership, ow_known = known\<rparr>))))))"

text \<open>The canonical dictionary and the digest over it.\<close>

definition opt_val :: "('a \<Rightarrow> pyval) \<Rightarrow> 'a option \<Rightarrow> pyval" where
  "opt_val f v = (case v of None \<Rightarrow> PNone | Some x \<Rightarrow> f x)"

definition scope_dict :: "scope \<Rightarrow> pyval" where
  "scope_dict s = PDict [(''kind'', PStr (case sc_kind s of File \<Rightarrow> ''file'' | Prefix \<Rightarrow> ''prefix'')), (''path'', PStr (sc_path s)),
     (''exclusive'', PBool (sc_exclusive s)), (''line_start'', opt_val PInt (sc_start s)), (''line_end'', opt_val PInt (sc_end s)),
     (''symbol'', opt_val PStr (sc_symbol s))]"

definition slice_dict :: "slice \<Rightarrow> pyval" where
  "slice_dict s = PDict [(''slice_id'', PStr (sl_id s)), (''commit'', PStr (sl_commit s)), (''tracking_ref'', PStr (sl_ref s)),
     (''ownership'', PList (map scope_dict (sl_ownership s)))]"

definition owner_dict :: "downstream_owner \<Rightarrow> pyval" where
  "owner_dict w = PDict [(''tracking_ref'', PStr (ow_ref w)), (''ownership'', PList (map scope_dict (ow_ownership w))),
     (''known_finding_refs'', PList (map PStr (ow_known w)))]"

definition semantic_dict :: "manifest \<Rightarrow> pydict" where
  "semantic_dict m = [(''schema_version'', PInt 1), (''repository_id'', PStr (mf_repository m)),
     (''certification_base'', PStr (mf_base m)), (''current_head'', PStr (mf_head m)), (''direct_parent'', opt_val PStr (mf_parent m)),
     (''dependencies'', PList (map slice_dict (mf_deps m))), (''current_slice'', slice_dict (mf_current m)),
     (''downstream_owners'', PList (map owner_dict (mf_downstream m))),
     (''producer'', PDict [(''id'', PStr (mf_producer m)), (''version'', PStr (mf_version m))])]"

definition manifest_digest :: "(string \<Rightarrow> string) \<Rightarrow> manifest \<Rightarrow> string" where
  "manifest_digest H m = ''sha256:'' @ (case canonical_digest H (PDict (semantic_dict m)) of None \<Rightarrow> [] | Some h \<Rightarrow> h)"

definition digest_ok :: "string \<Rightarrow> bool" where
  "digest_ok s \<longleftrightarrow> starts_with ''sha256:'' s \<and> length s = 71 \<and> list_all is_hex_digit (drop 7 s)"

definition manifest_keys :: "string list" where
  "manifest_keys = [''schema_version'', ''repository_id'', ''certification_base'', ''current_head'', ''direct_parent'', ''dependencies'',
     ''current_slice'', ''downstream_owners'', ''producer'', ''manifest_digest'']"

text \<open>The checks on the whole manifest, in their order; the first that fails gives the reason.\<close>

definition total_scopes :: "manifest \<Rightarrow> nat" where
  "total_scopes m = sum_list (map (\<lambda>s. length (sl_ownership s)) (mf_deps m)) + length (sl_ownership (mf_current m))
     + sum_list (map (\<lambda>w. length (ow_ownership w)) (mf_downstream m))"

definition last_id :: "slice list \<Rightarrow> string option" where
  "last_id deps = (if deps = [] then None else Some (sl_id (last deps)))"

definition manifest_problem :: "(string \<Rightarrow> string) \<Rightarrow> manifest \<Rightarrow> string option" where
  "manifest_problem H m =
     (if max_total_scopes < total_scopes m then Some ''limit_exceeded''
      else if sl_id (mf_current m) \<in> set (map sl_id (mf_deps m)) then Some ''stack_cycle''
      else if \<not> distinct (map sl_id (mf_deps m)) then Some ''duplicate_slice''
      else if \<not> distinct (map sl_commit (mf_deps m) @ [sl_commit (mf_current m)]) then Some ''duplicate_commit''
      else if mf_parent m \<noteq> last_id (mf_deps m) then Some ''direct_parent_mismatch''
      else if sl_commit (mf_current m) \<noteq> mf_head m then Some ''stale_head''
      else if \<not> digest_ok (mf_digest m) then Some invalid
      else if manifest_digest H m \<noteq> mf_digest m then Some ''digest_mismatch''
      else None)"

definition schema_value :: "pyval \<Rightarrow> string + unit" where
  "schema_value v = (case v of PInt n \<Rightarrow> if n = 1 then Inr () else Inl ''unsupported_schema'' | _ \<Rightarrow> Inl invalid)"

definition parse_manifest :: "(string \<Rightarrow> string) \<Rightarrow> pyval \<Rightarrow> string + manifest" where
  "parse_manifest H v =
     ebind (object_field v) (\<lambda>d.
     ebind (exact_keys d manifest_keys) (\<lambda>_.
     ebind (schema_value (dget d ''schema_version'')) (\<lambda>_.
     ebind (array_value max_dependencies (dget d ''dependencies'')) (\<lambda>deps_raw.
     ebind (array_value max_downstream_owners (dget d ''downstream_owners'')) (\<lambda>down_raw.
     ebind (object_field (dget d ''producer'')) (\<lambda>p.
     ebind (exact_keys p [''id'', ''version'']) (\<lambda>_.
     ebind (repository_value (dget d ''repository_id'')) (\<lambda>repository.
     ebind (oid_value (dget d ''certification_base'')) (\<lambda>base.
     ebind (oid_value (dget d ''current_head'')) (\<lambda>head.
     ebind (opt_text_value (dget d ''direct_parent'')) (\<lambda>parent.
     ebind (emap parse_slice deps_raw) (\<lambda>deps.
     ebind (parse_slice (dget d ''current_slice'')) (\<lambda>current.
     ebind (emap parse_downstream down_raw) (\<lambda>down.
     ebind (text_value max_id_chars (dget p ''id'')) (\<lambda>producer.
     ebind (text_value max_id_chars (dget p ''version'')) (\<lambda>version.
     ebind (text_value 71 (dget d ''manifest_digest'')) (\<lambda>digest.
       let m = \<lparr>mf_repository = repository, mf_base = base, mf_head = head, mf_parent = parent, mf_deps = deps,
             mf_current = current, mf_downstream = down, mf_producer = producer, mf_version = version, mf_digest = digest\<rparr> in
       case manifest_problem H m of None \<Rightarrow> Inr m | Some e \<Rightarrow> Inl e)))))))))))))))))"

text \<open>What reading the file gave: its document, or the reason it was refused.\<close>

datatype read_file = Not_read string | Document pyval

record stack_request =
  sr_manifest :: "manifest option"
  sr_problem :: "string option"
  sr_claimed :: "string option"

definition claimed_digest :: "pyval \<Rightarrow> string option" where
  "claimed_digest v =
     (case v of PDict d \<Rightarrow> (case dget d ''manifest_digest'' of PStr s \<Rightarrow> if digest_ok s then Some s else None | _ \<Rightarrow> None) | _ \<Rightarrow> None)"

definition load_request :: "(string \<Rightarrow> string) \<Rightarrow> read_file \<Rightarrow> stack_request" where
  "load_request H file =
     (case file of
        Not_read reason \<Rightarrow> \<lparr>sr_manifest = None, sr_problem = Some reason, sr_claimed = None\<rparr>
      | Document v \<Rightarrow>
          (case parse_manifest H v of
             Inl reason \<Rightarrow> \<lparr>sr_manifest = None, sr_problem = Some reason,
               sr_claimed = (if reason = ''unsafe_file'' then None else claimed_digest v)\<rparr>
           | Inr m \<Rightarrow> \<lparr>sr_manifest = Some m, sr_problem = None, sr_claimed = None\<rparr>))"

subsection \<open>What a slice changed\<close>

record slice_evidence =
  ev_slice :: slice
  ev_files :: "string list"
  ev_statuses :: "(string \<times> string) list"
  ev_uncertain :: "string list"
  ev_lines :: "(string \<times> (nat \<times> nat) list) list"

definition skip_count :: "bytes \<Rightarrow> bytes" where
  "skip_count s =
     (if s \<noteq> [] \<and> hd s = CHR '','' \<and> takeWhile ascii_digit (tl s) \<noteq> [] then dropWhile ascii_digit (tl s) else s)"

text \<open>\<open>_HUNK_RANGE\<close>: the first line of the new side.\<close>

definition hunk_start :: "bytes \<Rightarrow> nat option" where
  "hunk_start line =
     (let r1 = drop 4 line; r2 = skip_count (dropWhile ascii_digit r1); r3 = drop 2 r2; r4 = skip_count (dropWhile ascii_digit r3) in
      if starts_with ''@@ -'' line \<and> takeWhile ascii_digit r1 \<noteq> [] \<and> starts_with '' +'' r2
        \<and> takeWhile ascii_digit r3 \<noteq> [] \<and> starts_with '' @@'' r4
      then Some (digits_num (takeWhile ascii_digit r3)) else None)"

record line_state =
  ls_added :: "nat list"
  ls_new :: "nat option"
  ls_change :: bool
  ls_addition :: bool
  ls_uncertain :: bool

definition finish_change_run :: "line_state \<Rightarrow> line_state" where
  "finish_change_run s = s\<lparr>ls_uncertain := ls_uncertain s \<or> ls_change s \<and> \<not> ls_addition s, ls_change := False, ls_addition := False\<rparr>"

definition read_line :: "bytes \<Rightarrow> line_state \<Rightarrow> line_state" where
  "read_line line s =
     (case hunk_start line of
        Some n \<Rightarrow> (finish_change_run s)\<lparr>ls_new := Some n\<rparr>
      | None \<Rightarrow>
          (case ls_new s of None \<Rightarrow> s
           | Some n \<Rightarrow>
               if starts_with ''+'' line then s\<lparr>ls_added := ls_added s @ [n], ls_new := Some (Suc n), ls_change := True, ls_addition := True\<rparr>
               else if starts_with ''-'' line then s\<lparr>ls_change := True\<rparr>
               else if starts_with '' '' line then (finish_change_run s)\<lparr>ls_new := Some (Suc n)\<rparr>
               else s))"

definition read_section :: "bytes list \<Rightarrow> line_state" where
  "read_section section = finish_change_run
     (fold read_line section \<lparr>ls_added = [], ls_new = None, ls_change = False, ls_addition = False, ls_uncertain = False\<rparr>)"

fun grow_range :: "nat \<Rightarrow> nat \<Rightarrow> nat list \<Rightarrow> (nat \<times> nat) list" where
  "grow_range a b [] = [(a, b)]"
| "grow_range a b (n # ns) = (if n = Suc b then grow_range a n ns else (a, b) # grow_range n n ns)"

definition ranges_of :: "nat list \<Rightarrow> (nat \<times> nat) list" where
  "ranges_of added = (case sort (remdups added) of [] \<Rightarrow> [] | n # ns \<Rightarrow> grow_range n n ns)"

definition path_of_label :: "label \<Rightarrow> string" where
  "path_of_label l = map char_of l"

text \<open>One section of the diff: its path, its added ranges, and whether its lines are uncertain.\<close>

definition section_change :: "bytes list \<Rightarrow> string \<times> (nat \<times> nat) list \<times> bool" where
  "section_change section =
     (let s = read_section section; rs = ranges_of (ls_added s) in
      (path_of_label (file_of section), rs, ls_uncertain s \<or> rs = []))"

definition unmapped_status :: "string \<Rightarrow> bool" where
  "unmapped_status c \<longleftrightarrow> take 1 c \<in> {''R'', ''C'', ''D''}"

definition evidence_of :: "slice \<Rightarrow> diff \<Rightarrow> slice_evidence" where
  "evidence_of item d =
     (let changes = filter (\<lambda>(p, _). p \<noteq> []) (map section_change (sections (byte_lines (d_data d))));
          lined = filter (\<lambda>(p, rs, _). rs \<noteq> []) changes;
          touched = remdups (map fst lined) in
      \<lparr>ev_slice = item, ev_files = filter (\<lambda>p. p \<noteq> []) (d_files d), ev_statuses = sort_key fst (d_statuses d),
       ev_uncertain = map fst (filter (\<lambda>(p, c). unmapped_status c) (d_statuses d)) @ map fst (filter (\<lambda>(p, rs, u). u) changes),
       ev_lines = sort_key fst (map (\<lambda>p. (p, concat (map (\<lambda>(q, rs, _). if q = p then rs else []) lined))) touched)\<rparr>)"

definition changed_lines :: "slice_evidence \<Rightarrow> string \<Rightarrow> (nat \<times> nat) list" where
  "changed_lines ev path = (case map_of (ev_lines ev) path of None \<Rightarrow> [] | Some rs \<Rightarrow> rs)"

definition status_of_path :: "slice_evidence \<Rightarrow> string \<Rightarrow> string option" where
  "status_of_path ev path = map_of (ev_statuses ev) path"

subsection \<open>Scopes\<close>

definition scope_path_matches :: "scope \<Rightarrow> string \<Rightarrow> bool" where
  "scope_path_matches s path \<longleftrightarrow> path = sc_path s \<or> sc_kind s = Prefix \<and> starts_with (sc_path s @ ''/'') path"

definition prefixes_overlap :: "string \<Rightarrow> string \<Rightarrow> bool" where
  "prefixes_overlap p q \<longleftrightarrow> p = q \<or> starts_with (q @ ''/'') p \<or> starts_with (p @ ''/'') q"

definition paths_overlap :: "scope \<Rightarrow> scope \<Rightarrow> bool" where
  "paths_overlap l r =
     (case (sc_kind l, sc_kind r) of
        (File, File) \<Rightarrow> sc_path l = sc_path r
      | (Prefix, Prefix) \<Rightarrow> prefixes_overlap (sc_path l) (sc_path r)
      | (File, Prefix) \<Rightarrow> scope_path_matches r (sc_path l)
      | (Prefix, File) \<Rightarrow> scope_path_matches l (sc_path r))"

definition scopes_overlap :: "scope \<Rightarrow> scope \<Rightarrow> bool" where
  "scopes_overlap l r =
     (if sc_symbol l \<noteq> None \<and> sc_symbol r \<noteq> None \<and> sc_symbol l \<noteq> sc_symbol r then False
      else if \<not> paths_overlap l r then False
      else
        (case (sc_start l, sc_end l, sc_start r, sc_end r) of
           (Some a, Some b, Some c, Some d) \<Rightarrow> if sc_path l \<noteq> sc_path r then True else \<not> (b < c \<or> d < a)
         | _ \<Rightarrow> True))"

definition meets :: "int \<Rightarrow> int \<Rightarrow> (nat \<times> nat) list \<Rightarrow> bool" where
  "meets a b rs \<longleftrightarrow> list_ex (\<lambda>(s, e). \<not> (int e < a \<or> b < int s)) rs"

definition scope_is_reachable :: "scope \<Rightarrow> slice_evidence \<Rightarrow> bool" where
  "scope_is_reachable s ev =
     (let matched = filter (scope_path_matches s) (ev_files ev) in
      if matched = [] then False
      else case (sc_start s, sc_end s) of
        (Some a, Some b) \<Rightarrow> list_ex (\<lambda>p. p \<in> set (ev_uncertain ev)) matched \<or> list_ex (\<lambda>p. meets a b (changed_lines ev p)) matched
      | _ \<Rightarrow> True)"

subsection \<open>Validation\<close>

text \<open>The answers of git; an error is a \<open>GitError\<close> or an \<open>OSError\<close>.\<close>

record stack_git =
  sg_repository :: "string + string option"
  sg_type :: "string \<Rightarrow> string + string option"
  sg_ancestor :: "string \<Rightarrow> string \<Rightarrow> string + bool"
  sg_ref_diff :: "string \<Rightarrow> string \<Rightarrow> string + diff"
  sg_slice_diff :: "string \<Rightarrow> string + diff"
  sg_full_diff :: "string \<Rightarrow> string + diff"
  sg_tree :: "string list \<Rightarrow> string + string"

record captured =
  cp_base :: string
  cp_head :: string
  cp_diff :: diff
  cp_tree :: string

record stack_validation =
  sv_status :: string
  sv_reason :: string
  sv_manifest :: "manifest option"
  sv_deps :: "slice_evidence list"
  sv_current :: "slice_evidence option"
  sv_claimed :: "string option"

definition ignored :: "stack_request \<Rightarrow> string \<Rightarrow> stack_validation" where
  "ignored r reason = \<lparr>sv_status = ''ignored'', sv_reason = reason, sv_manifest = sr_manifest r, sv_deps = [], sv_current = None,
     sv_claimed = sr_claimed r\<rparr>"

definition git_answer :: "string + 'a \<Rightarrow> string + 'a" where
  "git_answer r = (case r of Inl _ \<Rightarrow> Inl ''git_error'' | Inr x \<Rightarrow> Inr x)"

fun check_types :: "stack_git \<Rightarrow> string list \<Rightarrow> string + unit" where
  "check_types g [] = Inr ()"
| "check_types g (oid # oids) =
     ebind (git_answer (sg_type g oid)) (\<lambda>t.
       case t of None \<Rightarrow> Inl ''missing_commit''
       | Some ty \<Rightarrow> if ty \<noteq> ''commit'' then Inl ''not_commit'' else check_types g oids)"

text \<open>Each commit of the chain before the next; only the single edge of a stack without dependencies may
  stand still.\<close>

fun check_edges :: "stack_git \<Rightarrow> bool \<Rightarrow> string list \<Rightarrow> string + unit" where
  "check_edges g may_stand (older # newer # oids) =
     (if may_stand \<and> older = newer then check_edges g False (newer # oids)
      else if older = newer then Inl ''dependency_reordered''
      else ebind (git_answer (sg_ancestor g older newer)) (\<lambda>anc.
        if \<not> anc then Inl ''dependency_reordered'' else check_edges g False (newer # oids)))"
| "check_edges g may_stand oids = Inr ()"

fun dependency_evidence :: "stack_git \<Rightarrow> string \<Rightarrow> slice list \<Rightarrow> string + slice_evidence list" where
  "dependency_evidence g previous [] = Inr []"
| "dependency_evidence g previous (item # items) =
     ebind (git_answer (sg_ref_diff g previous (sl_commit item))) (\<lambda>d.
     ebind (dependency_evidence g (sl_commit item) items) (\<lambda>evs. Inr (evidence_of item d # evs)))"

definition same_full_identity :: "(string \<Rightarrow> string) \<Rightarrow> diff \<Rightarrow> diff \<Rightarrow> bool" where
  "same_full_identity S d full \<longleftrightarrow> diff_identity S (d_data d) = diff_identity S (d_data full) \<and> d_files d = d_files full
     \<and> set (d_statuses d) = set (d_statuses full) \<and> d_truncated_untracked d = d_truncated_untracked full"

fun exclusive_clash :: "slice_evidence list \<Rightarrow> bool" where
  "exclusive_clash [] = False"
| "exclusive_clash (l # rs) \<longleftrightarrow>
     list_ex (\<lambda>r. list_ex (\<lambda>a. list_ex (\<lambda>b. sc_exclusive a \<and> sc_exclusive b \<and> scopes_overlap a b)
       (sl_ownership (ev_slice r))) (sl_ownership (ev_slice l))) rs \<or> exclusive_clash rs"

definition tracking_refs :: "manifest \<Rightarrow> string list" where
  "tracking_refs m = map sl_ref (mf_deps m) @ [sl_ref (mf_current m)] @ map ow_ref (mf_downstream m)"

definition validate_manifest :: "stack_git \<Rightarrow> (string \<Rightarrow> string) \<Rightarrow> captured \<Rightarrow> manifest \<Rightarrow> string + slice_evidence list \<times> slice_evidence" where
  "validate_manifest g S c m =
     ebind (git_answer (sg_repository g)) (\<lambda>repository.
     ebind (guard (repository \<noteq> None) ''repository_unresolved'') (\<lambda>_.
     ebind (guard (Some (mf_repository m) = repository) ''repository_mismatch'') (\<lambda>_.
     ebind (guard (list_all (\<lambda>r. before_last_char (CHR ''#'') r = mf_repository m) (tracking_refs m)) ''tracking_repository_mismatch'') (\<lambda>_.
     ebind (guard (mf_base m = cp_base c) ''stale_base'') (\<lambda>_.
     ebind (guard (mf_head m = cp_head c) ''stale_head'') (\<lambda>_.
     ebind (guard (\<not> d_truncated_untracked (cp_diff c)) ''git_error'') (\<lambda>_.
     let commits = mf_base m # map sl_commit (mf_deps m) @ [mf_head m] in
     ebind (check_types g commits) (\<lambda>_.
     ebind (check_edges g (mf_deps m = []) commits) (\<lambda>_.
     ebind (dependency_evidence g (mf_base m) (mf_deps m)) (\<lambda>deps.
     ebind (git_answer (sg_slice_diff g (last (mf_base m # map sl_commit (mf_deps m))))) (\<lambda>current_diff.
     ebind (git_answer (sg_full_diff g (cp_base c))) (\<lambda>again.
     ebind (guard (same_full_identity S again (cp_diff c)) ''git_error'') (\<lambda>_.
     ebind (git_answer (sg_tree g (d_files again))) (\<lambda>tree.
     ebind (guard (tree = cp_tree c) ''git_error'') (\<lambda>_.
     let current = evidence_of (mf_current m) current_diff; all_evidence = deps @ [current] in
     ebind (guard (list_all (\<lambda>ev. list_all (\<lambda>s. scope_is_reachable s ev) (sl_ownership (ev_slice ev))) all_evidence) ''ownership_unreachable'') (\<lambda>_.
     ebind (guard (\<not> exclusive_clash all_evidence) ''exclusive_scope_overlap'') (\<lambda>_.
       Inr (deps, current))))))))))))))))))"

definition validate :: "stack_git \<Rightarrow> (string \<Rightarrow> string) \<Rightarrow> captured \<Rightarrow> stack_request \<Rightarrow> stack_validation" where
  "validate g S c r =
     (case (sr_problem r, sr_manifest r) of
        (Some reason, _) \<Rightarrow> ignored r reason
      | (None, None) \<Rightarrow> ignored r invalid
      | (None, Some m) \<Rightarrow>
          (case validate_manifest g S c m of
             Inl reason \<Rightarrow> ignored r reason
           | Inr (deps, current) \<Rightarrow> \<lparr>sv_status = ''valid'', sv_reason = ''ok'', sv_manifest = Some m, sv_deps = deps,
               sv_current = Some current, sv_claimed = None\<rparr>))"

subsection \<open>Attribution of findings\<close>

definition test_name_ends :: "string list" where
  "test_name_ends = [''_test.py'', ''_test.go'', ''.test.js'', ''.test.ts'', ''.test.jsx'', ''.test.tsx'', ''.spec.js'', ''.spec.ts'',
     ''.spec.jsx'', ''.spec.tsx'']"

definition ends_with :: "string \<Rightarrow> string \<Rightarrow> bool" where
  "ends_with suffix s \<longleftrightarrow> starts_with (rev suffix) (rev s)"

definition fixture_or_test :: "string \<Rightarrow> bool" where
  "fixture_or_test path =
     (let parts = split_on (CHR ''/'') (lower path); name = last parts in
      list_ex (\<lambda>p. p \<in> {''test'', ''tests'', ''fixtures'', ''__tests__''}) (butlast parts)
      \<or> starts_with ''test_'' name \<or> list_ex (\<lambda>e. ends_with e name) test_name_ends)"

definition inside :: "int \<Rightarrow> (nat \<times> nat) list \<Rightarrow> bool" where
  "inside line rs \<longleftrightarrow> list_ex (\<lambda>(a, b). int a \<le> line \<and> line \<le> int b) rs"

definition line_allowed :: "scope \<Rightarrow> pydict \<Rightarrow> string \<Rightarrow> slice_evidence option \<Rightarrow> bool" where
  "line_allowed s f path evidence =
     (case (sc_start s, sc_end s) of
        (Some a, Some b) \<Rightarrow>
          (case dget f ''line'' of
             PInt line \<Rightarrow> a \<le> line \<and> line \<le> b
               \<and> (case evidence of None \<Rightarrow> True | Some ev \<Rightarrow> inside line (changed_lines ev path) \<or> path \<in> set (ev_uncertain ev))
           | _ \<Rightarrow> False)
      | _ \<Rightarrow> True)"

definition scope_matches_finding :: "scope \<Rightarrow> pydict \<Rightarrow> string \<Rightarrow> slice_evidence option \<Rightarrow> bool" where
  "scope_matches_finding s f path evidence \<longleftrightarrow> scope_path_matches s path \<and> line_allowed s f path evidence
     \<and> (case sc_symbol s of None \<Rightarrow> True | Some y \<Rightarrow> dget f ''symbol'' = PStr y)"

definition attribution_dict :: "string \<Rightarrow> string \<Rightarrow> string option \<Rightarrow> string option \<Rightarrow> string list \<Rightarrow> pyval" where
  "attribution_dict scope_name reason owner_slice owner_ref known =
     PDict ([(''scope'', PStr scope_name), (''reason_code'', PStr reason), (''owner_slice_id'', opt_val PStr owner_slice),
       (''owner_ref'', opt_val PStr owner_ref)] @ (if known = [] then [] else [(''known_finding_refs'', PList (map PStr known))]))"

text \<open>A match is its kind, the position of its evidence among all of them, the evidence and the scope.\<close>

datatype match_kind = Current_slice | Inherited_dependency

type_synonym stack_match = "match_kind \<times> nat \<times> slice_evidence \<times> scope"

definition matches_in :: "match_kind \<Rightarrow> nat \<Rightarrow> slice_evidence \<Rightarrow> pydict \<Rightarrow> string \<Rightarrow> stack_match list" where
  "matches_in kind i ev f path = map (\<lambda>s. (kind, i, ev, s))
     (filter (\<lambda>s. scope_matches_finding s f path (Some ev) \<and> path \<in> set (ev_files ev)) (sl_ownership (ev_slice ev)))"

definition evidence_set :: "stack_validation \<Rightarrow> slice_evidence list" where
  "evidence_set r = sv_deps r @ (case sv_current r of None \<Rightarrow> [] | Some ev \<Rightarrow> [ev])"

definition stack_matches :: "stack_validation \<Rightarrow> pydict \<Rightarrow> string \<Rightarrow> stack_match list" where
  "stack_matches r f path =
     (case sv_current r of None \<Rightarrow> [] | Some ev \<Rightarrow> matches_in Current_slice (length (sv_deps r)) ev f path)
     @ concat (map (\<lambda>(i, ev). matches_in Inherited_dependency i ev f path) (List.enumerate 0 (sv_deps r)))"

definition downstream_matches :: "stack_validation \<Rightarrow> pydict \<Rightarrow> string \<Rightarrow> downstream_owner list" where
  "downstream_matches r f path =
     (case sv_manifest r of None \<Rightarrow> []
      | Some m \<Rightarrow> filter (\<lambda>w. list_ex (\<lambda>s. scope_matches_finding s f path None) (ow_ownership w)) (mf_downstream m))"

text \<open>\<open>stack_owners\<close>: the matches by kind, slice and reference; the latest evidence, exclusive if any of the
  scopes is.\<close>

definition owner_key :: "stack_match \<Rightarrow> match_kind \<times> string \<times> string" where
  "owner_key mt = (case mt of (kind, i, ev, s) \<Rightarrow> (kind, sl_id (ev_slice ev), sl_ref (ev_slice ev)))"

definition add_owner ::
    "stack_match \<Rightarrow> ((match_kind \<times> string \<times> string) \<times> slice_evidence \<times> bool) list \<Rightarrow> ((match_kind \<times> string \<times> string) \<times> slice_evidence \<times> bool) list" where
  "add_owner mt owners =
     (case mt of (kind, i, ev, s) \<Rightarrow>
        AList.update (owner_key mt) (ev, sc_exclusive s \<or> (case map_of owners (owner_key mt) of None \<Rightarrow> False | Some (_, x) \<Rightarrow> x)) owners)"

definition owner_matches :: "stack_match list \<Rightarrow> ((match_kind \<times> string \<times> string) \<times> slice_evidence \<times> bool) list" where
  "owner_matches ms = fold add_owner ms []"

text \<open>Whether the coordinates of a dependency still hold in the final tree.\<close>

definition later_stable :: "string \<Rightarrow> int \<Rightarrow> slice_evidence \<Rightarrow> bool" where
  "later_stable path line later \<longleftrightarrow> path \<notin> set (ev_files later)
     \<or> path \<notin> set (ev_uncertain later) \<and> \<not> list_ex (\<lambda>(a, b). int a \<le> line) (changed_lines later path)"

definition coordinates_stable :: "string \<Rightarrow> nat \<Rightarrow> slice_evidence list \<Rightarrow> int \<Rightarrow> bool" where
  "coordinates_stable path i evs line \<longleftrightarrow> list_all (later_stable path line) (drop (Suc i) evs)"

definition file_scope_stable :: "string \<Rightarrow> nat \<Rightarrow> slice_evidence list \<Rightarrow> bool" where
  "file_scope_stable path i evs \<longleftrightarrow> list_all (\<lambda>later. path \<notin> set (ev_files later)) (drop (Suc i) evs)"

definition hard_status :: "slice_evidence \<Rightarrow> string \<Rightarrow> bool" where
  "hard_status ev path \<longleftrightarrow> status_of_path ev path \<in> Some ` {''R'', ''C'', ''D''}"

text \<open>The six questions about uncertainty. A match of a line-scoped scope has an integer line.\<close>

definition shifted :: "string \<Rightarrow> pyval \<Rightarrow> slice_evidence list \<Rightarrow> nat \<Rightarrow> bool" where
  "shifted path line evs i = (case line of PInt n \<Rightarrow> \<not> coordinates_stable path i evs n | _ \<Rightarrow> False)"

definition shifted_dependency :: "stack_validation \<Rightarrow> string \<Rightarrow> pyval \<Rightarrow> bool" where
  "shifted_dependency r path line \<longleftrightarrow>
     list_ex (\<lambda>(i, ev). list_ex (\<lambda>s. sc_start s \<noteq> None \<and> scope_path_matches s path \<and> shifted path line (evidence_set r) i)
       (sl_ownership (ev_slice ev))) (List.enumerate 0 (sv_deps r))"

definition matching_shifted :: "stack_validation \<Rightarrow> string \<Rightarrow> pyval \<Rightarrow> stack_match list \<Rightarrow> bool" where
  "matching_shifted r path line ms \<longleftrightarrow>
     list_ex (\<lambda>(kind, i, ev, s). kind = Inherited_dependency \<and> sc_start s \<noteq> None \<and> shifted path line (evidence_set r) i) ms"

definition current_exact :: "string \<Rightarrow> pyval \<Rightarrow> stack_match list \<Rightarrow> bool" where
  "current_exact path line ms \<longleftrightarrow>
     list_ex (\<lambda>(kind, i, ev, s). kind = Current_slice \<and> \<not> hard_status ev path
       \<and> (sc_start s = None \<and> sc_symbol s = None \<and> changed_lines ev path \<noteq> []
          \<or> sc_start s \<noteq> None \<and> (case line of PInt n \<Rightarrow> inside n (changed_lines ev path) | _ \<Rightarrow> False))) ms"

definition unanchored_exact :: "stack_validation \<Rightarrow> string \<Rightarrow> stack_match list \<Rightarrow> bool" where
  "unanchored_exact r path ms \<longleftrightarrow>
     list_ex (\<lambda>(kind, i, ev, s). sc_start s = None \<and> sc_symbol s = None \<and> \<not> hard_status ev path \<and> changed_lines ev path \<noteq> []
       \<and> (kind = Current_slice \<or> file_scope_stable path i (evidence_set r))) ms"

definition unmapped_line :: "stack_validation \<Rightarrow> string \<Rightarrow> pyval \<Rightarrow> bool" where
  "unmapped_line r path line \<longleftrightarrow>
     list_ex (\<lambda>ev. path \<in> set (ev_uncertain ev) \<and> (case line of PInt n \<Rightarrow> \<not> inside n (changed_lines ev path) | _ \<Rightarrow> True)) (evidence_set r)"

definition uncertain_mapping :: "stack_validation \<Rightarrow> string \<Rightarrow> pyval \<Rightarrow> stack_match list \<Rightarrow> bool" where
  "uncertain_mapping r path line ms \<longleftrightarrow>
     (\<not> (current_exact path line ms \<or> unanchored_exact r path ms) \<and> unmapped_line r path line)
     \<or> matching_shifted r path line ms
     \<or> (shifted_dependency r path line \<and> (\<not> current_exact path line ms \<or> matching_shifted r path line ms))
     \<or> list_ex (\<lambda>ev. hard_status ev path) (evidence_set r)"

definition kind_name :: "match_kind \<Rightarrow> string" where
  "kind_name k = (case k of Current_slice \<Rightarrow> ''current_slice'' | Inherited_dependency \<Rightarrow> ''inherited_dependency'')"

definition attribute_path :: "stack_validation \<Rightarrow> pydict \<Rightarrow> string \<Rightarrow> pyval" where
  "attribute_path r f path =
     (let ms = stack_matches r f path; owners = owner_matches ms; down = downstream_matches r f path in
      if uncertain_mapping r path (dget f ''line'') ms then attribution_dict ''unknown'' ''uncertain_git_mapping'' None None []
      else case (owners, down) of
        ([((kind, _), ev, _)], []) \<Rightarrow> attribution_dict (kind_name kind)
          (if kind = Current_slice then ''exact_current_scope'' else ''exact_dependency_scope'')
          (Some (sl_id (ev_slice ev))) (Some (sl_ref (ev_slice ev))) []
      | ([], [w]) \<Rightarrow> attribution_dict ''downstream_owned'' ''exact_downstream_scope'' None (Some (ow_ref w)) (ow_known w)
      | ([], []) \<Rightarrow> attribution_dict ''unknown'' ''no_owner_evidence'' None None []
      | (_, []) \<Rightarrow>
          if list_all (\<lambda>(_, _, exclusive). \<not> exclusive) owners then attribution_dict ''integration'' ''cross_slice_scope'' None None []
          else attribution_dict ''unknown'' ''ambiguous_owner'' None None []
      | _ \<Rightarrow> attribution_dict ''unknown'' ''ambiguous_owner'' None None [])"

definition attribute_finding :: "stack_validation \<Rightarrow> pydict \<Rightarrow> pyval" where
  "attribute_finding r f =
     (if sv_status r \<noteq> ''valid'' then attribution_dict ''unknown'' (sv_reason r) None None []
      else case path_value (dget f ''file'') of
        Inl _ \<Rightarrow> attribution_dict ''unknown'' ''invalid_finding_path'' None None []
      | Inr path \<Rightarrow>
          if fixture_or_test path then attribution_dict ''fixture_or_test'' ''test_or_fixture_path'' None None []
          else attribute_path r f path)"

definition classify_findings :: "stack_validation \<Rightarrow> pyval list \<Rightarrow> pyval list" where
  "classify_findings r findings = map (\<lambda>v. case v of
     PDict f \<Rightarrow> PDict (dset ''scope_attribution'' (attribute_finding r f) f) | _ \<Rightarrow> v) findings"

subsection \<open>The projections\<close>

definition projection :: "stack_validation \<Rightarrow> pydict" where
  "projection r =
     (let whole = (case sv_manifest r of Some m \<Rightarrow> if sv_status r = ''valid'' then Some m else None | None \<Rightarrow> None) in
      [(''schema_version'', opt_val (\<lambda>_. PInt 1) whole), (''status'', PStr (sv_status r)), (''reason_code'', PStr (sv_reason r)),
       (''manifest_digest'', opt_val PStr (case sv_manifest r of Some m \<Rightarrow> Some (mf_digest m) | None \<Rightarrow> sv_claimed r))]
      @ (case whole of None \<Rightarrow> []
         | Some m \<Rightarrow> [(''repository_id'', PStr (mf_repository m)), (''current_slice_id'', PStr (sl_id (mf_current m))),
             (''direct_parent'', opt_val PStr (mf_parent m)), (''dependency_count'', PInt (int (length (mf_deps m)))),
             (''downstream_owner_count'', PInt (int (length (mf_downstream m))))]))"

definition text_or :: "pyval \<Rightarrow> string \<Rightarrow> string" where
  "text_or v d = (case v of PStr s \<Rightarrow> if s = [] then d else s | _ \<Rightarrow> d)"

definition render_projection :: "pydict \<Rightarrow> string" where
  "render_projection value =
     (let status = text_or (dget value ''status'') ''ignored'';
          shown = (\<lambda>label v. case v of PStr s \<Rightarrow> if s = [] then [] else [label @ ''='' @ s] | _ \<Rightarrow> []);
          count = (case dget value ''dependency_count'' of PInt n \<Rightarrow> if 0 \<le> n then [''dependencies='' @ show_int n] else []
             | v \<Rightarrow> shown ''dependencies'' v) in
      join '' '' ([''SKODUN STACK: status='' @ status]
        @ (if status = ''valid''
           then shown ''slice'' (dget value ''current_slice_id'') @ count @ shown ''digest'' (dget value ''manifest_digest'')
           else [''reason='' @ text_or (dget value ''reason_code'') ''missing_projection''])))"

subsection \<open>The hint in the prompts\<close>

text \<open>\<open>clip_utf8\<close> on bytes: back over the continuation bytes to the last lead byte, which stays if its
  sequence is complete.\<close>

definition utf8_need :: "nat \<Rightarrow> nat option" where
  "utf8_need b0 = (if b0 < 128 then Some 0 else if 192 \<le> b0 \<and> b0 < 224 then Some 2
     else if 224 \<le> b0 \<and> b0 < 240 then Some 3 else if 240 \<le> b0 \<and> b0 < 248 then Some 4 else None)"

definition trim_tail :: "bytes \<Rightarrow> bytes" where
  "trim_tail clipped =
     (let index = length clipped - length (takeWhile (\<lambda>c. utf8_cont (code c)) (rev clipped)) in
      if index = 0 then []
      else case utf8_need (code (clipped ! (index - 1))) of
        None \<Rightarrow> take (index - 1) clipped
      | Some needed \<Rightarrow> if needed \<le> length clipped - (index - 1) then clipped else take (index - 1) clipped)"

definition clip_utf8 :: "bytes \<Rightarrow> nat \<Rightarrow> bytes" where
  "clip_utf8 data max_bytes = (if length data \<le> max_bytes then data else trim_tail (take max_bytes data))"

definition context_marker :: bytes where
  "context_marker = LF # ''[stack context truncated; full diff remains authoritative]'' @ [LF]"

definition scope_hint :: "scope \<Rightarrow> string" where
  "scope_hint s = sc_path s @ (case sc_start s of None \<Rightarrow> [] | Some n \<Rightarrow> CHR '':'' # show_int n)"

definition context_lines :: "stack_validation \<Rightarrow> string list" where
  "context_lines r =
     (case (sv_status r = ''valid'', sv_manifest r) of
        (True, Some m) \<Rightarrow>
          [''----- BEGIN STACK CONTEXT -----'', ''version=1 status=valid'',
           ''current_slice='' @ sl_id (mf_current m) @ '' commit='' @ sl_commit (mf_current m) @ '' direct_parent=''
             @ (case mf_parent m of Some (c # p) \<Rightarrow> c # p | _ \<Rightarrow> ''none''),
           ''dependencies='' @ join '','' (map (\<lambda>s. sl_id s @ ''@'' @ sl_commit s) (mf_deps m)),
           ''owned_scopes='' @ join '','' (map scope_hint (sl_ownership (mf_current m))),
           ''downstream_refs='' @ join '','' (map ow_ref (mf_downstream m)),
           ''Instruction: review the full DIFF; assign scope conservatively. Caller labels do not suppress findings.'',
           ''----- END STACK CONTEXT -----'']
      | _ \<Rightarrow> [''----- BEGIN STACK CONTEXT -----'', ''status='' @ sv_status r @ '' reason='' @ sv_reason r,
           ''----- END STACK CONTEXT -----''])"

text \<open>\<open>text.encode("utf-8")\<close> of the code points covered.\<close>

definition utf8_char :: "char \<Rightarrow> bytes" where
  "utf8_char c = (if code c < (128 :: nat) then [c] else [char_of (192 + code c div 64 :: nat), char_of (128 + code c mod 64 :: nat)])"

definition utf8_encode :: "string \<Rightarrow> bytes" where
  "utf8_encode s = concat (map utf8_char s)"

definition context_text :: "stack_validation \<Rightarrow> bytes" where
  "context_text r = utf8_encode (join [LF] (context_lines r) @ [LF])"

definition render_prompt_context :: "stack_validation option \<Rightarrow> nat \<Rightarrow> string + bytes \<times> bool" where
  "render_prompt_context validation max_bytes =
     (if max_bytes < 128 then Inl ''stack prompt context budget must be an int >= 128''
      else case validation of
        None \<Rightarrow> Inr ([], False)
      | Some r \<Rightarrow>
          let text = context_text r in
          if length text \<le> max_bytes then Inr (text, False)
          else Inr (clip_utf8 text (max_bytes - length context_marker) @ context_marker, True))"

subsection \<open>Scopes that match the same path overlap\<close>

lemma starts_with_iff: "starts_with p s \<longleftrightarrow> (\<exists>t. s = p @ t)"
  by (metis append_take_drop_id starts_with_append starts_with_def)

lemma common_path:
  assumes "p @ CHR ''/'' # t = q @ CHR ''/'' # u"
  shows "prefixes_overlap p q"
proof -
  from assms obtain us where "p = q @ us \<and> us @ CHR ''/'' # t = CHR ''/'' # u \<or> p @ us = q \<and> CHR ''/'' # t = us @ CHR ''/'' # u"
    by (auto simp: append_eq_append_conv2)
  then show ?thesis
    by (cases us) (auto simp: prefixes_overlap_def starts_with_iff)
qed

lemma prefixes_overlap_commute: "prefixes_overlap p q \<longleftrightarrow> prefixes_overlap q p"
  by (auto simp: prefixes_overlap_def)

lemma matching_paths_overlap:
  assumes "scope_path_matches a path" "scope_path_matches b path"
  shows "paths_overlap a b"
proof (cases "sc_kind a = Prefix \<and> sc_kind b = Prefix")
  case True
  then have "paths_overlap a b = prefixes_overlap (sc_path a) (sc_path b)" by (simp add: paths_overlap_def)
  moreover have "path = sc_path s \<or> (\<exists>t. path = sc_path s @ CHR ''/'' # t)" if "scope_path_matches s path" for s
    using that by (auto simp: scope_path_matches_def starts_with_iff)
  ultimately show ?thesis
    using assms common_path prefixes_overlap_commute
    by (metis append.assoc append_Cons append_Nil prefixes_overlap_def starts_with_append)
next
  case False
  with assms show ?thesis
    by (cases "sc_kind a"; cases "sc_kind b") (auto simp: paths_overlap_def scope_path_matches_def)
qed

lemma matching_scopes_overlap:
  assumes "scope_matches_finding a f path e" "scope_matches_finding b f path e'"
  shows "scopes_overlap a b"
proof -
  have "paths_overlap a b"
    using assms by (intro matching_paths_overlap) (auto simp: scope_matches_finding_def)
  moreover have "sc_symbol a = None \<or> sc_symbol b = None \<or> sc_symbol a = sc_symbol b"
    using assms by (auto simp: scope_matches_finding_def split: option.splits)
  moreover have "line_allowed a f path e" "line_allowed b f path e'"
    using assms by (simp_all add: scope_matches_finding_def)
  ultimately show ?thesis
    by (auto simp: scopes_overlap_def line_allowed_def split: option.splits pyval.splits)
qed

lemma no_exclusive_clash:
  assumes "\<not> exclusive_clash evs" "i < j" "j < length evs"
    and "a \<in> set (sl_ownership (ev_slice (evs ! i)))" "b \<in> set (sl_ownership (ev_slice (evs ! j)))"
    and "sc_exclusive a" "sc_exclusive b"
  shows "\<not> scopes_overlap a b"
  using assms
proof (induction evs arbitrary: i j)
  case (Cons ev evs)
  show ?case
  proof (cases i)
    case 0
    with Cons.prems have "evs ! (j - 1) \<in> set evs" "b \<in> set (sl_ownership (ev_slice (evs ! (j - 1))))"
        "a \<in> set (sl_ownership (ev_slice ev))"
      by (auto simp: nth_Cons')
    moreover from Cons.prems(1) have "\<forall>r \<in> set evs. \<forall>a \<in> set (sl_ownership (ev_slice ev)). \<forall>b \<in> set (sl_ownership (ev_slice r)).
        \<not> (sc_exclusive a \<and> sc_exclusive b \<and> scopes_overlap a b)"
      by (auto simp: list_ex_iff)
    ultimately show ?thesis using Cons.prems(6,7) by blast
  next
    case (Suc k)
    with Cons show ?thesis by (cases j) auto
  qed
qed simp

subsection \<open>What a valid stack was checked against\<close>

lemma ebind_InrE:
  assumes "ebind r f = Inr y"
  obtains x where "r = Inr x" "f x = Inr y"
  using assms by (auto simp: ebind_Inr_iff)

lemma git_answer_InrE:
  assumes "git_answer r = Inr x"
  obtains "r = Inr x"
  using assms by (auto simp: git_answer_def split: sum.splits)

lemma validate_cases:
  assumes "sv_status (validate g S c r) = ''valid''"
  obtains m deps current where "sr_manifest r = Some m" "validate_manifest g S c m = Inr (deps, current)"
    "sv_manifest (validate g S c r) = Some m" "evidence_set (validate g S c r) = deps @ [current]"
    "sv_deps (validate g S c r) = deps" "sv_current (validate g S c r) = Some current"
  using assms by (auto simp: validate_def ignored_def evidence_set_def split: option.splits sum.splits prod.splits)

lemma dependency_evidence_slices: "dependency_evidence g p items = Inr evs \<Longrightarrow> map ev_slice evs = items"
  by (induction items arbitrary: p evs) (auto simp: ebind_Inr_iff evidence_of_def Let_def)

lemma ev_slice_of [simp]: "ev_slice (evidence_of item d) = item"
  by (simp add: evidence_of_def Let_def)

lemma validate_manifest_checks:
  assumes "validate_manifest g S c m = Inr (deps, current)"
  shows "mf_base m = cp_base c" "mf_head m = cp_head c" "sg_repository g = Inr (Some (mf_repository m))"
    and "map ev_slice deps = mf_deps m" "ev_slice current = mf_current m"
    and "\<not> exclusive_clash (deps @ [current])"
    and "ev \<in> set (deps @ [current]) \<Longrightarrow> s \<in> set (sl_ownership (ev_slice ev)) \<Longrightarrow> scope_is_reachable s ev"
    and "\<exists>again. sg_full_diff g (cp_base c) = Inr again \<and> same_full_identity S again (cp_diff c) \<and> sg_tree g (d_files again) = Inr (cp_tree c)"
    and "check_types g (mf_base m # map sl_commit (mf_deps m) @ [mf_head m]) = Inr ()"
    and "check_edges g (mf_deps m = []) (mf_base m # map sl_commit (mf_deps m) @ [mf_head m]) = Inr ()"
proof -
  have facts: "sg_repository g = Inr (Some (mf_repository m))" "mf_base m = cp_base c" "mf_head m = cp_head c"
      "check_types g (mf_base m # map sl_commit (mf_deps m) @ [mf_head m]) = Inr ()"
      "check_edges g (mf_deps m = []) (mf_base m # map sl_commit (mf_deps m) @ [mf_head m]) = Inr ()"
      "dependency_evidence g (mf_base m) (mf_deps m) = Inr deps" "ev_slice current = mf_current m"
      "list_all (\<lambda>ev. list_all (\<lambda>s. scope_is_reachable s ev) (sl_ownership (ev_slice ev))) (deps @ [current])"
      "\<not> exclusive_clash (deps @ [current])"
      "\<exists>again. sg_full_diff g (cp_base c) = Inr again \<and> same_full_identity S again (cp_diff c) \<and> sg_tree g (d_files again) = Inr (cp_tree c)"
    using assms unfolding validate_manifest_def Let_def by (auto elim!: ebind_InrE git_answer_InrE simp del: check_types.simps check_edges.simps)
  show "mf_base m = cp_base c" "mf_head m = cp_head c" "sg_repository g = Inr (Some (mf_repository m))"
    "check_types g (mf_base m # map sl_commit (mf_deps m) @ [mf_head m]) = Inr ()"
    "check_edges g (mf_deps m = []) (mf_base m # map sl_commit (mf_deps m) @ [mf_head m]) = Inr ()"
    "\<exists>again. sg_full_diff g (cp_base c) = Inr again \<and> same_full_identity S again (cp_diff c) \<and> sg_tree g (d_files again) = Inr (cp_tree c)"
    "\<not> exclusive_clash (deps @ [current])"
    by (rule facts)+
  show "map ev_slice deps = mf_deps m" by (rule dependency_evidence_slices [OF facts(6)])
  show "ev_slice current = mf_current m" by (rule facts)
  show "ev \<in> set (deps @ [current]) \<Longrightarrow> s \<in> set (sl_ownership (ev_slice ev)) \<Longrightarrow> scope_is_reachable s ev"
    using facts(8) unfolding list_all_iff by blast
qed

subsection \<open>Clipping\<close>

lemma utf8_encode_Nil [simp]: "utf8_encode [] = []"
  and utf8_encode_Cons [simp]: "utf8_encode (c # s) = utf8_char c @ utf8_encode s"
  by (simp_all add: utf8_encode_def)

lemma utf8_encode_append: "utf8_encode (s @ t) = utf8_encode s @ utf8_encode t"
  by (simp add: utf8_encode_def)

definition lone_lead :: "bytes \<Rightarrow> bool" where
  "lone_lead r \<longleftrightarrow> r = [] \<or> (\<exists>b. r = [b] \<and> 192 \<le> (code b :: nat) \<and> (code b :: nat) < 224)"

lemma utf8_char_bytes:
  obtains "utf8_char c = [c]" "(code c :: nat) < 128"
  | x y where "utf8_char c = [x, y]" "192 \<le> (code x :: nat)" "(code x :: nat) < 224" "utf8_cont (code y)"
proof (cases "(code c :: nat) < 128")
  case False
  have "code c div 64 < (4 :: nat)" "code c mod 64 < (64 :: nat)" by (auto intro!: less_mult_imp_div_less)
  then have "192 + code c div 64 < (224 :: nat)" "128 + code c mod 64 < (192 :: nat)" by linarith+
  with False that(2) [of "char_of (192 + code c div 64 :: nat)" "char_of (128 + code c mod 64 :: nat)"] show ?thesis
    by (simp add: utf8_char_def utf8_cont_def)
qed (auto simp: utf8_char_def intro: that)

lemma take_utf8_encode:
  "\<exists>k r. take n (utf8_encode s) = utf8_encode (take k s) @ r \<and> lone_lead r"
proof (induction s arbitrary: n)
  case Nil
  then show ?case by (auto simp: lone_lead_def)
next
  case (Cons c s)
  show ?case
  proof (cases "length (utf8_char c) \<le> n")
    case True
    obtain k r where "take (n - length (utf8_char c)) (utf8_encode s) = utf8_encode (take k s) @ r" "lone_lead r"
      using Cons.IH by blast
    with True show ?thesis by (intro exI [of _ "Suc k"] exI [of _ r]) simp
  next
    case False
    then have "lone_lead (take n (utf8_encode (c # s)))"
      by (cases c rule: utf8_char_bytes) (auto simp: lone_lead_def take_Cons' not_le split: if_splits)
    then show ?thesis by (intro exI [of _ 0] exI [of _ "take n (utf8_encode (c # s))"]) simp
  qed
qed

lemma trim_whole:
  assumes "lone_lead r"
  shows "trim_tail (utf8_encode s @ r) = utf8_encode s"
proof (cases "r = []")
  case False
  with assms obtain b where b: "r = [b]" "192 \<le> (code b :: nat)" "(code b :: nat) < 224" by (auto simp: lone_lead_def)
  then have "\<not> utf8_cont (code b)" "utf8_need (code b) = Some 2" by (auto simp: utf8_cont_def utf8_need_def)
  with b show ?thesis by (simp add: trim_tail_def nth_append)
next
  case True
  show ?thesis
  proof (cases s rule: rev_cases)
    case Nil
    with True show ?thesis by (simp add: trim_tail_def)
  next
    case (snoc t c)
    show ?thesis
    proof (cases c rule: utf8_char_bytes)
      case 1
      then have "\<not> utf8_cont (code c)" "utf8_need (code c) = Some 0" by (auto simp: utf8_cont_def utf8_need_def)
      with 1 True snoc show ?thesis by (simp add: trim_tail_def utf8_encode_append nth_append)
    next
      case (2 x y)
      then have "\<not> utf8_cont (code x)" "utf8_need (code x) = Some 2" by (auto simp: utf8_cont_def utf8_need_def)
      with 2 True snoc show ?thesis by (simp add: trim_tail_def utf8_encode_append nth_append)
    qed
  qed
qed

lemma clip_is_whole_characters: "\<exists>k. clip_utf8 (utf8_encode s) n = utf8_encode (take k s)"
proof -
  obtain k r where "take n (utf8_encode s) = utf8_encode (take k s) @ r" "lone_lead r" using take_utf8_encode by blast
  then show ?thesis
    by (cases "length (utf8_encode s) \<le> n") (auto simp: clip_utf8_def trim_whole intro: exI [of _ "length s"])
qed

lemma trim_tail_short: "length (trim_tail b) \<le> length b"
  by (auto simp: trim_tail_def Let_def split: option.splits)

lemma clip_short: "length (clip_utf8 b n) \<le> n"
  using trim_tail_short [of "take n b"] by (auto simp: clip_utf8_def)

lemma context_marker_length: "length context_marker = 60"
  by (simp add: context_marker_def)

subsection \<open>Round trip of a manifest\<close>

definition scope_ok :: "scope \<Rightarrow> bool" where
  "scope_ok s \<longleftrightarrow> path_ok (sc_path s) \<and> (case sc_start s of None \<Rightarrow> True | Some n \<Rightarrow> 1 \<le> n) \<and> (case sc_end s of None \<Rightarrow> True | Some n \<Rightarrow> 1 \<le> n)
     \<and> range_ok (sc_start s) (sc_end s) \<and> (case sc_symbol s of None \<Rightarrow> True | Some y \<Rightarrow> valid_text max_id_chars y)
     \<and> (sc_kind s = Prefix \<longrightarrow> sc_start s = None \<and> sc_symbol s = None)"

definition slice_ok :: "slice \<Rightarrow> bool" where
  "slice_ok s \<longleftrightarrow> valid_text max_id_chars (sl_id s) \<and> oid_ok (sl_commit s) \<and> tracking_ok (sl_ref s)
     \<and> length (sl_ownership s) \<le> max_scopes_per_owner \<and> list_all scope_ok (sl_ownership s)"

definition owner_ok :: "downstream_owner \<Rightarrow> bool" where
  "owner_ok w \<longleftrightarrow> tracking_ok (ow_ref w) \<and> length (ow_ownership w) \<le> max_scopes_per_owner \<and> list_all scope_ok (ow_ownership w)
     \<and> length (ow_known w) \<le> max_known_finding_refs \<and> list_all (valid_text max_id_chars) (ow_known w)"

definition manifest_ok :: "(string \<Rightarrow> string) \<Rightarrow> manifest \<Rightarrow> bool" where
  "manifest_ok H m \<longleftrightarrow> repository_ok (mf_repository m) \<and> oid_ok (mf_base m) \<and> oid_ok (mf_head m)
     \<and> (case mf_parent m of None \<Rightarrow> True | Some p \<Rightarrow> valid_text max_id_chars p)
     \<and> length (mf_deps m) \<le> max_dependencies \<and> list_all slice_ok (mf_deps m) \<and> slice_ok (mf_current m)
     \<and> length (mf_downstream m) \<le> max_downstream_owners \<and> list_all owner_ok (mf_downstream m)
     \<and> valid_text max_id_chars (mf_producer m) \<and> valid_text max_id_chars (mf_version m) \<and> valid_text 71 (mf_digest m)
     \<and> manifest_problem H m = None"

definition document :: "manifest \<Rightarrow> pyval" where
  "document m = PDict (semantic_dict m @ [(''manifest_digest'', PStr (mf_digest m))])"

lemma opt_val_eq [simp]:
  "opt_val PStr a = opt_val PStr b \<longleftrightarrow> a = b"
  "opt_val PInt i = opt_val PInt j \<longleftrightarrow> i = j"
  by (auto simp: opt_val_def split: option.splits)

lemma value_Inr_iffs [simp]:
  "object_field v = Inr d \<longleftrightarrow> v = PDict d"
  "text_value n v = Inr s \<longleftrightarrow> v = PStr s \<and> valid_text n s"
  "repository_value v = Inr s \<longleftrightarrow> v = PStr s \<and> repository_ok s"
  "oid_value v = Inr s \<longleftrightarrow> v = PStr s \<and> oid_ok s"
  "tracking_value v = Inr s \<longleftrightarrow> v = PStr s \<and> tracking_ok s"
  "path_value v = Inr s \<longleftrightarrow> v = PStr s \<and> path_ok s"
  "array_value n v = Inr xs \<longleftrightarrow> v = PList xs \<and> length xs \<le> n"
  "schema_value v = Inr u \<longleftrightarrow> v = PInt 1"
  "line_value v = Inr ln \<longleftrightarrow> v = opt_val PInt ln \<and> (case ln of None \<Rightarrow> True | Some n \<Rightarrow> 1 \<le> n)"
  "opt_text_value v = Inr sy \<longleftrightarrow> v = opt_val PStr sy \<and> (case sy of None \<Rightarrow> True | Some y \<Rightarrow> valid_text max_id_chars y)"
  by (auto simp: object_field_def text_value_def repository_value_def oid_value_def tracking_value_def path_value_def array_value_def
      schema_value_def line_value_def opt_text_value_def opt_val_def ebind_Inr_iff split: pyval.splits if_splits option.splits)

lemma kind_value_Inr [simp]: "kind_value v = Inr k \<longleftrightarrow> v = PStr (case k of File \<Rightarrow> ''file'' | Prefix \<Rightarrow> ''prefix'')"
  by (cases k) (auto simp: kind_value_def split: pyval.splits if_splits)

lemma exact_keys_self: "set (map fst d) = set ks \<Longrightarrow> exact_keys d ks = Inr ()"
  by (simp add: exact_keys_def)

lemma emap_Inr: "emap f xs = Inr ys \<longleftrightarrow> list_all2 (\<lambda>x y. f x = Inr y) xs ys"
  by (induction xs arbitrary: ys) (auto simp: ebind_Inr_iff list_all2_Cons1)

lemma emap_sound: "emap f xs = Inr ys \<Longrightarrow> (\<And>x y. f x = Inr y \<Longrightarrow> P y) \<Longrightarrow> list_all P ys \<and> length ys = length xs"
  unfolding emap_Inr by (induction rule: list_all2_induct) auto

lemma emap_document: "list_all P ys \<Longrightarrow> (\<And>y. P y \<Longrightarrow> f (g y) = Inr y) \<Longrightarrow> emap f (map g ys) = Inr ys"
  by (induction ys) auto

lemma parse_scope_document:
  assumes "scope_ok s"
  shows "parse_scope (scope_dict s) = Inr s"
proof -
  have "exact_keys (case scope_dict s of PDict d \<Rightarrow> d | _ \<Rightarrow> []) scope_keys = Inr ()"
    by (rule exact_keys_self) (auto simp: scope_dict_def scope_keys_def)
  then show ?thesis
    using assms unfolding parse_scope_def scope_ok_def
    by (auto simp: ebind_Inr_iff scope_dict_def dget_def)
qed

lemma parse_scope_sound: "parse_scope v = Inr s \<Longrightarrow> scope_ok s"
  by (auto simp: parse_scope_def ebind_Inr_iff scope_ok_def)

lemma parse_scopes_document:
  "list_all scope_ok ss \<Longrightarrow> length ss \<le> max_scopes_per_owner \<Longrightarrow> parse_scopes (PList (map scope_dict ss)) = Inr ss"
  by (auto simp: parse_scopes_def ebind_Inr_iff intro!: emap_document parse_scope_document)

lemma parse_scopes_sound: "parse_scopes v = Inr ss \<Longrightarrow> list_all scope_ok ss \<and> length ss \<le> max_scopes_per_owner"
  by (auto simp: parse_scopes_def ebind_Inr_iff dest!: emap_sound [where P = scope_ok] intro: parse_scope_sound)

lemma parse_slice_document: "slice_ok s \<Longrightarrow> parse_slice (slice_dict s) = Inr s"
proof -
  assume s: "slice_ok s"
  have "exact_keys (case slice_dict s of PDict d \<Rightarrow> d | _ \<Rightarrow> []) slice_keys = Inr ()"
    by (rule exact_keys_self) (auto simp: slice_dict_def slice_keys_def)
  with s show ?thesis
    unfolding parse_slice_def slice_ok_def by (auto simp: ebind_Inr_iff slice_dict_def dget_def parse_scopes_document)
qed

lemma parse_slice_sound: "parse_slice v = Inr s \<Longrightarrow> slice_ok s"
  by (auto simp: parse_slice_def ebind_Inr_iff slice_ok_def dest: parse_scopes_sound)

lemma parse_downstream_document: "owner_ok w \<Longrightarrow> parse_downstream (owner_dict w) = Inr w"
proof -
  assume w: "owner_ok w"
  have "exact_keys (case owner_dict w of PDict d \<Rightarrow> d | _ \<Rightarrow> []) owner_keys = Inr ()"
    by (rule exact_keys_self) (auto simp: owner_dict_def owner_keys_def)
  moreover have "emap (text_value max_id_chars) (map PStr (ow_known w)) = Inr (ow_known w)"
    using w by (intro emap_document [where P = "valid_text max_id_chars"]) (simp_all add: owner_ok_def)
  ultimately show ?thesis
    using w unfolding parse_downstream_def owner_ok_def by (auto simp: ebind_Inr_iff owner_dict_def dget_def parse_scopes_document)
qed

lemma parse_downstream_sound: "parse_downstream v = Inr w \<Longrightarrow> owner_ok w"
  by (auto simp: parse_downstream_def ebind_Inr_iff owner_ok_def dest: parse_scopes_sound dest!: emap_sound [where P = "valid_text max_id_chars"])

lemma parse_document:
  assumes "manifest_ok H m"
  shows "parse_manifest H (document m) = Inr m"
proof -
  let ?d = "semantic_dict m @ [(''manifest_digest'', PStr (mf_digest m))]"
  have keys: "exact_keys ?d manifest_keys = Inr ()"
    by (rule exact_keys_self) (auto simp: semantic_dict_def manifest_keys_def)
  have gets: "dget ?d ''schema_version'' = PInt 1" "dget ?d ''dependencies'' = PList (map slice_dict (mf_deps m))"
    "dget ?d ''downstream_owners'' = PList (map owner_dict (mf_downstream m))"
    "dget ?d ''producer'' = PDict [(''id'', PStr (mf_producer m)), (''version'', PStr (mf_version m))]"
    "dget ?d ''repository_id'' = PStr (mf_repository m)" "dget ?d ''certification_base'' = PStr (mf_base m)"
    "dget ?d ''current_head'' = PStr (mf_head m)" "dget ?d ''direct_parent'' = opt_val PStr (mf_parent m)"
    "dget ?d ''current_slice'' = slice_dict (mf_current m)" "dget ?d ''manifest_digest'' = PStr (mf_digest m)"
    by (simp_all add: semantic_dict_def dget_def)
  have lists: "emap parse_slice (map slice_dict (mf_deps m)) = Inr (mf_deps m)" "parse_slice (slice_dict (mf_current m)) = Inr (mf_current m)"
    "emap parse_downstream (map owner_dict (mf_downstream m)) = Inr (mf_downstream m)"
    using assms by (auto simp: manifest_ok_def intro!: emap_document parse_slice_document parse_downstream_document)
  have producer: "exact_keys [(''id'', PStr (mf_producer m)), (''version'', PStr (mf_version m))] [''id'', ''version''] = Inr ()"
    by (rule exact_keys_self) simp
  have self: "\<lparr>mf_repository = mf_repository m, mf_base = mf_base m, mf_head = mf_head m, mf_parent = mf_parent m, mf_deps = mf_deps m,
      mf_current = mf_current m, mf_downstream = mf_downstream m, mf_producer = mf_producer m, mf_version = mf_version m,
      mf_digest = mf_digest m\<rparr> = m" by simp
  show ?thesis
    using assms keys lists producer unfolding parse_manifest_def document_def manifest_ok_def
    by (auto simp: ebind_Inr_iff gets Let_def self dget_def [of "[(''id'', _), _]"])
qed

lemma parse_sound:
  assumes "parse_manifest H v = Inr m"
  shows "manifest_ok H m"
proof -
  from assms have problem: "manifest_problem H m = None"
    unfolding parse_manifest_def by (elim ebind_InrE) (auto simp: Let_def split: option.splits)
  from assms have plain: "repository_ok (mf_repository m)" "oid_ok (mf_base m)" "oid_ok (mf_head m)"
      "case mf_parent m of None \<Rightarrow> True | Some p \<Rightarrow> valid_text max_id_chars p"
      "valid_text max_id_chars (mf_producer m)" "valid_text max_id_chars (mf_version m)" "valid_text 71 (mf_digest m)"
    unfolding parse_manifest_def by (elim ebind_InrE; auto simp: Let_def split: option.splits)+
  from assms obtain deps_raw down_raw v where lists: "emap parse_slice deps_raw = Inr (mf_deps m)" "length deps_raw \<le> max_dependencies"
      "emap parse_downstream down_raw = Inr (mf_downstream m)" "length down_raw \<le> max_downstream_owners"
      "parse_slice v = Inr (mf_current m)"
    unfolding parse_manifest_def by (elim ebind_InrE) (auto simp: Let_def split: option.splits)
  have "list_all slice_ok (mf_deps m) \<and> length (mf_deps m) = length deps_raw"
    by (rule emap_sound [OF lists(1) parse_slice_sound])
  moreover have "list_all owner_ok (mf_downstream m) \<and> length (mf_downstream m) = length down_raw"
    by (rule emap_sound [OF lists(3) parse_downstream_sound])
  ultimately show ?thesis
    using problem plain lists parse_slice_sound [OF lists(5)] by (simp add: manifest_ok_def)
qed

subsection \<open>The digest determines the manifest\<close>

lemma sorted_opt [simp]: "sorted_keys (opt_val PStr x) = opt_val PStr x" "sorted_keys (opt_val PInt i) = opt_val PInt i"
  by (simp_all add: opt_val_def split: option.split)

lemma sorted_strings [simp]: "map (sorted_keys \<circ> PStr) xs = map PStr xs"
  by simp

lemma scope_dict_inj:
  assumes "sorted_keys (scope_dict s) = sorted_keys (scope_dict t)"
  shows "s = t"
proof -
  define fields where "fields = (\<lambda>s. case scope_dict s of PDict d \<Rightarrow> d | _ \<Rightarrow> [])"
  have f: "scope_dict s = PDict (fields s)" "distinct (map fst (fields s))" for s by (simp_all add: fields_def scope_dict_def)
  have e: "sorted_keys (PDict (fields s)) = sorted_keys (PDict (fields t))" using assms by (simp only: f(1))
  note look = sorted_keys_dget [OF e f(2) f(2)]
  from look [of "''kind''"] look [of "''path''"] look [of "''exclusive''"] look [of "''line_start''"] look [of "''line_end''"] look [of "''symbol''"]
  show ?thesis by (simp add: fields_def scope_dict_def dget_def split: scope_kind.splits)
qed

lemma mapped_inj: "map f xs = map f ys \<Longrightarrow> (\<And>x y. f x = f y \<Longrightarrow> x = y) \<Longrightarrow> xs = ys"
  by (metis inj_onI map_inj_on)

lemma slice_dict_inj:
  assumes "sorted_keys (slice_dict s) = sorted_keys (slice_dict t)"
  shows "s = t"
proof -
  define fields where "fields = (\<lambda>s. case slice_dict s of PDict d \<Rightarrow> d | _ \<Rightarrow> [])"
  have f: "slice_dict s = PDict (fields s)" "distinct (map fst (fields s))" for s by (simp_all add: fields_def slice_dict_def)
  have e: "sorted_keys (PDict (fields s)) = sorted_keys (PDict (fields t))" using assms by (simp only: f(1))
  note look = sorted_keys_dget [OF e f(2) f(2)]
  have "map (\<lambda>x. sorted_keys (scope_dict x)) (sl_ownership s) = map (\<lambda>x. sorted_keys (scope_dict x)) (sl_ownership t)"
    using look [of "''ownership''"] by (simp add: fields_def slice_dict_def dget_def comp_def)
  then have "sl_ownership s = sl_ownership t" by (rule mapped_inj) (rule scope_dict_inj)
  with look [of "''slice_id''"] look [of "''commit''"] look [of "''tracking_ref''"]
  show ?thesis by (simp add: fields_def slice_dict_def dget_def)
qed

lemma owner_dict_inj:
  assumes "sorted_keys (owner_dict s) = sorted_keys (owner_dict t)"
  shows "s = t"
proof -
  define fields where "fields = (\<lambda>s. case owner_dict s of PDict d \<Rightarrow> d | _ \<Rightarrow> [])"
  have f: "owner_dict s = PDict (fields s)" "distinct (map fst (fields s))" for s by (simp_all add: fields_def owner_dict_def)
  have e: "sorted_keys (PDict (fields s)) = sorted_keys (PDict (fields t))" using assms by (simp only: f(1))
  note look = sorted_keys_dget [OF e f(2) f(2)]
  have "map (\<lambda>x. sorted_keys (scope_dict x)) (ow_ownership s) = map (\<lambda>x. sorted_keys (scope_dict x)) (ow_ownership t)"
    using look [of "''ownership''"] by (simp add: fields_def owner_dict_def dget_def comp_def)
  then have "ow_ownership s = ow_ownership t" by (rule mapped_inj) (rule scope_dict_inj)
  moreover have "map PStr (ow_known s) = map PStr (ow_known t)"
    using look [of "''known_finding_refs''"] by (simp add: fields_def owner_dict_def dget_def comp_def)
  then have "ow_known s = ow_known t" by (rule mapped_inj) simp
  ultimately show ?thesis using look [of "''tracking_ref''"] by (simp add: fields_def owner_dict_def dget_def)
qed

lemma semantic_gets:
  "dget (semantic_dict m) ''repository_id'' = PStr (mf_repository m)" "dget (semantic_dict m) ''certification_base'' = PStr (mf_base m)"
  "dget (semantic_dict m) ''current_head'' = PStr (mf_head m)" "dget (semantic_dict m) ''direct_parent'' = opt_val PStr (mf_parent m)"
  "dget (semantic_dict m) ''dependencies'' = PList (map slice_dict (mf_deps m))"
  "dget (semantic_dict m) ''current_slice'' = slice_dict (mf_current m)"
  "dget (semantic_dict m) ''downstream_owners'' = PList (map owner_dict (mf_downstream m))"
  "dget (semantic_dict m) ''producer'' = PDict [(''id'', PStr (mf_producer m)), (''version'', PStr (mf_version m))]"
  by (simp_all add: semantic_dict_def dget_def)

lemma semantic_dict_inj:
  assumes "sorted_keys (PDict (semantic_dict m)) = sorted_keys (PDict (semantic_dict n))" "mf_digest m = mf_digest n"
  shows "m = n"
proof -
  have distinct: "distinct (map fst (semantic_dict m))" for m by (simp add: semantic_dict_def)
  note look = sorted_keys_dget [OF assms(1) distinct distinct]
  have "map (\<lambda>x. sorted_keys (slice_dict x)) (mf_deps m) = map (\<lambda>x. sorted_keys (slice_dict x)) (mf_deps n)"
    using look [of "''dependencies''"] by (simp add: semantic_gets comp_def)
  then have deps: "mf_deps m = mf_deps n" by (rule mapped_inj) (rule slice_dict_inj)
  have "map (\<lambda>x. sorted_keys (owner_dict x)) (mf_downstream m) = map (\<lambda>x. sorted_keys (owner_dict x)) (mf_downstream n)"
    using look [of "''downstream_owners''"] by (simp add: semantic_gets comp_def)
  then have down: "mf_downstream m = mf_downstream n" by (rule mapped_inj) (rule owner_dict_inj)
  have "mf_current m = mf_current n" using look [of "''current_slice''"] by (intro slice_dict_inj) (simp add: semantic_gets)
  with deps down assms(2) look [of "''repository_id''"] look [of "''certification_base''"] look [of "''current_head''"]
    look [of "''direct_parent''"] look [of "''producer''"]
  show ?thesis by (simp add: semantic_gets)
qed

lemma scope_plain: "finite_floats (scope_dict s)" "float_reprs (scope_dict s)"
  by (simp_all add: scope_dict_def opt_val_def split: option.split)

lemma slice_plain: "finite_floats (slice_dict s)" "float_reprs (slice_dict s)"
  by (simp_all add: slice_dict_def list_all_iff scope_plain)

lemma owner_plain: "finite_floats (owner_dict w)" "float_reprs (owner_dict w)"
  by (simp_all add: owner_dict_def list_all_iff scope_plain)

lemma semantic_plain: "finite_floats (PDict (semantic_dict m))" "float_reprs (PDict (semantic_dict m))"
  by (simp_all add: semantic_dict_def opt_val_def list_all_iff slice_plain owner_plain split: option.split)

definition manifest_text :: "manifest \<Rightarrow> string" where
  "manifest_text m = emit False (sorted_keys (PDict (semantic_dict m)))"

lemma manifest_digest_text: "manifest_digest H m = ''sha256:'' @ H (manifest_text m)"
  using semantic_plain(1) by (simp add: manifest_digest_def canonical_digest_def dumps_def manifest_text_def)

lemma accepted_digest: "manifest_ok H m \<Longrightarrow> manifest_digest H m = mf_digest m"
  by (auto simp: manifest_ok_def manifest_problem_def split: if_splits)

lemma manifest_text_inj:
  assumes "manifest_text m = manifest_text n" "mf_digest m = mf_digest n"
  shows "m = n"
  by (rule semantic_dict_inj [OF dumps_determines [OF semantic_plain(2) semantic_plain(2), of False m n] assms(2)])
    (use assms(1) semantic_plain(1) in \<open>auto simp: dumps_def manifest_text_def\<close>)

text \<open>C15 (roundtrip).  The parser accepts exactly the manifests the module promises. What it returns satisfies every bound,
  shape and consistency check of the format, every manifest that does is read back from its own document unchanged, and
  where the hash of the two texts does not collide, two accepted documents with the same digest are the same manifest.\<close>

theorem manifest_roundtrip:
  "(manifest_ok H m \<longrightarrow> parse_manifest H (document m) = Inr m)
   \<and> (parse_manifest H v = Inr m \<longrightarrow> manifest_ok H m)
   \<and> (parse_manifest H v = Inr m \<longrightarrow> parse_manifest H w = Inr n \<longrightarrow> mf_digest m = mf_digest n
        \<longrightarrow> inj_on H {manifest_text m, manifest_text n} \<longrightarrow> m = n)"
proof -
  have "m = n" if "parse_manifest H v = Inr m" "parse_manifest H w = Inr n" "mf_digest m = mf_digest n"
      "inj_on H {manifest_text m, manifest_text n}"
  proof -
    have "H (manifest_text m) = H (manifest_text n)"
      using accepted_digest [OF parse_sound [OF that(1)]] accepted_digest [OF parse_sound [OF that(2)]] that(3)
      unfolding manifest_digest_text by (metis same_append_eq)
    with that(4) have "manifest_text m = manifest_text n" by (auto dest: inj_onD)
    then show ?thesis using that(3) by (rule manifest_text_inj)
  qed
  then show ?thesis using parse_document parse_sound by blast
qed

subsection \<open>The owner an attribution names\<close>

lemma owner_matches_snoc: "owner_matches (ms @ [mt]) = add_owner mt (owner_matches ms)"
  by (simp add: owner_matches_def)

lemma owner_matches_keys: "fst ` set (owner_matches ms) = owner_key ` set ms"
proof (induction ms rule: rev_induct)
  case (snoc mt ms)
  have "fst ` set (add_owner mt os) = insert (owner_key mt) (fst ` set os)" for os
    by (cases mt) (simp add: add_owner_def dom_map_of_conv_image_fst [symmetric] update_conv' del: fun_upd_apply)
  with snoc show ?case by (simp add: owner_matches_snoc)
qed (simp add: owner_matches_def)

lemma owner_matches_value:
  "map_of (owner_matches ms) k = Some (ev, x) \<Longrightarrow> \<exists>kind i s. (kind, i, ev, s) \<in> set ms \<and> owner_key (kind, i, ev, s) = k"
proof (induction ms arbitrary: ev x rule: rev_induct)
  case (snoc mt ms)
  obtain kind i e s where mt: "mt = (kind, i, e, s)" by (cases mt) auto
  show ?case
  proof (cases "k = owner_key mt")
    case True
    with snoc.prems show ?thesis
      by (auto simp: owner_matches_snoc mt add_owner_def update_conv intro!: exI [of _ kind] exI [of _ i] exI [of _ s])
  next
    case False
    with snoc.prems have "map_of (owner_matches ms) k = Some (ev, x)"
      by (auto simp: owner_matches_snoc mt add_owner_def update_conv)
    with snoc.IH show ?thesis by fastforce
  qed
qed (simp add: owner_matches_def)

lemma single_owner:
  assumes "owner_matches ms = [((kind, k), ev, x)]"
  shows "k = (sl_id (ev_slice ev), sl_ref (ev_slice ev))"
    and "\<exists>i s. (kind, i, ev, s) \<in> set ms"
    and "(kind', i', ev', s') \<in> set ms \<Longrightarrow> kind' = kind \<and> sl_id (ev_slice ev') = sl_id (ev_slice ev) \<and> sl_ref (ev_slice ev') = sl_ref (ev_slice ev)"
proof -
  from owner_matches_value [of ms "(kind, k)" ev x] assms
  obtain i s where m: "(kind, i, ev, s) \<in> set ms" "owner_key (kind, i, ev, s) = (kind, k)"
    by (auto simp: owner_key_def)
  then show k: "k = (sl_id (ev_slice ev), sl_ref (ev_slice ev))" and "\<exists>i s. (kind, i, ev, s) \<in> set ms"
    by (auto simp: owner_key_def)
  have "owner_key ` set ms = {(kind, k)}" using owner_matches_keys [of ms] assms by simp
  then have "owner_key mt = (kind, k)" if "mt \<in> set ms" for mt using that by blast
  from this [of "(kind', i', ev', s')"]
  show "(kind', i', ev', s') \<in> set ms \<Longrightarrow> kind' = kind \<and> sl_id (ev_slice ev') = sl_id (ev_slice ev) \<and> sl_ref (ev_slice ev') = sl_ref (ev_slice ev)"
    by (simp add: owner_key_def k)
qed

lemma attribution_inject:
  "attribution_dict a b c d e = attribution_dict a' b' c' d' e' \<Longrightarrow> a = a' \<and> opt_val PStr c = opt_val PStr c' \<and> opt_val PStr d = opt_val PStr d'"
  by (simp add: attribution_dict_def)

text \<open>The attribution of a finding by its path, seen as one of its outcomes.\<close>

lemma attribute_path_owner:
  assumes "attribute_path r f path = attribution_dict scope_name reason (Some i) ref known"
  obtains kind ev x where "owner_matches (stack_matches r f path) = [((kind, sl_id (ev_slice ev), sl_ref (ev_slice ev)), ev, x)]"
    "downstream_matches r f path = []" "\<not> uncertain_mapping r path (dget f ''line'') (stack_matches r f path)"
    "i = sl_id (ev_slice ev)" "ref = Some (sl_ref (ev_slice ev))" "scope_name = kind_name kind"
proof -
  let ?ms = "stack_matches r f path"
  have no: "attribution_dict a b None c d \<noteq> attribution_dict scope_name reason (Some i) ref known" for a b c d
    by (auto dest: attribution_inject)
  from assms no have u: "\<not> uncertain_mapping r path (dget f ''line'') ?ms" by (auto simp: attribute_path_def Let_def)
  show thesis
  proof (cases "owner_matches ?ms")
    case Nil
    with assms u no show thesis by (auto simp: attribute_path_def Let_def split: list.splits)
  next
    case (Cons m ms)
    obtain kind k ev x where m: "m = ((kind, k), ev, x)" by (cases m) auto
    show thesis
    proof (cases "ms = [] \<and> downstream_matches r f path = []")
      case True
      with Cons m have one: "owner_matches ?ms = [((kind, k), ev, x)]" by simp
      with assms u True have "attribution_dict (kind_name kind) (if kind = Current_slice then ''exact_current_scope'' else ''exact_dependency_scope'')
          (Some (sl_id (ev_slice ev))) (Some (sl_ref (ev_slice ev))) [] = attribution_dict scope_name reason (Some i) ref known"
        by (simp add: attribute_path_def Let_def split: if_splits)
      from attribution_inject [OF this] have "i = sl_id (ev_slice ev)" "ref = Some (sl_ref (ev_slice ev))" "scope_name = kind_name kind"
        by simp_all
      then show thesis using that [of kind ev x] one single_owner(1) [OF one] True u by simp
    next
      case False
      with assms u no Cons m show thesis
        by (cases ms; cases "downstream_matches r f path") (auto simp: attribute_path_def Let_def split: if_splits)
    qed
  qed
qed

lemma in_matches_in:
  "mt \<in> set (matches_in kind i ev f path) \<longleftrightarrow> (\<exists>s \<in> set (sl_ownership (ev_slice ev)). mt = (kind, i, ev, s)
     \<and> scope_matches_finding s f path (Some ev) \<and> path \<in> set (ev_files ev))"
  by (auto simp: matches_in_def)

lemma in_stack_matches:
  assumes "(kind, i, ev, s) \<in> set (stack_matches r f path)"
  shows "ev \<in> set (evidence_set r)" "s \<in> set (sl_ownership (ev_slice ev))" "scope_matches_finding s f path (Some ev)" "path \<in> set (ev_files ev)"
    and "i < length (evidence_set r)" "evidence_set r ! i = ev"
  using assms
  by (auto simp: stack_matches_def in_matches_in evidence_set_def in_set_enumerate_eq nth_append split: option.splits)

lemma stack_matches_complete:
  assumes "ev \<in> set (evidence_set r)" "s \<in> set (sl_ownership (ev_slice ev))" "scope_matches_finding s f path (Some ev)" "path \<in> set (ev_files ev)"
  shows "\<exists>kind i. (kind, i, ev, s) \<in> set (stack_matches r f path)"
proof -
  from assms(1) consider "sv_current r = Some ev" | i where "i < length (sv_deps r)" "sv_deps r ! i = ev"
    by (auto simp: evidence_set_def in_set_conv_nth split: option.splits)
  then show ?thesis
  proof cases
    case 1
    with assms show ?thesis by (auto simp: stack_matches_def in_matches_in)
  next
    case (2 i)
    then have "(i, ev) \<in> set (List.enumerate 0 (sv_deps r))" by (auto simp: in_set_enumerate_eq)
    with assms show ?thesis by (auto simp: stack_matches_def in_matches_in intro!: exI [of _ Inherited_dependency] exI [of _ i])
  qed
qed

lemma classify_nth:
  assumes "n < length findings"
  shows "findings ! n = PDict f \<Longrightarrow> classify_findings r findings ! n = PDict (dset ''scope_attribution'' (attribute_finding r f) f)"
    and "\<not> is_dict (findings ! n) \<Longrightarrow> classify_findings r findings ! n = findings ! n"
  using assms by (auto simp: classify_findings_def split: pyval.split)

lemma dset_other_entries: "filter (\<lambda>(k', _). k' \<noteq> k) (dset k v d) = filter (\<lambda>(k', _). k' \<noteq> k) d"
  unfolding dset_def by (induction d) auto

text \<open>What it takes for a finding to be attributed to the slice \<open>i\<close> under the reference \<open>ref\<close>.\<close>

definition earned :: "stack_validation \<Rightarrow> pydict \<Rightarrow> string \<Rightarrow> string option \<Rightarrow> bool" where
  "earned r f i ref \<longleftrightarrow> sv_status r = ''valid''
     \<and> (\<exists>path. dget f ''file'' = PStr path \<and> path_ok path \<and> \<not> fixture_or_test path \<and> downstream_matches r f path = []
          \<and> (\<exists>ev \<in> set (evidence_set r). \<exists>s \<in> set (sl_ownership (ev_slice ev)). sl_id (ev_slice ev) = i
               \<and> scope_matches_finding s f path (Some ev) \<and> path \<in> set (ev_files ev))
          \<and> (\<forall>ev \<in> set (evidence_set r). \<not> hard_status ev path
               \<and> (\<forall>s \<in> set (sl_ownership (ev_slice ev)). scope_matches_finding s f path (Some ev) \<and> path \<in> set (ev_files ev)
                    \<longrightarrow> sl_id (ev_slice ev) = i \<and> Some (sl_ref (ev_slice ev)) = ref)))"

lemma attribution_earned:
  assumes a: "attribute_finding r f = attribution_dict scope_name reason (Some i) ref known"
  shows "earned r f i ref"
proof -
  have no: "attribution_dict a b None c d \<noteq> attribution_dict scope_name reason (Some i) ref known" for a b c d
    by (auto dest: attribution_inject)
  from a no have valid: "sv_status r = ''valid''" by (auto simp: attribute_finding_def split: if_splits)
  from a no valid obtain path where path: "path_value (dget f ''file'') = Inr path" "\<not> fixture_or_test path"
      "attribute_path r f path = attribution_dict scope_name reason (Some i) ref known"
    by (auto simp: attribute_finding_def split: if_splits sum.splits)
  from attribute_path_owner [OF path(3)] obtain kind ev x
    where o: "owner_matches (stack_matches r f path) = [((kind, sl_id (ev_slice ev), sl_ref (ev_slice ev)), ev, x)]"
      and rest: "downstream_matches r f path = []" "\<not> uncertain_mapping r path (dget f ''line'') (stack_matches r f path)"
        "i = sl_id (ev_slice ev)" "ref = Some (sl_ref (ev_slice ev))" by metis
  from single_owner(2) [OF o] obtain j s where own: "(kind, j, ev, s) \<in> set (stack_matches r f path)" by blast
  have located: "dget f ''file'' = PStr path \<and> path_ok path"
    using path(1) by (auto simp: path_value_def split: pyval.splits if_splits)
  have soft: "\<not> hard_status e path" if "e \<in> set (evidence_set r)" for e
    using rest(2) that by (auto simp: uncertain_mapping_def list_ex_iff)
  have others: "sl_id (ev_slice e) = i \<and> Some (sl_ref (ev_slice e)) = ref"
    if "e \<in> set (evidence_set r)" "t \<in> set (sl_ownership (ev_slice e))" "scope_matches_finding t f path (Some e)" "path \<in> set (ev_files e)" for e t
    using stack_matches_complete [OF that] single_owner(3) [OF o] rest(3,4) by metis
  have owner: "\<exists>ev \<in> set (evidence_set r). \<exists>s \<in> set (sl_ownership (ev_slice ev)). sl_id (ev_slice ev) = i
      \<and> scope_matches_finding s f path (Some ev) \<and> path \<in> set (ev_files ev)"
    using in_stack_matches(1-4) [OF own] rest(3) by blast
  show ?thesis unfolding earned_def
    by (intro conjI exI [of _ path] ballI impI valid conjunct1 [OF located] conjunct2 [OF located] path(2) rest(1) owner soft)
      (blast dest: others)+
qed

text \<open>C13 (safety).  Stack metadata only annotates. Classifying findings, whatever the validation said and whatever they are, keeps their
  number and order and every entry of each but its attribution, and leaves what is not a dictionary alone. An attribution
  names an owning slice only where the stack was valid, some scope of that slice matches the finding on a file its diff
  touches, every other slice with such a scope carries the same id and reference, no downstream owner claims it too, and
  nothing renamed, copied or deleted the file.\<close>

theorem owner_is_earned:
  "length (classify_findings r findings) = length findings
   \<and> (\<forall>n < length findings.
        (\<not> is_dict (findings ! n) \<longrightarrow> classify_findings r findings ! n = findings ! n)
      \<and> (\<forall>f. findings ! n = PDict f \<longrightarrow>
           (\<exists>g. classify_findings r findings ! n = PDict g
              \<and> filter (\<lambda>(k, _). k \<noteq> ''scope_attribution'') g = filter (\<lambda>(k, _). k \<noteq> ''scope_attribution'') f
              \<and> (\<forall>scope_name reason i ref known.
                   dget g ''scope_attribution'' = attribution_dict scope_name reason (Some i) ref known \<longrightarrow> earned r f i ref))))"
  by (auto simp: classify_nth dset_other_entries intro: attribution_earned) (simp add: classify_findings_def)

lemma valid_stack_is_captured:
  assumes "sv_status (validate git S c r) = ''valid''"
  obtains m where "sv_manifest (validate git S c r) = Some m" "mf_base m = cp_base c" "mf_head m = cp_head c"
    "sg_repository git = Inr (Some (mf_repository m))" "map ev_slice (evidence_set (validate git S c r)) = mf_deps m @ [mf_current m]"
    "\<forall>ev \<in> set (evidence_set (validate git S c r)). \<forall>s \<in> set (sl_ownership (ev_slice ev)). scope_is_reachable s ev"
    "\<not> exclusive_clash (evidence_set (validate git S c r))"
proof -
  from validate_cases [OF assms(1)] obtain m deps current where m: "validate_manifest git S c m = Inr (deps, current)"
      "sv_manifest (validate git S c r) = Some m" "evidence_set (validate git S c r) = deps @ [current]"
    by metis
  note checks = validate_manifest_checks [OF m(1)]
  show thesis using that [OF m(2)] checks m(3) by auto
qed

text \<open>C14 (safety).  A valid stack is the captured review's: its base, its head and its repository, each slice of the manifest with
  its evidence, and every scope reachable in what its slice changed. And in a valid stack no finding is matched by scopes
  that two different slices both own exclusively.\<close>

theorem exclusive_scopes_never_share:
  assumes "sv_status (validate git S c r) = ''valid''" and "evs = evidence_set (validate git S c r)"
  shows "(\<exists>m. sv_manifest (validate git S c r) = Some m \<and> mf_base m = cp_base c \<and> mf_head m = cp_head c
           \<and> sg_repository git = Inr (Some (mf_repository m)) \<and> map ev_slice evs = mf_deps m @ [mf_current m]
           \<and> (\<forall>ev \<in> set evs. \<forall>s \<in> set (sl_ownership (ev_slice ev)). scope_is_reachable s ev))
      \<and> (\<forall>i j a b f path e e'. i < j \<and> j < length evs
           \<and> a \<in> set (sl_ownership (ev_slice (evs ! i))) \<and> b \<in> set (sl_ownership (ev_slice (evs ! j)))
           \<and> sc_exclusive a \<and> sc_exclusive b \<longrightarrow>
             \<not> (scope_matches_finding a f path e \<and> scope_matches_finding b f path e'))"
proof -
  obtain m where m: "sv_manifest (validate git S c r) = Some m" "mf_base m = cp_base c" "mf_head m = cp_head c"
    "sg_repository git = Inr (Some (mf_repository m))" "map ev_slice evs = mf_deps m @ [mf_current m]"
    "\<forall>ev \<in> set evs. \<forall>s \<in> set (sl_ownership (ev_slice ev)). scope_is_reachable s ev"
    and free: "\<not> exclusive_clash evs"
    unfolding assms(2) by (rule valid_stack_is_captured [OF assms(1)])
  have "\<not> (scope_matches_finding a f path e \<and> scope_matches_finding b f path e')"
    if "i < j" "j < length evs" "a \<in> set (sl_ownership (ev_slice (evs ! i)))" "b \<in> set (sl_ownership (ev_slice (evs ! j)))"
      "sc_exclusive a" "sc_exclusive b" for i j a b f path e e'
    using no_exclusive_clash [OF free] matching_scopes_overlap that by blast
  with m show ?thesis by blast
qed

text \<open>C16 (bounds).  The hint in a prompt never exceeds its budget, however large the manifest, is whole unless it says that
  it was truncated, and is never cut inside a character.\<close>

theorem stack_hint_is_bounded:
  assumes "render_prompt_context (Some r) n = Inr (hint, short)"
  shows "length hint \<le> n \<and> (\<not> short \<longrightarrow> hint = context_text r)
      \<and> (short \<longrightarrow> n < length (context_text r)
           \<and> (\<exists>k. hint = utf8_encode (take k (join [LF] (context_lines r) @ [LF])) @ context_marker))"
proof (cases "length (context_text r) \<le> n")
  case True
  with assms show ?thesis by (auto simp: render_prompt_context_def Let_def split: if_splits)
next
  case False
  with assms have "128 \<le> n" "short" "hint = clip_utf8 (context_text r) (n - length context_marker) @ context_marker"
    by (auto simp: render_prompt_context_def Let_def split: if_splits)
  with False clip_is_whole_characters [of "join [LF] (context_lines r) @ [LF]" "n - length context_marker"]
    clip_short [of "context_text r" "n - length context_marker"]
  show ?thesis by (auto simp: context_text_def context_marker_length)
qed

subsection \<open>Witnesses\<close>

definition sample_scope :: "string \<Rightarrow> scope" where
  "sample_scope path = \<lparr>sc_kind = File, sc_path = path, sc_exclusive = True, sc_start = None, sc_end = None, sc_symbol = None\<rparr>"

definition sample_slice :: "string \<Rightarrow> char \<Rightarrow> string \<Rightarrow> slice" where
  "sample_slice i c path = \<lparr>sl_id = i, sl_commit = replicate 40 c, sl_ref = ''h/o#1'', sl_ownership = [sample_scope path]\<rparr>"

definition sample_hash :: "string \<Rightarrow> string" where
  "sample_hash s = replicate 64 (CHR ''0'')"

definition sample_manifest :: manifest where
  "sample_manifest = \<lparr>mf_repository = ''h/o'', mf_base = replicate 40 (CHR ''a''), mf_head = replicate 40 (CHR ''b''), mf_parent = Some ''one'',
     mf_deps = [sample_slice ''one'' (CHR ''c'') ''a.py''], mf_current = sample_slice ''two'' (CHR ''b'') ''b.py'', mf_downstream = [],
     mf_producer = ''p'', mf_version = ''1'', mf_digest = ''sha256:'' @ replicate 64 (CHR ''0'')\<rparr>"

lemma sample_manifest_ok: "manifest_ok sample_hash sample_manifest"
proof -
  have d: "manifest_digest sample_hash sample_manifest = mf_digest sample_manifest"
    unfolding manifest_digest_text by (simp add: sample_hash_def sample_manifest_def)
  have p: "manifest_problem sample_hash sample_manifest = None"
    unfolding manifest_problem_def d by code_simp
  show ?thesis unfolding manifest_ok_def p by code_simp
qed

theorem manifest_roundtrip_witness: "parse_manifest sample_hash (document sample_manifest) = Inr sample_manifest"
  using manifest_roundtrip sample_manifest_ok by blast

definition sample_diff_of :: "string list \<Rightarrow> diff" where
  "sample_diff_of files = \<lparr>d_data = [], d_files = files, d_statuses = [], d_truncated_untracked = False\<rparr>"

definition sample_git :: stack_git where
  "sample_git = \<lparr>sg_repository = Inr (Some ''h/o''), sg_type = (\<lambda>_. Inr (Some ''commit'')), sg_ancestor = (\<lambda>_ _. Inr True),
     sg_ref_diff = (\<lambda>_ _. Inr (sample_diff_of [''a.py''])), sg_slice_diff = (\<lambda>_. Inr (sample_diff_of [''b.py''])),
     sg_full_diff = (\<lambda>_. Inr (sample_diff_of [''a.py'', ''b.py''])), sg_tree = (\<lambda>_. Inr ''tree'')\<rparr>"

definition sample_captured :: captured where
  "sample_captured = \<lparr>cp_base = replicate 40 (CHR ''a''), cp_head = replicate 40 (CHR ''b''), cp_diff = sample_diff_of [''a.py'', ''b.py''], cp_tree = ''tree''\<rparr>"

definition sample_valid :: stack_validation where
  "sample_valid = validate sample_git id sample_captured \<lparr>sr_manifest = Some sample_manifest, sr_problem = None, sr_claimed = None\<rparr>"

lemma sample_is_valid: "sv_status sample_valid = ''valid''" "length (evidence_set sample_valid) = 2"
  "sample_scope ''a.py'' \<in> set (sl_ownership (ev_slice (evidence_set sample_valid ! 0)))"
  "sample_scope ''b.py'' \<in> set (sl_ownership (ev_slice (evidence_set sample_valid ! 1)))"
  by code_simp+

theorem exclusive_scopes_never_share_witness:
  "\<not> (scope_matches_finding (sample_scope ''a.py'') [] ''a.py'' None \<and> scope_matches_finding (sample_scope ''b.py'') [] ''a.py'' None)
   \<and> (\<exists>m. sv_manifest sample_valid = Some m \<and> mf_base m = replicate 40 (CHR ''a''))"
proof -
  have x: "sc_exclusive (sample_scope p)" for p by (simp add: sample_scope_def)
  from exclusive_scopes_never_share [OF sample_is_valid(1) [unfolded sample_valid_def] refl] sample_is_valid(2-4) x
  show ?thesis unfolding sample_valid_def sample_captured_def
    by simp (metis One_nat_def lessI numeral_2_eq_2 zero_less_one)
qed

definition sample_finding :: pydict where
  "sample_finding = [(''file'', PStr ''a.py''), (''line'', PInt 3)]"

theorem owner_is_earned_witness: "earned sample_valid sample_finding ''one'' (Some ''h/o#1'')"
proof -
  have "dget (as_dict (classify_findings sample_valid [PDict sample_finding] ! 0)) ''scope_attribution'' =
      attribution_dict ''inherited_dependency'' ''exact_dependency_scope'' (Some ''one'') (Some ''h/o#1'') []" by code_simp
  then show ?thesis using owner_is_earned [of sample_valid "[PDict sample_finding]"] by (auto; blast)
qed

definition sample_ignored :: stack_validation where
  "sample_ignored = \<lparr>sv_status = ''ignored'', sv_reason = replicate 100 (CHR ''x''), sv_manifest = None, sv_deps = [], sv_current = None, sv_claimed = None\<rparr>"

theorem stack_hint_is_bounded_witness:
  "\<exists>hint. render_prompt_context (Some sample_ignored) 128 = Inr (hint, True) \<and> length hint \<le> 128"
proof -
  have "case render_prompt_context (Some sample_ignored) 128 of Inr (hint, short) \<Rightarrow> short | _ \<Rightarrow> False" by code_simp
  then obtain hint where "render_prompt_context (Some sample_ignored) 128 = Inr (hint, True)"
    by (auto split: sum.splits prod.splits)
  with stack_hint_is_bounded [OF this] show ?thesis by blast
qed

lemma unhashable_kind_reads_as_unsafe_file:
  "parse_scope (PDict [(''kind'', PList []), (''path'', PStr ''a''), (''exclusive'', PBool True), (''line_start'', PNone), (''line_end'', PNone),
     (''symbol'', PNone)]) = Inl ''unsafe_file''"
  by code_simp

end
