(* ===== verification/Pipeline.thy ===== *)
theory Pipeline
  imports Passes Stack
begin

section \<open>The pipeline: from the reviewers' answers to the published record\<close>

text \<open>
  Models the part of \<open>pipeline.py\<close> that decides what a record says: folding an outcome into the
  record, the aggregate of a batched review, the extra passes and the order in which they run, the
  final status, and the demotion of a cancelled review. What a chain of reviewers returned, what the
  prompts cost, the telemetry of a batch and the hashes of the plan are given; \<open>Chain\<close> models where
  an outcome comes from. Cancellation is observed at the boundaries where the code looks for it.
\<close>

subsection \<open>Outcomes\<close>

text \<open>\<open>ParseResult\<close>, \<open>_Outcome\<close>, and how running a chain can end.\<close>

record answer =
  pr_ok :: bool
  pr_degraded :: bool
  pr_reason :: string
  pr_stop :: pyval
  pr_summary :: string
  pr_findings :: "pyval list"
  pr_payload :: pyval

record outcome =
  ou_parsed :: "answer option"
  ou_attempts :: "pydict list"
  ou_failure :: string
  ou_accepted :: "pydict option"

datatype chain_run = Returned outcome | Interrupted | Raised string

definition identity_of :: "pydict \<Rightarrow> pydict" where
  "identity_of row = [(''provider'', dget row ''provider''), (''model'', dget row ''model''), (''effort'', dget row ''effort'')]"

definition last_timing :: "pydict list \<Rightarrow> pyval \<Rightarrow> pyval" where
  "last_timing rows otherwise =
     (case find (\<lambda>r. is_dict (dget r ''capacity_timing'')) (rev rows) of None \<Rightarrow> otherwise | Some r \<Rightarrow> dget r ''capacity_timing'')"

definition with_timing :: "pyval \<Rightarrow> pydict \<Rightarrow> pydict" where
  "with_timing t out = (if is_dict t then dset ''capacity_timing'' t out else out)"

definition no_identity :: pydict where
  "no_identity = [(''provider'', PNone), (''model'', PNone), (''effort'', PNone)]"

definition provenance :: "outcome \<Rightarrow> pydict" where
  "provenance oc =
     (case ou_accepted oc of
        Some a \<Rightarrow> with_timing (last_timing (ou_attempts oc) (dget a ''capacity_timing'')) (identity_of a)
      | None \<Rightarrow>
          (case find (\<lambda>r. \<not> dhas r ''skipped'') (rev (ou_attempts oc)) of
             Some r \<Rightarrow> with_timing (dget r ''capacity_timing'') (identity_of r)
           | None \<Rightarrow> with_timing (last_timing (ou_attempts oc) PNone)
               (no_identity @ [(''note'', PStr (or_else (ou_failure oc) ''no attempt started a process''))])))"

subsection \<open>The record\<close>

definition status_for :: "pydict \<Rightarrow> string" where
  "status_for rec =
     (if \<not> flag rec ''parse_ok'' then ''failed''
      else if flag rec ''degraded'' then ''degraded''
      else if \<not> trusted_rec rec then ''failed'' else ''clean'')"

text \<open>\<open>_apply\<close>. A parsed answer's findings are dictionaries: the adapter's validator refuses others.\<close>

definition apply_outcome :: "pydict \<Rightarrow> outcome \<Rightarrow> pydict" where
  "apply_outcome rec oc =
     (let named = (case ou_accepted oc of None \<Rightarrow> rec
            | Some a \<Rightarrow> dict_update rec [(''adapter'', dget a ''adapter_name''), (''model'', dget a ''model'')]) in
      case ou_parsed oc of
        None \<Rightarrow> dict_update named [(''parse_ok'', PBool False), (''failure_reason'', PStr (ou_failure oc))]
      | Some p \<Rightarrow>
          let findings = dicts_of (pr_findings p);
              out = dict_update named [(''parse_ok'', PBool (pr_ok p)), (''degraded'', PBool (pr_degraded p)),
                (''degraded_reason'', PStr (pr_reason p)), (''stop_reason'', pr_stop p), (''summary'', PStr (pr_summary p)),
                (''findings'', PList (pr_findings p)), (''findings_total'', PInt (int (length (pr_findings p)))),
                (''severity'', severity_counts findings), (''rule_ids'', PList (map PStr (rule_ids findings)))] in
          if pr_ok p then out else dset ''failure_reason'' (PStr ''the reviewer produced no parseable review'') out)"

definition joined_reason :: "pyval \<Rightarrow> string \<Rightarrow> string" where
  "joined_reason prior reason = (let e = or_empty prior in if e = [] then reason else e @ ''; '' @ reason)"

definition cancellation_transform :: "pydict \<Rightarrow> string \<Rightarrow> pydict" where
  "cancellation_transform rec boundary =
     (let reason = ''cancelled: '' @ boundary in
      dict_update rec [(''degraded'', PBool True), (''degraded_reason'', PStr (joined_reason (dget rec ''degraded_reason'') reason)),
        (''status'', PStr ''failed''), (''failure_reason'', PStr (joined_reason (dget rec ''failure_reason'') reason)),
        (''trustworthy'', PBool (is_trustworthy (truthy (dget rec ''parse_ok'')) True (truthy (dget rec ''diff_truncated''))))])"

subsection \<open>Sub-reviews\<close>

record sub =
  sb_ok :: bool
  sb_degraded :: bool
  sb_reason :: string
  sb_stop :: pyval
  sb_truncated :: bool
  sb_summary :: string
  sb_findings :: "pydict list"
  sb_failure :: string
  sb_attempts :: "pydict list"
  sb_provenance :: pydict
  sb_accepted :: "pydict option"

definition blank_sub :: "bool \<Rightarrow> string \<Rightarrow> sub" where
  "blank_sub trunc failure = \<lparr>sb_ok = False, sb_degraded = False, sb_reason = [], sb_stop = PNone, sb_truncated = trunc,
     sb_summary = [], sb_findings = [], sb_failure = failure, sb_attempts = [], sb_provenance = [], sb_accepted = None\<rparr>"

text \<open>\<open>_run_sub\<close>: \<open>None\<close> where a cancellation passes through.\<close>

definition sub_of_run :: "string \<Rightarrow> bool \<Rightarrow> chain_run \<Rightarrow> sub option" where
  "sub_of_run label trunc run =
     (case run of
        Interrupted \<Rightarrow> None
      | Raised e \<Rightarrow>
          (let reason = label @ '' failed: '' @ e in
           Some ((blank_sub trunc reason)\<lparr>sb_provenance := no_identity @ [(''note'', PStr reason)]\<rparr>))
      | Returned oc \<Rightarrow>
          (case ou_parsed oc of
             None \<Rightarrow> Some ((blank_sub trunc (or_else (ou_failure oc) (label @ '' produced no review'')))
                 \<lparr>sb_attempts := ou_attempts oc, sb_provenance := provenance oc, sb_accepted := ou_accepted oc\<rparr>)
           | Some p \<Rightarrow> Some \<lparr>sb_ok = pr_ok p, sb_degraded = pr_degraded p, sb_reason = pr_reason p, sb_stop = pr_stop p,
               sb_truncated = trunc, sb_summary = pr_summary p, sb_findings = dicts_of (pr_findings p),
               sb_failure = (if pr_ok p then [] else label @ '' produced no parseable review''),
               sb_attempts = ou_attempts oc, sb_provenance = provenance oc, sb_accepted = ou_accepted oc\<rparr>))"

subsection \<open>The aggregate of a batched review\<close>

record pack_view =
  pk_sha :: pyval
  pk_bytes :: nat
  pk_included :: "string list"
  pk_omitted :: "(string \<times> string) list"

text \<open>One prepared batch: what its prompt and its checklist were.\<close>

record batch_view =
  bv_files :: "string list"
  bv_bytes :: nat
  bv_floor :: bool         \<comment> \<open>the splitter's \<open>truncated\<close>\<close>
  bv_prompt_bytes :: nat
  bv_truncated :: bool     \<comment> \<open>the prompt's \<open>diff_truncated\<close>\<close>
  bv_selection :: selection_view
  bv_pack :: "pack_view option"

text \<open>What the aggregate takes as computed: the plan, the identities of \<open>reuse.py\<close> and the telemetry of a
  batch (index 0 is the cross-file pass).\<close>

record plan_view =
  pv_plan :: pyval
  pv_context_hash :: pyval
  pv_checklist_hash :: pyval
  pv_telemetry :: "nat \<Rightarrow> sub \<Rightarrow> pyval"

definition batch_meta :: "pydict \<Rightarrow> plan_view \<Rightarrow> string \<Rightarrow> nat \<Rightarrow> batch_view \<Rightarrow> sub \<Rightarrow> pydict" where
  "batch_meta rec plan mode i b s =
     dict_update (without [''checkpoint_timing''] (sb_provenance s))
       [(''index'', PInt (int i)), (''id'', PStr (py_str (dget_or rec ''id'' (PStr [])) @ ''.b'' @ show_nat i)),
        (''files'', PList (map PStr (bv_files b))), (''diff_bytes'', PInt (int (bv_bytes b))),
        (''splitter_truncated'', PBool (bv_floor b)), (''parse_ok'', PBool (sb_ok s)), (''degraded'', PBool (sb_degraded s)),
        (''degraded_reason'', PStr (sb_reason s)), (''diff_truncated'', PBool (sb_truncated s)), (''stop_reason'', sb_stop s),
        (''summary'', PStr (sb_summary s)), (''findings_total'', PInt (int (length (sb_findings s)))),
        (''failure_reason'', PStr (sb_failure s)), (''prompt_bytes'', PInt (int (bv_prompt_bytes b))),
        (''checklist'', PDict (checklist_meta mode (Some (bv_selection b)))), (''attempts'', PList (map PDict (sb_attempts s))),
        (''telemetry'', pv_telemetry plan i s)]"

definition normal_stop_reasons :: "string list" where
  "normal_stop_reasons = [''EndTurn'', ''end_turn'', ''SUCCESS'', ''turn.completed'']"

definition said :: "sub list \<Rightarrow> string list" where
  "said subs = concat (map (\<lambda>s. case sb_stop s of PStr w \<Rightarrow> if w = [] then [] else [w] | _ \<Rightarrow> []) subs)"

definition aggregate_stop_reason :: "sub list \<Rightarrow> pyval" where
  "aggregate_stop_reason subs =
     (case find (\<lambda>w. w \<notin> set normal_stop_reasons) (said subs) of
        Some w \<Rightarrow> PStr w
      | None \<Rightarrow> (case said (filter sb_ok subs) of [] \<Rightarrow> PNone | w # _ \<Rightarrow> PStr w))"

definition aggregate_summary :: "nat \<Rightarrow> bool \<Rightarrow> nat \<Rightarrow> string list \<Rightarrow> bool \<Rightarrow> bool \<Rightarrow> string" where
  "aggregate_summary count integrated findings unreviewed degraded truncated =
     join ''; '' ([''batched review: '' @ show_nat count @ '' batch(es)'']
       @ (if integrated then [''+ cross-file pass''] else [])
       @ [show_nat findings @ '' finding(s)'']
       @ (if unreviewed = [] then [] else [''UNREVIEWED batch(es): '' @ join '', '' unreviewed])
       @ (if degraded then [''degraded''] else []) @ (if truncated then [''truncated hunk(s)''] else []))"

definition usable_output :: "pydict list \<Rightarrow> pydict option \<Rightarrow> bool" where
  "usable_output batches integration \<longleftrightarrow>
     list_ex (\<lambda>b. flag b ''parse_ok'') batches \<or> (case integration of None \<Rightarrow> False | Some m \<Rightarrow> flag m ''parse_ok'')"

text \<open>The prompt of the cross-file pass: it could not be built, or it was, at that size, cut or not. Where it could not,
  the pass counts as one that failed.\<close>

datatype cross_prompt = Not_prepared string | Prepared nat bool

definition unprepared_sub :: "bool \<Rightarrow> string \<Rightarrow> sub" where
  "unprepared_sub continued e =
     (let reason = ''the integration pass could not be prepared: '' @ e in
      (blank_sub False reason)\<lparr>sb_provenance := no_identity @ [(''note'', PStr reason)]
        @ (if continued then [(''continuation_action'', PStr ''failed'')] else [])\<rparr>)"

definition cross_meta :: "plan_view \<Rightarrow> selection_view \<Rightarrow> cross_prompt \<Rightarrow> sub \<Rightarrow> pydict" where
  "cross_meta plan sel cross s =
     (let cl = Some (checklist_meta ''integration'' (Some sel)) in
      dset ''telemetry'' (pv_telemetry plan 0 s) (case cross of
         Not_prepared _ \<Rightarrow> integration_body ''failed'' \<lparr>ia_ran = False, ia_parse_ok = False, ia_degraded = False, ia_truncated = False,
           ia_total = 0, ia_stop_reason = sb_stop s, ia_attempts = [], ia_provenance = sb_provenance s, ia_checklist = cl,
           ia_note = sb_failure s\<rparr>
       | Prepared _ _ \<Rightarrow>
           integration_body (if sb_ok s \<and> \<not> sb_degraded s then ''ran'' else if sb_ok s then ''degraded'' else ''failed'')
             \<lparr>ia_ran = True, ia_parse_ok = sb_ok s, ia_degraded = sb_degraded s, ia_truncated = sb_truncated s,
              ia_total = int (length (tag_integration_findings (map PDict (sb_findings s)))), ia_stop_reason = sb_stop s,
              ia_attempts = map PDict (sb_attempts s), ia_provenance = without [''checkpoint_timing''] (sb_provenance s),
              ia_checklist = cl, ia_note = sb_failure s\<rparr>))"

record cross_pass =
  cp_selection :: selection_view
  cp_prompted :: cross_prompt
  cp_sub :: sub

definition cross_bytes :: "cross_prompt \<Rightarrow> nat" where
  "cross_bytes cross = (case cross of Not_prepared _ \<Rightarrow> 0 | Prepared n _ \<Rightarrow> n)"

definition everyone :: "(batch_view \<times> sub) list \<Rightarrow> cross_pass option \<Rightarrow> sub list" where
  "everyone bs cross = map snd bs @ (case cross of None \<Rightarrow> [] | Some c \<Rightarrow> [cp_sub c])"

definition all_findings :: "(batch_view \<times> sub) list \<Rightarrow> cross_pass option \<Rightarrow> pydict list" where
  "all_findings bs cross = concat (map (\<lambda>(b, s). sb_findings s) bs)
     @ (case cross of None \<Rightarrow> [] | Some c \<Rightarrow> tag_integration_findings (map PDict (sb_findings (cp_sub c))))"

definition unreviewed_labels :: "(batch_view \<times> sub) list \<Rightarrow> cross_pass option \<Rightarrow> string list" where
  "unreviewed_labels bs cross = map (\<lambda>(i, b, s). show_nat i) (filter (\<lambda>(i, b, s). \<not> sb_ok s) (List.enumerate 1 bs))
     @ (case cross of None \<Rightarrow> [] | Some c \<Rightarrow> if sb_ok (cp_sub c) then [] else [''integration''])"

definition failure_text :: "string list \<Rightarrow> sub list \<Rightarrow> string" where
  "failure_text unreviewed subs =
     (let reasons = filter (\<lambda>r. r \<noteq> []) (map sb_failure subs) in
      if unreviewed = [] then []
      else ''one or more batches were not reviewed ('' @ join '', '' unreviewed @ '')''
        @ (if reasons = [] then [] else ''; '' @ join ''; '' reasons))"

definition degraded_text :: "(batch_view \<times> sub) list \<Rightarrow> cross_pass option \<Rightarrow> string" where
  "degraded_text bs cross =
     join ''; '' (map (\<lambda>(label, s). label @ '': '' @ or_else (sb_reason s) ''no reason given'')
       (filter (\<lambda>(label, s). sb_degraded s)
         (map (\<lambda>(i, b, s). (''batch '' @ show_nat i, s)) (List.enumerate 1 bs)
          @ (case cross of None \<Rightarrow> [] | Some c \<Rightarrow> [(''the integration pass'', cp_sub c)]))))"

definition adopt_identity :: "sub list \<Rightarrow> pydict \<Rightarrow> pydict" where
  "adopt_identity subs out =
     (case remdups (map (\<lambda>a. (dget a ''adapter_name'', dget a ''model'')) (List.map_filter sb_accepted subs)) of
        [(a, m)] \<Rightarrow> dict_update out [(''adapter'', a), (''model'', m)] | _ \<Rightarrow> out)"

definition aggregate :: "pydict \<Rightarrow> plan_view \<Rightarrow> (batch_view \<times> sub) list \<Rightarrow> cross_pass option \<Rightarrow> pydict" where
  "aggregate rec plan bs cross =
     (let count = length bs; mode = batch_checklist_mode (\<lambda>_. None) (PInt (int count));
          subs = everyone bs cross; findings = all_findings bs cross; unreviewed = unreviewed_labels bs cross;
          metas = map (\<lambda>(i, b, s). batch_meta rec plan mode i b s) (List.enumerate 1 bs);
          integration = map_option (\<lambda>c. cross_meta plan (cp_selection c) (cp_prompted c) (cp_sub c)) cross;
          sels = map (\<lambda>(b, s). bv_selection b) bs @ (case cross of None \<Rightarrow> [] | Some c \<Rightarrow> [cp_selection c]);
          packs = List.map_filter (\<lambda>(b, s). bv_pack b) bs;
          degraded = list_ex sb_degraded subs; truncated = list_ex sb_truncated subs;
          out = dict_update rec [(''batched'', PBool True), (''batch_count'', PInt (int count)), (''batch_plan'', pv_plan plan),
            (''batches'', PList (map PDict metas)), (''parse_ok'', PBool (list_all sb_ok subs \<and> subs \<noteq> [])),
            (''degraded'', PBool degraded), (''degraded_reason'', PStr (degraded_text bs cross)), (''diff_truncated'', PBool truncated),
            (''stop_reason'', aggregate_stop_reason subs),
            (''summary'', PStr (aggregate_summary count (integration \<noteq> None) (length findings) unreviewed degraded truncated)),
            (''findings'', PList (map PDict findings)), (''findings_total'', PInt (int (length findings))),
            (''severity'', severity_counts findings), (''rule_ids'', PList (map PStr (rule_ids findings))),
            (''failure_reason'', PStr (failure_text unreviewed subs)), (''usable_output'', PBool (usable_output metas integration)),
            (''prompt_bytes'', PInt (int (sum_list (map (\<lambda>(b, s). bv_prompt_bytes b) bs)
               + (case cross of None \<Rightarrow> 0 | Some c \<Rightarrow> cross_bytes (cp_prompted c))))),
            (''attempts'', PList []), (''checklist_sections'', PList (map PStr (append_new [] (concat (map sv_sections sels))))),
            (''checklist_bytes'', PInt (sum_list (map sv_bytes sels))),
            (''checklist_note'', PStr (join ''; '' (append_new [] (filter (\<lambda>n. n \<noteq> []) (map sv_note sels))))),
            (''checklist_degraded'', PBool (list_ex sv_degraded sels)),
            (''context_bytes'', PInt (int (sum_list (map pk_bytes packs)))),
            (''context_files'', PList (map PStr (append_new [] (concat (map pk_included packs))))),
            (''context_omitted_files'', PList (map PStr (append_new []
               (concat (map (\<lambda>p. map (\<lambda>(path, why). path @ '' ('' @ why @ '')'') (pk_omitted p)) packs))))),
            (''context_hash'', pv_context_hash plan), (''checklist_hash'', pv_checklist_hash plan)] in
      adopt_identity subs (case integration of None \<Rightarrow> out | Some m \<Rightarrow> dset ''integration'' (PDict m) out))"

subsection \<open>The extra passes\<close>

datatype pass_result = Done pydict | Stopped | Refused merge_error

fun then_pass :: "pass_result \<Rightarrow> (pydict \<Rightarrow> pass_result) \<Rightarrow> pass_result" where
  "then_pass (Done rec) f = f rec"
| "then_pass Stopped f = Stopped"
| "then_pass (Refused e) f = Refused e"

definition settled :: "merge_error + pydict \<Rightarrow> (pydict \<Rightarrow> pydict) \<Rightarrow> pass_result" where
  "settled merged f = (case merged of Inl e \<Rightarrow> Refused e | Inr rec \<Rightarrow> Done (f rec))"

definition with_provenance :: "string \<Rightarrow> pydict \<Rightarrow> pydict \<Rightarrow> pydict" where
  "with_provenance name prov rec =
     with_extra name (dict_update (as_dict (dget (as_dict (dget rec ''extra_passes'')) name)) prov) rec"

definition merge_named_pass :: "pydict \<Rightarrow> string \<Rightarrow> pydict option \<Rightarrow> string \<Rightarrow> merge_error + pydict" where
  "merge_named_pass rec name extra reason =
     (if name = ''skeptic'' then Inr (merge_skeptic_pass rec extra reason)
      else case extra of None \<Rightarrow> merge_failed_extra_pass rec name reason | Some e \<Rightarrow> Inr (merge_extra_pass rec e name))"

definition failed_pass :: "pydict \<Rightarrow> string \<Rightarrow> string \<Rightarrow> string \<Rightarrow> pass_result" where
  "failed_pass rec name reason note =
     settled (merge_named_pass rec name None reason) (with_provenance name (no_identity @ [(''note'', PStr note)]))"

text \<open>The prompt could not be built, or it was, cut or not, and its chain ran.\<close>

datatype prompt_run = Unbuilt string | Prompted bool chain_run

definition pass_reason :: "string \<Rightarrow> string \<Rightarrow> string" where
  "pass_reason name reason = (if starts_with ''extra pass'' reason then reason else ''extra pass '' @ name @ '': '' @ reason)"

definition attributed :: "outcome \<Rightarrow> pydict" where
  "attributed oc = dset ''attempts'' (PList (map PDict (ou_attempts oc))) (provenance oc)"

definition extra_of :: "pydict \<Rightarrow> string \<Rightarrow> bool \<Rightarrow> answer \<Rightarrow> pydict" where
  "extra_of rec name trunc p =
     [(''id'', PStr (py_str (dget rec ''id'') @ ''.'' @ name)), (''parse_ok'', PBool (pr_ok p)), (''degraded'', PBool (pr_degraded p)),
      (''degraded_reason'', PStr (pr_reason p)), (''diff_truncated'', PBool trunc), (''stop_reason'', pr_stop p),
      (''summary'', PStr (pr_summary p)), (''findings'', PList (pr_findings p)), (''findings_total'', PInt (int (length (pr_findings p)))),
      (''failure_reason'', PStr (if pr_ok p then [] else failed_pass_reason name))]"

definition extra_pass :: "pydict \<Rightarrow> string \<Rightarrow> bool \<Rightarrow> prompt_run \<Rightarrow> pass_result" where
  "extra_pass rec name cancelled run =
     (if cancelled then Stopped
      else case run of
        Unbuilt e \<Rightarrow> (let reason = ''extra pass '' @ name @ '' could not be prepared: '' @ e in failed_pass rec name reason reason)
      | Prompted trunc r \<Rightarrow>
          (case r of
             Interrupted \<Rightarrow> Stopped
           | Raised e \<Rightarrow> (let reason = ''extra pass '' @ name @ '' failed: '' @ e in failed_pass rec name reason reason)
           | Returned oc \<Rightarrow>
               (case ou_parsed oc of
                  None \<Rightarrow> settled (merge_named_pass rec name None (pass_reason name (or_else (ou_failure oc) (failed_pass_reason name))))
                    (with_provenance name (attributed oc))
                | Some p \<Rightarrow> settled (merge_named_pass rec name (Some (extra_of rec name trunc p)) [])
                    (with_provenance name (attributed oc)))))"

text \<open>The same pass of a batched review, whose output is fenced in a checkpoint: \<open>meta\<close> is the hash of the
  output and, where the store invalidated an earlier one, the reason. A pass that is not scheduled
  leaves at most a note of the decision.\<close>

definition followup_extra :: "pydict \<Rightarrow> string \<Rightarrow> sub \<Rightarrow> pydict" where
  "followup_extra rec name s =
     [(''id'', PStr (py_str (dget rec ''id'') @ ''.'' @ name)), (''parse_ok'', PBool (sb_ok s)), (''degraded'', PBool (sb_degraded s)),
      (''degraded_reason'', PStr (sb_reason s)), (''diff_truncated'', PBool (sb_truncated s)), (''stop_reason'', sb_stop s),
      (''summary'', PStr (sb_summary s)), (''findings'', PList (map PDict (sb_findings s))), (''failure_reason'', PStr (sb_failure s))]"

definition followup_pass :: "pydict \<Rightarrow> string \<Rightarrow> sub \<Rightarrow> pydict \<Rightarrow> pass_result" where
  "followup_pass rec name s meta =
     settled
       (if \<not> sb_ok s then merge_named_pass rec name None (pass_reason name (or_else (sb_failure s) (failed_pass_reason name)))
        else merge_named_pass rec name (Some (followup_extra rec name s)) ''scheduled'')
       (with_provenance name (dict_update (dset ''attempts'' (PList (map PDict (sb_attempts s))) (sb_provenance s)) meta))"

definition note_decision :: "pydict \<Rightarrow> string \<Rightarrow> pyval \<Rightarrow> pydict" where
  "note_decision rec name invalidation =
     (if \<not> truthy invalidation then rec
      else dset ''followup_decisions'' (PDict (dset name (PDict [(''scheduled'', PBool False), (''reason'', invalidation)])
        (as_dict (dget rec ''followup_decisions'')))) rec)"

datatype pass_event =
    Fresh bool prompt_run            \<comment> \<open>cancelled at the boundary, the run\<close>
  | Bound bool sub pydict pyval      \<comment> \<open>cancelled at the boundary, the fenced output, its metadata, the invalidation\<close>

definition required_followup :: "bool \<Rightarrow> pydict \<Rightarrow> string \<Rightarrow> pass_event \<Rightarrow> pass_result" where
  "required_followup scheduled rec name event =
     (case event of
        Fresh cancelled run \<Rightarrow> if scheduled then extra_pass rec name cancelled run else Done rec
      | Bound cancelled s meta invalidation \<Rightarrow>
          if cancelled then Stopped
          else if \<not> scheduled then Done (note_decision rec name invalidation)
          else followup_pass rec name s meta)"

subsection \<open>The refuter\<close>

record chain_entry =
  ce_provider :: string
  ce_enabled :: bool

definition independent_entries :: "pyval \<Rightarrow> chain_entry list \<Rightarrow> chain_entry list" where
  "independent_entries contributing chain =
     (case contributor_families contributing of
        None \<Rightarrow> []
      | Some families \<Rightarrow> filter (\<lambda>e. ce_enabled e \<and> (case provider_family (PStr (ce_provider e)) of
            None \<Rightarrow> False | Some f \<Rightarrow> f \<notin> set families)) chain)"

definition refuter_failed :: "pydict \<Rightarrow> pyval \<Rightarrow> string \<Rightarrow> pydict option \<Rightarrow> bool \<Rightarrow> string list \<Rightarrow> merge_error + pydict" where
  "refuter_failed rec finder_total note given partial notes =
     (let prov = dset ''contributing_providers''
            (dget (as_dict (dget (as_dict (dget rec ''extra_passes'')) ''refuter'')) ''contributing_providers'')
            (case given of Some (e # p) \<Rightarrow> e # p | _ \<Rightarrow> no_identity);
          noted = (if strip (or_empty (dget prov ''note'')) = [] then dset ''note'' (PStr note) prov else prov) in
      merge_refuter_pass rec None noted finder_total False partial notes)"

text \<open>Whether the attempt that answered is one of the independent entries.\<close>

definition independent_answer :: "pyval \<Rightarrow> chain_entry list \<Rightarrow> outcome \<Rightarrow> bool" where
  "independent_answer contributing chain oc =
     (case ou_accepted oc of
        None \<Rightarrow> False
      | Some a \<Rightarrow>
          (case (provider_family (dget a ''provider''), contributor_families contributing) of
             (Some f, Some families) \<Rightarrow> f \<notin> set families
               \<and> dget a ''provider'' \<in> (\<lambda>e. PStr (ce_provider e)) ` set (independent_entries contributing chain)
           | _ \<Rightarrow> False))"

definition no_independent_note :: "pyval \<Rightarrow> string" where
  "no_independent_note contributing =
     (if contributor_families contributing = None
      then ''finding contributor provenance is unknown; independent refuter skipped''
      else ''no independent provider remains in the configured refuter chain; '' @ ''findings remain unrefuted'')"

definition refuter_pass :: "pydict \<Rightarrow> pyval \<Rightarrow> bool \<Rightarrow> chain_entry list \<Rightarrow> pyval \<Rightarrow> prompt_run \<Rightarrow> pass_result" where
  "refuter_pass rec0 finder_total cancelled chain contributing run =
     (let credit = with_provenance ''refuter'' [(''contributing_providers'', contributing)]; rec = credit rec0 in
      if cancelled then Stopped
      else if independent_entries contributing chain = []
      then settled (skipped_refuter_pass rec0 (no_independent_note contributing)) credit
      else case run of
        Unbuilt e \<Rightarrow> settled (refuter_failed rec finder_total (''the refuter prompt could not be prepared: '' @ e) None False []) id
      | Prompted trunc r \<Rightarrow>
          (let notes = (if trunc then [''the refuter saw a size-capped diff (partial coverage)''] else []) in
           case r of
             Interrupted \<Rightarrow> Stopped
           | Raised e \<Rightarrow> settled (refuter_failed rec finder_total (''the refuter pass failed: '' @ e) None trunc notes) id
           | Returned oc \<Rightarrow>
               (let prov = dset ''contributing_providers'' contributing (provenance oc) in
                case ou_parsed oc of
                  None \<Rightarrow> settled (refuter_failed rec finder_total
                    (or_else (ou_failure oc) ''the refuter produced no usable verdicts'') (Some prov) trunc notes) id
                | Some p \<Rightarrow>
                    (case (pr_ok p, pr_payload p) of
                       (True, PDict payload) \<Rightarrow>
                         if \<not> independent_answer contributing chain oc
                         then settled (refuter_failed rec finder_total
                           ''the refuter answer lacks independent accepted-provider provenance'' (Some prov) trunc notes) id
                         else settled (merge_refuter_pass rec (Some payload) prov finder_total (pr_degraded p) trunc
                           (notes @ (if pr_degraded p then [''the refuter run was degraded: '' @ or_else (pr_reason p) ''no reason given''] else []))) id
                     | _ \<Rightarrow> settled (refuter_failed rec finder_total
                         (or_else (ou_failure oc) ''the refuter produced no usable verdicts'') (Some prov) trunc notes) id))))"

subsection \<open>The rest of the review\<close>

text \<open>The providers that contributed to the aggregate.\<close>

definition contributing_providers :: "pydict \<Rightarrow> pyval" where
  "contributing_providers rec =
     (let parts = as_list (dget rec ''batches'') @ (if dget rec ''integration'' = PNone then [] else [dget rec ''integration'']);
          providers = map (\<lambda>v. if flag (as_dict v) ''parse_ok'' then dget (as_dict v) ''provider'' else PNone) parts in
      if contributor_families (PList providers) = None then PNone
      else PList (map PStr (sort (remdups (map or_empty providers)))))"

record setting =
  se_env :: environ
  se_tables :: pass_tables
  se_reviewers :: "role_entry list"
  se_mode :: string
  se_files :: "string list"
  se_hold :: bool                    \<comment> \<open>\<open>hold_for_security\<close>\<close>
  se_trunc :: "string \<Rightarrow> int option"

record happenings =
  ha_security :: pass_event
  ha_skeptic :: pass_event
  ha_cancel_refuter :: bool
  ha_chain :: "chain_entry list"
  ha_contributing :: pyval
  ha_refuter :: prompt_run
  ha_stack :: "stack_validation option"
  ha_cancel_end :: bool

definition refute :: "setting \<Rightarrow> happenings \<Rightarrow> pydict \<Rightarrow> pydict \<Rightarrow> pass_result" where
  "refute se ha snapshot rec =
     (case refuter_decision (se_trunc se) (se_env se) (se_reviewers se) (se_mode se) (trusted_rec snapshot) (dget snapshot ''findings_total'') of
        (True, _) \<Rightarrow> refuter_pass rec (dget snapshot ''findings_total'') (ha_cancel_refuter ha) (ha_chain ha) (ha_contributing ha) (ha_refuter ha)
      | (False, note) \<Rightarrow> if note = [] then Done rec else settled (skipped_refuter_pass rec note) id)"

definition skeptic_due :: "setting \<Rightarrow> pydict \<Rightarrow> bool" where
  "skeptic_due se rec = should_run_skeptic (se_trunc se) (se_env se) (se_tables se) (se_mode se) (trusted_rec rec)
     (dget rec ''findings_total'') (se_files se)"

definition classified :: "stack_validation option \<Rightarrow> pydict \<Rightarrow> pydict" where
  "classified stack rec =
     (case stack of None \<Rightarrow> rec
      | Some r \<Rightarrow> let fs = classify_findings r (as_list (dget rec ''findings'')) in
          dset ''findings_total'' (PInt (int (length fs))) (dset ''findings'' (PList fs) rec))"

definition stamped :: "pydict \<Rightarrow> pydict" where
  "stamped rec = (let rec' = dset ''trustworthy'' (PBool (trusted_rec rec)) rec in dset ''status'' (PStr (status_for rec')) rec')"

text \<open>\<open>_run_review\<close> from the finder snapshot to the record that is persisted.\<close>

definition finish_review :: "setting \<Rightarrow> happenings \<Rightarrow> pydict \<Rightarrow> pass_result" where
  "finish_review se ha rec0 =
     then_pass (required_followup (se_hold se) rec0 ''security'' (ha_security ha)) (\<lambda>rec1.
     then_pass (required_followup (skeptic_due se rec1) rec1 ''skeptic'' (ha_skeptic ha)) (\<lambda>rec2.
     then_pass (refute se ha rec0 rec2) (\<lambda>rec3.
       if ha_cancel_end ha then Stopped else Done (stamped (classified (ha_stack ha) rec3)))))"

subsection \<open>An aggregate is trustworthy only as a whole\<close>

text \<open>A run that leaves nothing to be desired: its prompt was not cut, and its answer parsed and was not degraded.\<close>

fun good_answer :: "chain_run \<Rightarrow> bool" where
  "good_answer (Returned oc) = (case ou_parsed oc of None \<Rightarrow> False | Some p \<Rightarrow> pr_ok p \<and> \<not> pr_degraded p)"
| "good_answer _ = False"

definition good_sub :: "sub \<Rightarrow> bool" where
  "good_sub s \<longleftrightarrow> sb_ok s \<and> \<not> sb_degraded s \<and> \<not> sb_truncated s"

lemma good_sub_of_run: "sub_of_run label trunc run = Some s \<Longrightarrow> good_sub s \<longleftrightarrow> \<not> trunc \<and> good_answer run"
  by (auto simp: sub_of_run_def good_sub_def blank_sub_def Let_def split: chain_run.splits option.splits)

lemma dget_dict_update_Cons: "dict_update rec ((k, v) # upd) = dict_update (dset k v rec) upd"
  by (simp add: dict_update_def)

lemma dget_dict_update_Nil: "dict_update rec [] = rec"
  by (simp add: dict_update_def)

lemmas updates = dget_dict_update_Cons dget_dict_update_Nil

lemma dget_adopt: "k \<noteq> ''adapter'' \<Longrightarrow> k \<noteq> ''model'' \<Longrightarrow> dget (adopt_identity subs out) k = dget out k"
  by (auto simp: adopt_identity_def updates split: list.splits)

lemma aggregate_gets:
  "dget (aggregate rec plan bs cross) ''parse_ok'' = PBool (list_all sb_ok (everyone bs cross) \<and> everyone bs cross \<noteq> [])"
  "dget (aggregate rec plan bs cross) ''degraded'' = PBool (list_ex sb_degraded (everyone bs cross))"
  "dget (aggregate rec plan bs cross) ''diff_truncated'' = PBool (list_ex sb_truncated (everyone bs cross))"
  "dget (aggregate rec plan bs cross) ''findings'' = PList (map PDict (all_findings bs cross))"
  "dget (aggregate rec plan bs cross) ''findings_total'' = PInt (int (length (all_findings bs cross)))"
  "dget (aggregate rec plan bs cross) ''severity'' = severity_counts (all_findings bs cross)"
  "dget (aggregate rec plan bs cross) ''rule_ids'' = PList (map PStr (rule_ids (all_findings bs cross)))"
  "dget (aggregate rec plan bs cross) ''stop_reason'' = aggregate_stop_reason (everyone bs cross)"
  by (simp_all add: aggregate_def Let_def dget_adopt updates split: option.split)

lemma trusted_aggregate:
  "trusted_rec (aggregate rec plan bs cross) \<longleftrightarrow> everyone bs cross \<noteq> [] \<and> list_all good_sub (everyone bs cross)"
  by (auto simp: trusted_rec_def is_trustworthy_py_def is_trustworthy_def aggregate_gets good_sub_def list_all_iff list_ex_iff)

lemma aggregated_stop_reason:
  shows "(\<exists>s \<in> set subs. \<exists>w. sb_stop s = PStr w \<and> w \<noteq> [] \<and> w \<notin> set normal_stop_reasons) \<longleftrightarrow>
      (\<exists>w. aggregate_stop_reason subs = PStr w \<and> w \<notin> set normal_stop_reasons)"
    and "aggregate_stop_reason subs = PStr w \<Longrightarrow> w \<in> set normal_stop_reasons \<Longrightarrow> \<exists>s \<in> set subs. sb_ok s \<and> sb_stop s = PStr w"
    and "aggregate_stop_reason subs = PNone \<or> (\<exists>s \<in> set subs. aggregate_stop_reason subs = sb_stop s)"
proof -
  have mem: "w \<in> set (said ss) \<longleftrightarrow> w \<noteq> [] \<and> (\<exists>s \<in> set ss. sb_stop s = PStr w)" for w ss
    by (induction ss) (auto simp: said_def split: pyval.splits)
  have head: "said ss = w # ws \<Longrightarrow> \<exists>s \<in> set ss. sb_stop s = PStr w" for ss w ws
    using mem [of w ss] by simp
  let ?odd = "find (\<lambda>w. w \<notin> set normal_stop_reasons) (said subs)"
  have none: "?odd = None \<longleftrightarrow> (\<forall>w \<in> set (said subs). w \<in> set normal_stop_reasons)" by (auto simp: find_None_iff)
  have some: "?odd = Some w \<Longrightarrow> w \<in> set (said subs) \<and> w \<notin> set normal_stop_reasons" for w
    by (auto simp: find_Some_iff)
  have normal: "w \<in> set normal_stop_reasons" if "?odd = None" "said (filter sb_ok subs) = w # ws" for w ws
  proof -
    have "w \<in> set (said (filter sb_ok subs))" using that(2) by simp
    then have "w \<in> set (said subs)" by (auto simp: mem)
    then show ?thesis using that(1) none by blast
  qed
  show "(\<exists>s \<in> set subs. \<exists>w. sb_stop s = PStr w \<and> w \<noteq> [] \<and> w \<notin> set normal_stop_reasons) \<longleftrightarrow>
      (\<exists>w. aggregate_stop_reason subs = PStr w \<and> w \<notin> set normal_stop_reasons)"
  proof (cases ?odd)
    case None
    then have "\<nexists>w. aggregate_stop_reason subs = PStr w \<and> w \<notin> set normal_stop_reasons"
      using normal by (auto simp: aggregate_stop_reason_def split: list.splits)
    moreover have "\<not> (\<exists>s \<in> set subs. \<exists>w. sb_stop s = PStr w \<and> w \<noteq> [] \<and> w \<notin> set normal_stop_reasons)"
      using None none mem by blast
    ultimately show ?thesis by blast
  next
    case (Some w)
    then show ?thesis using some [OF Some] mem by (auto simp: aggregate_stop_reason_def)
  qed
  show "aggregate_stop_reason subs = PStr w \<Longrightarrow> w \<in> set normal_stop_reasons \<Longrightarrow> \<exists>s \<in> set subs. sb_ok s \<and> sb_stop s = PStr w"
    using some head [of "filter sb_ok subs"]
    by (cases ?odd) (auto simp: aggregate_stop_reason_def split: list.splits)
  show "aggregate_stop_reason subs = PNone \<or> (\<exists>s \<in> set subs. aggregate_stop_reason subs = sb_stop s)"
  proof (cases ?odd)
    case None
    then show ?thesis using head [of "filter sb_ok subs"] by (fastforce simp: aggregate_stop_reason_def split: list.split)
  next
    case (Some w)
    then show ?thesis using some [OF Some] mem [of w subs] by (fastforce simp: aggregate_stop_reason_def)
  qed
qed

text \<open>C12 (functional).  The stop reason of a batched review is the first abnormal word any sub-review reported, answered or
  not; a normal word is published only if none was abnormal, and only from a sub-review that answered.\<close>

theorem stop_reason_is_not_hidden:
  "((\<exists>s \<in> set subs. \<exists>w. sb_stop s = PStr w \<and> w \<noteq> [] \<and> w \<notin> set normal_stop_reasons) \<longleftrightarrow>
      (\<exists>w. aggregate_stop_reason subs = PStr w \<and> w \<notin> set normal_stop_reasons))
   \<and> (\<forall>w \<in> set normal_stop_reasons. aggregate_stop_reason subs = PStr w \<longrightarrow> (\<exists>s \<in> set subs. sb_ok s \<and> sb_stop s = PStr w))
   \<and> (aggregate_stop_reason subs = PNone \<or> (\<exists>s \<in> set subs. aggregate_stop_reason subs = sb_stop s))"
  using aggregated_stop_reason by blast

subsection \<open>What the record keeps\<close>

text \<open>The trust axes and the findings through each of the passes.\<close>

definition axes_bool :: "pydict \<Rightarrow> bool" where
  "axes_bool r \<longleftrightarrow> is_bool (dget r ''parse_ok'') \<and> is_bool (dget r ''degraded'') \<and> is_bool (dget r ''diff_truncated'')"

definition same_axes :: "pydict \<Rightarrow> pydict \<Rightarrow> bool" where
  "same_axes r r' \<longleftrightarrow> (\<forall>k \<in> {''parse_ok'', ''degraded'', ''diff_truncated''}. dget r' k = dget r k)"

lemma same_axes_trust: "same_axes r r' \<Longrightarrow> trusted_rec r' = trusted_rec r \<and> axes_bool r' = axes_bool r"
  by (simp add: same_axes_def trusted_rec_def axes_bool_def)

lemma same_axes_trans: "same_axes r s \<Longrightarrow> same_axes s t \<Longrightarrow> same_axes r t"
  by (simp add: same_axes_def)

lemma same_axes_refl [simp]: "same_axes r r"
  by (simp add: same_axes_def)

definition plain_findings :: "pydict \<Rightarrow> pydict list" where
  "plain_findings r = map (without [''refuter'']) (as_findings (dget r ''findings''))"

definition extends :: "pydict \<Rightarrow> pydict \<Rightarrow> bool" where
  "extends r r' \<longleftrightarrow> (\<exists>more. plain_findings r' = plain_findings r @ more)"

lemma extends_refl [simp]: "extends r r"
  by (simp add: extends_def)

lemma extends_trans: "extends r s \<Longrightarrow> extends s t \<Longrightarrow> extends r t"
  by (auto simp: extends_def)

lemma extends_same: "dget r' ''findings'' = dget r ''findings'' \<Longrightarrow> extends r r'"
  by (simp add: extends_def plain_findings_def)

lemma dget_with_provenance: "k \<noteq> ''extra_passes'' \<Longrightarrow> dget (with_provenance n prov r) k = dget r k"
  by (simp add: with_provenance_def dget_with_extra)

lemma provenance_axes: "same_axes r (with_provenance n prov r)" "extends r (with_provenance n prov r)"
  by (simp_all add: same_axes_def dget_with_provenance extends_same)

lemma settled_Done: "settled merged f = Done out \<longleftrightarrow> (\<exists>r. merged = Inr r \<and> out = f r)"
  by (auto simp: settled_def split: sum.split)

lemma settled_Stopped [simp]: "settled merged f \<noteq> Stopped"
  by (auto simp: settled_def split: sum.split)

text \<open>A pass that answered well.\<close>

fun good_event :: "pass_event \<Rightarrow> bool" where
  "good_event (Fresh c (Prompted trunc run)) = good_answer run"
| "good_event (Fresh c (Unbuilt e)) = False"
| "good_event (Bound c s m i) = (sb_ok s \<and> \<not> sb_degraded s)"

lemma failed_gets:
  assumes "merge_failed_extra_pass p n r = Inr out"
  shows "axes_bool p \<Longrightarrow> axes_bool out" and "\<not> trusted_rec out" and "extends p out"
    and "flag out ''parse_ok'' = False"
  using assms
  by (auto simp: merge_failed_extra_pass_def Let_def merged_gets demote_parse_gets axes_bool_def trusted_rec_def flag_def
      is_trustworthy_py_def is_trustworthy_def extends_def plain_findings_def split: if_splits)

lemma merged_extra:
  shows "axes_bool p \<Longrightarrow> axes_bool (merge_extra_pass p e n)"
    and "trusted_rec (merge_extra_pass p e n) \<longleftrightarrow> trusted_rec p \<and> flag e ''parse_ok'' \<and> \<not> flag e ''degraded''"
    and "extends p (merge_extra_pass p e n)"
proof -
  show "axes_bool p \<Longrightarrow> axes_bool (merge_extra_pass p e n)" by (simp add: extra_gets axes_bool_def)
  show "trusted_rec (merge_extra_pass p e n) \<longleftrightarrow> trusted_rec p \<and> flag e ''parse_ok'' \<and> \<not> flag e ''degraded''"
    by (auto simp: extra_gets trusted_rec_def is_trustworthy_py_def is_trustworthy_def)
  show "extends p (merge_extra_pass p e n)"
    unfolding extends_def plain_findings_def extra_gets as_findings_map by simp
qed

lemma merged_skeptic: "same_axes p (merge_skeptic_pass p e r)" "extends p (merge_skeptic_pass p e r)"
proof -
  show "same_axes p (merge_skeptic_pass p e r)" by (simp add: same_axes_def skeptic_gets)
  show "extends p (merge_skeptic_pass p e r)"
    unfolding extends_def plain_findings_def skeptic_findings as_findings_map by simp
qed

lemma strip_plain: "dicts_of (map strip_refuter vs) = map (without [''refuter'']) (dicts_of vs)"
  by (induction vs rule: dicts_of.induct) (simp_all add: strip_refuter_def)

lemma without_twice: "without ks (without ks d) = without ks d"
  by (simp add: without_def)

lemma without_dset: "k \<in> set ks \<Longrightarrow> without ks (dset k v d) = without ks d"
proof -
  assume k: "k \<in> set ks"
  have "filter (\<lambda>(j, _). j \<notin> set ks) (AList.update k v d) = filter (\<lambda>(j, _). j \<notin> set ks) d"
    using k by (induction d) auto
  then show ?thesis by (simp add: without_def dset_def)
qed

lemma re_examined_plain: "strip_refuter (re_examined limit p m vs i f) = strip_refuter f"
  by (cases f) (auto simp: re_examined_def strip_refuter_def without_twice without_dset split: option.split)

lemma plain_strip: "plain_findings r = dicts_of (map strip_refuter (as_list (dget r ''findings'')))"
  by (simp add: plain_findings_def as_findings_def strip_plain)

lemma merged_refuter:
  assumes "merge_refuter_pass p answer prov t deg part notes = Inr out"
  shows "same_axes p out" and "plain_findings out = plain_findings p"
proof -
  show "same_axes p out" using refuter_gets [OF assms] by (simp add: same_axes_def)
  have "map (strip_refuter \<circ> (\<lambda>(i, f). re_examined l pr m vs i f)) (List.enumerate n fs) = map strip_refuter fs" for l pr m vs n fs
    by (rule nth_equalityI) (simp_all add: nth_enumerate_eq re_examined_plain)
  then show "plain_findings out = plain_findings p"
    by (simp add: plain_strip refuter_findings [OF assms])
qed

lemma skipped_refuter:
  assumes "skipped_refuter_pass p note = Inr out"
  shows "same_axes p out" and "plain_findings out = plain_findings p"
  using assms
  by (auto simp: skipped_refuter_pass_def Let_def dget_annotated same_axes_def plain_findings_def as_findings_def strip_plain
      without_twice split: if_splits pyval.splits)

subsection \<open>What may be published as clean\<close>

definition step_ok :: "bool \<Rightarrow> pydict \<Rightarrow> pydict \<Rightarrow> bool" where
  "step_ok good r out \<longleftrightarrow> (axes_bool r \<longrightarrow> axes_bool out) \<and> extends r out \<and> (trusted_rec out \<longleftrightarrow> trusted_rec r \<and> good)"

lemma step_same: "same_axes r out \<Longrightarrow> extends r out \<Longrightarrow> step_ok True r out"
  using same_axes_trust by (simp add: step_ok_def)

lemma step_trans: "step_ok g r s \<Longrightarrow> step_ok h s t \<Longrightarrow> step_ok (g \<and> h) r t"
  using extends_trans by (auto simp: step_ok_def)

lemma step_refl: "step_ok True r r"
  by (simp add: step_same)

lemma step_then_provenance:
  assumes "step_ok g r m"
  shows "step_ok g r (with_provenance n prov m)"
  using step_trans [OF assms step_same [OF provenance_axes]] by simp

lemma named_failed: "n \<noteq> ''skeptic'' \<Longrightarrow> merge_named_pass r n None reason = Inr m \<Longrightarrow> step_ok False r m"
  using failed_gets [of r n reason m] by (simp add: merge_named_pass_def step_ok_def)

lemma named_extra: "n \<noteq> ''skeptic'' \<Longrightarrow> merge_named_pass r n (Some e) reason = Inr m \<Longrightarrow>
    step_ok (flag e ''parse_ok'' \<and> \<not> flag e ''degraded'') r m"
  using merged_extra [of r e n] by (auto simp: merge_named_pass_def step_ok_def)

lemma named_skeptic: "merge_named_pass r ''skeptic'' extra reason = Inr m \<Longrightarrow> step_ok True r m"
  using step_same [OF merged_skeptic] by (auto simp: merge_named_pass_def)

lemma extra_flags:
  "flag (extra_of rec n trunc p) ''parse_ok'' = pr_ok p" "flag (extra_of rec n trunc p) ''degraded'' = pr_degraded p"
  "flag (followup_extra rec n s) ''parse_ok'' = sb_ok s" "flag (followup_extra rec n s) ''degraded'' = sb_degraded s"
  by (simp_all add: flag_def extra_of_def followup_extra_def dget_def)

lemma failed_pass_step: "n \<noteq> ''skeptic'' \<Longrightarrow> failed_pass r n reason note = Done out \<Longrightarrow> step_ok False r out"
  by (auto simp: failed_pass_def settled_Done intro: step_then_provenance named_failed)

lemma failed_skeptic_step: "failed_pass r ''skeptic'' reason note = Done out \<Longrightarrow> step_ok True r out"
  by (auto simp: failed_pass_def settled_Done intro: step_then_provenance named_skeptic)

lemma extra_pass_step:
  assumes "n \<noteq> ''skeptic''" and "extra_pass r n c run = Done out"
  shows "step_ok (good_event (Fresh c run)) r out"
proof (cases run)
  case (Unbuilt e)
  with assms show ?thesis using failed_pass_step by (simp add: extra_pass_def Let_def split: if_splits)
next
  case (Prompted trunc q)
  show ?thesis
  proof (cases q)
    case (Returned oc)
    show ?thesis
    proof (cases "ou_parsed oc")
      case None
      from assms(2) obtain m where "merge_named_pass r n None (pass_reason n (or_else (ou_failure oc) (failed_pass_reason n))) = Inr m"
        and "out = with_provenance n (attributed oc) m"
        by (auto simp: extra_pass_def Prompted Returned None settled_Done split: if_splits)
      then show ?thesis using step_then_provenance [OF named_failed [OF assms(1)]] by (simp add: Prompted Returned None)
    next
      case (Some p)
      from assms(2) obtain m where "merge_named_pass r n (Some (extra_of r n trunc p)) [] = Inr m"
        and "out = with_provenance n (attributed oc) m"
        by (auto simp: extra_pass_def Prompted Returned Some settled_Done split: if_splits)
      then show ?thesis using step_then_provenance [OF named_extra [OF assms(1)]]
        by (fastforce simp: Prompted Returned Some extra_flags)
    qed
  qed (use assms failed_pass_step in \<open>simp_all add: extra_pass_def Prompted Let_def split: if_splits\<close>)
qed

lemma extra_skeptic_step: "extra_pass r ''skeptic'' c run = Done out \<Longrightarrow> step_ok True r out"
  by (auto simp: extra_pass_def Let_def settled_Done split: if_splits prompt_run.splits chain_run.splits option.splits
      intro: step_then_provenance named_skeptic failed_skeptic_step)

lemma note_decision_step: "step_ok True r (note_decision r n i)"
  by (rule step_same) (simp_all add: same_axes_def note_decision_def extends_same)

lemma followup_step:
  assumes "n \<noteq> ''skeptic''" and "followup_pass r n s meta = Done out"
  shows "step_ok (sb_ok s \<and> \<not> sb_degraded s) r out"
proof (cases "sb_ok s")
  case True
  with assms(2) obtain m where "merge_named_pass r n (Some (followup_extra r n s)) ''scheduled'' = Inr m"
    and "out = with_provenance n (dict_update (dset ''attempts'' (PList (map PDict (sb_attempts s))) (sb_provenance s)) meta) m"
    by (auto simp: followup_pass_def settled_Done)
  then show ?thesis using step_then_provenance [OF named_extra [OF assms(1)]] by (fastforce simp: extra_flags)
next
  case False
  with assms(2) obtain m where "merge_named_pass r n None (pass_reason n (or_else (sb_failure s) (failed_pass_reason n))) = Inr m"
    and "out = with_provenance n (dict_update (dset ''attempts'' (PList (map PDict (sb_attempts s))) (sb_provenance s)) meta) m"
    by (auto simp: followup_pass_def settled_Done)
  then show ?thesis using step_then_provenance [OF named_failed [OF assms(1)]] False by simp
qed

lemma followup_skeptic_step: "followup_pass r ''skeptic'' s meta = Done out \<Longrightarrow> step_ok True r out"
  by (auto simp: followup_pass_def settled_Done split: if_splits intro: step_then_provenance named_skeptic)

lemma security_step:
  assumes "required_followup scheduled r ''security'' ev = Done out"
  shows "step_ok (scheduled \<longrightarrow> good_event ev) r out"
proof (cases ev)
  case (Fresh c run)
  with assms show ?thesis using extra_pass_step [of "''security''" r c run out] step_refl
    by (auto simp: required_followup_def split: if_splits)
next
  case (Bound c s m i)
  with assms show ?thesis using followup_step [of "''security''" r s m out] note_decision_step
    by (auto simp: required_followup_def split: if_splits)
qed

lemma skeptic_step:
  assumes "required_followup scheduled r ''skeptic'' ev = Done out"
  shows "step_ok True r out"
proof (cases ev)
  case (Fresh c run)
  with assms show ?thesis using extra_skeptic_step step_refl by (auto simp: required_followup_def split: if_splits)
next
  case (Bound c s m i)
  with assms show ?thesis using followup_skeptic_step note_decision_step by (auto simp: required_followup_def split: if_splits)
qed

lemma annotation_step: "same_axes r out \<Longrightarrow> plain_findings out = plain_findings r \<Longrightarrow> step_ok True r out"
  by (rule step_same) (auto simp: extends_def)

lemma refuter_failed_step: "refuter_failed r t note g p ns = Inr out \<Longrightarrow> step_ok True r out"
  using merged_refuter annotation_step unfolding refuter_failed_def Let_def by blast

lemma refuter_step:
  assumes "refuter_pass r t c chain contributing run = Done out"
  shows "step_ok True r out"
proof -
  have pre: "step_ok True r m" if "step_ok True (with_provenance n prov r) m" for n prov m
    using step_trans [OF step_then_provenance [OF step_refl] that] by simp
  have fail: "refuter_failed (with_provenance n prov r) t why g p ns = Inr m \<Longrightarrow> step_ok True r m" for n prov why g p ns m
    using pre refuter_failed_step by blast
  have good: "merge_refuter_pass (with_provenance n prov r) a pv t d q ns = Inr m \<Longrightarrow> step_ok True r m" for n prov a pv d q ns m
    by (rule pre, rule annotation_step) (erule merged_refuter)+
  have skip: "skipped_refuter_pass r why = Inr m \<Longrightarrow> step_ok True r (with_provenance n prov m)" for n prov why m
    using skipped_refuter annotation_step step_then_provenance by blast
  show ?thesis using assms unfolding refuter_pass_def Let_def
    by (auto simp: settled_Done intro: fail good skip
        split: if_splits prompt_run.splits chain_run.splits option.splits pyval.splits bool.splits)
qed

lemma refute_step: "refute se ha snapshot r = Done out \<Longrightarrow> step_ok True r out"
  using refuter_step step_refl skipped_refuter annotation_step
  by (auto simp: refute_def settled_Done split: prod.splits bool.splits if_splits)

lemma finish_Done:
  assumes "finish_review se ha rec0 = Done out"
  obtains r where "step_ok (se_hold se \<longrightarrow> good_event (ha_security ha)) rec0 r" and "out = stamped (classified (ha_stack ha) r)"
proof -
  from assms obtain r1 where r1: "required_followup (se_hold se) rec0 ''security'' (ha_security ha) = Done r1"
    by (cases "required_followup (se_hold se) rec0 ''security'' (ha_security ha)") (auto simp: finish_review_def)
  with assms obtain r2 where r2: "required_followup (skeptic_due se r1) r1 ''skeptic'' (ha_skeptic ha) = Done r2"
    by (cases "required_followup (skeptic_due se r1) r1 ''skeptic'' (ha_skeptic ha)") (auto simp: finish_review_def)
  with assms r1 obtain r3 where r3: "refute se ha rec0 r2 = Done r3"
    by (cases "refute se ha rec0 r2") (auto simp: finish_review_def)
  with assms r1 r2 have "out = stamped (classified (ha_stack ha) r3)"
    by (auto simp: finish_review_def split: if_splits)
  moreover have "step_ok (se_hold se \<longrightarrow> good_event (ha_security ha)) rec0 r3"
    using step_trans [OF step_trans [OF security_step [OF r1] skeptic_step [OF r2]] refute_step [OF r3]] by simp
  ultimately show ?thesis by (rule that [rotated])
qed

lemma classified_axes: "same_axes r (classified f r)"
  by (simp add: classified_def same_axes_def Let_def split: option.split)

lemma status_clean: "axes_bool r \<Longrightarrow> status_for r = ''clean'' \<longleftrightarrow> trusted_rec r"
  by (auto simp: status_for_def flag_def axes_bool_def trusted_rec_def is_trustworthy_py_def is_trustworthy_def elim!: is_bool_E)

lemma status_other: "status_for (dset ''trustworthy'' v r) = status_for r"
  by (simp add: status_for_def flag_def trusted_rec_def)

lemma finish_trust:
  assumes "axes_bool rec0" and "finish_review se ha rec0 = Done out"
  shows "dget out ''status'' = PStr ''clean'' \<longleftrightarrow> dget out ''trustworthy'' = PBool True"
    and "dget out ''trustworthy'' = PBool True \<longleftrightarrow> trusted_rec rec0 \<and> (se_hold se \<longrightarrow> good_event (ha_security ha))"
    and "trusted_rec out \<longleftrightarrow> dget out ''trustworthy'' = PBool True"
proof -
  obtain r where step: "step_ok (se_hold se \<longrightarrow> good_event (ha_security ha)) rec0 r"
    and out: "out = stamped (classified (ha_stack ha) r)"
    by (rule finish_Done [OF assms(2)])
  let ?c = "classified (ha_stack ha) r"
  have c: "trusted_rec ?c = trusted_rec r" "axes_bool ?c"
    using same_axes_trust [OF classified_axes [of r "ha_stack ha"]] step assms(1) by (simp_all add: step_ok_def)
  have t: "dget out ''trustworthy'' = PBool (trusted_rec ?c)" and s: "dget out ''status'' = PStr (status_for ?c)"
    by (simp_all add: out stamped_def Let_def status_other)
  have o: "trusted_rec out = trusted_rec ?c" by (simp add: out stamped_def Let_def trusted_rec_def)
  show "dget out ''status'' = PStr ''clean'' \<longleftrightarrow> dget out ''trustworthy'' = PBool True"
    using s t status_clean [OF c(2)] by simp
  show "dget out ''trustworthy'' = PBool True \<longleftrightarrow> trusted_rec rec0 \<and> (se_hold se \<longrightarrow> good_event (ha_security ha))"
    using t c(1) step by (simp add: step_ok_def)
  show "trusted_rec out \<longleftrightarrow> dget out ''trustworthy'' = PBool True" using o t by simp
qed

text \<open>C8 (safety).  What may be published as clean. A review that finishes has the status \<open>clean\<close> exactly if it is
  recorded as trustworthy, and that exactly if the finder's own result was and the security pass, when
  one was due, answered well. No skeptic and no refuter, whatever they say, and no failure of theirs
  makes a review clean or takes that away.\<close>

theorem clean_needs_every_due_pass:
  assumes "axes_bool rec0" and "finish_review se ha rec0 = Done out"
  shows "(dget out ''status'' = PStr ''clean'' \<longleftrightarrow> dget out ''trustworthy'' = PBool True)
      \<and> (dget out ''trustworthy'' = PBool True \<longleftrightarrow> trusted_rec rec0 \<and> (se_hold se \<longrightarrow> good_event (ha_security ha)))
      \<and> (trusted_rec out \<longleftrightarrow> dget out ''trustworthy'' = PBool True)"
  using finish_trust [OF assms] by blast

lemma without_both: "without (ks @ ls) d = without ls (without ks d)"
  unfolding without_def filter_filter by (rule filter_cong) auto

lemma as_findings_classified:
  "as_findings (PList (classify_findings r vs)) = map (\<lambda>f. dset ''scope_attribution'' (attribute_finding r f) f) (dicts_of vs)"
  by (induction vs rule: dicts_of.induct) (simp_all add: as_findings_def classify_findings_def)

lemma classified_findings:
  "map (without [''refuter'', ''scope_attribution'']) (as_findings (dget (classified stack r) ''findings'')) =
   map (without [''refuter'', ''scope_attribution'']) (as_findings (dget r ''findings''))"
proof (cases stack)
  case (Some v)
  have "as_findings (dget (classified stack r) ''findings'') =
      map (\<lambda>f. dset ''scope_attribution'' (attribute_finding v f) f) (as_findings (dget r ''findings''))"
    unfolding Some classified_def by (simp add: Let_def as_findings_classified) (simp add: as_findings_def)
  then show ?thesis by (simp add: without_dset)
qed (simp add: classified_def)

text \<open>C11 (invariant).  The finder's findings keep their places. Whatever the extra passes add, demote or fail at, and however
  the stack of the review attributes what was found, the finished record lists the finder's own findings first, in order,
  none dropped and none rewritten: only the two annotations, \<open>refuter\<close> and \<open>scope_attribution\<close>, may differ, and without a
  stack only the first. So an index into the finder's list stays valid.\<close>

theorem finder_findings_keep_their_places:
  assumes "finish_review se ha rec0 = Done out"
  shows "(\<exists>more. map (without [''refuter'', ''scope_attribution'']) (as_findings (dget out ''findings'')) =
              map (without [''refuter'', ''scope_attribution'']) (as_findings (dget rec0 ''findings'')) @ more)
       \<and> (ha_stack ha = None \<longrightarrow> (\<exists>more. plain_findings out = plain_findings rec0 @ more))"
proof -
  obtain r where "step_ok (se_hold se \<longrightarrow> good_event (ha_security ha)) rec0 r" and out: "out = stamped (classified (ha_stack ha) r)"
    by (rule finish_Done [OF assms])
  then obtain more where more: "plain_findings r = plain_findings rec0 @ more" by (auto simp: step_ok_def extends_def)
  have two: "map (without [''refuter'', ''scope_attribution'']) (as_findings v) =
      map (without [''scope_attribution'']) (map (without [''refuter'']) (as_findings v))" for v
    using without_both [of "[''refuter'']" "[''scope_attribution'']"] by simp
  have kept: "dget out ''findings'' = dget (classified (ha_stack ha) r) ''findings''" by (simp add: out stamped_def Let_def)
  have "map (without [''refuter'', ''scope_attribution'']) (as_findings (dget out ''findings'')) =
      map (without [''refuter'', ''scope_attribution'']) (as_findings (dget rec0 ''findings'')) @ map (without [''scope_attribution'']) more"
    unfolding kept classified_findings unfolding two using more by (simp add: plain_findings_def del: map_map)
  moreover have "ha_stack ha = None \<Longrightarrow> plain_findings out = plain_findings rec0 @ more"
    using more by (simp add: plain_findings_def kept classified_def)
  ultimately show ?thesis by blast
qed

lemma cancellation_effects:
  shows "\<not> trusted_rec (cancellation_transform rec boundary)"
    and "dget (cancellation_transform rec boundary) ''trustworthy'' = PBool False"
    and "status_for (cancellation_transform rec boundary) = ''failed'' \<or> status_for (cancellation_transform rec boundary) = ''degraded''"
    and "k \<notin> {''degraded'', ''degraded_reason'', ''status'', ''failure_reason'', ''trustworthy''} \<Longrightarrow>
      dget (cancellation_transform rec boundary) k = dget rec k"
  by (auto simp: cancellation_transform_def Let_def updates trusted_rec_def status_for_def flag_def is_trustworthy_py_def is_trustworthy_def)

text \<open> A cancelled review is never trustworthy, whatever it had found, and nothing of what it had found is
  lost: only its degradation, its status and its reasons change.\<close>

theorem cancelled_review_is_demoted:
  "\<not> trusted_rec (cancellation_transform rec boundary)
   \<and> dget (cancellation_transform rec boundary) ''trustworthy'' = PBool False
   \<and> (status_for (cancellation_transform rec boundary) = ''failed'' \<or> status_for (cancellation_transform rec boundary) = ''degraded'')
   \<and> (\<forall>k. k \<notin> {''degraded'', ''degraded_reason'', ''status'', ''failure_reason'', ''trustworthy''} \<longrightarrow>
        dget (cancellation_transform rec boundary) k = dget rec k)"
  by (intro conjI allI impI cancellation_effects)

subsection \<open>Who may refute\<close>

lemma map_of_dict_update: "map_of (dict_update base upd) = map_of base ++ map_of (rev upd)"
proof (induction upd arbitrary: base)
  case (Cons e upd)
  then show ?case by (cases e) (auto simp: updates fun_eq_iff map_add_def split: option.split)
qed (simp add: updates)

lemma re_examined_key:
  assumes "re_examined limit p m vs i f = PDict d" and "dhas d ''refuter''"
  shows "\<exists>w r. dget d ''refuter'' = PDict (verdict_note p m w r) \<and> first_verdict limit i vs \<noteq> None"
  using assms by (cases f) (fastforce simp: re_examined_def strip_refuter_def dhas_def map_of_without split: option.splits prod.splits)+

lemma refuter_key:
  assumes "merge_refuter_pass r answer prov t deg part notes = Inr out"
    and "PDict d \<in> set (as_list (dget out ''findings''))" and "dhas d ''refuter''"
  shows "\<exists>w re. answer \<noteq> None \<and> dget d ''refuter'' = PDict (verdict_note (dget prov ''provider'') (dget prov ''model'') w re)"
proof -
  from assms(2) obtain i f where f: "re_examined (verdict_limit r t) (dget prov ''provider'') (dget prov ''model'') (verdicts_of answer) i f = PDict d"
    unfolding refuter_findings [OF assms(1)] by auto
  have "answer \<noteq> None" using re_examined_key [OF f assms(3)] by (cases answer) (auto simp: verdicts_of_def)
  then show ?thesis using re_examined_key [OF f assms(3)] by blast
qed

lemma no_refuter_key: "PDict d \<in> set (map strip_refuter fs) \<Longrightarrow> \<not> dhas d ''refuter''"
  by (auto simp: strip_refuter_def dhas_def map_of_without split: pyval.splits)

definition refuter_entry :: "pydict \<Rightarrow> pydict" where
  "refuter_entry r = as_dict (dget (as_dict (dget r ''extra_passes'')) ''refuter'')"

lemma refuter_meta_other:
  assumes "k \<notin> {''dropped'', ''annotated'', ''verdicts_total'', ''degraded'', ''failed'', ''partial_coverage'', ''note''}"
  shows "dget (refuter_pass_meta answered deg part n prov ns s) k = (case map_of (rev (without [''note''] prov)) k of Some v \<Rightarrow> v
      | None \<Rightarrow> dget (refuter_skeleton (if \<not> answered then ''failed'' else if deg then ''degraded'' else ''ran'') answered) k)"
proof -
  have tail: "map_of (base @ (if answered then [] else [(''failed'', PBool True)]) @ (if part then [(''partial_coverage'', PBool True)] else [])) k
      = map_of base k" for base
    using assms by (simp add: map_add_def split: option.split)
  have head: "map_of (dset ''dropped'' a (dset ''annotated'' b (dset ''verdicts_total'' c (dset ''degraded'' d base)))) k = map_of base k" for a b c d base
    using assms by simp
  have noted: "dget (dset ''note'' x m) k = dget m k" for x m using assms by auto
  have get: "dget (dset ''note'' x (dict_update (dset ''dropped'' a (dset ''annotated'' b (dset ''verdicts_total'' c (dset ''degraded'' d base)))
        @ (if answered then [] else [(''failed'', PBool True)]) @ (if part then [(''partial_coverage'', PBool True)] else [])) upd)) k
      = (case map_of (rev upd) k of Some v \<Rightarrow> v | None \<Rightarrow> dget base k)" for x a b c d base upd
    unfolding noted by (simp only: dget_def map_of_dict_update map_add_def tail head split: option.split) simp
  show ?thesis unfolding refuter_pass_meta_def Let_def by (rule get)
qed

lemma refuter_entry_gets:
  assumes "merge_refuter_pass r (Some answer) prov t deg part notes = Inr out"
    and "prov = dset ''contributing_providers'' contributing (with_timing timing (identity_of a))"
  shows "dget (refuter_entry out) ''contributing_providers'' = contributing"
    and "dget (refuter_entry out) ''provider'' = dget a ''provider''"
    and "dget (refuter_entry out) ''model'' = dget a ''model''"
    and "dget (refuter_entry out) ''same_provider_as_finder'' = PNone"
    and "dget prov ''provider'' = dget a ''provider''" and "dget prov ''model'' = dget a ''model''"
proof -
  obtain ns s where e: "refuter_entry out = refuter_pass_meta True deg part (length (verdicts_of (Some answer))) prov ns s"
    by (rule refuter_out [OF assms(1)]) (simp add: refuter_entry_def)
  have p: "map_of (rev (without [''note''] prov)) ''contributing_providers'' = Some contributing"
    "map_of (rev (without [''note''] prov)) ''provider'' = Some (dget a ''provider'')"
    "map_of (rev (without [''note''] prov)) ''model'' = Some (dget a ''model'')"
    "map_of (rev (without [''note''] prov)) ''same_provider_as_finder'' = None"
    unfolding assms(2) by (simp_all add: with_timing_def identity_of_def dset_def without_def)
  have m: "dget (refuter_entry out) k = (case map_of (rev (without [''note''] prov)) k of Some v \<Rightarrow> v
      | None \<Rightarrow> dget (refuter_skeleton (if \<not> True then ''failed'' else if deg then ''degraded'' else ''ran'') True) k)"
    if "k \<in> {''contributing_providers'', ''provider'', ''model'', ''same_provider_as_finder''}" for k
    unfolding e by (rule refuter_meta_other) (use that in auto)
  show "dget (refuter_entry out) ''contributing_providers'' = contributing"
    "dget (refuter_entry out) ''provider'' = dget a ''provider''"
    "dget (refuter_entry out) ''model'' = dget a ''model''"
    "dget (refuter_entry out) ''same_provider_as_finder'' = PNone"
    by (simp_all add: m p) (simp add: refuter_skeleton_def dget_def)
  show "dget prov ''provider'' = dget a ''provider''" "dget prov ''model'' = dget a ''model''"
    unfolding assms(2) by (simp_all add: with_timing_def identity_of_def dget_def)
qed

lemma verdict_note_gets: "dget (verdict_note p m w r) ''provider'' = p" "dget (verdict_note p m w r) ''model'' = m"
  by (simp_all add: verdict_note_def dget_def)

lemma verdict_authors:
  assumes "refuter_pass rec total_found cancelled chain contributing run = Done out"
    and "PDict d \<in> set (as_list (dget out ''findings''))" and "dhas d ''refuter''"
  shows "\<exists>families f. contributor_families contributing = Some families
      \<and> provider_family (dget (as_dict (dget d ''refuter'')) ''provider'') = Some f \<and> f \<notin> set families"
    and "adoption_refusal (refuter_entry out) (as_dict (dget d ''refuter'')) = None"
proof -
  have skip: "False" if "skipped_refuter_pass r why = Inr m" "out = with_provenance n p m" for r why n p m
  proof -
    have "dget out ''findings'' = dget m ''findings''" using that(2) by (simp add: dget_with_provenance)
    moreover have "as_list (dget m ''findings'') = map strip_refuter (as_list (dget r ''findings''))"
      using that(1) by (auto simp: skipped_refuter_pass_def Let_def dget_annotated split: if_splits pyval.splits)
    ultimately show False using assms(2,3) no_refuter_key by metis
  qed
  have fail: "False" if "refuter_failed r tt why g p ns = Inr out" for r tt why g p ns
    using that refuter_key [OF _ assms(2,3)] unfolding refuter_failed_def Let_def by blast
  define prov where "prov = (\<lambda>oc. dset ''contributing_providers'' contributing (provenance oc))"
  from assms(1) obtain oc payload deg trunc ns r where ans: "independent_answer contributing chain oc"
    and m: "merge_refuter_pass r (Some payload) (prov oc) total_found deg trunc ns = Inr out"
    unfolding refuter_pass_def Let_def prov_def
    by (auto simp: settled_Done dest: skip fail split: if_splits prompt_run.splits chain_run.splits option.splits pyval.splits bool.splits)
  from ans obtain a f families where a: "ou_accepted oc = Some a" "provider_family (dget a ''provider'') = Some f"
      "contributor_families contributing = Some families" "f \<notin> set families"
    by (auto simp: independent_answer_def split: option.splits)
  have prov: "prov oc = dset ''contributing_providers'' contributing (with_timing (last_timing (ou_attempts oc) (dget a ''capacity_timing'')) (identity_of a))"
    by (simp add: prov_def provenance_def a(1))
  note g = refuter_entry_gets [OF m prov]
  from refuter_key [OF m assms(2,3)] obtain w re where d: "dget d ''refuter'' = PDict (verdict_note (dget a ''provider'') (dget a ''model'') w re)"
    using g(5,6) by auto
  show "\<exists>families f. contributor_families contributing = Some families
      \<and> provider_family (dget (as_dict (dget d ''refuter'')) ''provider'') = Some f \<and> f \<notin> set families"
    using a d by (simp add: verdict_note_gets)
  show "adoption_refusal (refuter_entry out) (as_dict (dget d ''refuter'')) = None"
    using a d g by (simp add: adoption_refusal_def verdict_note_gets)
qed

text \<open>C10 (safety).  Every verdict a refuter pass writes is independent, and can be acted on. If a finding of the resulting
  record carries a \<open>refuter\<close> annotation, all providers that contributed to the findings are known, the
  provider that answered is of a family none of them is of, and the provenance recorded with the pass
  is one the triage verb that adopts a verdict accepts.\<close>

theorem verdicts_are_independent:
  assumes "refuter_pass rec total_found cancelled chain contributing run = Done out"
    and "PDict d \<in> set (as_list (dget out ''findings''))" and "dhas d ''refuter''"
  shows "(\<exists>families f. contributor_families contributing = Some families
        \<and> provider_family (dget (as_dict (dget d ''refuter'')) ''provider'') = Some f \<and> f \<notin> set families)
      \<and> adoption_refusal (refuter_entry out) (as_dict (dget d ''refuter'')) = None"
  using verdict_authors [OF assms] by blast

subsection \<open>Witnesses\<close>

definition sample_parse :: answer where
  "sample_parse = \<lparr>pr_ok = True, pr_degraded = False, pr_reason = [], pr_stop = PStr ''EndTurn'', pr_summary = ''s'',
     pr_findings = [], pr_payload = PDict []\<rparr>"

definition sample_accepted :: pydict where
  "sample_accepted = [(''adapter_name'', PStr ''grok''), (''provider'', PStr ''xai''), (''model'', PStr ''m''), (''effort'', PNone)]"

definition sample_oc :: outcome where
  "sample_oc = \<lparr>ou_parsed = Some sample_parse, ou_attempts = [], ou_failure = [], ou_accepted = Some sample_accepted\<rparr>"

definition sample_selection :: selection_view where
  "sample_selection = \<lparr>sv_sections = [], sv_bytes = 0, sv_dropped = [], sv_over_budget = False, sv_degraded = False, sv_note = []\<rparr>"

definition sample_sub :: "bool \<Rightarrow> string \<Rightarrow> sub" where
  "sample_sub answered word = (blank_sub False [])\<lparr>sb_ok := answered, sb_stop := PStr word\<rparr>"

theorem stop_reason_is_not_hidden_witness:
  "\<exists>s \<in> set [sample_sub False ''SUCCESS'', sample_sub True ''EndTurn'']. sb_ok s \<and> sb_stop s = PStr ''EndTurn''"
proof -
  let ?subs = "[sample_sub False ''SUCCESS'', sample_sub True ''EndTurn'']"
  have "aggregate_stop_reason ?subs = PStr ''EndTurn''" "''EndTurn'' \<in> set normal_stop_reasons" by code_simp+
  with stop_reason_is_not_hidden [of ?subs] show ?thesis by blast
qed

definition sample_setting :: setting where
  "sample_setting = \<lparr>se_env = (\<lambda>_. None), se_tables = \<lparr>pt_segments = [''auth''], pt_patterns = []\<rparr>, se_reviewers = [], se_mode = ''now'',
     se_files = [''auth/a''], se_hold = True, se_trunc = (\<lambda>_. None)\<rparr>"

definition sample_happenings :: "chain_run \<Rightarrow> happenings" where
  "sample_happenings run = \<lparr>ha_security = Fresh False (Prompted False run), ha_skeptic = Fresh False (Unbuilt ''x''),
     ha_cancel_refuter = False, ha_chain = [], ha_contributing = PNone, ha_refuter = Unbuilt ''x'', ha_stack = None,
     ha_cancel_end = False\<rparr>"

definition sample_finished :: "chain_run \<Rightarrow> pydict" where
  "sample_finished run = (case finish_review sample_setting (sample_happenings run) sample_review_rec of Done out \<Rightarrow> out | _ \<Rightarrow> [])"

lemma sample_finishes:
  "finish_review sample_setting (sample_happenings (Returned sample_oc)) sample_review_rec = Done (sample_finished (Returned sample_oc))"
  "finish_review sample_setting (sample_happenings (Raised ''boom'')) sample_review_rec = Done (sample_finished (Raised ''boom''))"
proof -
  have "case finish_review sample_setting (sample_happenings (Returned sample_oc)) sample_review_rec of Done _ \<Rightarrow> True | _ \<Rightarrow> False"
    "case finish_review sample_setting (sample_happenings (Raised ''boom'')) sample_review_rec of Done _ \<Rightarrow> True | _ \<Rightarrow> False"
    by code_simp+
  then show "finish_review sample_setting (sample_happenings (Returned sample_oc)) sample_review_rec = Done (sample_finished (Returned sample_oc))"
    "finish_review sample_setting (sample_happenings (Raised ''boom'')) sample_review_rec = Done (sample_finished (Raised ''boom''))"
    by (auto simp: sample_finished_def split: pass_result.splits)
qed

lemma sample_axes: "axes_bool sample_review_rec" "trusted_rec sample_review_rec"
  by code_simp+

theorem clean_needs_every_due_pass_witness:
  "dget (sample_finished (Returned sample_oc)) ''status'' = PStr ''clean'' \<and> dget (sample_finished (Raised ''boom'')) ''status'' \<noteq> PStr ''clean''"
proof -
  note c = clean_needs_every_due_pass [OF sample_axes(1)]
  show ?thesis
    using c [OF sample_finishes(1)] c [OF sample_finishes(2)] sample_axes(2)
    by (simp add: sample_happenings_def sample_setting_def sample_oc_def sample_parse_def)
qed

theorem finder_findings_keep_their_places_witness:
  "\<exists>more. plain_findings (sample_finished (Raised ''boom'')) = plain_findings sample_review_rec @ more"
  using finder_findings_keep_their_places [OF sample_finishes(2)] by (simp add: sample_happenings_def)

theorem cancelled_review_is_demoted_witness:
  "dget (cancellation_transform sample_review_rec ''SIGTERM'') ''findings'' = dget sample_review_rec ''findings''"
  using cancelled_review_is_demoted [of sample_review_rec "''SIGTERM''"] by simp

definition sample_refuting :: outcome where
  "sample_refuting = \<lparr>ou_parsed = Some (sample_parse\<lparr>pr_payload := PDict sample_answer\<rparr>), ou_attempts = [], ou_failure = [],
     ou_accepted = Some sample_accepted\<rparr>"

definition sample_chain :: "chain_entry list" where
  "sample_chain = [\<lparr>ce_provider = ''xai'', ce_enabled = True\<rparr>]"

abbreviation sample_contributors :: pyval where
  "sample_contributors \<equiv> PList [PStr ''openai'']"

definition sample_credited :: pydict where
  "sample_credited = with_provenance ''refuter'' [(''contributing_providers'', sample_contributors)] sample_review_rec"

definition sample_prov :: pydict where
  "sample_prov = dset ''contributing_providers'' sample_contributors (provenance sample_refuting)"

lemma refuter_total: "\<exists>out. merge_refuter_pass r a prov (PInt t) deg part ns = Inr out"
  by (simp add: merge_refuter_pass_def Let_def refuter_limit_def)

lemma sample_refutes:
  obtains out where "refuter_pass sample_review_rec (PInt 1) False sample_chain sample_contributors (Prompted False (Returned sample_refuting)) = Done out"
    and "merge_refuter_pass sample_credited (Some sample_answer) sample_prov (PInt 1) False False [] = Inr out"
proof -
  obtain out where m: "merge_refuter_pass sample_credited (Some sample_answer) sample_prov (PInt 1) False False [] = Inr out"
    using refuter_total by blast
  have "independent_entries sample_contributors sample_chain \<noteq> []" "independent_answer sample_contributors sample_chain sample_refuting"
    "ou_parsed sample_refuting = Some (sample_parse\<lparr>pr_payload := PDict sample_answer\<rparr>)" "pr_ok sample_parse" "\<not> pr_degraded sample_parse"
    by code_simp+
  with m have "refuter_pass sample_review_rec (PInt 1) False sample_chain sample_contributors (Prompted False (Returned sample_refuting)) = Done out"
    by (simp add: refuter_pass_def Let_def settled_def sample_credited_def sample_prov_def)
  with m show ?thesis by (rule that [rotated])
qed

theorem verdicts_are_independent_witness:
  "\<exists>out d. PDict d \<in> set (as_list (dget out ''findings'')) \<and> dhas d ''refuter''
     \<and> adoption_refusal (refuter_entry out) (as_dict (dget d ''refuter'')) = None"
proof -
  obtain out where r: "refuter_pass sample_review_rec (PInt 1) False sample_chain sample_contributors (Prompted False (Returned sample_refuting)) = Done out"
    and m: "merge_refuter_pass sample_credited (Some sample_answer) sample_prov (PInt 1) False False [] = Inr out"
    by (rule sample_refutes)
  let ?vs = "map (\<lambda>(i, f). re_examined (verdict_limit sample_credited (PInt 1)) (dget sample_prov ''provider'') (dget sample_prov ''model'')
            (verdicts_of (Some sample_answer)) i f) (List.enumerate 0 (as_list (dget sample_credited ''findings'')))"
  have "PDict (as_dict (hd ?vs)) \<in> set ?vs" "dhas (as_dict (hd ?vs)) ''refuter''" by code_simp+
  then have d: "PDict (as_dict (hd ?vs)) \<in> set (as_list (dget out ''findings''))" "dhas (as_dict (hd ?vs)) ''refuter''"
    by (simp_all add: refuter_findings [OF m])
  from verdicts_are_independent [OF r d] d show ?thesis by blast
qed

end
