(* ===== verification/Batched.thy ===== *)
theory Batched
  imports Pipeline OrchProps
begin

section \<open>The batched review: checkpointed sub-reviews and their aggregate\<close>

text \<open>
  Models \<open>_checkpointed_sub\<close> and the loop of \<open>_orchestrate\<close> in \<open>pipeline.py\<close>, over the tables of
  \<open>Orchestrations\<close>: each pass is claimed, and then reused from its stored checkpoint, refused because
  another holds it, or run and completed under the fence of its claim. A run without a checkpoint run is the
  first branch of \<open>checkpointed_sub\<close>. What is given with each pass (\<open>surroundings\<close>) is what the code does not
  decide: how its chain ended, the clock and the token of its claim, what other processes wrote to the tables
  before the claim and while the reviewer ran, and whether SQLite itself failed. The two workers of
  \<open>parallel_batches.execute\<close> run the same operation for each batch; the batches are in order here, and what
  the other worker writes is among what others write. Its progress queue and its stop event are left out.
\<close>

subsection \<open>One sub-review under its claim\<close>

text \<open>\<open>_CheckpointRun\<close>: \<open>cr_continued\<close> is \<open>identity.continuation_source is not None\<close>.\<close>

record checkpoint_run =
  cr_orch :: string
  cr_owner :: string
  cr_continued :: bool

record surroundings =
  su_run :: chain_run
  su_before :: "orch_db \<Rightarrow> orch_db"
  su_meanwhile :: "orch_db \<Rightarrow> orch_db"
  su_token :: string
  su_now :: string
  su_lease :: string
  su_started :: string
  su_completed :: string
  su_wall :: pyval              \<comment> \<open>the rounded duration\<close>
  su_stored :: string
  su_released :: string
  su_claim_fault :: bool
  su_complete_fault :: bool
  su_release_fault :: bool

text \<open>How a pass ends the review: a cancellation, \<open>PersistenceFailed\<close>, \<open>CheckpointInFlight\<close>,
  \<open>CheckpointClaimLost\<close>, or any other exception.\<close>

datatype abort = Cancelled | Persistence_failed | Claim_in_flight | Claim_lost | Escaped

text \<open>\<open>payload_from_sub\<close> and \<open>sub_fields_from_payload\<close>: a sub-review through the door of stored passes.\<close>

definition sub_dict :: "sub \<Rightarrow> pydict" where
  "sub_dict s = [(''parse_ok'', PBool (sb_ok s)), (''degraded'', PBool (sb_degraded s)), (''degraded_reason'', PStr (sb_reason s)),
     (''stop_reason'', sb_stop s), (''diff_truncated'', PBool (sb_truncated s)), (''summary'', PStr (sb_summary s)),
     (''findings'', PList (map PDict (sb_findings s))), (''failure_reason'', PStr (sb_failure s)),
     (''attempts'', PList (map PDict (sb_attempts s))), (''provenance'', PDict (sb_provenance s)),
     (''accepted'', case sb_accepted s of None \<Rightarrow> PNone | Some a \<Rightarrow> PDict a)]"

definition payload_from_sub :: "sub \<Rightarrow> pydict option" where
  "payload_from_sub s = from_mapping (sub_dict s)"

definition sub_of_payload :: "pydict \<Rightarrow> sub option" where
  "sub_of_payload payload = map_option (\<lambda>d.
     \<lparr>sb_ok = (dget d ''parse_ok'' = PBool True), sb_degraded = (dget d ''degraded'' = PBool True),
      sb_reason = or_empty (dget d ''degraded_reason''), sb_stop = dget d ''stop_reason'',
      sb_truncated = (dget d ''diff_truncated'' = PBool True), sb_summary = or_empty (dget d ''summary''),
      sb_findings = as_findings (dget d ''findings''), sb_failure = or_empty (dget d ''failure_reason''),
      sb_attempts = as_findings (dget d ''attempts''), sb_provenance = as_dict (dget d ''provenance''),
      sb_accepted = (case dget d ''accepted'' of PDict a \<Rightarrow> Some a | _ \<Rightarrow> None)\<rparr>) (from_mapping payload)"

definition with_action :: "string \<Rightarrow> sub \<Rightarrow> sub" where
  "with_action word s = s\<lparr>sb_provenance := dset ''continuation_action'' (PStr word) (sb_provenance s)\<rparr>"

definition reused_sub :: "checkpoint_run \<Rightarrow> pass_row \<Rightarrow> sub option" where
  "reused_sub cr row = map_option (if cr_continued cr then with_action ''reused'' else id)
     (Option.bind (cp_payload row) sub_of_payload)"

text \<open>The timing a completed pass keeps: only where an attempt started, or admission left a record.\<close>

definition checkpoint_timing :: "surroundings \<Rightarrow> sub \<Rightarrow> pydict" where
  "checkpoint_timing e s =
     (let t = as_dict (dget (sb_provenance s) ''capacity_timing'') in
      if t \<noteq> [] \<or> list_ex (\<lambda>a. \<not> dhas a ''skipped'') (sb_attempts s)
      then dset ''completed_at'' (PStr (su_completed e)) (if dhas t ''started_at'' then t else dset ''started_at'' (PStr (su_started e)) t)
      else t)"

definition timed :: "surroundings \<Rightarrow> sub \<Rightarrow> sub" where
  "timed e s = s\<lparr>sb_provenance := dict_update (sb_provenance s)
     [(''checkpoint_timing'', PDict (checkpoint_timing e s)),
      (''wall_duration_sec'', if sb_attempts s = [] then PNone else su_wall e)]\<rparr>"

text \<open>What is stored of a pass that ran: in a continuation it says first whether its payload is reusable.\<close>

definition settle_payload :: "checkpoint_run \<Rightarrow> pass_kind \<Rightarrow> sub \<Rightarrow> (sub \<times> pydict) option" where
  "settle_payload cr k s =
     Option.bind (payload_from_sub s) (\<lambda>v.
       if \<not> cr_continued cr then Some (s, v)
       else Option.bind (if followup_kind k then Some (followup_usable v) else usable_payload v) (\<lambda>usable.
         let s' = with_action (if usable then ''executed'' else ''failed'') s in
         map_option (Pair s') (payload_from_sub s')))"

definition store_pass ::
    "(string \<Rightarrow> string) \<Rightarrow> checkpoint_run \<Rightarrow> pass_identity \<Rightarrow> string option \<Rightarrow> surroundings \<Rightarrow> pass_row \<Rightarrow> sub \<Rightarrow> orch_db
      \<Rightarrow> (abort + sub) \<times> orch_db" where
  "store_pass H cr p binding e row s db =
     (case settle_payload cr (pi_kind p) (timed e s) of None \<Rightarrow> (Inl Escaped, db)
      | Some (s', v) \<Rightarrow>
          if su_complete_fault e then (Inl Escaped, db)
          else (case complete_checkpoint H (cr_orch cr) (kind_text (pi_kind p)) (pi_index p) (cr_owner cr) (su_token e)
                  (int (cp_fence row)) v (su_stored e) binding db of
              Inl _ \<Rightarrow> (Inl Escaped, db)
            | Inr (applied, db') \<Rightarrow> (if applied then Inr s' else Inl Claim_lost, db')))"

text \<open>The \<open>except BaseException\<close> branch gives the claim back; what fails there is swallowed.\<close>

definition give_back :: "checkpoint_run \<Rightarrow> pass_identity \<Rightarrow> string \<Rightarrow> surroundings \<Rightarrow> pass_row \<Rightarrow> orch_db \<Rightarrow> orch_db" where
  "give_back cr p label e row db =
     (if su_release_fault e then db
      else case release_checkpoint (cr_orch cr) (kind_text (pi_kind p)) (pi_index p) (cr_owner cr) (su_token e) (int (cp_fence row))
             (label @ '' did not complete'') (su_released e) db of
        Inl _ \<Rightarrow> db | Inr (_, db') \<Rightarrow> db')"

definition run_pass :: "string option \<Rightarrow> bool \<Rightarrow> string \<Rightarrow> chain_run \<Rightarrow> sub option" where
  "run_pass failure trunc label run =
     (case failure of
        Some reason \<Rightarrow> Some ((blank_sub False reason)\<lparr>sb_provenance := no_identity\<rparr>)
      | None \<Rightarrow> sub_of_run label trunc run)"

definition checkpointed_sub ::
    "(string \<Rightarrow> string) \<Rightarrow> checkpoint_run option \<Rightarrow> pass_identity \<Rightarrow> string option \<Rightarrow> string option \<Rightarrow> bool \<Rightarrow> string \<Rightarrow> surroundings
      \<Rightarrow> orch_db \<Rightarrow> (abort + sub) \<times> orch_db" where
  "checkpointed_sub H checkpoints p binding failure trunc label e db =
     (case checkpoints of
        None \<Rightarrow> (case sub_of_run label trunc (su_run e) of None \<Rightarrow> Inl Cancelled | Some s \<Rightarrow> Inr s, db)
      | Some cr \<Rightarrow>
         (let db = su_before e db in
          if su_claim_fault e then (Inl Persistence_failed, db)
          else case claim_checkpoint H (su_token e) (cr_orch cr) p (cr_owner cr) (su_now e) (su_lease e) binding db of
            Inl _ \<Rightarrow> (Inl Persistence_failed, db)
          | Inr (Already_complete row, db) \<Rightarrow>
              (case reused_sub cr row of None \<Rightarrow> Inl Persistence_failed | Some s \<Rightarrow> Inr s, db)
          | Inr (In_flight row, db) \<Rightarrow> (Inl Claim_in_flight, db)
          | Inr (Claimed row, db) \<Rightarrow>
             (let later = su_meanwhile e db in
              case run_pass failure trunc label (su_run e) of
                None \<Rightarrow> (Inl Cancelled, give_back cr p label e row later)
              | Some s \<Rightarrow>
                 (case store_pass H cr p binding e row s later of
                    (Inl why, db') \<Rightarrow> (Inl why, give_back cr p label e row db')
                  | (Inr s', db') \<Rightarrow> (Inr s', db')))))"

subsection \<open>The run\<close>

text \<open>A cancellation is noticed before each batch and before the cross-file pass.\<close>

record batch_run =
  br_view :: batch_view
  br_identity :: pass_identity
  br_cancelled :: bool
  br_around :: surroundings

definition batch_sub :: "(string \<Rightarrow> string) \<Rightarrow> checkpoint_run option \<Rightarrow> nat \<Rightarrow> batch_run \<Rightarrow> orch_db \<Rightarrow> (abort + sub) \<times> orch_db" where
  "batch_sub H cr i b db =
     checkpointed_sub H cr (br_identity b) None None (bv_truncated (br_view b)) (''batch '' @ show_nat i) (br_around b) db"

fun run_batches ::
    "(string \<Rightarrow> string) \<Rightarrow> checkpoint_run option \<Rightarrow> nat \<Rightarrow> batch_run list \<Rightarrow> orch_db \<Rightarrow> (abort + (batch_view \<times> sub) list) \<times> orch_db" where
  "run_batches H cr i [] db = (Inr [], db)"
| "run_batches H cr i (b # bs) db =
     (if br_cancelled b then (Inl Cancelled, db)
      else case batch_sub H cr i b db of
        (Inl why, db) \<Rightarrow> (Inl why, db)
      | (Inr s, db) \<Rightarrow> (map_prod (map_sum id ((#) (br_view b, s))) id (run_batches H cr (Suc i) bs db)))"

record cross_run =
  xr_cancelled :: bool
  xr_selection :: selection_view
  xr_prompt :: cross_prompt
  xr_identity :: pass_identity
  xr_around :: surroundings

definition cross_sub :: "(string \<Rightarrow> string) \<Rightarrow> checkpoint_run option \<Rightarrow> cross_run \<Rightarrow> orch_db \<Rightarrow> (abort + sub) \<times> orch_db" where
  "cross_sub H cr x db =
     (case xr_prompt x of
        Not_prepared e \<Rightarrow> (Inr (unprepared_sub (case cr of None \<Rightarrow> False | Some c \<Rightarrow> cr_continued c) e), db)
      | Prepared n trunc \<Rightarrow> checkpointed_sub H cr (xr_identity x) None None trunc ''the integration pass'' (xr_around x) db)"

definition orchestrate ::
    "(string \<Rightarrow> string) \<Rightarrow> checkpoint_run option \<Rightarrow> pydict \<Rightarrow> plan_view \<Rightarrow> batch_run list \<Rightarrow> cross_run \<Rightarrow> orch_db
      \<Rightarrow> (abort + pydict) \<times> orch_db" where
  "orchestrate H cr rec plan batches x db =
     (case run_batches H cr 1 batches db of
        (Inl why, db) \<Rightarrow> (Inl why, db)
      | (Inr bs, db) \<Rightarrow>
          if \<not> should_run_integration (\<lambda>_. None) (PInt (int (length batches))) then (Inr (aggregate rec plan bs None), db)
          else if xr_cancelled x then (Inl Cancelled, db)
          else map_prod (map_sum id (\<lambda>s. aggregate rec plan bs
                 (Some \<lparr>cp_selection = xr_selection x, cp_prompted = xr_prompt x, cp_sub = s\<rparr>))) id (cross_sub H cr x db))"

subsection \<open>An aggregate is trustworthy only as a whole\<close>

text \<open>What a pass must have been for its sub-review to leave nothing to be desired: run on an uncut prompt to an answer that
  parsed undegraded, or stored as such by an earlier run.\<close>

definition stored_good :: "pass_row \<Rightarrow> bool" where
  "stored_good row \<longleftrightarrow> (case Option.bind (cp_payload row) from_mapping of None \<Rightarrow> False
     | Some d \<Rightarrow> dget d ''parse_ok'' = PBool True \<and> dget d ''degraded'' = PBool False \<and> dget d ''diff_truncated'' = PBool False)"

definition good_claim :: "(string \<Rightarrow> string) \<Rightarrow> checkpoint_run option \<Rightarrow> pass_identity \<Rightarrow> bool \<Rightarrow> surroundings \<Rightarrow> orch_db \<Rightarrow> bool" where
  "good_claim H checkpoints p trunc e db \<longleftrightarrow>
     (case checkpoints of
        None \<Rightarrow> \<not> trunc \<and> good_answer (su_run e)
      | Some cr \<Rightarrow>
          (case claim_checkpoint H (su_token e) (cr_orch cr) p (cr_owner cr) (su_now e) (su_lease e) None (su_before e db) of
             Inr (Already_complete row, _) \<Rightarrow> stored_good row
           | Inr (Claimed row, _) \<Rightarrow> \<not> trunc \<and> good_answer (su_run e)
           | _ \<Rightarrow> False))"

fun good_batches :: "(string \<Rightarrow> string) \<Rightarrow> checkpoint_run option \<Rightarrow> nat \<Rightarrow> batch_run list \<Rightarrow> orch_db \<Rightarrow> bool" where
  "good_batches H cr i [] db \<longleftrightarrow> True"
| "good_batches H cr i (b # bs) db \<longleftrightarrow> good_claim H cr (br_identity b) (bv_truncated (br_view b)) (br_around b) db
     \<and> good_batches H cr (Suc i) bs (snd (batch_sub H cr i b db))"

definition good_cross :: "(string \<Rightarrow> string) \<Rightarrow> checkpoint_run option \<Rightarrow> cross_run \<Rightarrow> orch_db \<Rightarrow> bool" where
  "good_cross H cr x db \<longleftrightarrow> (case xr_prompt x of Not_prepared _ \<Rightarrow> False
     | Prepared n trunc \<Rightarrow> good_claim H cr (xr_identity x) trunc (xr_around x) db)"

lemma map_sum_Inr: "map_sum f g x = Inr y \<longleftrightarrow> (\<exists>z. x = Inr z \<and> y = g z)"
  by (cases x) auto

lemma good_with_action [simp]: "good_sub (with_action w s) = good_sub s"
  by (simp add: good_sub_def with_action_def)

lemma good_timed [simp]: "good_sub (timed e s) = good_sub s"
  by (simp add: good_sub_def timed_def)

lemma settle_payload_Some:
  assumes "settle_payload cr k s = Some (s', v)"
  shows "payload_from_sub s' = Some v" and "s' = s \<or> (\<exists>w. s' = with_action w s)"
  using assms by (auto simp: settle_payload_def bind_eq_Some_conv Let_def split: if_splits)

lemma store_pass_Inr:
  assumes "store_pass H cr p binding e row s db = (Inr s', db')"
  obtains v where "payload_from_sub s' = Some v" and "good_sub s' = good_sub s"
    and "complete_checkpoint H (cr_orch cr) (kind_text (pi_kind p)) (pi_index p) (cr_owner cr) (su_token e)
      (int (cp_fence row)) v (su_stored e) binding db = Inr (True, db')"
proof -
  from assms obtain s1 v where sp: "settle_payload cr (pi_kind p) (timed e s) = Some (s1, v)" and [simp]: "s' = s1"
    and c: "complete_checkpoint H (cr_orch cr) (kind_text (pi_kind p)) (pi_index p) (cr_owner cr) (su_token e)
      (int (cp_fence row)) v (su_stored e) binding db = Inr (True, db')"
    by (auto simp: store_pass_def split: option.splits prod.splits if_splits sum.splits)
  have "good_sub s1 = good_sub s" using settle_payload_Some(2) [OF sp] by auto
  with that settle_payload_Some(1) [OF sp] c show thesis by simp
qed

text \<open>The lookup of a key in a dictionary with its keys sorted, duplicates or not.\<close>

lemma map_of_filter: "map_of d k = (case filter (\<lambda>e. fst e = k) d of [] \<Rightarrow> None | e # _ \<Rightarrow> Some (snd e))"
  by (induction d) auto

lemma map_of_sorted: "map_of (sorted_dict d) k = map_option sorted_keys (map_of d k)"
proof -
  have "map_of (sorted_dict d) k = map_of (map (\<lambda>(k, v). (k, sorted_keys v)) d) k"
    unfolding sorted_dict_def map_of_filter by (simp only: sort_key_stable)
  then show ?thesis by (simp add: map_of_map)
qed

lemma door_axes:
  assumes "from_mapping v = Some d" and "k \<in> {''parse_ok'', ''degraded'', ''diff_truncated''}"
  shows "is_bool (dget d k)"
proof -
  from assms(1) have d: "d = sorted_dict v" and "payload_shape v" by (auto simp: from_mapping_def split: if_splits option.splits)
  then have "is_bool (dget v k)" using assms(2) by (auto simp: payload_shape_def)
  then show ?thesis by (auto simp: d dget_def map_of_sorted split: option.splits elim!: is_bool_E)
qed

lemma reused_good:
  assumes "reused_sub cr row = Some s"
  shows "good_sub s \<longleftrightarrow> stored_good row"
proof -
  from assms obtain v d where v: "cp_payload row = Some v" "from_mapping v = Some d"
    and s: "good_sub s \<longleftrightarrow> dget d ''parse_ok'' = PBool True \<and> dget d ''degraded'' \<noteq> PBool True \<and> dget d ''diff_truncated'' \<noteq> PBool True"
    by (auto simp: reused_sub_def sub_of_payload_def bind_eq_Some_conv good_sub_def with_action_def split: if_splits)
  have "is_bool (dget d ''degraded'')" "is_bool (dget d ''diff_truncated'')" using door_axes [OF v(2)] by simp_all
  then show ?thesis by (auto simp: stored_good_def v s elim!: is_bool_E)
qed

lemma checkpointed_good:
  assumes "checkpointed_sub H cr p None None trunc label e db = (Inr s, db')"
  shows "good_sub s \<longleftrightarrow> good_claim H cr p trunc e db"
proof (cases cr)
  case None
  with assms good_sub_of_run show ?thesis by (auto simp: checkpointed_sub_def good_claim_def split: option.splits)
next
  case (Some c)
  with assms show ?thesis
    by (auto simp: checkpointed_sub_def good_claim_def run_pass_def Let_def reused_good good_sub_of_run
        split: if_splits sum.splits prod.splits claim.splits option.splits elim!: store_pass_Inr)
qed

lemma run_batches_good:
  "run_batches H cr i batches db = (Inr bs, db') \<Longrightarrow>
     length bs = length batches \<and> (list_all good_sub (map snd bs) \<longleftrightarrow> good_batches H cr i batches db)"
proof (induction batches arbitrary: i bs db)
  case (Cons b batches)
  from Cons.prems obtain s db1 t where s: "batch_sub H cr i b db = (Inr s, db1)"
    and t: "run_batches H cr (Suc i) batches db1 = (Inr t, db')" and bs: "bs = (br_view b, s) # t"
    by (cases "run_batches H cr (Suc i) batches (snd (batch_sub H cr i b db))")
      (auto simp: map_sum_Inr split: if_splits sum.splits prod.splits)
  show ?case using Cons.IH [OF t] checkpointed_good [OF s [unfolded batch_sub_def]] s by (simp add: bs)
qed simp

lemma unprepared_not_good [simp]: "\<not> good_sub (unprepared_sub continued e)"
  by (simp add: unprepared_sub_def good_sub_def blank_sub_def Let_def)

lemma cross_good:
  assumes "cross_sub H cr x db = (Inr s, db')"
  shows "good_sub s \<longleftrightarrow> good_cross H cr x db"
  using assms checkpointed_good by (auto simp: cross_sub_def good_cross_def split: cross_prompt.splits)

lemma aggregate_is_whole:
  assumes "orchestrate H cr rec plan batches x db = (Inr out, db')"
  shows "trusted_rec out \<longleftrightarrow> batches \<noteq> [] \<and> good_batches H cr 1 batches db
    \<and> (2 \<le> length batches \<longrightarrow> good_cross H cr x (snd (run_batches H cr 1 batches db)))"
proof -
  from assms obtain bs db1 where bs: "run_batches H cr 1 batches db = (Inr bs, db1)"
    by (auto simp: orchestrate_def split: prod.splits sum.splits)
  note g = run_batches_good [OF bs]
  have due: "should_run_integration (\<lambda>_. None) (PInt (int (length batches))) \<longleftrightarrow> 2 \<le> length batches"
    by (auto simp: should_run_integration_def)
  show ?thesis
  proof (cases "2 \<le> length batches")
    case True
    with assms bs due obtain s where s: "cross_sub H cr x db1 = (Inr s, db')"
      and out: "out = aggregate rec plan bs (Some \<lparr>cp_selection = xr_selection x, cp_prompted = xr_prompt x, cp_sub = s\<rparr>)"
      by (cases "cross_sub H cr x db1") (auto simp: orchestrate_def map_sum_Inr split: if_splits)
    have "everyone bs (Some \<lparr>cp_selection = xr_selection x, cp_prompted = xr_prompt x, cp_sub = s\<rparr>) = map snd bs @ [s]"
      by (simp add: everyone_def)
    then show ?thesis using True g bs cross_good [OF s] by (auto simp: out trusted_aggregate)
  next
    case False
    with assms bs due have "out = aggregate rec plan bs None" by (simp add: orchestrate_def)
    moreover have "everyone bs None = map snd bs" by (simp add: everyone_def)
    ultimately show ?thesis using False g by (auto simp: trusted_aggregate)
  qed
qed

subsection \<open>What a stored pass reads back as\<close>

lemma sorted_list: "sorted_keys (PList (map PDict ds)) = PList (map PDict (map sorted_dict ds))"
  by (simp add: sorted_keys_dict comp_def del: sorted_keys.simps(2))

lemma as_findings_dicts [simp]: "as_findings (PList (map PDict ds)) = ds"
  by (induction ds) (simp_all add: as_findings_def)

lemma distinct_keys_sorted: "distinct_keys v \<Longrightarrow> distinct_keys (sorted_keys v)"
proof (induction v rule: sorted_keys.induct)
  case (2 d)
  then have "distinct (map fst (sorted_dict d))" by (intro distinct_sorted_dict) simp
  with 2 show ?case by (auto simp: sorted_dict_def list_all_iff)
qed (auto simp: list_all_iff)

lemmas sorted_closed = sorted_keys.simps(1,2)

lemma sub_read_back:
  assumes "payload_from_sub s = Some v" and "distinct_keys (PDict (sub_dict s))"
  obtains s' where "sub_of_payload v = Some s'" "sb_ok s' = sb_ok s" "sb_degraded s' = sb_degraded s" "sb_truncated s' = sb_truncated s"
    "py_eq (PDict (sub_dict s')) (PDict (sub_dict s))"
proof -
  have st: "from_mapping v = Some v" using from_mapping_stable assms unfolding payload_from_sub_def by blast
  have v: "v = sorted_dict (sub_dict s)"
    using assms(1) by (auto simp: payload_from_sub_def from_mapping_def split: if_splits option.splits)
  have get: "dget v k = sorted_keys (dget (sub_dict s) k)" for k
    by (simp add: v dget_def map_of_sorted split: option.split)
  have gets: "dget v ''parse_ok'' = PBool (sb_ok s)" "dget v ''degraded'' = PBool (sb_degraded s)"
    "dget v ''diff_truncated'' = PBool (sb_truncated s)" "dget v ''degraded_reason'' = PStr (sb_reason s)"
    "dget v ''summary'' = PStr (sb_summary s)" "dget v ''failure_reason'' = PStr (sb_failure s)"
    "dget v ''stop_reason'' = sorted_keys (sb_stop s)"
    "dget v ''findings'' = PList (map PDict (map sorted_dict (sb_findings s)))"
    "dget v ''attempts'' = PList (map PDict (map sorted_dict (sb_attempts s)))"
    "dget v ''provenance'' = PDict (sorted_dict (sb_provenance s))"
    "dget v ''accepted'' = (case sb_accepted s of None \<Rightarrow> PNone | Some a \<Rightarrow> PDict (sorted_dict a))"
    by (simp_all only: get, simp_all add: sub_dict_def dget_def sorted_list sorted_keys_dict del: sorted_closed map_map split: option.split)
  define s' where "s' = s\<lparr>sb_stop := sorted_keys (sb_stop s), sb_findings := map sorted_dict (sb_findings s),
     sb_attempts := map sorted_dict (sb_attempts s), sb_provenance := sorted_dict (sb_provenance s),
     sb_accepted := map_option sorted_dict (sb_accepted s)\<rparr>"
  have s': "sub_of_payload v = Some s'"
    by (simp add: sub_of_payload_def st gets s'_def or_empty_def del: map_map split: option.split)
  have inner: "map (\<lambda>(k, w). (k, sorted_keys w)) (sub_dict s) = sub_dict s'"
    by (simp add: sub_dict_def s'_def sorted_list sorted_keys_dict del: sorted_closed map_map split: option.split)
  have "distinct_keys (PDict (sub_dict s'))" unfolding inner [symmetric]
    using assms(2) distinct_keys_sorted by (auto simp: list_all_iff comp_def case_prod_beta)
  moreover have "sorted_keys (PDict (sub_dict s')) = sorted_keys (PDict (sub_dict s))"
    unfolding sorted_keys.simps(2) inner [symmetric] by (simp add: comp_def case_prod_unfold)
  ultimately have "py_eq (PDict (sub_dict s')) (PDict (sub_dict s))" using assms(2) by (intro sorted_keys_py_eq)
  with s' show thesis by (intro that) (simp_all add: s'_def)
qed

text \<open>A pass that ran and was stored is what a later resumer reads.\<close>

lemma stored_pass_reads_back:
  assumes "claim_checkpoint H (su_token e) (cr_orch cr) p (cr_owner cr) (su_now e) (su_lease e) binding (su_before e db) = Inr (Claimed r, db1)"
    and "checkpointed_sub H (Some cr) p binding failure trunc label e db = (Inr s, db')" and "distinct_keys (PDict (sub_dict s))"
  shows "\<exists>row \<in> set (db_passes db'). the_pass (strip (cr_orch cr)) (pi_kind p) (pi_index p) row \<and> cp_state row = Cp_complete
    \<and> (\<exists>s'. Option.bind (cp_payload row) sub_of_payload = Some s'
         \<and> sb_ok s' = sb_ok s \<and> sb_degraded s' = sb_degraded s \<and> sb_truncated s' = sb_truncated s
         \<and> py_eq (PDict (sub_dict s')) (PDict (sub_dict s)))"
proof -
  from assms(1,2) obtain s0 where "store_pass H cr p binding e r s0 (su_meanwhile e db1) = (Inr s, db')"
    by (auto simp: checkpointed_sub_def Let_def split: if_splits option.splits prod.splits sum.splits)
  then obtain v where v: "payload_from_sub s = Some v"
    and c: "complete_checkpoint H (cr_orch cr) (kind_text (pi_kind p)) (pi_index p) (cr_owner cr) (su_token e)
      (int (cp_fence r)) v (su_stored e) binding (su_meanwhile e db1) = Inr (True, db')"
    by (rule store_pass_Inr)
  from sub_read_back [OF v assms(3)] obtain s' where s': "sub_of_payload v = Some s'" "sb_ok s' = sb_ok s"
    "sb_degraded s' = sb_degraded s" "sb_truncated s' = sb_truncated s" "py_eq (PDict (sub_dict s')) (PDict (sub_dict s))" .
  have st: "from_mapping v = Some v" using from_mapping_stable assms(3) v unfolding payload_from_sub_def by blast
  from complete_Inr [OF c] obtain stored k where w: "from_mapping v = Some stored" "kind_of (strip (kind_text (pi_kind p))) = Some k"
    and f: "fenced_update (strip (cr_orch cr)) k (pi_index p) (strip (cr_owner cr)) (strip (su_token e)) (nat (int (cp_fence r)))
      (completed stored (su_stored e)) (su_stored e) (su_meanwhile e db1) = (True, db')" by metis
  from w st have [simp]: "stored = v" "k = pi_kind p" by simp_all
  let ?hit = "\<lambda>r'. the_pass (strip (cr_orch cr)) (pi_kind p) (pi_index p) r'
    \<and> held_by (strip (cr_owner cr)) (strip (su_token e)) (cp_fence r) r'"
  from f have one: "length (filter ?hit (db_passes (su_meanwhile e db1))) = 1"
    and db': "db_passes db' = tbl_update ?hit (completed v (su_stored e)) (db_passes (su_meanwhile e db1))"
    by (auto simp: fenced_update_def Let_def orch_update_def pass_update_def split: if_splits)
  from one obtain q where "q \<in> set (db_passes (su_meanwhile e db1))" "?hit q"
    by (metis (no_types, lifting) filter_empty_conv length_0_conv zero_neq_one)
  then have "completed v (su_stored e) q \<in> set (db_passes db')" unfolding db' tbl_update_def by auto
  moreover have "the_pass (strip (cr_orch cr)) (pi_kind p) (pi_index p) (completed v (su_stored e) q)"
    using \<open>?hit q\<close> by (simp add: the_pass_def completed_def unclaimed_def)
  ultimately show ?thesis using s' by (intro bexI [of _ "completed v (su_stored e) q"]) (auto simp: completed_def unclaimed_def)
qed

text \<open>C9 (safety).  A batched review is trustworthy only as a whole, whether its passes ran or were resumed. The aggregate is
  trustworthy exactly if there was a batch, and for every batch, and from two batches on for the pass over the seams
  between them, either its reviewer was run on an uncut prompt and its answer parsed and was not degraded, or its claim
  found a checkpoint stored with the flags that say so. And no flag is lost on the way into the store or out of it: where a
  claimed pass returns its sub-review, its row is complete, and its payload reads back, through the strict door, as a
  sub-review with the same trust axes that equals the one returned as Python compares them.\<close>

theorem batched_review_is_whole:
  "(orchestrate H cr rec plan batches x db = (Inr out, db') \<longrightarrow>
      (trusted_rec out \<longleftrightarrow> batches \<noteq> [] \<and> good_batches H cr 1 batches db
        \<and> (2 \<le> length batches \<longrightarrow> good_cross H cr x (snd (run_batches H cr 1 batches db)))))
   \<and> (claim_checkpoint H (su_token e) (cr_orch c) p (cr_owner c) (su_now e) (su_lease e) binding (su_before e db) = Inr (Claimed r, db1)
        \<and> checkpointed_sub H (Some c) p binding failure trunc label e db = (Inr s, db2) \<and> distinct_keys (PDict (sub_dict s)) \<longrightarrow>
      (\<exists>row \<in> set (db_passes db2). the_pass (strip (cr_orch c)) (pi_kind p) (pi_index p) row \<and> cp_state row = Cp_complete
        \<and> (\<exists>s'. Option.bind (cp_payload row) sub_of_payload = Some s'
             \<and> sb_ok s' = sb_ok s \<and> sb_degraded s' = sb_degraded s \<and> sb_truncated s' = sb_truncated s
             \<and> py_eq (PDict (sub_dict s')) (PDict (sub_dict s)))))"
  by (intro conjI impI aggregate_is_whole) (assumption, elim conjE, rule stored_pass_reads_back)

subsection \<open>Witnesses\<close>

definition sample_around :: "(orch_db \<Rightarrow> orch_db) \<Rightarrow> chain_run \<Rightarrow> surroundings" where
  "sample_around before run = \<lparr>su_run = run, su_before = before, su_meanwhile = id, su_token = ''k1'', su_now = t_at, su_lease = t_late,
     su_started = t_at, su_completed = t_late, su_wall = PFloat ''0.5'', su_stored = t_late, su_released = t_late,
     su_claim_fault = False, su_complete_fault = False, su_release_fault = False\<rparr>"

definition sample_checkpoints :: checkpoint_run where
  "sample_checkpoints = \<lparr>cr_orch = ''o'', cr_owner = ''w1'', cr_continued = False\<rparr>"

definition sample_prepared :: "(orch_db \<Rightarrow> orch_db) \<Rightarrow> chain_run \<Rightarrow> batch_run" where
  "sample_prepared before run = \<lparr>br_view = \<lparr>bv_files = [''a''], bv_bytes = 3, bv_floor = False, bv_prompt_bytes = 9, bv_truncated = False,
     bv_selection = sample_selection, bv_pack = None\<rparr>, br_identity = sample_batch, br_cancelled = False,
     br_around = sample_around before run\<rparr>"

definition sample_seams :: cross_run where
  "sample_seams = \<lparr>xr_cancelled = False, xr_selection = sample_selection, xr_prompt = Not_prepared ''x'', xr_identity = sample_batch,
     xr_around = sample_around id Interrupted\<rparr>"

definition sample_plan :: plan_view where
  "sample_plan = \<lparr>pv_plan = PNone, pv_context_hash = PStr [], pv_checklist_hash = PStr [], pv_telemetry = (\<lambda>_ _. PNone)\<rparr>"

abbreviation sample_review :: "(orch_db \<Rightarrow> orch_db) \<Rightarrow> chain_run \<Rightarrow> (abort + pydict) \<times> orch_db" where
  "sample_review before run \<equiv> orchestrate OrchProps.sample_hash (Some sample_checkpoints) [(''id'', PStr ''r'')] sample_plan
     [sample_prepared before run] sample_seams orch_started"

definition sample_aggregate :: "(orch_db \<Rightarrow> orch_db) \<Rightarrow> chain_run \<Rightarrow> pydict" where
  "sample_aggregate before run = (case fst (sample_review before run) of Inr out \<Rightarrow> out | Inl _ \<Rightarrow> [])"

text \<open>A fresh pass: the sub-review as it is stored.\<close>

definition sample_fresh :: sub where
  "sample_fresh = \<lparr>sb_ok = True, sb_degraded = False, sb_reason = [], sb_stop = PStr ''EndTurn'', sb_truncated = False, sb_summary = ''s'',
     sb_findings = [], sb_failure = [], sb_attempts = [], sb_provenance = [(''provider'', PStr ''xai''), (''model'', PStr ''m''),
     (''effort'', PNone), (''checkpoint_timing'', PDict []), (''wall_duration_sec'', PNone)], sb_accepted = Some sample_accepted\<rparr>"

definition sample_after :: orch_db where
  "sample_after = orch_claimed\<lparr>db_orchs := [sample_open t_late],
     db_passes := map (completed (sorted_dict (sub_dict sample_fresh)) t_late) (db_passes orch_claimed)\<rparr>"

lemma sample_fresh_runs:
  "map_option (timed (sample_around before run)) (sub_of_run ''batch 1'' False (Returned sample_oc)) = Some sample_fresh"
  by (simp add: sub_of_run_def sample_oc_def sample_parse_def timed_def checkpoint_timing_def provenance_def with_timing_def last_timing_def
      identity_of_def sample_accepted_def dget_def dict_update_def dset_def sample_fresh_def)

lemma casefold_fresh: "map casefold [''provider'', ''model'', ''effort'', ''checkpoint_timing'', ''wall_duration_sec'', ''adapter_name'']
    = [''provider'', ''model'', ''effort'', ''checkpoint_timing'', ''wall_duration_sec'', ''adapter_name'']"
  by code_simp

lemma sample_fresh_stored: "payload_from_sub sample_fresh = Some (sorted_dict (sub_dict sample_fresh))"
proof -
  have "payload_shape (sub_dict sample_fresh)"
    using casefold_fresh
    by (simp add: payload_shape_def sub_dict_def sample_fresh_def sample_accepted_def has_keys_def dget_def dhas_def null_or_def
        forbidden_fields_def finding_forbidden_def max_text_chars_def max_findings_def max_attempts_def insert_commute)
  moreover have "finite_floats (PDict (sub_dict sample_fresh))" by code_simp
  moreover have "utf8_len (emit False (sorted_keys (PDict (sub_dict sample_fresh)))) \<le> 1000" by code_simp
  ultimately show ?thesis by (simp add: payload_from_sub_def from_mapping_def dumps_def max_checkpoint_json_bytes_def)
qed

text \<open>Another resumer has completed the pass already, its prompt cut or not.\<close>

definition sample_cut :: "bool \<Rightarrow> pydict" where
  "sample_cut trunc = sorted_dict (dset ''diff_truncated'' (PBool trunc) sample_pass)"

definition stored_before :: "bool \<Rightarrow> orch_db \<Rightarrow> orch_db" where
  "stored_before trunc db = \<lparr>db_orchs = [sample_open t_late], db_passes = [sample_done\<lparr>cp_payload := Some (sample_cut trunc)\<rparr>]\<rparr>"

lemma sample_cut_stored: "from_mapping (sample_cut trunc) = Some (sample_cut trunc)"
proof -
  let ?raw = "dset ''diff_truncated'' (PBool trunc) sample_pass"
  have raw: "?raw = [(''summary'', PStr ''ok''), (''parse_ok'', PBool True), (''degraded'', PBool False),
     (''degraded_reason'', PStr []), (''stop_reason'', PNone), (''diff_truncated'', PBool trunc),
     (''findings'', PList [PDict [(''severity'', PStr ''low''), (''file'', PStr ''a.py''), (''title'', PStr ''t''),
        (''detail'', PStr ''d''), (''path'', PStr ''a.py'')]]),
     (''failure_reason'', PStr []), (''attempts'', PList []), (''provenance'', PDict [(''provider'', PStr ''xai'')]),
     (''accepted'', PNone)]" by (simp add: dset_def sample_pass_def)
  have "payload_shape ?raw"
    using casefold_samples unfolding raw
    by (simp add: payload_shape_def has_keys_def dget_def dhas_def null_or_def forbidden_fields_def
        finding_forbidden_def max_text_chars_def max_findings_def max_attempts_def insert_commute)
  moreover have "finite_floats (PDict ?raw)" unfolding raw by simp
  moreover have "utf8_len (emit False (sorted_keys (PDict (dset ''diff_truncated'' (PBool True) sample_pass)))) \<le> 1000"
    "utf8_len (emit False (sorted_keys (PDict (dset ''diff_truncated'' (PBool False) sample_pass)))) \<le> 1000" by code_simp+
  then have "utf8_len (emit False (sorted_keys (PDict ?raw))) \<le> 1000" by (cases trunc) simp_all
  ultimately have "from_mapping ?raw = Some (sample_cut trunc)"
    by (simp add: from_mapping_def dumps_def max_checkpoint_json_bytes_def sample_cut_def)
  moreover have "distinct_keys (PDict ?raw)" unfolding raw by simp
  ultimately show ?thesis by (rule from_mapping_stable [rotated])
qed

lemma sample_claim_stored:
  "claim_checkpoint OrchProps.sample_hash ''k1'' ''o'' sample_batch ''w1'' t_at t_late None (stored_before trunc db) =
     Inr (Already_complete (sample_done\<lparr>cp_payload := Some (sample_cut trunc)\<rparr>), stored_before trunc db)"
  by (cases trunc; code_simp)

lemma sample_fresh_sub:
  "checkpointed_sub OrchProps.sample_hash (Some sample_checkpoints) sample_batch None None False ''batch 1''
     (sample_around id (Returned sample_oc)) orch_started = (Inr sample_fresh, sample_after)"
proof -
  have distinct: "distinct_keys (PDict (sub_dict sample_fresh))" by (simp add: sub_dict_def sample_fresh_def sample_accepted_def)
  let ?v = "sorted_dict (sub_dict sample_fresh)"
  have v: "from_mapping ?v = Some ?v"
    using from_mapping_stable [OF distinct] sample_fresh_stored unfolding payload_from_sub_def by blast
  have ready: "pass_args ''o'' ''batch'' 1 ''w1'' ''k1'' 1 = Inr (''o'', ''batch'', ''w1'', ''k1'')" "kind_text Batch_pass = ''batch''"
    by code_simp+
  have "complete_checkpoint OrchProps.sample_hash ''o'' ''batch'' 1 ''w1'' ''k1'' 1 ?v t_late None orch_claimed = Inr (True, sample_after)"
    by (simp add: complete_checkpoint_def ready sample_ready v fenced_update_def followup_kind_def orch_claimed_def
        sample_after_def completed_def sample_claim_def the_pass_def held_by_def pending_pass_def sample_batch_def sample_open_def
        orch_update_def pass_update_def tbl_update_def unclaimed_def)
  moreover obtain s0 where "sub_of_run ''batch 1'' False (Returned sample_oc) = Some s0" "timed (sample_around id (Returned sample_oc)) s0 = sample_fresh"
    using sample_fresh_runs [of id "Returned sample_oc"] by auto
  ultimately show ?thesis
    using sample_run2 ready(2)
    by (simp add: checkpointed_sub_def sample_around_def sample_checkpoints_def run_pass_def store_pass_def settle_payload_def
        sample_fresh_stored sample_claim_def sample_batch_def)
qed

lemma sample_reused_sub:
  "\<exists>s. checkpointed_sub OrchProps.sample_hash (Some sample_checkpoints) sample_batch None None False ''batch 1''
     (sample_around (stored_before trunc) Interrupted) orch_started = (Inr s, stored_before trunc orch_started)"
  using sample_claim_stored [of trunc]
  by (simp add: checkpointed_sub_def sample_around_def sample_checkpoints_def reused_sub_def sub_of_payload_def sample_cut_stored)

lemma sample_reviewed:
  assumes "checkpointed_sub OrchProps.sample_hash (Some sample_checkpoints) sample_batch None None False ''batch 1''
     (sample_around before run) orch_started = (Inr s, db')"
  shows "sample_review before run = (Inr (sample_aggregate before run), db')"
proof -
  have "show_nat 1 = ''1''" by code_simp
  with assms have "fst (sample_review before run) = Inr (sample_aggregate before run)" "snd (sample_review before run) = db'"
    by (simp_all add: sample_aggregate_def orchestrate_def batch_sub_def sample_prepared_def should_run_integration_def)
  then show ?thesis by (simp add: prod_eq_iff)
qed

lemma sample_claims:
  "good_batches OrchProps.sample_hash (Some sample_checkpoints) 1 [sample_prepared id (Returned sample_oc)] orch_started"
  "good_batches OrchProps.sample_hash (Some sample_checkpoints) 1 [sample_prepared (stored_before trunc) Interrupted] orch_started \<longleftrightarrow> \<not> trunc"
proof -
  show "good_batches OrchProps.sample_hash (Some sample_checkpoints) 1 [sample_prepared id (Returned sample_oc)] orch_started"
    using sample_run2 by (simp add: good_claim_def sample_prepared_def sample_around_def sample_checkpoints_def sample_oc_def sample_parse_def)
  have "dget (sample_cut trunc) k = (if k = ''diff_truncated'' then PBool trunc else sorted_keys (dget sample_pass k))" for k
    by (simp add: sample_cut_def dget_def map_of_sorted split: option.split)
  then show "good_batches OrchProps.sample_hash (Some sample_checkpoints) 1 [sample_prepared (stored_before trunc) Interrupted] orch_started \<longleftrightarrow> \<not> trunc"
    using sample_claim_stored [of trunc]
    by (simp add: good_claim_def sample_prepared_def sample_around_def sample_checkpoints_def stored_good_def sample_cut_stored)
      (simp add: sample_pass_def dget_def)
qed

theorem batched_review_is_whole_witness:
  "trusted_rec (sample_aggregate id (Returned sample_oc))
   \<and> trusted_rec (sample_aggregate (stored_before False) Interrupted) \<and> \<not> trusted_rec (sample_aggregate (stored_before True) Interrupted)
   \<and> (\<exists>row \<in> set (db_passes sample_after). cp_state row = Cp_complete \<and> (\<exists>s'. Option.bind (cp_payload row) sub_of_payload = Some s' \<and> sb_ok s'))"
proof -
  have reused: "trusted_rec (sample_aggregate (stored_before trunc) Interrupted) \<longleftrightarrow> \<not> trunc" for trunc
  proof -
    obtain s where "checkpointed_sub OrchProps.sample_hash (Some sample_checkpoints) sample_batch None None False ''batch 1''
       (sample_around (stored_before trunc) Interrupted) orch_started = (Inr s, stored_before trunc orch_started)"
      using sample_reused_sub by blast
    from conjunct1 [OF batched_review_is_whole, rule_format, OF sample_reviewed [OF this]] sample_claims(2) show ?thesis by simp
  qed
  let ?e = "sample_around id (Returned sample_oc)"
  have "claim_checkpoint OrchProps.sample_hash (su_token ?e) (cr_orch sample_checkpoints) sample_batch (cr_owner sample_checkpoints)
      (su_now ?e) (su_lease ?e) None (su_before ?e orch_started) = Inr (Claimed (sample_claim ''k1'' 1 ''w1'' t_at t_late), orch_claimed)"
    using sample_run2 by (simp add: sample_around_def sample_checkpoints_def)
  moreover have "distinct_keys (PDict (sub_dict sample_fresh))" "sb_ok sample_fresh" by (simp_all add: sub_dict_def sample_fresh_def sample_accepted_def)
  ultimately have "\<exists>row \<in> set (db_passes sample_after). cp_state row = Cp_complete \<and> (\<exists>s'. Option.bind (cp_payload row) sub_of_payload = Some s' \<and> sb_ok s')"
    using conjunct2 [OF batched_review_is_whole, rule_format, OF conjI [OF _ conjI [OF sample_fresh_sub]]] by blast
  with reused conjunct1 [OF batched_review_is_whole, rule_format, OF sample_reviewed [OF sample_fresh_sub]] sample_claims(1) show ?thesis by simp
qed

end
