(* ===== verification/Reuse.thy ===== *)
theory Reuse
  imports Dispatch Triage Reviews GitIdentity Batching Budget Passes Json
begin

section \<open>Reuse of a stored review\<close>

text \<open>
  Models \<open>reuse.py\<close>, its query in \<open>store.py\<close> and \<open>_try_reuse\<close> of \<open>services.py\<close>: the identity of the tree as a
  review would see it, the comparison of a stored review with it, the probe with its second look at the tree,
  the projection of the verdict under the present triage ledger, and the audit. The checklist, the context
  packer, the planning projection, git and the hashes are parameters; each answer may change between two
  looks.
\<close>

declare load_valid_artifact.simps(1) [simp del]

subsection \<open>The identity of a review\<close>

record reuse_identity =
  ri_repo :: string
  ri_worktree :: string
  ri_branch :: string
  ri_head :: string
  ri_base :: string
  ri_diff :: string
  ri_context :: "string option"
  ri_checklist :: "string option"
  ri_tree :: string
  ri_policy :: string
  ri_planning :: "pydict option"

text \<open>\<open>checklist.Selection\<close>.\<close>

record selection =
  cs_sections :: "string list"
  cs_bytes :: int
  cs_over :: bool
  cs_dropped :: "string list"
  cs_body :: string
  cs_note :: string
  cs_degraded :: bool

definition checklist_identity :: "(string \<Rightarrow> string) \<Rightarrow> selection \<Rightarrow> string" where
  "checklist_identity H s = H (emit False (sorted_keys (PDict [(''sections'', PList (map PStr (cs_sections s))), (''bytes'', PInt (cs_bytes s)),
     (''over_budget'', PBool (cs_over s)), (''dropped'', PList (map PStr (cs_dropped s))), (''body'', PStr (cs_body s)),
     (''note'', PStr (cs_note s)), (''degraded'', PBool (cs_degraded s))])))"

definition aggregate_checklist_identity :: "(string \<Rightarrow> string) \<Rightarrow> selection list \<Rightarrow> string list \<Rightarrow> string option" where
  "aggregate_checklist_identity H selections boundaries =
     (if selections = [] then None
      else Some (H (emit True (PDict [(''selections'', PList (map (\<lambda>s. PStr (checklist_identity H s)) selections)),
        (''batch_boundaries'', PList (map PStr boundaries))]))))"

definition filled :: "pyval \<Rightarrow> bool" where
  "filled v \<longleftrightarrow> (case v of PStr s \<Rightarrow> strip s \<noteq> [] | _ \<Rightarrow> False)"

definition aggregate_context_identity :: "(string \<Rightarrow> string) \<Rightarrow> pyval list \<Rightarrow> bool \<Rightarrow> string option" where
  "aggregate_context_identity H hashes enabled_pack =
     (if \<not> enabled_pack then None
      else if hashes = [] \<or> \<not> list_all filled hashes then Some []
      else Some (H (emit True (PList hashes))))"

text \<open>The configuration, as far as the identity reads it.\<close>

record configured =
  co_enabled :: bool
  co_role :: string
  co_reviewer :: reviewer

record reuse_cfg =
  ru_reviewers :: "configured list"
  ru_defaults :: defaults
  ru_context_pack :: bool
  ru_batch_target :: int
  ru_segments :: "string list"
  ru_patterns :: "string list"

definition reviewer_by_name :: "reuse_cfg \<Rightarrow> pyval \<Rightarrow> reviewer option" where
  "reviewer_by_name cfg name =
     (case name of PStr n \<Rightarrow> if n = [] then None
        else map_option co_reviewer (find (\<lambda>r. co_enabled r \<and> rw_name (co_reviewer r) = n) (ru_reviewers cfg))
      | _ \<Rightarrow> None)"

text \<open>\<open>context_headroom\<close>; it raises on an envelope below one byte.\<close>

definition context_headroom :: "int \<Rightarrow> int \<Rightarrow> bool \<Rightarrow> string + int" where
  "context_headroom maximum diff_len packing =
     (if maximum < 1 \<or> diff_len < 0 then Inl ''ValueError''
      else let written = min (min diff_len maximum + 1) maximum; headroom = max 0 (maximum - written) in
        Inr (if packing \<and> 0 < headroom then headroom - 1 else headroom))"

text \<open>What one look at the repository found; an error is the exception it raised.\<close>

record look =
  lo_select :: "string list \<Rightarrow> string \<Rightarrow> string + selection"
  lo_pack :: "string list \<Rightarrow> (string \<times> string) list \<Rightarrow> int \<Rightarrow> bool \<Rightarrow> string list \<Rightarrow> string + pyval"
  lo_limit :: "string \<Rightarrow> pyval option"
  lo_overhead :: int
  lo_repo :: "string + string"
  lo_worktree :: "string + string"
  lo_head :: "string + string"
  lo_tree :: "string list \<Rightarrow> string + string"
  lo_policy :: "string + string"
  lo_planning :: "reviewer option \<Rightarrow> string + pydict"

definition envelope :: "look \<Rightarrow> reuse_cfg \<Rightarrow> reviewer option \<Rightarrow> int" where
  "envelope w cfg r = prompt_budget (lo_limit w) (lo_overhead w) (ru_defaults cfg) r"

definition context_hash_of :: "look \<Rightarrow> diff \<Rightarrow> reuse_cfg \<Rightarrow> reviewer option \<Rightarrow> string + string option" where
  "context_hash_of w d cfg r =
     (if \<not> ru_context_pack cfg then Inr None
      else case r of None \<Rightarrow> Inr (Some [])
      | Some _ \<Rightarrow>
          ebind (context_headroom (envelope w cfg r) (int (length (d_data d))) True) (\<lambda>headroom.
          ebind (lo_pack w (d_files d) (d_statuses d) headroom False
              (context_reserve_paths (ru_segments cfg) (ru_patterns cfg) (d_files d))) (\<lambda>value.
            Inr (Some (case value of PStr s \<Rightarrow> if strip s = [] then [] else s | _ \<Rightarrow> [])))))"

definition batch_threshold :: "look \<Rightarrow> reuse_cfg \<Rightarrow> reviewer option \<Rightarrow> int" where
  "batch_threshold w cfg r = (if 0 < ru_batch_target cfg then min (envelope w cfg r) (ru_batch_target cfg) else envelope w cfg r)"

definition reuse_batch_budget :: "look \<Rightarrow> reuse_cfg \<Rightarrow> reviewer option \<Rightarrow> int" where
  "reuse_batch_budget w cfg r =
     (let whole = envelope w cfg r; share = (if ru_context_pack cfg then whole div 2 else whole) in
      if 0 < ru_batch_target cfg then min share (ru_batch_target cfg) else share)"

fun emap_list :: "('a \<Rightarrow> 'e + 'b) \<Rightarrow> 'a list \<Rightarrow> 'e + 'b list" where
  "emap_list f [] = Inr []"
| "emap_list f (x # xs) = ebind (f x) (\<lambda>y. ebind (emap_list f xs) (\<lambda>ys. Inr (y # ys)))"

definition batch_names :: "batch \<Rightarrow> string list" where
  "batch_names b = map (map char_of) (b_files b)"

definition batch_pack :: "look \<Rightarrow> diff \<Rightarrow> reuse_cfg \<Rightarrow> reviewer option \<Rightarrow> bool \<Rightarrow> batch \<Rightarrow> string + pyval" where
  "batch_pack w d cfg r sole b =
     ebind (context_headroom (envelope w cfg r) (int (length (b_data b))) True) (\<lambda>headroom.
     ebind (lo_pack w (batch_names b)
         (List.map_filter (\<lambda>f. map_option (Pair f) (map_of (d_statuses d) f)) (batch_names b)) headroom (\<not> sole)
         (context_reserve_paths (ru_segments cfg) (ru_patterns cfg) (batch_names b))) (\<lambda>value.
       Inr (case value of PStr s \<Rightarrow> PStr s | _ \<Rightarrow> PNone)))"

text \<open>\<open>_batched_identities\<close>. The selections and the packs of the batches alternate; which of two failing calls
  is reported makes no difference to the caller, who takes any exception alike.\<close>

definition batched_identities ::
    "(string \<Rightarrow> string) \<Rightarrow> (string \<Rightarrow> string) \<Rightarrow> look \<Rightarrow> diff \<Rightarrow> reuse_cfg \<Rightarrow> reviewer option \<Rightarrow> string + string option \<times> string option" where
  "batched_identities H S w d cfg r =
     (let batches = split_diff (d_data d) (max 1 (reuse_batch_budget w cfg r));
          n = PInt (int (length batches)) in
      ebind (emap_list (\<lambda>b. lo_select w (batch_names b) (batch_checklist_mode (\<lambda>_. None) n)) batches) (\<lambda>selections.
      ebind (if ru_context_pack cfg then emap_list (batch_pack w d cfg r (length batches = 1)) batches else Inr []) (\<lambda>hashes.
      ebind (if should_run_integration (\<lambda>_. None) n then ebind (lo_select w (d_files d) ''integration'') (\<lambda>s. Inr [s]) else Inr [])
        (\<lambda>cross.
        Inr (aggregate_context_identity H hashes (ru_context_pack cfg),
             aggregate_checklist_identity H (selections @ cross) (map (\<lambda>b. diff_identity S (b_data b)) batches))))))"

definition routed_to :: "reuse_cfg \<Rightarrow> pydict option \<Rightarrow> string option \<Rightarrow> reviewer option" where
  "routed_to cfg candidate reviewer_name =
     (case reviewer_by_name cfg (case candidate of None \<Rightarrow> PNone | Some c \<Rightarrow> dget c ''routed_reviewer'') of
        Some r \<Rightarrow> Some r
      | None \<Rightarrow> reviewer_by_name cfg (case reviewer_name of None \<Rightarrow> PNone | Some n \<Rightarrow> PStr n))"

definition identity_for ::
    "(string \<Rightarrow> string) \<Rightarrow> (string \<Rightarrow> string) \<Rightarrow> look \<Rightarrow> reuse_cfg \<Rightarrow> base \<Rightarrow> diff \<Rightarrow> string \<Rightarrow> string option \<Rightarrow> pydict option \<Rightarrow> string + reuse_identity" where
  "identity_for H S w cfg b d branch reviewer_name candidate =
     (let r = routed_to cfg candidate reviewer_name in
      ebind (lo_select w (d_files d) ''full'') (\<lambda>selection.
      ebind (if r \<noteq> None \<and> batch_threshold w cfg r < int (length (d_data d)) then batched_identities H S w d cfg r
             else ebind (context_hash_of w d cfg r) (\<lambda>c. Inr (c, Some (checklist_identity H selection)))) (\<lambda>(context, checklist).
      ebind (lo_repo w) (\<lambda>repo. ebind (lo_worktree w) (\<lambda>worktree. ebind (lo_head w) (\<lambda>head.
      ebind (lo_tree w (d_files d)) (\<lambda>tree. ebind (lo_policy w) (\<lambda>policy. ebind (lo_planning w r) (\<lambda>planning.
        Inr \<lparr>ri_repo = repo, ri_worktree = worktree, ri_branch = branch, ri_head = head, ri_base = b_sha b,
             ri_diff = diff_identity S (d_data d), ri_context = context, ri_checklist = checklist, ri_tree = tree,
             ri_policy = policy, ri_planning = Some planning\<rparr>)))))))))"

subsection \<open>Comparing a stored review\<close>

definition required_fields :: "reuse_identity \<Rightarrow> (string \<times> string option) list" where
  "required_fields i = [(''repo_id'', Some (ri_repo i)), (''worktree_root'', Some (ri_worktree i)), (''branch'', Some (ri_branch i)),
     (''base_sha'', Some (ri_base i)), (''diff_hash'', Some (ri_diff i)), (''checklist_hash'', ri_checklist i),
     (''tree_fingerprint'', Some (ri_tree i)), (''security_policy_hash'', Some (ri_policy i))]"

definition context_matches :: "pyval \<Rightarrow> string option \<Rightarrow> bool" where
  "context_matches v expected =
     (case expected of None \<Rightarrow> v = PNone \<or> v = PStr []
      | Some e \<Rightarrow> e \<noteq> [] \<and> filled v \<and> v = PStr e)"

definition axes_trusted :: "pydict \<Rightarrow> bool" where
  "axes_trusted c =
     (case (dget c ''parse_ok'', dget c ''degraded'', dget c ''diff_truncated'') of
        (PBool p, PBool d, PBool t) \<Rightarrow> is_trustworthy p d t \<and> dget c ''trustworthy'' = PBool True
      | _ \<Rightarrow> False)"

definition candidate_matches :: "(pydict \<Rightarrow> string) \<Rightarrow> pydict \<Rightarrow> reuse_identity \<Rightarrow> bool" where
  "candidate_matches D c i \<longleftrightarrow> dget c ''source'' = PStr ''skodun'' \<and> dget c ''mode'' = PStr ''now'' \<and> axes_trusted c
     \<and> (case ri_planning i of None \<Rightarrow> True | Some p \<Rightarrow> mismatch D (dget c ''planning_policy'') p = None)
     \<and> list_all (\<lambda>(k, _). filled (dget c k)) (required_fields i) \<and> context_matches (dget c ''context_hash'') (ri_context i)
     \<and> list_all (\<lambda>(k, v). dget c k = (case v of None \<Rightarrow> PNone | Some s \<Rightarrow> PStr s)) (required_fields i)"

text \<open>\<open>reuse_candidates\<close>, the newest first.\<close>

definition col_text :: "row \<Rightarrow> string \<Rightarrow> string" where
  "col_text r k = (case col r k of PStr s \<Rightarrow> s | _ \<Rightarrow> [])"

definition reuse_candidates :: "reviews_db \<Rightarrow> string \<Rightarrow> string \<Rightarrow> string \<Rightarrow> door_error + pydict list" where
  "reuse_candidates db repo_id base_sha diff_hash =
     ebind (require_text ''repo_id'' (PStr repo_id)) (\<lambda>repo.
     ebind (require_text ''base_sha'' (PStr base_sha)) (\<lambda>base.
     ebind (require_text ''diff_hash'' (PStr diff_hash)) (\<lambda>dh.
       Inr (map r_art (rev (sort_key (\<lambda>r. col_text r ''reviewed_at'') (sort_key r_id
         (filter (\<lambda>r. col r ''repo_id'' = PStr repo \<and> col r ''base_sha'' = PStr base \<and> col r ''diff_hash'' = PStr dh
            \<and> col r ''trustworthy'' = PInt 1 \<and> col r ''status'' \<noteq> PStr running) (rv_rows db)))))))))"

definition exact_in :: "(pydict \<Rightarrow> string) \<Rightarrow> reuse_identity \<Rightarrow> pydict list \<Rightarrow> pydict option" where
  "exact_in D i candidates =
     find (\<lambda>c. case load_valid_artifact (PDict c) of Inl _ \<Rightarrow> False | Inr a \<Rightarrow> candidate_matches D (art_dict a) i) candidates"

definition find_exact_candidate :: "(pydict \<Rightarrow> string) \<Rightarrow> reviews_db \<Rightarrow> reuse_identity \<Rightarrow> door_error + pydict option" where
  "find_exact_candidate D db i = ebind (reuse_candidates db (ri_repo i) (ri_base i) (ri_diff i)) (\<lambda>cs. Inr (exact_in D i cs))"

subsection \<open>The probe\<close>

definition mismatch_text :: "policy_mismatch \<Rightarrow> string" where
  "mismatch_text m = (case m of IdentityMissing \<Rightarrow> ''planning_identity_missing'' | ConcurrencyChanged \<Rightarrow> ''batch_concurrency_changed''
     | TargetChanged \<Rightarrow> ''operational_target_changed'' | PolicyChanged \<Rightarrow> ''planning_policy_changed'')"

text \<open>What the probe meets: the repository at its start, at each look, and at its second capture.\<close>

record probe_run =
  pb_primary :: bool
  pb_base :: "string + base"
  pb_diff :: "string + diff"
  pb_branch :: "string + string"
  pb_look :: "nat \<Rightarrow> look"
  pb_again :: "string + diff"
  pb_tree_again :: "string list \<Rightarrow> string + string"

record reuse_probe =
  pr_candidate :: "pydict option"
  pr_identity :: reuse_identity
  pr_reason :: string

definition opt_field :: "string option \<Rightarrow> pyval" where
  "opt_field v = (case v of None \<Rightarrow> PNone | Some s \<Rightarrow> PStr s)"

definition passed_over :: "string option \<Rightarrow> string option \<Rightarrow> pydict \<Rightarrow> bool" where
  "passed_over reviewer intent c \<longleftrightarrow>
     (dget c ''requested_reviewer'' \<noteq> PNone \<and> dget c ''requested_reviewer'' \<noteq> opt_field reviewer)
     \<or> (intent \<noteq> None \<and> dget c ''client_family'' \<noteq> PNone \<and> dget c ''client_family'' \<noteq> opt_field intent)"

definition noted :: "(pydict \<Rightarrow> string) \<Rightarrow> string option \<Rightarrow> pydict \<Rightarrow> reuse_identity \<Rightarrow> string option" where
  "noted D reason c i =
     (if reason = None \<and> candidate_matches D c (i\<lparr>ri_planning := None\<rparr>)
      then (case ri_planning i of None \<Rightarrow> None | Some p \<Rightarrow> map_option mismatch_text (mismatch D (dget c ''planning_policy'') p))
      else reason)"

text \<open>The loop over the candidates; \<open>identify n c\<close> is the look taken at the \<open>n\<close>-th call.\<close>

fun scan_candidates ::
    "(pydict \<Rightarrow> string) \<Rightarrow> (nat \<Rightarrow> pydict \<Rightarrow> string + reuse_identity) \<Rightarrow> string option \<Rightarrow> string option \<Rightarrow> nat \<Rightarrow> string option \<Rightarrow> pydict list
      \<Rightarrow> string + string option \<times> (pydict \<times> reuse_identity) option" where
  "scan_candidates D identify reviewer intent n reason [] = Inr (reason, None)"
| "scan_candidates D identify reviewer intent n reason (raw # rest) =
     (case load_valid_artifact (PDict raw) of
        Inl _ \<Rightarrow> scan_candidates D identify reviewer intent n reason rest
      | Inr a \<Rightarrow>
          if passed_over reviewer intent (art_dict a) then scan_candidates D identify reviewer intent n reason rest
          else ebind (identify n (art_dict a)) (\<lambda>i.
            if candidate_matches D (art_dict a) i then Inr (noted D reason (art_dict a) i, Some (art_dict a, i))
            else scan_candidates D identify reviewer intent (Suc n) (noted D reason (art_dict a) i) rest))"

definition current_finder :: "reuse_cfg \<Rightarrow> string option \<Rightarrow> string option" where
  "current_finder cfg reviewer =
     (case reviewer of Some r \<Rightarrow> Some r
      | None \<Rightarrow> map_option (\<lambda>r. rw_name (co_reviewer r)) (find (\<lambda>r. co_enabled r \<and> co_role r = ''finder'') (ru_reviewers cfg)))"

definition truncated_reason :: string where "truncated_reason = ''untracked scan truncated; reuse refused''"
definition moved_reason :: string where "moved_reason = ''tree moved during reuse probe''"

definition second_look :: "(string \<Rightarrow> string) \<Rightarrow> probe_run \<Rightarrow> string option \<Rightarrow> pydict option \<Rightarrow> reuse_identity \<Rightarrow> string + reuse_probe" where
  "second_look S w reason candidate i =
     ebind (pb_again w) (\<lambda>d.
       if d_truncated_untracked d then Inr \<lparr>pr_candidate = None, pr_identity = i, pr_reason = truncated_reason\<rparr>
       else if diff_identity S (d_data d) \<noteq> ri_diff i then Inr \<lparr>pr_candidate = None, pr_identity = i, pr_reason = moved_reason\<rparr>
       else ebind (pb_tree_again w (d_files d)) (\<lambda>tree.
         if tree \<noteq> ri_tree i then Inr \<lparr>pr_candidate = None, pr_identity = i, pr_reason = moved_reason\<rparr>
         else case candidate of
           None \<Rightarrow> Inr \<lparr>pr_candidate = None, pr_identity = i,
             pr_reason = (case reason of None \<Rightarrow> ''no exact trustworthy review matched'' | Some r \<Rightarrow> r)\<rparr>
         | Some c \<Rightarrow> Inr \<lparr>pr_candidate = Some c, pr_identity = i, pr_reason = ''exact identity match''\<rparr>))"

definition probe ::
    "(string \<Rightarrow> string) \<Rightarrow> (string \<Rightarrow> string) \<Rightarrow> (pydict \<Rightarrow> string) \<Rightarrow> reviews_db \<Rightarrow> probe_run \<Rightarrow> reuse_cfg \<Rightarrow> string option \<Rightarrow> string option
      \<Rightarrow> string + reuse_probe" where
  "probe H S D db w cfg reviewer intent =
     ebind (guard (\<not> pb_primary w) ''RuntimeError'') (\<lambda>_.
     ebind (pb_base w) (\<lambda>b. ebind (pb_diff w) (\<lambda>d. ebind (pb_branch w) (\<lambda>branch.
     let identify = (\<lambda>n c. identity_for H S (pb_look w n) cfg b d branch (current_finder cfg reviewer) c) in
     ebind (identify 0 None) (\<lambda>i.
       if d_truncated_untracked d then Inr \<lparr>pr_candidate = None, pr_identity = i, pr_reason = truncated_reason\<rparr>
       else ebind (map_sum (\<lambda>_. ''ValueError'') id (reuse_candidates db (ri_repo i) (ri_base i) (ri_diff i))) (\<lambda>candidates.
         ebind (scan_candidates D (\<lambda>n c. identify n (Some c)) reviewer intent 1 None candidates) (\<lambda>(reason, found).
           second_look S w reason (map_option fst found) (case found of None \<Rightarrow> i | Some (_, j) \<Rightarrow> j))))))))"

subsection \<open>The verdict of a reused review\<close>

definition levels :: "pydict list \<Rightarrow> pyval" where
  "levels fs = PDict (map (\<lambda>level. (level, PInt (int (length (filter (\<lambda>f. dget f ''severity'' = PStr level) fs))))) [''high'', ''medium'', ''low''])"

definition project :: "(string \<Rightarrow> string) \<Rightarrow> ledger \<Rightarrow> pydict \<Rightarrow> string \<Rightarrow> string \<Rightarrow> artifact_error + nat \<times> string" where
  "project K l candidate branch base_sha =
     ebind (open_findings K (PDict candidate) (triage_for l branch base_sha)) (\<lambda>open.
       let shown = dset ''severity'' (levels open) (dset ''findings_total'' (PInt (int (length open)))
             (dset ''findings'' (PList (map PDict open)) candidate)) in
       Inr (if open = [] then 0 else 1, banner shown))"

subsection \<open>The audit\<close>

record reuse_event =
  re_at :: string
  re_outcome :: string
  re_reason :: string
  re_fields :: "string option list"

definition text_or_null :: "string option \<Rightarrow> door_error + string option" where
  "text_or_null v = (case v of None \<Rightarrow> Inr None | Some s \<Rightarrow> ebind (require_text ''field'' (PStr s)) (\<lambda>t. Inr (Some t)))"

fun texts_or_null :: "string option list \<Rightarrow> door_error + string option list" where
  "texts_or_null [] = Inr []"
| "texts_or_null (v # vs) = ebind (text_or_null v) (\<lambda>t. ebind (texts_or_null vs) (\<lambda>ts. Inr (t # ts)))"

definition reuse_outcomes :: "string list" where "reuse_outcomes = [''hit'', ''miss'', ''bypass'', ''error'']"

definition append_reuse_event ::
    "string \<Rightarrow> string \<Rightarrow> string \<Rightarrow> string option list \<Rightarrow> reuse_event list \<Rightarrow> door_error + reuse_event list" where
  "append_reuse_event at outcome reason vals events =
     ebind (require_ts ''at'' (PStr at)) (\<lambda>_.
     ebind (require_text ''outcome'' (PStr outcome)) (\<lambda>outcome'.
     ebind (guard (outcome' \<in> set reuse_outcomes) (BadText ''outcome'')) (\<lambda>_.
     ebind (require_text ''reason'' (PStr reason)) (\<lambda>reason'.
     ebind (texts_or_null vals) (\<lambda>vals'.
       Inr (events @ [\<lparr>re_at = at, re_outcome = outcome', re_reason = reason', re_fields = vals'\<rparr>]))))))"

definition identity_fields_of :: "reuse_identity option \<Rightarrow> string option list" where
  "identity_fields_of i = (case i of None \<Rightarrow> replicate 9 None
     | Some j \<Rightarrow> [Some (ri_repo j), Some (ri_worktree j), Some (ri_branch j), Some (ri_base j), Some (ri_diff j), ri_context j,
         ri_checklist j, Some (ri_tree j), Some (ri_policy j)])"

text \<open>\<open>_reuse_audit\<close>: an event that the store refuses is dropped.\<close>

definition matched_id :: "reuse_probe option \<Rightarrow> string option" where
  "matched_id p = (case p of None \<Rightarrow> None | Some r \<Rightarrow> (case pr_candidate r of None \<Rightarrow> None
     | Some c \<Rightarrow> (case dget c ''id'' of PStr s \<Rightarrow> Some s | _ \<Rightarrow> None)))"

definition reuse_audit ::
    "string \<Rightarrow> reuse_probe option \<Rightarrow> string \<Rightarrow> string \<Rightarrow> string option \<Rightarrow> string option \<Rightarrow> reuse_event list \<Rightarrow> reuse_event list" where
  "reuse_audit now p outcome reason reviewer family events =
     (case append_reuse_event now outcome reason (identity_fields_of (map_option pr_identity p) @ [reviewer, family, matched_id p]) events of
        Inl _ \<Rightarrow> events | Inr es \<Rightarrow> es)"

subsection \<open>Trying to reuse\<close>

datatype reuse_outcome =
    Not_asked
  | Fresh string               \<comment> \<open>a fresh review follows, after this line\<close>
  | Reused nat string string   \<comment> \<open>the exit status, the text, and the review's id\<close>
  | Stopped nat string         \<comment> \<open>the review was cancelled\<close>

record reuse_ask =
  ra_trusted :: bool
  ra_bypass :: "string option"
  ra_fresh :: bool
  ra_reviewer :: "string option"
  ra_family :: "string option"
  ra_intent :: "string option"

definition cancelled_reason :: string where "cancelled_reason = ''review cancelled''"

definition fell_through :: "string \<Rightarrow> string \<Rightarrow> reuse_outcome" where
  "fell_through how reason = Fresh (''SKODUN REUSE: '' @ how @ '' reason='' @ reason)"

definition stopped :: reuse_outcome where
  "stopped = Stopped 4 (banner_failure (PStr cancelled_reason))"

text \<open>\<open>cancelled n\<close> is what the token says at the \<open>n\<close>-th of its three checks; \<open>told\<close> is the type and the message of
  an exception; \<open>observed\<close> is the exception \<open>observation\<close> raised on the candidate, if any. The id of a valid
  artifact is text.\<close>

definition text_of_id :: "pydict \<Rightarrow> string" where
  "text_of_id c = (case dget c ''id'' of PStr s \<Rightarrow> s | _ \<Rightarrow> [])"

definition try_reuse ::
    "(string \<Rightarrow> string) \<Rightarrow> ledger \<Rightarrow> string \<Rightarrow> reuse_ask \<Rightarrow> (nat \<Rightarrow> bool) \<Rightarrow> string + reuse_probe \<Rightarrow> (artifact_error \<Rightarrow> string) \<Rightarrow> (pydict \<Rightarrow> string option)
      \<Rightarrow> reuse_event list \<Rightarrow> reuse_outcome \<times> reuse_event list" where
  "try_reuse K l now ask cancelled probed told observed events =
     (if \<not> ra_trusted ask then (Not_asked, events)
      else case ra_bypass ask of
        Some reason \<Rightarrow> (fell_through ''bypass'' reason, reuse_audit now None ''bypass'' reason (ra_reviewer ask) (ra_family ask) events)
      | None \<Rightarrow>
          if ra_fresh ask then (fell_through ''bypass'' ''explicit fresh requested'',
            reuse_audit now None ''bypass'' ''explicit fresh requested'' (ra_reviewer ask) (ra_family ask) events)
          else if ra_reviewer ask \<noteq> None \<or> ra_intent ask \<noteq> None
          then (fell_through ''bypass'' ''explicit reviewer or client-family intent requested'',
            reuse_audit now None ''bypass'' ''explicit reviewer or client-family intent requested'' (ra_reviewer ask) (ra_intent ask) events)
          else if cancelled 0 then (stopped, events)
          else case probed of
            Inl told_probe \<Rightarrow> (fell_through ''error'' (''probe failed ('' @ told_probe @ '')''),
              reuse_audit now None ''error'' (''probe failed ('' @ told_probe @ '')'') (ra_reviewer ask) (ra_family ask) events)
          | Inr p \<Rightarrow>
              (case pr_candidate p of
                 None \<Rightarrow> (fell_through ''miss'' (pr_reason p), reuse_audit now (Some p) ''miss'' (pr_reason p) None None events)
               | Some c \<Rightarrow>
                   if cancelled 1 then (stopped, reuse_audit now (Some p) ''bypass'' cancelled_reason None None events)
                   else (case project K l c (ri_branch (pr_identity p)) (ri_base (pr_identity p)) of
                     Inl e \<Rightarrow> (fell_through ''error'' (''probe failed ('' @ told e @ '')''),
                       reuse_audit now (Some p) ''error'' (''probe failed ('' @ told e @ '')'') (ra_reviewer ask) (ra_family ask) events)
                   | Inr (status, verdict) \<Rightarrow>
                       if cancelled 2 then (stopped, events)
                       else
                         let after = reuse_audit now (Some p) ''hit'' (pr_reason p) None None events in
                         (case observed c of
                            Some e \<Rightarrow> (fell_through ''error'' (''probe failed ('' @ e @ '')''),
                              reuse_audit now (Some p) ''error'' (''probe failed ('' @ e @ '')'') (ra_reviewer ask) (ra_family ask) after)
                          | None \<Rightarrow> (Reused status (''SKODUN REUSE: review_id='' @ text_of_id c @ '' reason='' @ pr_reason p @ [LF] @ verdict)
                              (text_of_id c), after)))))"

subsection \<open>What a reused verdict rests on\<close>

lemma in_reuse_candidates:
  assumes "reuse_candidates db repo base dh = Inr cs" "c \<in> set cs"
  obtains r where "r \<in> set (rv_rows db)" "r_art r = c" "col r ''trustworthy'' = PInt 1" "col r ''status'' \<noteq> PStr running"
  using assms by (auto simp: reuse_candidates_def ebind_Inr_iff)

lemma scan_found:
  assumes "scan_candidates D identify reviewer intent n reason cs = Inr (reason', Some (c, i))"
  shows "c \<in> set cs \<and> (\<exists>k. identify k c = Inr i) \<and> candidate_matches D c i \<and> (\<exists>a. load_valid_artifact (PDict c) = Inr a)
      \<and> \<not> passed_over reviewer intent c"
  using assms
proof (induction cs arbitrary: n reason)
  case (Cons raw rest)
  show ?case
  proof (cases "load_valid_artifact (PDict raw)")
    case (Inl e)
    with Cons.prems have "scan_candidates D identify reviewer intent n reason rest = Inr (reason', Some (c, i))"
      by simp
    from Cons.IH [OF this] show ?thesis by simp
  next
    case (Inr a)
    then have art: "art_dict a = raw" by (auto simp: load_valid_artifact_Inr)
    show ?thesis
    proof (cases "passed_over reviewer intent raw")
      case True
      with Cons.prems Inr art have "scan_candidates D identify reviewer intent n reason rest = Inr (reason', Some (c, i))"
        by simp
      from Cons.IH [OF this] show ?thesis by simp
    next
      case False
      with Cons.prems Inr art obtain j where j: "identify n raw = Inr j"
        by (auto simp: ebind_Inr_iff)
      show ?thesis
      proof (cases "candidate_matches D raw j")
        case True
        with j False Inr art Cons.prems have "c = raw" "i = j" by (auto)
        with True j False Inr show ?thesis by auto
      next
        case differs: False
        with j False Inr art Cons.prems have "scan_candidates D identify reviewer intent (Suc n) (noted D reason raw j) rest = Inr (reason', Some (c, i))"
          by simp
        from Cons.IH [OF this] show ?thesis by simp
      qed
    qed
  qed
qed simp

lemma second_look_found:
  assumes "second_look S w reason candidate i = Inr p" "pr_candidate p = Some c"
  obtains d where "candidate = Some c" "pr_identity p = i" "pb_again w = Inr d" "\<not> d_truncated_untracked d"
    "diff_identity S (d_data d) = ri_diff i" "pb_tree_again w (d_files d) = Inr (ri_tree i)"
  using assms by (auto simp: second_look_def ebind_Inr_iff split: if_splits option.splits)

lemma identity_for_fields:
  assumes "identity_for H S lk cfg b d branch name c = Inr i"
  shows "ri_branch i = branch" "ri_base i = b_sha b" "ri_diff i = diff_identity S (d_data d)" "ri_planning i \<noteq> None"
    "lo_repo lk = Inr (ri_repo i)" "lo_worktree lk = Inr (ri_worktree i)" "lo_policy lk = Inr (ri_policy i)"
  using assms by (auto simp: identity_for_def Let_def ebind_Inr_iff split: prod.splits)

lemma probe_found:
  assumes "probe H S D db w cfg reviewer intent = Inr p" "pr_candidate p = Some c"
  obtains b d0 branch k i d cs a where "pb_base w = Inr b" "pb_diff w = Inr d0" "pb_branch w = Inr branch"
    "identity_for H S (pb_look w k) cfg b d0 branch (current_finder cfg reviewer) (Some c) = Inr i" "pr_identity p = i"
    "candidate_matches D c i" "load_valid_artifact (PDict c) = Inr a" "\<not> passed_over reviewer intent c"
    "\<exists>repo base dh. reuse_candidates db repo base dh = Inr cs" "c \<in> set cs"
    "pb_again w = Inr d" "\<not> d_truncated_untracked d" "diff_identity S (d_data d) = ri_diff i" "pb_tree_again w (d_files d) = Inr (ri_tree i)"
    "\<not> pb_primary w" "\<not> d_truncated_untracked d0"
proof -
  from assms(1) obtain b d0 branch i0 where start: "\<not> pb_primary w" "pb_base w = Inr b" "pb_diff w = Inr d0" "pb_branch w = Inr branch"
      "identity_for H S (pb_look w 0) cfg b d0 branch (current_finder cfg reviewer) None = Inr i0"
    by (auto simp: probe_def Let_def ebind_Inr_iff)
  from assms start have open_scan: "\<not> d_truncated_untracked d0"
    by (auto simp: probe_def Let_def guard_def split: if_splits)
  let ?id = "\<lambda>n c. identity_for H S (pb_look w n) cfg b d0 branch (current_finder cfg reviewer) (Some c)"
  from assms(1) start open_scan obtain cs reason found where cs: "reuse_candidates db (ri_repo i0) (ri_base i0) (ri_diff i0) = Inr cs"
      and scan: "scan_candidates D ?id reviewer intent 1 None cs = Inr (reason, found)"
      and snd: "second_look S w reason (map_option fst found) (case found of None \<Rightarrow> i0 | Some (_, j) \<Rightarrow> j) = Inr p"
    by (cases "reuse_candidates db (ri_repo i0) (ri_base i0) (ri_diff i0)") (auto simp: probe_def Let_def ebind_Inr_iff split: prod.splits)
  from second_look_found [OF snd assms(2)] obtain d where d: "map_option fst found = Some c"
      "pr_identity p = (case found of None \<Rightarrow> i0 | Some (_, j) \<Rightarrow> j)" "pb_again w = Inr d" "\<not> d_truncated_untracked d"
      "diff_identity S (d_data d) = ri_diff (case found of None \<Rightarrow> i0 | Some (_, j) \<Rightarrow> j)"
      "pb_tree_again w (d_files d) = Inr (ri_tree (case found of None \<Rightarrow> i0 | Some (_, j) \<Rightarrow> j))" by metis
  then obtain j where j: "found = Some (c, j)" by (cases found) auto
  from scan_found [OF scan [unfolded j]] obtain k a where "c \<in> set cs" "?id k c = Inr j" "candidate_matches D c j"
      "load_valid_artifact (PDict c) = Inr a" "\<not> passed_over reviewer intent c" by blast
  with start open_scan cs d j show thesis
    by (intro that [of b d0 branch k j a cs d]) auto
qed

lemma try_reuse_Reused:
  assumes "try_reuse K l now ask cancelled probed told observed events = (Reused status words rid, events')"
  obtains p c verdict where "probed = Inr p" "pr_candidate p = Some c" "project K l c (ri_branch (pr_identity p)) (ri_base (pr_identity p)) = Inr (status, verdict)"
    "rid = text_of_id c" "ra_trusted ask" "ra_reviewer ask = None" "ra_intent ask = None" "\<not> ra_fresh ask" "ra_bypass ask = None"
  using assms by (auto simp: try_reuse_def fell_through_def stopped_def Let_def split: if_splits option.splits sum.splits prod.splits)

lemma matched_fields:
  assumes "candidate_matches D c i"
  shows "dget c ''branch'' = PStr (ri_branch i)" "dget c ''base_sha'' = PStr (ri_base i)" "dget c ''diff_hash'' = PStr (ri_diff i)"
    "dget c ''tree_fingerprint'' = PStr (ri_tree i)" "dget c ''security_policy_hash'' = PStr (ri_policy i)" "dget c ''repo_id'' = PStr (ri_repo i)"
    "dget c ''worktree_root'' = PStr (ri_worktree i)" "axes_trusted c" "dget c ''source'' = PStr ''skodun''" "dget c ''mode'' = PStr ''now''"
  using assms by (simp_all add: candidate_matches_def required_fields_def)

text \<open>C36 (safety).  A reused verdict is exact. It is given only to a caller who asked for reuse and named no reviewer and no
  family; it comes from a trustworthy row that is not running, whose artifact is a foreground review of the repository,
  the worktree, the branch and the base found now, under the security policy found now; and the diff and the tree as
  they were captured after the search are the ones it reviewed. Its exit status is that of the present triage ledger, zero exactly if nothing is open.\<close>

theorem reused_verdict_is_exact:
  assumes "probe H S D db w cfg (ra_reviewer ask) (ra_intent ask) = probed"
    and "try_reuse K l now ask cancelled probed told observed events = (Reused status words rid, events')"
  shows "ra_trusted ask \<and> \<not> ra_fresh ask \<and> ra_reviewer ask = None \<and> ra_intent ask = None \<and> ra_bypass ask = None
      \<and> (\<exists>r \<in> set (rv_rows db). \<exists>b branch d fs k. col r ''trustworthy'' = PInt 1 \<and> col r ''status'' \<noteq> PStr running \<and> axes_trusted (r_art r)
           \<and> dget (r_art r) ''id'' = PStr rid \<and> dget (r_art r) ''source'' = PStr ''skodun'' \<and> dget (r_art r) ''mode'' = PStr ''now''
           \<and> map_sum id PStr (lo_repo (pb_look w k)) = Inr (dget (r_art r) ''repo_id'')
           \<and> map_sum id PStr (lo_worktree (pb_look w k)) = Inr (dget (r_art r) ''worktree_root'')
           \<and> map_sum id PStr (lo_policy (pb_look w k)) = Inr (dget (r_art r) ''security_policy_hash'')
           \<and> pb_base w = Inr b \<and> dget (r_art r) ''base_sha'' = PStr (b_sha b)
           \<and> pb_branch w = Inr branch \<and> dget (r_art r) ''branch'' = PStr branch
           \<and> pb_again w = Inr d \<and> \<not> d_truncated_untracked d
           \<and> dget (r_art r) ''diff_hash'' = PStr (diff_identity S (d_data d))
           \<and> map_sum id PStr (pb_tree_again w (d_files d)) = Inr (dget (r_art r) ''tree_fingerprint'')
           \<and> dget (r_art r) ''requested_reviewer'' = PNone
           \<and> open_findings K (PDict (r_art r)) (triage_for l branch (b_sha b)) = Inr fs \<and> status = (if fs = [] then 0 else 1))"
proof -
  from try_reuse_Reused [OF assms(2)] obtain p c verdict where p: "probed = Inr p" "pr_candidate p = Some c"
      and v: "project K l c (ri_branch (pr_identity p)) (ri_base (pr_identity p)) = Inr (status, verdict)" and rid: "rid = text_of_id c"
      and ask: "ra_trusted ask" "ra_reviewer ask = None" "ra_intent ask = None" "\<not> ra_fresh ask" "ra_bypass ask = None" by metis
  from assms(1) p(1) have "probe H S D db w cfg (ra_reviewer ask) (ra_intent ask) = Inr p" by simp
  from probe_found [OF this p(2)] obtain b d0 branch k i d cs a where f: "pb_base w = Inr b" "pb_branch w = Inr branch"
      "identity_for H S (pb_look w k) cfg b d0 branch (current_finder cfg (ra_reviewer ask)) (Some c) = Inr i" "pr_identity p = i"
      "candidate_matches D c i" "load_valid_artifact (PDict c) = Inr a" "\<not> passed_over (ra_reviewer ask) (ra_intent ask) c"
      and cs: "\<exists>repo base dh. reuse_candidates db repo base dh = Inr cs" "c \<in> set cs"
      and d: "pb_again w = Inr d" "\<not> d_truncated_untracked d" "diff_identity S (d_data d) = ri_diff i" "pb_tree_again w (d_files d) = Inr (ri_tree i)"
    by metis
  from cs obtain r where r: "r \<in> set (rv_rows db)" "r_art r = c" "col r ''trustworthy'' = PInt 1" "col r ''status'' \<noteq> PStr running"
    using in_reuse_candidates by metis
  note fields = matched_fields [OF f(5)] identity_for_fields [OF f(3)]
  have id: "dget c ''id'' = PStr rid" using f(6) rid by (simp add: load_valid_artifact_Inr text_of_id_def)
  have asked: "dget c ''requested_reviewer'' = PNone" using f(7) ask by (auto simp: passed_over_def opt_field_def)
  from v f(4) obtain fs where fs: "open_findings K (PDict c) (triage_for l branch (b_sha b)) = Inr fs" "status = (if fs = [] then 0 else 1)"
    using fields(11,12) by (auto simp: project_def Let_def ebind_Inr_iff)
  show ?thesis
    using ask r fields f d id asked fs by (intro conjI bexI [of _ r] exI [of _ b] exI [of _ branch] exI [of _ d] exI [of _ fs] exI [of _ k]) simp_all
qed

subsection \<open>Witnesses\<close>

definition sample_look :: look where
  "sample_look = \<lparr>lo_select = (\<lambda>_ _. Inr \<lparr>cs_sections = [], cs_bytes = 0, cs_over = False, cs_dropped = [], cs_body = [], cs_note = [], cs_degraded = False\<rparr>),
     lo_pack = (\<lambda>_ _ _ _ _. Inr PNone), lo_limit = (\<lambda>_. None), lo_overhead = 0, lo_repo = Inr ''repo'', lo_worktree = Inr ''/w'', lo_head = Inr ''h'',
     lo_tree = (\<lambda>_. Inr ''tree''), lo_policy = Inr ''policy'', lo_planning = (\<lambda>_. Inr [(''version'', PStr planning_version), (''target_bytes'', PInt 0),
       (''effective_diff_budget'', PInt 1), (''prompt_envelope'', PInt 1), (''context_pack'', PBool False), (''capability'', PNone),
       (''execution_policy'', PDict [(''max_turns'', PInt 1), (''deny_tools_hash'', PStr (replicate 64 (CHR ''a'')))]), (''digest'', PStr ''d'')])\<rparr>"

definition sample_run :: probe_run where
  "sample_run = \<lparr>pb_primary = False, pb_base = Inr \<lparr>b_ref = ''r'', b_sha = ''base'', b_warning = None\<rparr>,
     pb_diff = Inr \<lparr>d_data = ''x'', d_files = [''a''], d_statuses = [], d_truncated_untracked = False\<rparr>, pb_branch = Inr ''main'', pb_look = (\<lambda>_. sample_look),
     pb_again = Inr \<lparr>d_data = ''x'', d_files = [''a''], d_statuses = [], d_truncated_untracked = False\<rparr>, pb_tree_again = (\<lambda>_. Inr ''tree'')\<rparr>"

definition sample_cfg :: reuse_cfg where
  "sample_cfg = \<lparr>ru_reviewers = [], ru_defaults = sample_defaults, ru_context_pack = False, ru_batch_target = 0, ru_segments = [], ru_patterns = []\<rparr>"

definition sample_stored :: pydict where
  "sample_stored = [(''id'', PStr ''r1''), (''source'', PStr ''skodun''), (''mode'', PStr ''now''), (''parse_ok'', PBool True), (''degraded'', PBool False),
     (''diff_truncated'', PBool False), (''trustworthy'', PBool True), (''repo_id'', PStr ''repo''), (''worktree_root'', PStr ''/w''), (''branch'', PStr ''main''),
     (''base_sha'', PStr ''base''), (''diff_hash'', PStr ''dh''), (''checklist_hash'', PStr ''ch''), (''tree_fingerprint'', PStr ''tree''),
     (''security_policy_hash'', PStr ''policy''), (''planning_policy'', (case lo_planning sample_look None of Inr p \<Rightarrow> PDict p | Inl _ \<Rightarrow> PNone)),
     (''findings'', PList []), (''findings_total'', PInt 0)]"

definition sample_reviews :: reviews_db where
  "sample_reviews = empty_reviews\<lparr>rv_rows := [\<lparr>r_id = ''r1'', r_cols = [(''repo_id'', PStr ''repo''), (''base_sha'', PStr ''base''), (''diff_hash'', PStr ''dh''),
     (''trustworthy'', PInt 1), (''status'', PStr ''clean''), (''reviewed_at'', PStr ''2026-01-01T00:00:00Z'')], r_art = sample_stored\<rparr>]\<rparr>"

definition sample_ask :: reuse_ask where
  "sample_ask = \<lparr>ra_trusted = True, ra_bypass = None, ra_fresh = False, ra_reviewer = None, ra_family = None, ra_intent = None\<rparr>"

definition sample_probed :: "string + reuse_probe" where
  "sample_probed = probe (\<lambda>_. ''ch'') (\<lambda>_. ''dh'') (\<lambda>_. ''d'') sample_reviews sample_run sample_cfg None None"

definition reused_code :: "reuse_outcome \<times> reuse_event list \<Rightarrow> (nat \<times> string) option" where
  "reused_code res = (case fst res of Reused status words rid \<Rightarrow> Some (status, rid) | _ \<Rightarrow> None)"

lemma sample_reuses:
  "reused_code (try_reuse id [] ''2026-01-01T00:00:00Z'' sample_ask (\<lambda>_. False) sample_probed (\<lambda>_. []) (\<lambda>_. None) []) = Some (0, ''r1'')"
  by code_simp

theorem reused_verdict_is_exact_witness:
  "\<exists>r \<in> set (rv_rows sample_reviews). col r ''trustworthy'' = PInt 1 \<and> dget (r_art r) ''diff_hash'' = PStr ''dh''"
proof -
  have probed: "probe (\<lambda>_. ''ch'') (\<lambda>_. ''dh'') (\<lambda>_. ''d'') sample_reviews sample_run sample_cfg (ra_reviewer sample_ask) (ra_intent sample_ask) = sample_probed"
    by (simp add: sample_ask_def sample_probed_def)
  obtain words events' where "try_reuse id [] ''2026-01-01T00:00:00Z'' sample_ask (\<lambda>_. False) sample_probed (\<lambda>_. []) (\<lambda>_. None) [] = (Reused 0 words ''r1'', events')"
    using sample_reuses by (auto simp: reused_code_def prod_eq_iff split: reuse_outcome.splits)
  from reused_verdict_is_exact [OF probed this] obtain r :: row and d :: diff where "r \<in> set (rv_rows sample_reviews)" "col r ''trustworthy'' = PInt 1"
      "dget (r_art r) ''diff_hash'' = PStr (diff_identity (\<lambda>_. ''dh'') (d_data d))" by blast
  then show ?thesis by (auto simp: diff_identity_def blob_sha1_def)
qed

end
