(* ===== verification/Spec2Isabelle.thy ===== *)
theory Spec2Isabelle
  imports PyText Timestamps Batching Ledger Triage Dispatch Reviews ReviewProps GitIdentity Gate
    Capacity Acquire ProviderState Budget Chain Json Checkpoints Followups Orchestrations Requests
    Continuation OrchProps Budgets BudgetStore Spend Routing Delivery Passes Stack Pipeline
    Batched Reuse
begin

text \<open>
  A verification development of skodun, a review gate for git pushes. The program runs language
  models over the diff of a branch, stores each review in an SQLite archive, and answers one
  question at push time: may this diff leave the machine. The sources are under
  \<open>src/src/skodun/\<close>; file names below are relative to it.

  \<^bold>\<open>How the parts interact.\<close> A pre-push hook reserves a review of the outgoing diff
  (\<open>store.py\<close>, \<open>reserve_prepush\<close>), unless a stored review already certifies it
  (\<open>dispatch.py\<close>). A worker waits for a slot (\<open>capacity.py\<close>), splits the diff into batches
  (\<open>batching.py\<close>), asks the reviewers, and finalises the reservation. A person clears findings
  through the triage verbs (\<open>triage.py\<close>, \<open>services.py\<close>), which append to a ledger. The gate
  (\<open>gate.py\<close>) reads the archive and the ledger and decides.

  \<^bold>\<open>Theories.\<close>
  \<^item> \<open>Prelude\<close>: JSON values, dictionaries, errors as sums, keyed tables, and the interfaces
    \<open>safe_machine\<close> of a step relation with an invariant and \<open>history_machine\<close> of one with a
    relation between earlier and later states.
  \<^item> \<open>PyText\<close>: the text operations of Python the program uses, \<open>textnorm.py\<close> and \<open>trust.py\<close>.
  \<^item> \<open>Timestamps\<close>: canonical timestamps of \<open>store.py\<close>, their order and durations.
  \<^item> \<open>Batching\<close>: \<open>batching.py\<close>.
  \<^item> \<open>Ledger\<close>: the table \<open>triage_events\<close> of \<open>store.py\<close>.
  \<^item> \<open>Triage\<close>: \<open>triage.py\<close>, \<open>refuter_policy.py\<close> and the exit codes of its services.
  \<^item> \<open>Dispatch\<close>: \<open>planning_policy.py\<close> and the rules of \<open>dispatch.py\<close> for suppressing a push.
  \<^item> \<open>Reviews\<close>, \<open>ReviewProps\<close>: the table \<open>reviews\<close> of \<open>store.py\<close>, as a machine, and its
    properties.
  \<^item> \<open>GitIdentity\<close>: base resolution, diff capture and diff identity of \<open>gitio.py\<close>.
  \<^item> \<open>Gate\<close>: \<open>gate.py\<close> over all of the above.
  \<^item> \<open>Capacity\<close>: the pure rules of \<open>capacity.py\<close> and the admission table of \<open>store.py\<close>.
  \<^item> \<open>Acquire\<close>: the waiting loops of \<open>capacity.py\<close> over that table.
  \<^item> \<open>ProviderState\<close>: the cache of provider outages of \<open>store.py\<close>.
  \<^item> \<open>Budget\<close>: \<open>budget.py\<close>.
  \<^item> \<open>Chain\<close>: \<open>chain.py\<close> over the two. Its input is, for each run of a provider, what the program
    observed of the process; what it decides from that is modelled. Durations and the waits for
    admission are not.
  \<^item> \<open>Json\<close>: the canonical text of a JSON value (\<open>json.dumps\<close> with sorted keys), and that the text
    determines the value.
  \<^item> \<open>Checkpoints\<close>: \<open>checkpoints.py\<close>, the identities of passes and orchestrations and the checks a
    stored payload passes.
  \<^item> \<open>Followups\<close>: \<open>followups.py\<close>, the bindings of follow-up passes to their evidence.
  \<^item> \<open>Orchestrations\<close>: the orchestration and checkpoint tables of \<open>store.py\<close>.
  \<^item> \<open>Requests\<close>: \<open>request_store.py\<close> and the cancellations of \<open>control_store.py\<close>, as a machine, and
    its properties.
  \<^item> \<open>Continuation\<close>: the rest of \<open>followup_store.py\<close>, \<open>fork_continuation\<close> of \<open>store.py\<close>, and the two
    ways an orchestration is published: \<open>save_checkpointed_review\<close> and \<open>finalize_review\<close>.
  \<^item> \<open>OrchProps\<close>: the orchestration tables as a machine, and its properties.
  \<^item> \<open>Budgets\<close>: \<open>budgets.py\<close>, the clock of one execution, as a machine.
  \<^item> \<open>BudgetStore\<close>: \<open>budget_store.py\<close>, the budget tables next to the request registry.
  \<^item> \<open>Spend\<close>: \<open>spend.py\<close> and the table of metered calls of \<open>store.py\<close>.
  \<^item> \<open>Routing\<close>: \<open>routing.py\<close> over the capacity, outage, spend and review tables, and the choice of the
    head of a review in \<open>pipeline.py\<close>.
  \<^item> \<open>Delivery\<close>: \<open>delivery.py\<close>, its ledger, and the transports of \<open>cli.py\<close> and \<open>mcpserver.py\<close> around
    it, as a machine.
  \<^item> \<open>Passes\<close>: \<open>passes.py\<close>, when the security, skeptic, refuter and cross-file passes run and how their
    results are merged.
  \<^item> \<open>Stack\<close>: \<open>stack.py\<close>, the manifest of a stack of branches, its validation against the captured
    review and the attribution of findings to its slices.
  \<^item> \<open>Pipeline\<close>: what \<open>pipeline.py\<close> makes of the answers: the aggregate of a batched review, the
    sequence of the extra passes, the classification by the stack and the final record.
  \<^item> \<open>Batched\<close>: \<open>_checkpointed_sub\<close> and the loop of \<open>_orchestrate\<close> in \<open>pipeline.py\<close>: every pass of a
    batched review under its claim, reused from the store, refused, or run and completed. What other
    processes write meanwhile is given with each pass; the second worker of
    \<open>parallel_batches.py\<close> is one of those.
  \<^item> \<open>Reuse\<close>: \<open>reuse.py\<close> and the service around it, a stored verdict in place of a fresh review.

  \<^bold>\<open>What the lemmas show.\<close> The gate passes only on an empty diff or on a trustworthy review of
  exactly this diff whose findings are cleared (\<open>Gate\<close>); the index of the archive agrees with its
  artifacts (\<open>ReviewProps\<close>); the state of a finding is what its last event says (\<open>Ledger\<close>,
  \<open>Triage\<close>); no interleaving over-commits a slot, no waiter is overtaken and no wait outlasts its
  deadline (\<open>Capacity\<close>, \<open>Acquire\<close>); an accepted review was answered by the last attempt
  and a chain makes no more attempts than budgeted (\<open>Chain\<close>); splitting a diff loses nothing (\<open>Batching\<close>); a lost claim is fenced, a complete pass
  is final, a continuation reuses only matching passes, and an orchestration is consumed only when
  its passes are complete (\<open>OrchProps\<close>); a request has one execution at a time (\<open>Requests\<close>); the time of an execution is
  accounted for once, its deadlines are exact and its cancellation is final (\<open>Budgets\<close>), and only
  the execution that owns a request writes its budget (\<open>BudgetStore\<close>); a metered provider passes
  its daily ceiling by one call at most (\<open>Spend\<close>); the router never queues a review while a
  candidate has a slot free and labels its choices by what caused them (\<open>Routing\<close>); a background
  round is never lost, never a false clear, and cannot forge a line of the report (\<open>Delivery\<close>); no extra pass makes a review more
  trustworthy or loses a finding, and a refuter only annotates (\<open>Passes\<close>); a batched review is
  trustworthy only as a whole, a finished one is clean only if every due pass answered, and a
  refutation is always another provider family's (\<open>Pipeline\<close>, \<open>Batched\<close>); a verdict is reused
  only for exactly the content, base and policy it was given on (\<open>Reuse\<close>). A stack manifest is read back from its
  own document and only annotates: an owning slice is named only where nothing else can own the
  finding (\<open>Stack\<close>).

  \<^bold>\<open>Conventions.\<close> A definition has the name of the function it models. An exception is the left
  side of a sum. A database table is the list of its rows in insertion order; an operation takes
  the table and returns it changed. What lies outside the program is a parameter: git, the hash
  functions, the clock, the processes of the host, and, where SQL leaves the order of equal keys
  open, the choice of a row.

  \<^bold>\<open>Bounds.\<close> Text is text of the code points 0 to 255; counts and times are integers of any size,
  as in Python; seconds of a monotonic clock and other floats are rationals; no definition uses
  fuel.

  \<^bold>\<open>Not modelled.\<close> The processes, threads, locks and files of \<open>pipeline.py\<close>, \<open>dispatch.py\<close> and the
  adapters; argument parsing and printing (\<open>cli.py\<close>, \<open>mcpserver.py\<close>); the migrations and the
  recovery of the SQLite file; prompts; and the reports over the store.
\<close>

end
